(* ===== verification/TLive_Prelude.thy ===== *)
theory TLive_Prelude
  imports Main
begin

text \<open>
  Shared vocabulary of the development: Python exceptions as values of a sum type, the
  sequencing operators of fallible code, Python's list indexing, searching and slicing, and
  the generic list lemmas the component theories rest on.
\<close>

section \<open>Fallible Python code\<close>

text \<open>
  A raised exception is the left summand. The string is the fixed part of the message; the
  interpolated values of an f-string message are left out.
\<close>

datatype pyerr =
    ValueError string
  | TypeError string
  | AttributeError string
  | RuntimeError string
  | AssertionError string
  | IndexError
  | KeyError string
  | ZeroDivisionError
  | OverflowError string
  | StopIteration
  | NotImplementedError string

type_synonym 'a res = "pyerr + 'a"

named_theorems res_simps \<open>rewrite rules that run fallible code\<close>

definition rbind :: "'a res \<Rightarrow> ('a \<Rightarrow> 'b res) \<Rightarrow> 'b res" where
  "rbind m f = (case m of Inl e \<Rightarrow> Inl e | Inr x \<Rightarrow> f x)"

definition require :: "bool \<Rightarrow> pyerr \<Rightarrow> unit res" where
  "require b e = (if b then Inr () else Inl e)"

definition of_option :: "pyerr \<Rightarrow> 'a option \<Rightarrow> 'a res" where
  "of_option e x = (case x of None \<Rightarrow> Inl e | Some y \<Rightarrow> Inr y)"

fun map_res :: "('a \<Rightarrow> 'b res) \<Rightarrow> 'a list \<Rightarrow> 'b list res" where
  "map_res f [] = Inr []"
| "map_res f (x # xs) = rbind (f x) (\<lambda>y. rbind (map_res f xs) (\<lambda>ys. Inr (y # ys)))"

fun fold_res :: "('a \<Rightarrow> 's \<Rightarrow> 's res) \<Rightarrow> 'a list \<Rightarrow> 's \<Rightarrow> 's res" where
  "fold_res f [] s = Inr s"
| "fold_res f (x # xs) s = rbind (f x s) (fold_res f xs)"

lemma rbind_Inr [simp]: "rbind (Inr x) f = f x"
  and rbind_Inl [simp]: "rbind (Inl e) f = Inl e"
  by (simp_all add: rbind_def)

lemma rbind_eq_Inr: "rbind m f = Inr y \<longleftrightarrow> (\<exists>x. m = Inr x \<and> f x = Inr y)"
  by (cases m) auto

lemma rbind_eq_Inl: "rbind m f = Inl e \<longleftrightarrow> m = Inl e \<or> (\<exists>x. m = Inr x \<and> f x = Inl e)"
  by (cases m) auto

lemma rbind_assoc: "rbind (rbind m f) g = rbind m (\<lambda>x. rbind (f x) g)"
  by (cases m) simp_all

lemma require_True [simp]: "require True e = Inr ()"
  and require_False [simp]: "require False e = Inl e"
  by (simp_all add: require_def)

lemma require_eq_Inr: "require b e = Inr u \<longleftrightarrow> b"
  by (simp add: require_def)

lemma require_eq_Inl: "require b e = Inl e' \<longleftrightarrow> \<not> b \<and> e' = e"
  by (auto simp: require_def)

lemma of_option_Some [simp]: "of_option e (Some x) = Inr x"
  and of_option_None [simp]: "of_option e None = Inl e"
  by (simp_all add: of_option_def)

lemma of_option_eq_Inr: "of_option e x = Inr y \<longleftrightarrow> x = Some y"
  by (cases x) simp_all

lemmas res_iffs = rbind_eq_Inr require_eq_Inr of_option_eq_Inr

declare rbind_Inr [res_simps] rbind_Inl [res_simps] require_True [res_simps]
  require_False [res_simps] of_option_Some [res_simps] of_option_None [res_simps]

lemma map_res_eq_Inr:
  "map_res f xs = Inr ys \<longleftrightarrow>
     length ys = length xs \<and> (\<forall>i < length xs. f (xs ! i) = Inr (ys ! i))"
proof (induction xs arbitrary: ys)
  case Nil
  then show ?case by auto
next
  case (Cons x xs)
  show ?case
  proof (cases ys)
    case Nil
    then show ?thesis by (simp add: rbind_eq_Inr)
  next
    case (Cons y ys')
    then show ?thesis
      using Cons.IH [of ys'] by (auto simp: rbind_eq_Inr nth_Cons split: nat.splits)
  qed
qed

lemma map_res_pure: "(\<And>x. x \<in> set xs \<Longrightarrow> f x = Inr (g x)) \<Longrightarrow> map_res f xs = Inr (map g xs)"
  by (induction xs) simp_all

lemma fold_res_append:
  "fold_res f (xs @ ys) s = rbind (fold_res f xs s) (fold_res f ys)"
proof (induction xs arbitrary: s)
  case (Cons x xs)
  then show ?case by (cases "f x s") simp_all
qed simp

text \<open>The invariant rule of a fallible loop.\<close>

lemma fold_res_invariant:
  assumes "fold_res f xs s = Inr t" and "P s"
    and "\<And>x s s'. x \<in> set xs \<Longrightarrow> P s \<Longrightarrow> f x s = Inr s' \<Longrightarrow> P s'"
  shows "P t"
  using assms
proof (induction xs arbitrary: s)
  case Nil
  then show ?case by simp
next
  case (Cons x xs)
  from Cons.prems(1) obtain s' where step: "f x s = Inr s'" and rest: "fold_res f xs s' = Inr t"
    by (auto simp: rbind_eq_Inr)
  from Cons.prems(3) [OF _ Cons.prems(2) step] have "P s'" by simp
  with rest show ?case
    using Cons.IH Cons.prems(3) by (metis list.set_intros(2))
qed

section \<open>Python sequences\<close>

text \<open>\<open>xs[i]\<close>: a negative index counts from the end, an index out of range raises.\<close>

definition py_nth :: "'a list \<Rightarrow> int \<Rightarrow> 'a res" where
  "py_nth xs i =
     (let j = (if i < 0 then int (length xs) + i else i)
      in if 0 \<le> j \<and> j < int (length xs) then Inr (xs ! nat j) else Inl IndexError)"

lemma py_nth_in [simp]:
  "0 \<le> i \<Longrightarrow> i < int (length xs) \<Longrightarrow> py_nth xs i = Inr (xs ! nat i)"
  by (simp add: py_nth_def)

lemma py_nth_of_nat: "py_nth xs (int i) = (if i < length xs then Inr (xs ! i) else Inl IndexError)"
  by (simp add: py_nth_def)

lemma py_nth_eq_InrD: "0 \<le> i \<Longrightarrow> py_nth xs i = Inr x \<Longrightarrow> i < int (length xs) \<and> x = xs ! nat i"
  by (auto simp: py_nth_def Let_def split: if_splits)

text \<open>\<open>xs.index(x, st)\<close> on a list, \<open>None\<close> where Python raises \<open>ValueError\<close>.\<close>

fun py_index :: "'a list \<Rightarrow> 'a \<Rightarrow> nat \<Rightarrow> nat option" where
  "py_index [] x st = None"
| "py_index (y # ys) x 0 = (if y = x then Some 0 else map_option Suc (py_index ys x 0))"
| "py_index (y # ys) x (Suc st) = map_option Suc (py_index ys x st)"

lemma py_index_drop: "py_index xs x st = map_option ((+) st) (py_index (drop st xs) x 0)"
proof (induction xs x st rule: py_index.induct)
  case (2 y ys x)
  show ?case by (cases "py_index ys x 0") auto
next
  case (3 y ys x st)
  then show ?case by (cases "py_index (drop st ys) x 0") auto
qed simp

lemma py_index_0_append:
  "py_index (xs @ ys) x 0 =
     (if x \<in> set xs then py_index xs x 0 else map_option ((+) (length xs)) (py_index ys x 0))"
proof (induction xs)
  case Nil
  show ?case by (cases "py_index ys x 0") auto
next
  case (Cons a xs)
  then show ?case by (cases "py_index ys x 0") auto
qed

lemma py_index_None_iff: "py_index xs x 0 = None \<longleftrightarrow> x \<notin> set xs"
  by (induction xs) auto

lemma py_index_first:
  "x \<notin> set pre \<Longrightarrow> py_index (pre @ x # post) x 0 = Some (length pre)"
  by (simp add: py_index_0_append)

lemma py_index_found:
  "py_index xs x st = Some i \<Longrightarrow> st \<le> i \<and> i < length xs \<and> xs ! i = x"
  by (induction xs x st arbitrary: i rule: py_index.induct) (auto split: if_splits)

text \<open>\<open>xs[i:j]\<close> for non-negative bounds.\<close>

definition py_slice :: "'a list \<Rightarrow> nat \<Rightarrow> nat \<Rightarrow> 'a list" where
  "py_slice xs i j = drop i (take j xs)"

lemma length_py_slice: "length (py_slice xs i j) = min j (length xs) - i"
  by (simp add: py_slice_def)

lemma set_py_slice: "set (py_slice xs i j) \<subseteq> set xs"
  by (auto simp: py_slice_def dest: in_set_dropD in_set_takeD)

lemma py_slice_append3: "py_slice (xs @ ys @ zs) (length xs) (length xs + length ys) = ys"
  by (simp add: py_slice_def)

text \<open>\<open>[x] * n\<close>: a negative count gives the empty list.\<close>

abbreviation py_repeat :: "int \<Rightarrow> 'a \<Rightarrow> 'a list" where
  "py_repeat n x \<equiv> replicate (nat n) x"

section \<open>Counting and summing\<close>

lemma count_list_replicate: "count_list (replicate n x) y = (if x = y then n else 0)"
  by (induction n) auto

lemma count_list_concat: "count_list (concat xss) x = sum_list (map (\<lambda>xs. count_list xs x) xss)"
  by (induction xss) simp_all

text \<open>Consecutive differences of a sequence telescope.\<close>

lemma sum_list_diffs:
  fixes b :: "nat \<Rightarrow> 'a::ab_group_add"
  shows "(\<Sum>i\<leftarrow>[0..<n]. b (Suc i) - b i) = b n - b 0"
  by (induction n) simp_all

lemma sum_list_map_upt_nat_diffs:
  fixes b :: "nat \<Rightarrow> int"
  assumes "\<And>i. i < n \<Longrightarrow> b i \<le> b (Suc i)"
  shows "int (\<Sum>i\<leftarrow>[0..<n]. nat (b (Suc i) - b i)) = b n - b 0"
  using assms by (induction n) simp_all

end
