(* ===== verification/Py_Float.thy ===== *)
theory Py_Float
  imports TLive_Prelude "HOL-Library.Log_Nat"
begin

text \<open>
  Binary floating point as the program uses it: a float is the rational it denotes, and
  each arithmetic operation is the exact one followed by rounding to \<open>p\<close> significant bits,
  half to even (53 bits for Python's \<open>float\<close> and for \<open>numpy.float64\<close>, 24 for
  \<open>torch.float32\<close>, 8 for \<open>torch.bfloat16\<close>). The exponent range is unbounded: overflow,
  subnormals, infinities and NaN are outside the model.
\<close>

section \<open>Rounding to a precision\<close>

definition two_powi :: "int \<Rightarrow> rat" where
  "two_powi e = (if 0 \<le> e then 2 ^ nat e else 1 / 2 ^ nat (- e))"

text \<open>For positive \<open>x\<close>: the exponent \<open>e\<close> with \<open>2\<^sup>e \<le> x < 2\<^sup>e\<^sup>+\<^sup>1\<close>.\<close>

definition binade :: "rat \<Rightarrow> int" where
  "binade x =
     (case quotient_of x of (a, b) \<Rightarrow>
        let e = bitlen a - bitlen b in if two_powi e \<le> x then e else e - 1)"

definition round_half_even :: "rat \<Rightarrow> int" where
  "round_half_even x =
     (let n = \<lfloor>x\<rfloor>; d = x - of_int n
      in if d < 1 / 2 then n else if 1 / 2 < d then n + 1 else if even n then n else n + 1)"

definition ulp :: "nat \<Rightarrow> rat \<Rightarrow> rat" where
  "ulp p x = two_powi (binade \<bar>x\<bar> - int p + 1)"

definition fl :: "nat \<Rightarrow> rat \<Rightarrow> rat" where
  "fl p x = (if x = 0 then 0 else of_int (round_half_even (x / ulp p x)) * ulp p x)"

abbreviation f64 :: "rat \<Rightarrow> rat" where "f64 \<equiv> fl 53"
abbreviation f32 :: "rat \<Rightarrow> rat" where "f32 \<equiv> fl 24"
abbreviation bf16 :: "rat \<Rightarrow> rat" where "bf16 \<equiv> fl 8"

text \<open>Python's \<open>int(x)\<close> and the tensor casts \<open>.long()\<close> and \<open>.astype(int64)\<close>: towards zero.\<close>

definition trunc :: "rat \<Rightarrow> int" where
  "trunc x = (if 0 \<le> x then \<lfloor>x\<rfloor> else - \<lfloor>- x\<rfloor>)"

text \<open>The float literal \<open>1e-6\<close>, in double and in single precision.\<close>

definition eps_f64 :: rat where "eps_f64 = f64 (1 / 1000000)"
definition eps_f32 :: rat where "eps_f32 = f32 (1 / 1000000)"

section \<open>Powers of two and binades\<close>

lemma two_powi_pos [simp]: "0 < two_powi e"
  by (simp add: two_powi_def)

lemma two_powi_nonzero [simp]: "two_powi e \<noteq> 0"
  using two_powi_pos [of e] by linarith

lemma two_powi_0 [simp]: "two_powi 0 = 1"
  by (simp add: two_powi_def)

lemma two_powi_of_nat: "two_powi (int n) = 2 ^ n"
  by (simp add: two_powi_def)

lemma two_powi_Suc: "two_powi (e + 1) = 2 * two_powi e"
proof (cases "0 \<le> e")
  case True
  then show ?thesis by (simp add: two_powi_def nat_add_distrib)
next
  case False
  then obtain n where "e = - int (Suc n)"
    using int_cases [of e] by auto
  then show ?thesis by (simp add: two_powi_def nat_add_distrib)
qed

lemma two_powi_add_nat: "two_powi (e + int n) = two_powi e * 2 ^ n"
proof (induction n)
  case (Suc n)
  have "two_powi (e + int (Suc n)) = two_powi ((e + int n) + 1)" by (simp add: algebra_simps)
  also have "\<dots> = two_powi e * 2 ^ Suc n" using Suc by (simp add: two_powi_Suc)
  finally show ?case .
qed simp

lemma two_powi_mono: "d \<le> e \<Longrightarrow> two_powi d \<le> two_powi e"
proof -
  assume "d \<le> e"
  then obtain n where "e = d + int n" using zle_iff_zadd by auto
  moreover have "two_powi d * 1 \<le> two_powi d * 2 ^ n"
    by (rule mult_left_mono) (simp_all add: less_imp_le)
  ultimately show ?thesis by (simp add: two_powi_add_nat)
qed

lemma two_powi_strict_mono: "d < e \<Longrightarrow> 2 * two_powi d \<le> two_powi e"
  using two_powi_mono [of "d + 1" e] by (simp add: two_powi_Suc)

lemma two_powi_add: "two_powi (d + e) = two_powi d * two_powi e"
proof (cases "0 \<le> e")
  case True
  then obtain n where "e = int n" using nonneg_int_cases by blast
  then show ?thesis by (simp add: two_powi_add_nat two_powi_of_nat)
next
  case False
  then obtain n where e: "e = - int n" by (metis int_cases2 int_nat_eq neg_int_cases not_le)
  have "two_powi d = two_powi ((d + e) + int n)" by (simp add: e)
  also have "\<dots> = two_powi (d + e) * 2 ^ n" by (rule two_powi_add_nat)
  finally show ?thesis
    by (simp add: e two_powi_def field_simps split: if_splits)
qed

lemma bitlen_rat_bounds:
  assumes "0 < k"
  shows "(2::rat) ^ nat (bitlen k) \<le> 2 * of_int k" and "of_int k < (2::rat) ^ nat (bitlen k)"
proof -
  from assms have "bitlen k \<noteq> 0" and "0 \<le> bitlen k"
    by (simp_all add: bitlen_eq_zero_iff bitlen_nonneg)
  then obtain n where n: "bitlen k = int (Suc n)"
    using int_cases [of "bitlen k"] by (metis gr0_conv_Suc int_nat_eq nat_int zero_less_nat_eq order_le_less)
  with bitlen_bounds [OF assms] have "2 ^ n \<le> k" and "k < 2 ^ Suc n"
    by (simp_all only: n nat_int) simp
  then have "(of_int (2 ^ n) :: rat) \<le> of_int k" and "(of_int k :: rat) < of_int (2 ^ Suc n)"
    by (simp_all only: of_int_le_iff of_int_less_iff)
  then show "(2::rat) ^ nat (bitlen k) \<le> 2 * of_int k" and "of_int k < (2::rat) ^ nat (bitlen k)"
    unfolding n nat_int by simp_all
qed

lemma binade_bounds:
  assumes "0 < x"
  shows "two_powi (binade x) \<le> x" and "x < 2 * two_powi (binade x)"
proof -
  obtain a b where q: "quotient_of x = (a, b)" by (cases "quotient_of x")
  then have b: "0 < b" and x: "x = of_int a / of_int b"
    by (simp_all add: quotient_of_denom_pos quotient_of_div)
  with assms have a: "0 < a" by (simp add: zero_less_divide_iff)
  let ?m = "nat (bitlen a)" and ?n = "nat (bitlen b)"
  define e where "e = bitlen a - bitlen b"
  have "two_powi (e + int ?n) = 2 ^ ?m"
    by (simp add: e_def bitlen_nonneg two_powi_def)
  then have te: "two_powi e * 2 ^ ?n = 2 ^ ?m" by (simp only: two_powi_add_nat)
  have half: "two_powi (e - 1) * 2 = two_powi e"
    using two_powi_Suc [of "e - 1"] by simp
  have bpos: "(0::rat) < of_int b" using b by simp
  have "two_powi (e - 1) * of_int b \<le> two_powi (e - 1) * 2 ^ ?n"
    using bitlen_rat_bounds(2) [OF b] by (intro mult_left_mono) (simp_all add: less_imp_le)
  also have "\<dots> = 2 ^ ?m / 2" by (simp flip: te half)
  also have "\<dots> \<le> of_int a" using bitlen_rat_bounds(1) [OF a] by simp
  finally have lower: "two_powi (e - 1) \<le> x" using bpos by (simp add: x field_simps)
  have "of_int a < two_powi e * 2 ^ ?n" using bitlen_rat_bounds(2) [OF a] te by simp
  also have "\<dots> \<le> two_powi e * (2 * of_int b)"
    using bitlen_rat_bounds(1) [OF b] by (intro mult_left_mono) (simp_all add: less_imp_le)
  finally have upper: "x < 2 * two_powi e" using bpos by (simp add: x field_simps)
  have be: "binade x = (if two_powi e \<le> x then e else e - 1)"
    by (simp add: binade_def q e_def Let_def)
  show "two_powi (binade x) \<le> x" using lower by (simp add: be)
  show "x < 2 * two_powi (binade x)" using upper half by (simp add: be not_le algebra_simps)
qed

lemma binade_unique:
  assumes "two_powi e \<le> x" and "x < 2 * two_powi e"
  shows "binade x = e"
proof -
  have x: "0 < x" using assms(1) two_powi_pos [of e] by linarith
  note B = binade_bounds [OF x]
  show ?thesis
  proof (rule ccontr)
    assume "binade x \<noteq> e"
    then consider "binade x < e" | "e < binade x" by linarith
    then show False
      using two_powi_strict_mono B assms by cases fastforce+
  qed
qed

lemma binade_mono:
  assumes "0 < x" and "x \<le> y"
  shows "binade x \<le> binade y"
proof (rule ccontr)
  assume "\<not> binade x \<le> binade y"
  then have "2 * two_powi (binade y) \<le> two_powi (binade x)"
    by (intro two_powi_strict_mono) simp
  then show False
    using binade_bounds [of x] binade_bounds [of y] assms by linarith
qed

section \<open>Half-even rounding\<close>

lemma round_half_even_of_int [simp]: "round_half_even (of_int n) = n"
  by (simp add: round_half_even_def)

lemma round_half_even_near:
  shows "of_int (round_half_even x) - x \<le> 1 / 2" and "x - of_int (round_half_even x) \<le> 1 / 2"
proof -
  have "of_int \<lfloor>x\<rfloor> \<le> x" and "x < of_int \<lfloor>x\<rfloor> + 1" by linarith+
  then show "of_int (round_half_even x) - x \<le> 1 / 2" and "x - of_int (round_half_even x) \<le> 1 / 2"
    unfolding round_half_even_def Let_def by (simp_all split: if_splits) linarith+
qed

lemma round_half_even_mono:
  assumes "x \<le> y"
  shows "round_half_even x \<le> round_half_even y"
proof (cases "\<lfloor>x\<rfloor> = \<lfloor>y\<rfloor>")
  case True
  with assms show ?thesis by (auto simp: round_half_even_def Let_def)
next
  case False
  with assms have "\<lfloor>x\<rfloor> + 1 \<le> \<lfloor>y\<rfloor>" using floor_mono [OF assms] by linarith
  moreover have "round_half_even x \<le> \<lfloor>x\<rfloor> + 1" and "\<lfloor>y\<rfloor> \<le> round_half_even y"
    by (simp_all add: round_half_even_def Let_def)
  ultimately show ?thesis by linarith
qed

section \<open>Laws of the rounding function\<close>

lemma fl_0 [simp]: "fl p 0 = 0"
  by (simp add: fl_def)

lemma ulp_pos [simp]: "0 < ulp p x"
  by (simp add: ulp_def)

lemma ulp_scaled: "two_powi (binade \<bar>x\<bar>) = ulp (Suc p) x * 2 ^ p"
  using two_powi_add_nat [of "binade \<bar>x\<bar> - int p" p] by (simp add: ulp_def)

text \<open>The rounding error is at most half a unit in the last place.\<close>

lemma fl_error: "\<bar>fl p x - x\<bar> \<le> ulp p x / 2"
proof (cases "x = 0")
  case False
  have "\<bar>of_int (round_half_even (x / ulp p x)) - x / ulp p x\<bar> \<le> 1 / 2"
    using round_half_even_near [of "x / ulp p x"] by linarith
  then have "\<bar>of_int (round_half_even (x / ulp p x)) - x / ulp p x\<bar> * ulp p x \<le> 1 / 2 * ulp p x"
    by (rule mult_right_mono) (simp add: less_imp_le)
  moreover have "\<bar>of_int (round_half_even (x / ulp p x)) - x / ulp p x\<bar> * ulp p x = \<bar>fl p x - x\<bar>"
    using False abs_mult_pos [OF less_imp_le [OF ulp_pos], of _ p x]
    by (simp add: fl_def left_diff_distrib less_imp_neq [OF ulp_pos, symmetric])
  ultimately show ?thesis by simp
qed (simp add: less_imp_le)

text \<open>A positive value stays inside its binade, so rounding is monotone.\<close>

lemma fl_binade:
  assumes "0 < x" and "0 < p"
  shows "two_powi (binade x) \<le> fl p x" and "fl p x \<le> 2 * two_powi (binade x)"
proof -
  obtain q where p: "p = Suc q" using assms(2) gr0_conv_Suc by blast
  let ?u = "ulp p x"
  have u: "two_powi (binade x) = ?u * 2 ^ q"
    using ulp_scaled [of x q] assms(1) by (simp add: p)
  have "of_int (2 ^ q) \<le> x / ?u" and "x / ?u \<le> of_int (2 ^ Suc q)"
    using binade_bounds [OF assms(1)] u by (simp_all add: field_simps)
  then have "2 ^ q \<le> round_half_even (x / ?u)" and "round_half_even (x / ?u) \<le> 2 ^ Suc q"
    using round_half_even_mono round_half_even_of_int by metis+
  then have "of_int (2 ^ q) * ?u \<le> of_int (round_half_even (x / ?u)) * ?u"
    and "of_int (round_half_even (x / ?u)) * ?u \<le> of_int (2 ^ Suc q) * ?u"
    by (simp_all only: mult_right_mono of_int_le_iff less_imp_le ulp_pos)
  then show "two_powi (binade x) \<le> fl p x" and "fl p x \<le> 2 * two_powi (binade x)"
    using assms(1) u by (simp_all add: fl_def mult.commute mult.left_commute)
qed

lemma fl_mono_pos:
  assumes "0 < x" and "x \<le> y" and "0 < p"
  shows "fl p x \<le> fl p y"
proof (cases "binade x = binade y")
  case True
  then have "ulp p x = ulp p y" using assms by (simp add: ulp_def)
  moreover have "round_half_even (x / ulp p y) \<le> round_half_even (y / ulp p y)"
    using assms by (intro round_half_even_mono divide_right_mono) (simp_all add: less_imp_le)
  ultimately show ?thesis
    using assms by (simp add: fl_def mult_right_mono less_imp_le)
next
  case False
  with assms binade_mono have "binade x < binade y" by (metis order_le_less)
  then have "2 * two_powi (binade x) \<le> two_powi (binade y)" by (rule two_powi_strict_mono)
  then show ?thesis using fl_binade [of x p] fl_binade [of y p] assms by linarith
qed

lemma fl_nonneg: "0 \<le> x \<Longrightarrow> 0 < p \<Longrightarrow> 0 \<le> fl p x"
proof (cases "x = 0")
  case False
  assume "0 \<le> x" and "0 < p"
  with False have "two_powi (binade x) \<le> fl p x" by (intro fl_binade) simp_all
  then show ?thesis using two_powi_pos [of "binade x"] by linarith
qed simp

lemma fl_mono: "0 \<le> x \<Longrightarrow> x \<le> y \<Longrightarrow> 0 < p \<Longrightarrow> fl p x \<le> fl p y"
  by (cases "x = 0") (simp_all add: fl_nonneg fl_mono_pos)

text \<open>Integers of at most \<open>p\<close> bits are representable.\<close>

lemma fl_of_nat:
  assumes "n < 2 ^ p"
  shows "fl p (of_nat n) = of_nat n"
proof (cases "n = 0")
  case False
  let ?x = "of_nat n :: rat"
  have x: "0 < ?x" using False by simp
  have "(of_nat n :: rat) < of_nat (2 ^ p)" using assms by (simp only: of_nat_less_iff)
  then have "two_powi (binade ?x) < two_powi (int p)"
    using binade_bounds(1) [OF x] by (simp add: two_powi_of_nat del: of_nat_less_numeral_power_cancel_iff of_nat_less_of_nat_power_cancel_iff)
  then have "binade ?x < int p" using two_powi_mono by (metis not_le)
  then obtain k where k: "binade ?x - int p + 1 = - int k"
    using nonpos_int_cases [of "binade ?x - int p + 1"] by auto
  then have "ulp p ?x = 1 / 2 ^ k" by (simp add: ulp_def two_powi_def)
  then have "?x / ulp p ?x = of_int (int n * 2 ^ k)" by simp
  then have "of_int (round_half_even (?x / ulp p ?x)) = ?x / ulp p ?x"
    by (metis round_half_even_of_int)
  then show ?thesis using x by (simp add: fl_def less_imp_neq [OF ulp_pos, symmetric])
qed simp

text \<open>
  The relative form of the error bound: rounding a positive value moves it by at most its
  \<open>2\<^sup>p\<close>-th part.
\<close>

lemma fl_rel_error:
  assumes "0 < x" and "0 < p"
  shows "\<bar>fl p x - x\<bar> \<le> x / 2 ^ p"
proof -
  obtain q where p: "p = Suc q" using assms(2) gr0_conv_Suc by blast
  have "ulp p x * 2 ^ q \<le> x"
    using ulp_scaled [of x q] binade_bounds(1) [OF assms(1)] assms(1) by (simp add: p)
  then have "ulp p x / 2 \<le> x / 2 ^ p" by (simp add: p field_simps)
  with fl_error [of p x] show ?thesis by linarith
qed

text \<open>The ceiling of a rounded quotient of small integers is the exact one.\<close>

lemma fl_of_int: "0 \<le> n \<Longrightarrow> n < 2 ^ p \<Longrightarrow> fl p (of_int n) = of_int n"
  using fl_of_nat [of "nat n" p] by (simp add: nat_less_iff)

lemma ceiling_fl_quotient:
  assumes "0 < n" and "n < 2 ^ p" and "0 < d" and "d < 2 ^ p" and "0 < p"
  shows "\<lceil>fl p (fl p (of_int n) / fl p (of_int d))\<rceil> = (n - 1) div d + 1"
proof -
  let ?k = "(n - 1) div d" and ?x = "of_int n / of_int d :: rat"
  have x: "0 < ?x" using assms by simp
  have k: "0 \<le> ?k" "?k * d < n" "n \<le> (?k + 1) * d"
  proof -
    have "?k * d + (n - 1) mod d = n - 1" by (rule div_mult_mod_eq)
    moreover have "0 \<le> (n - 1) mod d" and "(n - 1) mod d < d" using assms(3) by simp_all
    moreover have "(?k + 1) * d = ?k * d + d" by (simp only: distrib_right mult_1)
    ultimately show "?k * d < n" and "n \<le> (?k + 1) * d" by linarith+
    show "0 \<le> ?k" using assms by (simp add: pos_imp_zdiv_nonneg_iff)
  qed
  have "?k + 1 \<le> n" using k(2) assms(3) by (smt (verit) mult_le_cancel_left1 k(1))
  with assms(2) k(1) have rep: "fl p (of_int (?k + 1)) = of_int (?k + 1)"
  proof (cases "?k + 1 = n")
    case True
    with assms show ?thesis by (simp only: fl_of_int)
  next
    case False
    with assms \<open>?k + 1 \<le> n\<close> k(1) show ?thesis by (intro fl_of_int) simp_all
  qed
  have "?x \<le> of_int (?k + 1)"
  proof -
    have "(of_int n :: rat) \<le> of_int ((?k + 1) * d)" using k(3) by (simp only: of_int_le_iff)
    then show ?thesis using assms(3) by (simp add: pos_divide_le_eq)
  qed
  then have upper: "fl p ?x \<le> of_int (?k + 1)"
    using fl_mono [of ?x "of_int (?k + 1)" p] rep x assms(5) by simp
  have gap: "of_int ?k + 1 / of_int d \<le> ?x"
  proof -
    have "(of_int (?k * d + 1) :: rat) \<le> of_int n" using k(2) by (simp only: of_int_le_iff)
    then have "of_int (?k * d + 1) / of_int d \<le> ?x"
      using assms(3) by (intro divide_right_mono) simp_all
    then show ?thesis using assms(3) by (simp add: add_divide_distrib)
  qed
  have "(of_int n :: rat) < of_int (2 ^ p)" using assms(2) by (simp only: of_int_less_iff)
  then have "?x / 2 ^ p < 1 / of_int d" using assms(3) by (simp add: field_simps)
  with fl_rel_error [OF x assms(5)] gap have lower: "of_int ?k < fl p ?x" by linarith
  from upper lower have "\<lceil>fl p ?x\<rceil> = ?k + 1" by (simp add: ceiling_eq_iff)
  then show ?thesis using assms by (simp add: fl_of_int)
qed

section \<open>Truncation\<close>

lemma trunc_nonneg: "0 \<le> x \<Longrightarrow> trunc x = \<lfloor>x\<rfloor>"
  by (simp add: trunc_def)

lemma trunc_mono: "0 \<le> x \<Longrightarrow> x \<le> y \<Longrightarrow> trunc x \<le> trunc y"
  by (simp add: trunc_def floor_mono)

lemma trunc_ge_0: "0 \<le> x \<Longrightarrow> 0 \<le> trunc x"
  by (simp add: trunc_def)

lemma trunc_of_int [simp]: "trunc (of_int n) = n"
  by (simp add: trunc_def)

end
