(* ===== verification/Py_Value.thy ===== *)
theory Py_Value
  imports Py_Float "HOL-Library.AList"
begin

text \<open>
  Python values whose type the code inspects at run time (options, conversations, metadata), and
  dictionaries as association lists in the order of insertion. Keys of dictionaries are strings, as
  they are for keyword arguments and messages.
\<close>

datatype pyval =
    PyNone
  | PyBool bool
  | PyInt int
  | PyFloat rat
  | PyStr string
  | PyList "pyval list"
  | PyTuple "pyval list"
  | PyDict "(string \<times> pyval) list"
  | PyObject "(string \<times> pyval) list"

text \<open>\<open>PyObject\<close> is an instance of some other class, with its attributes.\<close>

type_synonym pydict = "(string \<times> pyval) list"

section \<open>Truth, numbers, hashing\<close>

text \<open>\<open>bool(x)\<close>; an object of another class is true unless its class says otherwise.\<close>

fun truthy :: "pyval \<Rightarrow> bool" where
  "truthy PyNone = False"
| "truthy (PyBool b) = b"
| "truthy (PyInt i) = (i \<noteq> 0)"
| "truthy (PyFloat x) = (x \<noteq> 0)"
| "truthy (PyStr s) = (s \<noteq> [])"
| "truthy (PyList xs) = (xs \<noteq> [])"
| "truthy (PyTuple xs) = (xs \<noteq> [])"
| "truthy (PyDict d) = (d \<noteq> [])"
| "truthy (PyObject _) = True"

definition py_or :: "pyval \<Rightarrow> pyval \<Rightarrow> pyval" where
  "py_or x y = (if truthy x then x else y)"

fun as_number :: "pyval \<Rightarrow> rat res" where
  "as_number (PyBool b) = Inr (if b then 1 else 0)"
| "as_number (PyInt i) = Inr (of_int i)"
| "as_number (PyFloat x) = Inr x"
| "as_number _ = Inl (TypeError ''unsupported operand type'')"

fun py_len :: "pyval \<Rightarrow> nat res" where
  "py_len (PyStr s) = Inr (length s)"
| "py_len (PyList xs) = Inr (length xs)"
| "py_len (PyTuple xs) = Inr (length xs)"
| "py_len (PyDict d) = Inr (length d)"
| "py_len _ = Inl (TypeError ''object has no len()'')"

fun hashable :: "pyval \<Rightarrow> bool" where
  "hashable (PyList _) = False"
| "hashable (PyDict _) = False"
| "hashable (PyTuple xs) = list_all hashable xs"
| "hashable _ = True"

fun is_dict :: "pyval \<Rightarrow> bool" where
  "is_dict (PyDict _) = True"
| "is_dict _ = False"

fun is_bool :: "pyval \<Rightarrow> bool" where
  "is_bool (PyBool _) = True"
| "is_bool _ = False"

section \<open>Dictionaries\<close>

definition has_key :: "string \<Rightarrow> pydict \<Rightarrow> bool" where
  "has_key k d = (map_of d k \<noteq> None)"

definition dict_get :: "pydict \<Rightarrow> string \<Rightarrow> pyval \<Rightarrow> pyval" where
  "dict_get d k dflt = (case map_of d k of Some v \<Rightarrow> v | None \<Rightarrow> dflt)"

abbreviation dict_set :: "string \<Rightarrow> pyval \<Rightarrow> pydict \<Rightarrow> pydict" where
  "dict_set \<equiv> AList.update"

abbreviation dict_del :: "string \<Rightarrow> pydict \<Rightarrow> pydict" where
  "dict_del \<equiv> AList.delete"

definition dict_pop :: "string \<Rightarrow> pydict \<Rightarrow> (pyval \<times> pydict) res" where
  "dict_pop k d = rbind (of_option (KeyError k) (map_of d k)) (\<lambda>v. Inr (v, dict_del k d))"

definition dict_update :: "pydict \<Rightarrow> pydict \<Rightarrow> pydict" where
  "dict_update d e = fold (\<lambda>(k, v). dict_set k v) e d"

text \<open>
  \<open>dict(x)\<close> of a mapping or of a sequence of pairs.
\<close>

fun key_value :: "pyval \<Rightarrow> (string \<times> pyval) res" where
  "key_value (PyList [PyStr k, v]) = Inr (k, v)"
| "key_value (PyTuple [PyStr k, v]) = Inr (k, v)"
| "key_value (PyStr [a, b]) = Inr ([a], PyStr [b])"
| "key_value _ = Inl (TypeError ''cannot convert dictionary update sequence element'')"

fun dict_of :: "pyval \<Rightarrow> pydict res" where
  "dict_of (PyDict d) = Inr d"
| "dict_of (PyList xs) = rbind (map_res key_value xs) (\<lambda>kvs. Inr (dict_update [] kvs))"
| "dict_of (PyTuple xs) = rbind (map_res key_value xs) (\<lambda>kvs. Inr (dict_update [] kvs))"
| "dict_of _ = Inl (TypeError ''object is not iterable'')"

lemma map_of_dict_set [simp]: "map_of (dict_set k v d) = (map_of d)(k \<mapsto> v)"
  by (simp add: update_conv')

lemma map_of_dict_del [simp]: "map_of (dict_del k d) = (map_of d)(k := None)"
  by (simp add: delete_conv')

lemma has_key_set [simp]: "has_key k (dict_set k' v d) \<longleftrightarrow> k = k' \<or> has_key k d"
  by (auto simp: has_key_def)

lemma has_key_del [simp]: "has_key k (dict_del k' d) \<longleftrightarrow> k \<noteq> k' \<and> has_key k d"
  by (auto simp: has_key_def)

lemma dict_get_set [simp]: "dict_get (dict_set k v d) k' dflt = (if k' = k then v else dict_get d k' dflt)"
  by (simp add: dict_get_def)

lemma dict_get_del [simp]: "dict_get (dict_del k d) k' dflt = (if k' = k then dflt else dict_get d k' dflt)"
  by (simp add: dict_get_def)

lemma map_of_dict_update:
  assumes "distinct (map fst e)"
  shows "map_of (dict_update d e) = map_of d ++ map_of e"
  using assms unfolding dict_update_def
proof (induction e arbitrary: d)
  case (Cons kv e)
  obtain k v where kv: "kv = (k, v)" by (cases kv)
  with Cons.prems have "map_of e k = None" by (simp add: map_of_eq_None_iff)
  with Cons kv show ?case by (auto simp: fun_eq_iff map_add_def split: option.splits)
qed simp

lemma distinct_dict_update:
  assumes "distinct (map fst d)"
  shows "distinct (map fst (dict_update d e))"
  using assms unfolding dict_update_def
proof (induction e arbitrary: d)
  case (Cons kv e)
  then show ?case by (cases kv) (simp add: distinct_update)
qed simp

lemma size_map_of [termination_simp]:
  assumes "map_of d k = Some v"
  shows "size v < Suc (size_list (size_prod (\<lambda>_. 0) size) d)"
proof -
  from map_of_SomeD [OF assms] have "(k, v) \<in> set d" .
  then have "size_prod (\<lambda>_. 0) size (k, v) \<le> size_list (size_prod (\<lambda>_. 0) size) d"
    by (rule size_list_estimation') simp
  then show ?thesis by simp
qed

text \<open>Loops of fallible code under recursion through their body\<close>

lemma fold_res_cong [fundef_cong]:
  assumes "xs = ys" and "s = t" and "\<And>x u. x \<in> set ys \<Longrightarrow> f x u = g x u"
  shows "fold_res f xs s = fold_res g ys t"
  unfolding assms(1,2) using assms(3)
proof (induction ys arbitrary: t)
  case (Cons y ys)
  then show ?case by (cases "g y t") simp_all
qed simp

lemma map_res_cong [fundef_cong]:
  assumes "xs = ys" and "\<And>x. x \<in> set ys \<Longrightarrow> f x = g x"
  shows "map_res f xs = map_res g ys"
  unfolding assms(1) using assms(2) by (induction ys) simp_all

end
