(* ===== verification/Media_Options.thy ===== *)
theory Media_Options
  imports Py_Value
begin

text \<open>
  The options of \<open>TLiveOmniProcessor\<close> (\<open>src/tlive_omni/processing_tlive_omni.py\<close>): the helper
  functions on paths, sizes, conversations and metadata, the attributes the constructor sets on the
  media processors, the resolution of the keyword arguments of \<open>__call__\<close>, the replacement of the
  loaders of the transformers package while a call runs, and \<open>apply_chat_template\<close>. The transformers
  package (its merge of keyword arguments, its chat template, its loaders) is a parameter.
\<close>

section \<open>Constants\<close>

definition QWEN35_IMAGE_SIZE :: pydict where
  "QWEN35_IMAGE_SIZE = [(''shortest_edge'', PyInt 65536), (''longest_edge'', PyInt 16777216)]"

definition QWEN35_VIDEO_SIZE :: pydict where
  "QWEN35_VIDEO_SIZE = [(''shortest_edge'', PyInt 4096), (''longest_edge'', PyInt 25165824)]"

definition NATIVE_VIDEO_FPS :: pyval where "NATIVE_VIDEO_FPS = PyFloat 1"
definition NATIVE_VIDEO_MIN_FRAMES :: pyval where "NATIVE_VIDEO_MIN_FRAMES = PyInt 2"
definition NATIVE_VIDEO_MAX_FRAMES :: pyval where "NATIVE_VIDEO_MAX_FRAMES = PyInt 768"
definition NATIVE_PATCH_SIZE :: pyval where "NATIVE_PATCH_SIZE = PyInt 16"
definition NATIVE_TEMPORAL_PATCH_SIZE :: pyval where "NATIVE_TEMPORAL_PATCH_SIZE = PyInt 2"
definition NATIVE_MERGE_SIZE :: pyval where "NATIVE_MERGE_SIZE = PyInt 2"
definition NATIVE_IMAGE_MEAN :: pyval where "NATIVE_IMAGE_MEAN = PyList (replicate 3 (PyFloat (1 / 2)))"
definition NATIVE_IMAGE_STD :: pyval where "NATIVE_IMAGE_STD = PyList (replicate 3 (PyFloat (1 / 2)))"

text \<open>\<open>TLiveOmniProcessorKwargs._defaults\<close>\<close>

definition default_text_kwargs :: pydict where
  "default_text_kwargs = [(''padding'', PyBool False), (''padding_side'', PyStr ''left'')]"

definition default_videos_kwargs :: pydict where
  "default_videos_kwargs =
     [(''return_metadata'', PyBool False),
      (''do_sample_frames'', PyBool True),
      (''fps'', NATIVE_VIDEO_FPS),
      (''min_frames'', NATIVE_VIDEO_MIN_FRAMES),
      (''max_frames'', NATIVE_VIDEO_MAX_FRAMES),
      (''num_frames'', PyNone),
      (''seconds_per_chunk'', PyFloat 2),
      (''position_id_per_seconds'', PyInt 13),
      (''use_audio_in_video'', PyBool False),
      (''size'', PyDict QWEN35_VIDEO_SIZE)]"

definition default_images_kwargs :: pydict where
  "default_images_kwargs = [(''size'', PyDict QWEN35_IMAGE_SIZE)]"

definition default_audio_kwargs :: pydict where
  "default_audio_kwargs =
     [(''sampling_rate'', PyInt 16000), (''padding'', PyBool True), (''truncation'', PyBool False),
      (''return_attention_mask'', PyBool True)]"

section \<open>Helper functions\<close>

text \<open>\<open>decoders\<close> are the keys of \<open>VIDEO_DECODERS\<close>.\<close>

fun validate_video_backend :: "string list \<Rightarrow> pyval \<Rightarrow> string option res" where
  "validate_video_backend decoders PyNone = Inr None"
| "validate_video_backend decoders (PyStr backend) =
     (if backend = [] then Inl (TypeError ''video_backend must be a non-empty string or None'')
      else if backend \<in> set decoders then Inr (Some backend) else Inl (ValueError ''Invalid video_backend''))"
| "validate_video_backend decoders _ = Inl (TypeError ''video_backend must be a non-empty string or None'')"

fun merge_size :: "pydict \<Rightarrow> pyval \<Rightarrow> pydict res" where
  "merge_size default_size PyNone = Inr default_size"
| "merge_size default_size (PyDict sz) = Inr (dict_update default_size sz)"
| "merge_size default_size _ = Inl (TypeError ''size must be a dict'')"

fun normalize_media_path :: "pyval \<Rightarrow> pyval" where
  "normalize_media_path (PyStr s) = (if take 7 s = ''file://'' then PyStr (drop 7 s) else PyStr s)"
| "normalize_media_path media = media"

fun normalize_media_paths :: "pyval \<Rightarrow> pyval" where
  "normalize_media_paths (PyList xs) = PyList (map normalize_media_paths xs)"
| "normalize_media_paths (PyTuple xs) = PyTuple (map normalize_media_paths xs)"
| "normalize_media_paths media = normalize_media_path media"

fun get_video_metadata_value :: "pyval \<Rightarrow> string \<Rightarrow> pyval \<Rightarrow> pyval" where
  "get_video_metadata_value PyNone key dflt = dflt"
| "get_video_metadata_value (PyDict d) key dflt = dict_get d key dflt"
| "get_video_metadata_value (PyObject attrs) key dflt = dict_get attrs key dflt"
| "get_video_metadata_value _ key dflt = dflt"

text \<open>
  The kinds of media a conversation mentions. A content entry whose \<open>type\<close> cannot be hashed raises
  in the membership test.
\<close>

definition media_aliases :: "(string \<times> string list) list" where
  "media_aliases =
     [(''image'', [''image'', ''image_url'']), (''audio'', [''audio'', ''audio_url'']),
      (''video'', [''video'', ''video_url''])]"

definition entry_modes :: "pydict \<Rightarrow> string list" where
  "entry_modes value =
     (let content_type = dict_get value ''type'' PyNone
      in map fst (filter (\<lambda>(mode, names). (\<exists>n \<in> set names. content_type = PyStr n) \<or> list_ex (\<lambda>name. has_key name value) names)
           media_aliases))"

function visit :: "pyval \<Rightarrow> string list \<Rightarrow> string list res" where
  "visit (PyList xs) modes = fold_res visit xs modes"
| "visit (PyTuple xs) modes = fold_res visit xs modes"
| "visit (PyDict d) modes =
     (case (map_of d ''content'', map_of d ''role'') of
        (Some content, Some _) \<Rightarrow> visit content modes
      | _ \<Rightarrow> rbind (require (hashable (dict_get d ''type'' PyNone)) (TypeError ''unhashable type'')) (\<lambda>_.
               Inr (fold List.insert (entry_modes d) modes)))"
| "visit PyNone modes = Inr modes"
| "visit (PyBool v) modes = Inr modes"
| "visit (PyInt v) modes = Inr modes"
| "visit (PyFloat v) modes = Inr modes"
| "visit (PyStr v) modes = Inr modes"
| "visit (PyObject v) modes = Inr modes"
  by pat_completeness auto
termination
  by (relation "measure (\<lambda>(v, _). size v)") (auto dest: size_map_of [OF sym] simp: less_Suc_eq_le size_list_estimation')

definition conversation_media_modes :: "pyval \<Rightarrow> string list res" where
  "conversation_media_modes conversations = visit conversations []"

text \<open>The frame rate of the sampled frames\<close>

definition metadata_sampled_fps :: "pyval \<Rightarrow> pyval \<Rightarrow> pyval res" where
  "metadata_sampled_fps metadata fallback_fps =
     (let sampled_fps = get_video_metadata_value metadata ''sampled_fps'' PyNone
      in if sampled_fps \<noteq> PyNone then Inr sampled_fps
         else
           (let frames_indices = get_video_metadata_value metadata ''frames_indices'' PyNone;
                total_num_frames = get_video_metadata_value metadata ''total_num_frames'' PyNone;
                original_fps = get_video_metadata_value metadata ''fps'' PyNone
            in if frames_indices \<noteq> PyNone \<and> truthy total_num_frames \<and> truthy original_fps then
                 rbind (py_len frames_indices) (\<lambda>n.
                 rbind (as_number total_num_frames) (\<lambda>total.
                 rbind (as_number original_fps) (\<lambda>rate.
                 Inr (PyFloat (f64 (f64 (of_nat n / total) * rate))))))
               else Inr fallback_fps))"

definition round_video_second_per_grid :: "rat \<Rightarrow> rat" where
  "round_video_second_per_grid value = bf16 (f32 value)"

section \<open>The constructor\<close>

text \<open>
  The attributes \<open>__init__\<close> sets on the video processor it is given. A processor of another class is
  replaced by a \<open>Qwen3VLVideoProcessor\<close>, whose constructor is the parameter \<open>qwen3_vl\<close>.
\<close>

definition qwen3_vl_arguments :: pydict where
  "qwen3_vl_arguments =
     [(''patch_size'', NATIVE_PATCH_SIZE),
      (''temporal_patch_size'', NATIVE_TEMPORAL_PATCH_SIZE),
      (''merge_size'', NATIVE_MERGE_SIZE),
      (''image_mean'', NATIVE_IMAGE_MEAN),
      (''image_std'', NATIVE_IMAGE_STD),
      (''size'', PyDict QWEN35_VIDEO_SIZE),
      (''do_sample_frames'', PyBool True),
      (''fps'', NATIVE_VIDEO_FPS),
      (''min_frames'', NATIVE_VIDEO_MIN_FRAMES),
      (''max_frames'', NATIVE_VIDEO_MAX_FRAMES)]"

definition native_attributes :: "pydict \<Rightarrow> pydict" where
  "native_attributes attrs =
     dict_update attrs
       [(''patch_size'', NATIVE_PATCH_SIZE),
        (''temporal_patch_size'', NATIVE_TEMPORAL_PATCH_SIZE),
        (''merge_size'', NATIVE_MERGE_SIZE),
        (''image_mean'', NATIVE_IMAGE_MEAN),
        (''image_std'', NATIVE_IMAGE_STD)]"

definition init_video_processor :: "(pydict \<Rightarrow> pydict) \<Rightarrow> string \<Rightarrow> pydict \<Rightarrow> pydict res" where
  "init_video_processor qwen3_vl class_name attrs0 =
     (let attrs = (if class_name \<noteq> ''Qwen3VLVideoProcessor'' then qwen3_vl qwen3_vl_arguments else attrs0);
          attr = (\<lambda>name dflt. dict_get attrs name dflt)
      in rbind (merge_size QWEN35_VIDEO_SIZE (attr ''size'' PyNone)) (\<lambda>size.
         Inr (native_attributes
           (dict_update attrs
             [(''size'', PyDict size),
              (''do_sample_frames'', PyBool (truthy (attr ''do_sample_frames'' (PyBool True)))),
              (''fps'', py_or (attr ''fps'' PyNone) NATIVE_VIDEO_FPS),
              (''min_frames'', py_or (attr ''min_frames'' PyNone) NATIVE_VIDEO_MIN_FRAMES),
              (''max_frames'', py_or (attr ''max_frames'' PyNone) NATIVE_VIDEO_MAX_FRAMES)]))))"

definition init_image_processor :: "pydict \<Rightarrow> pydict" where
  "init_image_processor attrs = native_attributes (dict_set ''size'' (PyDict QWEN35_IMAGE_SIZE) attrs)"

section \<open>The keyword arguments of a call\<close>

text \<open>The pixel limits of \<open>videos_kwargs\<close> are other names for the edges of its \<open>size\<close>.\<close>

definition rename_limit :: "string \<times> string \<Rightarrow> pydict \<times> pydict \<Rightarrow> (pydict \<times> pydict) res" where
  "rename_limit = (\<lambda>(alias, edge) (videos_kwargs, video_size).
     case map_of videos_kwargs alias of
       None \<Rightarrow> Inr (videos_kwargs, video_size)
     | Some v \<Rightarrow>
         rbind (require (\<not> has_key edge video_size) (ValueError ''Specify either videos_kwargs or size, not both.'')) (\<lambda>_.
         Inr (dict_del alias videos_kwargs, dict_set edge v video_size)))"

definition rename_limits :: "pydict \<Rightarrow> pydict res" where
  "rename_limits videos_kwargs =
     rbind (dict_of (py_or (dict_get videos_kwargs ''size'' PyNone) (PyDict []))) (\<lambda>video_size0.
     rbind (fold_res rename_limit [(''min_pixels'', ''shortest_edge''), (''max_pixels'', ''longest_edge'')]
              (videos_kwargs, video_size0)) (\<lambda>(videos_kwargs', video_size).
     Inr (if video_size \<noteq> [] then dict_set ''size'' (PyDict video_size) videos_kwargs' else videos_kwargs')))"

text \<open>The nested dictionary of a kind of media, \<open>kwargs.get(name) or {}\<close>\<close>

definition nested_kwargs :: "string \<Rightarrow> pydict \<Rightarrow> pydict res" where
  "nested_kwargs name kwargs =
     (case py_or (dict_get kwargs name PyNone) (PyDict []) of
        PyDict d \<Rightarrow> Inr d
      | _ \<Rightarrow> Inl (TypeError (name @ '' must be a dict'')))"

definition structural_overrides :: "string list" where
  "structural_overrides = [''patch_size'', ''temporal_patch_size'', ''merge_size'']"

text \<open>Whether an option was given, at the top level or for the kind of media\<close>

definition given :: "string \<Rightarrow> pydict \<Rightarrow> pydict \<Rightarrow> bool" where
  "given name kwargs nested \<longleftrightarrow> dict_get kwargs name PyNone \<noteq> PyNone \<or> dict_get nested name PyNone \<noteq> PyNone"

text \<open>\<open>int(value)\<close>; the digits of a string are decimal.\<close>

fun digits_value :: "string \<Rightarrow> int \<Rightarrow> int option" where
  "digits_value [] n = Some n"
| "digits_value (c # cs) n =
     (if 48 \<le> (of_char c :: nat) \<and> (of_char c :: nat) \<le> 57 then digits_value cs (10 * n + (of_char c - 48)) else None)"

fun py_int :: "pyval \<Rightarrow> int res" where
  "py_int (PyBool b) = Inr (if b then 1 else 0)"
| "py_int (PyInt i) = Inr i"
| "py_int (PyFloat x) = Inr (trunc x)"
| "py_int (PyStr s) = of_option (ValueError ''invalid literal for int()'')
     (case s of
        [] \<Rightarrow> None
      | c # cs \<Rightarrow> if cs \<noteq> [] \<and> c = CHR ''-'' then map_option uminus (digits_value cs 0)
                 else if cs \<noteq> [] \<and> c = CHR ''+'' then digits_value cs 0 else digits_value s 0)"
| "py_int _ = Inl (TypeError ''int() argument must be a string or a number'')"

text \<open>What the merge of the keyword arguments with the defaults returns, per kind of media\<close>

record output_kwargs =
  text_kwargs :: pydict
  images_kwargs :: pydict
  videos_kwargs :: pydict
  audio_kwargs :: pydict

text \<open>The attributes of the processor object that the resolution reads\<close>

record processor_settings =
  video_processor_attrs :: pydict
  tlive_video_backend :: pyval
  tlive_return_video_metadata :: pyval

definition frame_limit :: "string \<Rightarrow> pydict \<times> (string \<times> int) list \<Rightarrow> (pydict \<times> (string \<times> int) list) res" where
  "frame_limit key = (\<lambda>(videos, limits).
     case dict_get videos key PyNone of
       PyNone \<Rightarrow> Inr (dict_del key videos, limits)
     | value \<Rightarrow> rbind (py_int value) (\<lambda>n. Inr (dict_del key videos, limits @ [(key, n)])))"

text \<open>
  The keyword arguments as they reach the merge, with the nested dictionaries: the pixel limits renamed
  and overrides of the architecture refused
\<close>

definition check_call_kwargs :: "pydict \<Rightarrow> (pydict \<times> pydict \<times> pydict) res" where
  "check_call_kwargs kwargs =
     rbind (nested_kwargs ''videos_kwargs'' kwargs) (\<lambda>videos0.
     rbind (nested_kwargs ''images_kwargs'' kwargs) (\<lambda>images.
     rbind (rename_limits videos0) (\<lambda>videos.
     let kwargs' = (if videos \<noteq> [] then dict_set ''videos_kwargs'' (PyDict videos) kwargs else kwargs)
     in rbind (require (\<not> list_ex (\<lambda>name. has_key name kwargs' \<or> has_key name videos \<or> has_key name images) structural_overrides)
          (ValueError ''Per-call architecture overrides are not supported: '')) (\<lambda>_.
        Inr (kwargs', videos, images)))))"

definition wants_metadata :: "processor_settings \<Rightarrow> pydict \<Rightarrow> pydict \<Rightarrow> bool" where
  "wants_metadata pr kwargs videos =
     (case map_of videos ''return_metadata'' of
        Some v \<Rightarrow> truthy v
      | None \<Rightarrow> (case map_of kwargs ''return_metadata'' of
          Some v \<Rightarrow> truthy v
        | None \<Rightarrow> truthy (tlive_return_video_metadata pr)))"

definition default_video_fps :: "processor_settings \<Rightarrow> pyval" where
  "default_video_fps pr =
     (let f = dict_get (video_processor_attrs pr) ''fps'' NATIVE_VIDEO_FPS
      in if f = PyNone then NATIVE_VIDEO_FPS else f)"

text \<open>An option that was not given is set to the native value.\<close>

definition native_fallback :: "(string \<Rightarrow> bool) \<Rightarrow> string \<times> pyval \<Rightarrow> pydict \<Rightarrow> pydict" where
  "native_fallback is_given = (\<lambda>(name, fallback) videos. if is_given name then videos else dict_set name fallback videos)"

definition native_fallbacks :: "(string \<times> pyval) list" where
  "native_fallbacks =
     [(''do_sample_frames'', PyBool True), (''min_frames'', NATIVE_VIDEO_MIN_FRAMES),
      (''max_frames'', NATIVE_VIDEO_MAX_FRAMES)]"

definition resolve_sizes :: "processor_settings \<Rightarrow> bool \<Rightarrow> bool \<Rightarrow> output_kwargs \<Rightarrow> (pydict \<times> pydict) res" where
  "resolve_sizes pr video_size_is_explicit image_size_is_explicit out =
     rbind (merge_size QWEN35_VIDEO_SIZE (dict_get (video_processor_attrs pr) ''size'' PyNone)) (\<lambda>default_video_size.
     rbind (merge_size default_video_size
              (if video_size_is_explicit then dict_get (videos_kwargs out) ''size'' PyNone else PyNone)) (\<lambda>video_size.
     rbind (merge_size QWEN35_IMAGE_SIZE
              (if image_size_is_explicit then dict_get (images_kwargs out) ''size'' PyNone else PyNone)) (\<lambda>image_size.
     Inr (video_size, image_size))))"

text \<open>The options of the processor itself, taken out of the ones of the video processor\<close>

record own_options =
  seconds_per_chunk :: pyval
  position_id_per_seconds :: pyval
  use_audio_in_video :: pyval
  video_backend :: "string option"

definition pop_own_options :: "string list \<Rightarrow> processor_settings \<Rightarrow> pydict \<Rightarrow> (own_options \<times> pydict) res" where
  "pop_own_options decoders pr videos1 =
     rbind (dict_pop ''seconds_per_chunk'' videos1) (\<lambda>(chunk, videos2).
     rbind (dict_pop ''position_id_per_seconds'' videos2) (\<lambda>(per_seconds, videos3).
     rbind (dict_pop ''use_audio_in_video'' videos3) (\<lambda>(use_audio, videos4).
     let call_video_backend = dict_get videos4 ''video_backend'' PyNone
     in rbind (validate_video_backend decoders
                 (if call_video_backend = PyNone then tlive_video_backend pr else call_video_backend)) (\<lambda>backend.
        Inr (\<lparr>seconds_per_chunk = chunk, position_id_per_seconds = per_seconds, use_audio_in_video = use_audio,
              video_backend = backend\<rparr>, dict_del ''video_backend'' videos4)))))"

text \<open>The frame rate for sampling and the one the seconds per grid fall back on\<close>

definition resolve_frame_rate :: "processor_settings \<Rightarrow> bool \<Rightarrow> pydict \<Rightarrow> (pyval \<times> pydict) res" where
  "resolve_frame_rate pr fps_is_explicit videos0 =
     (let videos = (if fps_is_explicit then videos0 else dict_set ''fps'' (default_video_fps pr) videos0);
          fps = dict_get videos ''fps'' (default_video_fps pr);
          num_frames = dict_get videos ''num_frames'' PyNone
      in rbind (require (\<not> (num_frames \<noteq> PyNone \<and> fps_is_explicit))
           (ValueError ''Native video process accepts either `fps` or `num_frames`, not both.'')) (\<lambda>_.
         Inr (if fps \<noteq> PyNone then fps else default_video_fps pr,
              if num_frames \<noteq> PyNone then dict_set ''fps'' PyNone videos else videos)))"

text \<open>The options of a call once resolved\<close>

record call_options = output_kwargs +
  own :: own_options
  video_frame_limits :: "(string \<times> int) list"
  video_second_per_grid_fps :: pyval
  return_video_metadata :: bool

text \<open>
  The part of \<open>__call__\<close> before the media are processed. \<open>merge_kwargs\<close> is \<open>ProcessorMixin._merge_kwargs\<close>.
\<close>

definition resolve_call_options ::
    "(pydict \<Rightarrow> output_kwargs res) \<Rightarrow> string list \<Rightarrow> processor_settings \<Rightarrow> bool \<Rightarrow> pydict \<Rightarrow> call_options res" where
  "resolve_call_options merge_kwargs decoders pr has_videos kwargs0 =
     rbind (check_call_kwargs kwargs0) (\<lambda>(kwargs, videos0, images0).
     rbind (merge_kwargs kwargs) (\<lambda>out.
     rbind (resolve_sizes pr (given ''size'' kwargs videos0) (given ''size'' kwargs images0) out) (\<lambda>(video_size, image_size).
     rbind (pop_own_options decoders pr
              (fold (native_fallback (\<lambda>name. given name kwargs videos0)) native_fallbacks
                (dict_set ''size'' (PyDict video_size) (videos_kwargs out)))) (\<lambda>(own, videos1).
     rbind (resolve_frame_rate pr (given ''fps'' kwargs videos0) videos1) (\<lambda>(grid_fps, videos2).
     rbind (fold_res frame_limit [''min_frames'', ''max_frames''] (videos2, [])) (\<lambda>(videos3, limits).
     Inr \<lparr>text_kwargs = text_kwargs out,
          images_kwargs = dict_set ''size'' (PyDict image_size) (images_kwargs out),
          videos_kwargs = (if has_videos then dict_set ''return_metadata'' (PyBool True) videos3 else videos3),
          audio_kwargs = audio_kwargs out,
          own = own,
          video_frame_limits = limits,
          video_second_per_grid_fps = grid_fps,
          return_video_metadata = wants_metadata pr kwargs videos0\<rparr>))))))"

section \<open>Replacing the loaders of the package\<close>

text \<open>
  The function a module holds under \<open>load_video\<close>: the package's own, or the closure
  \<open>forced_load_video\<close> over a backend and the function it calls. Likewise for \<open>load_audio\<close>.
\<close>

datatype video_loader = LibraryVideo | ForcedVideo string video_loader

datatype audio_loader = LibraryAudio | VideoAudio

record package_state =
  load_video :: "string \<Rightarrow> video_loader option"
  load_audio :: audio_loader

text \<open>A call of a loader; \<open>library\<close> is the package's own function, applied to the positional and the
  keyword arguments after the video.\<close>

fun call_load_video :: "(pyval list \<Rightarrow> pydict \<Rightarrow> 'a) \<Rightarrow> video_loader \<Rightarrow> pyval list \<Rightarrow> pydict \<Rightarrow> 'a" where
  "call_load_video library LibraryVideo args kwargs = library args kwargs"
| "call_load_video library (ForcedVideo backend original) args kwargs =
     (case args of
        PyStr a # rest \<Rightarrow>
          (if a \<in> {''torchcodec'', ''torchvision'', ''decord'', ''pyav'', ''opencv''}
           then call_load_video library original (PyStr backend # rest) (dict_del ''backend'' kwargs)
           else call_load_video library original args (dict_set ''backend'' (PyStr backend) kwargs))
      | _ \<Rightarrow> call_load_video library original args (dict_set ''backend'' (PyStr backend) kwargs))"

text \<open>Code that runs with the package in some state, and may raise\<close>

type_synonym 'a action = "package_state \<Rightarrow> 'a res \<times> package_state"

definition patched_modules :: "bool \<Rightarrow> string list" where
  "patched_modules qwen3_vl_importable =
     [''video_utils'', ''video_processing_utils''] @ (if qwen3_vl_importable then [''video_processing_qwen3_vl''] else [])"

text \<open>
  \<open>_force_transformers_video_backend\<close> around a block; the lock that keeps other threads out is not
  modelled.
\<close>

definition force_transformers_video_backend :: "bool \<Rightarrow> string option \<Rightarrow> 'a action \<Rightarrow> 'a action" where
  "force_transformers_video_backend qwen3_vl_importable backend body s =
     (case backend of
        None \<Rightarrow> body s
      | Some b \<Rightarrow> (case load_video s ''video_utils'' of
          None \<Rightarrow> (Inl (AttributeError ''load_video''), s)
        | Some original_load_video \<Rightarrow>
            (let originals = map (\<lambda>m. (m, load_video s m))
                   (filter (\<lambda>m. load_video s m \<noteq> None) (patched_modules qwen3_vl_importable));
                 patched = fold (\<lambda>(m, _) f. f(m \<mapsto> ForcedVideo b original_load_video)) originals (load_video s);
                 (r, s') = body (s\<lparr>load_video := patched\<rparr>)
             in (r, s'\<lparr>load_video := fold (\<lambda>(m, original) f. f(m := original)) originals (load_video s')\<rparr>))))"

definition force_transformers_video_audio_loader :: "bool \<Rightarrow> 'a action \<Rightarrow> 'a action" where
  "force_transformers_video_audio_loader enabled body s =
     (if \<not> enabled then body s
      else (let (r, s') = body (s\<lparr>load_audio := VideoAudio\<rparr>) in (r, s'\<lparr>load_audio := load_audio s\<rparr>)))"

section \<open>The chat template\<close>

datatype template_output = BatchFeature pydict | OtherOutput pyval

text \<open>The keyword arguments once \<open>processor_kwargs\<close> is merged into them\<close>

definition merge_processor_kwargs :: "pydict \<Rightarrow> pydict res" where
  "merge_processor_kwargs kwargs =
     (case dict_get kwargs ''processor_kwargs'' PyNone of
        PyNone \<Rightarrow> Inr (dict_del ''processor_kwargs'' kwargs)
      | PyDict d \<Rightarrow>
          rbind (require (\<not> list_ex (\<lambda>(k, _). has_key k (dict_del ''processor_kwargs'' kwargs)) d)
            (ValueError ''Processor arguments were provided both directly and in processor_kwargs: '')) (\<lambda>_.
          Inr (dict_update (dict_del ''processor_kwargs'' kwargs) d))
      | _ \<Rightarrow> Inl (TypeError ''processor_kwargs must be a dict''))"

text \<open>The value of the switch that both spellings agree on\<close>

definition explicit_values :: "pyval option list \<Rightarrow> pyval list" where
  "explicit_values vs = filter (\<lambda>v. v \<noteq> PyNone) (List.map_filter id vs)"

definition agreed_switch :: "pyval list \<Rightarrow> bool res" where
  "agreed_switch vs =
     rbind (require (list_all is_bool vs) (TypeError ''use_audio_in_video must be a bool'')) (\<lambda>_.
     rbind (require (vs = [] \<or> list_all (\<lambda>v. v = hd vs) (tl vs)) (ValueError ''Conflicting explicit use_audio_in_video values.'')) (\<lambda>_.
     Inr (vs \<noteq> [] \<and> hd vs = PyBool True)))"

definition check_load_audio :: "bool \<Rightarrow> pyval \<Rightarrow> unit res" where
  "check_load_audio switch v =
     (case v of
        PyNone \<Rightarrow> Inr ()
      | PyBool b \<Rightarrow> require (b = switch) (ValueError ''load_audio_from_video must match use_audio_in_video'')
      | _ \<Rightarrow> Inl (TypeError ''load_audio_from_video must be a bool''))"

definition optional_kwargs :: "string \<Rightarrow> pydict \<Rightarrow> pydict res" where
  "optional_kwargs name kwargs =
     (case dict_get kwargs name PyNone of
        PyNone \<Rightarrow> Inr []
      | PyDict d \<Rightarrow> Inr d
      | _ \<Rightarrow> Inl (TypeError (name @ '' must be a dict'')))"

text \<open>The checks of \<open>apply_chat_template\<close>: the keyword arguments it passes on and the switch\<close>

definition chat_template_kwargs :: "pyval \<Rightarrow> pydict \<Rightarrow> (pydict \<times> bool) res" where
  "chat_template_kwargs conversations kwargs0 =
     rbind (conversation_media_modes conversations) (\<lambda>media_modes.
     rbind (require (length media_modes \<le> 1) (ValueError ''TLive-Omni supports one media mode per apply_chat_template call'')) (\<lambda>_.
     rbind (merge_processor_kwargs kwargs0) (\<lambda>kwargs.
     rbind (optional_kwargs ''videos_kwargs'' kwargs) (\<lambda>videos.
     rbind (agreed_switch (explicit_values [map_of kwargs ''use_audio_in_video'', map_of videos ''use_audio_in_video''])) (\<lambda>switch.
     rbind (require (switch \<longrightarrow> media_modes = [''video'']) (ValueError ''use_audio_in_video=True requires a video-only conversation.'')) (\<lambda>_.
     rbind (check_load_audio switch (dict_get kwargs ''load_audio_from_video'' PyNone)) (\<lambda>_.
     let videos' = dict_set ''use_audio_in_video'' (PyBool switch) (dict_del ''use_audio_in_video'' videos)
     in Inr (dict_set ''load_audio_from_video'' (PyBool switch)
               (dict_del ''use_audio_in_video'' (dict_set ''videos_kwargs'' (PyDict videos') kwargs)), switch))))))))"

text \<open>\<open>super_template\<close> is \<open>ProcessorMixin.apply_chat_template\<close>.\<close>

definition apply_chat_template ::
    "(pyval \<Rightarrow> pyval \<Rightarrow> pydict \<Rightarrow> template_output action) \<Rightarrow> pyval \<Rightarrow> pyval \<Rightarrow> pydict \<Rightarrow> template_output action" where
  "apply_chat_template super_template conversations chat_template kwargs0 s =
     (case chat_template_kwargs conversations kwargs0 of
        Inl e \<Rightarrow> (Inl e, s)
      | Inr (kwargs, switch) \<Rightarrow>
          (let (r, s') = force_transformers_video_audio_loader switch (super_template conversations chat_template kwargs) s
           in (rbind r (\<lambda>output. Inr (case output of
                  BatchFeature data \<Rightarrow> BatchFeature (dict_set ''use_audio_in_video'' (PyBool switch) data)
                | OtherOutput v \<Rightarrow> OtherOutput v)), s')))"

end
