(* ===== verification/Media_Options_Correct.thy ===== *)
theory Media_Options_Correct
  imports Media_Options
begin

text \<open>
  What the options of a call resolve to, that the loaders of the package are put back after every call,
  and what the chat template passes on.
\<close>

section \<open>Loaders\<close>

text \<open>The backend a call of the package's loader asks for: its first positional argument, else the keyword\<close>

definition requested_backend :: "pyval list \<Rightarrow> pydict \<Rightarrow> pyval" where
  "requested_backend args kwargs =
     (case args of PyStr a # _ \<Rightarrow> PyStr a | _ \<Rightarrow> dict_get kwargs ''backend'' PyNone)"

definition names_decoder :: "pyval list \<Rightarrow> bool" where
  "names_decoder args =
     (case args of PyStr a # _ \<Rightarrow> a \<in> {''torchcodec'', ''torchvision'', ''decord'', ''pyav'', ''opencv''} | _ \<Rightarrow> True)"

lemma forced_call:
  assumes "names_decoder args"
  shows "\<exists>args' kwargs'. call_load_video library (ForcedVideo b LibraryVideo) args kwargs = library args' kwargs' \<and>
    requested_backend args' kwargs' = PyStr b"
proof (cases "\<exists>a rest. args = PyStr a # rest")
  case True
  then obtain a rest where args: "args = PyStr a # rest" by blast
  with assms have "call_load_video library (ForcedVideo b LibraryVideo) args kwargs =
      library (PyStr b # rest) (dict_del ''backend'' kwargs)"
    by (simp add: names_decoder_def)
  moreover have "requested_backend (PyStr b # rest) (dict_del ''backend'' kwargs) = PyStr b"
    by (simp add: requested_backend_def)
  ultimately show ?thesis by blast
next
  case False
  then have "call_load_video library (ForcedVideo b LibraryVideo) args kwargs =
      library args (dict_set ''backend'' (PyStr b) kwargs)"
    by (auto split: list.split pyval.split)
  moreover from False have "requested_backend args (dict_set ''backend'' (PyStr b) kwargs) = PyStr b"
    by (auto simp: requested_backend_def split: list.split pyval.split)
  ultimately show ?thesis by blast
qed

lemma fold_map_upds:
  "fold (\<lambda>(m, v) f. f(m := g m v)) ms f x =
     (case map_of (rev ms) x of Some v \<Rightarrow> g x v | None \<Rightarrow> f x)"
  by (induction ms arbitrary: f) (auto split: option.splits)

lemma map_of_pairs: "map_of (map (\<lambda>m. (m, h m)) xs) m = (if m \<in> set xs then Some (h m) else None)"
  by (simp add: map_of_map_restrict restrict_map_def)

lemma force_backend_run:
  assumes "load_video s ''video_utils'' = Some original"
  obtains r s1 s2 where "body s1 = (r, s2)"
    and "fst (force_transformers_video_backend q (Some b) body s) = r"
    and "load_audio s1 = load_audio s" and "load_audio (snd (force_transformers_video_backend q (Some b) body s)) = load_audio s2"
    and "\<And>m. load_video s1 m =
      (if m \<in> set (patched_modules q) \<and> load_video s m \<noteq> None then Some (ForcedVideo b original) else load_video s m)"
    and "\<And>m. load_video (snd (force_transformers_video_backend q (Some b) body s)) m =
      (if m \<in> set (patched_modules q) \<and> load_video s m \<noteq> None then load_video s m else load_video s2 m)"
proof -
  define originals where
    "originals = map (\<lambda>m. (m, load_video s m)) (filter (\<lambda>m. load_video s m \<noteq> None) (patched_modules q))"
  define s1 where
    "s1 = s\<lparr>load_video := fold (\<lambda>(m, _) f. f(m \<mapsto> ForcedVideo b original)) originals (load_video s)\<rparr>"
  obtain r s2 where body: "body s1 = (r, s2)" by (cases "body s1")
  have run: "force_transformers_video_backend q (Some b) body s =
      (r, s2\<lparr>load_video := fold (\<lambda>(m, original) f. f(m := original)) originals (load_video s2)\<rparr>)"
    using assms body by (simp add: force_transformers_video_backend_def originals_def s1_def Let_def)
  have originals: "map_of (rev originals) m =
      (if m \<in> set (patched_modules q) \<and> load_video s m \<noteq> None then Some (load_video s m) else None)" for m
    unfolding originals_def rev_map map_of_pairs by simp
  have patched: "load_video s1 m =
      (if m \<in> set (patched_modules q) \<and> load_video s m \<noteq> None then Some (ForcedVideo b original) else load_video s m)" for m
    unfolding s1_def using fold_map_upds [of "\<lambda>_ _. Some (ForcedVideo b original)" originals "load_video s" m] originals [of m]
    by simp
  have restored: "load_video (snd (force_transformers_video_backend q (Some b) body s)) m =
      (if m \<in> set (patched_modules q) \<and> load_video s m \<noteq> None then load_video s m else load_video s2 m)" for m
    unfolding run using fold_map_upds [of "\<lambda>_ v. v" originals "load_video s2" m] originals [of m] by auto
  show thesis
    by (rule that [OF body _ _ _ patched restored]) (simp_all add: run, simp add: s1_def)
qed

text \<open>
  C13: While the block of a forced backend runs, every module that had a \<open>load_video\<close> sends each call
  to the package's own loader with that backend, whatever backend the caller names. Afterwards, whether
  the block returned or raised, every such module has its own function again.
\<close>

theorem video_backend_forced_and_restored:
  assumes "load_video s ''video_utils'' = Some LibraryVideo"
  shows "\<exists>s1. fst (force_transformers_video_backend q (Some b) body s) = fst (body s1) \<and>
    (\<forall>m \<in> set (patched_modules q). load_video s m \<noteq> None \<longrightarrow>
       load_video (snd (force_transformers_video_backend q (Some b) body s)) m = load_video s m \<and>
       (\<forall>library args kwargs. names_decoder args \<longrightarrow>
          (\<exists>args' kwargs'. call_load_video library (the (load_video s1 m)) args kwargs = (library args' kwargs' :: 'b) \<and>
             requested_backend args' kwargs' = PyStr b)))"
proof -
  obtain r s1 s2 where run: "body s1 = (r, s2)" "fst (force_transformers_video_backend q (Some b) body s) = r"
    and patched: "\<And>m. load_video s1 m =
      (if m \<in> set (patched_modules q) \<and> load_video s m \<noteq> None then Some (ForcedVideo b LibraryVideo) else load_video s m)"
    and restored: "\<And>m. load_video (snd (force_transformers_video_backend q (Some b) body s)) m =
      (if m \<in> set (patched_modules q) \<and> load_video s m \<noteq> None then load_video s m else load_video s2 m)"
    using force_backend_run [OF assms] by metis
  show ?thesis
  proof (intro exI [of _ s1] conjI ballI impI allI)
    show "fst (force_transformers_video_backend q (Some b) body s) = fst (body s1)" using run by simp
  next
    fix m assume "m \<in> set (patched_modules q)" and "load_video s m \<noteq> None"
    then show "load_video (snd (force_transformers_video_backend q (Some b) body s)) m = load_video s m"
      using restored by simp
  next
    fix m library args kwargs
    assume "m \<in> set (patched_modules q)" and "load_video s m \<noteq> None" and "names_decoder args"
    then show "\<exists>args' kwargs'. call_load_video library (the (load_video s1 m)) args kwargs = (library args' kwargs' :: 'b) \<and>
        requested_backend args' kwargs' = PyStr b"
      using patched [of m] forced_call [of args library b kwargs] by simp
  qed
qed

definition demo_package :: package_state where
  "demo_package = \<lparr>load_video = (\<lambda>m. if m \<in> {''video_utils'', ''video_processing_utils''} then Some LibraryVideo else None),
     load_audio = LibraryAudio\<rparr>"

theorem video_backend_forced_and_restored_witness:
  "load_video (snd (force_transformers_video_backend True (Some ''decord'')
       (\<lambda>s. (Inl (ValueError ''no frames'') :: unit res, s\<lparr>load_video := Map.empty\<rparr>)) demo_package)) ''video_utils'' = Some LibraryVideo"
proof -
  have "load_video demo_package ''video_utils'' = Some LibraryVideo" by (simp add: demo_package_def)
  from video_backend_forced_and_restored [OF this, of True "''decord''" "\<lambda>s. (Inl (ValueError ''no frames'') :: unit res, s\<lparr>load_video := Map.empty\<rparr>)"]
  show ?thesis by (auto simp: patched_modules_def demo_package_def)
qed

section \<open>The chat template\<close>

lemma agreed_switch_explicit:
  assumes "agreed_switch (explicit_values vs) = Inr u" and "Some v \<in> set vs" and "v \<noteq> PyNone"
  shows "v = PyBool u"
proof -
  from assms(2,3) have v: "v \<in> set (explicit_values vs)"
    by (force simp: explicit_values_def map_filter_def)
  then obtain w ws where ws: "explicit_values vs = w # ws" by (cases "explicit_values vs") simp_all
  with assms(1) have "list_all is_bool (w # ws)" and "list_all (\<lambda>x. x = w) ws" and u: "u = (w = PyBool True)"
    by (auto simp: agreed_switch_def res_iffs)
  with v ws have "v = w" by (auto simp: list_all_iff)
  moreover from \<open>list_all is_bool (w # ws)\<close> obtain b where "w = PyBool b" by (cases w) auto
  ultimately show ?thesis using u by simp
qed

lemma chat_template_kwargs_result:
  assumes "chat_template_kwargs conversations kwargs0 = Inr (kwargs', u)"
  obtains modes kwargs videos where
    "conversation_media_modes conversations = Inr modes" and "length modes \<le> 1"
    and "u \<longrightarrow> modes = [''video'']"
    and "merge_processor_kwargs kwargs0 = Inr kwargs"
    and "optional_kwargs ''videos_kwargs'' kwargs = Inr videos"
    and "agreed_switch (explicit_values [map_of kwargs ''use_audio_in_video'', map_of videos ''use_audio_in_video'']) = Inr u"
    and "check_load_audio u (dict_get kwargs ''load_audio_from_video'' PyNone) = Inr ()"
    and "kwargs' = dict_set ''load_audio_from_video'' (PyBool u)
      (dict_del ''use_audio_in_video'' (dict_set ''videos_kwargs''
        (PyDict (dict_set ''use_audio_in_video'' (PyBool u) (dict_del ''use_audio_in_video'' videos))) kwargs))"
  using assms unfolding chat_template_kwargs_def
  by (auto simp: res_iffs Let_def)

text \<open>The output with the switch recorded in it\<close>

definition flagged :: "bool \<Rightarrow> template_output \<Rightarrow> template_output" where
  "flagged u output = (case output of
      BatchFeature data \<Rightarrow> BatchFeature (dict_set ''use_audio_in_video'' (PyBool u) data)
    | OtherOutput v \<Rightarrow> OtherOutput v)"

lemma apply_chat_template_run:
  assumes "chat_template_kwargs conversations kwargs0 = Inr (kwargs', u)"
    and "super_template conversations chat_template kwargs' (if u then s\<lparr>load_audio := VideoAudio\<rparr> else s) = (r, s2)"
  shows "apply_chat_template super_template conversations chat_template kwargs0 s =
    (rbind r (\<lambda>output. Inr (flagged u output)), if u then s2\<lparr>load_audio := load_audio s\<rparr> else s2)"
  using assms by (cases u) (simp_all add: apply_chat_template_def force_transformers_video_audio_loader_def flagged_def)

lemma optional_kwargs_get:
  assumes "optional_kwargs name kwargs = Inr d"
  shows "map_of kwargs name \<noteq> None \<and> the (map_of kwargs name) \<noteq> PyNone \<longrightarrow> map_of kwargs name = Some (PyDict d)"
  using assms by (auto simp: optional_kwargs_def dict_get_def split: pyval.splits)

lemma mixed_media_rejected:
  assumes "conversation_media_modes conversations = Inr modes" and "1 < length modes"
  shows "apply_chat_template super_template conversations chat_template kwargs s =
    (Inl (ValueError ''TLive-Omni supports one media mode per apply_chat_template call''), s)"
  using assms by (simp add: apply_chat_template_def chat_template_kwargs_def require_def)

text \<open>
  C12: When the checks of the chat template pass, there is one switch \<open>u\<close> for the sound of videos. Every
  value given for it, at the top level, among the video options or as \<open>load_audio_from_video\<close>, is \<open>u\<close>,
  and \<open>u\<close> is set only for conversations whose media are all videos. The template of the package runs
  once, with \<open>u\<close> as \<open>load_audio_from_video\<close> and among the video options and every other option as it
  was given, and with the loader for the sound of videos in place just when \<open>u\<close> is set; the loader is
  put back also when the template raises, and the features returned record \<open>u\<close>.
\<close>

theorem chat_template_one_switch:
  assumes checked: "chat_template_kwargs conversations kwargs0 = Inr (kwargs', u)"
    and run: "super_template conversations chat_template kwargs' (if u then s\<lparr>load_audio := VideoAudio\<rparr> else s) = (r, s2)"
  shows "apply_chat_template super_template conversations chat_template kwargs0 s =
      (rbind r (\<lambda>output. Inr (flagged u output)), if u then s2\<lparr>load_audio := load_audio s\<rparr> else s2) \<and>
    (u \<longrightarrow> conversation_media_modes conversations = Inr [''video'']) \<and>
    (\<exists>kwargs videos videos'. merge_processor_kwargs kwargs0 = Inr kwargs \<and> optional_kwargs ''videos_kwargs'' kwargs = Inr videos \<and>
      (\<forall>v \<in> {map_of kwargs ''use_audio_in_video'', map_of videos ''use_audio_in_video'', map_of kwargs ''load_audio_from_video''}.
         v \<in> {None, Some PyNone, Some (PyBool u)}) \<and>
      kwargs' = dict_set ''load_audio_from_video'' (PyBool u)
        (dict_del ''use_audio_in_video'' (dict_set ''videos_kwargs'' (PyDict videos') kwargs)) \<and>
      map_of videos' = (map_of videos)(''use_audio_in_video'' \<mapsto> PyBool u))"
proof -
  from chat_template_kwargs_result [OF checked] obtain modes kwargs videos where
    modes: "conversation_media_modes conversations = Inr modes" "u \<longrightarrow> modes = [''video'']"
    and merged: "merge_processor_kwargs kwargs0 = Inr kwargs" "optional_kwargs ''videos_kwargs'' kwargs = Inr videos"
    and switch: "agreed_switch (explicit_values [map_of kwargs ''use_audio_in_video'', map_of videos ''use_audio_in_video'']) = Inr u"
    and load: "check_load_audio u (dict_get kwargs ''load_audio_from_video'' PyNone) = Inr ()"
    and kwargs': "kwargs' = dict_set ''load_audio_from_video'' (PyBool u)
      (dict_del ''use_audio_in_video'' (dict_set ''videos_kwargs''
        (PyDict (dict_set ''use_audio_in_video'' (PyBool u) (dict_del ''use_audio_in_video'' videos))) kwargs))"
    by blast
  have "v \<in> {None, Some PyNone, Some (PyBool u)}"
    if "v \<in> {map_of kwargs ''use_audio_in_video'', map_of videos ''use_audio_in_video''}" for v
    using agreed_switch_explicit [OF switch, of "the v"] that by (cases v) auto
  moreover have "map_of kwargs ''load_audio_from_video'' \<in> {None, Some PyNone, Some (PyBool u)}"
    using load by (auto simp: check_load_audio_def dict_get_def require_eq_Inr split: option.splits pyval.splits)
  moreover have "map_of (dict_set ''use_audio_in_video'' (PyBool u) (dict_del ''use_audio_in_video'' videos)) =
      (map_of videos)(''use_audio_in_video'' \<mapsto> PyBool u)"
    by simp
  ultimately have "\<exists>kwargs videos videos'. merge_processor_kwargs kwargs0 = Inr kwargs \<and> optional_kwargs ''videos_kwargs'' kwargs = Inr videos \<and>
      (\<forall>v \<in> {map_of kwargs ''use_audio_in_video'', map_of videos ''use_audio_in_video'', map_of kwargs ''load_audio_from_video''}.
         v \<in> {None, Some PyNone, Some (PyBool u)}) \<and>
      kwargs' = dict_set ''load_audio_from_video'' (PyBool u)
        (dict_del ''use_audio_in_video'' (dict_set ''videos_kwargs'' (PyDict videos') kwargs)) \<and>
      map_of videos' = (map_of videos)(''use_audio_in_video'' \<mapsto> PyBool u)"
    using merged kwargs' by (intro exI conjI ballI) auto
  moreover have "u \<longrightarrow> conversation_media_modes conversations = Inr [''video'']" using modes by simp
  moreover have "apply_chat_template super_template conversations chat_template kwargs0 s =
      (rbind r (\<lambda>output. Inr (flagged u output)), if u then s2\<lparr>load_audio := load_audio s\<rparr> else s2)"
    using checked run by (rule apply_chat_template_run)
  ultimately show ?thesis by (intro conjI)
qed

definition demo_conversation :: pyval where
  "demo_conversation = PyList [PyDict [(''role'', PyStr ''user''),
     (''content'', PyList [PyDict [(''type'', PyStr ''video''), (''video'', PyStr ''file:///v.mp4'')]])]]"

lemma demo_conversation_modes: "conversation_media_modes demo_conversation = Inr [''video'']"
  by (simp add: conversation_media_modes_def demo_conversation_def entry_modes_def media_aliases_def dict_get_def has_key_def
      List.insert_def)

theorem chat_template_one_switch_witness:
  "apply_chat_template (\<lambda>_ _ kwargs s. (Inr (BatchFeature [(''loader'', PyBool (load_audio s = VideoAudio))]), s\<lparr>load_audio := VideoAudio\<rparr>))
     demo_conversation PyNone [(''use_audio_in_video'', PyBool True)] demo_package =
   (Inr (BatchFeature [(''loader'', PyBool True), (''use_audio_in_video'', PyBool True)]), demo_package)"
proof -
  have checked: "chat_template_kwargs demo_conversation [(''use_audio_in_video'', PyBool True)] =
      Inr ([(''videos_kwargs'', PyDict [(''use_audio_in_video'', PyBool True)]), (''load_audio_from_video'', PyBool True)], True)"
    by (simp add: chat_template_kwargs_def demo_conversation_modes merge_processor_kwargs_def optional_kwargs_def
        agreed_switch_def explicit_values_def check_load_audio_def dict_get_def map_filter_def)
  let ?template = "\<lambda>_ _ kwargs s. (Inr (BatchFeature [(''loader'', PyBool (load_audio s = VideoAudio))]), s\<lparr>load_audio := VideoAudio\<rparr>)"
  from chat_template_one_switch [OF checked, of ?template PyNone demo_package
      "Inr (BatchFeature [(''loader'', PyBool True)])" "demo_package\<lparr>load_audio := VideoAudio\<rparr>"]
  show ?thesis by (simp add: flagged_def demo_package_def)
qed

section \<open>The options of a call\<close>

text \<open>
  What the package documents of the merge: an option that is not given at the top level has the value
  given for the kind of media, or else the default.
\<close>

definition merges_nested :: "(pydict \<Rightarrow> output_kwargs res) \<Rightarrow> bool" where
  "merges_nested merge_kwargs \<longleftrightarrow>
     (\<forall>kwargs out d k. merge_kwargs kwargs = Inr out \<and> nested_kwargs ''videos_kwargs'' kwargs = Inr d \<and> map_of kwargs k = None \<longrightarrow>
        map_of (videos_kwargs out) k = (map_of default_videos_kwargs ++ map_of d) k)"

text \<open>The length of an edge as the caller gave it, in \<open>size\<close> or as a pixel limit\<close>

definition edge_given :: "pydict \<Rightarrow> pydict \<Rightarrow> string \<Rightarrow> pyval option" where
  "edge_given d size0 edge =
     (case map_of size0 edge of
        Some v \<Rightarrow> Some v
      | None \<Rightarrow> if edge = ''shortest_edge'' then map_of d ''min_pixels''
               else if edge = ''longest_edge'' then map_of d ''max_pixels'' else None)"

lemma dict_del_absent: "map_of d k = None \<Longrightarrow> dict_del k d = d"
  by (simp add: map_of_eq_None_iff)

lemma rename_limit_result:
  assumes "rename_limit (alias, edge) (vk, sz) = Inr (vk', sz')"
  shows "vk' = dict_del alias vk" and "distinct (map fst sz) \<longrightarrow> distinct (map fst sz')"
    and "map_of sz' = (case map_of vk alias of None \<Rightarrow> map_of sz | Some v \<Rightarrow> (map_of sz)(edge \<mapsto> v))"
    and "map_of vk alias \<noteq> None \<Longrightarrow> map_of sz edge = None" and "map_of vk alias \<noteq> None \<Longrightarrow> sz' \<noteq> []"
    and "sz \<noteq> [] \<Longrightarrow> sz' \<noteq> []"
proof -
  have "vk' = dict_del alias vk \<and> (distinct (map fst sz) \<longrightarrow> distinct (map fst sz')) \<and>
      map_of sz' = (case map_of vk alias of None \<Rightarrow> map_of sz | Some v \<Rightarrow> (map_of sz)(edge \<mapsto> v)) \<and>
      (map_of vk alias \<noteq> None \<longrightarrow> map_of sz edge = None \<and> sz' \<noteq> []) \<and> (sz \<noteq> [] \<longrightarrow> sz' \<noteq> [])"
  proof (cases "map_of vk alias")
    case None
    with assms show ?thesis by (simp add: rename_limit_def dict_del_absent)
  next
    case (Some v)
    with assms show ?thesis
      by (auto simp: rename_limit_def res_iffs has_key_def distinct_update update_nonempty)
  qed
  then show "vk' = dict_del alias vk" and "distinct (map fst sz) \<longrightarrow> distinct (map fst sz')"
    and "map_of sz' = (case map_of vk alias of None \<Rightarrow> map_of sz | Some v \<Rightarrow> (map_of sz)(edge \<mapsto> v))"
    and "map_of vk alias \<noteq> None \<Longrightarrow> map_of sz edge = None" and "map_of vk alias \<noteq> None \<Longrightarrow> sz' \<noteq> []"
    and "sz \<noteq> [] \<Longrightarrow> sz' \<noteq> []"
    by blast+
qed

lemma rename_limits_result:
  assumes "rename_limits d = Inr d'" and "dict_of (py_or (dict_get d ''size'' PyNone) (PyDict [])) = Inr size0"
    and "distinct (map fst size0)"
  obtains sz where "distinct (map fst sz)" and "map_of sz = edge_given d size0"
    and "d' = (if sz = [] then d else dict_set ''size'' (PyDict sz) (dict_del ''max_pixels'' (dict_del ''min_pixels'' d)))"
proof -
  from assms obtain vk sz vk1 sz1 where
    first: "rename_limit (''min_pixels'', ''shortest_edge'') (d, size0) = Inr (vk1, sz1)"
    and second: "rename_limit (''max_pixels'', ''longest_edge'') (vk1, sz1) = Inr (vk, sz)"
    and d': "d' = (if sz \<noteq> [] then dict_set ''size'' (PyDict sz) vk else vk)"
    by (auto simp: rename_limits_def res_iffs)
  note r1 = rename_limit_result [OF first] and r2 = rename_limit_result [OF second]
  show thesis
  proof (rule that [of sz])
    show "distinct (map fst sz)" using r1(2) r2(2) assms(3) by blast
    show "map_of sz = edge_given d size0"
      using r1 r2(3,4) by (auto simp: edge_given_def fun_eq_iff split: option.splits)
    show "d' = (if sz = [] then d else dict_set ''size'' (PyDict sz) (dict_del ''max_pixels'' (dict_del ''min_pixels'' d)))"
    proof (cases "sz = []")
      case True
      then have "sz1 = []" using r2(6) by blast
      then have "map_of d ''min_pixels'' = None" using r1(5) by blast
      moreover from True have "map_of d ''max_pixels'' = None" using r1(1) r2(5) by fastforce
      ultimately show ?thesis using True d' r1(1) r2(1) by (simp add: dict_del_absent)
    qed (use d' r1(1) r2(1) in simp)
  qed
qed

lemma check_call_kwargs_result:
  assumes "check_call_kwargs kwargs = Inr (kwargs', d', images)" and "nested_kwargs ''videos_kwargs'' kwargs = Inr d"
  shows "rename_limits d = Inr d'" and "k \<noteq> ''videos_kwargs'' \<Longrightarrow> map_of kwargs' k = map_of kwargs k"
    and "d' \<noteq> [] \<Longrightarrow> nested_kwargs ''videos_kwargs'' kwargs' = Inr d'" and "d' = [] \<Longrightarrow> kwargs' = kwargs"
  using assms by (auto simp: check_call_kwargs_def res_iffs Let_def nested_kwargs_def py_or_def dict_get_def)

lemma pop_own_options_result:
  assumes "pop_own_options decoders pr videos1 = Inr (opts, videos2)"
  shows "map_of videos2 = (map_of videos1)(''seconds_per_chunk'' := None, ''position_id_per_seconds'' := None,
      ''use_audio_in_video'' := None, ''video_backend'' := None)"
    and "map_of videos1 ''use_audio_in_video'' = Some (use_audio_in_video opts)"
  using assms by (auto simp: pop_own_options_def dict_pop_def res_iffs Let_def)

lemma resolve_frame_rate_result:
  assumes "resolve_frame_rate pr explicit videos = Inr (grid_fps, videos')"
  shows "dict_get videos ''num_frames'' PyNone = PyNone \<or> \<not> explicit"
    and "map_of videos' = (map_of videos)(''fps'' :=
      (if dict_get videos ''num_frames'' PyNone \<noteq> PyNone then Some PyNone
       else if explicit then map_of videos ''fps'' else Some (default_video_fps pr)))"
  using assms by (auto simp: resolve_frame_rate_def res_iffs Let_def fun_eq_iff split: if_splits)

lemma frame_limit_result:
  assumes "frame_limit key (videos, limits) = Inr (videos', limits')" and "dict_get videos key PyNone \<noteq> PyNone"
  shows "videos' = dict_del key videos \<and> (\<exists>n. py_int (dict_get videos key PyNone) = Inr n \<and> limits' = limits @ [(key, n)])"
  using assms by (auto simp: frame_limit_def res_iffs split: pyval.splits)

text \<open>The value given for an option of the videos, else the one that stands for it\<close>

definition chosen :: "pydict \<Rightarrow> string \<Rightarrow> pyval \<Rightarrow> pyval" where
  "chosen d k dflt = (if dict_get d k PyNone = PyNone then dflt else dict_get d k PyNone)"

definition flat_options :: "string list" where
  "flat_options = [''size'', ''fps'', ''num_frames'', ''min_frames'', ''max_frames'']"

lemma merge_size_result:
  assumes "merge_size dflt v = Inr sz" and "\<And>d. v = PyDict d \<Longrightarrow> distinct (map fst d)"
  shows "map_of sz = map_of dflt ++ (case v of PyDict d \<Rightarrow> map_of d | _ \<Rightarrow> Map.empty)"
  using assms by (cases v) (auto simp: map_of_dict_update)

lemma options_after_rename:
  assumes "rename_limits d = Inr d'" and "dict_of (py_or (dict_get d ''size'' PyNone) (PyDict [])) = Inr size0"
    and "distinct (map fst size0)"
  shows "d' = [] \<Longrightarrow> d = []" and "k \<notin> {''size'', ''min_pixels'', ''max_pixels''} \<Longrightarrow> map_of d' k = map_of d k"
    and "(\<exists>sz. dict_get d' ''size'' PyNone = PyDict sz \<and> distinct (map fst sz) \<and> map_of sz = edge_given d size0) \<or>
      ((\<forall>sz. dict_get d' ''size'' PyNone = PyDict sz \<longrightarrow> sz = []) \<and> edge_given d size0 = Map.empty)"
proof -
  from rename_limits_result [OF assms] obtain sz where sz: "distinct (map fst sz)" "map_of sz = edge_given d size0"
    and d': "d' = (if sz = [] then d else dict_set ''size'' (PyDict sz) (dict_del ''max_pixels'' (dict_del ''min_pixels'' d)))"
    by blast
  from d' show "d' = [] \<Longrightarrow> d = []" by (auto simp: update_nonempty split: if_splits)
  from d' show "k \<notin> {''size'', ''min_pixels'', ''max_pixels''} \<Longrightarrow> map_of d' k = map_of d k" by simp
  show "(\<exists>sz. dict_get d' ''size'' PyNone = PyDict sz \<and> distinct (map fst sz) \<and> map_of sz = edge_given d size0) \<or>
      ((\<forall>sz. dict_get d' ''size'' PyNone = PyDict sz \<longrightarrow> sz = []) \<and> edge_given d size0 = Map.empty)"
  proof (cases "sz = []")
    case True
    with sz(2) have none: "edge_given d size0 = Map.empty" by simp
    have "s = []" if "dict_get d ''size'' PyNone = PyDict s" for s
    proof (rule ccontr)
      assume "s \<noteq> []"
      with that assms(2) have "size0 = s" by (simp add: py_or_def)
      moreover from \<open>s \<noteq> []\<close> obtain k v s' where "s = (k, v) # s'" by (cases s) auto
      ultimately have "edge_given d size0 k = Some v" by (simp add: edge_given_def)
      with none show False by simp
    qed
    with True d' none show ?thesis by simp
  next
    case False
    with sz d' show ?thesis by simp
  qed
qed

lemma map_of_native_fallbacks:
  "map_of (fold (native_fallback g) native_fallbacks videos) k =
     (if k \<in> fst ` set native_fallbacks \<and> \<not> g k then map_of native_fallbacks k else map_of videos k)"
  by (auto simp: native_fallbacks_def native_fallback_def)

lemma frame_limits_result:
  assumes "fold_res frame_limit [''min_frames'', ''max_frames''] (videos, []) = Inr (videos', limits)"
    and "dict_get videos ''min_frames'' PyNone \<noteq> PyNone" and "dict_get videos ''max_frames'' PyNone \<noteq> PyNone"
  shows "\<exists>mn mx. py_int (dict_get videos ''min_frames'' PyNone) = Inr mn \<and> py_int (dict_get videos ''max_frames'' PyNone) = Inr mx \<and>
      limits = [(''min_frames'', mn), (''max_frames'', mx)]"
    and "map_of videos' = (map_of videos)(''min_frames'' := None, ''max_frames'' := None)"
proof -
  from assms(1) obtain v1 l1 where first: "frame_limit ''min_frames'' (videos, []) = Inr (v1, l1)"
    and second: "frame_limit ''max_frames'' (v1, l1) = Inr (videos', limits)"
    by (auto simp: res_iffs)
  from frame_limit_result [OF first assms(2)] obtain mn where
    r1: "v1 = dict_del ''min_frames'' videos" "py_int (dict_get videos ''min_frames'' PyNone) = Inr mn" "l1 = [(''min_frames'', mn)]"
    by auto
  with assms(3) have "dict_get v1 ''max_frames'' PyNone \<noteq> PyNone" by simp
  from frame_limit_result [OF second this] obtain mx where
    r2: "videos' = dict_del ''max_frames'' v1" "py_int (dict_get v1 ''max_frames'' PyNone) = Inr mx"
      "limits = l1 @ [(''max_frames'', mx)]" by auto
  from r1 r2 show "\<exists>mn mx. py_int (dict_get videos ''min_frames'' PyNone) = Inr mn \<and>
      py_int (dict_get videos ''max_frames'' PyNone) = Inr mx \<and> limits = [(''min_frames'', mn), (''max_frames'', mx)]"
    by simp
  from r1 r2 show "map_of videos' = (map_of videos)(''min_frames'' := None, ''max_frames'' := None)" by simp
qed

lemma resolve_sizes_result:
  assumes "resolve_sizes pr explicit image_explicit out = Inr (video_size, image_size)"
    and "\<And>sz. explicit \<Longrightarrow> dict_get (videos_kwargs out) ''size'' PyNone = PyDict sz \<Longrightarrow> distinct (map fst sz)"
  shows "\<exists>dflt. merge_size QWEN35_VIDEO_SIZE (dict_get (video_processor_attrs pr) ''size'' PyNone) = Inr dflt \<and>
    map_of video_size = map_of dflt ++
      (if explicit then case dict_get (videos_kwargs out) ''size'' PyNone of PyDict d \<Rightarrow> map_of d | _ \<Rightarrow> Map.empty else Map.empty)"
proof -
  from assms(1) obtain dflt where "merge_size QWEN35_VIDEO_SIZE (dict_get (video_processor_attrs pr) ''size'' PyNone) = Inr dflt"
    and "merge_size dflt (if explicit then dict_get (videos_kwargs out) ''size'' PyNone else PyNone) = Inr video_size"
    by (auto simp: resolve_sizes_def rbind_eq_Inr)
  with merge_size_result [OF this(2)] assms(2) show ?thesis by (auto split: if_splits)
qed

lemma size_explicit:
  assumes size: "(\<exists>sz. dict_get d' ''size'' PyNone = PyDict sz \<and> distinct (map fst sz) \<and> map_of sz = edge_given d size0) \<or>
      ((\<forall>sz. dict_get d' ''size'' PyNone = PyDict sz \<longrightarrow> sz = []) \<and> edge_given d size0 = Map.empty)"
    and given: "given ''size'' kwargs' d' \<longleftrightarrow> dict_get d' ''size'' PyNone \<noteq> PyNone"
    and out: "map_of (videos_kwargs out) ''size'' = (map_of default_videos_kwargs ++ map_of d') ''size''"
    and sizes: "resolve_sizes pr (given ''size'' kwargs' d') image_explicit out = Inr (video_size, image_size)"
  shows "\<exists>dflt. merge_size QWEN35_VIDEO_SIZE (dict_get (video_processor_attrs pr) ''size'' PyNone) = Inr dflt \<and>
      map_of video_size = map_of dflt ++ edge_given d size0"
proof -
  have same: "dict_get (videos_kwargs out) ''size'' PyNone = dict_get d' ''size'' PyNone" if "given ''size'' kwargs' d'"
    using that out given by (auto simp: dict_get_def map_add_def split: option.splits)
  from size have "distinct (map fst sz)" if "dict_get d' ''size'' PyNone = PyDict sz" for sz
    using that by auto
  with same resolve_sizes_result [OF sizes] obtain dflt where
    dflt: "merge_size QWEN35_VIDEO_SIZE (dict_get (video_processor_attrs pr) ''size'' PyNone) = Inr dflt"
    and vs: "map_of video_size = map_of dflt ++
      (if given ''size'' kwargs' d' then case dict_get (videos_kwargs out) ''size'' PyNone of PyDict d \<Rightarrow> map_of d | _ \<Rightarrow> Map.empty else Map.empty)"
    by auto
  have eq: "(if given ''size'' kwargs' d' then case dict_get (videos_kwargs out) ''size'' PyNone of PyDict d \<Rightarrow> map_of d | _ \<Rightarrow> Map.empty else Map.empty) =
      edge_given d size0"
  proof (cases "given ''size'' kwargs' d'")
    case True
    have "(case dict_get d' ''size'' PyNone of PyDict d \<Rightarrow> map_of d | _ \<Rightarrow> Map.empty) = edge_given d size0"
      using size by (cases "dict_get d' ''size'' PyNone") auto
    with True same show ?thesis by simp
  next
    case False
    with given size show ?thesis by simp
  qed
  show ?thesis using dflt vs unfolding eq by (intro exI conjI)
qed

text \<open>
  C11: The options a call resolves to, for options given in \<open>videos_kwargs\<close>. Each edge of the video size
  is the one the caller gave, in \<open>size\<close> or as a pixel limit, else the one the processor was built with,
  else the native one. The frame rate is the one given, else that of the processor, and none when the
  number of frames is given; giving both is refused. The frame limits are the ones given, else the
  native ones: the limits the processor was built with play no part.
\<close>

theorem call_options_resolved:
  assumes law: "merges_nested merge_kwargs" and nested: "nested_kwargs ''videos_kwargs'' kwargs = Inr d"
    and size0: "dict_of (py_or (dict_get d ''size'' PyNone) (PyDict [])) = Inr size0" "distinct (map fst size0)"
    and flat: "list_all (\<lambda>k. map_of kwargs k = None) flat_options"
    and resolved: "resolve_call_options merge_kwargs decoders pr has_videos kwargs = Inr opts"
  shows "(\<exists>vs dflt. merge_size QWEN35_VIDEO_SIZE (dict_get (video_processor_attrs pr) ''size'' PyNone) = Inr dflt \<and>
      map_of (videos_kwargs opts) ''size'' = Some (PyDict vs) \<and> map_of vs = map_of dflt ++ edge_given d size0) \<and>
    dict_get (videos_kwargs opts) ''fps'' PyNone =
      (if dict_get d ''num_frames'' PyNone \<noteq> PyNone then PyNone else chosen d ''fps'' (default_video_fps pr)) \<and>
    (dict_get d ''fps'' PyNone = PyNone \<or> dict_get d ''num_frames'' PyNone = PyNone) \<and>
    (\<exists>mn mx. py_int (chosen d ''min_frames'' NATIVE_VIDEO_MIN_FRAMES) = Inr mn \<and>
      py_int (chosen d ''max_frames'' NATIVE_VIDEO_MAX_FRAMES) = Inr mx \<and>
      video_frame_limits opts = [(''min_frames'', mn), (''max_frames'', mx)])"
proof -
  from resolved obtain kwargs' d' images0 out video_size image_size own videos1 grid_fps videos2 videos3 where
    checked: "check_call_kwargs kwargs = Inr (kwargs', d', images0)" and merged: "merge_kwargs kwargs' = Inr out"
    and sizes: "resolve_sizes pr (given ''size'' kwargs' d') (given ''size'' kwargs' images0) out = Inr (video_size, image_size)"
    and popped: "pop_own_options decoders pr (fold (native_fallback (\<lambda>name. given name kwargs' d')) native_fallbacks
                     (dict_set ''size'' (PyDict video_size) (videos_kwargs out))) = Inr (own, videos1)"
    and rate: "resolve_frame_rate pr (given ''fps'' kwargs' d') videos1 = Inr (grid_fps, videos2)"
    and limits: "fold_res frame_limit [''min_frames'', ''max_frames''] (videos2, []) = Inr (videos3, video_frame_limits opts)"
    and videos: "videos_kwargs opts = (if has_videos then dict_set ''return_metadata'' (PyBool True) videos3 else videos3)"
    unfolding resolve_call_options_def by (auto simp: rbind_eq_Inr)
  note check = check_call_kwargs_result [OF checked nested]
  note rename = options_after_rename [OF check(1) size0]
  have nested': "nested_kwargs ''videos_kwargs'' kwargs' = Inr d'"
    using check(3,4) rename(1) nested by (cases "d' = []") simp_all
  have top: "map_of kwargs' k = None" if "k \<in> set flat_options" for k
  proof -
    from that have "k \<noteq> ''videos_kwargs''" by (auto simp: flat_options_def)
    with check(2) [of k] flat that show ?thesis by (simp add: list_all_iff)
  qed
  have given: "given k kwargs' d' \<longleftrightarrow> dict_get d' k PyNone \<noteq> PyNone" if "k \<in> set flat_options" for k
    using top [OF that] by (simp add: given_def dict_get_def)
  have out: "map_of (videos_kwargs out) k = (map_of default_videos_kwargs ++ map_of d') k" if "k \<in> set flat_options" for k
    using law merged nested' top [OF that] unfolding merges_nested_def by blast
  have d': "dict_get d' k PyNone = dict_get d k PyNone" if "k \<in> {''fps'', ''num_frames'', ''min_frames'', ''max_frames''}" for k
    using rename(2) [of k] that by (auto simp: dict_get_def)
  let ?g = "\<lambda>k. given k kwargs' d'"
  have videos1: "map_of videos1 k = (if k \<in> fst ` set native_fallbacks \<and> \<not> ?g k then map_of native_fallbacks k
      else if k = ''size'' then Some (PyDict video_size) else (map_of default_videos_kwargs ++ map_of d') k)"
    if "k \<in> set flat_options" for k
    using pop_own_options_result(1) [OF popped] out [OF that] that by (auto simp: map_of_native_fallbacks flat_options_def)
  have frames: "dict_get videos1 ''num_frames'' PyNone = dict_get d ''num_frames'' PyNone"
    using videos1 [of "''num_frames''"] d' [of "''num_frames''"]
    by (auto simp: flat_options_def native_fallbacks_def default_videos_kwargs_def dict_get_def map_add_def split: option.splits)
  have rate': "map_of videos2 = (map_of videos1)(''fps'' :=
      (if dict_get d ''num_frames'' PyNone \<noteq> PyNone then Some PyNone
       else Some (chosen d ''fps'' (default_video_fps pr))))"
    using resolve_frame_rate_result(2) [OF rate] frames videos1 [of "''fps''"] given [of "''fps''"] d' [of "''fps''"]
    by (auto simp: flat_options_def native_fallbacks_def chosen_def fun_eq_iff dict_get_def map_add_def split: option.splits)
  have limit: "dict_get videos2 ''min_frames'' PyNone = chosen d ''min_frames'' NATIVE_VIDEO_MIN_FRAMES"
      "dict_get videos2 ''max_frames'' PyNone = chosen d ''max_frames'' NATIVE_VIDEO_MAX_FRAMES"
    using rate' videos1 [of "''min_frames''"] given [of "''min_frames''"] d' [of "''min_frames''"]
      videos1 [of "''max_frames''"] given [of "''max_frames''"] d' [of "''max_frames''"]
    by (auto simp: flat_options_def native_fallbacks_def chosen_def dict_get_def map_add_def split: option.splits)
  have "dict_get videos2 ''min_frames'' PyNone \<noteq> PyNone" "dict_get videos2 ''max_frames'' PyNone \<noteq> PyNone"
    unfolding limit by (auto simp: chosen_def NATIVE_VIDEO_MIN_FRAMES_def NATIVE_VIDEO_MAX_FRAMES_def)
  note bounds = frame_limits_result [OF limits this]
  have final: "map_of (videos_kwargs opts) k = map_of videos2 k" if "k \<in> {''fps'', ''size''}" for k
    using videos bounds(2) that by auto
  have "\<exists>dflt. merge_size QWEN35_VIDEO_SIZE (dict_get (video_processor_attrs pr) ''size'' PyNone) = Inr dflt \<and>
      map_of video_size = map_of dflt ++ edge_given d size0"
    using size_explicit [OF rename(3) given out sizes] by (simp add: flat_options_def)
  moreover have "map_of (videos_kwargs opts) ''size'' = Some (PyDict video_size)"
    using final [of "''size''"] rate' videos1 [of "''size''"] by (simp add: flat_options_def native_fallbacks_def)
  moreover have "dict_get (videos_kwargs opts) ''fps'' PyNone =
      (if dict_get d ''num_frames'' PyNone \<noteq> PyNone then PyNone else chosen d ''fps'' (default_video_fps pr))"
    using final [of "''fps''"] rate' by (simp add: dict_get_def)
  moreover have "dict_get d ''fps'' PyNone = PyNone \<or> dict_get d ''num_frames'' PyNone = PyNone"
    using resolve_frame_rate_result(1) [OF rate] frames given [of "''fps''"] d' [of "''fps''"] by (auto simp: flat_options_def)
  ultimately show ?thesis using bounds(1) unfolding limit by blast
qed

definition demo_merge :: "pydict \<Rightarrow> output_kwargs res" where
  "demo_merge kwargs =
     rbind (nested_kwargs ''videos_kwargs'' kwargs) (\<lambda>d.
     Inr \<lparr>text_kwargs = default_text_kwargs, images_kwargs = default_images_kwargs,
          videos_kwargs = d @ default_videos_kwargs, audio_kwargs = default_audio_kwargs\<rparr>)"

lemma demo_merge_merges: "merges_nested demo_merge"
  by (auto simp: merges_nested_def demo_merge_def res_iffs)

definition demo_settings :: processor_settings where
  "demo_settings = \<lparr>video_processor_attrs = [(''size'', PyDict [(''longest_edge'', PyInt 9999)]), (''fps'', PyFloat 4), (''max_frames'', PyInt 10)],
     tlive_video_backend = PyNone, tlive_return_video_metadata = PyBool False\<rparr>"

definition demo_kwargs :: pydict where
  "demo_kwargs = [(''videos_kwargs'', PyDict [(''min_pixels'', PyInt 100), (''min_frames'', PyInt 8)])]"

theorem call_options_resolved_witness:
  "\<exists>opts vs. resolve_call_options demo_merge [''decord''] demo_settings True demo_kwargs = Inr opts \<and>
     map_of (videos_kwargs opts) ''size'' = Some (PyDict vs) \<and> map_of vs ''shortest_edge'' = Some (PyInt 100) \<and>
     map_of vs ''longest_edge'' = Some (PyInt 9999) \<and> dict_get (videos_kwargs opts) ''fps'' PyNone = PyFloat 4 \<and>
     video_frame_limits opts = [(''min_frames'', 8), (''max_frames'', 768)]"
proof -
  have nested: "nested_kwargs ''videos_kwargs'' demo_kwargs = Inr [(''min_pixels'', PyInt 100), (''min_frames'', PyInt 8)]"
    by (simp add: nested_kwargs_def demo_kwargs_def dict_get_def py_or_def)
  have "isl (resolve_call_options demo_merge [''decord''] demo_settings True demo_kwargs) = False"
    by code_simp
  then obtain opts where opts: "resolve_call_options demo_merge [''decord''] demo_settings True demo_kwargs = Inr opts"
    by (cases "resolve_call_options demo_merge [''decord''] demo_settings True demo_kwargs") auto
  have "dict_of (py_or (dict_get [(''min_pixels'', PyInt 100), (''min_frames'', PyInt 8)] ''size'' PyNone) (PyDict [])) = Inr []"
    by (simp add: dict_get_def py_or_def)
  moreover have "list_all (\<lambda>k. map_of demo_kwargs k = None) flat_options"
    by (simp add: flat_options_def demo_kwargs_def)
  ultimately show ?thesis
    using call_options_resolved [OF demo_merge_merges nested _ _ _ opts, of "[]"] opts
    by (auto simp: demo_settings_def QWEN35_VIDEO_SIZE_def dict_get_def dict_update_def edge_given_def map_add_def
        chosen_def default_video_fps_def NATIVE_VIDEO_MAX_FRAMES_def)
qed

end
