(* ===== verification/TLive_Config.thy ===== *)
theory TLive_Config
  imports Py_Float
begin

text \<open>
  The configuration objects of \<open>src/tlive_omni/configuration_tlive_omni.py\<close>: the audio
  encoder's hyper-parameters, the special-token ids and the position granularity, with the
  constructor's defaults, and the resolution of the three sub-configurations. The vision and
  the text configuration classes belong to the transformers package and are type parameters.
\<close>

record TLiveOmniAudioEncoderConfig =
  num_mel_bins :: int
  encoder_layers :: int
  encoder_attention_heads :: int
  encoder_ffn_dim :: int
  d_model :: int
  dropout :: rat
  attention_dropout :: rat
  activation_function :: string
  activation_dropout :: rat
  num_hidden_layers :: int
  scale_embedding :: bool
  audio_initializer_range :: rat
  max_source_positions :: int
  n_window :: int
  output_dim :: int
  n_window_infer :: int
  conv_chunksize :: int
  downsample_hidden_size :: int
  deepstack_audio_indexes :: "int list"

definition default_audio_config :: TLiveOmniAudioEncoderConfig where
  "default_audio_config =
     \<lparr>num_mel_bins = 128, encoder_layers = 32, encoder_attention_heads = 20,
      encoder_ffn_dim = 5120, d_model = 1280, dropout = 0, attention_dropout = 0,
      activation_function = ''gelu'', activation_dropout = 0, num_hidden_layers = 32,
      scale_embedding = False, audio_initializer_range = f64 (2 / 100),
      max_source_positions = 1500,
      n_window = 100, output_dim = 3584, n_window_infer = 400, conv_chunksize = 500,
      downsample_hidden_size = 480, deepstack_audio_indexes = [8, 16, 24]\<rparr>"

text \<open>
  A sub-configuration argument is absent, a dict of keyword arguments, or an object already.
\<close>

datatype ('d, 'o) sub_config = NoConfig | ConfigDict 'd | ConfigObject 'o

fun resolve_config :: "('d \<Rightarrow> 'o) \<Rightarrow> 'o \<Rightarrow> ('d, 'o) sub_config \<Rightarrow> 'o" where
  "resolve_config build dflt (ConfigDict d) = build d"
| "resolve_config build dflt NoConfig = dflt"
| "resolve_config build dflt (ConfigObject obj) = obj"

text \<open>The keyword arguments with plain values, and their defaults.\<close>

record TLiveOmniTokenIds =
  audio_token_id :: int
  image_token_id :: int
  video_token_id :: int
  position_id_per_seconds :: int
  audio_start_token_id :: int
  audio_end_token_id :: int
  vision_start_token_id :: int
  vision_end_token_id :: int
  user_token_id :: int
  initializer_range :: rat

definition default_token_ids :: TLiveOmniTokenIds where
  "default_token_ids =
     \<lparr>audio_token_id = 248076, image_token_id = 248056, video_token_id = 248057,
      position_id_per_seconds = 13, audio_start_token_id = 248070,
      audio_end_token_id = 248071, vision_start_token_id = 248053,
      vision_end_token_id = 248054, user_token_id = 872,
      initializer_range = f64 (2 / 100)\<rparr>"

record ('v, 't) TLiveOmniConfig = TLiveOmniTokenIds +
  audio_config :: TLiveOmniAudioEncoderConfig
  vision_config :: 'v
  text_config :: 't

definition make_config ::
    "('d1 \<Rightarrow> TLiveOmniAudioEncoderConfig) \<Rightarrow> ('d2 \<Rightarrow> 'v) \<Rightarrow> 'v \<Rightarrow> ('d3 \<Rightarrow> 't) \<Rightarrow> 't \<Rightarrow>
     ('d1, TLiveOmniAudioEncoderConfig) sub_config \<Rightarrow> ('d2, 'v) sub_config \<Rightarrow>
     ('d3, 't) sub_config \<Rightarrow> TLiveOmniTokenIds \<Rightarrow> ('v, 't) TLiveOmniConfig" where
  "make_config build_a build_v dflt_v build_t dflt_t a v t ids =
     TLiveOmniTokenIds.extend ids
       \<lparr>audio_config = resolve_config build_a default_audio_config a,
        vision_config = resolve_config build_v dflt_v v,
        text_config = resolve_config build_t dflt_t t\<rparr>"

text \<open>
  The special tokens of a prompt are told apart by their ids: the condition the position and
  prompt code relies on, and which the defaults satisfy.
\<close>

definition special_ids :: "'z TLiveOmniTokenIds_scheme \<Rightarrow> int list" where
  "special_ids c = [audio_token_id c, image_token_id c, video_token_id c, audio_start_token_id c,
     audio_end_token_id c, vision_start_token_id c, vision_end_token_id c]"

lemma default_special_ids_distinct: "distinct (special_ids default_token_ids)"
  by (simp add: special_ids_def default_token_ids_def)

end
