(* ===== verification/Video_Spans.thy ===== *)
theory Video_Spans
  imports TLive_Config
begin

text \<open>
  How one video becomes a sequence of timestamped spans, one per temporal grid: the
  timestamps of the grids, the division of the audio tokens among them, the placeholder text
  of \<open>TLiveOmniProcessor._generate_video_placeholder\<close>, and the token sequence that the vLLM
  processor builds for the same video. The tokenizer is a parameter.
\<close>

section \<open>Text formatting\<close>

definition digit_char :: "nat \<Rightarrow> char" where
  "digit_char d = char_of (48 + d)"

fun show_nat :: "nat \<Rightarrow> string" where
  "show_nat n = (if n < 10 then [digit_char n] else show_nat (n div 10) @ [digit_char (n mod 10)])"

declare show_nat.simps [simp del]

text \<open>The format \<open>{x:.1f}\<close>: correctly rounded to one decimal.\<close>

definition format_1f :: "rat \<Rightarrow> string" where
  "format_1f x =
     (let t = round_half_even (\<bar>x\<bar> * 10)
      in (if x < 0 then ''-'' else []) @ show_nat (nat (t div 10)) @ ''.'' @ show_nat (nat (t mod 10)))"

definition timestamp_text :: "rat \<Rightarrow> string" where
  "timestamp_text t = ''<'' @ format_1f t @ '' seconds>''"

section \<open>Timestamps\<close>

text \<open>\<open>a / b\<close> of a Python int by a float.\<close>

definition py_truediv :: "int \<Rightarrow> rat \<Rightarrow> rat res" where
  "py_truediv a b = (if b = 0 then Inl ZeroDivisionError else Inr (f64 (f64 (of_int a) / b)))"

text \<open>\<open>range(0, n, m)\<close>\<close>

definition range_step :: "nat \<Rightarrow> nat \<Rightarrow> nat list" where
  "range_step n m = map (\<lambda>k. k * m) [0..<(n + m - 1) div m]"

text \<open>
  The index list is extended in place when its length is not a multiple of the patch size:
  the second component is what the caller's list holds afterwards.
\<close>

definition pad_indices :: "nat \<Rightarrow> int list \<Rightarrow> int list" where
  "pad_indices merge_size indices =
     (if length indices mod merge_size \<noteq> 0
      then indices @ replicate (merge_size - length indices mod merge_size) (last indices)
      else indices)"

definition calculate_timestamps ::
    "int list \<Rightarrow> rat \<Rightarrow> nat \<Rightarrow> bool \<Rightarrow> (rat list \<times> int list) res" where
  "calculate_timestamps indices video_fps merge_size return_in_seconds =
     (if merge_size = 0 then Inl ZeroDivisionError
      else
        let indices = pad_indices merge_size indices
        in rbind (map_res (\<lambda>idx. py_truediv idx video_fps) indices) (\<lambda>timestamps.
             Inr (if \<not> return_in_seconds
                  then map (\<lambda>i. f64 (f64 (timestamps ! i + timestamps ! (i + merge_size - 1)) / 2))
                         (range_step (length timestamps) merge_size)
                  else map of_nat (range_step (length timestamps) merge_size),
                  indices)))"

text \<open>The vLLM copy of the processor rejects a frame rate that is missing or not positive.\<close>

definition calculate_timestamps_vllm ::
    "int list \<Rightarrow> rat option \<Rightarrow> nat \<Rightarrow> bool \<Rightarrow> (rat list \<times> int list) res" where
  "calculate_timestamps_vllm indices video_fps merge_size return_in_seconds =
     (if merge_size = 0 then Inl ZeroDivisionError
      else case video_fps of
        None \<Rightarrow> Inl (ValueError ''Invalid video fps in metadata; cannot compute timestamps.'')
      | Some rate \<Rightarrow>
          if rate \<le> 0 then Inl (ValueError ''Invalid video fps in metadata; cannot compute timestamps.'')
          else calculate_timestamps indices rate merge_size return_in_seconds)"

section \<open>Placeholder text\<close>

record mm_tokens =
  image_token :: string
  audio_token :: string
  video_token :: string
  vision_bos_token :: string
  vision_eos_token :: string
  audio_bos_token :: string
  audio_eos_token :: string

abbreviation video_placeholder :: string where "video_placeholder \<equiv> ''<|video_placeholder|>''"
abbreviation audio_placeholder :: string where "audio_placeholder \<equiv> ''<|audio_placeholder|>''"
abbreviation image_placeholder :: string where "image_placeholder \<equiv> ''<|image_placeholder|>''"

text \<open>\<open>s * n\<close> on strings.\<close>

definition str_repeat :: "int \<Rightarrow> string \<Rightarrow> string" where
  "str_repeat n s = concat (py_repeat n s)"

text \<open>The part of the video metadata that is read: the sampled frame indices and the frame rate.\<close>

record video_metadata =
  frames_indices :: "int list"
  fps :: rat

text \<open>
  The timestamps of the grids; without metadata, their numbers. (An empty metadata object
  does not occur: \<open>None\<close> stands for both.)
\<close>

definition grid_timestamps :: "video_metadata option \<Rightarrow> nat \<Rightarrow> nat \<Rightarrow> rat list res" where
  "grid_timestamps meta temporal_patch_size num_grids =
     (case meta of
        Some md \<Rightarrow> rbind (calculate_timestamps (frames_indices md) (fps md) temporal_patch_size False)
                   (\<lambda>(ts, _). Inr ts)
      | None \<Rightarrow> Inr (map of_nat [0..<num_grids]))"

definition visual_only_parts :: "mm_tokens \<Rightarrow> nat \<Rightarrow> int \<Rightarrow> rat list \<Rightarrow> string list" where
  "visual_only_parts tk num_frames token_len_per_frame timestamps =
     concat (map (\<lambda>frame_idx.
       [timestamp_text (if frame_idx < length timestamps then timestamps ! frame_idx else of_nat frame_idx),
        vision_bos_token tk, str_repeat token_len_per_frame video_placeholder, vision_eos_token tk])
       [0..<num_frames])"

text \<open>The time printed for a grid of a video with sound: the last one is reused when they run out.\<close>

definition hf_current_time :: "rat list \<Rightarrow> nat \<Rightarrow> rat" where
  "hf_current_time cur_timestamp grid_idx =
     (let timestamp_idx = min (int grid_idx) (int (length cur_timestamp) - 1)
      in if cur_timestamp \<noteq> [] then cur_timestamp ! nat timestamp_idx else of_nat grid_idx)"

text \<open>The loop over the grids appends a boundary to the list and reads the last one back.\<close>

definition hf_audio_boundaries :: "nat \<Rightarrow> rat \<Rightarrow> int \<Rightarrow> int \<Rightarrow> int list" where
  "hf_audio_boundaries grid_t seconds_per_grid per_seconds audio_len =
     foldl (\<lambda>boundaries grid_idx.
         let boundary = trunc (f64 (f64 (f64 (of_nat grid_idx * seconds_per_grid) * of_int per_seconds) + eps_f64));
             boundary = min audio_len (max boundary (last boundaries))
         in boundaries @ [boundary])
       [0] [1..<grid_t] @ [audio_len]"

definition video_audio_parts ::
    "mm_tokens \<Rightarrow> nat \<Rightarrow> int \<Rightarrow> rat list \<Rightarrow> int list \<Rightarrow> string list" where
  "video_audio_parts tk grid_t video_tokens_per_grid cur_timestamp boundaries =
     concat (map (\<lambda>grid_idx.
       [timestamp_text (hf_current_time cur_timestamp grid_idx),
        vision_bos_token tk, audio_bos_token tk,
        str_repeat video_tokens_per_grid video_placeholder,
        str_repeat (boundaries ! (grid_idx + 1) - boundaries ! grid_idx) audio_placeholder,
        audio_eos_token tk, vision_eos_token tk])
       [0..<grid_t])"

text \<open>The grid is a tensor: the first statement that divides by the merge size raises torch's error.\<close>

definition generate_video_placeholder ::
    "mm_tokens \<Rightarrow> int \<Rightarrow> nat \<Rightarrow> int \<times> int \<times> int \<Rightarrow> video_metadata option \<Rightarrow> bool \<Rightarrow> int \<Rightarrow> rat \<Rightarrow> int \<Rightarrow>
     string res" where
  "generate_video_placeholder tk merge_size temporal_patch_size thw meta use_audio_in_video
     audio_length second_per_grid per_seconds =
     (case thw of (t, h, w) \<Rightarrow>
        rbind (require (merge_size \<noteq> 0) (RuntimeError ''ZeroDivisionError'')) (\<lambda>_.
        rbind (grid_timestamps meta temporal_patch_size (nat t)) (\<lambda>timestamps.
          if \<not> use_audio_in_video then
            let token_len_per_frame = (h * w) div merge_size ^ 2
            in Inr (concat (visual_only_parts tk (nat t) token_len_per_frame timestamps))
          else
            let height = h div merge_size; width = w div merge_size;
                video_tokens_per_grid = height * width;
                boundaries = hf_audio_boundaries (nat t) second_per_grid per_seconds audio_length
            in Inr (concat (video_audio_parts tk (nat t) video_tokens_per_grid timestamps boundaries)))))"

section \<open>The vLLM token sequence\<close>

text \<open>Dividing the audio among the grids\<close>

definition raw_boundary :: "rat \<Rightarrow> int \<Rightarrow> nat \<Rightarrow> int" where
  "raw_boundary seconds_per_grid per_seconds grid_idx =
     trunc (f64 (f64 (f64 (of_nat grid_idx * seconds_per_grid) * of_int per_seconds) + eps_f64))"

fun boundary_loop :: "rat \<Rightarrow> int \<Rightarrow> int \<Rightarrow> nat list \<Rightarrow> int \<Rightarrow> int list" where
  "boundary_loop s p audio_len [] prev = []"
| "boundary_loop s p audio_len (k # ks) prev =
     (let boundary = min audio_len (max (raw_boundary s p k) prev)
      in boundary # boundary_loop s p audio_len ks boundary)"

definition audio_boundaries :: "nat \<Rightarrow> rat \<Rightarrow> int \<Rightarrow> int \<Rightarrow> int list" where
  "audio_boundaries grid_t s p audio_len =
     0 # boundary_loop s p audio_len [1..<grid_t] 0 @ [audio_len]"

text \<open>The time of a grid: again the last one is reused.\<close>

definition grid_time :: "rat list \<Rightarrow> nat \<Rightarrow> rat" where
  "grid_time timestamps grid_idx =
     (if timestamps \<noteq> [] then timestamps ! min grid_idx (length timestamps - 1) else of_nat grid_idx)"

text \<open>Without timestamps the vLLM code derives them from the seconds per grid.\<close>

definition default_timestamps :: "rat \<Rightarrow> nat \<Rightarrow> rat list" where
  "default_timestamps s grid_t =
     (let temporal_patch_size = 2;
          ts_offset = f64 (f64 (s / temporal_patch_size) * (1 / 2))
      in map (\<lambda>i. f64 (f64 (of_nat i * s) + ts_offset)) [0..<grid_t])"

text \<open>
  The two vision markers come from the tokenizer's vocabulary, the audio markers from the
  configuration.
\<close>

definition av_span ::
    "'z TLiveOmniTokenIds_scheme \<Rightarrow> int \<Rightarrow> int \<Rightarrow> (string \<Rightarrow> int list) \<Rightarrow> int \<Rightarrow> int \<Rightarrow> rat \<Rightarrow> int list" where
  "av_span cfg vision_start vision_end encode video_tokens_per_grid audio_seq_len curr_time =
     encode (timestamp_text curr_time) @
     [vision_start, audio_start_token_id cfg] @
     py_repeat video_tokens_per_grid (video_token_id cfg) @
     py_repeat audio_seq_len (audio_token_id cfg) @
     [audio_end_token_id cfg, vision_end]"

definition get_updates_use_audio_in_video ::
    "'z TLiveOmniTokenIds_scheme \<Rightarrow> int \<Rightarrow> int \<Rightarrow> int \<Rightarrow> (string \<Rightarrow> int list) \<Rightarrow> int \<Rightarrow> int \<times> int \<times> int \<Rightarrow> rat \<Rightarrow>
     rat list option \<Rightarrow> int list res" where
  "get_updates_use_audio_in_video cfg vision_start vision_end spatial_merge_size encode audio_len thw second_per_grid_t ts =
     (case thw of (t, h, w) \<Rightarrow>
        rbind (require (spatial_merge_size \<noteq> 0) ZeroDivisionError) (\<lambda>_.
        let grid_t = nat t;
            height = h div spatial_merge_size; width = w div spatial_merge_size;
            video_tokens_per_grid = height * width;
            timestamps = (case ts of None \<Rightarrow> default_timestamps second_per_grid_t grid_t | Some l \<Rightarrow> l);
            boundaries = audio_boundaries grid_t second_per_grid_t (position_id_per_seconds cfg) audio_len
        in Inr (concat (map (\<lambda>grid_idx.
             av_span cfg vision_start vision_end encode video_tokens_per_grid
               (boundaries ! (grid_idx + 1) - boundaries ! grid_idx) (grid_time timestamps grid_idx))
           [0..<grid_t]))))"

section \<open>The two copies of the boundaries agree\<close>

lemma hf_boundary_loop:
  "bs \<noteq> [] \<Longrightarrow> foldl (\<lambda>boundaries grid_idx.
         let boundary = trunc (f64 (f64 (f64 (of_nat grid_idx * s) * of_int p) + eps_f64));
             boundary = min audio_len (max boundary (last boundaries))
         in boundaries @ [boundary]) bs ks =
     bs @ boundary_loop s p audio_len ks (last bs)"
  by (induction ks arbitrary: bs) (simp_all add: Let_def raw_boundary_def)

lemma hf_audio_boundaries_eq: "hf_audio_boundaries t s p audio_len = audio_boundaries t s p audio_len"
  unfolding hf_audio_boundaries_def audio_boundaries_def by (subst hf_boundary_loop) simp_all

lemma hf_current_time_eq: "hf_current_time ts i = grid_time ts i"
  by (cases ts) (auto simp: hf_current_time_def grid_time_def Let_def min_def)

section \<open>The partition contract of the boundaries\<close>

text \<open>
  What a builder of spans needs of the boundaries: they run from zero to the total without
  ever going back. Every audio token then falls into exactly one segment.
\<close>

locale audio_partition =
  fixes bs :: "int list" and n :: nat and total :: int
  assumes length_bs: "length bs = Suc n"
    and first_bs: "bs ! 0 = 0"
    and last_bs: "bs ! n = total"
    and step_bs: "i < n \<Longrightarrow> bs ! i \<le> bs ! Suc i"
begin

lemma segment_nonneg: "i < n \<Longrightarrow> 0 \<le> bs ! Suc i - bs ! i"
  using step_bs by simp

lemma segments_sum: "int (\<Sum>i\<leftarrow>[0..<n]. nat (bs ! Suc i - bs ! i)) = total"
  using sum_list_map_upt_nat_diffs [of n "(!) bs"] step_bs first_bs last_bs by simp

lemma total_nonneg: "0 \<le> total"
  using segments_sum by linarith

end

lemma length_boundary_loop [simp]: "length (boundary_loop s p a ks prev) = length ks"
  by (induction ks arbitrary: prev) (simp_all add: Let_def)

lemma sorted_boundary_loop:
  "prev \<le> a \<Longrightarrow> sorted (prev # boundary_loop s p a ks prev @ [a])"
proof (induction ks arbitrary: prev)
  case (Cons k ks)
  let ?b = "min a (max (raw_boundary s p k) prev)"
  have "prev \<le> ?b" and "?b \<le> a" using Cons.prems by simp_all
  with Cons.IH [of ?b] show ?case by (auto simp: Let_def)
qed simp

interpretation ab: audio_partition "audio_boundaries (Suc g) s p (int a)" "Suc g" "int a"
  for g s p a
proof unfold_locales
  let ?bs = "audio_boundaries (Suc g) s p (int a)"
  show len: "length ?bs = Suc (Suc g)" by (simp add: audio_boundaries_def)
  show "?bs ! 0 = 0" by (simp add: audio_boundaries_def)
  show "?bs ! Suc g = int a" by (simp add: audio_boundaries_def nth_append)
  have "sorted ?bs" unfolding audio_boundaries_def by (rule sorted_boundary_loop) simp
  then show "?bs ! i \<le> ?bs ! Suc i" if "i < Suc g" for i
    using that len by (intro sorted_nth_mono) simp_all
qed

section \<open>Token counts of a span sequence\<close>

text \<open>Timestamp texts encode to ordinary tokens.\<close>

definition plain_timestamps :: "'z TLiveOmniTokenIds_scheme \<Rightarrow> (string \<Rightarrow> int list) \<Rightarrow> bool" where
  "plain_timestamps cfg encode \<longleftrightarrow>
     (\<forall>t. set (encode (timestamp_text t)) \<inter> set (special_ids cfg) = {})"

lemma sum_list_const_upt: "(\<Sum>i\<leftarrow>[0..<n]. c) = n * (c::nat)"
  by (induction n) simp_all

lemma plain_count [simp]:
  "plain_timestamps cfg encode \<Longrightarrow> x \<in> set (special_ids cfg) \<Longrightarrow>
     count_list (encode (timestamp_text t)) x = 0"
  by (auto simp: plain_timestamps_def count_list_0_iff)

lemma count_list_av_span:
  assumes "distinct (special_ids cfg)" and "plain_timestamps cfg encode"
  shows "count_list (av_span cfg (vision_start_token_id cfg) (vision_end_token_id cfg) encode nv na t) (audio_token_id cfg) = nat na"
    and "count_list (av_span cfg (vision_start_token_id cfg) (vision_end_token_id cfg) encode nv na t) (video_token_id cfg) = nat nv"
    and "count_list (av_span cfg (vision_start_token_id cfg) (vision_end_token_id cfg) encode nv na t) (image_token_id cfg) = 0"
    and "x \<in> {vision_start_token_id cfg, vision_end_token_id cfg, audio_start_token_id cfg,
      audio_end_token_id cfg} \<Longrightarrow> count_list (av_span cfg (vision_start_token_id cfg) (vision_end_token_id cfg) encode nv na t) x = 1"
  using assms(1) plain_count [OF assms(2)]
  by (auto simp: av_span_def special_ids_def count_list_replicate)

lemma get_updates_counts:
  assumes ids: "distinct (special_ids cfg)" and plain: "plain_timestamps cfg encode"
    and dims: "0 < t" "0 \<le> audio_len"
    and run: "get_updates_use_audio_in_video cfg (vision_start_token_id cfg) (vision_end_token_id cfg) m encode audio_len (t, h, w) s ts = Inr U"
  shows "count_list U (audio_token_id cfg) = nat audio_len \<and>
    count_list U (video_token_id cfg) = nat t * nat ((h div m) * (w div m)) \<and>
    count_list U (image_token_id cfg) = 0 \<and>
    (\<forall>x \<in> {vision_start_token_id cfg, vision_end_token_id cfg,
            audio_start_token_id cfg, audio_end_token_id cfg}. count_list U x = nat t)"
proof -
  obtain g where g: "nat t = Suc g" using dims(1) by (metis gr0_conv_Suc zero_less_nat_eq)
  let ?b = "audio_boundaries (Suc g) s (position_id_per_seconds cfg) (int (nat audio_len))"
  obtain time where U: "U = concat (map (\<lambda>i.
      av_span cfg (vision_start_token_id cfg) (vision_end_token_id cfg) encode ((h div m) * (w div m)) (?b ! Suc i - ?b ! i) (time i)) [0..<Suc g])"
    using dims(2) run
    by (auto simp: get_updates_use_audio_in_video_def Let_def g res_iffs simp del: upt_Suc)
  note segs = ab.segments_sum [of g s "position_id_per_seconds cfg" "nat audio_len"]
  note counts = count_list_av_span [OF ids plain] count_list_concat comp_def sum_list_const_upt
  have "count_list U (audio_token_id cfg) = nat audio_len"
    using segs dims(2) by (simp add: U counts del: upt_Suc)
  moreover have "count_list U (video_token_id cfg) = Suc g * nat ((h div m) * (w div m))"
    by (simp add: U counts del: upt_Suc)
  moreover have "count_list U (image_token_id cfg) = 0"
    by (simp add: U counts del: upt_Suc)
  moreover have "count_list U x = Suc g" if "x \<in> {vision_start_token_id cfg, vision_end_token_id cfg,
            audio_start_token_id cfg, audio_end_token_id cfg}" for x
    using that by (simp only: U count_list_concat map_map comp_def counts(4) sum_list_const_upt mult_1_right)
  ultimately show ?thesis by (simp add: g)
qed

lemma get_updates_returns:
  "m \<noteq> 0 \<Longrightarrow> \<exists>U. get_updates_use_audio_in_video cfg vs ve m encode audio_len thw s ts = Inr U"
  by (cases thw) (simp add: get_updates_use_audio_in_video_def Let_def)

text \<open>
  C5: For every merge size other than zero vLLM builds a token sequence for a video with
  sound. It holds every audio token of the track exactly once, every video token of the grid
  exactly once, and one opening and one closing marker of each kind per temporal grid; no
  image token appears.
\<close>

theorem get_updates_token_counts:
  assumes ids: "distinct (special_ids cfg)" and plain: "plain_timestamps cfg encode"
    and dims: "0 < t" "0 \<le> audio_len" "m \<noteq> 0"
  shows "\<exists>U. get_updates_use_audio_in_video cfg (vision_start_token_id cfg) (vision_end_token_id cfg) m encode audio_len (t, h, w) s ts = Inr U \<and>
    count_list U (audio_token_id cfg) = nat audio_len \<and>
    count_list U (video_token_id cfg) = nat t * nat ((h div m) * (w div m)) \<and>
    count_list U (image_token_id cfg) = 0 \<and>
    (\<forall>x \<in> {vision_start_token_id cfg, vision_end_token_id cfg,
            audio_start_token_id cfg, audio_end_token_id cfg}. count_list U x = nat t)"
proof -
  obtain U where "get_updates_use_audio_in_video cfg (vision_start_token_id cfg) (vision_end_token_id cfg) m encode audio_len (t, h, w) s ts = Inr U"
    using get_updates_returns [OF dims(3)] by blast
  with get_updates_counts [OF ids plain dims(1,2) this] show ?thesis by blast
qed

theorem get_updates_token_counts_witness:
  "\<exists>U. get_updates_use_audio_in_video default_token_ids 248053 248054 2 (\<lambda>_. [27]) 30 (2, 4, 4) 2 None = Inr U \<and>
   count_list U 248076 = 30 \<and> count_list U 248057 = 8"
proof -
  have "plain_timestamps default_token_ids (\<lambda>_. [27])"
    by (simp add: plain_timestamps_def special_ids_def default_token_ids_def)
  from get_updates_token_counts [OF default_special_ids_distinct this, of 2 30 2 4 4 2 None]
  show ?thesis by (auto simp: default_token_ids_def)
qed

section \<open>A small tokenizer\<close>

text \<open>One token per character, and the seven markers.\<close>

definition demo_tokens :: mm_tokens where
  "demo_tokens = \<lparr>image_token = ''<|image_pad|>'', audio_token = ''<|audio_pad|>'',
     video_token = ''<|video_pad|>'', vision_bos_token = ''<|vision_start|>'',
     vision_eos_token = ''<|vision_end|>'', audio_bos_token = ''<|audio_start|>'',
     audio_eos_token = ''<|audio_end|>''\<rparr>"

definition demo_encode :: "string \<Rightarrow> int list" where
  "demo_encode s = map (\<lambda>c. int (of_char c)) s"

definition demo_decode :: "int \<Rightarrow> string" where
  "demo_decode x =
     (if x = 248053 then ''<|vision_start|>'' else if x = 248054 then ''<|vision_end|>''
      else if x = 248070 then ''<|audio_start|>'' else if x = 248071 then ''<|audio_end|>''
      else if x = 248057 then ''<|video_pad|>'' else if x = 248076 then ''<|audio_pad|>''
      else [char_of (nat x)])"

lemma demo_decode_encode: "concat (map demo_decode (demo_encode s)) = s"
proof (induction s)
  case (Cons c s)
  have "(of_char c :: nat) < 256" by (rule nat_of_char_less_256)
  then have "(of_char c :: nat) \<noteq> n" if "256 \<le> n" for n using that by linarith
  then have "demo_decode (int (of_char c)) = [c]" by (simp add: demo_decode_def)
  with Cons show ?case by (simp add: demo_encode_def)
qed (simp add: demo_encode_def)

section \<open>Timestamps are ordered\<close>

lemma length_pad_indices:
  "0 < m \<Longrightarrow> length (pad_indices m xs) = (length xs + m - 1) div m * m"
proof -
  assume m: "0 < m"
  let ?r = "length xs mod m" and ?q = "length xs div m"
  have eq: "length xs = ?q * m + ?r" and r: "?r < m" using m by simp_all
  show ?thesis
  proof (cases "?r = 0")
    case True
    have "length xs + m - 1 = ?q * m + (m - 1)" using eq True m by simp
    also have "\<dots> div m = ?q" using m by (subst div_mult_self3) (simp_all del: One_nat_def)
    finally have "(length xs + m - 1) div m = ?q" .
    with True eq show ?thesis by (simp add: pad_indices_def)
  next
    case False
    have "length xs + m - 1 = (?q + 1) * m + (?r - 1)" using eq False by simp
    also have "\<dots> div m = ?q + 1"
      using r m False by (subst div_mult_self3) (simp_all add: less_imp_diff_less del: One_nat_def)
    finally have "(length xs + m - 1) div m = ?q + 1" .
    moreover have "length xs + (m - ?r) = ?q * m + m" using eq r by linarith
    ultimately show ?thesis using False by (simp add: pad_indices_def add.commute)
  qed
qed

text \<open>The padded list stays sorted, and its blocks of \<open>m\<close> indices are complete.\<close>

lemma sorted_pad_indices: "sorted xs \<Longrightarrow> sorted (pad_indices m xs)"
  by (cases xs rule: rev_cases) (auto simp: pad_indices_def sorted_append)

lemma set_pad_indices: "m \<noteq> 0 \<Longrightarrow> set (pad_indices m xs) = set xs"
  by (cases xs rule: rev_cases) (auto simp: pad_indices_def)

lemma pad_indices_idem: "0 < m \<Longrightarrow> pad_indices m (pad_indices m xs) = pad_indices m xs"
  using length_pad_indices [of m xs] by (simp add: pad_indices_def [of m "pad_indices m xs"])

lemma length_range_step_mult: "0 < m \<Longrightarrow> range_step (k * m) m = map (\<lambda>i. i * m) [0..<k]"
proof -
  assume m: "0 < m"
  have "(k * m + m - 1) div m = (k * m + (m - 1)) div m" using m by simp
  also have "\<dots> = k" using m by (subst div_mult_self3) (simp_all del: One_nat_def)
  finally show ?thesis by (simp add: range_step_def)
qed

lemma midpoint_mono:
  assumes "0 \<le> a" "a \<le> c" "0 \<le> b" "b \<le> d"
  shows "f64 (f64 (a + b) / 2) \<le> f64 (f64 (c + d) / 2)"
proof -
  have "f64 (a + b) \<le> f64 (c + d)" and "0 \<le> f64 (a + b)"
    using assms by (simp_all add: fl_mono fl_nonneg)
  then show ?thesis by (simp add: fl_mono)
qed

text \<open>
  For a positive frame rate and an ascending list of frame numbers, the timestamps can be
  computed; there is one for each group of \<open>m\<close> frames, an incomplete last group counting,
  and they are ascending: rounding does not reorder them. The frame list the caller passed
  is extended in place to full groups, and a second call leaves it and the result unchanged.
\<close>

lemma calculate_timestamps_ordered:
  assumes fps: "0 < rate" and m: "0 < m" and sorted: "sorted indices"
    and nonneg: "set indices \<subseteq> {0..}"
  shows "\<exists>ts. calculate_timestamps indices rate m False = Inr (ts, pad_indices m indices) \<and>
     calculate_timestamps (pad_indices m indices) rate m False = Inr (ts, pad_indices m indices) \<and>
     length ts = (length indices + m - 1) div m \<and> sorted ts"
proof -
  let ?xs = "pad_indices m indices" and ?k = "(length indices + m - 1) div m"
  let ?t = "\<lambda>i. f64 (f64 (of_int (?xs ! i)) / rate)"
  let ?g = "\<lambda>i. f64 (f64 (?t (i * m) + ?t (i * m + m - 1)) / 2)"
  define ts where "ts = map ?g [0..<?k]"
  have len: "length ?xs = ?k * m" by (rule length_pad_indices [OF m])
  have "map_res (\<lambda>idx. py_truediv idx rate) ?xs = Inr (map (\<lambda>x. f64 (f64 (of_int x) / rate)) ?xs)"
    using fps by (intro map_res_pure) (simp add: py_truediv_def)
  moreover have "i * m + m - 1 < ?k * m \<and> i * m < ?k * m" if "i < ?k" for i
  proof -
    from that have "Suc i * m \<le> ?k * m" by (intro mult_le_mono1) simp
    with m that show ?thesis by simp
  qed
  ultimately have run: "calculate_timestamps indices rate m False = Inr (ts, ?xs)"
    using m by (simp add: calculate_timestamps_def ts_def len length_range_step_mult Let_def
        comp_def)
  then have again: "calculate_timestamps ?xs rate m False = Inr (ts, ?xs)"
    using m by (simp add: calculate_timestamps_def pad_indices_idem)
  have pos: "0 \<le> ?xs ! i" if "i < ?k * m" for i
    using that nonneg m set_pad_indices [of m indices] nth_mem [of i ?xs] len by auto
  have mono: "?t i \<le> ?t j" if "i \<le> j" "j < ?k * m" for i j
    using that fps sorted_nth_mono [OF sorted_pad_indices [OF sorted, of m], of i j] len pos [of i]
    by (intro fl_mono divide_right_mono divide_nonneg_pos fl_nonneg) simp_all
  have t_pos: "0 \<le> ?t i" if "i < ?k * m" for i
    using pos [OF that] fps by (intro fl_nonneg divide_nonneg_pos) simp_all
  have "?g i \<le> ?g j" if "i \<le> j" "j < ?k" for i j
  proof -
    have "j * m + m - 1 < ?k * m" and le: "i * m \<le> j * m"
      using that m mult_le_mono1 [of "Suc j" ?k m] by simp_all
    moreover have "j * m < ?k * m" "i * m < ?k * m" using m that by simp_all
    moreover have "i * m + m - 1 \<le> j * m + m - 1" using le by linarith
    ultimately show ?thesis by (intro midpoint_mono t_pos mono) linarith+
  qed
  then have "sorted ts" by (auto simp: ts_def sorted_iff_nth_mono)
  with run again show ?thesis by (auto simp: ts_def)
qed

lemma calculate_timestamps_ordered_witness:
  "\<exists>ts. calculate_timestamps [0, 15, 30] 30 2 False = Inr (ts, [0, 15, 30, 30]) \<and>
     length ts = 2 \<and> sorted ts"
  using calculate_timestamps_ordered [of 30 2 "[0, 15, 30]"] by (auto simp: pad_indices_def)

end
