(* ===== verification/Py_String.thy ===== *)
theory Py_String
  imports TLive_Prelude
begin

text \<open>
  Python's string search and replacement as the processors use them, and a way to reason about
  them: a text is cut into lexemes, the words in angle brackets and all other characters, and
  searching or replacing a bracketed word in a text is searching or replacing a lexeme.
\<close>

section \<open>The operations\<close>

definition starts_with :: "string \<Rightarrow> string \<Rightarrow> bool" where
  "starts_with p s \<longleftrightarrow> take (length p) s = p"

text \<open>\<open>old in s\<close>\<close>

fun occurs :: "string \<Rightarrow> string \<Rightarrow> bool" where
  "occurs old [] \<longleftrightarrow> old = []"
| "occurs old (c # cs) \<longleftrightarrow> starts_with old (c # cs) \<or> occurs old cs"

text \<open>\<open>s.replace(old, new, 1)\<close>\<close>

fun replace_first :: "string \<Rightarrow> string \<Rightarrow> string \<Rightarrow> string" where
  "replace_first old new [] = (if old = [] then new else [])"
| "replace_first old new (c # cs) =
     (if starts_with old (c # cs) then new @ drop (length old) (c # cs) else c # replace_first old new cs)"

text \<open>\<open>s.replace(old, new)\<close> for a non-empty \<open>old\<close>\<close>

function replace_all :: "string \<Rightarrow> string \<Rightarrow> string \<Rightarrow> string" where
  "replace_all old new [] = []"
| "replace_all old new (c # cs) =
     (if old \<noteq> [] \<and> starts_with old (c # cs) then new @ replace_all old new (drop (length old) (c # cs))
      else c # replace_all old new cs)"
  by pat_completeness auto

termination
  by (relation "measure (\<lambda>(old, new, s). length s)") auto

text \<open>
  \<open>re.finditer(pattern, s)\<close> where the pattern is an alternation of non-empty literal words: the
  matches with their positions, each at the first position from the end of the last one on where a
  word matches, the earlier alternative first.
\<close>

function finditer :: "string list \<Rightarrow> nat \<Rightarrow> string \<Rightarrow> (nat \<times> string) list" where
  "finditer ws pos [] = []"
| "finditer ws pos (c # cs) =
     (case List.find (\<lambda>w. w \<noteq> [] \<and> starts_with w (c # cs)) ws of
        Some w \<Rightarrow> (pos, w) # finditer ws (pos + length w) (drop (length w) (c # cs))
      | None \<Rightarrow> finditer ws (Suc pos) cs)"
  by pat_completeness auto

termination
  by (relation "measure (\<lambda>(ws, pos, s). length s)") (auto simp: find_Some_iff)

section \<open>Lexemes\<close>

abbreviation lt_char :: char where "lt_char \<equiv> CHR ''<''"
abbreviation gt_char :: char where "gt_char \<equiv> CHR ''>''"

definition inner :: "char \<Rightarrow> bool" where
  "inner c \<longleftrightarrow> c \<noteq> lt_char \<and> c \<noteq> gt_char"

text \<open>A word in angle brackets\<close>

definition mark :: "string \<Rightarrow> bool" where
  "mark t \<longleftrightarrow> (\<exists>b. t = lt_char # b @ [gt_char] \<and> list_all inner b)"

text \<open>Whether the text after an opening bracket closes it\<close>

definition closes :: "string \<Rightarrow> bool" where
  "closes s \<longleftrightarrow> (case dropWhile inner s of [] \<Rightarrow> False | c # _ \<Rightarrow> c = gt_char)"

function lexemes :: "string \<Rightarrow> string list" where
  "lexemes [] = []"
| "lexemes (c # cs) =
     (if c = lt_char \<and> closes cs
      then (c # takeWhile inner cs @ [gt_char]) # lexemes (tl (dropWhile inner cs))
      else [c] # lexemes cs)"
  by pat_completeness auto

termination
proof (relation "measure length", goal_cases)
  case (2 c cs)
  have "length (tl (dropWhile inner cs)) \<le> length cs" by (simp add: length_dropWhile_le diff_le_self order_trans [OF diff_le_self])
  then show ?case by simp
qed auto

lemma closesD: "closes s \<Longrightarrow> s = takeWhile inner s @ gt_char # tl (dropWhile inner s)"
  by (cases "dropWhile inner s") (auto simp: closes_def, metis takeWhile_dropWhile_id)

lemma closes_inner: "list_all inner b \<Longrightarrow> closes (b @ gt_char # s)"
  and takeWhile_inner: "list_all inner b \<Longrightarrow> takeWhile inner (b @ gt_char # s) = b"
  and dropWhile_inner: "list_all inner b \<Longrightarrow> dropWhile inner (b @ gt_char # s) = gt_char # s"
  by (induction b) (auto simp: closes_def inner_def)

lemma closes_append: "closes a \<Longrightarrow> closes (a @ b)"
  by (induction a) (auto simp: closes_def inner_def)

lemma mark_nonempty: "mark t \<Longrightarrow> t \<noteq> []"
  by (auto simp: mark_def)

lemma mark_length: "mark t \<Longrightarrow> 1 < length t"
  by (auto simp: mark_def)

lemma concat_lex [simp]: "concat (lexemes s) = s"
proof (induction s rule: lexemes.induct)
  case (2 c cs)
  then show ?case by (auto simp: closesD [symmetric])
qed simp

lemma lex_mark: "mark t \<Longrightarrow> lexemes (t @ s) = t # lexemes s"
  by (auto simp: mark_def closes_inner takeWhile_inner dropWhile_inner)

lemma lex_marks: "list_all mark ts \<Longrightarrow> lexemes (concat ts @ s) = ts @ lexemes s"
  by (induction ts) (auto simp: lex_mark)

lemma lex_nonempty: "x \<in> set (lexemes s) \<Longrightarrow> x \<noteq> []"
  by (induction s rule: lexemes.induct) (auto split: if_splits)

lemma lex_Nil_iff [simp]: "lexemes s = [] \<longleftrightarrow> s = []"
  by (cases s) simp_all

text \<open>A run of lexemes is the lexemes of its text.\<close>

lemma lex_suffix: "lexemes s = A @ B \<Longrightarrow> lexemes (concat B) = B"
proof (induction s arbitrary: A rule: lexemes.induct)
  case (2 c cs)
  show ?case
  proof (cases A)
    case Nil
    with 2(3) show ?thesis by (metis append_Nil concat_lex)
  next
    case (Cons x A')
    with 2 show ?thesis by (auto split: if_splits)
  qed
qed simp

lemma closes_prefix: "\<not> closes s \<Longrightarrow> s = a @ b \<Longrightarrow> \<not> closes a"
  using closes_append by blast

lemma lex_prefix: "lexemes s = A @ B \<Longrightarrow> lexemes (concat A) = A"
proof (induction s arbitrary: A rule: lexemes.induct)
  case (2 c cs)
  show ?case
  proof (cases A)
    case (Cons x A')
    show ?thesis
    proof (cases "c = lt_char \<and> closes cs")
      case True
      then have x: "x = c # takeWhile inner cs @ [gt_char]" "lexemes (tl (dropWhile inner cs)) = A' @ B"
        using 2(3) Cons by auto
      have "mark x" using True x(1) by (auto simp: mark_def list_all_iff dest: set_takeWhileD)
      with 2(1) [OF True x(2)] Cons show ?thesis by (simp add: lex_mark)
    next
      case False
      then have x: "x = [c]" "lexemes cs = A' @ B" using 2(3) Cons by auto
      have "cs = concat A' @ concat B" by (metis x(2) concat_append concat_lex)
      with False have "\<not> (c = lt_char \<and> closes (concat A'))" using closes_prefix by blast
      with 2(2) [OF False x(2)] Cons x(1) show ?thesis by auto
    qed
  qed simp
qed simp

text \<open>A text may be cut before an opening and after a closing bracket.\<close>

lemma lex_cut_open: "lexemes (a @ lt_char # b) = lexemes a @ lexemes (lt_char # b)"
proof (induction a rule: lexemes.induct)
  case (2 c cs)
  have eq: "closes (cs @ lt_char # b) \<longleftrightarrow> closes cs"
    by (induction cs) (auto simp: closes_def inner_def)
  show ?case
  proof (cases "c = lt_char \<and> closes cs")
    case True
    have "takeWhile inner (cs @ lt_char # b) = takeWhile inner cs"
      "tl (dropWhile inner (cs @ lt_char # b)) = tl (dropWhile inner cs) @ lt_char # b"
      using True closesD [of cs] by (metis (no_types, lifting) append_Cons append_assoc dropWhile_inner list.sel(3)
        list_all_iff set_takeWhileD takeWhile_inner)+
    with True 2(1) [OF True] eq show ?thesis by simp
  next
    case False
    with 2(2) [OF False] eq show ?thesis by auto
  qed
qed simp

lemma closes_snoc: "closes (cs @ [gt_char]) \<Longrightarrow> closes cs \<or> list_all inner cs"
  by (induction cs) (auto simp: closes_def inner_def split: if_splits)

lemma lex_cut_close: "lexemes ((a @ [gt_char]) @ b) = lexemes (a @ [gt_char]) @ lexemes b"
proof (induction a rule: lexemes.induct)
  case 1
  then show ?case by simp
next
  case (2 c cs)
  show ?case
  proof (cases "c = lt_char \<and> closes cs")
    case True
    let ?r = "tl (dropWhile inner cs)"
    have split: "takeWhile inner (cs @ ys) = takeWhile inner cs" "tl (dropWhile inner (cs @ ys)) = ?r @ ys" for ys
      using True closesD [of cs] by (metis (no_types, lifting) append_Cons append_assoc dropWhile_inner list.sel(3)
        list_all_iff set_takeWhileD takeWhile_inner)+
    have "closes (cs @ ys)" for ys using True closes_append by blast
    with True 2(1) [OF True] split show ?thesis by simp
  next
    case False
    show ?thesis
    proof (cases "c = lt_char \<and> closes (cs @ [gt_char])")
      case True
      with False have "list_all inner cs" using closes_snoc by blast
      then have "mark (c # cs @ [gt_char])" using True by (auto simp: mark_def)
      then show ?thesis using lex_mark [of "c # cs @ [gt_char]"] lex_mark [of "c # cs @ [gt_char]" "[]"] by simp
    next
      case out: False
      have "closes (cs @ gt_char # b) \<longleftrightarrow> closes (cs @ [gt_char])"
        by (induction cs) (auto simp: closes_def inner_def)
      with out False 2(2) [OF False] show ?thesis by auto
    qed
  qed
qed

section \<open>Searching and replacing lexemes\<close>

declare lexemes.simps(2) [simp del]

text \<open>A word in brackets starts only at an opening bracket.\<close>

lemma starts_with_mark:
  assumes "mark t"
  shows "starts_with t s \<longleftrightarrow> (\<exists>L. lexemes s = t # L)"
proof
  assume "starts_with t s"
  then have "s = t @ drop (length t) s" by (metis starts_with_def append_take_drop_id)
  with lex_mark [OF assms] show "\<exists>L. lexemes s = t # L" by metis
next
  assume "\<exists>L. lexemes s = t # L"
  then obtain L where "lexemes s = t # L" ..
  then have "s = t @ concat L" by (metis concat.simps(2) concat_lex)
  then show "starts_with t s" by (simp add: starts_with_def)
qed

lemma starts_with_marks:
  assumes "list_all mark ts"
  shows "starts_with (concat ts) s \<longleftrightarrow> (\<exists>L. lexemes s = ts @ L)"
proof
  assume "starts_with (concat ts) s"
  then have "s = concat ts @ drop (length (concat ts)) s" by (metis starts_with_def append_take_drop_id)
  with lex_marks [OF assms] show "\<exists>L. lexemes s = ts @ L" by metis
next
  assume "\<exists>L. lexemes s = ts @ L"
  then obtain L where "lexemes s = ts @ L" ..
  then have "s = concat ts @ concat L" by (metis concat_append concat_lex)
  then show "starts_with (concat ts) s" by (simp add: starts_with_def)
qed

lemma not_starts_inner: "list_all mark ts \<Longrightarrow> ts \<noteq> [] \<Longrightarrow> c \<noteq> lt_char \<Longrightarrow> \<not> starts_with (concat ts) (c # cs)"
  by (cases ts) (auto simp: mark_def starts_with_def)

lemma skip_inner:
  assumes "list_all mark ts" and "ts \<noteq> []" and "lt_char \<notin> set u"
  shows "replace_first (concat ts) new (u @ s) = u @ replace_first (concat ts) new s"
    and "occurs (concat ts) (u @ s) \<longleftrightarrow> occurs (concat ts) s"
  using assms(3) by (induction u) (auto simp: not_starts_inner [OF assms(1,2)])

text \<open>The lexemes of a text that starts with a lexeme\<close>

lemma lex_Cons_cases:
  assumes "lexemes s = x # L"
  obtains c u where "s = c # u @ concat L" "x = c # u" "lt_char \<notin> set u" "lexemes (concat L) = L"
proof -
  have L: "lexemes (concat L) = L" by (rule lex_suffix [of s "[x]"]) (simp add: assms)
  have s: "s = x @ concat L" by (metis assms concat.simps(2) concat_lex)
  obtain c cs where cs: "s = c # cs" using assms by (cases s) auto
  show thesis
  proof (cases "c = lt_char \<and> closes cs")
    case True
    then have "x = c # takeWhile inner cs @ [gt_char]" using assms cs by (simp add: lexemes.simps(2))
    moreover have "lt_char \<notin> set (takeWhile inner cs @ [gt_char])" by (auto simp: inner_def dest: set_takeWhileD)
    ultimately show thesis using that [of c "takeWhile inner cs @ [gt_char]"] s L by simp
  next
    case False
    then have "x = [c]" using assms cs by (auto simp: lexemes.simps(2))
    then show thesis using that [of c "[]"] s L by simp
  qed
qed

text \<open>The first run of lexemes \<open>ts\<close> in a list of lexemes\<close>

fun splice_first :: "string list \<Rightarrow> string \<Rightarrow> string list \<Rightarrow> string list" where
  "splice_first ts new [] = []"
| "splice_first ts new (x # xs) =
     (if take (length ts) (x # xs) = ts then new # drop (length ts) (x # xs) else x # splice_first ts new xs)"

lemma take_eq_append: "take (length ts) xs = ts \<longleftrightarrow> (\<exists>L. xs = ts @ L)"
  by (metis append_eq_conv_conj append_take_drop_id)

lemma replace_first_lex:
  assumes "list_all mark ts" and "ts \<noteq> []"
  shows "replace_first (concat ts) new s = concat (splice_first ts new (lexemes s))"
proof (induction "lexemes s" arbitrary: s)
  case Nil
  have "concat ts \<noteq> []" using assms by (cases ts) (auto dest: mark_nonempty)
  with Nil [symmetric] show ?case by auto
next
  case (Cons x L)
  then obtain c u where s: "s = c # u @ concat L" "x = c # u" "lt_char \<notin> set u" "lexemes (concat L) = L"
    by (metis lex_Cons_cases)
  show ?case
  proof (cases "take (length ts) (x # L) = ts")
    case True
    then obtain M where M: "x # L = ts @ M" by (auto simp: take_eq_append)
    then have "s = concat ts @ concat M" by (metis Cons.hyps(2) concat_append concat_lex)
    then have "drop (length (concat ts)) s = concat M" by simp
    moreover have "starts_with (concat ts) s"
      using M Cons.hyps(2) [symmetric] by (simp add: starts_with_marks [OF assms(1)])
    ultimately have "replace_first (concat ts) new s = new @ concat M" using s(1) by simp
    moreover have "splice_first ts new (x # L) = new # M"
    proof -
      have "drop (length ts) (x # L) = M" using M by simp
      with True show ?thesis by (simp only: splice_first.simps if_True simp_thms)
    qed
    ultimately show ?thesis by (simp add: Cons.hyps(2) [symmetric])
  next
    case False
    then have "\<not> starts_with (concat ts) s" using Cons.hyps(2) by (auto simp: starts_with_marks [OF assms(1)] take_eq_append)
    then have "replace_first (concat ts) new s = x @ concat (splice_first ts new L)"
      using s Cons.hyps(1) [of "concat L"] skip_inner(1) [OF assms s(3)] by simp
    with False show ?thesis by (simp add: Cons.hyps(2) [symmetric])
  qed
qed

lemma occurs_lex:
  assumes "list_all mark ts" and "ts \<noteq> []"
  shows "occurs (concat ts) s \<longleftrightarrow> (\<exists>A B. lexemes s = A @ ts @ B)"
proof
  show "\<exists>A B. lexemes s = A @ ts @ B" if "occurs (concat ts) s"
    using that
  proof (induction "lexemes s" arbitrary: s)
    case Nil
    have "concat ts \<noteq> []" using assms by (cases ts) (auto dest: mark_nonempty)
    with Nil(2) Nil(1) [symmetric] show ?case by simp
  next
    case (Cons x L)
    then obtain c u where s: "s = c # u @ concat L" "x = c # u" "lt_char \<notin> set u" "lexemes (concat L) = L"
      by (metis lex_Cons_cases)
    show ?case
    proof (cases "starts_with (concat ts) s")
      case True
      then show ?thesis using starts_with_marks [OF assms(1)] by (metis append_Nil)
    next
      case False
      with Cons.prems s have "occurs (concat ts) (concat L)" using skip_inner(2) [OF assms s(3)] by simp
      with Cons.hyps(1) [of "concat L"] s(4) obtain A B where "L = A @ ts @ B" by auto
      then show ?thesis using Cons.hyps(2) by (metis append_Cons)
    qed
  qed
  show "occurs (concat ts) s" if "\<exists>A B. lexemes s = A @ ts @ B"
  proof -
    from that obtain A B where "lexemes s = A @ ts @ B" by blast
    then have "s = concat A @ concat ts @ concat B" by (metis concat_append concat_lex)
    moreover have "occurs t (a @ t @ b)" for t a b
    proof (induction a)
      case Nil
      have "starts_with t (t @ b)" by (simp add: starts_with_def)
      then show ?case by (cases "t @ b") auto
    qed simp
    ultimately show ?thesis by simp
  qed
qed

lemma replace_all_lex:
  assumes "mark t"
  shows "replace_all t new s = concat (map (\<lambda>x. if x = t then new else x) (lexemes s))"
proof (induction "lexemes s" arbitrary: s)
  case (Cons x L)
  then obtain c u where s: "s = c # u @ concat L" "x = c # u" "lt_char \<notin> set u" "lexemes (concat L) = L"
    by (metis lex_Cons_cases)
  have t: "list_all mark [t]" "[t] \<noteq> []" using assms by auto
  have IH: "replace_all t new (concat L) = concat (map (\<lambda>x. if x = t then new else x) L)"
    using Cons.hyps(1) [of "concat L"] s(4) by simp
  show ?case
  proof (cases "x = t")
    case True
    then have "starts_with t s" "t \<noteq> []" using Cons.hyps(2) [symmetric] assms by (auto simp: starts_with_mark mark_nonempty)
    then show ?thesis using IH True s Cons.hyps(2) [symmetric] by auto
  next
    case False
    then have "\<not> starts_with t s" using Cons.hyps(2) assms by (auto simp: starts_with_mark)
    moreover have "replace_all t new (u @ concat L) = u @ replace_all t new (concat L)"
      using s(3)
    proof (induction u)
      case (Cons d u)
      then have "\<not> starts_with t (d # u @ concat L)" using not_starts_inner [OF t, of d] by auto
      with Cons show ?case by simp
    qed simp
    ultimately show ?thesis using IH False s Cons.hyps(2) [symmetric] by simp
  qed
next
  case Nil
  from Nil [symmetric] show ?case by simp
qed

lemma finditer_lex:
  assumes "list_all mark ws"
  shows "map snd (finditer ws pos s) = filter (\<lambda>x. x \<in> set ws) (lexemes s)"
    and "sorted (map fst (finditer ws pos s)) \<and> (\<forall>m \<in> set (finditer ws pos s). pos \<le> fst m)"
proof -
  show "sorted (map fst (finditer ws pos s)) \<and> (\<forall>m \<in> set (finditer ws pos s). pos \<le> fst m)"
    by (induction ws pos s rule: finditer.induct) (force split: option.splits)+
  show "map snd (finditer ws pos s) = filter (\<lambda>x. x \<in> set ws) (lexemes s)"
  proof (induction "lexemes s" arbitrary: s pos)
    case (Cons x L)
    then obtain c u where s: "s = c # u @ concat L" "x = c # u" "lt_char \<notin> set u" "lexemes (concat L) = L"
      by (metis lex_Cons_cases)
    note IH = Cons.hyps(1) [of "concat L"]
    have start: "w \<noteq> [] \<and> starts_with w s \<longleftrightarrow> x = w" if "w \<in> set ws" for w
    proof -
      have w: "mark w" using that assms by (simp add: list_all_iff)
      then show ?thesis using Cons.hyps(2) [symmetric] by (auto simp: starts_with_mark [OF w] mark_nonempty)
    qed
    show ?case
    proof (cases "x \<in> set ws")
      case True
      have "List.find (\<lambda>w. w \<noteq> [] \<and> starts_with w s) ws = List.find (\<lambda>w. w = x) ws"
        by (rule find_cong) (use start in auto)
      also have "\<dots> = Some x" using True by (induction ws) auto
      finally show ?thesis using True s IH Cons.hyps(2) [symmetric] by (auto simp: s(1))
    next
      case False
      have "List.find (\<lambda>w. w \<noteq> [] \<and> starts_with w s) ws = None"
        using start False by (auto simp: find_None_iff)
      moreover have "map snd (finditer ws p (u @ ys)) = map snd (finditer ws (p + length u) ys)" for p ys
        using s(3)
      proof (induction u arbitrary: p)
        case (Cons d u)
        have "\<not> starts_with w (d # u @ ys)" if "w \<in> set ws" for w
          using not_starts_inner [of "[w]" d] that assms Cons.prems by (auto simp: list_all_iff)
        then have "List.find (\<lambda>w. w \<noteq> [] \<and> starts_with w (d # u @ ys)) ws = None" by (auto simp: find_None_iff)
        with Cons show ?case by simp
      qed simp
      ultimately show ?thesis using False s IH Cons.hyps(2) [symmetric] by auto
    qed
  next
    case (Nil s pos)
    from Nil [symmetric] show ?case by simp
  qed
qed

text \<open>Exchanging bracketed words keeps the lexemes apart.\<close>

lemma closes_append_cong: "closes r = closes r' \<Longrightarrow> closes (x @ r) = closes (x @ r')"
  by (induction x) (auto simp: closes_def inner_def)

lemma not_closes_mark: "mark x \<Longrightarrow> \<not> closes (x @ r)"
  by (auto simp: mark_def closes_def inner_def)

lemma closes_map_marks:
  "(\<And>x. x \<in> set L \<Longrightarrow> f x = x \<or> mark x \<and> mark (f x)) \<Longrightarrow> closes (concat (map f L)) = closes (concat L)"
proof (induction L)
  case (Cons x L)
  then have IH: "closes (concat (map f L)) = closes (concat L)" by simp
  show ?case
  proof (cases "f x = x")
    case True
    with closes_append_cong [OF IH] show ?thesis by simp
  next
    case False
    with Cons.prems [of x] show ?thesis by (simp add: not_closes_mark)
  qed
qed simp

lemma lex_map_marks:
  assumes "lexemes s = L" and "\<And>x. x \<in> set L \<Longrightarrow> f x = x \<or> mark x \<and> mark (f x)"
  shows "lexemes (concat (map f L)) = map f L"
  using assms
proof (induction L arbitrary: s)
  case (Cons x L)
  have L: "lexemes (concat L) = L" by (rule lex_suffix [of s "[x]"]) (simp add: Cons.prems(1))
  from Cons.IH [OF L] Cons.prems(2) have IH: "lexemes (concat (map f L)) = map f L" by simp
  show ?case
  proof (cases "mark (f x)")
    case True
    with IH show ?thesis by (simp add: lex_mark)
  next
    case False
    with Cons.prems(2) [of x] have fx: "f x = x" by simp
    obtain c cs where cs: "s = c # cs" using Cons.prems(1) by (cases s) auto
    have "\<not> (c = lt_char \<and> closes cs)"
    proof
      assume "c = lt_char \<and> closes cs"
      with Cons.prems(1) cs have "mark x" by (auto simp: lexemes.simps(2) mark_def list_all_iff dest: set_takeWhileD)
      with False fx show False by simp
    qed
    with Cons.prems(1) cs have x: "x = [c]" "lexemes cs = L" by (auto simp: lexemes.simps(2))
    then have "cs = concat L" by (metis concat_lex)
    with \<open>\<not> (c = lt_char \<and> closes cs)\<close> closes_map_marks [of L f] Cons.prems(2)
    have "\<not> (c = lt_char \<and> closes (concat (map f L)))" by simp
    with IH fx x(1) show ?thesis by (auto simp: lexemes.simps(2))
  qed
qed simp

text \<open>Putting a text in brackets in the place of a run of lexemes\<close>

definition bracketed :: "string \<Rightarrow> bool" where
  "bracketed p \<longleftrightarrow> p \<noteq> [] \<and> hd p = lt_char \<and> last p = gt_char"

lemma bracketed_mark: "mark t \<Longrightarrow> bracketed t"
  by (auto simp: mark_def bracketed_def)

lemma bracketed_append: "bracketed a \<Longrightarrow> bracketed b \<Longrightarrow> bracketed (a @ b)"
  by (simp add: bracketed_def)

lemma bracketed_concat: "ps \<noteq> [] \<Longrightarrow> list_all bracketed ps \<Longrightarrow> bracketed (concat ps)"
proof (induction ps)
  case (Cons p ps)
  then show ?case by (cases ps) (auto intro: bracketed_append)
qed simp

lemma lex_insert:
  assumes "lexemes s = D @ ts @ L" and "bracketed p"
  shows "lexemes (concat D @ p @ concat L) = D @ lexemes p @ L"
proof -
  have D: "lexemes (concat D) = D" by (rule lex_prefix [OF assms(1)])
  have L: "lexemes (concat L) = L" by (rule lex_suffix [of s "D @ ts"]) (simp add: assms(1))
  obtain q where q: "p = q @ [gt_char]" using assms(2) by (metis append_butlast_last_id bracketed_def)
  obtain o' where o': "p = lt_char # o'" using assms(2) by (metis bracketed_def list.collapse)
  have "lexemes (concat D @ p @ concat L) = D @ lexemes (p @ concat L)"
    using lex_cut_open [of "concat D" "o' @ concat L"] by (simp add: o' D)
  also have "lexemes (p @ concat L) = lexemes p @ L" using lex_cut_close [of q "concat L"] by (simp add: q L)
  finally show ?thesis by simp
qed

lemma splice_first_at:
  assumes "\<And>i. i < length D \<Longrightarrow> take (length ts) (drop i (D @ ts @ L)) \<noteq> ts" and "ts \<noteq> []"
  shows "splice_first ts p (D @ ts @ L) = D @ p # L"
  using assms
proof (induction D)
  case Nil
  then obtain x xs where "ts @ L = x # xs" by (cases "ts @ L") auto
  moreover have "take (length ts) (ts @ L) = ts" "drop (length ts) (ts @ L) = L" by simp_all
  ultimately show ?case by (simp only: append_Nil splice_first.simps if_True simp_thms)
next
  case (Cons d D)
  have "take (length ts) (drop i (D @ ts @ L)) \<noteq> ts" if "i < length D" for i using Cons.prems(1) [of "Suc i"] that by simp
  with Cons.IH [OF _ Cons.prems(2)] Cons.prems(1) [of 0] show ?case by simp
qed

lemma replace_first_at:
  assumes "lexemes s = D @ ts @ L" and "list_all mark ts" and "ts \<noteq> []"
    and "\<And>i. i < length D \<Longrightarrow> take (length ts) (drop i (D @ ts @ L)) \<noteq> ts"
  shows "replace_first (concat ts) p s = concat D @ p @ concat L"
  using replace_first_lex [OF assms(2,3), of p s] splice_first_at [OF assms(4,3)] assms(1) by simp

end
