(* ===== verification/Prompt_Expansion.thy ===== *)
theory Prompt_Expansion
  imports Video_Spans Py_String
begin

text \<open>
  How the processor of the transformers model expands the media markers of a batch of prompts
  (\<open>TLiveOmniProcessor.replace_multimodal_special_tokens\<close> and \<open>_validate_video_audio_tokens\<close> of
  \<open>src/tlive_omni/processing_tlive_omni.py\<close>). The tokenizer is a parameter.
\<close>

text \<open>The media of the batch: what the iterators given to the method yield\<close>

record batch_media =
  audio_lengths :: "int list"
  image_grid_thw :: "(int \<times> int \<times> int) list"
  video_grid_thw :: "(int \<times> int \<times> int) list"
  video_second_per_grid :: "rat list"
  video_metadatas :: "video_metadata option list"

text \<open>The attributes of the processor the method reads\<close>

record processor =
  tokens_of :: mm_tokens
  image_merge_size :: int
  video_merge_size :: int
  temporal_patch_size :: nat
  tokenizer_encode :: "string \<Rightarrow> int list"
  convert_tokens_to_ids :: "string \<Rightarrow> int"

text \<open>The local variables of the loop over the markers of a sample\<close>

record expansion =
  sample :: string
  audio_idx :: nat
  image_idx :: nat
  video_idx :: nat
  sample_video_count :: nat

definition image_seq_length :: "processor \<Rightarrow> int \<times> int \<times> int \<Rightarrow> int" where
  "image_seq_length pr thw = (case thw of (t, h, w) \<Rightarrow> (t * h * w) div (image_merge_size pr) ^ 2)"

text \<open>The placeholder of the next video\<close>

definition next_video_placeholder ::
    "processor \<Rightarrow> batch_media \<Rightarrow> bool \<Rightarrow> int \<Rightarrow> nat \<Rightarrow> nat \<Rightarrow> string res" where
  "next_video_placeholder pr md use_audio_in_video per_seconds a_idx v_idx =
     rbind (if video_metadatas md = [] then Inr None else py_nth (video_metadatas md) (int v_idx)) (\<lambda>meta.
     rbind (if use_audio_in_video then py_nth (audio_lengths md) (int a_idx) else Inr 0) (\<lambda>audio_length.
     rbind (if use_audio_in_video then py_nth (video_second_per_grid md) (int v_idx) else Inr 0) (\<lambda>s.
     generate_video_placeholder (tokens_of pr) (video_merge_size pr) (temporal_patch_size pr)
       (video_grid_thw md ! v_idx) meta use_audio_in_video audio_length s per_seconds)))"

definition expand_marker ::
    "processor \<Rightarrow> batch_media \<Rightarrow> bool \<Rightarrow> int \<Rightarrow> string \<Rightarrow> expansion \<Rightarrow> expansion res" where
  "expand_marker pr md use_audio_in_video per_seconds special_token e =
     (let tk = tokens_of pr
      in if special_token = audio_token tk then
        rbind (require (audio_idx e < length (audio_lengths md))
          (ValueError ''The prompt contains more audio tokens than supplied audio inputs.'')) (\<lambda>_.
        Inr (e\<lparr>sample := replace_first (audio_token tk)
                 (str_repeat (audio_lengths md ! audio_idx e) audio_placeholder) (sample e),
               audio_idx := audio_idx e + 1\<rparr>))
      else if special_token = image_token tk then
        rbind (require (image_idx e < length (image_grid_thw md))
          (ValueError ''The prompt contains more image tokens than supplied image inputs.'')) (\<lambda>_.
        rbind (require (image_merge_size pr \<noteq> 0) (RuntimeError ''ZeroDivisionError'')) (\<lambda>_.
        Inr (e\<lparr>sample := replace_first (image_token tk)
                 (str_repeat (image_seq_length pr (image_grid_thw md ! image_idx e)) image_placeholder) (sample e),
               image_idx := image_idx e + 1\<rparr>)))
      else if special_token = video_token tk then
        rbind (require (video_idx e < length (video_grid_thw md))
          (ValueError ''The prompt contains more video tokens than supplied video inputs.'')) (\<lambda>_.
        rbind (require (\<not> (use_audio_in_video \<and> audio_idx e \<ge> length (audio_lengths md)))
          (ValueError ''Each vocal video requires one matching audio track.'')) (\<lambda>_.
        rbind (next_video_placeholder pr md use_audio_in_video per_seconds (audio_idx e) (video_idx e)) (\<lambda>placeholder.
        let wrapped_video_token = vision_bos_token tk @ video_token tk @ vision_eos_token tk
        in Inr (e\<lparr>sample := (if occurs wrapped_video_token (sample e)
                             then replace_first wrapped_video_token placeholder (sample e)
                             else replace_first (video_token tk) placeholder (sample e)),
                  audio_idx := (if use_audio_in_video then audio_idx e + 1 else audio_idx e),
                  video_idx := video_idx e + 1,
                  sample_video_count := sample_video_count e + 1\<rparr>))))
      else Inr e)"

text \<open>The markers of a sample in the order of their positions\<close>

definition marker_positions :: "mm_tokens \<Rightarrow> string \<Rightarrow> (nat \<times> string) list" where
  "marker_positions tk s = sort_key fst (finditer [audio_token tk, image_token tk, video_token tk] 0 s)"

definition restore_markers :: "mm_tokens \<Rightarrow> string \<Rightarrow> string" where
  "restore_markers tk s =
     replace_all video_placeholder (video_token tk)
       (replace_all image_placeholder (image_token tk)
         (replace_all audio_placeholder (audio_token tk) s))"

definition validate_video_audio_tokens :: "processor \<Rightarrow> int list \<Rightarrow> bool res" where
  "validate_video_audio_tokens pr token_ids =
     (let tk = tokens_of pr;
          n = (\<lambda>t. length (filter (\<lambda>idx. token_ids ! idx = convert_tokens_to_ids pr t) [0..<length token_ids]))
      in rbind (require (n (vision_bos_token tk) = n (vision_eos_token tk))
           (ValueError ''Video start/end token count mismatch: '')) (\<lambda>_.
         rbind (require (n (audio_bos_token tk) = n (audio_eos_token tk))
           (ValueError ''Audio start/end token count mismatch: '')) (\<lambda>_.
         Inr True)))"

definition expand_sample ::
    "processor \<Rightarrow> batch_media \<Rightarrow> bool \<Rightarrow> int \<Rightarrow> string \<Rightarrow> nat \<times> nat \<times> nat \<Rightarrow> (string \<times> nat \<times> nat \<times> nat) res" where
  "expand_sample pr md use_audio_in_video per_seconds s idx =
     (case idx of (a, i, v) \<Rightarrow>
        rbind (fold_res (\<lambda>(_, special_token). expand_marker pr md use_audio_in_video per_seconds special_token)
                 (marker_positions (tokens_of pr) s)
                 \<lparr>sample = s, audio_idx = a, image_idx = i, video_idx = v, sample_video_count = 0\<rparr>) (\<lambda>e.
        let out = restore_markers (tokens_of pr) (sample e)
        in rbind (if use_audio_in_video \<and> sample_video_count e > 0
                  then validate_video_audio_tokens pr (tokenizer_encode pr out) else Inr True) (\<lambda>_.
           Inr (out, audio_idx e, image_idx e, video_idx e))))"

fun expand_samples ::
    "processor \<Rightarrow> batch_media \<Rightarrow> bool \<Rightarrow> int \<Rightarrow> string list \<Rightarrow> nat \<times> nat \<times> nat \<Rightarrow> (string list \<times> nat \<times> nat \<times> nat) res" where
  "expand_samples pr md use_audio_in_video per_seconds [] idx = Inr ([], idx)"
| "expand_samples pr md use_audio_in_video per_seconds (s # ss) idx =
     rbind (expand_sample pr md use_audio_in_video per_seconds s idx) (\<lambda>(out, idx').
     rbind (expand_samples pr md use_audio_in_video per_seconds ss idx') (\<lambda>(outs, idx'').
     Inr (out # outs, idx'')))"

definition replace_multimodal_special_tokens ::
    "processor \<Rightarrow> batch_media \<Rightarrow> bool \<Rightarrow> int \<Rightarrow> string list \<Rightarrow> string list res" where
  "replace_multimodal_special_tokens pr md use_audio_in_video per_seconds texts =
     rbind (expand_samples pr md use_audio_in_video per_seconds texts (0, 0, 0)) (\<lambda>(processed_text, a, i, v).
     let unconsumed = a \<noteq> length (audio_lengths md) \<or> i \<noteq> length (image_grid_thw md) \<or> v \<noteq> length (video_grid_thw md);
         media_only_call = list_all (\<lambda>s. s = []) texts
     in if unconsumed \<and> \<not> media_only_call then Inl (ValueError ''Prompt/media count mismatch: '')
        else Inr processed_text)"

end
