(* ===== verification/Prompt_Expansion_Correct.thy ===== *)
theory Prompt_Expansion_Correct
  imports Prompt_Expansion
begin

text \<open>
  The expansion of the media markers is a single pass over the lexemes of the prompt, although
  the code replaces the first occurrence of each marker in the growing text; the processed prompts
  hold as many markers of each kind as the encoders return rows.
\<close>

section \<open>Markers\<close>

definition marker :: "string \<Rightarrow> bool" where
  "marker t \<longleftrightarrow> 4 \<le> length t \<and> take 2 t = ''<|'' \<and> last t = CHR ''>'' \<and> list_all inner (butlast (tl t))"

definition markers_ok :: "mm_tokens \<Rightarrow> bool" where
  "markers_ok tk \<longleftrightarrow>
     list_all marker [image_token tk, audio_token tk, video_token tk, vision_bos_token tk, vision_eos_token tk,
       audio_bos_token tk, audio_eos_token tk] \<and>
     distinct [image_token tk, audio_token tk, video_token tk, vision_bos_token tk, vision_eos_token tk,
       audio_bos_token tk, audio_eos_token tk, audio_placeholder, image_placeholder, video_placeholder]"

lemma marker_mark: "marker t \<Longrightarrow> mark t"
proof -
  assume t: "marker t"
  then obtain c ts where c: "t = c # ts" by (cases t) (auto simp: marker_def)
  with t have ts: "t = c # ts" "ts \<noteq> []" "c = lt_char" by (auto simp: marker_def)
  then have "t = lt_char # butlast ts @ [last ts]" by simp
  with t ts show ?thesis unfolding mark_def by (intro exI [of _ "butlast ts"]) (simp add: marker_def)
qed

lemma placeholder_marks: "mark audio_placeholder" "mark image_placeholder" "mark video_placeholder"
  by (rule marker_mark, simp add: marker_def inner_def)+

lemma markers_okD:
  assumes "markers_ok tk"
  shows "mark (image_token tk)" "mark (audio_token tk)" "mark (video_token tk)" "mark (vision_bos_token tk)"
    "mark (vision_eos_token tk)" "mark (audio_bos_token tk)" "mark (audio_eos_token tk)"
  using assms by (auto simp: markers_ok_def intro: marker_mark)

text \<open>A timestamp is a word in brackets and no marker.\<close>

lemma show_nat_digits: "c \<in> set (show_nat n) \<Longrightarrow> \<exists>d < 10. c = digit_char d"
proof (induction n rule: show_nat.induct)
  case (1 n)
  show ?case
  proof (cases "n < 10")
    case True
    with 1(2) show ?thesis by (auto simp: show_nat.simps [of n])
  next
    case False
    with 1(2) have "c \<in> set (show_nat (n div 10)) \<or> c = digit_char (n mod 10)" by (auto simp: show_nat.simps [of n])
    with 1(1) [OF False] show ?thesis by (metis mod_less_divisor zero_less_numeral)
  qed
qed

lemma digit_inner: "d < 10 \<Longrightarrow> inner (digit_char d) \<and> digit_char d \<noteq> CHR ''|''"
proof -
  assume d: "d < 10"
  then have "of_char (digit_char d) = 48 + d" by (simp add: digit_char_def of_char_of)
  with d have "(of_char (digit_char d) :: nat) \<noteq> of_char CHR ''<''" "(of_char (digit_char d) :: nat) \<noteq> of_char CHR ''>''"
    "(of_char (digit_char d) :: nat) \<noteq> of_char CHR ''|''" by simp_all
  then show ?thesis by (metis inner_def)
qed

lemma show_nat_inner: "list_all inner (show_nat n) \<and> show_nat n \<noteq> [] \<and> hd (show_nat n) \<noteq> CHR ''|''"
proof -
  have ne: "show_nat n \<noteq> []" by (simp add: show_nat.simps [of n])
  then have "hd (show_nat n) \<in> set (show_nat n)" by simp
  with ne show ?thesis using show_nat_digits digit_inner by (metis list_all_iff)
qed

lemma timestamp_mark: "mark (timestamp_text t)" and timestamp_no_marker: "\<not> marker (timestamp_text t)"
proof -
  have f: "list_all inner (format_1f t)" "format_1f t \<noteq> []" "hd (format_1f t) \<noteq> CHR ''|''"
    using show_nat_inner by (auto simp: format_1f_def Let_def inner_def)
  then have "timestamp_text t = lt_char # (format_1f t @ '' seconds'') @ [gt_char]" "list_all inner (format_1f t @ '' seconds'')"
    by (simp_all add: timestamp_text_def inner_def)
  then show "mark (timestamp_text t)" unfolding mark_def by blast
  show "\<not> marker (timestamp_text t)" using f by (cases "format_1f t") (auto simp: marker_def timestamp_text_def)
qed

section \<open>The placeholder of a video\<close>

lemma str_repeat_concat: "str_repeat n s = concat (replicate (nat n) s)"
  by (simp add: str_repeat_def)

definition video_tokens_per_grid :: "int \<Rightarrow> bool \<Rightarrow> int \<times> int \<times> int \<Rightarrow> int" where
  "video_tokens_per_grid m use_audio_in_video thw = (case thw of (t, h, w) \<Rightarrow>
     if use_audio_in_video then (h div m) * (w div m) else (h * w) div m ^ 2)"

lemma marker_not_timestamp: "marker x \<Longrightarrow> timestamp_text t \<noteq> x" "marker x \<Longrightarrow> x \<noteq> timestamp_text t"
  using timestamp_no_marker by blast+

lemma placeholder_markers: "marker audio_placeholder" "marker image_placeholder" "marker video_placeholder"
  by (simp_all add: marker_def inner_def)

text \<open>The lexemes of the span of one grid, without and with sound\<close>

definition span_marks :: "mm_tokens \<Rightarrow> bool \<Rightarrow> int \<Rightarrow> int \<Rightarrow> rat \<Rightarrow> string list" where
  "span_marks tk use_audio nv na time =
     (if use_audio
      then [timestamp_text time, vision_bos_token tk, audio_bos_token tk] @ replicate (nat nv) video_placeholder @
        replicate (nat na) audio_placeholder @ [audio_eos_token tk, vision_eos_token tk]
      else [timestamp_text time, vision_bos_token tk] @ replicate (nat nv) video_placeholder @ [vision_eos_token tk])"

lemma span_marks_ok:
  assumes "markers_ok tk"
  shows "list_all mark (span_marks tk u nv na time)" and "span_marks tk u nv na time \<noteq> []"
    and "x \<in> {audio_token tk, image_token tk, video_token tk} \<Longrightarrow> x \<notin> set (span_marks tk u nv na time)"
    and "count_list (span_marks tk u nv na time) video_placeholder = nat nv"
    and "count_list (span_marks tk u nv na time) audio_placeholder = (if u then nat na else 0)"
    and "count_list (span_marks tk u nv na time) image_placeholder = 0"
proof -
  note d = assms [unfolded markers_ok_def]
  show "list_all mark (span_marks tk u nv na time)"
    using markers_okD [OF assms] placeholder_marks timestamp_mark by (auto simp: span_marks_def list_all_iff)
  show "span_marks tk u nv na time \<noteq> []" by (simp add: span_marks_def)
  show "x \<notin> set (span_marks tk u nv na time)" if "x \<in> {audio_token tk, image_token tk, video_token tk}"
    using that d marker_not_timestamp by (auto simp: span_marks_def)
  show "count_list (span_marks tk u nv na time) video_placeholder = nat nv"
    "count_list (span_marks tk u nv na time) audio_placeholder = (if u then nat na else 0)"
    "count_list (span_marks tk u nv na time) image_placeholder = 0"
    using d marker_not_timestamp(1) [OF placeholder_markers(1)] marker_not_timestamp(1) [OF placeholder_markers(2)]
      marker_not_timestamp(1) [OF placeholder_markers(3)]
    by (auto simp: span_marks_def count_list_replicate)
qed

lemma concat_marks: "concat (concat (map f xs)) = concat (concat (map g xs))"
  if "\<And>x. x \<in> set xs \<Longrightarrow> concat (f x) = concat (g x)"
  using that by (induction xs) auto

lemma generate_video_placeholder_marks:
  assumes "markers_ok tk" and "0 < t" and "0 \<le> audio_len"
    and "generate_video_placeholder tk m tps (t, h, w) meta use_audio audio_len s per_seconds = Inr p"
  shows "\<exists>ms. p = concat ms \<and> list_all mark ms \<and> ms \<noteq> [] \<and> {audio_token tk, image_token tk, video_token tk} \<inter> set ms = {} \<and>
    count_list ms video_placeholder = nat t * nat (video_tokens_per_grid m use_audio (t, h, w)) \<and>
    count_list ms audio_placeholder = (if use_audio then nat audio_len else 0) \<and> count_list ms image_placeholder = 0"
proof -
  obtain g where g: "nat t = Suc g" using assms(2) by (metis gr0_conv_Suc zero_less_nat_eq)
  let ?nv = "video_tokens_per_grid m use_audio (t, h, w)"
  let ?b = "audio_boundaries (Suc g) s per_seconds (int (nat audio_len))"
  let ?na = "\<lambda>i. ?b ! Suc i - ?b ! i"
  from assms(4) obtain ts where ts: "grid_timestamps meta tps (nat t) = Inr ts" and m: "m \<noteq> 0"
    by (auto simp: generate_video_placeholder_def res_iffs)
  define time where "time = (if use_audio then grid_time ts else (\<lambda>i. if i < length ts then ts ! i else of_nat i))"
  define ms where "ms = concat (map (\<lambda>i. span_marks tk use_audio ?nv (?na i) (time i)) [0..<Suc g])"
  have "p = concat ms"
  proof (cases use_audio)
    case True
    then have "p = concat (video_audio_parts tk (Suc g) ?nv ts ?b)"
      using assms(3,4) ts g m
      by (simp add: generate_video_placeholder_def Let_def video_tokens_per_grid_def hf_audio_boundaries_eq)
    also have "\<dots> = concat ms"
      unfolding video_audio_parts_def ms_def
      by (rule concat_marks) (simp add: span_marks_def True str_repeat_concat time_def hf_current_time_eq)
    finally show ?thesis .
  next
    case False
    then have "p = concat (visual_only_parts tk (Suc g) ?nv ts)"
      using assms(4) ts g m by (simp add: generate_video_placeholder_def Let_def video_tokens_per_grid_def)
    also have "\<dots> = concat ms"
      unfolding visual_only_parts_def ms_def
      by (rule concat_marks) (simp add: span_marks_def False str_repeat_concat time_def)
    finally show ?thesis .
  qed
  moreover have "list_all mark ms" "ms \<noteq> []" "{audio_token tk, image_token tk, video_token tk} \<inter> set ms = {}"
    using span_marks_ok [OF assms(1)] by (auto simp: ms_def list_all_iff simp del: upt_Suc)
  moreover have "(\<Sum>i\<leftarrow>[0..<Suc g]. nat (?na i)) = nat audio_len"
    using ab.segments_sum [of g s per_seconds "nat audio_len"] by (simp only: of_nat_eq_iff)
  then have "count_list ms audio_placeholder = (if use_audio then nat audio_len else 0)"
    by (simp add: ms_def count_list_concat comp_def span_marks_ok [OF assms(1)] sum_list_const_upt del: upt_Suc int_nat_eq)
  moreover have "count_list ms video_placeholder = nat t * nat ?nv" "count_list ms image_placeholder = 0"
    by (simp_all add: ms_def count_list_concat comp_def span_marks_ok [OF assms(1)] sum_list_const_upt g del: upt_Suc)
  ultimately show ?thesis by blast
qed

section \<open>The reference: one pass over the pieces of a prompt\<close>

text \<open>A piece is a marker, a video marker between its vision markers, or any other lexeme.\<close>

datatype piece = Plain string | Audio | Image | Video

function pieces :: "mm_tokens \<Rightarrow> string list \<Rightarrow> piece list" where
  "pieces tk [] = []"
| "pieces tk (x # xs) =
     (if x = vision_bos_token tk \<and> take 2 xs = [video_token tk, vision_eos_token tk] then Video # pieces tk (drop 2 xs)
      else if x = audio_token tk then Audio # pieces tk xs
      else if x = image_token tk then Image # pieces tk xs
      else Plain x # pieces tk xs)"
  by pat_completeness auto

termination
  by (relation "measure (\<lambda>(tk, xs). length xs)") auto

fun piece_lexemes :: "mm_tokens \<Rightarrow> piece \<Rightarrow> string list" where
  "piece_lexemes tk (Plain x) = [x]"
| "piece_lexemes tk Audio = [audio_token tk]"
| "piece_lexemes tk Image = [image_token tk]"
| "piece_lexemes tk Video = [vision_bos_token tk, video_token tk, vision_eos_token tk]"

lemma concat_pieces: "concat (map (piece_lexemes tk) (pieces tk xs)) = xs"
proof (induction tk xs rule: pieces.induct)
  case (2 tk x xs)
  have "take 2 xs @ drop 2 xs = xs" by simp
  with 2 show ?case by (auto simp del: append_take_drop_id)
qed simp

text \<open>The lexemes a prompt is expanded to, and the cursors after it\<close>

fun expand_pieces ::
    "processor \<Rightarrow> batch_media \<Rightarrow> bool \<Rightarrow> int \<Rightarrow> piece list \<Rightarrow> nat \<times> nat \<times> nat \<Rightarrow> (string list \<times> nat \<times> nat \<times> nat) res" where
  "expand_pieces pr md u ps [] idx = Inr ([], idx)"
| "expand_pieces pr md u ps (Plain x # xs) idx =
     rbind (expand_pieces pr md u ps xs idx) (\<lambda>(out, idx'). Inr (x # out, idx'))"
| "expand_pieces pr md u ps (Audio # xs) (a, i, v) =
     rbind (require (a < length (audio_lengths md))
       (ValueError ''The prompt contains more audio tokens than supplied audio inputs.'')) (\<lambda>_.
     rbind (expand_pieces pr md u ps xs (a + 1, i, v)) (\<lambda>(out, idx').
     Inr (replicate (nat (audio_lengths md ! a)) audio_placeholder @ out, idx')))"
| "expand_pieces pr md u ps (Image # xs) (a, i, v) =
     rbind (require (i < length (image_grid_thw md))
       (ValueError ''The prompt contains more image tokens than supplied image inputs.'')) (\<lambda>_.
     rbind (expand_pieces pr md u ps xs (a, i + 1, v)) (\<lambda>(out, idx').
     Inr (replicate (nat (image_seq_length pr (image_grid_thw md ! i))) image_placeholder @ out, idx')))"
| "expand_pieces pr md u ps (Video # xs) (a, i, v) =
     rbind (require (v < length (video_grid_thw md))
       (ValueError ''The prompt contains more video tokens than supplied video inputs.'')) (\<lambda>_.
     rbind (require (\<not> (u \<and> a \<ge> length (audio_lengths md)))
       (ValueError ''Each vocal video requires one matching audio track.'')) (\<lambda>_.
     rbind (next_video_placeholder pr md u ps a v) (\<lambda>placeholder.
     rbind (expand_pieces pr md u ps xs (if u then a + 1 else a, i, v + 1)) (\<lambda>(out, idx').
     Inr (lexemes placeholder @ out, idx')))))"

text \<open>Every item has at least one token.\<close>

definition sizes_ok :: "processor \<Rightarrow> batch_media \<Rightarrow> bool" where
  "sizes_ok pr md \<longleftrightarrow> list_all (\<lambda>n. 0 < n) (audio_lengths md) \<and>
     list_all (\<lambda>thw. 0 < image_seq_length pr thw) (image_grid_thw md) \<and> list_all (\<lambda>thw. 0 < fst thw) (video_grid_thw md)"

section \<open>The loop computes the reference\<close>

lemma repeat_lexemes: "mark x \<Longrightarrow> lexemes (str_repeat n x) = replicate (nat n) x"
  using lex_marks [of "replicate (nat n) x" "[]"] by (simp add: str_repeat_concat list_all_iff)

lemma repeat_bracketed: "mark x \<Longrightarrow> 0 < n \<Longrightarrow> bracketed (str_repeat n x)"
  unfolding str_repeat_concat by (rule bracketed_concat) (auto simp: list_all_iff bracketed_mark)

lemma marks_lexemes: "list_all mark ms \<Longrightarrow> lexemes (concat ms) = ms"
  using lex_marks [of ms "[]"] by simp

lemma next_video_placeholder_marks:
  assumes "next_video_placeholder pr md u ps a v = Inr p" and "markers_ok (tokens_of pr)" and "sizes_ok pr md"
    and "v < length (video_grid_thw md)" and "u \<longrightarrow> a < length (audio_lengths md)"
  shows "bracketed p" and "{audio_token (tokens_of pr), image_token (tokens_of pr), video_token (tokens_of pr)} \<inter> set (lexemes p) = {}"
    and "count_list (lexemes p) video_placeholder =
      nat (fst (video_grid_thw md ! v)) * nat (video_tokens_per_grid (video_merge_size pr) u (video_grid_thw md ! v))"
    and "count_list (lexemes p) audio_placeholder = (if u then nat (audio_lengths md ! a) else 0)"
    and "count_list (lexemes p) image_placeholder = 0"
proof -
  obtain t h w where thw: "video_grid_thw md ! v = (t, h, w)" by (cases "video_grid_thw md ! v")
  have t: "0 < t" using assms(3,4) thw by (auto simp: sizes_ok_def list_all_length)
  have len: "0 \<le> (if u then audio_lengths md ! a else 0)"
    using assms(3,5) by (auto simp: sizes_ok_def list_all_length intro: less_imp_le)
  from assms(1,5) thw obtain meta s where
    "generate_video_placeholder (tokens_of pr) (video_merge_size pr) (temporal_patch_size pr) (t, h, w) meta u
      (if u then audio_lengths md ! a else 0) s ps = Inr p"
    by (cases u) (auto simp: next_video_placeholder_def rbind_eq_Inr)
  from generate_video_placeholder_marks [OF assms(2) t len this] obtain ms where
    ms: "p = concat ms" "list_all mark ms" "ms \<noteq> []"
    "{audio_token (tokens_of pr), image_token (tokens_of pr), video_token (tokens_of pr)} \<inter> set ms = {}"
    "count_list ms video_placeholder = nat t * nat (video_tokens_per_grid (video_merge_size pr) u (t, h, w))"
    "count_list ms audio_placeholder = (if u then nat (if u then audio_lengths md ! a else 0) else 0)"
    "count_list ms image_placeholder = 0" by blast
  have lex: "lexemes p = ms" using marks_lexemes [OF ms(2)] ms(1) by simp
  show "bracketed p" using bracketed_concat [OF ms(3)] ms(1,2) by (simp add: list_all_iff bracketed_mark)
  show "{audio_token (tokens_of pr), image_token (tokens_of pr), video_token (tokens_of pr)} \<inter> set (lexemes p) = {}"
    "count_list (lexemes p) video_placeholder =
      nat (fst (video_grid_thw md ! v)) * nat (video_tokens_per_grid (video_merge_size pr) u (video_grid_thw md ! v))"
    "count_list (lexemes p) audio_placeholder = (if u then nat (audio_lengths md ! a) else 0)"
    "count_list (lexemes p) image_placeholder = 0"
    using ms lex thw by auto
qed

text \<open>The first occurrence of a marker is the one after the text already expanded.\<close>

lemma first_marker: "t \<notin> set D \<Longrightarrow> i < length D \<Longrightarrow> take (length [t]) (drop i (D @ [t] @ L)) \<noteq> [t]"
proof -
  assume a: "t \<notin> set D" "i < length D"
  then have "drop i D = D ! i # drop (Suc i) D" by (simp add: Cons_nth_drop_Suc)
  with a show ?thesis by (auto simp: in_set_conv_nth)
qed

lemma nth_of_run: "take (length ws) (drop i xs) = ws \<Longrightarrow> j < length ws \<Longrightarrow> i + j < length xs \<Longrightarrow> xs ! (i + j) = ws ! j"
proof -
  assume a: "take (length ws) (drop i xs) = ws" "j < length ws" "i + j < length xs"
  have "take (length ws) (drop i xs) ! j = drop i xs ! j" using a(2) by (rule nth_take)
  with a(1,3) show ?thesis by simp
qed

lemma first_wrapped:
  assumes "y \<notin> set D" and "x \<noteq> y" and "i < length D"
  shows "take (length [x, y, z]) (drop i (D @ [x, y, z] @ L)) \<noteq> [x, y, z]"
proof
  assume "take (length [x, y, z]) (drop i (D @ [x, y, z] @ L)) = [x, y, z]"
  from nth_of_run [OF this, of 1] assms(3) have "(D @ [x, y, z] @ L) ! Suc i = y" by simp
  then show False using assms by (cases "Suc i < length D") (auto simp: nth_append less_Suc_eq not_less split: if_splits)
qed

lemma replace_marker:
  assumes "lexemes s = D @ [t] @ L" and "mark t" and "t \<notin> set D" and "bracketed p"
  shows "replace_first t p s = concat D @ p @ concat L" and "lexemes (concat D @ p @ concat L) = (D @ lexemes p) @ L"
  using replace_first_at [OF assms(1) _ _ first_marker [OF assms(3)]] lex_insert [OF assms(1,4)] assms(2) by simp_all

lemma replace_wrapped:
  assumes "lexemes s = D @ [x, y, z] @ L" and "mark x" "mark y" "mark z" and "y \<notin> set D" and "x \<noteq> y" and "bracketed p"
  shows "occurs (x @ y @ z) s" and "replace_first (x @ y @ z) p s = concat D @ p @ concat L"
    and "lexemes (concat D @ p @ concat L) = (D @ lexemes p) @ L"
proof -
  have m: "list_all mark [x, y, z]" "[x, y, z] \<noteq> []" using assms(2-4) by simp_all
  show "occurs (x @ y @ z) s" using occurs_lex [OF m, of s] assms(1) by auto
  show "replace_first (x @ y @ z) p s = concat D @ p @ concat L"
    using replace_first_at [OF assms(1) m first_wrapped [OF assms(5,6)]] by simp
  show "lexemes (concat D @ p @ concat L) = (D @ lexemes p) @ L" using lex_insert [OF assms(1,7)] by simp
qed

abbreviation special_tokens :: "mm_tokens \<Rightarrow> string list" where
  "special_tokens tk \<equiv> [audio_token tk, image_token tk, video_token tk]"

text \<open>One iteration\<close>

lemma expand_audio_step:
  assumes "markers_ok (tokens_of pr)" and "sizes_ok pr md" and "lexemes s = D @ [audio_token (tokens_of pr)] @ L"
    and "audio_token (tokens_of pr) \<notin> set D" and "a < length (audio_lengths md)"
  obtains s' where "expand_marker pr md u ps (audio_token (tokens_of pr))
      \<lparr>sample = s, audio_idx = a, image_idx = i, video_idx = v, sample_video_count = n\<rparr> =
    Inr \<lparr>sample = s', audio_idx = a + 1, image_idx = i, video_idx = v, sample_video_count = n\<rparr>"
    and "lexemes s' = (D @ replicate (nat (audio_lengths md ! a)) audio_placeholder) @ L"
proof -
  let ?p = "str_repeat (audio_lengths md ! a) audio_placeholder"
  have p: "bracketed ?p" "lexemes ?p = replicate (nat (audio_lengths md ! a)) audio_placeholder"
    using assms(2,5) repeat_bracketed repeat_lexemes placeholder_marks(1) by (auto simp: sizes_ok_def list_all_length)
  note r = replace_marker [OF assms(3) markers_okD(2) [OF assms(1)] assms(4) p(1)]
  show thesis by (rule that [of "concat D @ ?p @ concat L"])
      (use r p(2) assms(5) in \<open>simp_all add: expand_marker_def Let_def\<close>)
qed

lemma expand_image_step:
  assumes "markers_ok (tokens_of pr)" and "sizes_ok pr md" and "lexemes s = D @ [image_token (tokens_of pr)] @ L"
    and "image_token (tokens_of pr) \<notin> set D" and "i < length (image_grid_thw md)"
  obtains s' where "expand_marker pr md u ps (image_token (tokens_of pr))
      \<lparr>sample = s, audio_idx = a, image_idx = i, video_idx = v, sample_video_count = n\<rparr> =
    Inr \<lparr>sample = s', audio_idx = a, image_idx = i + 1, video_idx = v, sample_video_count = n\<rparr>"
    and "lexemes s' = (D @ replicate (nat (image_seq_length pr (image_grid_thw md ! i))) image_placeholder) @ L"
proof -
  let ?p = "str_repeat (image_seq_length pr (image_grid_thw md ! i)) image_placeholder"
  have p: "bracketed ?p" "lexemes ?p = replicate (nat (image_seq_length pr (image_grid_thw md ! i))) image_placeholder"
    using assms(2,5) repeat_bracketed repeat_lexemes placeholder_marks(2) by (auto simp: sizes_ok_def list_all_length)
  note r = replace_marker [OF assms(3) markers_okD(1) [OF assms(1)] assms(4) p(1)]
  have "image_token (tokens_of pr) \<noteq> audio_token (tokens_of pr)" using assms(1) by (simp add: markers_ok_def)
  moreover have "0 < image_seq_length pr (image_grid_thw md ! i)"
    using assms(2,5) by (simp add: sizes_ok_def list_all_length)
  then have "image_merge_size pr \<noteq> 0" by (auto simp: image_seq_length_def split: prod.splits)
  ultimately show thesis
    using r p(2) assms(5)
    by (intro that [of "concat D @ ?p @ concat L"]) (simp_all add: expand_marker_def Let_def)
qed

lemma expand_video_step:
  fixes pr defines "tk \<equiv> tokens_of pr"
  assumes "markers_ok tk" and "sizes_ok pr md"
    and "lexemes s = D @ [vision_bos_token tk, video_token tk, vision_eos_token tk] @ L"
    and "video_token tk \<notin> set D" and "v < length (video_grid_thw md)" and "u \<longrightarrow> a < length (audio_lengths md)"
    and "next_video_placeholder pr md u ps a v = Inr p"
  obtains s' where "expand_marker pr md u ps (video_token tk)
      \<lparr>sample = s, audio_idx = a, image_idx = i, video_idx = v, sample_video_count = n\<rparr> =
    Inr \<lparr>sample = s', audio_idx = (if u then a + 1 else a), image_idx = i, video_idx = v + 1, sample_video_count = n + 1\<rparr>"
    and "lexemes s' = (D @ lexemes p) @ L"
proof -
  note d = assms(2) [unfolded markers_ok_def]
  have p: "bracketed p" by (rule next_video_placeholder_marks(1) [OF assms(8) _ assms(3,6,7)]) (use assms(2) in \<open>simp add: tk_def\<close>)
  note m = markers_okD [OF assms(2)]
  have "vision_bos_token tk \<noteq> video_token tk" "video_token tk \<noteq> audio_token tk" "video_token tk \<noteq> image_token tk" using d by auto
  note r = replace_wrapped [OF assms(4) m(4,3,5) assms(5) this(1) p] and ne = this
  show thesis by (rule that [of "concat D @ p @ concat L"])
      (use r ne assms(6-8) in \<open>auto simp: expand_marker_def Let_def tk_def [symmetric]\<close>)
qed

lemma expand_loop:
  assumes "markers_ok (tokens_of pr)" and "sizes_ok pr md"
    and "lexemes s = D @ concat (map (piece_lexemes (tokens_of pr)) qs)"
    and "set (special_tokens (tokens_of pr)) \<inter> set D = {}"
    and "\<forall>x. Plain x \<in> set qs \<longrightarrow> x \<notin> set (special_tokens (tokens_of pr))"
  shows "fold_res (expand_marker pr md u ps)
      (filter (\<lambda>x. x \<in> set (special_tokens (tokens_of pr))) (concat (map (piece_lexemes (tokens_of pr)) qs)))
      \<lparr>sample = s, audio_idx = a, image_idx = i, video_idx = v, sample_video_count = n\<rparr> =
    rbind (expand_pieces pr md u ps qs (a, i, v)) (\<lambda>(out, a', i', v').
      Inr \<lparr>sample = concat (D @ out), audio_idx = a', image_idx = i', video_idx = v',
            sample_video_count = n + count_list qs Video\<rparr>)"
  using assms(3-5)
proof (induction qs arbitrary: s D a i v n)
  case Nil
  then have "s = concat D" by (metis append_Nil2 concat.simps(1) concat_lex list.simps(8))
  then show ?case by simp
next
  case (Cons q qs)
  let ?tk = "tokens_of pr" and ?L = "concat (map (piece_lexemes (tokens_of pr)) qs)"
  note d = assms(1) [unfolded markers_ok_def]
  have rest: "\<forall>x. Plain x \<in> set qs \<longrightarrow> x \<notin> set (special_tokens ?tk)" using Cons.prems(3) by simp
  note bind = rbind_assoc rbind_def
  show ?case
  proof (cases q)
    case (Plain x)
    then have "lexemes s = (D @ [x]) @ ?L" "x \<notin> set (special_tokens ?tk)" using Cons.prems(1,3) by auto
    from Cons.IH [OF this(1) _ rest, of a i v n] this(2) Cons.prems(2) Plain show ?thesis
      by (auto simp: bind split: sum.splits)
  next
    case Audio
    then have s: "lexemes s = D @ [audio_token ?tk] @ ?L" "audio_token ?tk \<notin> set D" using Cons.prems(1,2) by auto
    show ?thesis
    proof (cases "a < length (audio_lengths md)")
      case True
      obtain s' where step: "expand_marker pr md u ps (audio_token ?tk)
          \<lparr>sample = s, audio_idx = a, image_idx = i, video_idx = v, sample_video_count = n\<rparr> =
          Inr \<lparr>sample = s', audio_idx = a + 1, image_idx = i, video_idx = v, sample_video_count = n\<rparr>"
        and s': "lexemes s' = (D @ replicate (nat (audio_lengths md ! a)) audio_placeholder) @ ?L"
        by (rule expand_audio_step [OF assms(1,2) s True])
      from Cons.IH [OF s' _ rest, of "a + 1" i v n] Cons.prems(2) d step True Audio show ?thesis
        by (auto simp: bind split: sum.splits)
    qed (use Audio in \<open>simp add: expand_marker_def Let_def\<close>)
  next
    case Image
    then have s: "lexemes s = D @ [image_token ?tk] @ ?L" "image_token ?tk \<notin> set D" using Cons.prems(1,2) by auto
    show ?thesis
    proof (cases "i < length (image_grid_thw md)")
      case True
      obtain s' where step: "expand_marker pr md u ps (image_token ?tk)
          \<lparr>sample = s, audio_idx = a, image_idx = i, video_idx = v, sample_video_count = n\<rparr> =
          Inr \<lparr>sample = s', audio_idx = a, image_idx = i + 1, video_idx = v, sample_video_count = n\<rparr>"
        and s': "lexemes s' = (D @ replicate (nat (image_seq_length pr (image_grid_thw md ! i))) image_placeholder) @ ?L"
        by (rule expand_image_step [OF assms(1,2) s True])
      from Cons.IH [OF s' _ rest, of a "i + 1" v n] Cons.prems(2) d step True Image show ?thesis
        by (auto simp: bind split: sum.splits)
    qed (use Image d in \<open>auto simp: expand_marker_def Let_def\<close>)
  next
    case Video
    then have s: "lexemes s = D @ [vision_bos_token ?tk, video_token ?tk, vision_eos_token ?tk] @ ?L" "video_token ?tk \<notin> set D"
      using Cons.prems(1,2) by auto
    have ne: "video_token ?tk \<noteq> audio_token ?tk" "video_token ?tk \<noteq> image_token ?tk"
      "vision_bos_token ?tk \<notin> set (special_tokens ?tk)" "vision_eos_token ?tk \<notin> set (special_tokens ?tk)" using d by auto
    then have list: "filter (\<lambda>x. x \<in> set (special_tokens ?tk)) (concat (map (piece_lexemes ?tk) (q # qs))) =
        video_token ?tk # filter (\<lambda>x. x \<in> set (special_tokens ?tk)) ?L" using Video by simp
    show ?thesis
    proof (cases "v < length (video_grid_thw md) \<and> (u \<longrightarrow> a < length (audio_lengths md)) \<and> (\<exists>p. next_video_placeholder pr md u ps a v = Inr p)")
      case True
      then obtain p where v: "v < length (video_grid_thw md)" "u \<longrightarrow> a < length (audio_lengths md)"
        "next_video_placeholder pr md u ps a v = Inr p" by auto
      obtain s' where step: "expand_marker pr md u ps (video_token ?tk)
          \<lparr>sample = s, audio_idx = a, image_idx = i, video_idx = v, sample_video_count = n\<rparr> =
          Inr \<lparr>sample = s', audio_idx = (if u then a + 1 else a), image_idx = i, video_idx = v + 1, sample_video_count = n + 1\<rparr>"
        and s': "lexemes s' = (D @ lexemes p) @ ?L"
        by (rule expand_video_step [OF assms(1,2) s v])
      have "set (special_tokens ?tk) \<inter> set (D @ lexemes p) = {}"
        using Cons.prems(2) next_video_placeholder_marks(2) [OF v(3) assms(1,2) v(1,2)] by auto
      note IH = Cons.IH [OF s' this rest, of "if u then a + 1 else a" i "v + 1" "n + 1"]
      show ?thesis
        unfolding list fold_res.simps step rbind_Inr IH unfolding Video
        by (cases "expand_pieces pr md u ps qs (if u then a + 1 else a, i, v + 1)") (use v in auto)
    next
      case False
      with ne(1,2) show ?thesis
        unfolding list unfolding Video
        by (cases "v < length (video_grid_thw md)"; cases "u \<and> length (audio_lengths md) \<le> a";
            cases "next_video_placeholder pr md u ps a v") (simp_all add: expand_marker_def Let_def)
    qed
  qed
qed

section \<open>A whole sample\<close>

text \<open>The placeholders stand for the markers.\<close>

definition restored :: "mm_tokens \<Rightarrow> string \<Rightarrow> string" where
  "restored tk x = (if x = audio_placeholder then audio_token tk else if x = image_placeholder then image_token tk
     else if x = video_placeholder then video_token tk else x)"

lemma restore_markers_lex:
  assumes "markers_ok tk"
  shows "restore_markers tk s = concat (map (restored tk) (lexemes s))"
    and "lexemes (restore_markers tk s) = map (restored tk) (lexemes s)"
proof -
  note m = markers_okD [OF assms] placeholder_marks
  have step: "lexemes (replace_all p x y) = map (\<lambda>z. if z = p then x else z) (lexemes y)" if "mark p" "mark x" for p x y
    unfolding replace_all_lex [OF that(1)] by (rule lex_map_marks [OF refl]) (use that in auto)
  let ?f = "\<lambda>z. if z = video_placeholder then video_token tk else
    (\<lambda>z. if z = image_placeholder then image_token tk else z) (if z = audio_placeholder then audio_token tk else z)"
  have "lexemes (restore_markers tk s) = map (\<lambda>z. if z = video_placeholder then video_token tk else z)
      (map (\<lambda>z. if z = image_placeholder then image_token tk else z)
        (map (\<lambda>z. if z = audio_placeholder then audio_token tk else z) (lexemes s)))"
    unfolding restore_markers_def by (simp only: step m)
  also have "\<dots> = map (restored tk) (lexemes s)"
    unfolding map_map by (rule map_cong) (use assms in \<open>auto simp: restored_def markers_ok_def\<close>)
  finally show *: "lexemes (restore_markers tk s) = map (restored tk) (lexemes s)" .
  show "restore_markers tk s = concat (map (restored tk) (lexemes s))"
    by (subst * [symmetric]) simp
qed

lemma fold_res_map: "fold_res f (map g xs) s = fold_res (\<lambda>x. f (g x)) xs s"
proof (induction xs arbitrary: s)
  case (Cons x xs)
  then show ?case by (cases "f (g x) s") simp_all
qed simp

lemma sort_key_sorted: "sorted (map f xs) \<Longrightarrow> sort_key f xs = xs"
  by (induction xs) (auto simp: insort_is_Cons)

lemma marker_positions_lex:
  assumes "markers_ok tk"
  shows "map snd (marker_positions tk s) = filter (\<lambda>x. x \<in> set (special_tokens tk)) (lexemes s)"
proof -
  have "list_all mark (special_tokens tk)" using markers_okD [OF assms] by simp
  from finditer_lex [OF this, of 0 s] show ?thesis by (simp add: marker_positions_def sort_key_sorted)
qed

lemma pieces_plain: "Plain x \<in> set (pieces tk xs) \<Longrightarrow> x \<noteq> audio_token tk \<and> x \<noteq> image_token tk"
  by (induction tk xs rule: pieces.induct) (auto split: if_splits)

text \<open>The expanded lexemes are the lexemes of the expanded text, and none of them is a marker.\<close>

lemma expand_pieces_lexemes:
  assumes "markers_ok (tokens_of pr)" and "sizes_ok pr md"
    and "lexemes s = D @ concat (map (piece_lexemes (tokens_of pr)) qs)"
    and "expand_pieces pr md u ps qs (a, i, v) = Inr (out, idx')"
  shows "lexemes (concat (D @ out)) = D @ out"
  using assms(3,4)
proof (induction qs arbitrary: s D a i v out)
  case Nil
  then show ?case by (metis append_Nil2 concat.simps(1) concat_lex expand_pieces.simps(1) list.simps(8) prod.inject sum.inject(2))
next
  case (Cons q qs)
  let ?tk = "tokens_of pr" and ?L = "concat (map (piece_lexemes (tokens_of pr)) qs)"
  have grow: "lexemes (concat (D @ lexemes p @ out')) = D @ lexemes p @ out'"
    if "expand_pieces pr md u ps qs (a', i', v') = Inr (out', idx')" "bracketed p" for p a' i' v' out'
  proof -
    have "lexemes s = D @ piece_lexemes ?tk q @ ?L" using Cons.prems(1) by simp
    from lex_insert [OF this that(2)] have "lexemes (concat D @ p @ concat ?L) = (D @ lexemes p) @ ?L" by simp
    from Cons.IH [OF this that(1)] show ?thesis by simp
  qed
  show ?case
  proof (cases q)
    case (Plain x)
    then obtain out' where "expand_pieces pr md u ps qs (a, i, v) = Inr (out', idx')" "out = x # out'"
      using Cons.prems(2) by (auto simp: rbind_eq_Inr)
    moreover have "lexemes s = (D @ [x]) @ ?L" using Cons.prems(1) Plain by simp
    ultimately show ?thesis using Cons.IH [of s "D @ [x]"] by fastforce
  next
    case Audio
    let ?p = "str_repeat (audio_lengths md ! a) audio_placeholder"
    from Audio Cons.prems(2) obtain out' where o: "expand_pieces pr md u ps qs (a + 1, i, v) = Inr (out', idx')"
      "out = replicate (nat (audio_lengths md ! a)) audio_placeholder @ out'" "a < length (audio_lengths md)"
      by (auto simp: res_iffs)
    then have "bracketed ?p" using assms(2) repeat_bracketed placeholder_marks(1) by (auto simp: sizes_ok_def list_all_length)
    from grow [OF o(1) this] show ?thesis using o(2) repeat_lexemes [OF placeholder_marks(1)] by simp
  next
    case Image
    let ?p = "str_repeat (image_seq_length pr (image_grid_thw md ! i)) image_placeholder"
    from Image Cons.prems(2) obtain out' where o: "expand_pieces pr md u ps qs (a, i + 1, v) = Inr (out', idx')"
      "out = replicate (nat (image_seq_length pr (image_grid_thw md ! i))) image_placeholder @ out'" "i < length (image_grid_thw md)"
      by (auto simp: res_iffs)
    then have "bracketed ?p" using assms(2) repeat_bracketed placeholder_marks(2) by (auto simp: sizes_ok_def list_all_length)
    from grow [OF o(1) this] show ?thesis using o(2) repeat_lexemes [OF placeholder_marks(2)] by simp
  next
    case Video
    from Video Cons.prems(2) obtain p out' where o: "next_video_placeholder pr md u ps a v = Inr p"
      "v < length (video_grid_thw md)" "u \<longrightarrow> a < length (audio_lengths md)"
      "expand_pieces pr md u ps qs (if u then a + 1 else a, i, v + 1) = Inr (out', idx')" "out = lexemes p @ out'"
      by (auto simp: res_iffs not_le)
    from grow [OF o(4) next_video_placeholder_marks(1) [OF o(1) assms(1,2) o(2,3)]] o(5) show ?thesis by simp
  qed
qed

lemma expand_sample_pass:
  fixes pr s defines "tk \<equiv> tokens_of pr" and "qs \<equiv> pieces (tokens_of pr) (lexemes s)"
  assumes "markers_ok tk" and "sizes_ok pr md" and "Plain (video_token tk) \<notin> set qs"
  shows "expand_sample pr md u ps s (a, i, v) =
    rbind (expand_pieces pr md u ps qs (a, i, v)) (\<lambda>(out, idx').
      let out_text = concat (map (restored tk) out)
      in rbind (if u \<and> Video \<in> set qs then validate_video_audio_tokens pr (tokenizer_encode pr out_text) else Inr True) (\<lambda>_.
         Inr (out_text, idx')))"
proof -
  have lex: "lexemes s = [] @ concat (map (piece_lexemes tk) qs)" by (simp add: qs_def tk_def concat_pieces)
  have plain: "\<forall>x. Plain x \<in> set qs \<longrightarrow> x \<notin> set (special_tokens tk)"
    using assms(5) by (auto simp: qs_def tk_def dest: pieces_plain)
  have loop: "fold_res (\<lambda>(_, t). expand_marker pr md u ps t) (marker_positions tk s)
      \<lparr>sample = s, audio_idx = a, image_idx = i, video_idx = v, sample_video_count = 0\<rparr> =
    rbind (expand_pieces pr md u ps qs (a, i, v)) (\<lambda>(out, a', i', v').
      Inr \<lparr>sample = concat out, audio_idx = a', image_idx = i', video_idx = v', sample_video_count = count_list qs Video\<rparr>)"
    using expand_loop [of pr md s "[]" qs u ps a i v 0] assms(3,4) lex plain
      fold_res_map [of "expand_marker pr md u ps" snd "marker_positions tk s"]
    by (simp add: tk_def marker_positions_lex case_prod_unfold)
  show ?thesis
  proof (cases "expand_pieces pr md u ps qs (a, i, v)")
    case (Inr x)
    obtain out idx' where x: "x = (out, idx')" by (cases x)
    have "lexemes (concat out) = out"
      using expand_pieces_lexemes [of pr md s "[]" qs u ps a i v out idx'] assms(3,4) lex Inr x by (simp add: tk_def)
    then have "restore_markers tk (concat out) = concat (map (restored tk) out)"
      using restore_markers_lex(1) [OF assms(3)] by simp
    moreover have "0 < count_list qs Video \<longleftrightarrow> Video \<in> set qs" by (metis count_list_0_iff gr0I less_irrefl)
    ultimately show ?thesis
      using loop Inr x by (cases idx') (simp add: expand_sample_def tk_def [symmetric] Let_def)
  next
    case (Inl e)
    with loop show ?thesis by (simp add: expand_sample_def tk_def [symmetric])
  qed
qed

section \<open>Counting markers\<close>

definition plain_prompt :: "mm_tokens \<Rightarrow> string \<Rightarrow> bool" where
  "plain_prompt tk s \<longleftrightarrow> (\<forall>x \<in> {video_token tk, audio_placeholder, image_placeholder, video_placeholder}.
     Plain x \<notin> set (pieces tk (lexemes s)))"

text \<open>What the items between two cursors contribute\<close>

definition audio_rows :: "batch_media \<Rightarrow> nat \<Rightarrow> nat" where
  "audio_rows md k = nat (audio_lengths md ! k)"

definition image_rows :: "processor \<Rightarrow> batch_media \<Rightarrow> nat \<Rightarrow> nat" where
  "image_rows pr md k = nat (image_seq_length pr (image_grid_thw md ! k))"

definition video_rows :: "processor \<Rightarrow> batch_media \<Rightarrow> bool \<Rightarrow> nat \<Rightarrow> nat" where
  "video_rows pr md u k = nat (fst (video_grid_thw md ! k)) *
     nat (video_tokens_per_grid (video_merge_size pr) u (video_grid_thw md ! k))"

lemma expand_pieces_counts:
  assumes "markers_ok (tokens_of pr)" and "sizes_ok pr md"
    and "\<forall>x \<in> set (special_tokens (tokens_of pr)) \<union> {audio_placeholder, image_placeholder, video_placeholder}. Plain x \<notin> set qs"
    and "expand_pieces pr md u ps qs (a, i, v) = Inr (out, a', i', v')"
  shows "set (special_tokens (tokens_of pr)) \<inter> set out = {} \<and> a \<le> a' \<and> i \<le> i' \<and> v \<le> v' \<and>
    count_list out audio_placeholder = sum (audio_rows md) {a..<a'} \<and>
    count_list out image_placeholder = sum (image_rows pr md) {i..<i'} \<and>
    count_list out video_placeholder = sum (video_rows pr md u) {v..<v'}"
  using assms(3,4)
proof (induction qs arbitrary: a i v out)
  case (Cons q qs)
  let ?tk = "tokens_of pr"
  note d = assms(1) [unfolded markers_ok_def]
  have rest: "\<forall>x \<in> set (special_tokens ?tk) \<union> {audio_placeholder, image_placeholder, video_placeholder}. Plain x \<notin> set qs"
    using Cons.prems(1) by auto
  show ?case
  proof (cases q)
    case (Plain x)
    then obtain out' where "expand_pieces pr md u ps qs (a, i, v) = Inr (out', a', i', v')" "out = x # out'"
      using Cons.prems(2) by (auto simp: rbind_eq_Inr)
    with Cons.IH [OF rest] Plain Cons.prems(1) show ?thesis by auto
  next
    case Audio
    from Audio Cons.prems(2) obtain out' where o: "expand_pieces pr md u ps qs (a + 1, i, v) = Inr (out', a', i', v')"
      "out = replicate (audio_rows md a) audio_placeholder @ out'" by (auto simp: res_iffs audio_rows_def)
    note IH = Cons.IH [OF rest o(1)]
    then have "sum (audio_rows md) {a..<a'} = audio_rows md a + sum (audio_rows md) {a + 1..<a'}"
      by (simp add: sum.atLeast_Suc_lessThan)
    with IH o(2) d show ?thesis by (auto simp: count_list_replicate)
  next
    case Image
    from Image Cons.prems(2) obtain out' where o: "expand_pieces pr md u ps qs (a, i + 1, v) = Inr (out', a', i', v')"
      "out = replicate (image_rows pr md i) image_placeholder @ out'" by (auto simp: res_iffs image_rows_def)
    note IH = Cons.IH [OF rest o(1)]
    then have "sum (image_rows pr md) {i..<i'} = image_rows pr md i + sum (image_rows pr md) {i + 1..<i'}"
      by (simp add: sum.atLeast_Suc_lessThan)
    with IH o(2) d show ?thesis by (auto simp: count_list_replicate)
  next
    case Video
    from Video Cons.prems(2) obtain p out' where o: "next_video_placeholder pr md u ps a v = Inr p"
      "v < length (video_grid_thw md)" "u \<longrightarrow> a < length (audio_lengths md)"
      "expand_pieces pr md u ps qs (if u then a + 1 else a, i, v + 1) = Inr (out', a', i', v')" "out = lexemes p @ out'"
      by (auto simp: res_iffs not_le)
    note p = next_video_placeholder_marks [OF o(1) assms(1,2) o(2,3)] and IH = Cons.IH [OF rest o(4)]
    then have "sum (video_rows pr md u) {v..<v'} = video_rows pr md u v + sum (video_rows pr md u) {v + 1..<v'}"
      by (simp add: sum.atLeast_Suc_lessThan)
    moreover have "sum (audio_rows md) {a..<a'} =
        (if u then audio_rows md a else 0) + sum (audio_rows md) {(if u then a + 1 else a)..<a'}"
      using IH by (auto simp: sum.atLeast_Suc_lessThan)
    moreover have "count_list (lexemes p) video_placeholder = video_rows pr md u v"
      "count_list (lexemes p) audio_placeholder = (if u then audio_rows md a else 0)"
      using p(3,4) by (simp_all add: video_rows_def audio_rows_def)
    moreover have "a \<le> a'" using IH by (simp split: if_splits)
    ultimately show ?thesis using IH p(2,5) o(5) by auto
  qed
qed simp

lemma count_restored:
  assumes "markers_ok tk" and "set (special_tokens tk) \<inter> set out = {}"
  shows "count_list (map (restored tk) out) (audio_token tk) = count_list out audio_placeholder"
    and "count_list (map (restored tk) out) (image_token tk) = count_list out image_placeholder"
    and "count_list (map (restored tk) out) (video_token tk) = count_list out video_placeholder"
proof -
  have "audio_token tk \<noteq> image_token tk" "audio_token tk \<noteq> video_token tk" "image_token tk \<noteq> video_token tk"
    using assms(1) by (auto simp: markers_ok_def)
  then have "restored tk x = audio_token tk \<longleftrightarrow> x = audio_placeholder" "restored tk x = image_token tk \<longleftrightarrow> x = image_placeholder"
    "restored tk x = video_token tk \<longleftrightarrow> x = video_placeholder" if "x \<notin> set (special_tokens tk)" for x
    using that by (simp_all add: restored_def)
  with assms(2) show "count_list (map (restored tk) out) (audio_token tk) = count_list out audio_placeholder"
    "count_list (map (restored tk) out) (image_token tk) = count_list out image_placeholder"
    "count_list (map (restored tk) out) (video_token tk) = count_list out video_placeholder"
    by (induction out) auto
qed

lemma expand_sample_counts:
  fixes pr defines "tk \<equiv> tokens_of pr"
  assumes "markers_ok tk" and "sizes_ok pr md" and "plain_prompt tk s"
    and "expand_sample pr md u ps s (a, i, v) = Inr (r, a', i', v')"
  shows "a \<le> a' \<and> i \<le> i' \<and> v \<le> v' \<and>
    count_list (lexemes r) (audio_token tk) = sum (audio_rows md) {a..<a'} \<and>
    count_list (lexemes r) (image_token tk) = sum (image_rows pr md) {i..<i'} \<and>
    count_list (lexemes r) (video_token tk) = sum (video_rows pr md u) {v..<v'}"
proof -
  let ?qs = "pieces tk (lexemes s)"
  have q: "Plain (video_token tk) \<notin> set ?qs" using assms(4) by (simp add: plain_prompt_def)
  note pass = expand_sample_pass [OF assms(2) [unfolded tk_def] assms(3) q [unfolded tk_def], of u ps a i v]
  from assms(5) [unfolded pass] obtain out where
    out: "expand_pieces pr md u ps ?qs (a, i, v) = Inr (out, a', i', v')" "r = concat (map (restored tk) out)"
    by (auto simp: tk_def Let_def res_iffs)
  have none: "\<forall>x \<in> set (special_tokens tk) \<union> {audio_placeholder, image_placeholder, video_placeholder}. Plain x \<notin> set ?qs"
    using assms(4) pieces_plain [of _ tk "lexemes s"] by (auto simp: plain_prompt_def)
  note c = expand_pieces_counts [OF assms(2) [unfolded tk_def] assms(3) none [unfolded tk_def] out(1) [unfolded tk_def]]
  have "lexemes s = [] @ concat (map (piece_lexemes tk) ?qs)" by (simp add: concat_pieces)
  from expand_pieces_lexemes [OF _ assms(3), of s "[]" ?qs u ps a i v out "(a', i', v')"] this assms(2) out(1)
  have "lexemes (concat out) = out" by (simp add: tk_def)
  then have "lexemes r = map (restored tk) out"
    using restore_markers_lex [OF assms(2), of "concat out"] out(2) by simp
  with count_restored [OF assms(2), of out] c show ?thesis by (auto simp: tk_def)
qed

lemma expand_samples_counts:
  fixes pr defines "tk \<equiv> tokens_of pr"
  assumes "markers_ok tk" and "sizes_ok pr md" and "list_all (plain_prompt tk) ss"
    and "expand_samples pr md u ps ss (a, i, v) = Inr (rs, a', i', v')"
  shows "length rs = length ss \<and> a \<le> a' \<and> i \<le> i' \<and> v \<le> v' \<and>
    (\<Sum>r\<leftarrow>rs. count_list (lexemes r) (audio_token tk)) = sum (audio_rows md) {a..<a'} \<and>
    (\<Sum>r\<leftarrow>rs. count_list (lexemes r) (image_token tk)) = sum (image_rows pr md) {i..<i'} \<and>
    (\<Sum>r\<leftarrow>rs. count_list (lexemes r) (video_token tk)) = sum (video_rows pr md u) {v..<v'}"
  using assms(4,5)
proof (induction ss arbitrary: a i v rs)
  case (Cons s ss)
  from Cons.prems(2) obtain r a1 i1 v1 rs1 where
    r: "expand_sample pr md u ps s (a, i, v) = Inr (r, a1, i1, v1)" and
    rs: "expand_samples pr md u ps ss (a1, i1, v1) = Inr (rs1, a', i', v')" "rs = r # rs1"
    by (auto simp: res_iffs)
  note c = expand_sample_counts [OF assms(2) [unfolded tk_def] assms(3) _ r] and IH = Cons.IH [OF _ rs(1)]
  have "sum f {x..<z} = sum f {x..<y} + sum f {y..<z}" if "x \<le> y" "y \<le> z" for f :: "nat \<Rightarrow> nat" and x y z
    by (rule sum.atLeastLessThan_concat [OF that, symmetric])
  from this [of a a1 a'] this [of i i1 i'] this [of v v1 v'] c IH Cons.prems(1) rs(2) show ?case
    by (simp add: tk_def)
qed simp

lemma sum_rows_list: "sum (\<lambda>k. f (xs ! k)) {0..<length xs} = sum_list (map f xs)"
  by (metis (no_types, lifting) map_nth map_map comp_apply interv_sum_list_conv_sum_set_nat map_eq_conv set_upt sum_set_upt_conv_sum_list_nat)

section \<open>Properties\<close>

definition demo_processor :: processor where
  "demo_processor = \<lparr>tokens_of = demo_tokens, image_merge_size = 2, video_merge_size = 2, temporal_patch_size = 2,
     tokenizer_encode = demo_encode, convert_tokens_to_ids = (\<lambda>_. 0)\<rparr>"

definition demo_media :: batch_media where
  "demo_media = \<lparr>audio_lengths = [2], image_grid_thw = [(1, 2, 4)], video_grid_thw = [], video_second_per_grid = [],
     video_metadatas = []\<rparr>"

lemma demo_markers_ok: "markers_ok (tokens_of demo_processor)"
  by (simp add: demo_processor_def demo_tokens_def markers_ok_def marker_def inner_def)

lemma demo_sizes_ok: "sizes_ok demo_processor demo_media"
  by (simp add: sizes_ok_def demo_processor_def demo_media_def image_seq_length_def)

lemma demo_pieces:
  "pieces (tokens_of demo_processor) (lexemes ''<|audio_pad|>b<|image_pad|>'') = [Audio, Plain ''b'', Image]"
  by (simp add: demo_processor_def demo_tokens_def lexemes.simps(2) closes_def inner_def)

lemma demo_token_values:
  "video_token (tokens_of demo_processor) = ''<|video_pad|>''" "audio_token (tokens_of demo_processor) = ''<|audio_pad|>''"
  "image_token (tokens_of demo_processor) = ''<|image_pad|>''"
  by (simp_all add: demo_processor_def demo_tokens_def)

lemma demo_expand:
  "expand_sample demo_processor demo_media False 13 ''<|audio_pad|>b<|image_pad|>'' (0, 0, 0) =
     Inr (''<|audio_pad|><|audio_pad|>b<|image_pad|><|image_pad|>'', 1, 1, 0)"
proof -
  have "Plain (video_token (tokens_of demo_processor)) \<notin> set [Audio, Plain ''b'', Image]" by (simp add: demo_token_values)
  with expand_sample_pass [OF demo_markers_ok demo_sizes_ok, of "''<|audio_pad|>b<|image_pad|>''" False 13 0 0 0] show ?thesis
    by (simp add: demo_pieces demo_token_values demo_media_def image_seq_length_def restored_def numeral_2_eq_2)
      (simp add: demo_processor_def numeral_2_eq_2)
qed

text \<open>
  C7: Although the code replaces the first occurrence of each marker in the text as it grows, the
  expansion of a prompt is one pass over its pieces from left to right: the k-th audio, image and wrapped
  video marker takes the k-th item of its kind, all other text is kept, errors occur in the order of the
  markers, and the result is the concatenation of the expanded pieces.
\<close>

theorem prompt_expansion_one_pass:
  assumes "markers_ok (tokens_of pr)" and "sizes_ok pr md"
    and "qs = pieces (tokens_of pr) (lexemes s)" and "Plain (video_token (tokens_of pr)) \<notin> set qs"
  shows "expand_sample pr md u ps s (a, i, v) =
    rbind (expand_pieces pr md u ps qs (a, i, v)) (\<lambda>(out, idx').
      let out_text = concat (map (restored (tokens_of pr)) out)
      in rbind (if u \<and> Video \<in> set qs then validate_video_audio_tokens pr (tokenizer_encode pr out_text) else Inr True) (\<lambda>_.
         Inr (out_text, idx')))"
  using expand_sample_pass [of pr md s] assms by simp

theorem prompt_expansion_one_pass_witness:
  "expand_sample demo_processor demo_media False 13 ''<|audio_pad|>b<|image_pad|>'' (0, 0, 0) =
     Inr (''<|audio_pad|><|audio_pad|>b<|image_pad|><|image_pad|>'', 1, 1, 0)"
proof -
  have "Plain (video_token (tokens_of demo_processor)) \<notin> set [Audio, Plain ''b'', Image]"
    by (simp add: demo_processor_def demo_tokens_def)
  from prompt_expansion_one_pass [OF demo_markers_ok demo_sizes_ok demo_pieces [symmetric] this, of False 13 0 0 0]
  show ?thesis
    by (simp add: demo_media_def demo_processor_def demo_tokens_def image_seq_length_def restored_def numeral_2_eq_2)
qed

lemma batch_marker_counts:
  assumes "markers_ok (tokens_of pr)" and "sizes_ok pr md" and "list_all (plain_prompt (tokens_of pr)) texts"
    and "\<not> list_all (\<lambda>s. s = []) texts"
    and "replace_multimodal_special_tokens pr md u ps texts = Inr outs"
  shows "length outs = length texts \<and>
    (\<Sum>r\<leftarrow>outs. count_list (lexemes r) (audio_token (tokens_of pr))) = (\<Sum>n\<leftarrow>audio_lengths md. nat n) \<and>
    (\<Sum>r\<leftarrow>outs. count_list (lexemes r) (image_token (tokens_of pr))) = (\<Sum>thw\<leftarrow>image_grid_thw md. nat (image_seq_length pr thw)) \<and>
    (\<Sum>r\<leftarrow>outs. count_list (lexemes r) (video_token (tokens_of pr))) =
      (\<Sum>thw\<leftarrow>video_grid_thw md. nat (fst thw) * nat (video_tokens_per_grid (video_merge_size pr) u thw))"
proof -
  from assms(4,5) have run: "expand_samples pr md u ps texts (0, 0, 0) =
      Inr (outs, length (audio_lengths md), length (image_grid_thw md), length (video_grid_thw md))"
    by (auto simp: replace_multimodal_special_tokens_def rbind_eq_Inr Let_def split: if_splits)
  note rows = audio_rows_def image_rows_def video_rows_def
  from expand_samples_counts [OF assms(1-3) run] show ?thesis
    using sum_rows_list [of nat "audio_lengths md"] sum_rows_list [of "\<lambda>thw. nat (image_seq_length pr thw)" "image_grid_thw md"]
      sum_rows_list [of "\<lambda>thw. nat (fst thw) * nat (video_tokens_per_grid (video_merge_size pr) u thw)" "video_grid_thw md"]
    by (simp add: rows [abs_def])
qed

text \<open>
  C8: When the expansion of a batch returns, every media item of the batch was used, and the
  processed prompts together hold one audio marker per row of the audio encoder, one image marker per
  merged patch of the images and one video marker per merged patch of every temporal grid of the videos.
\<close>

theorem expanded_marker_counts:
  assumes "markers_ok (tokens_of pr)" and "sizes_ok pr md" and "list_all (plain_prompt (tokens_of pr)) texts"
    and "\<not> list_all (\<lambda>s. s = []) texts"
    and "replace_multimodal_special_tokens pr md u ps texts = Inr outs"
  shows "length outs = length texts \<and>
    (\<Sum>r\<leftarrow>outs. count_list (lexemes r) (audio_token (tokens_of pr))) = (\<Sum>n\<leftarrow>audio_lengths md. nat n) \<and>
    (\<Sum>r\<leftarrow>outs. count_list (lexemes r) (image_token (tokens_of pr))) = (\<Sum>thw\<leftarrow>image_grid_thw md. nat (image_seq_length pr thw)) \<and>
    (\<Sum>r\<leftarrow>outs. count_list (lexemes r) (video_token (tokens_of pr))) =
      (\<Sum>thw\<leftarrow>video_grid_thw md. nat (fst thw) * nat (video_tokens_per_grid (video_merge_size pr) u thw))"
  using assms by (rule batch_marker_counts)

theorem expanded_marker_counts_witness:
  "\<exists>outs. replace_multimodal_special_tokens demo_processor demo_media False 13 [''<|audio_pad|>b<|image_pad|>''] = Inr outs \<and>
    (\<Sum>r\<leftarrow>outs. count_list (lexemes r) ''<|audio_pad|>'') = 2 \<and> (\<Sum>r\<leftarrow>outs. count_list (lexemes r) ''<|image_pad|>'') = 2"
proof -
  have plain: "list_all (plain_prompt (tokens_of demo_processor)) [''<|audio_pad|>b<|image_pad|>'']"
    by (simp add: plain_prompt_def demo_pieces demo_token_values)
  have "replace_multimodal_special_tokens demo_processor demo_media False 13 [''<|audio_pad|>b<|image_pad|>''] =
      Inr [''<|audio_pad|><|audio_pad|>b<|image_pad|><|image_pad|>'']"
  proof -
    have "length (audio_lengths demo_media) = 1" "length (image_grid_thw demo_media) = 1" "length (video_grid_thw demo_media) = 0"
      by (simp_all add: demo_media_def)
    then show ?thesis by (simp add: replace_multimodal_special_tokens_def demo_expand)
  qed
  from expanded_marker_counts [OF demo_markers_ok demo_sizes_ok plain _ this] this show ?thesis
    by (simp add: demo_token_values demo_media_def image_seq_length_def) (simp add: demo_processor_def)
qed

text \<open>
  A wrapped video marker is looked for before a bare one. When a bare marker precedes a wrapped
  one in the prompt, the first video goes to the place of the second and the second to that of the first.
\<close>

lemma bare_video_marker_swaps:
  "expand_sample demo_processor (demo_media\<lparr>video_grid_thw := [(1, 2, 2), (1, 2, 4)]\<rparr>) False 13
     ''<|video_pad|>x<|vision_start|><|video_pad|><|vision_end|>'' (0, 0, 0) =
   Inr (''<0.0 seconds><|vision_start|><|video_pad|><|video_pad|><|vision_end|>x<0.0 seconds><|vision_start|><|video_pad|><|vision_end|>'',
     0, 0, 2)"
  by code_simp

text \<open>A prompt that spells out a placeholder turns into one with a media marker that no item stands for.\<close>

lemma placeholder_text_becomes_marker:
  "replace_multimodal_special_tokens demo_processor (demo_media\<lparr>audio_lengths := [], image_grid_thw := []\<rparr>) False 13
     [''<|audio_placeholder|>''] = Inr [''<|audio_pad|>'']"
  by code_simp

end
