(* ===== verification/Audio_Encoder.thy ===== *)
theory Audio_Encoder
  imports TLive_Config
begin

text \<open>
  The audio path: the number of audio tokens of a mel sequence
  (\<open>_get_feat_extract_output_lengths\<close>), and the bookkeeping of \<open>TLiveOmniAudioEncoder\<close>:
  splitting each audio into windows, running the convolutions in batches that stay aligned
  across distributed ranks, masking the padding away, and the cumulative window boundaries
  that the attention layers receive. The convolution stack, the positional embedding and the
  transformer layers are parameters.
\<close>

section \<open>Audio token counts\<close>

definition get_feat_extract_output_lengths :: "int \<Rightarrow> int" where
  "get_feat_extract_output_lengths input_lengths =
     (let input_lengths_leave = input_lengths mod 100;
          feat_lengths = (input_lengths_leave - 1) div 2 + 1
      in ((feat_lengths - 1) div 2 + 1 - 1) div 2 + 1 + (input_lengths div 100) * 13)"

section \<open>Windows\<close>

text \<open>\<open>torch.ceil(feature_lens / (n_window * 2)).long()\<close>: the quotient is a single-precision float.\<close>

definition chunk_num :: "int \<Rightarrow> int \<Rightarrow> int" where
  "chunk_num w n = \<lceil>f32 (f32 (of_int n) / f32 (of_int (w * 2)))\<rceil>"

text \<open>Assignment through an index tensor: a negative index wraps around once, others raise.\<close>

fun index_put :: "'a list \<Rightarrow> (int \<times> 'a) list \<Rightarrow> 'a list res" where
  "index_put xs [] = Inr xs"
| "index_put xs ((i, v) # ivs) =
     (let j = (if i < 0 then int (length xs) + i else i)
      in if 0 \<le> j \<and> j < int (length xs) then index_put (xs[nat j := v]) ivs else Inl IndexError)"

fun cumsum :: "int \<Rightarrow> int list \<Rightarrow> int list" where
  "cumsum acc [] = []"
| "cumsum acc (x # xs) = (acc + x) # cumsum (acc + x) xs"

definition chunk_lengths :: "int \<Rightarrow> int list \<Rightarrow> int list res" where
  "chunk_lengths w feature_lens =
     (let chunk_nums = map (chunk_num w) feature_lens;
          base = py_repeat (sum_list chunk_nums) (w * 2);
          tail_chunk_index = cumsum (- 1) chunk_nums
      in rbind (index_put base (zip tail_chunk_index (map (\<lambda>n. n mod (w * 2)) feature_lens)))
           (\<lambda>ls. Inr (map (\<lambda>l. if l = 0 then w * 2 else l) ls)))"

text \<open>\<open>Tensor.split(sizes, dim=0)\<close>: the sizes must add up to the extent.\<close>

fun split_at :: "'a list \<Rightarrow> int list \<Rightarrow> 'a list list" where
  "split_at xs [] = []"
| "split_at xs (n # ns) = take (nat n) xs # split_at (drop (nat n) xs) ns"

definition split_sizes :: "'a list \<Rightarrow> int list \<Rightarrow> 'a list list res" where
  "split_sizes xs ns =
     (if (\<forall>n \<in> set ns. 0 \<le> n) \<and> sum_list ns = int (length xs) then Inr (split_at xs ns)
      else Inl (RuntimeError ''split_with_sizes''))"

text \<open>\<open>pad_sequence\<close>: every row is filled up with zeros to the longest.\<close>

definition max_len :: "'a list list \<Rightarrow> nat" where
  "max_len rows = fold max (map length rows) 0"

definition pad_sequence :: "'a \<Rightarrow> 'a list list \<Rightarrow> 'a list list" where
  "pad_sequence z rows = map (\<lambda>r. r @ replicate (max_len rows - length r) z) rows"

section \<open>Chunked convolution\<close>

text \<open>\<open>Tensor.split(size, dim=0)\<close>: chunks of \<open>size\<close> rows, one empty chunk for an empty tensor.\<close>

function split_every :: "nat \<Rightarrow> 'a list \<Rightarrow> 'a list list" where
  "split_every n xs =
     (if n = 0 \<or> length xs \<le> n then [xs] else take n xs # split_every n (drop n xs))"
  by pat_completeness auto
termination
  by (relation "measure (\<lambda>(n, xs). length xs)") auto

declare split_every.simps [simp del]

text \<open>
  One pass over the chunks: the outputs joined again, and the number of convolution calls
  made (the collectives that must agree between ranks).
\<close>

definition conv_chunks :: "('a list \<Rightarrow> 'b list) \<Rightarrow> nat \<Rightarrow> 'a list \<Rightarrow> 'b list \<times> nat" where
  "conv_chunks conv chunksize feature =
     (let padded_embeds = map conv (split_every chunksize feature)
      in (if length padded_embeds = 1 then hd padded_embeds else concat padded_embeds,
          length padded_embeds))"

text \<open>
  \<open>ranks\<close> holds the row counts of all ranks, the local one among them: what the
  \<open>all_reduce\<close> calls see. A job without more than one rank does not synchronise. The first
  division raises for a chunk size of zero, and every path reaches \<open>split\<close>, which rejects a
  negative one.
\<close>

definition chunked_conv_forward ::
    "('a list \<Rightarrow> 'b list) \<Rightarrow> int \<Rightarrow> 'a \<Rightarrow> nat list \<Rightarrow> 'a list \<Rightarrow> ('b list \<times> nat) res" where
  "chunked_conv_forward conv csize zero ranks padded_feature =
     rbind (require (csize \<noteq> 0) ZeroDivisionError) (\<lambda>_.
     rbind (require (0 < csize) (RuntimeError ''split'')) (\<lambda>_.
     (let chunksize = nat csize;
          original_len = length padded_feature;
          local_chunk_num = (\<lambda>len. (len + chunksize - 1) div chunksize);
          is_distributed = (1 < length ranks)
      in if \<not> is_distributed then Inr (conv_chunks conv chunksize padded_feature)
         else
           let global_min_chunk = Min (set (map local_chunk_num ranks));
               global_max_chunk = Max (set (map local_chunk_num ranks))
           in if global_min_chunk = global_max_chunk
              then Inr (conv_chunks conv chunksize padded_feature)
              else
                let global_max_len = Max (set ranks);
                    padded = (if original_len < global_max_len
                              then padded_feature @ replicate (global_max_len - original_len) zero
                              else padded_feature);
                    (final_embed, calls) = conv_chunks conv chunksize padded
                in Inr (take original_len final_embed, calls))))"

section \<open>The encoder's forward pass\<close>

definition cu_chunk_lens :: "int \<Rightarrow> int list \<Rightarrow> int list res" where
  "cu_chunk_lens window_aftercnn aftercnn_lens =
     fold_res (\<lambda>cnn_len acc.
        if window_aftercnn = 0 then Inl (RuntimeError ''ZeroDivisionError'')
        else
          let acc = acc @ py_repeat (cnn_len div window_aftercnn) window_aftercnn;
              remainder = cnn_len mod window_aftercnn
          in Inr (if remainder \<noteq> 0 then acc @ [remainder] else acc))
       aftercnn_lens [0]"

definition cu_seqlens :: "int \<Rightarrow> int list \<Rightarrow> int list res" where
  "cu_seqlens window_aftercnn aftercnn_lens =
     rbind (cu_chunk_lens window_aftercnn aftercnn_lens) (\<lambda>ls. Inr (cumsum 0 ls))"

text \<open>
  Boolean-mask selection over the padded batch: the mask has one row per chunk, true on the
  first \<open>lens ! i\<close> of \<open>mask_width\<close> columns; a batch of another width raises.
\<close>

definition select_masked :: "int list \<Rightarrow> 'e list list \<Rightarrow> 'e list res" where
  "select_masked lens rows =
     (let mask_width = fold max lens 0
      in if length rows = length lens \<and> (\<forall>r \<in> set rows. int (length r) = mask_width)
         then Inr (concat (map (\<lambda>(n, r). take (nat n) r) (zip lens rows)))
         else Inl IndexError)"

text \<open>
  \<open>audio_forward\<close> follows \<open>TLiveOmniAudioEncoder.forward\<close>. \<open>frames\<close> is
  \<open>input_features.T\<close>; \<open>conv\<close> is the three-layer convolution stack on a batch of windows with
  its output projection and positional embedding, giving the list of embeddings of each
  window; \<open>layers\<close> is the transformer with the final projections.
\<close>

definition audio_forward ::
    "TLiveOmniAudioEncoderConfig \<Rightarrow> ('f list list \<Rightarrow> 'e list list) \<Rightarrow> 'f \<Rightarrow> nat list \<Rightarrow>
     ('e list \<Rightarrow> int list \<Rightarrow> 'h) \<Rightarrow> 'f list \<Rightarrow> int list \<Rightarrow> 'h res" where
  "audio_forward cfg conv zero ranks layers frames feature_lens =
     (let aftercnn_lens = map get_feat_extract_output_lengths feature_lens
      in rbind (chunk_lengths (n_window cfg) feature_lens) (\<lambda>lens.
         rbind (split_sizes frames lens) (\<lambda>chunk_list.
           let padded_feature = pad_sequence zero chunk_list;
               feature_lens_after_cnn = map get_feat_extract_output_lengths lens;
               zero_row = replicate (max_len chunk_list) zero
           in rbind (chunked_conv_forward conv (conv_chunksize cfg) zero_row ranks padded_feature)
                (\<lambda>(padded_embed, calls).
              rbind (select_masked feature_lens_after_cnn padded_embed) (\<lambda>hidden_states.
                let mask_width = fold max feature_lens_after_cnn 0;
                    window_aftercnn = mask_width * (n_window_infer cfg div (n_window cfg * 2))
                in rbind (cu_seqlens window_aftercnn aftercnn_lens) (\<lambda>cu.
                     Inr (layers hidden_states cu)))))))"

section \<open>Facts about token counts\<close>

text \<open>Thirteen tokens per hundred frames, and one per started group of eight for the rest.\<close>

lemma feat_closed_form:
  "get_feat_extract_output_lengths n = 13 * (n div 100) + (n mod 100 + 7) div 8"
proof -
  have "((r - 1) div 2 + 1 - 1) div 2 + 1 - 1 = (r - 1) div 4" for r :: int
    using zdiv_zmult2_eq [of 2 "r - 1" 2] by simp
  moreover have "(r - 1) div 4 div 2 + 1 = (r + 7) div 8" for r :: int
    using zdiv_zmult2_eq [of 2 "r - 1" 4] by simp
  ultimately show ?thesis
    unfolding get_feat_extract_output_lengths_def Let_def by simp
qed

lemma feat_nonneg: "0 \<le> n \<Longrightarrow> 0 \<le> get_feat_extract_output_lengths n"
  unfolding feat_closed_form by (simp add: pos_imp_zdiv_nonneg_iff)

lemma feat_mono:
  assumes "m \<le> n"
  shows "get_feat_extract_output_lengths m \<le> get_feat_extract_output_lengths n"
proof (cases "m div 100 = n div 100")
  case True
  with assms have "m mod 100 \<le> n mod 100"
    using mult_div_mod_eq [of 100 m] mult_div_mod_eq [of 100 n] by linarith
  with True show ?thesis unfolding feat_closed_form by (simp add: zdiv_mono1)
next
  case False
  with assms have "m div 100 + 1 \<le> n div 100" using zdiv_mono1 [of m n 100] by linarith
  moreover have "(m mod 100 + 7) div 8 \<le> 13" "0 \<le> (n mod 100 + 7) div 8"
    using pos_mod_bound [of 100 m] pos_mod_sign [of 100 n] by linarith+
  ultimately show ?thesis unfolding feat_closed_form by linarith
qed

lemma feat_add:
  "100 dvd a \<Longrightarrow> get_feat_extract_output_lengths (a + b) =
     get_feat_extract_output_lengths a + get_feat_extract_output_lengths b"
  unfolding feat_closed_form by (auto simp: dvd_def)

lemma feat_mult:
  "100 dvd d \<Longrightarrow> int k * get_feat_extract_output_lengths d =
     get_feat_extract_output_lengths (int k * d)"
proof (induction k)
  case 0
  show ?case by (simp add: feat_closed_form)
next
  case (Suc k)
  then show ?case using feat_add [of d "int k * d"] by (simp add: algebra_simps)
qed

section \<open>Facts about windows\<close>

text \<open>The windows of one audio of \<open>n > 0\<close> frames: full ones and a non-empty tail.\<close>

definition windows_of :: "int \<Rightarrow> int \<Rightarrow> int list" where
  "windows_of d n = py_repeat ((n - 1) div d) d @ [(n - 1) mod d + 1]"

lemma sum_windows_of: "0 < d \<Longrightarrow> 0 < n \<Longrightarrow> sum_list (windows_of d n) = n"
proof -
  assume d: "0 < d" and n: "0 < n"
  then have "0 \<le> (n - 1) div d" by (simp add: pos_imp_zdiv_nonneg_iff)
  then show ?thesis
    using mult_div_mod_eq [of d "n - 1"]
    by (simp add: windows_of_def sum_list_replicate algebra_simps)
qed

lemma windows_of_range: "0 < d \<Longrightarrow> 0 < n \<Longrightarrow> l \<in> set (windows_of d n) \<Longrightarrow> 0 < l \<and> l \<le> d"
proof -
  assume "0 < d"
  then have "0 \<le> (n - 1) mod d" and "(n - 1) mod d < d" by simp_all
  moreover assume "l \<in> set (windows_of d n)"
  then have "l = d \<or> l = (n - 1) mod d + 1" by (auto simp: windows_of_def)
  ultimately show ?thesis using \<open>0 < d\<close> by linarith
qed

lemma feat_windows_of:
  assumes "0 < d" and "100 dvd d" and "0 < n"
  shows "sum_list (map get_feat_extract_output_lengths (windows_of d n)) =
     get_feat_extract_output_lengths n"
proof -
  let ?k = "nat ((n - 1) div d)"
  have k: "int ?k = (n - 1) div d" using assms by (simp add: pos_imp_zdiv_nonneg_iff)
  have n: "n = int ?k * d + ((n - 1) mod d + 1)"
    unfolding k using mult_div_mod_eq [of d "n - 1"] by (simp add: algebra_simps)
  have "sum_list (map get_feat_extract_output_lengths (windows_of d n)) =
      int ?k * get_feat_extract_output_lengths d + get_feat_extract_output_lengths ((n - 1) mod d + 1)"
    by (simp add: windows_of_def sum_list_replicate)
  also have "\<dots> = get_feat_extract_output_lengths (int ?k * d + ((n - 1) mod d + 1))"
    by (simp only: feat_mult [OF assms(2)] feat_add [OF dvd_mult [OF assms(2)]])
  finally show ?thesis using n by simp
qed

lemma index_put_tails:
  assumes "length vs = length cs" and "\<forall>c \<in> set cs. 0 < c" and "acc + 1 = int (length pre)"
  shows "index_put (pre @ py_repeat (sum_list cs) d) (zip (cumsum acc cs) vs) =
    Inr (pre @ concat (map (\<lambda>(c, v). py_repeat (c - 1) d @ [v]) (zip cs vs)))"
  using assms
proof (induction cs arbitrary: acc pre vs)
  case (Cons c cs)
  from Cons.prems(1) obtain v vs' where vs: "vs = v # vs'" and len: "length vs' = length cs"
    by (cases vs) auto
  from Cons.prems(2) have c: "0 < c" and cs: "\<forall>c \<in> set cs. 0 < c" by auto
  then have nn: "0 \<le> sum_list cs" by (intro sum_list_nonneg) (auto simp: less_imp_le)
  with c have split: "nat (c + sum_list cs) = nat (c - 1) + Suc (nat (sum_list cs))" by linarith
  let ?pre = "pre @ py_repeat (c - 1) d @ [v]"
  have pos: "nat (acc + c) = length pre + nat (c - 1)" using c Cons.prems(3) by linarith
  have upd: "(pre @ py_repeat (c + sum_list cs) d)[nat (acc + c) := v] =
      ?pre @ py_repeat (sum_list cs) d"
    unfolding pos split
    by (simp only: replicate_add replicate_Suc) (simp add: list_update_append)
  have "acc + c + 1 = int (length ?pre)" using c Cons.prems(3) by simp
  from Cons.IH [OF len cs this] show ?case unfolding vs
    using c nn upd Cons.prems(3) by (simp add: Let_def)
qed simp

lemma chunk_num_exact:
  assumes "0 < w" and "w * 2 < 2 ^ 24" and "0 < n" and "n < 2 ^ 24"
  shows "chunk_num w n = (n - 1) div (w * 2) + 1"
  unfolding chunk_num_def using assms by (intro ceiling_fl_quotient) simp_all

lemma chunk_lengths_windows:
  assumes w: "0 < w" "w * 2 < 2 ^ 24" and lens: "\<forall>n \<in> set ns. 0 < n \<and> n < 2 ^ 24"
  shows "chunk_lengths w ns = Inr (concat (map (windows_of (w * 2)) ns))"
proof -
  let ?d = "w * 2"
  let ?cs = "map (chunk_num w) ns" and ?vs = "map (\<lambda>n. n mod ?d) ns"
  have cs: "chunk_num w n = (n - 1) div ?d + 1" if "n \<in> set ns" for n
    using chunk_num_exact [OF w] lens that by blast
  have "\<forall>c \<in> set ?cs. 0 < c"
    using cs lens w(1) by (auto simp: pos_imp_zdiv_nonneg_iff add_strict_increasing2)
  from index_put_tails [OF _ this, of ?vs "- 1" "[]" ?d]
  have put: "index_put (py_repeat (sum_list ?cs) ?d) (zip (cumsum (- 1) ?cs) ?vs) =
      Inr (concat (map (\<lambda>(c, v). py_repeat (c - 1) ?d @ [v]) (zip ?cs ?vs)))" by simp
  have "map (\<lambda>l. if l = 0 then ?d else l) (py_repeat (chunk_num w n - 1) ?d @ [n mod ?d]) =
      windows_of ?d n" if "n \<in> set ns" for n
  proof -
    have "(if n mod ?d = 0 then ?d else n mod ?d) = (n - 1) mod ?d + 1"
      using w(1) by (smt (verit) mod_add_left_eq mod_pos_pos_trivial mod_self pos_mod_bound pos_mod_sign)
    then show ?thesis using w(1) by (simp add: cs [OF that] windows_of_def)
  qed
  then have "map (\<lambda>l. if l = 0 then ?d else l)
        (concat (map (\<lambda>(c, v). py_repeat (c - 1) ?d @ [v]) (zip ?cs ?vs))) =
      concat (map (windows_of ?d) ns)"
    by (simp add: zip_map1 zip_map2 zip_same_conv_map map_concat comp_def cong: map_cong)
  with put show ?thesis
    unfolding chunk_lengths_def Let_def by simp
qed

section \<open>Facts about window boundaries\<close>

definition attention_windows :: "int \<Rightarrow> int \<Rightarrow> int list" where
  "attention_windows m n = py_repeat (n div m) m @ (if n mod m \<noteq> 0 then [n mod m] else [])"

lemma sum_attention_windows: "0 < m \<Longrightarrow> 0 \<le> n \<Longrightarrow> sum_list (attention_windows m n) = n"
  using div_mult_mod_eq [of n m]
  by (auto simp: attention_windows_def sum_list_replicate pos_imp_zdiv_nonneg_iff)

lemma attention_windows_range:
  assumes "0 < m" and "l \<in> set (attention_windows m n)"
  shows "0 < l \<and> l \<le> m"
proof -
  have "0 \<le> n mod m" and "n mod m < m" using assms(1) by simp_all
  moreover have "l = m \<or> l = n mod m \<and> l \<noteq> 0"
    using assms(2) by (auto simp: attention_windows_def split: if_splits)
  ultimately show ?thesis using assms(1) by linarith
qed

lemma cu_chunk_lens_eq:
  assumes "m \<noteq> 0"
  shows "cu_chunk_lens m ns = Inr (0 # concat (map (attention_windows m) ns))"
proof -
  have "fold_res (\<lambda>cnn_len acc.
        if m = 0 then Inl (RuntimeError ''ZeroDivisionError'')
        else
          let acc = acc @ py_repeat (cnn_len div m) m; remainder = cnn_len mod m
          in Inr (if remainder \<noteq> 0 then acc @ [remainder] else acc)) ns acc =
      Inr (acc @ concat (map (attention_windows m) ns))" for acc
    using assms by (induction ns arbitrary: acc) (auto simp: attention_windows_def Let_def)
  then show ?thesis unfolding cu_chunk_lens_def by simp
qed

lemma length_cumsum [simp]: "length (cumsum acc xs) = length xs"
  by (induction xs arbitrary: acc) simp_all

lemma last_cumsum: "xs \<noteq> [] \<Longrightarrow> last (cumsum acc xs) = acc + sum_list xs"
proof (induction xs arbitrary: acc)
  case (Cons x xs)
  then show ?case by (cases "xs = []") (auto simp: neq_Nil_conv)
qed simp

lemma cumsum_nth: "i < length xs \<Longrightarrow> cumsum acc xs ! i = acc + sum_list (take (Suc i) xs)"
proof (induction xs arbitrary: acc i)
  case (Cons x xs)
  then show ?case by (cases i) auto
qed simp

lemma cumsum_step:
  "Suc i < length xs \<Longrightarrow> cumsum acc xs ! Suc i - cumsum acc xs ! i = xs ! Suc i"
  by (simp add: cumsum_nth take_Suc_conv_app_nth)

section \<open>Facts about chunked convolution\<close>

lemma concat_split_every: "concat (split_every n xs) = xs"
proof (induction n xs rule: split_every.induct)
  case (1 n xs)
  show ?case
  proof (cases "n = 0 \<or> length xs \<le> n")
    case False
    with 1 show ?thesis by (subst split_every.simps) simp
  qed (subst split_every.simps, simp)
qed

lemma length_split_every:
  "0 < n \<Longrightarrow> length (split_every n xs) = max 1 ((length xs + n - 1) div n)"
proof (induction n xs rule: split_every.induct)
  case (1 n xs)
  show ?case
  proof (cases "length xs \<le> n")
    case True
    then have "length xs + n - 1 < 2 * n" using 1(2) by linarith
    then have "(length xs + n - 1) div n \<le> 1" using less_mult_imp_div_less by fastforce
    with True 1(2) show ?thesis by (subst split_every.simps) simp
  next
    case False
    then have "length (split_every n (drop n xs)) = max 1 ((length xs - n + n - 1) div n)"
      using 1 by simp
    moreover have "(length xs + n - 1) div n = Suc ((length xs - n + n - 1) div n)"
      using False 1(2) le_div_geq [of n "length xs + n - 1"] by simp
    moreover have "1 \<le> (length xs - n + n - 1) div n"
      using False 1(2) by (simp add: div_greater_zero_iff Suc_le_eq)
    ultimately show ?thesis using False 1(2) by (subst split_every.simps) simp
  qed
qed

lemma split_every_not_Nil [simp]: "split_every n xs \<noteq> []"
  by (subst split_every.simps) simp

lemma hd_eq_concat: "length yss = 1 \<Longrightarrow> hd yss = concat yss"
  by (cases yss) auto

lemma conv_chunks_map: "fst (conv_chunks (map g) n xs) = map g xs"
proof -
  let ?yss = "map (map g) (split_every n xs)"
  have "concat ?yss = map g xs" by (simp add: concat_split_every flip: map_concat)
  then show ?thesis
    using hd_eq_concat [of ?yss] by (auto simp: conv_chunks_def Let_def simp del: length_map)
qed

lemma snd_conv_chunks: "snd (conv_chunks conv n xs) = length (split_every n xs)"
  by (simp add: conv_chunks_def Let_def)

lemma chunked_conv_forward_map:
  assumes "0 < chunksize"
  obtains calls where
    "chunked_conv_forward (map g) chunksize zero ranks feature = Inr (map g feature, calls)"
proof -
  have "take (length feature) (map g (feature @ xs)) = map g feature" for xs by simp
  then have "map_sum id fst (chunked_conv_forward (map g) chunksize zero ranks feature) =
      Inr (map g feature)"
    using assms
    by (simp add: chunked_conv_forward_def Let_def conv_chunks_map split_beta del: map_append)
  then show ?thesis
    using that by (cases "chunked_conv_forward (map g) chunksize zero ranks feature") auto
qed

lemma batchwise_eq_map:
  assumes "\<And>xs ys. conv (xs @ ys) = conv xs @ conv ys" and "\<And>xs. length (conv xs) = length xs"
  shows "conv xs = map (\<lambda>x. hd (conv [x])) xs"
proof (induction xs)
  case Nil
  show ?case using assms(2) [of "[]"] by simp
next
  case (Cons x xs)
  have "conv [x] = [hd (conv [x])]" using assms(2) [of "[x]"] by (cases "conv [x]") auto
  with Cons assms(1) [of "[x]" xs] show ?case by simp
qed

text \<open>
  C1: When the convolution stack treats the rows of a batch independently, the chunked,
  rank-synchronised convolution returns exactly the convolution of the local input: neither
  the chunking, nor the padding to the longest rank, nor cutting it off again changes a row.
  A chunk size of zero ends in a division by zero and a negative one in the split.
\<close>

theorem chunked_conv_forward_equiv:
  assumes "\<And>xs ys. conv (xs @ ys) = conv xs @ conv ys" and "\<And>xs. length (conv xs) = length xs"
  shows "map_sum id fst (chunked_conv_forward conv chunksize zero ranks feature) =
    (if chunksize = 0 then Inl ZeroDivisionError
     else if chunksize < 0 then Inl (RuntimeError ''split'') else Inr (conv feature))"
proof (cases "0 < chunksize")
  case True
  have "conv = map (\<lambda>x. hd (conv [x]))" using batchwise_eq_map [of conv] assms by blast
  moreover obtain calls where "chunked_conv_forward (map (\<lambda>x. hd (conv [x]))) chunksize zero
      ranks feature = Inr (map (\<lambda>x. hd (conv [x])) feature, calls)"
    using True by (rule chunked_conv_forward_map)
  ultimately show ?thesis using True by (metis (lifting) fst_conv less_irrefl less_asym map_sum.simps(2))
qed (auto simp: chunked_conv_forward_def)

theorem chunked_conv_forward_equiv_witness:
  "map_sum id fst (chunked_conv_forward (map Suc) 2 0 [3, 5] [7, 8, 9]) = Inr [8, 9, 10]"
  using chunked_conv_forward_equiv [of "map Suc" 2 0 "[3, 5]" "[7, 8, 9]"] by simp

text \<open>
  C2: Every rank of a distributed job makes the same number of convolution calls, whatever
  the audio lengths of the ranks are, so the collectives inside the convolutions stay aligned.
\<close>

theorem chunked_conv_forward_aligned:
  assumes "0 < chunksize" and "1 < length ranks"
    and "length x \<in> set ranks" and "length y \<in> set ranks"
  shows "\<exists>u v calls. chunked_conv_forward conv chunksize zero ranks x = Inr (u, calls) \<and>
    chunked_conv_forward conv chunksize zero ranks y = Inr (v, calls)"
proof -
  let ?run = "chunked_conv_forward conv chunksize zero ranks"
  let ?c = "\<lambda>len. (len + nat chunksize - 1) div nat chunksize"
  have "map_sum id snd (?run x) = map_sum id snd (?run y) \<and> \<not> isl (?run x)"
  proof (cases "Min (?c ` set ranks) = Max (?c ` set ranks)")
    case True
    then have "?c r = Max (?c ` set ranks)" if "r \<in> set ranks" for r
    proof -
      have "finite (?c ` set ranks)" and "?c r \<in> ?c ` set ranks" using that by simp_all
      then have "Min (?c ` set ranks) \<le> ?c r" and "?c r \<le> Max (?c ` set ranks)"
        by (rule Min_le, rule Max_ge)
      with True show ?thesis by linarith
    qed
    then have "?c (length x) = ?c (length y)" using assms(3,4) by simp
    then show ?thesis
      using True assms by (simp add: chunked_conv_forward_def Let_def snd_conv_chunks length_split_every)
  next
    case False
    have pad: "length (if length z < Max (set ranks)
          then z @ replicate (Max (set ranks) - length z) zero else z) = Max (set ranks)"
      if "length z \<in> set ranks" for z
    proof -
      from that have "length z \<le> Max (set ranks)" by (intro Max_ge) simp_all
      then show ?thesis by auto
    qed
    show ?thesis
      using False assms pad [OF assms(3)] pad [OF assms(4)]
      by (simp add: chunked_conv_forward_def Let_def snd_conv_chunks length_split_every split_beta
          del: length_append split: if_splits)
  qed
  then show ?thesis by (cases "?run x"; cases "?run y") auto
qed

theorem chunked_conv_forward_aligned_witness:
  "\<exists>u v calls. chunked_conv_forward (map Suc) 2 0 [3, 5] [7, 7, 7] = Inr (u, calls) \<and>
   chunked_conv_forward (map Suc) 2 0 [3, 5] [1, 2, 3, 4, 5] = Inr (v, calls)"
  by (rule chunked_conv_forward_aligned) simp_all

section \<open>The forward pass keeps every frame\<close>

lemma map_length_split_at:
  "\<forall>n \<in> set ns. 0 \<le> n \<Longrightarrow> sum_list ns = int (length xs) \<Longrightarrow>
     map length (split_at xs ns) = map nat ns"
proof (induction ns arbitrary: xs)
  case (Cons n ns)
  then have nn: "0 \<le> n" "0 \<le> sum_list ns" by (auto intro!: sum_list_nonneg)
  with Cons.prems have "sum_list ns = int (length (drop (nat n) xs))" and "nat n \<le> length xs"
    by auto
  with Cons show ?case by simp
qed simp

lemma split_sizes_lengths:
  assumes "\<forall>n \<in> set ns. 0 \<le> n" and "sum_list ns = int (length xs)"
  shows "split_sizes xs ns = Inr (split_at xs ns)"
  using assms by (simp add: split_sizes_def)

lemma fold_max_mono_map:
  fixes f :: "'a::linorder \<Rightarrow> 'b::linorder"
  assumes "mono f"
  shows "fold max (map f xs) (f a) = f (fold max xs a)"
proof (induction xs arbitrary: a)
  case (Cons x xs)
  have "max (f x) (f a) = f (max x a)"
    using assms by (rule max_of_mono)
  with Cons [of "max x a"] show ?case by simp
qed simp

lemma fold_max_bounds:
  "(a::'a::linorder) \<le> fold max xs a \<and> (\<forall>x \<in> set xs. x \<le> fold max xs a)"
proof (induction xs arbitrary: a)
  case (Cons x xs)
  from Cons [of "max x a"] show ?case by auto
qed simp

lemma fold_max_in: "fold max xs a \<in> insert a (set xs)" for a :: "'a::linorder"
proof (induction xs arbitrary: a)
  case (Cons x xs)
  from Cons [of "max x a"] show ?case by (auto simp: max_def split: if_splits)
qed simp

text \<open>The time extent of a convolution with stride two, kernel three and padding one.\<close>

definition stride2 :: "int \<Rightarrow> int" where
  "stride2 n = (n - 1) div 2 + 1"

lemma stride2_cubed_feat:
  assumes "0 \<le> n" and "n \<le> 100"
  shows "stride2 (stride2 (stride2 n)) = get_feat_extract_output_lengths n"
proof (cases "n = 100")
  case False
  with assms show ?thesis
    by (simp add: stride2_def get_feat_extract_output_lengths_def Let_def)
qed (simp add: stride2_def get_feat_extract_output_lengths_def)

lemma select_masked_rows:
  assumes "length rows = length lens" and "\<forall>r \<in> set rows. int (length r) = fold max lens 0"
  shows "select_masked lens rows = Inr (concat (map (\<lambda>(n, r). take (nat n) r) (zip lens rows)))"
  using assms by (simp add: select_masked_def Let_def)

lemma pad_sequence_rows:
  assumes "map length chunks = map nat ws" and "r \<in> set (pad_sequence zero chunks)"
  shows "length r = nat (fold max ws 0)"
proof -
  have M: "max_len chunks = nat (fold max ws 0)"
    using fold_max_mono_map [of nat ws 0] by (simp add: max_len_def assms(1) mono_def nat_mono)
  from assms(2) obtain c where "c \<in> set chunks"
    and r: "r = c @ replicate (max_len chunks - length c) zero"
    by (auto simp: pad_sequence_def)
  then have "length c \<in> set (map nat ws)" using assms(1) by (metis image_eqI set_map)
  then have "length c \<le> nat (fold max ws 0)" using fold_max_bounds [of 0 ws] by auto
  with r M show ?thesis by simp
qed

lemma windows_concat:
  assumes "\<forall>n \<in> set lens. 0 < n" and "0 < d" and "100 dvd d"
  defines "ws \<equiv> concat (map (windows_of d) lens)"
  shows "sum_list ws = sum_list lens"
    and "sum_list (map get_feat_extract_output_lengths ws) =
      sum_list (map get_feat_extract_output_lengths lens)"
    and "\<forall>l \<in> set ws. 0 < l \<and> l \<le> d"
proof -
  show "sum_list ws = sum_list lens"
    and "sum_list (map get_feat_extract_output_lengths ws) =
      sum_list (map get_feat_extract_output_lengths lens)"
    unfolding ws_def using assms(1-3)
    by (induction lens) (auto simp: sum_windows_of feat_windows_of)
  show "\<forall>l \<in> set ws. 0 < l \<and> l \<le> d"
    unfolding ws_def using assms(1) windows_of_range [OF assms(2)] by (auto simp del: One_nat_def)
qed

text \<open>Window boundaries: from zero to the total, in steps of at most a window.\<close>

lemma cu_seqlens_boundaries:
  assumes m: "0 < m" and ns: "\<forall>n \<in> set ns. 0 \<le> n"
  obtains cu where "cu_seqlens m ns = Inr cu" and "hd cu = 0" and "last cu = sum_list ns"
    and "\<And>i. Suc i < length cu \<Longrightarrow> 0 < cu ! Suc i - cu ! i \<and> cu ! Suc i - cu ! i \<le> m"
proof -
  let ?w = "concat (map (attention_windows m) ns)"
  let ?cu = "cumsum 0 (0 # ?w)"
  have "sum_list ?w = sum_list ns"
    using ns m by (induction ns) (auto simp: sum_attention_windows)
  then have "last ?cu = sum_list ns" using last_cumsum [of "0 # ?w" 0] by simp
  moreover have "0 < ?cu ! Suc i - ?cu ! i \<and> ?cu ! Suc i - ?cu ! i \<le> m"
    if "Suc i < length ?cu" for i
  proof -
    have "?cu ! Suc i - ?cu ! i = ?w ! i"
      using that cumsum_step [of i "0 # ?w" 0] by simp
    moreover have "?w ! i \<in> set ?w" using that by (intro nth_mem) simp
    then have "0 < ?w ! i \<and> ?w ! i \<le> m"
      using attention_windows_range [OF m] by fastforce
    ultimately show ?thesis by simp
  qed
  moreover have "cu_seqlens m ns = Inr ?cu" using m by (simp add: cu_seqlens_def cu_chunk_lens_eq)
  moreover have "hd ?cu = 0" by simp
  ultimately show ?thesis using that by blast
qed

lemma fold_max_feat_range:
  assumes "ws \<noteq> []" and "\<forall>l \<in> set ws. 0 < l \<and> l \<le> 100"
  shows "1 \<le> fold max (map get_feat_extract_output_lengths ws) 0"
    and "fold max (map get_feat_extract_output_lengths ws) 0 \<le> 13"
proof -
  let ?fs = "map get_feat_extract_output_lengths ws"
  have f: "1 \<le> v \<and> v \<le> 13" if "v \<in> set ?fs" for v
  proof -
    from that obtain l where "l \<in> set ws" and "v = get_feat_extract_output_lengths l" by auto
    with assms(2) feat_mono [of 1 l] feat_mono [of l 100] show ?thesis
      by (auto simp: feat_closed_form)
  qed
  show "fold max ?fs 0 \<le> 13" using fold_max_in [of ?fs 0] f by auto
  from assms(1) obtain v where "v \<in> set ?fs" by (cases ws) auto
  with fold_max_bounds [of 0 ?fs] f show "1 \<le> fold max ?fs 0" by force
qed

section \<open>The rows of one clip\<close>

text \<open>
  What the encoder computes for one clip, told clip by clip: its own frames cut into windows
  of a hundred, each filled up with zeros to the longest window of the batch and convolved,
  and the first rows of each result, as many as the window counts tokens.
\<close>

definition clip_embeddings :: "('f list \<Rightarrow> 'e list) \<Rightarrow> 'f \<Rightarrow> nat \<Rightarrow> 'f list \<Rightarrow> 'e list" where
  "clip_embeddings row zero width clip =
     concat (map (\<lambda>(w, win).
         take (nat (get_feat_extract_output_lengths w)) (row (win @ replicate (width - length win) zero)))
       (let ws = windows_of 100 (int (length clip)) in zip ws (split_at clip ws)))"

text \<open>The longest window of a batch: its longest clip, at most a hundred frames.\<close>

definition longest_window :: "int list \<Rightarrow> nat" where
  "longest_window lens = nat (fold max (map (min 100) lens) 0)"

lemma fold_max_acc: "fold max xs (max a b) = max a (fold max xs b)" for a :: "'a::linorder"
proof (induction xs arbitrary: b)
  case (Cons x xs)
  show ?case using Cons [of "max x b"] by (simp add: max.left_commute)
qed simp

lemma fold_max_eqI:
  fixes m :: "'a::linorder"
  assumes "\<forall>x \<in> set xs. x \<le> m" and "m \<in> set xs" and "a \<le> m"
  shows "fold max xs a = m"
  using fold_max_bounds [of a xs] fold_max_in [of xs a] assms by (auto intro: antisym)

lemma fold_max_windows_of: "0 < n \<Longrightarrow> fold max (windows_of 100 n) 0 = min 100 n"
proof (rule fold_max_eqI)
  assume n: "0 < n"
  have eq: "100 * ((n - 1) div 100) + (n - 1) mod 100 = n - 1" by (rule mult_div_mod_eq)
  have le: "(n - 1) mod 100 \<le> n - 1" using n by (intro zmod_le_nonneg_dividend) simp
  have "n = (n - 1) mod 100 + 1" if "n \<le> 100" using that n by (simp add: mod_pos_pos_trivial)
  moreover have "0 < (n - 1) div 100" if "100 < n" using that by (simp add: pos_imp_zdiv_pos_iff)
  ultimately show "min 100 n \<in> set (windows_of 100 n)"
    by (cases "n \<le> 100") (auto simp: windows_of_def)
  show "\<forall>l \<in> set (windows_of 100 n). l \<le> min 100 n"
  proof
    fix l assume l: "l \<in> set (windows_of 100 n)"
    then have "l \<le> 100" using windows_of_range [of 100 n l] n by simp
    moreover have "0 \<le> (n - 1) div 100" using n by (simp add: pos_imp_zdiv_nonneg_iff)
    then have "l \<le> n" using l eq le by (auto simp: windows_of_def)
    ultimately show "l \<le> min 100 n" by simp
  qed
  show "0 \<le> min 100 n" using n by simp
qed

lemma longest_window_eq:
  "\<forall>n \<in> set lens. 0 < n \<Longrightarrow>
     nat (fold max (concat (map (windows_of 100) lens)) 0) = longest_window lens"
proof -
  assume pos: "\<forall>n \<in> set lens. 0 < n"
  have "fold max (concat (map (windows_of 100) lens)) a = fold max (map (min 100) lens) a"
    if "0 \<le> a" for a :: int
    using that pos
  proof (induction lens arbitrary: a)
    case (Cons n lens)
    then have "fold max (windows_of 100 n) a = max (min 100 n) a"
      using fold_max_acc [of "windows_of 100 n" a 0] by (simp add: fold_max_windows_of max.commute)
    with Cons show ?case by simp
  qed simp
  then show ?thesis unfolding longest_window_def by simp
qed

lemma split_at_append:
  assumes "\<forall>n \<in> set ns. 0 \<le> n"
  shows "split_at xs (ns @ ms) = split_at (take (nat (sum_list ns)) xs) ns @
    split_at (drop (nat (sum_list ns)) xs) ms"
  using assms
proof (induction ns arbitrary: xs)
  case (Cons n ns)
  then have nn: "0 \<le> n" "0 \<le> sum_list ns" by (auto intro!: sum_list_nonneg)
  with Cons.IH [of "drop (nat n) xs"] Cons.prems show ?case
    by (simp add: nat_add_distrib drop_take min_absorb1 add.commute)
qed simp

lemma length_split_at [simp]: "length (split_at xs ns) = length ns"
  by (induction ns arbitrary: xs) simp_all

lemma nth_split_at:
  assumes "\<forall>n \<in> set ns. 0 \<le> n" and "i < length ns"
  shows "split_at xs ns ! i = take (nat (ns ! i)) (drop (nat (sum_list (take i ns))) xs)"
  using assms
proof (induction ns arbitrary: xs i)
  case (Cons n ns)
  show ?case
  proof (cases i)
    case (Suc j)
    with Cons.prems have "0 \<le> n" "0 \<le> sum_list (take j ns)"
      by (auto intro!: sum_list_nonneg dest: in_set_takeD)
    with Suc Cons show ?thesis by (simp add: nat_add_distrib add.commute)
  qed simp
qed simp

text \<open>The masked rows of the whole batch are the rows of its clips, one after the other.\<close>

lemma masked_rows_by_clip:
  assumes "\<forall>n \<in> set lens. 0 < n" and "sum_list lens = int (length frames)"
  shows "concat (map (\<lambda>(w, win).
      take (nat (get_feat_extract_output_lengths w)) (row (win @ replicate (width - length win) zero)))
      (let ws = concat (map (windows_of 100) lens) in zip ws (split_at frames ws))) =
    concat (map (clip_embeddings row zero width) (split_at frames lens))"
  using assms
proof (induction lens arbitrary: frames)
  case (Cons n lens)
  let ?ws = "windows_of 100 n" and ?rest = "concat (map (windows_of 100) lens)"
  have n: "0 < n" and lens: "\<forall>n \<in> set lens. 0 < n" using Cons.prems(1) by auto
  have "0 \<le> sum_list lens" using lens by (intro sum_list_nonneg) (auto simp: less_imp_le)
  then have len: "int (length (take (nat n) frames)) = n"
    and rest: "sum_list lens = int (length (drop (nat n) frames))"
    using Cons.prems(2) n by auto
  have nn: "\<forall>w \<in> set ?ws. 0 \<le> w" using windows_of_range [of 100 n] n by (auto simp: less_imp_le)
  have sum: "sum_list ?ws = n" using n by (simp add: sum_windows_of)
  have "split_at frames (?ws @ ?rest) = split_at (take (nat n) frames) ?ws @
      split_at (drop (nat n) frames) ?rest"
    using split_at_append [OF nn, of frames ?rest] by (simp add: sum)
  with Cons.IH [OF lens rest] show ?case
    by (simp add: clip_embeddings_def [of row zero width "take (nat n) frames"] len Let_def
        del: length_take)
qed simp

lemma length_clip_embeddings:
  assumes "clip \<noteq> []" and "width \<le> 100" and "min 100 (length clip) \<le> width"
    and conv: "\<forall>r. int (length (row r)) = stride2 (stride2 (stride2 (int (length r))))"
  shows "int (length (clip_embeddings row zero width clip)) =
    get_feat_extract_output_lengths (int (length clip))"
proof -
  let ?feat = get_feat_extract_output_lengths and ?n = "int (length clip)"
  let ?ws = "windows_of 100 ?n"
  have n: "0 < ?n" using assms(1) by simp
  have ws: "0 < w \<and> nat w \<le> width" if "w \<in> set ?ws" for w
  proof -
    have "w \<le> fold max ?ws 0" using fold_max_bounds [of 0 ?ws] that by blast
    with assms(3) windows_of_range [of 100 ?n w] n that show ?thesis
      by (auto simp: fold_max_windows_of)
  qed
  have lens: "map length (split_at clip ?ws) = map nat ?ws"
    using ws sum_windows_of [of 100 ?n] n by (intro map_length_split_at) (auto simp: less_imp_le)
  have "int (length (concat (map (\<lambda>(w, win).
      take (nat (?feat w)) (row (win @ replicate (width - length win) zero))) (zip us wins)))) =
      sum_list (map ?feat us)"
    if "map length wins = map nat us" "\<forall>w \<in> set us. 0 < w \<and> nat w \<le> width" for us wins
    using that
  proof (induction us wins rule: list_induct2')
    case (4 u us win wins)
    then have "length (win @ replicate (width - length win) zero) = width" by simp
    with conv assms(2) have "int (length (row (win @ replicate (width - length win) zero))) =
        ?feat (int width)"
      by (simp add: stride2_cubed_feat)
    moreover have "0 \<le> ?feat u" "?feat u \<le> ?feat (int width)"
      using 4 feat_nonneg [of u] feat_mono [of u "int width"] by auto
    ultimately show ?case using 4 by simp
  qed auto
  with lens ws have "int (length (clip_embeddings row zero width clip)) = sum_list (map ?feat ?ws)"
    by (simp add: clip_embeddings_def Let_def)
  then show ?thesis using n by (simp add: feat_windows_of)
qed

lemma length_blocks:
  assumes pos: "\<forall>n \<in> set lens. 0 < n" and frames: "sum_list lens = int (length frames)"
    and conv: "\<forall>r. int (length (row r)) = stride2 (stride2 (stride2 (int (length r))))"
  shows "map (int \<circ> length) (map (clip_embeddings row zero (longest_window lens))
      (split_at frames lens)) = map get_feat_extract_output_lengths lens"
proof -
  have nn: "\<forall>n \<in> set lens. 0 \<le> n" using pos by (auto simp: less_imp_le)
  note len = map_length_split_at [OF nn frames]
  have width: "longest_window lens \<le> 100"
    using fold_max_in [of "map (min 100) lens" 0] by (auto simp: longest_window_def)
  have "int (length (clip_embeddings row zero (longest_window lens) clip)) =
      get_feat_extract_output_lengths (int (length clip))" if "clip \<in> set (split_at frames lens)" for clip
  proof (rule length_clip_embeddings [OF _ width _ conv])
    have "length clip \<in> set (map nat lens)" using that len by (metis image_eqI set_map)
    then obtain n where n: "n \<in> set lens" "length clip = nat n" by auto
    with pos show "clip \<noteq> []" by force
    have "min 100 n \<le> fold max (map (min 100) lens) 0"
      using fold_max_bounds [of 0 "map (min 100) lens"] n(1) by simp
    then show "min 100 (length clip) \<le> longest_window lens"
      using n(2) by (simp add: longest_window_def)
  qed
  then have "map (int \<circ> length) (map (clip_embeddings row zero (longest_window lens))
      (split_at frames lens)) =
      map (\<lambda>l. get_feat_extract_output_lengths (int l)) (map length (split_at frames lens))"
    by simp
  also have "\<dots> = map get_feat_extract_output_lengths lens"
    unfolding len using nn by (simp add: comp_def)
  finally show ?thesis .
qed

section \<open>The encoder on a batch of clips\<close>

text \<open>The masked embeddings of the padded windows.\<close>

lemma masked_window_embeddings:
  assumes ws: "\<forall>l \<in> set ws. 0 < l \<and> l \<le> 100" and len: "map length chunks = map nat ws"
    and conv: "\<forall>r. int (length (row r)) = stride2 (stride2 (stride2 (int (length r))))"
  shows "select_masked (map get_feat_extract_output_lengths ws)
      (map row (pad_sequence zero chunks)) =
    Inr (concat (map (\<lambda>(w, win). take (nat (get_feat_extract_output_lengths w))
      (row (win @ replicate (nat (fold max ws 0) - length win) zero))) (zip ws chunks)))"
proof -
  let ?feat = get_feat_extract_output_lengths and ?M = "fold max ws 0"
  let ?rows = "map row (pad_sequence zero chunks)"
  have "length ?rows = length (map ?feat ws)"
    using arg_cong [OF len, of length] by (simp add: pad_sequence_def)
  moreover have "0 \<le> ?M" "?M \<le> 100"
    using fold_max_bounds [of 0 ws] fold_max_in [of ws 0] ws by auto
  moreover have "fold max (map ?feat ws) 0 = ?feat ?M"
    using fold_max_mono_map [of ?feat ws 0] feat_mono by (simp add: mono_def feat_closed_form)
  ultimately have "select_masked (map ?feat ws) ?rows =
      Inr (concat (map (\<lambda>(n, r). take (nat n) r) (zip (map ?feat ws) ?rows)))"
    using conv pad_sequence_rows [OF len]
    by (intro select_masked_rows) (auto simp: stride2_cubed_feat)
  moreover have "max_len chunks = nat ?M"
    using fold_max_mono_map [of nat ws 0] by (simp add: max_len_def len mono_def nat_mono)
  ultimately show ?thesis
    by (simp add: pad_sequence_def zip_map1 zip_map2 comp_def case_prod_unfold)
qed

lemma audio_forward_rows:
  fixes row :: "'f list \<Rightarrow> 'e list" and zero :: 'f
  assumes cfg: "n_window cfg = 50" "100 \<le> n_window_infer cfg" "0 < conv_chunksize cfg"
    and lens: "lens \<noteq> []" "\<forall>n \<in> set lens. 0 < n \<and> n < 2 ^ 24"
    and frames: "sum_list lens = int (length frames)"
    and conv: "\<forall>r. int (length (row r)) = stride2 (stride2 (stride2 (int (length r))))"
  defines "blocks \<equiv> map (clip_embeddings row zero (longest_window lens)) (split_at frames lens)"
  shows "\<exists>cu. audio_forward cfg (map row) zero ranks layers frames lens =
      Inr (layers (concat blocks) cu) \<and>
    map (int \<circ> length) blocks = map get_feat_extract_output_lengths lens \<and>
    hd cu = 0 \<and> last cu = int (length (concat blocks)) \<and>
    (\<forall>i. Suc i < length cu \<longrightarrow> 0 < cu ! Suc i - cu ! i \<and>
       cu ! Suc i - cu ! i \<le> 13 * (n_window_infer cfg div 100))"
proof -
  let ?feat = get_feat_extract_output_lengths
  define ws where "ws = concat (map (windows_of 100) lens)"
  have pos: "\<forall>n \<in> set lens. 0 < n" using lens(2) by blast
  note ws = windows_concat [OF pos, of 100, folded ws_def, simplified]
  have cl: "chunk_lengths 50 lens = Inr ws"
    using chunk_lengths_windows [of 50 lens] lens(2) by (simp add: ws_def)
  have nn: "\<forall>n \<in> set ws. 0 \<le> n" using ws(3) by (auto simp: less_imp_le)
  have tot: "sum_list ws = int (length frames)" using frames ws(1) by simp
  define chunks where "chunks = split_at frames ws"
  have sp: "split_sizes frames ws = Inr chunks" and len: "map length chunks = map nat ws"
    unfolding chunks_def using nn tot by (simp_all add: split_sizes_lengths map_length_split_at)
  have h: "select_masked (map ?feat ws) (map row (pad_sequence zero chunks)) = Inr (concat blocks)"
    using masked_window_embeddings [OF ws(3) len conv, of zero] longest_window_eq [OF pos]
      masked_rows_by_clip [OF pos frames, of row "longest_window lens" zero]
    by (simp add: ws_def chunks_def blocks_def Let_def)
  have bl: "map (int \<circ> length) blocks = map ?feat lens"
    unfolding blocks_def using length_blocks [OF pos frames conv] by simp
  then have total: "int (length (concat blocks)) = sum_list (map ?feat lens)"
    by (simp add: length_concat flip: sum_list_of_nat)
  define m where "m = fold max (map ?feat ws) 0 * (n_window_infer cfg div 100)"
  have "ws \<noteq> []" using lens(1) by (auto simp: ws_def windows_of_def neq_Nil_conv)
  then have "1 \<le> fold max (map ?feat ws) 0" "fold max (map ?feat ws) 0 \<le> 13"
    using fold_max_feat_range [of ws] ws(3) by simp_all
  moreover have "1 \<le> n_window_infer cfg div 100" using cfg(2) by simp
  ultimately have m: "0 < m" "m \<le> 13 * (n_window_infer cfg div 100)"
    unfolding m_def by (auto intro: mult_pos_pos mult_right_mono)
  have "\<forall>n \<in> set (map ?feat lens). 0 \<le> n" using pos feat_nonneg by (auto simp: less_imp_le)
  from cu_seqlens_boundaries [OF m(1) this] obtain cu where cu: "cu_seqlens m (map ?feat lens) = Inr cu"
    "hd cu = 0" "last cu = sum_list (map ?feat lens)"
    and step: "\<And>i. Suc i < length cu \<Longrightarrow> 0 < cu ! Suc i - cu ! i \<and> cu ! Suc i - cu ! i \<le> m"
    by blast
  obtain calls where "chunked_conv_forward (map row) (conv_chunksize cfg)
      (replicate (max_len chunks) zero) ranks (pad_sequence zero chunks) =
      Inr (map row (pad_sequence zero chunks), calls)"
    using cfg(3) by (rule chunked_conv_forward_map)
  then have "audio_forward cfg (map row) zero ranks layers frames lens =
      Inr (layers (concat blocks) cu)"
    using h cu(1) cl sp by (simp add: audio_forward_def Let_def cfg m_def)
  then show ?thesis using bl total cu step m(2) by (intro exI [of _ cu]) fastforce
qed

text \<open>
  C3: With windows of 100 frames (\<open>n_window = 50\<close>), the encoder accepts every batch of
  non-empty audios whose frames are all present. The rows it hands to the attention layers
  are one block per audio, in order: block \<open>i\<close> is computed from the frames of audio \<open>i\<close> alone
  and has exactly as many rows as the processor reserved audio tokens for audio \<open>i\<close>. The
  window boundaries start at zero, end at the number of rows, and are at least one and at
  most a whole inference window apart.
\<close>

theorem audio_forward_token_counts:
  assumes cfg: "n_window cfg = 50" "100 \<le> n_window_infer cfg" "0 < conv_chunksize cfg"
    and lens: "lens \<noteq> []" "\<forall>n \<in> set lens. 0 < n \<and> n < 2 ^ 24"
    and frames: "sum_list lens = int (length frames)"
    and conv: "\<forall>r. int (length (row r)) = stride2 (stride2 (stride2 (int (length r))))"
  shows "\<exists>blocks cu.
    audio_forward cfg (map row) zero ranks layers frames lens = Inr (layers (concat blocks) cu) \<and>
    length blocks = length lens \<and>
    (\<forall>i < length lens.
       blocks ! i = clip_embeddings row zero (longest_window lens)
         (take (nat (lens ! i)) (drop (nat (sum_list (take i lens))) frames)) \<and>
       int (length (blocks ! i)) = get_feat_extract_output_lengths (lens ! i)) \<and>
    int (length (concat blocks)) = sum_list (map get_feat_extract_output_lengths lens) \<and>
    hd cu = 0 \<and> last cu = int (length (concat blocks)) \<and>
    (\<forall>i. Suc i < length cu \<longrightarrow> 0 < cu ! Suc i - cu ! i \<and>
       cu ! Suc i - cu ! i \<le> 13 * (n_window_infer cfg div 100))"
proof -
  let ?blocks = "map (clip_embeddings row zero (longest_window lens)) (split_at frames lens)"
  from audio_forward_rows [OF assms, of zero ranks layers] obtain cu where
    run: "audio_forward cfg (map row) zero ranks layers frames lens = Inr (layers (concat ?blocks) cu)"
    and bl: "map (int \<circ> length) ?blocks = map get_feat_extract_output_lengths lens"
    and cu: "hd cu = 0" "last cu = int (length (concat ?blocks))"
      "\<forall>i. Suc i < length cu \<longrightarrow> 0 < cu ! Suc i - cu ! i \<and>
         cu ! Suc i - cu ! i \<le> 13 * (n_window_infer cfg div 100)"
    by blast
  have nn: "\<forall>n \<in> set lens. 0 \<le> n" using lens(2) by (auto simp: less_imp_le)
  have "int (length (?blocks ! i)) = get_feat_extract_output_lengths (lens ! i)"
    if "i < length lens" for i
    using arg_cong [OF bl, of "\<lambda>xs. xs ! i"] that by simp
  moreover have "int (length (concat ?blocks)) = sum_list (map get_feat_extract_output_lengths lens)"
    using arg_cong [OF bl, of sum_list]
    by (simp add: length_concat comp_assoc flip: sum_list_of_nat)
  ultimately show ?thesis
    using run cu by (intro exI [of _ ?blocks] exI [of _ cu]) (simp add: nth_split_at [OF nn])
qed

theorem audio_forward_token_counts_witness:
  "\<exists>blocks cu.
    audio_forward (default_audio_config\<lparr>n_window := 50\<rparr>)
      (map (\<lambda>r. replicate (nat (stride2 (stride2 (stride2 (int (length r)))))) (sum_list r)))
      (0::nat) [] Pair [7, 8, 9, 5] [3, 1] = Inr (concat blocks, cu) \<and>
    length blocks = 2 \<and> length (blocks ! 0) = 1 \<and> length (blocks ! 1) = 1 \<and>
    hd cu = 0 \<and> last cu = 2"
proof -
  have "0 \<le> stride2 n" if "0 \<le> n" for n
    using that by (simp add: stride2_def)
  then have row: "\<forall>r :: nat list. int (length
      (replicate (nat (stride2 (stride2 (stride2 (int (length r)))))) (sum_list r))) =
      stride2 (stride2 (stride2 (int (length r))))"
    by simp
  show ?thesis
    using audio_forward_token_counts [of "default_audio_config\<lparr>n_window := 50\<rparr>" "[3, 1]"
        "[7, 8, 9, 5 :: nat]", OF _ _ _ _ _ _ row, of 0 "[]" Pair]
    by (simp add: default_audio_config_def feat_closed_form All_less_Suc2)
      (elim exE conjE, intro exI conjI, assumption, simp_all)
qed

lemma fold_max_windows_200:
  assumes "\<forall>n \<in> set lens. 0 < n" and "\<exists>n \<in> set lens. 200 \<le> n"
  shows "fold max (concat (map (windows_of 200) lens)) 0 = 200"
proof -
  let ?ws = "concat (map (windows_of 200) lens)"
  from assms(2) obtain n where n: "n \<in> set lens" "200 \<le> n" by blast
  have "200 \<in> set (windows_of 200 n)"
  proof (cases "n = 200")
    case False
    with n have "0 < (n - 1) div 200" by (simp add: pos_imp_zdiv_pos_iff)
    then show ?thesis by (simp add: windows_of_def)
  qed (simp add: windows_of_def)
  with n have "200 \<in> set ?ws" by auto
  moreover have "\<forall>l \<in> set ?ws. l \<le> 200" using windows_concat(3) [OF assms(1), of 200] by simp
  ultimately show ?thesis
    using fold_max_bounds [of 0 ?ws] fold_max_in [of ?ws 0] by force
qed

text \<open>
  C4: The token count is tied to windows of 100 frames: with the constructor's default of
  200 frames per window the encoder rejects every batch that holds a full window (an audio
  of 200 frames or more), because the mask built from the token count is 26 columns wide and
  the convolution of a full window gives 25.
\<close>

theorem audio_forward_default_window_fails:
  assumes lens: "\<forall>n \<in> set lens. 0 < n \<and> n < 2 ^ 24" "\<exists>n \<in> set lens. 200 \<le> n"
    and frames: "sum_list lens = int (length frames)"
    and conv: "\<forall>r. int (length (row r)) = stride2 (stride2 (stride2 (int (length r))))"
  shows "audio_forward default_audio_config (map row) zero ranks layers frames lens = Inl IndexError"
proof -
  let ?feat = get_feat_extract_output_lengths
  define ws where "ws = concat (map (windows_of 200) lens)"
  have pos: "\<forall>n \<in> set lens. 0 < n" using lens(1) by blast
  note ws = windows_concat [OF pos, of 200, folded ws_def, simplified]
  have cl: "chunk_lengths 100 lens = Inr ws"
    using chunk_lengths_windows [of 100 lens] lens(1) by (simp add: ws_def)
  have nn: "\<forall>n \<in> set ws. 0 \<le> n" using ws(3) by (auto simp: less_imp_le)
  define chunks where "chunks = split_at frames ws"
  have sp: "split_sizes frames ws = Inr chunks" and len: "map length chunks = map nat ws"
    unfolding chunks_def using nn frames ws(1)
    by (simp_all add: split_sizes_lengths map_length_split_at)
  have M: "fold max ws 0 = 200" unfolding ws_def using pos lens(2) by (rule fold_max_windows_200)
  then have "ws \<noteq> []" by auto
  then obtain r where r: "r \<in> set (pad_sequence zero chunks)"
    using len by (cases chunks) (auto simp: pad_sequence_def)
  then have "int (length (row r)) = 25"
    using pad_sequence_rows [OF len r] conv by (simp add: M stride2_def)
  moreover have "fold max (map ?feat ws) 0 = 26"
    using fold_max_mono_map [of ?feat ws 0] feat_mono M by (simp add: mono_def feat_closed_form)
  ultimately have "select_masked (map ?feat ws) (map row (pad_sequence zero chunks)) = Inl IndexError"
    using r by (auto simp: select_masked_def Let_def intro!: bexI [of _ r])
  moreover obtain calls where "chunked_conv_forward (map row) 500 (replicate (max_len chunks) zero)
      ranks (pad_sequence zero chunks) = Inr (map row (pad_sequence zero chunks), calls)"
    using zero_less_numeral by (rule chunked_conv_forward_map)
  ultimately show ?thesis
    using cl sp by (simp add: audio_forward_def default_audio_config_def Let_def)
qed

theorem audio_forward_default_window_fails_witness:
  "audio_forward default_audio_config
      (map (\<lambda>r. replicate (nat (stride2 (stride2 (stride2 (int (length r)))))) ()))
      (0::nat) [] Pair (replicate 250 1) [250] = Inl IndexError"
proof -
  have "0 \<le> stride2 n" if "0 \<le> n" for n
    using that by (simp add: stride2_def)
  then show ?thesis
    by (intro audio_forward_default_window_fails) simp_all
qed

end
