(* ===== verification/Processor_Call.thy ===== *)
theory Processor_Call
  imports Media_Options_Correct Prompt_Expansion_Correct Audio_Encoder
begin

text \<open>
  \<open>TLiveOmniProcessor.__call__\<close> (\<open>src/tlive_omni/processing_tlive_omni.py\<close>): the media go through the
  processors of the transformers package, the prompts through the expansion of their markers and the
  tokenizer, and everything is collected in one dictionary, which \<open>BatchFeature\<close> converts to tensors.
  The processors, the tokenizer and that conversion are parameters; a tensor is a list of lists.
\<close>

section \<open>The objects of the package\<close>

text \<open>
  The metadata of a video, as an object: the indices of the sampled frames, the frame rate of the
  file, and what may be missing
\<close>

record sampled_metadata = video_metadata +
  total_num_frames :: "int option"
  sampled_fps :: "rat option"

definition metadata_value :: "sampled_metadata \<Rightarrow> pyval" where
  "metadata_value md = PyObject
     [(''frames_indices'', PyList (map PyInt (frames_indices md))),
      (''fps'', PyFloat (fps md)),
      (''total_num_frames'', case total_num_frames md of None \<Rightarrow> PyNone | Some n \<Rightarrow> PyInt n),
      (''sampled_fps'', case sampled_fps md of None \<Rightarrow> PyNone | Some x \<Rightarrow> PyFloat x)]"

record package =
  merge_kwargs :: "pydict \<Rightarrow> output_kwargs res"
  video_decoders :: "string list"
  qwen3_vl_importable :: bool
  feature_extractor :: "pyval \<Rightarrow> pydict \<Rightarrow> pydict res"
  image_processor :: "pyval \<Rightarrow> pydict \<Rightarrow> pydict res"
  video_processor :: "pydict \<Rightarrow> pyval \<Rightarrow> pydict \<Rightarrow> (pydict \<times> sampled_metadata list option) action"
  tokenize :: "string list \<Rightarrow> pydict \<Rightarrow> pydict res"
  batch_feature :: "pydict \<Rightarrow> pyval \<Rightarrow> pydict res"

text \<open>The rows of an integer tensor, and of one with three columns\<close>

fun int_row :: "pyval \<Rightarrow> int list res" where
  "int_row (PyList xs) = map_res py_int xs"
| "int_row _ = Inl (TypeError ''not a tensor'')"

fun int_rows :: "pyval \<Rightarrow> int list list res" where
  "int_rows (PyList rows) = map_res int_row rows"
| "int_rows _ = Inl (TypeError ''not a tensor'')"

definition grid_row :: "int list \<Rightarrow> (int \<times> int \<times> int) res" where
  "grid_row r = (case r of [t, h, w] \<Rightarrow> Inr (t, h, w) | _ \<Rightarrow> Inl (ValueError ''not a grid''))"

definition grids_of :: "string \<Rightarrow> pydict \<Rightarrow> (int \<times> int \<times> int) list res" where
  "grids_of key data =
     rbind (of_option (KeyError key) (map_of data key)) (\<lambda>v. rbind (int_rows v) (map_res grid_row))"

section \<open>Media\<close>

text \<open>The features of the audio, with the mask under another name, and the number of tokens of every clip\<close>

definition rename_entry :: "string \<Rightarrow> string \<Rightarrow> pydict \<Rightarrow> pydict res" where
  "rename_entry old_key new_key data = rbind (dict_pop old_key data) (\<lambda>(v, data'). Inr (dict_set new_key v data'))"

definition call_audio :: "package \<Rightarrow> call_options \<Rightarrow> pyval \<Rightarrow> (pydict \<times> int list) res" where
  "call_audio pk opts audio =
     (if audio = PyNone then Inr ([], [])
      else
        rbind (feature_extractor pk audio (dict_set ''padding'' (PyBool True) (audio_kwargs opts))) (\<lambda>data0.
        rbind (rename_entry ''attention_mask'' ''feature_attention_mask'' data0) (\<lambda>data1.
        rbind (rename_entry ''input_features'' ''input_features'' data1) (\<lambda>audio_inputs.
        rbind (int_rows (dict_get audio_inputs ''feature_attention_mask'' PyNone)) (\<lambda>rows.
        Inr (audio_inputs, map (\<lambda>r. get_feat_extract_output_lengths (sum_list r)) rows))))))"

definition call_images :: "package \<Rightarrow> call_options \<Rightarrow> pyval \<Rightarrow> (pydict \<times> (int \<times> int \<times> int) list) res" where
  "call_images pk opts images =
     (if images = PyNone then Inr ([], [])
      else
        rbind (image_processor pk (normalize_media_paths images) (images_kwargs opts)) (\<lambda>images_inputs.
        rbind (grids_of ''image_grid_thw'' images_inputs) (\<lambda>grids. Inr (images_inputs, grids))))"

definition seconds_per_grid :: "nat \<Rightarrow> pyval \<Rightarrow> sampled_metadata \<Rightarrow> rat res" where
  "seconds_per_grid tps fallback_fps md =
     rbind (metadata_sampled_fps (metadata_value md) fallback_fps) (\<lambda>v.
     rbind (as_number v) (\<lambda>rate.
     rbind (py_truediv (int tps) rate) (\<lambda>s. Inr (round_video_second_per_grid s))))"

record video_inputs =
  videos_data :: pydict
  grids :: "(int \<times> int \<times> int) list"
  second_per_grid :: "rat list"
  metadata :: "sampled_metadata list"

definition add_video_data :: "bool \<Rightarrow> sampled_metadata list \<Rightarrow> rat list \<Rightarrow> pydict \<Rightarrow> pydict" where
  "add_video_data return_metadata mds seconds videos_inputs =
     (let data = dict_set ''video_second_per_grid'' (PyList (map PyFloat seconds)) videos_inputs
      in if return_metadata then dict_set ''video_metadata'' (PyList (map metadata_value mds)) data
         else dict_del ''video_metadata'' data)"

text \<open>The frame limits are set on a copy of the video processor, for this call only.\<close>

definition call_videos :: "package \<Rightarrow> processor_settings \<Rightarrow> nat \<Rightarrow> call_options \<Rightarrow> pyval \<Rightarrow> video_inputs action" where
  "call_videos pk st tps opts videos s =
     (if videos = PyNone then (Inr \<lparr>videos_data = [], grids = [], second_per_grid = [], metadata = []\<rparr>, s)
      else
        (let attrs = fold (\<lambda>(key, n). dict_set key (PyInt n)) (video_frame_limits opts) (video_processor_attrs st);
             (r, s') = force_transformers_video_backend (qwen3_vl_importable pk) (video_backend (own opts))
                         (video_processor pk attrs (normalize_media_paths videos) (videos_kwargs opts)) s
         in (rbind r (\<lambda>(videos_inputs, video_metadata).
             rbind (of_option (TypeError ''NoneType object is not iterable'') video_metadata) (\<lambda>mds.
             rbind (map_res (seconds_per_grid tps (video_second_per_grid_fps opts)) mds) (\<lambda>seconds.
             let data = add_video_data (return_video_metadata opts) mds seconds videos_inputs
             in rbind (grids_of ''video_grid_thw'' data) (\<lambda>gs.
                Inr \<lparr>videos_data = data, grids = gs, second_per_grid = seconds, metadata = mds\<rparr>)))), s')))"

section \<open>The call\<close>

text \<open>
  \<open>position_id_per_seconds\<close> is declared an optional int; it is read only for videos with sound.
\<close>

definition position_rate :: "pyval \<Rightarrow> bool \<Rightarrow> int res" where
  "position_rate v use_audio =
     (if \<not> use_audio then Inr 0
      else (case v of PyInt i \<Rightarrow> Inr i | _ \<Rightarrow> Inl (TypeError ''unsupported operand type'')))"

text \<open>The prompts of a call: one string, or a list of them\<close>

definition prompt_list :: "(string + string list) \<Rightarrow> string list" where
  "prompt_list text = (case text of Inl s \<Rightarrow> [s] | Inr ss \<Rightarrow> ss)"

definition call_text ::
    "package \<Rightarrow> processor \<Rightarrow> call_options \<Rightarrow> string list \<Rightarrow> int list \<Rightarrow> (int \<times> int \<times> int) list \<Rightarrow> video_inputs \<Rightarrow> string list res" where
  "call_text pk pr opts texts lengths image_grids vs =
     (let u = truthy (use_audio_in_video (own opts))
      in rbind (position_rate (own_options.position_id_per_seconds (own opts)) u) (\<lambda>per_seconds.
         replace_multimodal_special_tokens pr
           \<lparr>audio_lengths = lengths, image_grid_thw = image_grids, video_grid_thw = grids vs,
            video_second_per_grid = second_per_grid vs,
            video_metadatas = map (\<lambda>md. Some (video_metadata.truncate md)) (metadata vs)\<rparr>
           u per_seconds texts))"

text \<open>The dictionary of the call, \<open>{**texts, **images, **videos, **audio, use_audio_in_video}\<close>\<close>

definition collect_inputs :: "pydict \<Rightarrow> pydict \<Rightarrow> pydict \<Rightarrow> pydict \<Rightarrow> pyval \<Rightarrow> pydict" where
  "collect_inputs texts_inputs images_inputs videos_inputs audio_inputs use_audio =
     dict_set ''use_audio_in_video'' use_audio
       (dict_update (dict_update (dict_update (dict_update [] texts_inputs) images_inputs) videos_inputs) audio_inputs)"

text \<open>
  What the call holds when it reaches the tokenizer: the expanded prompts, the tokenizer's arguments,
  and the inputs computed from the media
\<close>

record call_state =
  processed_text :: "string list"
  tokenizer_kwargs :: pydict
  images_inputs :: pydict
  videos_inputs :: pydict
  audio_inputs :: pydict
  use_audio_value :: pyval

definition prepare_with ::
    "package \<Rightarrow> processor \<Rightarrow> processor_settings \<Rightarrow> call_options \<Rightarrow> string list \<Rightarrow> pyval \<Rightarrow> pyval \<Rightarrow> pyval \<Rightarrow> call_state action" where
  "prepare_with pk pr st opts texts images videos audio s =
     (case rbind (call_audio pk opts audio) (\<lambda>a.
           rbind (require (\<not> (videos \<noteq> PyNone \<and> truthy (use_audio_in_video (own opts)) \<and> audio = PyNone))
             (ValueError ''use_audio_in_video=True requires an audio input for each video. '')) (\<lambda>_.
           rbind (call_images pk opts images) (\<lambda>i. Inr (a, i)))) of
        Inl e \<Rightarrow> (Inl e, s)
      | Inr ((audio_data, lengths), (images_data, image_grids)) \<Rightarrow>
          (let (r, s') = call_videos pk st (temporal_patch_size pr) opts videos s
           in (rbind r (\<lambda>vs.
               rbind (call_text pk pr opts texts lengths image_grids vs) (\<lambda>processed.
               Inr \<lparr>processed_text = processed, tokenizer_kwargs = text_kwargs opts, images_inputs = images_data,
                    videos_inputs = videos_data vs, audio_inputs = audio_data,
                    use_audio_value = use_audio_in_video (own opts)\<rparr>)), s')))"

text \<open>The call up to the tokenizer\<close>

definition prepare_call ::
    "package \<Rightarrow> processor \<Rightarrow> processor_settings \<Rightarrow> (string + string list) option \<Rightarrow> pyval \<Rightarrow> pyval \<Rightarrow> pyval \<Rightarrow> pydict \<Rightarrow>
     call_state action" where
  "prepare_call pk pr st text images videos audio kwargs s =
     (case text of
        None \<Rightarrow> (Inl (ValueError ''You need to specify either a `text` input to process.''), s)
      | Some t \<Rightarrow>
          (case resolve_call_options (merge_kwargs pk) (video_decoders pk) st (videos \<noteq> PyNone) kwargs of
             Inl e \<Rightarrow> (Inl e, s)
           | Inr opts \<Rightarrow> prepare_with pk pr st opts (prompt_list t) images videos audio s))"

text \<open>The tokenizer, and the conversion of the collected inputs\<close>

definition finish_call :: "package \<Rightarrow> pyval \<Rightarrow> call_state \<Rightarrow> pydict res" where
  "finish_call pk tensor_type c =
     rbind (tokenize pk (processed_text c) (tokenizer_kwargs c)) (\<lambda>texts_inputs.
     batch_feature pk (collect_inputs texts_inputs (images_inputs c) (videos_inputs c) (audio_inputs c) (use_audio_value c))
       tensor_type)"

definition processor_call ::
    "package \<Rightarrow> processor \<Rightarrow> processor_settings \<Rightarrow> (string + string list) option \<Rightarrow> pyval \<Rightarrow> pyval \<Rightarrow> pyval \<Rightarrow> pydict \<Rightarrow>
     pydict action" where
  "processor_call pk pr st text images videos audio kwargs s =
     (case prepare_call pk pr st text images videos audio kwargs s of
        (r, s') \<Rightarrow> (rbind r (finish_call pk (dict_get kwargs ''return_tensors'' PyNone)), s'))"

section \<open>Prompts and inputs fit\<close>

text \<open>An integer tensor of the inputs, with no rows when it is missing\<close>

definition input_rows :: "string \<Rightarrow> pydict \<Rightarrow> int list list res" where
  "input_rows key data = (case map_of data key of None \<Rightarrow> Inr [] | Some v \<Rightarrow> int_rows v)"

definition input_grids :: "string \<Rightarrow> pydict \<Rightarrow> (int \<times> int \<times> int) list res" where
  "input_grids key data = rbind (input_rows key data) (map_res grid_row)"

text \<open>
  What the package documents of the dictionaries it returns: no two entries of one have the same key,
  each kind of input has its own keys, and the conversion to tensors keeps the numbers of an entry and
  the truth of the switch.
\<close>

definition input_keys :: "string list" where
  "input_keys = [''input_ids'', ''feature_attention_mask'', ''image_grid_thw'', ''video_grid_thw'', ''use_audio_in_video'']"

definition has_own_keys :: "string list \<Rightarrow> pydict \<Rightarrow> bool" where
  "has_own_keys own_keys d \<longleftrightarrow> distinct (map fst d) \<and> (\<forall>k \<in> set input_keys - set own_keys. map_of d k = None)"

definition same_inputs :: "pydict \<Rightarrow> pydict \<Rightarrow> bool" where
  "same_inputs d d' \<longleftrightarrow> (\<forall>k. input_rows k d' = input_rows k d) \<and>
     truthy (dict_get d' ''use_audio_in_video'' PyNone) = truthy (dict_get d ''use_audio_in_video'' PyNone)"

definition separate_outputs :: "package \<Rightarrow> bool" where
  "separate_outputs pk \<longleftrightarrow>
     (\<forall>a kw d. feature_extractor pk a kw = Inr d \<longrightarrow> has_own_keys [] d) \<and>
     (\<forall>i kw d. image_processor pk i kw = Inr d \<longrightarrow> has_own_keys [''image_grid_thw''] d) \<and>
     (\<forall>attrs v kw s d mds s'. video_processor pk attrs v kw s = (Inr (d, mds), s') \<longrightarrow> has_own_keys [''video_grid_thw''] d) \<and>
     (\<forall>ts kw d. tokenize pk ts kw = Inr d \<longrightarrow> has_own_keys [''input_ids''] d) \<and>
     (\<forall>d tensor_type d'. batch_feature pk d tensor_type = Inr d' \<longrightarrow> same_inputs d d')"

lemma has_own_keys_Nil [simp]: "has_own_keys ks []"
  by (simp add: has_own_keys_def)

lemma has_own_keys_absent: "has_own_keys ks d \<Longrightarrow> k \<in> set input_keys \<Longrightarrow> k \<notin> set ks \<Longrightarrow> map_of d k = None"
  by (simp add: has_own_keys_def)

lemma has_own_keys_set:
  "has_own_keys ks d \<Longrightarrow> k \<notin> set input_keys - set ks \<Longrightarrow> has_own_keys ks (dict_set k v d)"
  by (auto simp: has_own_keys_def distinct_update)

lemma has_own_keys_del: "has_own_keys ks d \<Longrightarrow> has_own_keys ks (dict_del k d)"
  by (auto simp: has_own_keys_def distinct_delete)

lemma has_own_keys_mono: "has_own_keys ks d \<Longrightarrow> set ks \<subseteq> set ks' \<Longrightarrow> has_own_keys ks' d"
  by (auto simp: has_own_keys_def)

lemma call_audio_result:
  assumes "call_audio pk opts audio = Inr (data, lengths)" and "separate_outputs pk"
  shows "has_own_keys [''feature_attention_mask''] data"
    and "\<exists>rows. input_rows ''feature_attention_mask'' data = Inr rows \<and>
      lengths = map (\<lambda>r. get_feat_extract_output_lengths (sum_list r)) rows"
proof -
  have "has_own_keys [''feature_attention_mask''] data \<and> (\<exists>rows. input_rows ''feature_attention_mask'' data = Inr rows \<and>
      lengths = map (\<lambda>r. get_feat_extract_output_lengths (sum_list r)) rows)"
  proof (cases "audio = PyNone")
    case True
    with assms(1) show ?thesis by (simp add: call_audio_def input_rows_def)
  next
    case False
    with assms(1) obtain d0 m v rows where
      d0: "feature_extractor pk audio (dict_set ''padding'' (PyBool True) (audio_kwargs opts)) = Inr d0"
      and data: "data = dict_set ''input_features'' v (dict_del ''input_features''
         (dict_set ''feature_attention_mask'' m (dict_del ''attention_mask'' d0)))"
      and rows: "int_rows (dict_get data ''feature_attention_mask'' PyNone) = Inr rows"
      and lengths: "lengths = map (\<lambda>r. get_feat_extract_output_lengths (sum_list r)) rows"
      by (auto simp: call_audio_def rename_entry_def dict_pop_def res_iffs)
    from d0 assms(2) have "has_own_keys [] d0" unfolding separate_outputs_def by blast
    then have "has_own_keys [''feature_attention_mask''] d0" by (rule has_own_keys_mono) simp
    then have "has_own_keys [''feature_attention_mask''] data"
      unfolding data by (intro has_own_keys_set has_own_keys_del) (auto simp: input_keys_def)
    moreover have "input_rows ''feature_attention_mask'' data = Inr rows"
      using rows by (simp add: input_rows_def data)
    ultimately show ?thesis using lengths by blast
  qed
  then show "has_own_keys [''feature_attention_mask''] data"
    and "\<exists>rows. input_rows ''feature_attention_mask'' data = Inr rows \<and>
      lengths = map (\<lambda>r. get_feat_extract_output_lengths (sum_list r)) rows" by blast+
qed

lemma grids_of_input: "grids_of key d = Inr gs \<Longrightarrow> input_grids key d = Inr gs"
  by (auto simp: grids_of_def input_grids_def input_rows_def res_iffs)

lemma call_images_result:
  assumes "call_images pk opts images = Inr (data, gs)" and "separate_outputs pk"
  shows "has_own_keys [''image_grid_thw''] data \<and> input_grids ''image_grid_thw'' data = Inr gs"
proof (cases "images = PyNone")
  case True
  with assms(1) show ?thesis by (simp add: call_images_def input_grids_def input_rows_def)
next
  case False
  with assms(1) obtain kw where "image_processor pk (normalize_media_paths images) kw = Inr data"
    and "grids_of ''image_grid_thw'' data = Inr gs"
    by (auto simp: call_images_def res_iffs)
  with assms(2) show ?thesis by (simp add: separate_outputs_def grids_of_input)
qed

lemma force_backend_result:
  assumes "force_transformers_video_backend q backend body s = (Inr x, s')"
  shows "\<exists>s1 s2. body s1 = (Inr x, s2)"
  using assms
  by (auto simp: force_transformers_video_backend_def Let_def split: option.splits prod.splits)

lemma call_videos_result:
  assumes "call_videos pk st tps opts videos s = (Inr vs, s')" and "separate_outputs pk"
  shows "has_own_keys [''video_grid_thw''] (videos_data vs) \<and> input_grids ''video_grid_thw'' (videos_data vs) = Inr (grids vs)"
proof (cases "videos = PyNone")
  case True
  with assms(1) have "vs = \<lparr>videos_data = [], grids = [], second_per_grid = [], metadata = []\<rparr>" by (simp add: call_videos_def)
  then show ?thesis by (simp add: input_grids_def input_rows_def)
next
  case False
  let ?attrs = "fold (\<lambda>(key, n). dict_set key (PyInt n)) (video_frame_limits opts) (video_processor_attrs st)"
  let ?body = "video_processor pk ?attrs (normalize_media_paths videos) (videos_kwargs opts)"
  from False assms(1) obtain d mds mds' seconds where
    run: "force_transformers_video_backend (qwen3_vl_importable pk) (video_backend (own opts)) ?body s = (Inr (d, mds), s')"
    and gs: "grids_of ''video_grid_thw'' (videos_data vs) = Inr (grids vs)"
    and data: "videos_data vs = add_video_data (return_video_metadata opts) mds' seconds d"
    by (auto simp: call_videos_def Let_def res_iffs split: prod.splits)
  from force_backend_result [OF run] assms(2) have "has_own_keys [''video_grid_thw''] d"
    unfolding separate_outputs_def by blast
  then have "has_own_keys [''video_grid_thw''] (videos_data vs)"
    unfolding data add_video_data_def Let_def by (auto intro!: has_own_keys_set has_own_keys_del simp: input_keys_def)
  with gs show ?thesis by (simp add: grids_of_input)
qed

lemma collect_inputs_entries:
  assumes "has_own_keys [''input_ids''] texts" and "has_own_keys [''image_grid_thw''] images"
    and "has_own_keys [''video_grid_thw''] videos" and "has_own_keys [''feature_attention_mask''] audio"
  shows "map_of (collect_inputs texts images videos audio u) ''feature_attention_mask'' = map_of audio ''feature_attention_mask''"
    and "map_of (collect_inputs texts images videos audio u) ''image_grid_thw'' = map_of images ''image_grid_thw''"
    and "map_of (collect_inputs texts images videos audio u) ''video_grid_thw'' = map_of videos ''video_grid_thw''"
    and "map_of (collect_inputs texts images videos audio u) ''use_audio_in_video'' = Some u"
    and "map_of (collect_inputs texts images videos audio u) ''input_ids'' = map_of texts ''input_ids''"
  using assms by (auto simp: collect_inputs_def map_of_dict_update has_own_keys_def input_keys_def map_add_def split: option.split)

text \<open>The stages of a call that returns, and the inputs it returns in terms of the stages\<close>

lemma prepare_call_result:
  assumes "prepare_call pk pr st (Some t) images videos audio kwargs s = (Inr c, s')" and "separate_outputs pk"
  obtains rows image_grids video_grids md per_seconds where
    "replace_multimodal_special_tokens pr md (truthy (use_audio_value c)) per_seconds (prompt_list t) = Inr (processed_text c)"
    and "has_own_keys [''feature_attention_mask''] (audio_inputs c)" and "has_own_keys [''image_grid_thw''] (images_inputs c)"
    and "has_own_keys [''video_grid_thw''] (videos_inputs c)"
    and "input_rows ''feature_attention_mask'' (audio_inputs c) = Inr rows"
    and "input_grids ''image_grid_thw'' (images_inputs c) = Inr image_grids"
    and "input_grids ''video_grid_thw'' (videos_inputs c) = Inr video_grids"
    and "audio_lengths md = map (\<lambda>r. get_feat_extract_output_lengths (sum_list r)) rows"
    and "image_grid_thw md = image_grids" and "video_grid_thw md = video_grids"
proof -
  from assms(1) obtain opts where run: "prepare_with pk pr st opts (prompt_list t) images videos audio s = (Inr c, s')"
    by (auto simp: prepare_call_def split: sum.splits)
  then obtain lengths image_grids vs where
    media: "call_audio pk opts audio = Inr (audio_inputs c, lengths)" "call_images pk opts images = Inr (images_inputs c, image_grids)"
      "call_videos pk st (temporal_patch_size pr) opts videos s = (Inr vs, s')"
    and prompt: "call_text pk pr opts (prompt_list t) lengths image_grids vs = Inr (processed_text c)"
    and c: "videos_inputs c = videos_data vs" "use_audio_value c = use_audio_in_video (own opts)"
    by (auto simp: prepare_with_def rbind_eq_Inr split: sum.splits prod.splits)
  note a = call_audio_result [OF media(1) assms(2)] and i = call_images_result [OF media(2) assms(2)]
    and v = call_videos_result [OF media(3) assms(2)]
  from prompt obtain per_seconds where expanded: "replace_multimodal_special_tokens pr
      \<lparr>audio_lengths = lengths, image_grid_thw = image_grids, video_grid_thw = grids vs,
       video_second_per_grid = second_per_grid vs,
       video_metadatas = map (\<lambda>md. Some (video_metadata.truncate md)) (metadata vs)\<rparr>
      (truthy (use_audio_value c)) per_seconds (prompt_list t) = Inr (processed_text c)"
    by (auto simp: call_text_def rbind_eq_Inr Let_def c)
  from a(2) obtain rows where rows: "input_rows ''feature_attention_mask'' (audio_inputs c) = Inr rows"
    "lengths = map (\<lambda>r. get_feat_extract_output_lengths (sum_list r)) rows" by blast
  show thesis
    by (rule that [OF expanded a(1), of rows image_grids "grids vs"]) (use rows i v in \<open>simp_all add: c\<close>)
qed

lemma processor_call_result:
  assumes "processor_call pk pr st (Some t) images videos audio kwargs s = (Inr data, s')" and "separate_outputs pk"
  obtains c texts_inputs rows image_grids video_grids md per_seconds u where
    "prepare_call pk pr st (Some t) images videos audio kwargs s = (Inr c, s')"
    and "tokenize pk (processed_text c) (tokenizer_kwargs c) = Inr texts_inputs"
    and "input_rows ''input_ids'' data = input_rows ''input_ids'' texts_inputs"
    and "replace_multimodal_special_tokens pr md u per_seconds (prompt_list t) = Inr (processed_text c)"
    and "input_rows ''feature_attention_mask'' data = Inr rows" and "input_grids ''image_grid_thw'' data = Inr image_grids"
    and "input_grids ''video_grid_thw'' data = Inr video_grids" and "u = truthy (dict_get data ''use_audio_in_video'' PyNone)"
    and "audio_lengths md = map (\<lambda>r. get_feat_extract_output_lengths (sum_list r)) rows"
    and "image_grid_thw md = image_grids" and "video_grid_thw md = video_grids"
proof -
  from assms(1) obtain c where c: "prepare_call pk pr st (Some t) images videos audio kwargs s = (Inr c, s')"
    and fin: "finish_call pk (dict_get kwargs ''return_tensors'' PyNone) c = Inr data"
    by (auto simp: processor_call_def rbind_eq_Inr split: prod.splits)
  define d where "d texts = collect_inputs texts (images_inputs c) (videos_inputs c) (audio_inputs c) (use_audio_value c)"
    for texts
  from fin obtain texts_inputs where tok: "tokenize pk (processed_text c) (tokenizer_kwargs c) = Inr texts_inputs"
    and bf: "batch_feature pk (d texts_inputs) (dict_get kwargs ''return_tensors'' PyNone) = Inr data"
    by (auto simp: finish_call_def rbind_eq_Inr d_def)
  have same: "same_inputs (d texts_inputs) data" and own: "has_own_keys [''input_ids''] texts_inputs"
    using assms(2) bf tok unfolding separate_outputs_def by blast+
  from prepare_call_result [OF c assms(2)] obtain rows image_grids video_grids md per_seconds where
    p: "replace_multimodal_special_tokens pr md (truthy (use_audio_value c)) per_seconds (prompt_list t) = Inr (processed_text c)"
      "has_own_keys [''feature_attention_mask''] (audio_inputs c)" "has_own_keys [''image_grid_thw''] (images_inputs c)"
      "has_own_keys [''video_grid_thw''] (videos_inputs c)"
      "input_rows ''feature_attention_mask'' (audio_inputs c) = Inr rows"
      "input_grids ''image_grid_thw'' (images_inputs c) = Inr image_grids"
      "input_grids ''video_grid_thw'' (videos_inputs c) = Inr video_grids"
      "audio_lengths md = map (\<lambda>r. get_feat_extract_output_lengths (sum_list r)) rows"
      "image_grid_thw md = image_grids" "video_grid_thw md = video_grids"
    by metis
  note entries = collect_inputs_entries [OF own p(3,4,2), of "use_audio_value c", folded d_def]
  have "input_rows k data = input_rows k (d texts_inputs)" for k using same by (simp add: same_inputs_def)
  note conv = this
  have "truthy (use_audio_value c) = truthy (dict_get data ''use_audio_in_video'' PyNone)"
    using same by (simp add: same_inputs_def dict_get_def entries)
  moreover have "input_rows ''input_ids'' data = input_rows ''input_ids'' texts_inputs"
    and a: "input_rows ''feature_attention_mask'' data = input_rows ''feature_attention_mask'' (audio_inputs c)"
    and i: "input_grids ''image_grid_thw'' data = input_grids ''image_grid_thw'' (images_inputs c)"
    and v: "input_grids ''video_grid_thw'' data = input_grids ''video_grid_thw'' (videos_inputs c)"
    unfolding input_grids_def conv by (simp_all add: input_rows_def entries)
  ultimately show thesis using that c tok p(1) p(5-7) [folded a i v] p(8-10) by metis
qed

lemma call_marker_counts:
  assumes call: "processor_call pk pr st (Some t) images videos audio kwargs s = (Inr data, s')"
    and pk: "separate_outputs pk" and tokens: "markers_ok (tokens_of pr)"
    and prompts: "list_all (plain_prompt (tokens_of pr)) (prompt_list t)" "\<not> list_all (\<lambda>s. s = []) (prompt_list t)"
    and data: "input_rows ''feature_attention_mask'' data = Inr rows" "input_grids ''image_grid_thw'' data = Inr image_grids"
      "input_grids ''video_grid_thw'' data = Inr video_grids"
    and positive: "list_all (\<lambda>r. 0 < sum_list r) rows" "list_all (\<lambda>thw. 0 < image_seq_length pr thw) image_grids"
      "list_all (\<lambda>thw. 0 < fst thw) video_grids"
  shows "\<exists>c texts_inputs.
    prepare_call pk pr st (Some t) images videos audio kwargs s = (Inr c, s') \<and>
    tokenize pk (processed_text c) (tokenizer_kwargs c) = Inr texts_inputs \<and>
    input_rows ''input_ids'' data = input_rows ''input_ids'' texts_inputs \<and>
    length (processed_text c) = length (prompt_list t) \<and>
    (\<Sum>r\<leftarrow>processed_text c. count_list (lexemes r) (audio_token (tokens_of pr))) =
      (\<Sum>r\<leftarrow>rows. nat (get_feat_extract_output_lengths (sum_list r))) \<and>
    (\<Sum>r\<leftarrow>processed_text c. count_list (lexemes r) (image_token (tokens_of pr))) =
      (\<Sum>thw\<leftarrow>image_grids. nat (image_seq_length pr thw)) \<and>
    (\<Sum>r\<leftarrow>processed_text c. count_list (lexemes r) (video_token (tokens_of pr))) =
      (\<Sum>thw\<leftarrow>video_grids. nat (fst thw) *
         nat (video_tokens_per_grid (video_merge_size pr) (truthy (dict_get data ''use_audio_in_video'' PyNone)) thw))"
proof -
  obtain c texts_inputs rows' image_grids' video_grids' md per_seconds u where
    c: "prepare_call pk pr st (Some t) images videos audio kwargs s = (Inr c, s')"
      "tokenize pk (processed_text c) (tokenizer_kwargs c) = Inr texts_inputs"
      "input_rows ''input_ids'' data = input_rows ''input_ids'' texts_inputs"
    and expanded: "replace_multimodal_special_tokens pr md u per_seconds (prompt_list t) = Inr (processed_text c)"
    and data': "input_rows ''feature_attention_mask'' data = Inr rows'" "input_grids ''image_grid_thw'' data = Inr image_grids'"
      "input_grids ''video_grid_thw'' data = Inr video_grids'"
    and u: "u = truthy (dict_get data ''use_audio_in_video'' PyNone)"
    and md': "audio_lengths md = map (\<lambda>r. get_feat_extract_output_lengths (sum_list r)) rows'"
      "image_grid_thw md = image_grids'" "video_grid_thw md = video_grids'"
    by (rule processor_call_result [OF call pk]) blast
  from data data' md' have md: "audio_lengths md = map (\<lambda>r. get_feat_extract_output_lengths (sum_list r)) rows"
      "image_grid_thw md = image_grids" "video_grid_thw md = video_grids"
    by simp_all
  have "0 < get_feat_extract_output_lengths n" if "0 < n" for n
    unfolding feat_closed_form
    using that by (cases "n < 100") (auto intro: add_pos_nonneg simp: pos_imp_zdiv_pos_iff pos_imp_zdiv_nonneg_iff)
  with positive have "sizes_ok pr md" by (auto simp: sizes_ok_def md list_all_iff)
  from batch_marker_counts [OF tokens this prompts expanded] c show ?thesis
    by (intro exI [of _ c] exI [of _ texts_inputs]) (simp add: md u comp_def)
qed

text \<open>
  C10: The inputs a call returns fit the prompts it tokenized. The token ids a call returns are the
  tokenizer's for the prompts that the call expanded; together these prompts hold as many audio markers
  as the output length of the frames counted by the returned mask, as many image markers as there are
  merged patches in the returned image grids, and as many video markers as there are merged patches in
  the returned video grids.
\<close>

theorem call_inputs_match_prompts:
  assumes call: "processor_call pk pr st (Some t) images videos audio kwargs s = (Inr data, s')"
    and pk: "separate_outputs pk" and tokens: "markers_ok (tokens_of pr)"
    and prompts: "list_all (plain_prompt (tokens_of pr)) (prompt_list t)" "\<not> list_all (\<lambda>s. s = []) (prompt_list t)"
    and data: "input_rows ''feature_attention_mask'' data = Inr rows" "input_grids ''image_grid_thw'' data = Inr image_grids"
      "input_grids ''video_grid_thw'' data = Inr video_grids"
    and positive: "list_all (\<lambda>r. 0 < sum_list r) rows" "list_all (\<lambda>thw. 0 < image_seq_length pr thw) image_grids"
      "list_all (\<lambda>thw. 0 < fst thw) video_grids"
  shows "\<exists>c texts_inputs.
    prepare_call pk pr st (Some t) images videos audio kwargs s = (Inr c, s') \<and>
    tokenize pk (processed_text c) (tokenizer_kwargs c) = Inr texts_inputs \<and>
    input_rows ''input_ids'' data = input_rows ''input_ids'' texts_inputs \<and>
    length (processed_text c) = length (prompt_list t) \<and>
    (\<Sum>r\<leftarrow>processed_text c. count_list (lexemes r) (audio_token (tokens_of pr))) =
      (\<Sum>r\<leftarrow>rows. nat (get_feat_extract_output_lengths (sum_list r))) \<and>
    (\<Sum>r\<leftarrow>processed_text c. count_list (lexemes r) (image_token (tokens_of pr))) =
      (\<Sum>thw\<leftarrow>image_grids. nat (image_seq_length pr thw)) \<and>
    (\<Sum>r\<leftarrow>processed_text c. count_list (lexemes r) (video_token (tokens_of pr))) =
      (\<Sum>thw\<leftarrow>video_grids. nat (fst thw) *
         nat (video_tokens_per_grid (video_merge_size pr) (truthy (dict_get data ''use_audio_in_video'' PyNone)) thw))"
  using assms by (rule call_marker_counts)

definition demo_objects :: package where
  "demo_objects = \<lparr>merge_kwargs = demo_merge, video_decoders = [''decord''], qwen3_vl_importable = False,
     feature_extractor = (\<lambda>_ _. Inr [(''attention_mask'', PyList [PyList (replicate 16 (PyInt 1))]), (''input_features'', PyList [])]),
     image_processor = (\<lambda>_ _. Inr [(''image_grid_thw'', PyList [PyList [PyInt 1, PyInt 2, PyInt 4]])]),
     video_processor = (\<lambda>_ _ _ s. (Inr ([], Some []), s)),
     tokenize = (\<lambda>ts _. Inr [(''input_ids'', PyList (map (\<lambda>t. PyList (map PyInt (demo_encode t))) ts))]),
     batch_feature = (\<lambda>d _. Inr d)\<rparr>"

lemma demo_objects_separate: "separate_outputs demo_objects"
  by (auto simp: separate_outputs_def demo_objects_def has_own_keys_def input_keys_def same_inputs_def)

definition demo_prompt :: string where
  "demo_prompt = ''<|audio_pad|><|audio_pad|>b<|image_pad|><|image_pad|>''"

definition demo_data :: pydict where
  "demo_data = [(''input_ids'', PyList [PyList (map PyInt (demo_encode demo_prompt))]),
    (''image_grid_thw'', PyList [PyList [PyInt 1, PyInt 2, PyInt 4]]),
    (''feature_attention_mask'', PyList [PyList (replicate 16 (PyInt 1))]), (''input_features'', PyList []),
    (''use_audio_in_video'', PyBool False)]"

lemma demo_call:
  "\<exists>s'. processor_call demo_objects demo_processor demo_settings (Some (Inl ''<|audio_pad|>b<|image_pad|>''))
     (PyStr ''file:///a.png'') PyNone (PyList []) [] demo_package = (Inr demo_data, s')"
proof -
  have "fst (processor_call demo_objects demo_processor demo_settings (Some (Inl ''<|audio_pad|>b<|image_pad|>''))
       (PyStr ''file:///a.png'') PyNone (PyList []) [] demo_package) = Inr demo_data"
    by code_simp
  then show ?thesis by (metis prod.collapse)
qed

lemma demo_image_length: "image_seq_length demo_processor (1, 2, 4) = 2"
  by (simp add: image_seq_length_def demo_processor_def)

lemma demo_prepared:
  "map_sum id processed_text (fst (prepare_call demo_objects demo_processor demo_settings
     (Some (Inl ''<|audio_pad|>b<|image_pad|>'')) (PyStr ''file:///a.png'') PyNone (PyList []) [] demo_package)) =
   Inr [demo_prompt]"
  by code_simp

lemma demo_call_plain:
  "list_all (plain_prompt (tokens_of demo_processor)) (prompt_list (Inl ''<|audio_pad|>b<|image_pad|>''))"
  "\<not> list_all (\<lambda>s. s = []) (prompt_list (Inl ''<|audio_pad|>b<|image_pad|>''))"
  by (simp_all add: prompt_list_def plain_prompt_def demo_pieces demo_token_values)

lemma demo_call_rows:
  "input_rows ''feature_attention_mask'' demo_data = Inr [replicate 16 1]"
  "input_grids ''image_grid_thw'' demo_data = Inr [(1, 2, 4)]" "input_grids ''video_grid_thw'' demo_data = Inr []"
  by code_simp+

theorem call_inputs_match_prompts_witness:
  "\<exists>c s' texts_inputs.
    processor_call demo_objects demo_processor demo_settings (Some (Inl ''<|audio_pad|>b<|image_pad|>''))
      (PyStr ''file:///a.png'') PyNone (PyList []) [] demo_package = (Inr demo_data, s') \<and>
    prepare_call demo_objects demo_processor demo_settings (Some (Inl ''<|audio_pad|>b<|image_pad|>''))
      (PyStr ''file:///a.png'') PyNone (PyList []) [] demo_package = (Inr c, s') \<and>
    processed_text c = [demo_prompt] \<and>
    tokenize demo_objects [demo_prompt] (tokenizer_kwargs c) = Inr texts_inputs \<and>
    input_rows ''input_ids'' demo_data = input_rows ''input_ids'' texts_inputs \<and>
    count_list (lexemes demo_prompt) ''<|audio_pad|>'' = 2 \<and> count_list (lexemes demo_prompt) ''<|image_pad|>'' = 2"
proof -
  obtain s' where run: "processor_call demo_objects demo_processor demo_settings (Some (Inl ''<|audio_pad|>b<|image_pad|>''))
       (PyStr ''file:///a.png'') PyNone (PyList []) [] demo_package = (Inr demo_data, s')"
    using demo_call by blast
  have sizes: "list_all (\<lambda>r. 0 < sum_list r) [replicate 16 (1 :: int)]" "list_all (\<lambda>thw. 0 < image_seq_length demo_processor thw) [(1, 2, 4)]"
    "list_all (\<lambda>thw. 0 < fst thw) ([] :: (int \<times> int \<times> int) list)"
    by (simp_all add: image_seq_length_def demo_processor_def sum_list_replicate)
  from call_inputs_match_prompts [OF run demo_objects_separate demo_markers_ok demo_call_plain demo_call_rows sizes]
  obtain c texts_inputs where c: "prepare_call demo_objects demo_processor demo_settings (Some (Inl ''<|audio_pad|>b<|image_pad|>''))
      (PyStr ''file:///a.png'') PyNone (PyList []) [] demo_package = (Inr c, s')"
    and tok: "tokenize demo_objects (processed_text c) (tokenizer_kwargs c) = Inr texts_inputs"
      "input_rows ''input_ids'' demo_data = input_rows ''input_ids'' texts_inputs"
    and counts: "(\<Sum>r\<leftarrow>processed_text c. count_list (lexemes r) ''<|audio_pad|>'') = 2"
      "(\<Sum>r\<leftarrow>processed_text c. count_list (lexemes r) ''<|image_pad|>'') = 2"
    by (auto simp: demo_token_values demo_image_length feat_closed_form sum_list_replicate)
  have "processed_text c = [demo_prompt]" using demo_prepared c by simp
  with run c tok counts show ?thesis by auto
qed

end
