(* ===== verification/Embedding_Merge.thy ===== *)
theory Embedding_Merge
  imports Audio_Encoder
begin

text \<open>
  Where the encoder outputs enter the prompt: the placeholder masks and the scatter of the
  Hugging Face model (\<open>modeling_tlive_omni.py\<close>, \<open>get_placeholder_mask\<close> and the first half of
  \<open>forward\<close>), and the vLLM model's \<open>embed_multimodal\<close>, \<open>embed_input_ids\<close> and
  \<open>_tlive_merge_embeddings_by_modality\<close> with the list of modalities that the model object
  keeps between the calls. An embedding row is a value of an arbitrary type.
\<close>

section \<open>Masks and scatter\<close>

text \<open>\<open>xs[mask]\<close>\<close>

definition masked_select :: "bool list \<Rightarrow> 'e list \<Rightarrow> 'e list" where
  "masked_select msk xs = map snd (filter fst (zip msk xs))"

text \<open>
  \<open>xs.masked_scatter(mask, source)\<close>: too few source rows raise, surplus rows are ignored.
\<close>

fun masked_scatter :: "bool list \<Rightarrow> 'e list \<Rightarrow> 'e list \<Rightarrow> 'e list res" where
  "masked_scatter (True # bs) (x # xs) (s # source) =
     rbind (masked_scatter bs xs source) (\<lambda>r. Inr (s # r))"
| "masked_scatter (True # bs) (x # xs) [] =
     Inl (RuntimeError ''shape mismatch in masked_scatter'')"
| "masked_scatter (False # bs) (x # xs) source =
     rbind (masked_scatter bs xs source) (\<lambda>r. Inr (x # r))"
| "masked_scatter _ xs source = Inr xs"

text \<open>\<open>mask.nonzero()\<close> and \<open>xs[positions] = rows\<close>\<close>

definition nonzero :: "bool list \<Rightarrow> nat list" where
  "nonzero msk = filter (\<lambda>i. msk ! i) [0..<length msk]"

definition put_rows :: "nat list \<Rightarrow> 'e list \<Rightarrow> 'e list \<Rightarrow> 'e list" where
  "put_rows positions rows xs = fold (\<lambda>(i, e) ys. ys[i := e]) (zip positions rows) xs"

section \<open>The Hugging Face model\<close>

text \<open>
  The masks come from the token ids or, without ids, from comparing each embedding with the
  embedding of the placeholder token.
\<close>

definition token_mask :: "(int \<Rightarrow> 'e) \<Rightarrow> int list option \<Rightarrow> 'e list \<Rightarrow> int \<Rightarrow> bool list" where
  "token_mask embed_token input_ids inputs_embeds tok =
     (case input_ids of
        None \<Rightarrow> map (\<lambda>e. e = embed_token tok) inputs_embeds
      | Some ids \<Rightarrow> map (\<lambda>x. x = tok) ids)"

text \<open>
  \<open>mask.unsqueeze(-1).expand_as(inputs_embeds)\<close>: a mask of one position is repeated, any other
  length than that of the embeddings raises.
\<close>

definition expand_as :: "bool list \<Rightarrow> 'e list \<Rightarrow> bool list res" where
  "expand_as msk inputs_embeds =
     (if length msk = length inputs_embeds then Inr msk
      else if length msk = 1 then Inr (replicate (length inputs_embeds) (hd msk))
      else Inl (RuntimeError ''expand_as''))"

definition get_placeholder_mask ::
    "'z TLiveOmniTokenIds_scheme \<Rightarrow> (int \<Rightarrow> 'e) \<Rightarrow> int list option \<Rightarrow> 'e list \<Rightarrow> 'e list option \<Rightarrow>
     'e list option \<Rightarrow> (bool list \<times> bool list \<times> bool list) res" where
  "get_placeholder_mask cfg embed_token input_ids inputs_embeds image_features video_features =
     rbind (expand_as (token_mask embed_token input_ids inputs_embeds (image_token_id cfg)) inputs_embeds)
       (\<lambda>special_image_mask.
     rbind (require (case image_features of None \<Rightarrow> True
              | Some fs \<Rightarrow> length (masked_select special_image_mask inputs_embeds) = length fs)
            (ValueError ''Image features and image tokens do not match'')) (\<lambda>_.
     rbind (expand_as (token_mask embed_token input_ids inputs_embeds (video_token_id cfg)) inputs_embeds)
       (\<lambda>special_video_mask.
     rbind (require (case video_features of None \<Rightarrow> True
              | Some fs \<Rightarrow> length (masked_select special_video_mask inputs_embeds) = length fs)
            (ValueError ''Videos features and image tokens do not match'')) (\<lambda>_.
     rbind (expand_as (token_mask embed_token input_ids inputs_embeds (audio_token_id cfg)) inputs_embeds)
       (\<lambda>special_audio_mask.
     Inr (special_image_mask, special_video_mask, special_audio_mask))))))"

text \<open>
  The audio features: the valid frames of each row of the batch, and their number, are read
  off the attention mask. Without a mask the length argument is discarded and the mask is
  read nevertheless: an attribute access on \<open>None\<close>.
\<close>

definition get_audio_features ::
    "('f list \<Rightarrow> int list \<Rightarrow> 'e list res) \<Rightarrow> 'f list list \<Rightarrow> bool list list option \<Rightarrow>
     int list option \<Rightarrow> 'e list res" where
  "get_audio_features audio_tower input_features feature_attention_mask audio_feature_lengths =
     (case feature_attention_mask of
        Some msk \<Rightarrow>
          let lengths = map (\<lambda>row. int (count_list row True)) msk;
              valid_frames = concat (map2 masked_select msk input_features)
          in audio_tower valid_frames lengths
      | None \<Rightarrow> Inl (AttributeError ''NoneType object has no attribute sum''))"

text \<open>\<open>torch.split\<close> into the rows of each item: the product of its grid over the merge area.\<close>

definition vision_split_sizes :: "int \<Rightarrow> (int \<times> int \<times> int) list \<Rightarrow> int list" where
  "vision_split_sizes merge_size grids = map (\<lambda>(t, h, w). (t * h * w) div merge_size ^ 2) grids"

definition get_image_features ::
    "('p \<Rightarrow> (int \<times> int \<times> int) list \<Rightarrow> 'e list) \<Rightarrow> int \<Rightarrow> 'p \<Rightarrow> (int \<times> int \<times> int) list \<Rightarrow> 'e list list res" where
  "get_image_features visual merge_size pixel_values grids =
     rbind (require (merge_size \<noteq> 0 \<or> grids = []) (RuntimeError ''ZeroDivisionError'')) (\<lambda>_.
     split_sizes (visual pixel_values grids) (vision_split_sizes merge_size grids))"

text \<open>
  The embedding half of \<open>forward\<close>: audio first, then images, then videos, each scattered into
  the result of the one before.
\<close>

record ('f, 'p) forward_inputs =
  input_features :: "'f list list option"
  feature_attention_mask :: "bool list list option"
  audio_feature_lengths :: "int list option"
  pixel_values :: "'p option"
  image_grid_thw :: "(int \<times> int \<times> int) list"
  pixel_values_videos :: "'p option"
  video_grid_thw :: "(int \<times> int \<times> int) list"

definition audio_stage ::
    "'z TLiveOmniTokenIds_scheme \<Rightarrow> (int \<Rightarrow> 'e) \<Rightarrow> ('f list \<Rightarrow> int list \<Rightarrow> 'e list res) \<Rightarrow> int list option \<Rightarrow>
     ('f, 'p) forward_inputs \<Rightarrow> 'e list \<Rightarrow> 'e list res" where
  "audio_stage cfg embed_token audio_tower input_ids inp inputs_embeds =
     (case input_features inp of
        None \<Rightarrow> Inr inputs_embeds
      | Some feats \<Rightarrow>
          rbind (get_audio_features audio_tower feats (feature_attention_mask inp)
                   (audio_feature_lengths inp)) (\<lambda>audio_features.
          rbind (get_placeholder_mask cfg embed_token input_ids inputs_embeds None None)
            (\<lambda>(_, _, audio_mask). masked_scatter audio_mask inputs_embeds audio_features)))"

definition image_stage ::
    "'z TLiveOmniTokenIds_scheme \<Rightarrow> (int \<Rightarrow> 'e) \<Rightarrow> ('p \<Rightarrow> (int \<times> int \<times> int) list \<Rightarrow> 'e list) \<Rightarrow> int \<Rightarrow>
     int list option \<Rightarrow> ('f, 'p) forward_inputs \<Rightarrow> 'e list \<Rightarrow> 'e list res" where
  "image_stage cfg embed_token visual merge_size input_ids inp inputs_embeds =
     (case pixel_values inp of
        None \<Rightarrow> Inr inputs_embeds
      | Some pv \<Rightarrow>
          rbind (get_image_features visual merge_size pv (image_grid_thw inp)) (\<lambda>chunks.
          rbind (get_placeholder_mask cfg embed_token input_ids inputs_embeds (Some (concat chunks)) None)
            (\<lambda>(image_mask, _, _). masked_scatter image_mask inputs_embeds (concat chunks))))"

definition video_stage ::
    "'z TLiveOmniTokenIds_scheme \<Rightarrow> (int \<Rightarrow> 'e) \<Rightarrow> ('p \<Rightarrow> (int \<times> int \<times> int) list \<Rightarrow> 'e list) \<Rightarrow> int \<Rightarrow>
     int list option \<Rightarrow> ('f, 'p) forward_inputs \<Rightarrow> 'e list \<Rightarrow> 'e list res" where
  "video_stage cfg embed_token visual merge_size input_ids inp inputs_embeds =
     (case pixel_values_videos inp of
        None \<Rightarrow> Inr inputs_embeds
      | Some pv \<Rightarrow>
          rbind (get_image_features visual merge_size pv (video_grid_thw inp)) (\<lambda>chunks.
          rbind (get_placeholder_mask cfg embed_token input_ids inputs_embeds None (Some (concat chunks)))
            (\<lambda>(_, video_mask, _). masked_scatter video_mask inputs_embeds (concat chunks))))"

text \<open>Embeddings that the caller supplies are used as they are, with or without ids.\<close>

definition initial_embeds :: "(int \<Rightarrow> 'e) \<Rightarrow> int list option \<Rightarrow> 'e list option \<Rightarrow> 'e list res" where
  "initial_embeds embed_token input_ids inputs_embeds =
     (case inputs_embeds of
        Some es \<Rightarrow> Inr es
      | None \<Rightarrow>
          (case input_ids of
             Some ids \<Rightarrow> Inr (map embed_token ids)
           | None \<Rightarrow> Inl (TypeError ''embedding(): argument indices must be Tensor, not NoneType'')))"

definition forward_embeds ::
    "'z TLiveOmniTokenIds_scheme \<Rightarrow> (int \<Rightarrow> 'e) \<Rightarrow> ('f list \<Rightarrow> int list \<Rightarrow> 'e list res) \<Rightarrow>
     ('p \<Rightarrow> (int \<times> int \<times> int) list \<Rightarrow> 'e list) \<Rightarrow> int \<Rightarrow> int list option \<Rightarrow> 'e list option \<Rightarrow>
     ('f, 'p) forward_inputs \<Rightarrow> 'e list res" where
  "forward_embeds cfg embed_token audio_tower visual merge_size input_ids given_embeds inp =
     rbind (initial_embeds embed_token input_ids given_embeds) (\<lambda>inputs_embeds.
     rbind (audio_stage cfg embed_token audio_tower input_ids inp inputs_embeds) (\<lambda>inputs_embeds.
     rbind (image_stage cfg embed_token visual merge_size input_ids inp inputs_embeds) (\<lambda>inputs_embeds.
     video_stage cfg embed_token visual merge_size input_ids inp inputs_embeds)))"

section \<open>The vLLM model\<close>

definition token_ids :: "'z TLiveOmniTokenIds_scheme \<Rightarrow> (string \<times> int) list" where
  "token_ids cfg = [(''image'', image_token_id cfg), (''video'', video_token_id cfg),
     (''audio'', audio_token_id cfg)]"

definition modality_mask :: "int list \<Rightarrow> bool list \<Rightarrow> int \<Rightarrow> bool list" where
  "modality_mask input_ids is_multimodal tok = map2 (\<lambda>b x. b \<and> x = tok) is_multimodal input_ids"

definition token_counts ::
    "'z TLiveOmniTokenIds_scheme \<Rightarrow> int list \<Rightarrow> bool list \<Rightarrow> (string \<times> nat) list" where
  "token_counts cfg input_ids is_multimodal =
     map (\<lambda>(m, tok). (m, count_list (modality_mask input_ids is_multimodal tok) True)) (token_ids cfg)"

text \<open>The rows that an assignment of modalities to chunks gives to a modality.\<close>

definition chunks_of :: "string list \<Rightarrow> 'e list list \<Rightarrow> string \<Rightarrow> 'e list list" where
  "chunks_of ms embeddings m = map snd (filter (\<lambda>(k, _). k = m) (zip ms embeddings))"

definition assigned_count :: "string list \<Rightarrow> 'e list list \<Rightarrow> string \<Rightarrow> nat" where
  "assigned_count ms embeddings m = sum_list (map length (chunks_of ms embeddings m))"

definition is_valid_assignment ::
    "(string \<times> nat) list \<Rightarrow> 'e list list \<Rightarrow> string list \<Rightarrow> bool" where
  "is_valid_assignment counts embeddings candidate =
     (length candidate = length embeddings \<and>
      list_all (\<lambda>m. m \<in> fst ` set counts) candidate \<and>
      list_all (\<lambda>(m, n). n > 0 \<or> assigned_count candidate embeddings m > 0 \<longrightarrow>
                  assigned_count candidate embeddings m = n) counts)"

text \<open>
  The search for the window of recorded modalities that fits the chunks. The attribute may be
  missing on the object (\<open>None\<close>). The result is the choice, if there is one, and the
  attribute after the search.
\<close>

definition count_of :: "(string \<times> nat) list \<Rightarrow> string \<Rightarrow> nat" where
  "count_of counts m = (case map_of counts m of None \<Rightarrow> 0 | Some n \<Rightarrow> n)"

definition search_window ::
    "(string \<times> nat) list \<Rightarrow> 'e list list \<Rightarrow> string list option \<Rightarrow> string list option \<times> string list option" where
  "search_window counts embeddings recorded =
     (case recorded of
        None \<Rightarrow> (None, None)
      | Some all_modalities \<Rightarrow>
          if length all_modalities < length embeddings then (Some all_modalities, recorded)
          else
            let w = length embeddings in
            case List.find (\<lambda>start. is_valid_assignment counts embeddings (take w (drop start all_modalities)))
                   [0..<length all_modalities - w + 1] of
              Some start \<Rightarrow> (Some (take w (drop start all_modalities)),
                             Some (drop (start + w) all_modalities))
            | None \<Rightarrow>
                if length all_modalities = w \<and>
                   list_all (\<lambda>m. m \<in> fst ` set counts \<and> count_of counts m > 0) all_modalities
                then (Some all_modalities, recorded)
                else (None, recorded))"

fun first_some :: "('a \<Rightarrow> 'b option) \<Rightarrow> 'a list \<Rightarrow> 'b option" where
  "first_some f [] = None"
| "first_some f (x # xs) = (case f x of Some y \<Rightarrow> Some y | None \<Rightarrow> first_some f xs)"

text \<open>The depth-first search for an assignment that gives every modality its number of rows.\<close>

primrec backtrack ::
    "(string \<Rightarrow> nat) \<Rightarrow> string list \<Rightarrow> nat list \<Rightarrow> (string \<Rightarrow> nat) \<Rightarrow> string list \<Rightarrow> string list option" where
  "backtrack count present [] assigned assignment =
     (if list_all (\<lambda>m. assigned m = count m) present then Some assignment else None)"
| "backtrack count present (rows # rest) assigned assignment =
     first_some (\<lambda>m.
        let next_count = assigned m + rows
        in if next_count > count m then None
           else backtrack count present rest (assigned(m := next_count)) (assignment @ [m]))
       present"

definition present_modalities :: "(string \<times> nat) list \<Rightarrow> string list" where
  "present_modalities counts = map fst (filter (\<lambda>(m, n). n > 0) counts)"

definition infer_modalities :: "(string \<times> nat) list \<Rightarrow> 'e list list \<Rightarrow> string list" where
  "infer_modalities counts embeddings =
     (let present = present_modalities counts
      in if length present = 1 then replicate (length embeddings) (hd present)
         else case backtrack (count_of counts) present (map length embeddings) (\<lambda>_. 0) [] of
                None \<Rightarrow> []
              | Some ms \<Rightarrow> ms)"

text \<open>The keys of \<open>embeddings_by_modality\<close> in the order in which they were inserted.\<close>

definition first_occurrences :: "'a list \<Rightarrow> 'a list" where
  "first_occurrences xs = rev (remdups (rev xs))"

definition assign_rows ::
    "'z TLiveOmniTokenIds_scheme \<Rightarrow> int list \<Rightarrow> bool list \<Rightarrow> string list \<Rightarrow> 'e list list \<Rightarrow> string \<Rightarrow>
     'e list \<Rightarrow> 'e list res" where
  "assign_rows cfg input_ids is_multimodal ms embeddings m merged =
     (case map_of (token_ids cfg) m of
        None \<Rightarrow> Inl (ValueError ''Unsupported multimodal embedding modality'')
      | Some tok \<Rightarrow>
          let positions = nonzero (modality_mask input_ids is_multimodal tok);
              rows = concat (chunks_of ms embeddings m)
          in if length rows \<noteq> length positions
             then Inl (ValueError ''embedding/token count mismatch'')
             else Inr (put_rows positions rows merged))"

definition tlive_merge_embeddings_by_modality ::
    "'z TLiveOmniTokenIds_scheme \<Rightarrow> string list option \<Rightarrow> 'e list \<Rightarrow> int list \<Rightarrow> 'e list list \<Rightarrow> bool list \<Rightarrow>
     'e list res \<times> string list option" where
  "tlive_merge_embeddings_by_modality cfg recorded inputs_embeds input_ids embeddings is_multimodal =
     (let counts = token_counts cfg input_ids is_multimodal;
          (choice, recorded') = search_window counts embeddings recorded;
          modalities = (case choice of
              Some ms \<Rightarrow> if length ms = length embeddings then ms else infer_modalities counts embeddings
            | None \<Rightarrow> infer_modalities counts embeddings)
      in if length modalities \<noteq> length embeddings
         then (Inl (ValueError ''Missing modality metadata for multimodal embeddings''), recorded')
         else case fold_res (assign_rows cfg input_ids is_multimodal modalities embeddings)
                     (first_occurrences modalities) inputs_embeds of
                Inl e \<Rightarrow> (Inl e, recorded')
              | Inr merged \<Rightarrow> (Inr merged, Some []))"

text \<open>The modalities of a call, in the order in which their keyword arguments come.\<close>

definition key_modality :: "string \<Rightarrow> string option" where
  "key_modality key =
     (if key \<in> {''pixel_values'', ''image_embeds''} then Some ''image''
      else if key \<in> {''pixel_values_videos'', ''video_embeds''} then Some ''video''
      else if key = ''input_audio_features'' then Some ''audio''
      else None)"

definition mm_input_modalities :: "string list \<Rightarrow> string list" where
  "mm_input_modalities keys = first_occurrences (List.map_filter key_modality keys)"

text \<open>The split of an encoder's output into the rows of each item.\<close>

definition process_vision_input ::
    "('p \<Rightarrow> (int \<times> int \<times> int) list \<Rightarrow> 'e list) \<Rightarrow> int \<Rightarrow> 'p \<Rightarrow> (int \<times> int \<times> int) list \<Rightarrow> 'e list list res" where
  "process_vision_input visual merge_size pixels grid_thw =
     rbind (require (merge_size \<noteq> 0 \<or> grid_thw = []) (RuntimeError ''ZeroDivisionError'')) (\<lambda>_.
     split_sizes (visual pixels grid_thw)
       (map (\<lambda>(t, h, w). (t * h * w) div merge_size div merge_size) grid_thw))"

definition process_audio_input ::
    "('f list \<Rightarrow> int list \<Rightarrow> 'e list res) \<Rightarrow> 'f list \<Rightarrow> int list \<Rightarrow> 'e list list res" where
  "process_audio_input audio_tower feats lens =
     rbind (audio_tower feats lens) (\<lambda>audio_features.
       split_sizes audio_features (map get_feat_extract_output_lengths lens))"

text \<open>
  \<open>embed_multimodal\<close>: the chunks of all modalities in sequence; their modalities are appended
  to the attribute. \<open>process\<close> runs the encoder of a modality on the call's arguments.
\<close>

definition embed_multimodal ::
    "(string \<Rightarrow> 'e list list res) \<Rightarrow> string list \<Rightarrow> string list option \<Rightarrow>
     'e list list res \<times> string list option" where
  "embed_multimodal process keys recorded =
     (case mm_input_modalities keys of
        [] \<Rightarrow> (Inr [], Some [])
      | present \<Rightarrow>
          case map_res (\<lambda>m. rbind (process m) (\<lambda>chunks. Inr (m, chunks))) present of
            Inl e \<Rightarrow> (Inl e, recorded)
          | Inr outs \<Rightarrow>
              (Inr (concat (map snd outs)),
               Some ((case recorded of None \<Rightarrow> [] | Some ms \<Rightarrow> ms) @
                     concat (map (\<lambda>(m, chunks). replicate (length chunks) m) outs))))"

text \<open>The generic merge of the vLLM interface, by one mask for all modalities.\<close>

definition merge_multimodal_embeddings :: "'e list \<Rightarrow> 'e list list \<Rightarrow> bool list \<Rightarrow> 'e list res" where
  "merge_multimodal_embeddings inputs_embeds embeddings is_multimodal =
     (if embeddings = [] then Inr inputs_embeds
      else let flat = concat embeddings
        in case masked_scatter is_multimodal inputs_embeds flat of
             Inr merged \<Rightarrow> Inr merged
           | Inl _ \<Rightarrow>
               if length flat \<noteq> count_list is_multimodal True
               then Inl (ValueError ''Attempted to assign multimodal tokens to placeholders'')
               else Inl (ValueError ''Error during masked scatter operation''))"

definition embed_text_input_ids ::
    "bool \<Rightarrow> (int list \<Rightarrow> 'e list) \<Rightarrow> int list \<Rightarrow> bool list option \<Rightarrow> 'e list" where
  "embed_text_input_ids has_oov_mm_tokens embed_ids input_ids is_multimodal =
     (case is_multimodal of
        Some msk \<Rightarrow> if has_oov_mm_tokens then embed_ids (map2 (\<lambda>b x. if b then 0 else x) msk input_ids)
                    else embed_ids input_ids
      | None \<Rightarrow> embed_ids input_ids)"

definition super_embed_input_ids ::
    "bool \<Rightarrow> (int list \<Rightarrow> 'e list) \<Rightarrow> int list \<Rightarrow> 'e list list option \<Rightarrow> bool list option \<Rightarrow> 'e list res" where
  "super_embed_input_ids oov embed_ids input_ids embeddings is_multimodal =
     (let inputs_embeds = embed_text_input_ids oov embed_ids input_ids is_multimodal
      in case embeddings of
           None \<Rightarrow> Inr inputs_embeds
         | Some es \<Rightarrow>
             if es = [] then Inr inputs_embeds
             else case is_multimodal of
                    None \<Rightarrow> Inl (ValueError ''embed_input_ids now requires is_multimodal'')
                  | Some msk \<Rightarrow> merge_multimodal_embeddings inputs_embeds es msk)"

definition embed_input_ids ::
    "'z TLiveOmniTokenIds_scheme \<Rightarrow> bool \<Rightarrow> (int list \<Rightarrow> 'e list) \<Rightarrow> string list option \<Rightarrow> int list \<Rightarrow>
     'e list list option \<Rightarrow> bool list option \<Rightarrow> 'e list res \<times> string list option" where
  "embed_input_ids cfg oov embed_ids recorded input_ids embeddings is_multimodal =
     (let inputs_embeds = embed_text_input_ids oov embed_ids input_ids is_multimodal
      in case embeddings of
           None \<Rightarrow> (Inr inputs_embeds, recorded)
         | Some es \<Rightarrow>
             if es = [] then (Inr inputs_embeds, recorded)
             else case is_multimodal of
               None \<Rightarrow> (super_embed_input_ids oov embed_ids input_ids embeddings is_multimodal, recorded)
             | Some msk \<Rightarrow>
                 if True \<in> set (modality_mask input_ids msk (video_token_id cfg)) \<and>
                    True \<in> set (modality_mask input_ids msk (audio_token_id cfg))
                 then tlive_merge_embeddings_by_modality cfg recorded inputs_embeds input_ids es msk
                 else (super_embed_input_ids oov embed_ids input_ids embeddings is_multimodal, recorded))"

section \<open>Masks\<close>

lemma masked_select_Cons [simp]:
  "masked_select (b # bs) (x # xs) = (if b then [x] else []) @ masked_select bs xs"
  "masked_select [] xs = []" "masked_select bs [] = []"
  by (simp_all add: masked_select_def)

lemma length_masked_select:
  "length bs = length xs \<Longrightarrow> length (masked_select bs xs) = count_list bs True"
  by (induction bs xs rule: list_induct2) simp_all

text \<open>A scatter succeeds exactly when there are enough rows; it fills the mask in order.\<close>

lemma masked_scatter_spec:
  assumes "length bs = length xs" and "count_list bs True \<le> length source"
  shows "\<exists>ys. masked_scatter bs xs source = Inr ys \<and> length ys = length xs \<and>
    masked_select bs ys = take (count_list bs True) source \<and>
    masked_select (map Not bs) ys = masked_select (map Not bs) xs"
  using assms
proof (induction bs xs arbitrary: source rule: list_induct2)
  case (Cons b bs x xs)
  show ?case
  proof (cases b)
    case True
    with Cons.prems obtain s rest where src: "source = s # rest" "count_list bs True \<le> length rest"
      by (cases source) auto
    from Cons.IH [OF src(2)] obtain ys where "masked_scatter bs xs rest = Inr ys"
      "length ys = length xs" "masked_select bs ys = take (count_list bs True) rest"
      "masked_select (map Not bs) ys = masked_select (map Not bs) xs" by blast
    with True src show ?thesis by (intro exI [of _ "s # ys"]) simp
  next
    case False
    with Cons.prems have "count_list bs True \<le> length source" by simp
    from Cons.IH [OF this] obtain ys where "masked_scatter bs xs source = Inr ys"
      "length ys = length xs" "masked_select bs ys = take (count_list bs True) source"
      "masked_select (map Not bs) ys = masked_select (map Not bs) xs" by blast
    with False show ?thesis by (intro exI [of _ "x # ys"]) simp
  qed
qed simp

lemma masked_scatter_short:
  assumes "length bs = length xs" and "length source < count_list bs True"
  shows "masked_scatter bs xs source = Inl (RuntimeError ''shape mismatch in masked_scatter'')"
  using assms
proof (induction bs xs arbitrary: source rule: list_induct2)
  case (Cons b bs x xs)
  show ?case using Cons.prems Cons.IH by (cases source; cases b) auto
qed simp

section \<open>Writing rows at positions\<close>

lemma set_nonzero: "set (nonzero bs) = {i. i < length bs \<and> bs ! i}"
  by (auto simp: nonzero_def)

lemma distinct_nonzero: "distinct (nonzero bs)"
  by (simp add: nonzero_def)

lemma length_put_rows [simp]: "length (put_rows pos rows xs) = length xs"
  by (induction pos rows arbitrary: xs rule: list_induct2') (simp_all add: put_rows_def)

lemma put_rows_Cons: "put_rows (i # pos) (e # rows) xs = put_rows pos rows (xs[i := e])"
  by (simp add: put_rows_def)

lemma put_rows_other: "i \<notin> set pos \<Longrightarrow> put_rows pos rows xs ! i = xs ! i"
proof (induction pos rows arbitrary: xs rule: list_induct2')
  case (4 j pos e rows)
  then show ?case by (simp add: put_rows_Cons)
qed (simp_all add: put_rows_def)

lemma put_rows_at:
  assumes "distinct pos" and "length rows = length pos" and "set pos \<subseteq> {..<length xs}"
  shows "map ((!) (put_rows pos rows xs)) pos = rows"
  using assms
proof (induction pos arbitrary: rows xs)
  case (Cons i pos)
  then obtain e rest where rows: "rows = e # rest" by (cases rows) auto
  with Cons.prems have "put_rows pos rest (xs[i := e]) ! i = e"
    by (subst put_rows_other) auto
  with Cons rows show ?case by (simp add: put_rows_Cons)
qed simp

lemma masked_select_nonzero:
  assumes "length bs = length xs"
  shows "masked_select bs xs = map ((!) xs) (nonzero bs)"
proof -
  have "zip bs xs = map (\<lambda>i. (bs ! i, xs ! i)) [0..<length bs]"
    using assms by (intro nth_equalityI) simp_all
  then have "masked_select bs xs = map snd (filter fst (map (\<lambda>i. (bs ! i, xs ! i)) [0..<length bs]))"
    by (simp only: masked_select_def)
  also have "\<dots> = map ((!) xs) (nonzero bs)" by (simp add: nonzero_def filter_map comp_def)
  finally show ?thesis .
qed

lemma masked_select_cong:
  assumes "length bs = length xs" "length ys = length xs"
    and "\<And>i. i < length xs \<Longrightarrow> bs ! i \<Longrightarrow> ys ! i = xs ! i"
  shows "masked_select bs ys = masked_select bs xs"
  using assms by (simp add: masked_select_nonzero set_nonzero)

lemma masked_select_put_rows:
  assumes "length bs = length xs" and "length rows = length (nonzero bs)"
  shows "masked_select bs (put_rows (nonzero bs) rows xs) = rows"
  using assms put_rows_at [OF distinct_nonzero, of rows bs xs]
  by (simp add: masked_select_nonzero set_nonzero subset_iff)

lemma length_nonzero: "length (nonzero bs) = count_list bs True"
  using length_masked_select [of bs bs] masked_select_nonzero [of bs bs] by simp

section \<open>The assignment loop\<close>

text \<open>The placeholder positions of a modality.\<close>

definition mm_mask :: "'z TLiveOmniTokenIds_scheme \<Rightarrow> int list \<Rightarrow> bool list \<Rightarrow> string \<Rightarrow> bool list" where
  "mm_mask cfg ids mm m =
     (case map_of (token_ids cfg) m of
        None \<Rightarrow> replicate (length ids) False | Some tok \<Rightarrow> modality_mask ids mm tok)"

lemma length_mm_mask: "length mm = length ids \<Longrightarrow> length (mm_mask cfg ids mm m) = length ids"
  by (simp add: mm_mask_def modality_mask_def split: option.split)

lemma mm_mask_multimodal:
  "length mm = length ids \<Longrightarrow> i < length ids \<Longrightarrow> mm_mask cfg ids mm m ! i \<Longrightarrow> mm ! i"
  by (auto simp: mm_mask_def modality_mask_def split: option.splits)

lemma mm_mask_disjoint:
  assumes "distinct (special_ids cfg)" "length mm = length ids" "i < length ids"
    and "mm_mask cfg ids mm m ! i" "mm_mask cfg ids mm k ! i"
  shows "m = k"
  using assms
  by (auto simp: mm_mask_def modality_mask_def token_ids_def special_ids_def split: option.splits if_splits)

lemma assign_rows_eq:
  "assign_rows cfg ids mm ms es m xs =
     (if m \<notin> fst ` set (token_ids cfg)
      then Inl (ValueError ''Unsupported multimodal embedding modality'')
      else if assigned_count ms es m \<noteq> count_list (mm_mask cfg ids mm m) True
      then Inl (ValueError ''embedding/token count mismatch'')
      else Inr (put_rows (nonzero (mm_mask cfg ids mm m)) (concat (chunks_of ms es m)) xs))"
proof (cases "map_of (token_ids cfg) m")
  case None
  moreover from None have "m \<notin> fst ` set (token_ids cfg)" by (simp only: map_of_eq_None_iff not_False_eq_True)
  ultimately show ?thesis by (simp add: assign_rows_def)
next
  case (Some tok)
  then have "m \<in> fst ` set (token_ids cfg)" by (force dest: map_of_SomeD)
  with Some show ?thesis
    by (simp add: assign_rows_def mm_mask_def length_concat assigned_count_def length_nonzero Let_def)
qed

lemma assign_loop:
  assumes "distinct (special_ids cfg)" and mm: "length mm = length ids"
    and "fold_res (assign_rows cfg ids mm ms es) L xs = Inr ys" and "distinct L"
    and "length xs = length ids"
  shows "length ys = length xs \<and>
    (\<forall>m \<in> set L. masked_select (mm_mask cfg ids mm m) ys = concat (chunks_of ms es m)) \<and>
    (\<forall>i < length xs. (\<forall>m \<in> set L. \<not> mm_mask cfg ids mm m ! i) \<longrightarrow> ys ! i = xs ! i)"
  using assms(3-)
proof (induction L arbitrary: xs)
  case (Cons m L)
  let ?msk = "mm_mask cfg ids mm m" and ?rows = "concat (chunks_of ms es m)"
  let ?y = "put_rows (nonzero ?msk) ?rows xs"
  from Cons.prems(1) have run: "fold_res (assign_rows cfg ids mm ms es) L ?y = Inr ys"
    and rows: "length ?rows = length (nonzero ?msk)"
    using assign_rows_eq [of cfg ids mm ms es m xs]
    by (auto simp: assigned_count_def length_concat length_nonzero split: if_splits)
  note len = length_mm_mask [OF mm, of cfg m] and ids = Cons.prems(3)
  from Cons.IH [OF run] Cons.prems
  have IH: "length ys = length xs"
    "\<And>k. k \<in> set L \<Longrightarrow> masked_select (mm_mask cfg ids mm k) ys = concat (chunks_of ms es k)"
    "\<And>i. i < length xs \<Longrightarrow> \<forall>k \<in> set L. \<not> mm_mask cfg ids mm k ! i \<Longrightarrow> ys ! i = ?y ! i"
    by auto
  have "ys ! i = ?y ! i" if i: "i < length xs" "?msk ! i" for i
  proof (rule IH(3) [OF i(1)], rule ballI, rule notI)
    fix k assume "k \<in> set L" and "mm_mask cfg ids mm k ! i"
    with mm_mask_disjoint [OF assms(1) mm, of i m k] i ids Cons.prems(2) show False by auto
  qed
  then have "masked_select ?msk ys = masked_select ?msk ?y"
    using IH(1) len ids by (intro masked_select_cong) simp_all
  also have "\<dots> = ?rows" using len ids rows by (intro masked_select_put_rows) simp_all
  finally show ?case
    using IH len ids by (auto simp: put_rows_other set_nonzero)
qed simp

lemma assign_loop_succeeds:
  "(\<And>m. m \<in> set L \<Longrightarrow> m \<in> fst ` set (token_ids cfg) \<and>
      assigned_count ms es m = count_list (mm_mask cfg ids mm m) True) \<Longrightarrow>
   \<exists>ys. fold_res (assign_rows cfg ids mm ms es) L xs = Inr ys"
  by (induction L arbitrary: xs) (simp_all add: assign_rows_eq)

lemma assign_loop_known:
  "fold_res (assign_rows cfg ids mm ms es) L xs = Inr ys \<Longrightarrow> set L \<subseteq> fst ` set (token_ids cfg)"
  by (induction L arbitrary: xs) (auto simp: assign_rows_eq rbind_eq_Inr split: if_splits)

lemma set_first_occurrences [simp]: "set (first_occurrences xs) = set xs"
  and distinct_first_occurrences [simp]: "distinct (first_occurrences xs)"
  by (simp_all add: first_occurrences_def)

section \<open>The search for an assignment\<close>

lemma first_some_None: "first_some f xs = None \<longleftrightarrow> (\<forall>x \<in> set xs. f x = None)"
  by (induction xs) (auto split: option.splits)

lemma first_some_Some: "first_some f xs = Some y \<Longrightarrow> \<exists>x \<in> set xs. f x = Some y"
  by (induction xs) (auto split: option.splits)

definition row_sum :: "string list \<Rightarrow> nat list \<Rightarrow> string \<Rightarrow> nat" where
  "row_sum ms rs m = sum_list (map snd (filter (\<lambda>(k, _). k = m) (zip ms rs)))"

lemma row_sum_Nil [simp]: "row_sum [] rs m = 0"
  by (simp add: row_sum_def)

lemma row_sum_Cons [simp]:
  "row_sum (k # ms) (r # rs) m = (if k = m then r else 0) + row_sum ms rs m"
  by (simp add: row_sum_def)

lemma assigned_count_row_sum: "assigned_count ms es m = row_sum ms (map length es) m"
proof -
  have "zip ms (map length es) = map (\<lambda>(k, e). (k, length e)) (zip ms es)"
    by (simp add: zip_map2)
  then show ?thesis
    by (simp add: assigned_count_def row_sum_def chunks_of_def filter_map comp_def case_prod_unfold)
qed

definition completes :: "(string \<Rightarrow> nat) \<Rightarrow> string list \<Rightarrow> nat list \<Rightarrow> (string \<Rightarrow> nat) \<Rightarrow> string list \<Rightarrow> bool" where
  "completes count present rs assigned ms \<longleftrightarrow> length ms = length rs \<and> set ms \<subseteq> set present \<and>
     (\<forall>m \<in> set present. assigned m + row_sum ms rs m = count m)"

lemma completes_Cons:
  "completes count present (r # rs) assigned (k # ms) \<longleftrightarrow>
     k \<in> set present \<and> completes count present rs (assigned(k := assigned k + r)) ms"
  by (auto simp: completes_def)

text \<open>The search returns an assignment exactly when there is one.\<close>

lemma backtrack_sound:
  "backtrack count present rs assigned acc = Some out \<Longrightarrow>
     \<exists>ms. out = acc @ ms \<and> completes count present rs assigned ms"
proof (induction rs arbitrary: assigned acc)
  case Nil
  then show ?case by (auto simp: completes_def list_all_iff split: if_splits)
next
  case (Cons r rs)
  from Cons.prems obtain k where k: "k \<in> set present"
    "backtrack count present rs (assigned(k := assigned k + r)) (acc @ [k]) = Some out"
    by (auto simp: Let_def dest!: first_some_Some split: if_splits)
  from Cons.IH [OF k(2)] obtain ms where "out = (acc @ [k]) @ ms"
    "completes count present rs (assigned(k := assigned k + r)) ms" by blast
  with k(1) show ?case by (intro exI [of _ "k # ms"]) (simp add: completes_Cons)
qed

lemma backtrack_complete:
  "completes count present rs assigned ms \<Longrightarrow> backtrack count present rs assigned acc \<noteq> None"
proof (induction rs arbitrary: assigned acc ms)
  case Nil
  then show ?case by (auto simp: completes_def list_all_iff)
next
  case (Cons r rs)
  then obtain k ms' where ms: "ms = k # ms'" by (cases ms) (auto simp: completes_def)
  with Cons.prems have k: "k \<in> set present"
    and rest: "completes count present rs (assigned(k := assigned k + r)) ms'"
    by (simp_all add: completes_Cons)
  from rest k have "assigned k + r \<le> count k" by (fastforce simp: completes_def)
  with Cons.IH [OF rest, of "acc @ [k]"] k show ?case
    by (auto simp: first_some_None Let_def simp del: fun_upd_apply intro!: bexI [of _ k])
qed

section \<open>The vLLM merge\<close>

lemma count_of_token_counts:
  "m \<in> fst ` set (token_ids cfg) \<Longrightarrow>
     count_of (token_counts cfg ids mm) m = count_list (mm_mask cfg ids mm m) True"
  by (auto simp: count_of_def token_counts_def mm_mask_def token_ids_def)

lemma keys_token_counts [simp]: "fst ` set (token_counts cfg ids mm) = fst ` set (token_ids cfg)"
  by (auto simp: token_counts_def token_ids_def)

lemma present_modalities_iff:
  "m \<in> set (present_modalities (token_counts cfg ids mm)) \<longleftrightarrow>
     m \<in> fst ` set (token_ids cfg) \<and> count_list (mm_mask cfg ids mm m) True > 0"
  by (auto simp: present_modalities_def token_counts_def mm_mask_def token_ids_def)

text \<open>An assignment that gives every modality the rows its placeholders need.\<close>

definition fits :: "'z TLiveOmniTokenIds_scheme \<Rightarrow> int list \<Rightarrow> bool list \<Rightarrow> 'e list list \<Rightarrow> string list \<Rightarrow> bool" where
  "fits cfg ids mm es ms \<longleftrightarrow> length ms = length es \<and> set ms \<subseteq> fst ` set (token_ids cfg) \<and>
     (\<forall>m \<in> fst ` set (token_ids cfg). assigned_count ms es m = count_list (mm_mask cfg ids mm m) True)"

lemma is_valid_assignment_fits:
  "is_valid_assignment (token_counts cfg ids mm) es ms \<longleftrightarrow> fits cfg ids mm es ms"
proof -
  have counts: "list_all (\<lambda>(m, n). n > 0 \<or> assigned_count ms es m > 0 \<longrightarrow> assigned_count ms es m = n)
      (token_counts cfg ids mm) \<longleftrightarrow>
    (\<forall>m \<in> fst ` set (token_ids cfg). assigned_count ms es m = count_list (mm_mask cfg ids mm m) True)"
    by (auto simp: token_counts_def token_ids_def mm_mask_def)
  have keys: "list_all (\<lambda>m. m \<in> K) ms \<longleftrightarrow> set ms \<subseteq> K" for K by (auto simp: list_all_iff)
  show ?thesis by (simp only: is_valid_assignment_def fits_def keys_token_counts counts keys)
qed

lemma assigned_count_outside: "m \<notin> set ms \<Longrightarrow> assigned_count ms es m = 0"
  by (auto simp: assigned_count_def chunks_of_def dest: set_zip_leftD)

text \<open>What merging with a chosen assignment gives.\<close>

lemma fits_completes:
  assumes "length ms = length es" "set ms \<subseteq> set (present_modalities (token_counts cfg ids mm))"
  shows "completes (count_of (token_counts cfg ids mm)) (present_modalities (token_counts cfg ids mm))
      (map length es) (\<lambda>_. 0) ms \<longleftrightarrow> fits cfg ids mm es ms"
proof -
  let ?K = "fst ` set (token_ids cfg)" and ?P = "set (present_modalities (token_counts cfg ids mm))"
  let ?c = "\<lambda>m. count_list (mm_mask cfg ids mm m) True"
  have absent: "assigned_count ms es m = ?c m" if "m \<in> ?K" "m \<notin> ?P" for m
  proof -
    from that(2) assms(2) have "m \<notin> set ms" by blast
    with that show ?thesis by (simp add: present_modalities_iff assigned_count_outside)
  qed
  have sub: "?P \<subseteq> ?K" by (auto simp: present_modalities_iff)
  have "(\<forall>m \<in> ?P. 0 + row_sum ms (map length es) m = count_of (token_counts cfg ids mm) m) \<longleftrightarrow>
      (\<forall>m \<in> ?P. assigned_count ms es m = ?c m)"
    using sub by (simp add: assigned_count_row_sum count_of_token_counts subset_iff)
  also have "\<dots> \<longleftrightarrow> (\<forall>m \<in> ?K. assigned_count ms es m = ?c m)"
    using absent sub by blast
  finally show ?thesis using assms sub unfolding completes_def fits_def by (metis length_map subset_trans)
qed

text \<open>The modalities with which a merge proceeds.\<close>

definition merge_choice :: "'z TLiveOmniTokenIds_scheme \<Rightarrow> string list option \<Rightarrow> int list \<Rightarrow> 'e list list \<Rightarrow> bool list \<Rightarrow> string list" where
  "merge_choice cfg recorded ids es mm =
     (let counts = token_counts cfg ids mm
      in case fst (search_window counts es recorded) of
           Some ms \<Rightarrow> if length ms = length es then ms else infer_modalities counts es
         | None \<Rightarrow> infer_modalities counts es)"

lemma merge_by_choice:
  "tlive_merge_embeddings_by_modality cfg recorded xs ids es mm =
     (let ms = merge_choice cfg recorded ids es mm;
          st = snd (search_window (token_counts cfg ids mm) es recorded)
      in if length ms \<noteq> length es
         then (Inl (ValueError ''Missing modality metadata for multimodal embeddings''), st)
         else case fold_res (assign_rows cfg ids mm ms es) (first_occurrences ms) xs of
                Inl e \<Rightarrow> (Inl e, st) | Inr merged \<Rightarrow> (Inr merged, Some []))"
  by (simp add: tlive_merge_embeddings_by_modality_def merge_choice_def Let_def case_prod_unfold)

text \<open>When one kind of placeholder is present, every chunk is of that kind.\<close>

lemma infer_modalities_fits:
  assumes ex: "fits cfg ids mm es ms" "set ms \<subseteq> set (present_modalities (token_counts cfg ids mm))"
  shows "fits cfg ids mm es (infer_modalities (token_counts cfg ids mm) es)"
proof (cases "length (present_modalities (token_counts cfg ids mm)) = 1")
  case True
  then obtain m where m: "present_modalities (token_counts cfg ids mm) = [m]"
    by (metis One_nat_def length_0_conv length_Suc_conv)
  with ex have "ms = replicate (length es) m"
    by (metis fits_def list.set(1) list.simps(15) replicate_length_same singletonD subset_iff)
  with ex m show ?thesis by (simp add: infer_modalities_def)
next
  case False
  let ?n = "token_counts cfg ids mm"
  have "length ms = length es" using ex(1) by (simp add: fits_def)
  with ex have "completes (count_of ?n) (present_modalities ?n) (map length es) (\<lambda>_. 0) ms"
    by (simp add: fits_completes)
  from backtrack_complete [OF this] obtain out where
    out: "backtrack (count_of ?n) (present_modalities ?n) (map length es) (\<lambda>_. 0) [] = Some out"
    by blast
  from backtrack_sound [OF this]
  have "completes (count_of ?n) (present_modalities ?n) (map length es) (\<lambda>_. 0) out" by auto
  moreover from this have "length out = length es" "set out \<subseteq> set (present_modalities ?n)"
    by (simp_all add: completes_def)
  ultimately have "fits cfg ids mm es out" by (simp only: fits_completes)
  with False out show ?thesis by (simp add: infer_modalities_def Let_def)
qed

lemma merge_with_fitting_choice:
  assumes ids: "distinct (special_ids cfg)"
    and len: "length mm = length ids" "length xs = length ids"
    and fits: "fits cfg ids mm es ks" and choice: "merge_choice cfg recorded ids es mm = ks"
  shows "\<exists>merged. tlive_merge_embeddings_by_modality cfg recorded xs ids es mm = (Inr merged, Some []) \<and>
    length merged = length xs \<and>
    (\<forall>m \<in> {''image'', ''video'', ''audio''}. masked_select (mm_mask cfg ids mm m) merged = concat (chunks_of ks es m)) \<and>
    (\<forall>i < length xs. (\<forall>m \<in> {''image'', ''video'', ''audio''}. \<not> mm_mask cfg ids mm m ! i) \<longrightarrow> merged ! i = xs ! i)"
proof -
  have "\<exists>ys. fold_res (assign_rows cfg ids mm ks es) (first_occurrences ks) xs = Inr ys"
    using fits by (intro assign_loop_succeeds) (auto simp: fits_def)
  then obtain merged where loop: "fold_res (assign_rows cfg ids mm ks es) (first_occurrences ks) xs = Inr merged" ..
  then have run: "tlive_merge_embeddings_by_modality cfg recorded xs ids es mm = (Inr merged, Some [])"
    using fits by (simp add: merge_by_choice choice fits_def Let_def)
  have keys: "fst ` set (token_ids cfg) = {''image'', ''video'', ''audio''}" by (auto simp: token_ids_def)
  note res = assign_loop [OF ids len(1) loop _ len(2)]
  have "masked_select (mm_mask cfg ids mm m) merged = concat (chunks_of ks es m)"
    if m: "m \<in> fst ` set (token_ids cfg)" for m
  proof (cases "m \<in> set ks")
    case False
    then have "assigned_count ks es m = 0" by (rule assigned_count_outside)
    with fits m have "count_list (mm_mask cfg ids mm m) True = 0"
      unfolding fits_def by metis
    moreover have "length (mm_mask cfg ids mm m) = length merged" using res len by (simp add: length_mm_mask)
    ultimately have "masked_select (mm_mask cfg ids mm m) merged = []"
      using length_masked_select by (metis length_0_conv)
    moreover have "chunks_of ks es m = []"
      using False by (auto simp: chunks_of_def filter_empty_conv dest: set_zip_leftD)
    ultimately show ?thesis by simp
  qed (use res in simp)
  moreover have "set ks \<subseteq> {''image'', ''video'', ''audio''}" using fits keys by (simp add: fits_def)
  ultimately show ?thesis using run res keys by (intro exI [of _ merged]) auto
qed

lemma search_window_fits:
  assumes "fst (search_window (token_counts cfg ids mm) es recorded) = Some ms"
    and "length ms = length es"
    and "\<And>all. recorded = Some all \<Longrightarrow> length all = length es \<Longrightarrow>
      \<exists>m \<in> set all. m \<notin> set (present_modalities (token_counts cfg ids mm))"
  shows "fits cfg ids mm es ms"
  using assms
  by (auto simp: search_window_def is_valid_assignment_fits list_all_iff present_modalities_iff
      Let_def dest!: find_Some_iff [THEN iffD1] split: option.splits if_splits)
    (metis count_of_token_counts less_irrefl)

text \<open>Whatever the metadata, the choice fits when some assignment does and the metadata is not taken as it is.\<close>

lemma merge_choice_fits:
  assumes "fits cfg ids mm es ms" "set ms \<subseteq> set (present_modalities (token_counts cfg ids mm))"
    and "\<And>all. recorded = Some all \<Longrightarrow> length all = length es \<Longrightarrow>
      \<exists>m \<in> set all. m \<notin> set (present_modalities (token_counts cfg ids mm))"
  shows "fits cfg ids mm es (merge_choice cfg recorded ids es mm)"
  using search_window_fits [OF _ _ assms(3)] infer_modalities_fits [OF assms(1,2)]
  by (auto simp: merge_choice_def Let_def split: option.split)

text \<open>The metadata holds the modalities of the chunks, and no earlier window of it fits them.\<close>

definition recorded_first :: "'z TLiveOmniTokenIds_scheme \<Rightarrow> int list \<Rightarrow> bool list \<Rightarrow> 'e list list \<Rightarrow> string list \<Rightarrow>
    string list option \<Rightarrow> bool" where
  "recorded_first cfg ids mm es ms recorded \<longleftrightarrow>
     (\<exists>old rest. recorded = Some (old @ ms @ rest) \<and>
        (\<forall>k < length old. \<not> fits cfg ids mm es (take (length es) (drop k (old @ ms @ rest)))))"

lemma find_upt:
  "k < n \<Longrightarrow> P k \<Longrightarrow> \<forall>j < k. \<not> P j \<Longrightarrow> List.find P [0..<n] = Some k"
  by (auto simp: find_Some_iff intro!: exI [of _ k])

lemma recorded_first_choice:
  assumes "fits cfg ids mm es ms" and "recorded_first cfg ids mm es ms recorded"
  shows "merge_choice cfg recorded ids es mm = ms"
proof -
  from assms(2) obtain old rest where rec: "recorded = Some (old @ ms @ rest)"
    and first: "\<forall>k < length old. \<not> fits cfg ids mm es (take (length es) (drop k (old @ ms @ rest)))"
    by (auto simp: recorded_first_def)
  have len: "length ms = length es" using assms(1) by (simp add: fits_def)
  have "List.find (\<lambda>start. is_valid_assignment (token_counts cfg ids mm) es
      (take (length es) (drop start (old @ ms @ rest)))) [0..<length (old @ ms @ rest) - length es + 1] = Some (length old)"
    using first assms(1) len by (intro find_upt) (auto simp: is_valid_assignment_fits)
  then show ?thesis using len by (simp add: merge_choice_def search_window_def rec Let_def)
qed

text \<open>
  C14: The merge puts the rows of each modality at the placeholders of that modality. Let \<open>ms\<close> be the
  modalities of the chunks, whose row counts are those of the placeholders. If the metadata records
  them and no earlier window of it fits, or if every assignment that fits gives each modality the same
  rows (and the metadata is not a list of as many modalities as there are chunks, all of them present,
  which the code uses as it is), then the merge succeeds: the placeholders of each
  modality hold exactly the rows of the chunks of that modality, in order, every other position keeps
  its embedding, and the metadata is cleared. (When neither holds, rows may be exchanged.)
\<close>

theorem merge_by_modality_correct:
  assumes ids: "distinct (special_ids cfg)"
    and len: "length mm = length ids" "length xs = length ids"
    and fit: "fits cfg ids mm es ms"
    and known: "recorded_first cfg ids mm es ms recorded \<or>
      set ms \<subseteq> set (present_modalities (token_counts cfg ids mm)) \<and>
      (\<forall>ks. fits cfg ids mm es ks \<longrightarrow> (\<forall>m. chunks_of ks es m = chunks_of ms es m)) \<and>
      (\<forall>all. recorded = Some all \<longrightarrow> length all = length es \<longrightarrow>
        (\<exists>m \<in> set all. m \<notin> set (present_modalities (token_counts cfg ids mm))))"
  shows "\<exists>merged. tlive_merge_embeddings_by_modality cfg recorded xs ids es mm = (Inr merged, Some []) \<and>
    length merged = length xs \<and>
    (\<forall>m \<in> {''image'', ''video'', ''audio''}. masked_select (mm_mask cfg ids mm m) merged = concat (chunks_of ms es m)) \<and>
    (\<forall>i < length xs. (\<forall>m \<in> {''image'', ''video'', ''audio''}. \<not> mm_mask cfg ids mm m ! i) \<longrightarrow> merged ! i = xs ! i)"
proof (cases "recorded_first cfg ids mm es ms recorded")
  case True
  then show ?thesis
    by (intro merge_with_fitting_choice [OF ids len fit] recorded_first_choice [OF fit])
next
  case False
  with known have present: "set ms \<subseteq> set (present_modalities (token_counts cfg ids mm))"
    and unique: "\<And>ks m. fits cfg ids mm es ks \<Longrightarrow> chunks_of ks es m = chunks_of ms es m"
    and stale: "\<And>all. recorded = Some all \<Longrightarrow> length all = length es \<Longrightarrow>
        \<exists>m \<in> set all. m \<notin> set (present_modalities (token_counts cfg ids mm))"
    by blast+
  have fits: "fits cfg ids mm es (merge_choice cfg recorded ids es mm)"
    by (rule merge_choice_fits [OF fit present stale])
  from merge_with_fitting_choice [OF ids len fits refl] show ?thesis by (simp only: unique [OF fits])
qed

theorem merge_by_modality_correct_witness:
  "\<exists>merged. tlive_merge_embeddings_by_modality default_token_ids (Some [''image'', ''video'', ''audio''])
      [10, 11, 12, 13 :: nat] [1, 248076, 248057, 2] [[50], [70]] [False, True, True, False] = (Inr merged, Some []) \<and>
    masked_select [False, True, False, False] merged = [70] \<and>
    masked_select [False, False, True, False] merged = [50]"
proof -
  let ?ids = "[1, 248076, 248057, 2] :: int list" and ?mm = "[False, True, True, False]"
  let ?ms = "[''video'', ''audio'']" and ?es = "[[50], [70 :: nat]]"
  have fit: "fits default_token_ids ?ids ?mm ?es ?ms" by code_simp
  have "\<not> fits default_token_ids ?ids ?mm ?es [''image'', ''video'']" by code_simp
  then have "recorded_first default_token_ids ?ids ?mm ?es ?ms (Some [''image'', ''video'', ''audio''])"
    unfolding recorded_first_def by (intro exI [of _ "[''image'']"] exI [of _ "[]"]) simp
  note res = merge_by_modality_correct [OF default_special_ids_distinct _ _ fit disjI1 [OF this], of "[10, 11, 12, 13]"]
  have masks: "mm_mask default_token_ids ?ids ?mm ''audio'' = [False, True, False, False]"
    "mm_mask default_token_ids ?ids ?mm ''video'' = [False, False, True, False]"
    "concat (chunks_of ?ms ?es ''audio'') = [70]" "concat (chunks_of ?ms ?es ''video'') = [50]" by code_simp+
  show ?thesis using res by (auto simp: masks)
qed

text \<open>
  C15: The merge never fails for want of metadata. If the chunks can be divided among the
  modalities whose placeholders are present so that the row counts match, the merge succeeds,
  with missing, stale, shorter or longer metadata alike; and then every placeholder is filled.
  The exception is metadata of exactly the length of the chunk list that names only present
  modalities, which the code uses as it is.
\<close>

theorem merge_by_modality_complete:
  assumes ids: "distinct (special_ids cfg)"
    and len: "length mm = length ids" "length xs = length ids"
    and fit: "fits cfg ids mm es ms" "set ms \<subseteq> set (present_modalities (token_counts cfg ids mm))"
    and stale: "\<And>all. recorded = Some all \<Longrightarrow> length all = length es \<Longrightarrow>
      \<exists>m \<in> set all. m \<notin> set (present_modalities (token_counts cfg ids mm))"
  shows "\<exists>merged ks. tlive_merge_embeddings_by_modality cfg recorded xs ids es mm = (Inr merged, Some []) \<and>
    length ks = length es \<and>
    (\<forall>m \<in> {''image'', ''video'', ''audio''}.
       masked_select (mm_mask cfg ids mm m) merged = concat (chunks_of ks es m))"
proof -
  have fits: "fits cfg ids mm es (merge_choice cfg recorded ids es mm)"
    by (rule merge_choice_fits [OF fit stale])
  from merge_with_fitting_choice [OF ids len fits refl] fits show ?thesis unfolding fits_def by blast
qed

theorem merge_by_modality_complete_witness:
  "\<exists>merged ks. tlive_merge_embeddings_by_modality default_token_ids None
      [10, 11, 12, 13 :: nat] [248076, 248057, 248057, 2] [[50], [70, 80]]
      [True, True, True, False] = (Inr merged, Some []) \<and>
    masked_select [False, True, True, False] merged = concat (chunks_of ks [[50], [70, 80]] ''video'')"
proof -
  let ?ids = "[248076, 248057, 248057, 2] :: int list" and ?mm = "[True, True, True, False]"
  have "fits default_token_ids ?ids ?mm [[50], [70, 80 :: nat]] [''audio'', ''video'']"
    by code_simp
  moreover have "set [''audio'', ''video''] \<subseteq> set (present_modalities (token_counts default_token_ids ?ids ?mm))"
    by code_simp
  moreover have "mm_mask default_token_ids ?ids ?mm ''video'' = [False, True, True, False]" by code_simp
  ultimately show ?thesis
    using merge_by_modality_complete [OF default_special_ids_distinct, of ?mm ?ids
        "[10, 11, 12, 13]" "[[50], [70, 80]]" "[''audio'', ''video'']" None]
    by auto
qed

lemma chunks_of_append:
  "length ms = length es \<Longrightarrow> chunks_of (ms @ ms') (es @ es') m = chunks_of ms es m @ chunks_of ms' es' m"
  by (simp add: chunks_of_def)

lemma chunks_of_replicate: "chunks_of (replicate (length es) k) es m = (if k = m then es else [])"
  by (induction es) (auto simp: chunks_of_def)

lemma chunks_of_by_modality:
  "distinct L \<Longrightarrow> chunks_of (concat (map (\<lambda>m. replicate (length (F m)) m) L)) (concat (map F L)) k =
     (if k \<in> set L then F k else [])"
  by (induction L) (auto simp: chunks_of_append chunks_of_replicate chunks_of_def [of "[]"])

lemma key_modality_known: "key_modality k = Some m \<Longrightarrow> m \<in> {''image'', ''video'', ''audio''}"
  by (simp add: key_modality_def split: if_splits)

lemma mm_input_modalities_known: "set (mm_input_modalities keys) \<subseteq> {''image'', ''video'', ''audio''}"
  using key_modality_known by (force simp: mm_input_modalities_def List.map_filter_def)

lemma map_res_projr:
  "map_res (\<lambda>m. rbind (process m) (\<lambda>chunks. Inr (m, chunks))) L = Inr outs \<Longrightarrow>
     outs = map (\<lambda>m. (m, projr (process m))) L"
  by (induction L arbitrary: outs) (auto simp: rbind_eq_Inr)

lemma embed_multimodal_eq:
  assumes "embed_multimodal process keys (Some []) = (Inr es, recorded)"
  shows "es = concat (map (\<lambda>m. projr (process m)) (mm_input_modalities keys)) \<and>
    recorded = Some (concat (map (\<lambda>m. replicate (length (projr (process m))) m) (mm_input_modalities keys)))"
proof (cases "mm_input_modalities keys")
  case Nil
  with assms show ?thesis by (simp add: embed_multimodal_def)
next
  case (Cons k ks)
  let ?run = "\<lambda>m. rbind (process m) (\<lambda>chunks. Inr (m, chunks))"
  obtain outs where outs: "map_res ?run (k # ks) = Inr outs"
    and es: "es = concat (map snd outs)"
    and rec: "recorded = Some (concat (map (\<lambda>(m, chunks). replicate (length chunks) m) outs))"
    using assms Cons unfolding embed_multimodal_def by (auto split: sum.splits)
  have "outs = map (\<lambda>m. (m, projr (process m))) (k # ks)"
    using map_res_projr [OF outs] .
  with es rec Cons show ?thesis by (simp add: comp_def)
qed

lemma merge_with_recorded:
  assumes "distinct (special_ids cfg)" "length mm = length ids" "length xs = length ids"
    and fits: "fits cfg ids mm es ms"
  shows "\<exists>merged. tlive_merge_embeddings_by_modality cfg (Some ms) xs ids es mm = (Inr merged, Some []) \<and>
    (\<forall>m \<in> set ms. masked_select (mm_mask cfg ids mm m) merged = concat (chunks_of ms es m))"
proof -
  have "recorded_first cfg ids mm es ms (Some ms)"
    unfolding recorded_first_def by (intro exI [of _ "[]"]) simp
  from merge_with_fitting_choice [OF assms(1-3) fits recorded_first_choice [OF fits this]]
  show ?thesis using fits by (fastforce simp: fits_def token_ids_def)
qed

lemma merge_by_modality_length:
  assumes "distinct (special_ids cfg)" "length mm = length ids" "length xs = length ids"
    and "tlive_merge_embeddings_by_modality cfg recorded xs ids es mm = (Inr merged, st)"
  shows "length merged = length ids"
proof -
  from assms(4) obtain ms where "fold_res (assign_rows cfg ids mm ms es) (first_occurrences ms) xs = Inr merged"
    by (auto simp: merge_by_choice Let_def split: if_splits sum.splits)
  from assign_loop [OF assms(1,2) this _ assms(3)] assms(3) show ?thesis by simp
qed

text \<open>
  When the attribute is empty and one call of \<open>embed_multimodal\<close> produced the chunks, the
  merge puts each chunk at the placeholders of the modality that produced it.
\<close>

lemma embed_multimodal_then_merge:
  assumes ids: "distinct (special_ids cfg)"
    and len: "length mm = length ids" "length xs = length ids"
    and embed: "embed_multimodal process keys (Some []) = (Inr es, recorded)"
    and counts: "\<And>m. m \<in> {''image'', ''video'', ''audio''} \<Longrightarrow>
      count_list (mm_mask cfg ids mm m) True =
        (if m \<in> set (mm_input_modalities keys)
         then sum_list (map length (projr (process m))) else 0)"
  shows "\<exists>merged. tlive_merge_embeddings_by_modality cfg recorded xs ids es mm = (Inr merged, Some []) \<and>
    (\<forall>m \<in> set (mm_input_modalities keys).
       masked_select (mm_mask cfg ids mm m) merged = concat (projr (process m)))"
proof -
  let ?F = "\<lambda>m. projr (process m)" and ?L = "mm_input_modalities keys"
  define ms where "ms = concat (map (\<lambda>m. replicate (length (?F m)) m) ?L)"
  have L: "distinct ?L" by (simp add: mm_input_modalities_def)
  from embed_multimodal_eq [OF embed] have es: "es = concat (map ?F ?L)" and rec: "recorded = Some ms"
    by (simp_all add: ms_def)
  have chunks: "chunks_of ms es m = (if m \<in> set ?L then ?F m else [])" for m
    unfolding ms_def es by (rule chunks_of_by_modality [OF L])
  have "length ms = length es" by (simp add: ms_def es length_concat comp_def)
  moreover have "set ms \<subseteq> set ?L" by (auto simp: ms_def)
  moreover have keys: "fst ` set (token_ids cfg) = {''image'', ''video'', ''audio''}"
    by (auto simp: token_ids_def)
  ultimately have fits: "fits cfg ids mm es ms"
    unfolding fits_def keys using mm_input_modalities_known [of keys] counts
    by (auto simp: assigned_count_def chunks)
  obtain merged where run: "tlive_merge_embeddings_by_modality cfg recorded xs ids es mm = (Inr merged, Some [])"
    and rows: "\<forall>m \<in> set ms. masked_select (mm_mask cfg ids mm m) merged = concat (chunks_of ms es m)"
    using merge_with_recorded [OF ids len fits] rec by blast
  have "length merged = length ids" using run merge_by_modality_length [OF ids len] by simp
  have "masked_select (mm_mask cfg ids mm m) merged = concat (?F m)" if m: "m \<in> set ?L" for m
  proof (cases "m \<in> set ms")
    case False
    with m have none: "?F m = []" by (auto simp: ms_def)
    with counts [of m] m mm_input_modalities_known [of keys]
    have "count_list (mm_mask cfg ids mm m) True = 0" by auto
    then have "length (masked_select (mm_mask cfg ids mm m) merged) = 0"
      using length_masked_select [of "mm_mask cfg ids mm m" merged] \<open>length merged = length ids\<close> len
      by (simp add: length_mm_mask)
    with none show ?thesis by simp
  qed (use rows chunks m in simp)
  with run show ?thesis by blast
qed

lemma embed_multimodal_then_merge_example:
  "\<exists>merged. tlive_merge_embeddings_by_modality default_token_ids (Some [''audio'', ''video''])
      [10, 11, 12, 13 :: nat] [248076, 248057, 248057, 2] [[50], [70, 80]] [True, True, True, False] =
      (Inr merged, Some []) \<and>
    masked_select [True, False, False, False] merged = [50] \<and>
    masked_select [False, True, True, False] merged = [70, 80]"
proof -
  let ?ids = "[248076, 248057, 248057, 2] :: int list" and ?mm = "[True, True, True, False]"
  let ?keys = "[''input_audio_features'', ''pixel_values_videos'']"
  let ?process = "\<lambda>m. if m = ''audio'' then Inr [[50]] else Inr [[70, 80 :: nat]]"
  have embed: "embed_multimodal ?process ?keys (Some []) = (Inr [[50], [70, 80]], Some [''audio'', ''video''])"
    by code_simp
  have masks: "mm_mask default_token_ids ?ids ?mm ''video'' = [False, True, True, False]"
      "mm_mask default_token_ids ?ids ?mm ''audio'' = [True, False, False, False]"
      "mm_mask default_token_ids ?ids ?mm ''image'' = [False, False, False, False]" by code_simp+
  have mods: "mm_input_modalities ?keys = [''audio'', ''video'']" by code_simp
  have "count_list (mm_mask default_token_ids ?ids ?mm m) True =
      (if m \<in> set (mm_input_modalities ?keys) then sum_list (map length (projr (?process m))) else 0)"
    if "m \<in> {''image'', ''video'', ''audio''}" for m
    using that by (auto simp: masks mods)
  from embed_multimodal_then_merge [OF default_special_ids_distinct _ _ embed this,
        of "[10, 11, 12, 13]"]
  show ?thesis by (simp add: masks mods)
qed

section \<open>The Hugging Face merge\<close>

lemma masked_scatter_ok:
  assumes "masked_scatter (map (\<lambda>x. x = tok) ids) xs source = Inr ys" and "length xs = length ids"
  shows "length ys = length ids \<and> count_list ids tok \<le> length source \<and>
    masked_select (map (\<lambda>x. x = tok) ids) ys = take (count_list ids tok) source \<and>
    (\<forall>i < length ids. ids ! i \<noteq> tok \<longrightarrow> ys ! i = xs ! i)"
proof -
  let ?bs = "map (\<lambda>x. x = tok) ids"
  have n: "count_list ?bs True = count_list ids tok" by (induction ids) auto
  have le: "count_list ?bs True \<le> length source"
    using masked_scatter_short [of ?bs xs source] assms by (cases "length source < count_list ?bs True") auto
  with masked_scatter_spec [of ?bs xs source] assms
  have l: "length ys = length xs" and sel: "masked_select ?bs ys = take (count_list ?bs True) source"
    and other: "masked_select (map Not ?bs) ys = masked_select (map Not ?bs) xs" by auto
  from other have "\<forall>i \<in> set (nonzero (map Not ?bs)). ys ! i = xs ! i"
    using assms(2) l by (simp add: masked_select_nonzero)
  then have "\<forall>i < length ids. ids ! i \<noteq> tok \<longrightarrow> ys ! i = xs ! i" by (auto simp: set_nonzero)
  with sel l le assms(2) show ?thesis by (simp add: n)
qed

lemma masked_scatter_full:
  assumes "masked_scatter (map (\<lambda>x. x = tok) ids) xs source = Inr ys" and "length xs = length ids"
    and "length (masked_select (map (\<lambda>x. x = tok) ids) xs) = length source"
  shows "masked_select (map (\<lambda>x. x = tok) ids) ys = source"
proof -
  have "count_list (map (\<lambda>x. x = tok) ids) True = count_list ids tok" by (induction ids) auto
  with assms masked_scatter_ok [OF assms(1,2)] show ?thesis by (simp add: length_masked_select)
qed

lemma audio_stage_ok:
  assumes "audio_stage cfg embed_token audio_tower (Some ids) inp xs = Inr ys" and "length xs = length ids"
  shows "length ys = length ids \<and> (\<forall>i < length ids. ids ! i \<noteq> audio_token_id cfg \<longrightarrow> ys ! i = xs ! i) \<and>
    (\<forall>feats fs. input_features inp = Some feats \<longrightarrow> get_audio_features audio_tower feats
       (feature_attention_mask inp) (audio_feature_lengths inp) = Inr fs \<longrightarrow>
     masked_select (map (\<lambda>x. x = audio_token_id cfg) ids) ys = take (count_list ids (audio_token_id cfg)) fs)"
proof (cases "input_features inp")
  case (Some feats)
  with assms(1) obtain fs where
    "get_audio_features audio_tower feats (feature_attention_mask inp) (audio_feature_lengths inp) = Inr fs"
    "masked_scatter (map (\<lambda>x. x = audio_token_id cfg) ids) xs fs = Inr ys"
    using assms(2) by (auto simp: audio_stage_def get_placeholder_mask_def token_mask_def expand_as_def rbind_eq_Inr)
  with Some masked_scatter_ok [OF this(2) assms(2)] show ?thesis by simp
qed (use assms in \<open>simp add: audio_stage_def\<close>)

lemma image_stage_ok:
  assumes "image_stage cfg embed_token visual merge_size (Some ids) inp xs = Inr ys" and "length xs = length ids"
  shows "length ys = length ids \<and> (\<forall>i < length ids. ids ! i \<noteq> image_token_id cfg \<longrightarrow> ys ! i = xs ! i) \<and>
    (\<forall>pv cs. pixel_values inp = Some pv \<longrightarrow>
       get_image_features visual merge_size pv (image_grid_thw inp) = Inr cs \<longrightarrow>
     masked_select (map (\<lambda>x. x = image_token_id cfg) ids) ys = concat cs)"
proof (cases "pixel_values inp")
  case (Some pv)
  with assms(1) obtain cs where cs: "get_image_features visual merge_size pv (image_grid_thw inp) = Inr cs"
    "length (masked_select (map (\<lambda>x. x = image_token_id cfg) ids) xs) = length (concat cs)"
    "masked_scatter (map (\<lambda>x. x = image_token_id cfg) ids) xs (concat cs) = Inr ys"
    using assms(2) by (auto simp: image_stage_def get_placeholder_mask_def token_mask_def expand_as_def res_iffs)
  with Some masked_scatter_ok [OF cs(3) assms(2)] masked_scatter_full [OF cs(3) assms(2) cs(2)]
  show ?thesis by simp
qed (use assms in \<open>simp add: image_stage_def\<close>)

lemma video_stage_ok:
  assumes "video_stage cfg embed_token visual merge_size (Some ids) inp xs = Inr ys" and "length xs = length ids"
  shows "length ys = length ids \<and> (\<forall>i < length ids. ids ! i \<noteq> video_token_id cfg \<longrightarrow> ys ! i = xs ! i) \<and>
    (\<forall>pv cs. pixel_values_videos inp = Some pv \<longrightarrow>
       get_image_features visual merge_size pv (video_grid_thw inp) = Inr cs \<longrightarrow>
     masked_select (map (\<lambda>x. x = video_token_id cfg) ids) ys = concat cs)"
proof (cases "pixel_values_videos inp")
  case (Some pv)
  with assms(1) obtain cs where cs: "get_image_features visual merge_size pv (video_grid_thw inp) = Inr cs"
    "length (masked_select (map (\<lambda>x. x = video_token_id cfg) ids) xs) = length (concat cs)"
    "masked_scatter (map (\<lambda>x. x = video_token_id cfg) ids) xs (concat cs) = Inr ys"
    using assms(2) by (auto simp: video_stage_def get_placeholder_mask_def token_mask_def expand_as_def res_iffs)
  with Some masked_scatter_ok [OF cs(3) assms(2)] masked_scatter_full [OF cs(3) assms(2) cs(2)]
  show ?thesis by simp
qed (use assms in \<open>simp add: video_stage_def\<close>)

text \<open>
  C16: The Hugging Face model never changes a text position: whatever media is supplied, an
  embedding whose token is none of the three placeholders is in the result the token's own
  embedding, or the one the caller gave for it; image and video placeholders hold exactly the rows of the encoder, in order, and
  the audio placeholders the first rows of the audio encoder (surplus audio rows, unlike
  surplus image or video rows, are not reported).
\<close>

theorem forward_embeds_correct:
  assumes ids: "distinct (special_ids cfg)"
    and given: "case given_embeds of None \<Rightarrow> True | Some es \<Rightarrow> length es = length input_ids"
    and run: "forward_embeds cfg embed_token audio_tower visual merge_size (Some input_ids) given_embeds inp = Inr out"
  shows "length out = length input_ids \<and>
    (\<forall>i < length input_ids. input_ids ! i \<notin> {image_token_id cfg, video_token_id cfg, audio_token_id cfg} \<longrightarrow>
       out ! i = (case given_embeds of None \<Rightarrow> embed_token (input_ids ! i) | Some es \<Rightarrow> es ! i)) \<and>
    (\<forall>pv chunks. pixel_values_videos inp = Some pv \<longrightarrow>
       get_image_features visual merge_size pv (video_grid_thw inp) = Inr chunks \<longrightarrow>
       masked_select (map (\<lambda>x. x = video_token_id cfg) input_ids) out = concat chunks) \<and>
    (\<forall>pv chunks. pixel_values inp = Some pv \<longrightarrow>
       get_image_features visual merge_size pv (image_grid_thw inp) = Inr chunks \<longrightarrow>
       masked_select (map (\<lambda>x. x = image_token_id cfg) input_ids) out = concat chunks) \<and>
    (\<forall>feats fs. input_features inp = Some feats \<longrightarrow>
       get_audio_features audio_tower feats (feature_attention_mask inp) (audio_feature_lengths inp) = Inr fs \<longrightarrow>
       masked_select (map (\<lambda>x. x = audio_token_id cfg) input_ids) out =
         take (count_list input_ids (audio_token_id cfg)) fs)"
proof -
  let ?M = "\<lambda>tok. map (\<lambda>x. x = tok) input_ids"
  let ?A = "audio_token_id cfg" and ?I = "image_token_id cfg" and ?V = "video_token_id cfg"
  let ?base = "case given_embeds of None \<Rightarrow> map embed_token input_ids | Some es \<Rightarrow> es"
  have base: "length ?base = length input_ids" using given by (simp split: option.splits)
  have "initial_embeds embed_token (Some input_ids) given_embeds = Inr ?base"
    by (simp add: initial_embeds_def split: option.split)
  with run obtain xs ys where
    st: "audio_stage cfg embed_token audio_tower (Some input_ids) inp ?base = Inr xs"
      "image_stage cfg embed_token visual merge_size (Some input_ids) inp xs = Inr ys"
      "video_stage cfg embed_token visual merge_size (Some input_ids) inp ys = Inr out"
    by (auto simp: forward_embeds_def rbind_eq_Inr)
  note x = audio_stage_ok [OF st(1) base] note y = image_stage_ok [OF st(2)] note z = video_stage_ok [OF st(3)]
  have lx: "length xs = length input_ids" using x by simp
  have ly: "length ys = length input_ids" using y lx by simp
  have I: "masked_select (?M ?I) out = masked_select (?M ?I) ys"
    using ids z ly by (auto simp: special_ids_def intro!: masked_select_cong)
  have A: "masked_select (?M ?A) out = masked_select (?M ?A) xs"
    using ids y z ly lx by (auto simp: special_ids_def intro!: masked_select_cong)
  have plain: "?base ! i = (case given_embeds of None \<Rightarrow> embed_token (input_ids ! i) | Some es \<Rightarrow> es ! i)"
    if "i < length input_ids" for i using that by (simp split: option.split)
  have "out ! i = (case given_embeds of None \<Rightarrow> embed_token (input_ids ! i) | Some es \<Rightarrow> es ! i)"
    if "i < length input_ids" "input_ids ! i \<notin> {?I, ?V, ?A}" for i
    using that x y z lx ly plain by simp
  then show ?thesis using x y z I A lx ly by simp
qed

theorem forward_embeds_correct_witness:
  "\<exists>out. forward_embeds default_token_ids (\<lambda>x. x) (\<lambda>_ _. Inr []) (\<lambda>_ _. [70, 80]) 2 (Some [11, 248057, 248057]) None
     (\<lparr>input_features = None, feature_attention_mask = None, audio_feature_lengths = None,
       pixel_values = None, image_grid_thw = [], pixel_values_videos = Some (), video_grid_thw = [(2, 2, 2)]\<rparr>
      :: (nat, unit) forward_inputs) = Inr out \<and>
   out ! 0 = 11 \<and> masked_select [False, True, True] out = [70, 80 :: int]"
proof -
  let ?inp = "\<lparr>input_features = None, feature_attention_mask = None, audio_feature_lengths = None,
    pixel_values = None, image_grid_thw = [], pixel_values_videos = Some (), video_grid_thw = [(2, 2, 2)]\<rparr>
    :: (nat, unit) forward_inputs"
  have feats: "get_image_features (\<lambda>_ _. [70, 80]) 2 () [(2, 2, 2)] = Inr [[70, 80 :: int]]" by code_simp
  have run: "forward_embeds default_token_ids (\<lambda>x. x) (\<lambda>_ _. Inr []) (\<lambda>_ _. [70, 80]) 2 (Some [11, 248057, 248057]) None ?inp =
    Inr [11, 70, 80]" by code_simp
  from forward_embeds_correct [OF default_special_ids_distinct _ run] feats
  show ?thesis unfolding run by (intro exI [of _ "[11, 70, 80]"]) (simp add: default_token_ids_def All_less_Suc2)
qed

section \<open>Stale metadata\<close>

text \<open>
  Calls that do not mix video and audio leave their modalities behind, so that the
  attribute grows with every such call.
\<close>

lemma unmixed_calls_accumulate:
  assumes "embed_multimodal process keys (Some ms) = (Inr es, recorded)"
    and "mm_input_modalities keys \<noteq> []"
    and "\<not> (video_token_id cfg \<in> set input_ids \<and> audio_token_id cfg \<in> set input_ids)"
  shows "\<exists>new. snd (embed_input_ids cfg oov embed_ids recorded input_ids (Some es) is_multimodal) =
      Some (ms @ new) \<and> length new = length es"
proof -
  have kept: "snd (embed_input_ids cfg oov embed_ids recorded input_ids (Some es) is_multimodal) = recorded"
    using assms(3)
    by (auto simp: embed_input_ids_def modality_mask_def Let_def dest: set_zip_rightD split: option.split)
  obtain outs where "es = concat (map snd outs)"
      "recorded = Some (ms @ concat (map (\<lambda>(m, chunks). replicate (length chunks) m) outs))"
    using assms(1,2) by (auto simp: embed_multimodal_def split: list.splits sum.splits)
  then show ?thesis unfolding kept by (simp add: length_concat comp_def case_prod_unfold)
qed

lemma unmixed_calls_accumulate_witness:
  "\<exists>new. snd (embed_input_ids default_token_ids False (\<lambda>x. x) (Some [''image'', ''image'']) [248056]
      (Some [[7]]) (Some [True])) = Some ([''image''] @ new) \<and> length new = 1"
proof -
  have "embed_multimodal (\<lambda>_. Inr [[7 :: int]]) [''pixel_values''] (Some [''image'']) =
    (Inr [[7]], Some [''image'', ''image''])" by code_simp
  moreover have "mm_input_modalities [''pixel_values''] \<noteq> []" by code_simp
  ultimately show ?thesis
    using unmixed_calls_accumulate [of "\<lambda>_. Inr [[7 :: int]]" "[''pixel_values'']" "[''image'']" "[[7]]"
        "Some [''image'', ''image'']" default_token_ids "[248056]" False "\<lambda>x. x" "Some [True]"]
    by (simp add: default_token_ids_def)
qed








end
