(* ===== verification/Prompt_Updates.thy ===== *)
theory Prompt_Updates
  imports Video_Spans Embedding_Merge "HOL-Library.AList"
begin

text \<open>
  The vLLM multimodal processor (\<open>TLiveOmniMultiModalProcessor\<close> of
  \<open>src/vllm/vllm/model_executor/models/tlive_omni.py\<close>): the audio lengths it computes, the
  replacement of each media marker by its token sequence, the audio placeholders it derives
  from video placeholders, the choice between the ways of applying updates, and the way back
  from an expanded prompt to the raw prompt.
\<close>

section \<open>Audio preparation\<close>

definition pad_to_hop_length :: "'s \<Rightarrow> 's list \<Rightarrow> nat \<Rightarrow> 's list" where
  "pad_to_hop_length zero x hop_length =
     (if length x mod hop_length \<noteq> 0
      then x @ replicate (hop_length - length x mod hop_length) zero
      else x)"

text \<open>
  The frame counts of the unpadded audios, which replace the ones of the feature extractor.
  With truncation a count is capped by the extractor's window.
\<close>

definition audio_num_frames :: "nat list \<Rightarrow> nat \<Rightarrow> bool \<Rightarrow> nat \<Rightarrow> nat list" where
  "audio_num_frames orig_lengths hop_length truncation n_samples =
     map (\<lambda>audio_length.
       let num_frame = audio_length div hop_length
       in if truncation then min num_frame (n_samples div hop_length) else num_frame) orig_lengths"

definition cut_features :: "'f list \<Rightarrow> nat list \<Rightarrow> 'f list" where
  "cut_features feat num_frames =
     (if length feat > sum_list num_frames then take (sum_list num_frames) feat else feat)"

text \<open>
  The timestamps of the videos: from the frame numbers where the metadata has them, otherwise
  the grid numbers.
\<close>

definition metadata_timestamps :: "int list \<Rightarrow> rat \<Rightarrow> nat \<Rightarrow> rat list res" where
  "metadata_timestamps indices video_fps temporal_patch_size =
     (if temporal_patch_size = 0 then Inl ZeroDivisionError
      else rbind (map_res (\<lambda>idx. py_truediv idx video_fps) (pad_indices temporal_patch_size indices))
        (\<lambda>raw_ts. Inr (map (\<lambda>i. f64 (f64 (raw_ts ! i + raw_ts ! (i + temporal_patch_size - 1)) / 2))
                    (range_step (length raw_ts) temporal_patch_size))))"

definition video_timestamps ::
    "nat \<Rightarrow> (int list option \<times> rat) list \<Rightarrow> nat list \<Rightarrow> rat list list res" where
  "video_timestamps temporal_patch_size metadatas grid_ts =
     map_res (\<lambda>(i, frames, video_fps).
       case frames of
         None \<Rightarrow> rbind (of_option IndexError (if i < length grid_ts then Some (grid_ts ! i) else None))
                  (\<lambda>t. Inr (map of_nat [0..<t]))
       | Some indices \<Rightarrow> metadata_timestamps indices video_fps temporal_patch_size)
      (zip [0..<length metadatas] metadatas)"

section \<open>Field sizes\<close>

text \<open>How the flat tensors are cut into items (\<open>flat_from_sizes\<close>).\<close>

definition pixel_grid_sizes :: "(int \<times> int \<times> int) list \<Rightarrow> int list" where
  "pixel_grid_sizes grids = map (\<lambda>(t, h, w). t * h * w) grids"

definition embed_grid_sizes :: "int \<Rightarrow> (int \<times> int \<times> int) list \<Rightarrow> int list" where
  "embed_grid_sizes spatial_merge_size grids =
     map (\<lambda>n. n div spatial_merge_size div spatial_merge_size) (pixel_grid_sizes grids)"

definition mm_max_tokens_per_item ::
    "(string \<times> nat) list \<Rightarrow> (string \<Rightarrow> nat) \<Rightarrow> nat \<Rightarrow> (string \<times> nat) list" where
  "mm_max_tokens_per_item mm_counts vl_tokens audio_tokens =
     (let requested = map fst (filter (\<lambda>(_, c). c > 0) mm_counts)
      in map (\<lambda>m. (m, vl_tokens m)) (filter (\<lambda>m. m \<in> set requested) [''image'', ''video'']) @
         (if ''audio'' \<in> set requested then [(''audio'', audio_tokens)] else []))"

section \<open>Replacements\<close>

text \<open>The output lengths of the audios of a request.\<close>

definition audio_output_lengths :: "int list option \<Rightarrow> bool list list option \<Rightarrow> int list" where
  "audio_output_lengths lens attention =
     (case lens of
        Some ls \<Rightarrow> map get_feat_extract_output_lengths ls
      | None \<Rightarrow>
          case attention of
            None \<Rightarrow> []
          | Some rows \<Rightarrow> map (\<lambda>row. get_feat_extract_output_lengths (int (count_list row True))) rows)"

text \<open>The two counters that the replacement functions share.\<close>

record update_state =
  audio_in_video_item_idx :: nat
  audio_item_idx :: nat

definition get_replacement_audio ::
    "int \<Rightarrow> int list \<Rightarrow> nat \<Rightarrow> update_state \<Rightarrow> int list res \<times> update_state" where
  "get_replacement_audio audio_tok output_lengths item_idx st =
     (let idx = item_idx + audio_in_video_item_idx st;
          st' = st\<lparr>audio_item_idx := audio_item_idx st + 1\<rparr>
      in (rbind (py_nth output_lengths (int idx)) (\<lambda>num_features.
            if num_features = 0
            then Inl (ValueError ''The audio is too short to be represented inside the model'')
            else Inr (py_repeat num_features audio_tok)), st'))"

definition get_replacement_image :: "int \<Rightarrow> int \<Rightarrow> (int \<times> int \<times> int) list \<Rightarrow> nat \<Rightarrow> int list res" where
  "get_replacement_image image_tok merge_size grids item_idx =
     rbind (py_nth grids (int item_idx)) (\<lambda>(t, h, w).
     rbind (require (merge_size \<noteq> 0) ZeroDivisionError) (\<lambda>_.
       Inr (py_repeat ((t * h * w) div merge_size ^ 2) image_tok)))"

text \<open>
  The timestamps of a silent video: from the processor's data, else from the metadata, else
  the grid numbers.
\<close>

definition vision_timestamps ::
    "rat list list option \<Rightarrow> (int list option \<times> rat) list option \<Rightarrow> nat \<Rightarrow> nat \<Rightarrow> nat \<Rightarrow> rat list res" where
  "vision_timestamps data_timestamps metadatas temporal_patch_size num_frames item_idx =
     (case data_timestamps of
        Some tss \<Rightarrow> py_nth tss (int item_idx)
      | None \<Rightarrow>
          case metadatas of
            None \<Rightarrow> Inr (map of_nat [0..<num_frames])
          | Some mds \<Rightarrow>
              if item_idx < length mds then
                (case mds ! item_idx of
                   (None, _) \<Rightarrow> Inr (map of_nat [0..<num_frames])
                 | (Some indices, rate) \<Rightarrow> metadata_timestamps indices rate temporal_patch_size)
              else Inr (map of_nat [0..<num_frames]))"

definition get_replacement_video ::
    "int \<Rightarrow> int \<Rightarrow> int \<Rightarrow> int \<Rightarrow> (string \<Rightarrow> int list) \<Rightarrow> (int \<times> int \<times> int) list \<Rightarrow>
     rat list list option \<Rightarrow> (int list option \<times> rat) list option \<Rightarrow> nat \<Rightarrow> nat \<Rightarrow> int list res" where
  "get_replacement_video video_tok vision_start vision_end merge_size encode grids
     data_timestamps metadatas temporal_patch_size item_idx =
     rbind (py_nth grids (int item_idx)) (\<lambda>(t, h, w).
     rbind (require (merge_size \<noteq> 0) ZeroDivisionError) (\<lambda>_.
     rbind (vision_timestamps data_timestamps metadatas temporal_patch_size (nat t) item_idx) (\<lambda>timestamps.
       Inr (concat (map (\<lambda>ts. encode (timestamp_text ts) @ [vision_start] @
             py_repeat ((h * w) div merge_size ^ 2) video_tok @ [vision_end]) timestamps)))))"

text \<open>
  A video with sound takes the next unused audio. Its timestamps come from the metadata first
  and from the processor's data second; \<open>None\<close> leaves them to the span builder.
\<close>

definition av_timestamps ::
    "(int list option \<times> rat) list option \<Rightarrow> rat list list option \<Rightarrow> nat \<Rightarrow> nat \<Rightarrow> rat list option res" where
  "av_timestamps metadatas data_timestamps temporal_patch_size item_idx =
     rbind (case metadatas of
              None \<Rightarrow> Inr None
            | Some mds \<Rightarrow>
                if item_idx < length mds then
                  (case mds ! item_idx of
                     (None, _) \<Rightarrow> Inr None
                   | (Some indices, rate) \<Rightarrow>
                       rbind (metadata_timestamps indices rate temporal_patch_size) (\<lambda>ts. Inr (Some ts)))
                else Inr None) (\<lambda>ts.
     case ts of
       Some l \<Rightarrow> Inr (Some l)
     | None \<Rightarrow>
         case data_timestamps of
           None \<Rightarrow> Inr None
         | Some tss \<Rightarrow> rbind (py_nth tss (int item_idx)) (\<lambda>l. Inr (Some l)))"

definition video_second_per_grid :: "rat list option \<Rightarrow> rat list \<Rightarrow> nat \<Rightarrow> rat res" where
  "video_second_per_grid data_seconds kwargs_seconds item_idx =
     (case data_seconds of
        Some ss \<Rightarrow> py_nth ss (int item_idx)
      | None \<Rightarrow> if kwargs_seconds \<noteq> [] then py_nth kwargs_seconds (int item_idx) else Inr 2)"

definition get_replacement_use_audio_in_video ::
    "'z TLiveOmniTokenIds_scheme \<Rightarrow> int \<Rightarrow> int \<Rightarrow> int \<Rightarrow> (string \<Rightarrow> int list) \<Rightarrow> int list \<Rightarrow>
     (int \<times> int \<times> int) list \<Rightarrow> rat list option \<Rightarrow> rat list \<Rightarrow> (int list option \<times> rat) list option \<Rightarrow>
     rat list list option \<Rightarrow> nat \<Rightarrow> nat \<Rightarrow> update_state \<Rightarrow> int list res \<times> update_state" where
  "get_replacement_use_audio_in_video cfg vision_start vision_end spatial_merge_size encode
     output_lengths grids data_seconds kwargs_seconds metadatas data_timestamps temporal_patch_size
     item_idx st =
     (case rbind (py_nth output_lengths (int (audio_in_video_item_idx st))) (\<lambda>n.
           rbind (py_nth grids (int item_idx)) (\<lambda>thw. Inr (n, thw))) of
        Inl e \<Rightarrow> (Inl e, st)
      | Inr (audio_num_features, thw) \<Rightarrow>
          let st' = st\<lparr>audio_in_video_item_idx := audio_in_video_item_idx st + 1\<rparr>
          in (rbind (video_second_per_grid data_seconds kwargs_seconds item_idx) (\<lambda>seconds.
              rbind (av_timestamps metadatas data_timestamps temporal_patch_size item_idx) (\<lambda>timestamps.
              get_updates_use_audio_in_video cfg vision_start vision_end spatial_merge_size encode
                audio_num_features thw seconds timestamps)), st'))"

section \<open>Derived audio placeholders\<close>

record placeholder_info =
  ph_modality :: string
  ph_item_idx :: nat
  ph_start_idx :: nat
  ph_tokens :: "int list"
  ph_is_embed :: "bool list option"

type_synonym placeholders = "(string \<times> placeholder_info list) list"

definition derive_audio_from_video_placeholders ::
    "int \<Rightarrow> placeholders \<Rightarrow> nat \<Rightarrow> placeholders res" where
  "derive_audio_from_video_placeholders audio_tok phs num_audios =
     (case map_of phs ''video'' of
        None \<Rightarrow> Inr phs
      | Some videos \<Rightarrow>
          if num_audios \<noteq> length videos
          then Inl (ValueError ''use_audio_in_video requires equal number of audio and video items'')
          else
            let audios = map (\<lambda>(i, v).
                  \<lparr>ph_modality = ''audio'', ph_item_idx = i, ph_start_idx = ph_start_idx v,
                   ph_tokens = ph_tokens v, ph_is_embed = Some (map (\<lambda>x. x = audio_tok) (ph_tokens v))\<rparr>)
                  (zip [0..<length videos] videos)
            in Inr (AList.update ''audio'' audios phs))"

section \<open>Choosing how to apply the updates\<close>

text \<open>
  An item of the video arguments is absent (it comes from the cache) or carries its
  \<open>use_audio_in_video\<close> flag, if that is set.
\<close>

definition detect_use_audio_in_video ::
    "'z TLiveOmniTokenIds_scheme \<Rightarrow> bool option option list option \<Rightarrow> int list \<Rightarrow> nat \<Rightarrow> nat \<Rightarrow>
     nat option \<Rightarrow> nat option \<Rightarrow> bool" where
  "detect_use_audio_in_video cfg video_items prompt_ids n_videos n_audios audio_updates video_updates =
     (case video_items of
        None \<Rightarrow> False
      | Some items \<Rightarrow>
          let flagged = list_ex (\<lambda>item. item = Some (Some True)) items;
              has_video_token = video_token_id cfg \<in> set prompt_ids;
              has_audio_token = audio_token_id cfg \<in> set prompt_ids;
              inferred =
                (n_videos > 0 \<and> n_audios > 0 \<and> has_video_token \<and> \<not> has_audio_token) \<or>
                (has_video_token \<and> has_audio_token \<and> audio_updates \<noteq> None \<and> video_updates \<noteq> None);
              item_num = length (filter (\<lambda>x. x = video_token_id cfg \<or> x = audio_token_id cfg) prompt_ids);
              mismatch = list_ex (\<lambda>item. item = None) items \<and>
                item_num \<noteq> (case video_updates of None \<Rightarrow> 0 | Some n \<Rightarrow> n) +
                           (case audio_updates of None \<Rightarrow> 0 | Some n \<Rightarrow> n)
          in flagged \<or> inferred \<or> mismatch)"

text \<open>
  \<open>find_placeholders\<close> and \<open>apply_updates\<close> are the base class's operations on the updates of the
  named modalities, \<open>validate\<close> its final check.
\<close>

definition n_placeholders :: "placeholders \<Rightarrow> string \<Rightarrow> nat" where
  "n_placeholders phs m = (case map_of phs m of None \<Rightarrow> 0 | Some l \<Rightarrow> length l)"

definition maybe_apply_prompt_updates ::
    "int \<Rightarrow> (string list \<Rightarrow> int list \<Rightarrow> (int list \<times> placeholders) res) \<Rightarrow> (int list \<Rightarrow> placeholders) \<Rightarrow>
     (placeholders \<Rightarrow> unit res) \<Rightarrow> string list \<Rightarrow> (string \<times> nat) list \<Rightarrow> bool \<Rightarrow> bool \<Rightarrow> int list \<Rightarrow>
     (int list \<times> placeholders) res" where
  "maybe_apply_prompt_updates audio_tok apply_updates find_placeholders validate update_modalities
     item_counts use_audio is_update_applied prompt_ids =
     rbind
       (if is_update_applied then
          let phs = find_placeholders prompt_ids
          in if list_ex (\<lambda>(m, c). c > 0 \<and> n_placeholders phs m \<noteq> c) item_counts
             then apply_updates update_modalities prompt_ids
             else Inr (prompt_ids, phs)
        else if use_audio then
          rbind (apply_updates (filter (\<lambda>m. m \<noteq> ''audio'') update_modalities) prompt_ids) (\<lambda>(ids, phs).
          rbind (derive_audio_from_video_placeholders audio_tok phs
                   (case map_of item_counts ''audio'' of None \<Rightarrow> 0 | Some c \<Rightarrow> c)) (\<lambda>phs'.
          if n_placeholders phs' ''video'' \<noteq> (case map_of item_counts ''video'' of None \<Rightarrow> 0 | Some c \<Rightarrow> c)
          then apply_updates update_modalities ids
          else Inr (ids, phs')))
        else apply_updates update_modalities prompt_ids)
       (\<lambda>(ids, phs). rbind (validate phs) (\<lambda>_. Inr (ids, phs)))"

section \<open>The raw prompt\<close>

record raw_tokens =
  rt_vision_bos :: int
  rt_vision_eos :: int
  rt_audio_bos :: int
  rt_audio_eos :: int
  rt_audio :: int
  rt_image :: int
  rt_video :: int

text \<open>The first index from \<open>st\<close> on at which the two tokens stand side by side.\<close>

fun find_pair :: "int \<Rightarrow> int \<Rightarrow> nat \<Rightarrow> int list \<Rightarrow> nat option" where
  "find_pair a b (Suc st) (x # xs) = map_option Suc (find_pair a b st xs)"
| "find_pair a b 0 (x # y # xs) =
     (if x = a \<and> y = b then Some 0 else map_option Suc (find_pair a b 0 (y # xs)))"
| "find_pair a b st xs = None"

text \<open>
  The loop that collapses the interleaved spans starts over after each replacement. When a
  span is opened and not closed, the list is left as it is and the loop starts over with it.
\<close>

partial_function (option) collapse_spans :: "raw_tokens \<Rightarrow> int list \<Rightarrow> int list option" where
  "collapse_spans tk result =
     (case find_pair (rt_vision_bos tk) (rt_audio_bos tk) 0 result of
        None \<Rightarrow> Some result
      | Some start \<Rightarrow>
          (case find_pair (rt_audio_eos tk) (rt_vision_eos tk) (start + 2) result of
             None \<Rightarrow> collapse_spans tk result
           | Some stop \<Rightarrow> collapse_spans tk
               (take start result @ [rt_vision_bos tk, rt_video tk, rt_vision_eos tk] @
                drop (stop + 2) result)))"

text \<open>\<open>compressed\<close>: runs of the token shrink to one.\<close>

definition compress :: "int \<Rightarrow> int list \<Rightarrow> int list" where
  "compress mm_token xs =
     foldl (\<lambda>out x. if x \<noteq> mm_token \<or> out = [] \<or> last out \<noteq> mm_token then out @ [x] else out) [] xs"

definition get_raw_input_ids :: "raw_tokens \<Rightarrow> bool \<Rightarrow> int list \<Rightarrow> int list option" where
  "get_raw_input_ids tk use_audio_in_video ids =
     map_option (\<lambda>result. foldl (\<lambda>r t. compress t r) result [rt_audio tk, rt_image tk, rt_video tk])
       (if use_audio_in_video then collapse_spans tk ids else Some ids)"

section \<open>Searching for a pair of tokens\<close>

lemma find_pair_offset:
  "find_pair a b (length xs) (xs @ ys) = map_option ((+) (length xs)) (find_pair a b 0 ys)"
  by (induction xs) (simp_all add: option.map_comp comp_def option.map_ident)

lemma find_pair_None:
  "find_pair a b 0 xs = None \<longleftrightarrow> (\<forall>i. Suc i < length xs \<longrightarrow> \<not> (xs ! i = a \<and> xs ! Suc i = b))"
proof (induction a b "0::nat" xs rule: find_pair.induct)
  case (2 a b x y xs)
  then show ?case by (auto simp: nth_Cons All_less_Suc2 split: nat.splits)
qed auto

lemma find_pair_prefix: "find_pair a b 0 (xs @ ys) = None \<Longrightarrow> find_pair a b 0 xs = None"
  unfolding find_pair_None by (metis Suc_lessD length_append nth_append trans_less_add1)

lemma find_pair_first:
  "find_pair a b 0 (xs @ [a]) = None \<Longrightarrow> find_pair a b 0 (xs @ a # b # ys) = Some (length xs)"
proof (induction xs)
  case (Cons x xs)
  then show ?case by (cases xs) (auto split: if_splits)
qed simp

section \<open>Collapsing spans\<close>

text \<open>
  An expanded prompt as a sequence of plain tokens, runs of one media token and interleaved
  spans; what each of them looks like in the expanded prompt, after the spans are collapsed,
  and in the raw prompt.
\<close>

datatype prompt_item = Plain int | Run int nat | Span "int list"

fun expanded :: "raw_tokens \<Rightarrow> prompt_item \<Rightarrow> int list" where
  "expanded tk (Plain x) = [x]"
| "expanded tk (Run t n) = replicate n t"
| "expanded tk (Span body) =
     [rt_vision_bos tk, rt_audio_bos tk] @ body @ [rt_audio_eos tk, rt_vision_eos tk]"

fun collapsed :: "raw_tokens \<Rightarrow> prompt_item \<Rightarrow> int list" where
  "collapsed tk (Plain x) = [x]"
| "collapsed tk (Run t n) = replicate n t"
| "collapsed tk (Span body) = [rt_vision_bos tk, rt_video tk, rt_vision_eos tk]"

fun raw :: "raw_tokens \<Rightarrow> prompt_item \<Rightarrow> int list" where
  "raw tk (Plain x) = [x]"
| "raw tk (Run t n) = [t]"
| "raw tk (Span body) = [rt_vision_bos tk, rt_video tk, rt_vision_eos tk]"

fun n_spans :: "prompt_item list \<Rightarrow> nat" where
  "n_spans [] = 0"
| "n_spans (Span b # items) = Suc (n_spans items)"
| "n_spans (item # items) = n_spans items"

text \<open>
  A span ends at its first closing pair, and no pair of tokens opens a span by accident.
\<close>

definition closed_span :: "raw_tokens \<Rightarrow> prompt_item \<Rightarrow> bool" where
  "closed_span tk item = (case item of
       Span body \<Rightarrow> find_pair (rt_audio_eos tk) (rt_vision_eos tk) 0 (body @ [rt_audio_eos tk]) = None
     | _ \<Rightarrow> True)"

definition well_formed_items :: "raw_tokens \<Rightarrow> prompt_item list \<Rightarrow> bool" where
  "well_formed_items tk items \<longleftrightarrow> list_all (closed_span tk) items \<and>
     find_pair (rt_vision_bos tk) (rt_audio_bos tk) 0 (concat (map (collapsed tk) items)) = None"

lemma n_spans_append [simp]: "n_spans (xs @ ys) = n_spans xs + n_spans ys"
  by (induction xs rule: n_spans.induct) simp_all

lemma n_spans_0: "n_spans items = 0 \<Longrightarrow> concat (map (expanded tk) items) = concat (map (collapsed tk) items)"
  by (induction items rule: n_spans.induct) simp_all

lemma first_span:
  "n_spans items = Suc n \<Longrightarrow>
     \<exists>pre body rest. items = pre @ Span body # rest \<and> n_spans pre = 0 \<and> n_spans rest = n"
proof (induction items)
  case (Cons item items)
  show ?case
  proof (cases "\<exists>b. item = Span b")
    case True
    then obtain b where b: "item = Span b" by blast
    with Cons.prems have "item # items = [] @ Span b # items \<and> n_spans [] = 0 \<and> n_spans items = n" by simp
    then show ?thesis by blast
  next
    case False
    then have item: "n_spans (item # xs) = n_spans xs" for xs by (cases item) simp_all
    with Cons obtain pre body rest where "items = pre @ Span body # rest" "n_spans pre = 0" "n_spans rest = n"
      by auto
    with item have "item # items = (item # pre) @ Span body # rest \<and> n_spans (item # pre) = 0 \<and> n_spans rest = n"
      by simp
    then show ?thesis by blast
  qed
qed simp

lemma collapse_spans_items:
  "well_formed_items tk items \<Longrightarrow>
     collapse_spans tk (concat (map (expanded tk) items)) = Some (concat (map (collapsed tk) items))"
proof (induction "n_spans items" arbitrary: items)
  case 0
  then show ?case
    by (subst collapse_spans.simps) (simp add: n_spans_0 well_formed_items_def)
next
  case (Suc n)
  let ?vb = "rt_vision_bos tk" and ?ab = "rt_audio_bos tk" and ?ae = "rt_audio_eos tk"
    and ?ve = "rt_vision_eos tk"
  from first_span [OF Suc.hyps(2) [symmetric]] obtain pre body rest
    where items: "items = pre @ Span body # rest" and pre: "n_spans pre = 0" and n: "n_spans rest = n" by blast
  let ?xs = "concat (map (collapsed tk) pre)" and ?tail = "concat (map (expanded tk) rest)"
  let ?new = "pre @ [Plain ?vb, Plain (rt_video tk), Plain ?ve] @ rest"
  have whole: "concat (map (expanded tk) items) = ?xs @ ?vb # ?ab # body @ ?ae # ?ve # ?tail"
    by (simp add: items n_spans_0 [OF pre])
  have "find_pair ?vb ?ab 0 (?xs @ [?vb]) = None"
    using Suc.prems find_pair_prefix [of ?vb ?ab "?xs @ [?vb]"] by (auto simp: items well_formed_items_def)
  then have start: "find_pair ?vb ?ab 0 (concat (map (expanded tk) items)) = Some (length ?xs)"
    unfolding whole by (rule find_pair_first)
  have "find_pair ?ae ?ve 0 (body @ ?ae # ?ve # ?tail) = Some (length body)"
    using Suc.prems by (intro find_pair_first) (simp add: items well_formed_items_def closed_span_def)
  then have stop: "find_pair ?ae ?ve (length ?xs + 2) (concat (map (expanded tk) items)) =
      Some (length ?xs + 2 + length body)"
    using find_pair_offset [of ?ae ?ve "?xs @ [?vb, ?ab]" "body @ ?ae # ?ve # ?tail"] by (simp add: whole)
  have tail: "drop (length ?xs + 2 + length body + 2) (concat (map (expanded tk) items)) = ?tail"
    unfolding whole by (simp add: numeral_eq_Suc del: map_append)
  have "collapse_spans tk (concat (map (expanded tk) items)) =
      collapse_spans tk (concat (map (expanded tk) ?new))"
    by (subst collapse_spans.simps, simp only: start stop option.case tail) (simp add: whole n_spans_0 [OF pre])
  also have "\<dots> = Some (concat (map (collapsed tk) ?new))"
    using Suc.prems pre n by (intro Suc.hyps(1)) (simp_all add: items well_formed_items_def closed_span_def)
  finally show ?case by (simp add: items)
qed

text \<open>The loop does not end on a list whose first span is not closed.\<close>

lemma collapse_spans_returns:
  assumes "collapse_spans tk ids = Some out"
  shows "find_pair (rt_vision_bos tk) (rt_audio_bos tk) 0 ids = Some start \<Longrightarrow>
     find_pair (rt_audio_eos tk) (rt_vision_eos tk) (start + 2) ids \<noteq> None"
proof -
  let ?P = "\<lambda>tk ids out. \<forall>start. find_pair (rt_vision_bos tk) (rt_audio_bos tk) 0 ids = Some start \<longrightarrow>
     find_pair (rt_audio_eos tk) (rt_vision_eos tk) (start + 2) ids \<noteq> None"
  have "?P tk ids out"
    by (rule collapse_spans.raw_induct [where P = ?P, OF _ assms]) (fastforce split: option.splits)
  then show "find_pair (rt_vision_bos tk) (rt_audio_bos tk) 0 ids = Some start \<Longrightarrow>
     find_pair (rt_audio_eos tk) (rt_vision_eos tk) (start + 2) ids \<noteq> None" by blast
qed

section \<open>Compression\<close>

fun squeeze :: "int \<Rightarrow> int list \<Rightarrow> int list" where
  "squeeze t (x # y # zs) = (if x = t \<and> y = t then squeeze t (y # zs) else x # squeeze t (y # zs))"
| "squeeze t xs = xs"

lemma compress_squeeze: "compress t xs = squeeze t xs"
proof -
  let ?step = "\<lambda>out x. if x \<noteq> t \<or> out = [] \<or> last out \<noteq> t then out @ [x] else out"
  have "foldl ?step (out @ [l]) xs = out @ squeeze t (l # xs)" for out l xs
  proof (induction xs arbitrary: out l)
    case (Cons x xs)
    show ?case using Cons [of "out @ [l]" x] Cons [of out l] by auto
  qed simp
  from this [of "[]"] show ?thesis by (cases xs) (simp_all add: compress_def)
qed

lemma squeeze_append:
  assumes "xs = [] \<or> ys = [] \<or> last xs \<noteq> t \<or> hd ys \<noteq> t"
  shows "squeeze t (xs @ ys) = squeeze t xs @ squeeze t ys"
  using assms by (induction t xs rule: squeeze.induct; cases ys) auto

lemma squeeze_replicate: "0 < n \<Longrightarrow> squeeze t (replicate n u) = (if u = t then [t] else replicate n u)"
proof (induction n)
  case (Suc n)
  then show ?case by (cases n) auto
qed simp

text \<open>An item whose runs of the tokens in \<open>S\<close> are already reduced to one.\<close>

fun reduced :: "raw_tokens \<Rightarrow> int set \<Rightarrow> prompt_item \<Rightarrow> int list" where
  "reduced tk S (Run t n) = replicate (if t \<in> S then 1 else n) t"
| "reduced tk S item = collapsed tk item"

definition media_tokens :: "raw_tokens \<Rightarrow> int set" where
  "media_tokens tk = {rt_audio tk, rt_image tk, rt_video tk}"

text \<open>
  Media tokens occur in runs and spans only, runs are not empty, and no two runs of the same
  token touch each other.
\<close>

fun media_in_runs :: "raw_tokens \<Rightarrow> prompt_item \<Rightarrow> bool" where
  "media_in_runs tk (Plain x) \<longleftrightarrow> x \<notin> media_tokens tk"
| "media_in_runs tk (Run t n) \<longleftrightarrow> t \<in> media_tokens tk \<and> 0 < n"
| "media_in_runs tk (Span body) \<longleftrightarrow> True"

fun apart :: "prompt_item \<Rightarrow> prompt_item \<Rightarrow> bool" where
  "apart (Run t n) (Run u k) \<longleftrightarrow> t \<noteq> u"
| "apart _ _ \<longleftrightarrow> True"

definition separated_media :: "raw_tokens \<Rightarrow> prompt_item list \<Rightarrow> bool" where
  "separated_media tk items \<longleftrightarrow> list_all (media_in_runs tk) items \<and> successively apart items \<and>
     {rt_vision_bos tk, rt_vision_eos tk} \<inter> media_tokens tk = {}"

lemma squeeze_item:
  assumes "media_in_runs tk item" and "{rt_vision_bos tk, rt_vision_eos tk} \<inter> media_tokens tk = {}"
    and "t \<in> media_tokens tk"
  shows "squeeze t (reduced tk S item) = reduced tk (insert t S) item"
  using assms by (cases item) (auto simp: squeeze_replicate)

lemma item_ends:
  assumes "media_in_runs tk item" and "{rt_vision_bos tk, rt_vision_eos tk} \<inter> media_tokens tk = {}"
    and "t \<in> media_tokens tk"
  shows "reduced tk S item \<noteq> []"
    and "last (reduced tk S item) = t \<or> hd (reduced tk S item) = t \<Longrightarrow> \<exists>n. item = Run t n"
  using assms by (cases item; auto split: if_splits)+

lemma squeeze_items:
  assumes "separated_media tk items" and t: "t \<in> media_tokens tk"
  shows "squeeze t (concat (map (reduced tk S) items)) = concat (map (reduced tk (insert t S)) items)"
  using assms(1)
proof (induction items)
  case (Cons item items)
  then have item: "media_in_runs tk item" and sep: "separated_media tk items"
    and v: "{rt_vision_bos tk, rt_vision_eos tk} \<inter> media_tokens tk = {}"
    by (auto simp: separated_media_def successively_Cons)
  have "squeeze t (reduced tk S item @ concat (map (reduced tk S) items)) =
      squeeze t (reduced tk S item) @ squeeze t (concat (map (reduced tk S) items))"
  proof (cases items)
    case (Cons nxt items')
    with Cons.prems have nx: "media_in_runs tk nxt" and ap: "apart item nxt"
      by (auto simp: separated_media_def)
    have "last (reduced tk S item) \<noteq> t \<or> hd (reduced tk S nxt) \<noteq> t"
      using item_ends(2) [OF item v t, of S] item_ends(2) [OF nx v t, of S] ap
      by (metis apart.simps(1))
    moreover have "hd (concat (map (reduced tk S) items)) = hd (reduced tk S nxt)"
      using item_ends(1) [OF nx v t] Cons by simp
    ultimately show ?thesis by (intro squeeze_append) auto
  qed simp
  with Cons.IH [OF sep] squeeze_item [OF item v t] show ?case by simp
qed simp

lemma reduced_collapsed: "map (reduced tk {}) items = map (collapsed tk) items"
proof -
  have "reduced tk {} item = collapsed tk item" for item by (cases item) simp_all
  then show ?thesis by simp
qed

lemma reduced_raw:
  "list_all (media_in_runs tk) items \<Longrightarrow> map (reduced tk (media_tokens tk)) items = map (raw tk) items"
proof (induction items)
  case (Cons item items)
  then show ?case by (cases item) auto
qed simp

text \<open>
  C18: Reading the raw prompt off an expanded prompt ends and gives the raw prompt exactly, for
  a prompt made of plain tokens, runs of a media token and closed interleaved spans: every span
  becomes one video marker in its vision brackets, every run of a media token becomes that token
  once, and every other token stays, in its order. (Two runs of the same media token that touch
  each other are one run. Without \<open>use_audio_in_video\<close> a prompt with spans is not converted.)
\<close>

theorem get_raw_input_ids_collapses:
  assumes items: "well_formed_items tk items" and media: "separated_media tk items"
    and mode: "use_audio_in_video \<or> n_spans items = 0"
  shows "get_raw_input_ids tk use_audio_in_video (concat (map (expanded tk) items)) =
    Some (concat (map (raw tk) items))"
proof -
  let ?r = "concat (map (collapsed tk) items)"
  have mm: "insert (rt_video tk) (insert (rt_image tk) {rt_audio tk}) = media_tokens tk"
    "rt_audio tk \<in> media_tokens tk" "rt_image tk \<in> media_tokens tk" "rt_video tk \<in> media_tokens tk"
    by (auto simp: media_tokens_def)
  have "squeeze (rt_video tk) (squeeze (rt_image tk) (squeeze (rt_audio tk) ?r)) =
      concat (map (reduced tk (media_tokens tk)) items)"
    using squeeze_items [OF media mm(2), of "{}"] squeeze_items [OF media mm(3)] squeeze_items [OF media mm(4)]
    by (simp add: reduced_collapsed mm(1))
  also have "\<dots> = concat (map (raw tk) items)"
    using media by (simp add: reduced_raw separated_media_def)
  finally show ?thesis
    using mode collapse_spans_items [OF items] n_spans_0 [of items tk]
    by (auto simp: get_raw_input_ids_def compress_squeeze)
qed

definition demo_raw :: raw_tokens where
  "demo_raw = \<lparr>rt_vision_bos = 248053, rt_vision_eos = 248054, rt_audio_bos = 248070,
     rt_audio_eos = 248071, rt_audio = 248076, rt_image = 248056, rt_video = 248057\<rparr>"

theorem get_raw_input_ids_collapses_witness:
  "get_raw_input_ids demo_raw True
     [1, 248056, 248056, 248056, 248053, 248070, 248057, 248057, 248076, 248071, 248054, 2, 248076, 248076] =
   Some [1, 248056, 248053, 248057, 248054, 2, 248076]"
proof -
  let ?items = "[Plain 1, Run 248056 3, Span [248057, 248057, 248076], Plain 2, Run 248076 2]"
  have "well_formed_items demo_raw ?items" by code_simp
  moreover have "separated_media demo_raw ?items"
    by (simp add: separated_media_def media_tokens_def demo_raw_def)
  ultimately show ?thesis
    using get_raw_input_ids_collapses [of demo_raw ?items True] by (simp add: demo_raw_def numeral_eq_Suc)
qed

text \<open>
  C19: On a prompt that opens an interleaved span and does not close it, the conversion does
  not return: each round of the loop finds the same opening and changes nothing.
\<close>

theorem get_raw_input_ids_hangs:
  assumes "find_pair (rt_vision_bos tk) (rt_audio_bos tk) 0 ids = Some start"
    and "find_pair (rt_audio_eos tk) (rt_vision_eos tk) (start + 2) ids = None"
  shows "get_raw_input_ids tk True ids = None"
  using collapse_spans_returns [OF _ assms(1)] assms(2)
  by (cases "collapse_spans tk ids") (simp_all add: get_raw_input_ids_def)

theorem get_raw_input_ids_hangs_witness:
  "get_raw_input_ids demo_raw True [1, 248053, 248070, 248057, 248076] = None"
  by (rule get_raw_input_ids_hangs [of _ _ 1]) code_simp+

section \<open>Placeholders and encoder rows\<close>

lemma embed_size_factors:
  fixes m :: int
  assumes "0 < m" "m dvd h" "m dvd w"
  shows "(t * h * w) div m div m = t * ((h div m) * (w div m))"
proof -
  from assms obtain a b where "h = m * a" "w = m * b" unfolding dvd_def by blast
  then have "t * h * w = m * (m * (t * a * b))" by simp
  with assms \<open>h = m * a\<close> \<open>w = m * b\<close> show ?thesis by simp
qed

lemma frame_size_factors:
  fixes m :: int
  assumes "0 < m" "m dvd h" "m dvd w"
  shows "(h * w) div m ^ 2 = (h div m) * (w div m)"
  using embed_size_factors [OF assms, of 1] assms(1) by (simp add: power2_eq_square zdiv_zmult2_eq)

lemma count_list_map_eq: "count_list (map (\<lambda>x. x = t) xs) True = count_list xs t"
  by (induction xs) auto

text \<open>
  C20: The token sequence of a video with sound has one video placeholder for each row that
  the vision encoder gives for the video, and one audio placeholder for each row that the
  audio encoder gives for the next unused audio, which is thereby used. The audio placeholder
  that is derived from it covers the same tokens and selects a position exactly when an audio
  token stands there, which is never a video token.
\<close>

theorem av_replacement_matches_encoders:
  assumes ids: "distinct (special_ids cfg)" "plain_timestamps cfg encode"
    and grid: "item_idx < length grids" "grids ! item_idx = (t, h, w)" "0 < t"
    and merge: "0 < m" "m dvd h" "m dvd w"
    and audio: "audio_in_video_item_idx st < length lens" "0 \<le> lens ! audio_in_video_item_idx st"
    and run: "get_replacement_use_audio_in_video cfg (vision_start_token_id cfg) (vision_end_token_id cfg)
      m encode lens grids secs kwsecs mds tss tps item_idx st = (Inr U, st')"
    and derive: "derive_audio_from_video_placeholders (audio_token_id cfg)
      [(''video'', [\<lparr>ph_modality = ''video'', ph_item_idx = 0, ph_start_idx = p, ph_tokens = U,
         ph_is_embed = Some (map (\<lambda>x. x = video_token_id cfg) U)\<rparr>])] 1 = Inr phs"
  shows "count_list U (video_token_id cfg) = nat (embed_grid_sizes m grids ! item_idx) \<and>
    count_list U (audio_token_id cfg) = nat (lens ! audio_in_video_item_idx st) \<and>
    audio_in_video_item_idx st' = audio_in_video_item_idx st + 1 \<and>
    (\<exists>msk. map_of phs ''audio'' = Some [\<lparr>ph_modality = ''audio'', ph_item_idx = 0, ph_start_idx = p,
         ph_tokens = U, ph_is_embed = Some msk\<rparr>] \<and>
       length msk = length U \<and> (\<forall>i < length U. msk ! i \<longleftrightarrow> U ! i = audio_token_id cfg) \<and>
       count_list msk True = nat (lens ! audio_in_video_item_idx st) \<and>
       (\<forall>i < length U. msk ! i \<longrightarrow> U ! i \<noteq> video_token_id cfg))"
proof -
  let ?n = "lens ! audio_in_video_item_idx st"
  have n: "py_nth lens (int (audio_in_video_item_idx st)) = Inr ?n"
    and g: "py_nth grids (int item_idx) = Inr (t, h, w)"
    using audio grid by (simp_all add: py_nth_of_nat)
  from run obtain s ts where U: "get_updates_use_audio_in_video cfg (vision_start_token_id cfg)
      (vision_end_token_id cfg) m encode ?n (t, h, w) s ts = Inr U"
    and st': "audio_in_video_item_idx st' = audio_in_video_item_idx st + 1"
    by (auto simp: get_replacement_use_audio_in_video_def n g Let_def rbind_eq_Inr)
  from get_updates_counts [OF ids grid(3) audio(2) U]
  have cv: "count_list U (video_token_id cfg) = nat t * nat ((h div m) * (w div m))"
    and ca: "count_list U (audio_token_id cfg) = nat ?n" by simp_all
  have "embed_grid_sizes m grids ! item_idx = t * ((h div m) * (w div m))"
    using grid embed_size_factors [OF merge, of t] by (simp add: embed_grid_sizes_def pixel_grid_sizes_def)
  with cv grid(3) have "count_list U (video_token_id cfg) = nat (embed_grid_sizes m grids ! item_idx)"
    by (simp add: nat_mult_distrib)
  moreover have "audio_token_id cfg \<noteq> video_token_id cfg" using ids(1) by (simp add: special_ids_def)
  ultimately show ?thesis
    using derive ca st'
    by (auto simp: derive_audio_from_video_placeholders_def Let_def count_list_map_eq)
qed

definition demo_av_run :: "int list res \<times> update_state" where
  "demo_av_run = get_replacement_use_audio_in_video default_token_ids 248053 248054 2 (\<lambda>_. [27]) [30]
     [(2, 4, 4)] None [] None None 2 0 \<lparr>audio_in_video_item_idx = 0, audio_item_idx = 0\<rparr>"

theorem av_replacement_matches_encoders_witness:
  "\<exists>U st'. demo_av_run = (Inr U, st') \<and> count_list U 248057 = 8 \<and> count_list U 248076 = 30"
proof -
  have plain: "plain_timestamps default_token_ids (\<lambda>_. [27])"
    by (simp add: plain_timestamps_def special_ids_def default_token_ids_def)
  obtain U st' where run: "demo_av_run = (Inr U, st')"
    using get_updates_returns [of 2 default_token_ids 248053 248054 "\<lambda>_. [27]" 30 "(2, 4, 4)" 2 None]
    by (auto simp: demo_av_run_def get_replacement_use_audio_in_video_def video_second_per_grid_def
        av_timestamps_def py_nth_def)
  obtain phs where "derive_audio_from_video_placeholders (audio_token_id default_token_ids)
      [(''video'', [\<lparr>ph_modality = ''video'', ph_item_idx = 0, ph_start_idx = 0, ph_tokens = U,
         ph_is_embed = Some (map (\<lambda>x. x = video_token_id default_token_ids) U)\<rparr>])] 1 = Inr phs"
    by (simp add: derive_audio_from_video_placeholders_def Let_def)
  moreover from run have "get_replacement_use_audio_in_video default_token_ids
      (vision_start_token_id default_token_ids) (vision_end_token_id default_token_ids) 2 (\<lambda>_. [27]) [30]
      [(2, 4, 4)] None [] None None 2 0 \<lparr>audio_in_video_item_idx = 0, audio_item_idx = 0\<rparr> = (Inr U, st')"
    by (simp add: demo_av_run_def default_token_ids_def)
  ultimately have "count_list U 248057 = 8 \<and> count_list U 248076 = 30"
    using av_replacement_matches_encoders [OF default_special_ids_distinct plain, of 0 "[(2, 4, 4)]" 2 4 4 2
        "\<lparr>audio_in_video_item_idx = 0, audio_item_idx = 0\<rparr>" "[30]"]
    by (simp add: default_token_ids_def embed_grid_sizes_def pixel_grid_sizes_def)
  with run show ?thesis by blast
qed

text \<open>
  Image markers and silent videos are expanded to as many placeholders as the vision
  encoder gives rows for the item, when the grid is divisible by the merge size and there is
  one timestamp per temporal grid.
\<close>

lemma vision_replacement_matches_encoder:
  assumes grid: "item_idx < length grids" "grids ! item_idx = (t, h, w)" "0 < t" "0 \<le> h" "0 \<le> w"
    and merge: "0 < m" "m dvd h" "m dvd w"
    and plain: "\<And>ts. video_tok \<notin> set (encode (timestamp_text ts))" "video_tok \<notin> {vs, ve}"
    and times: "vision_timestamps tss mds tps (nat t) item_idx = Inr stamps" "length stamps = nat t"
  shows "\<exists>I V. get_replacement_image image_tok m grids item_idx = Inr I \<and>
    get_replacement_video video_tok vs ve m encode grids tss mds tps item_idx = Inr V \<and>
    count_list I image_tok = nat (embed_grid_sizes m grids ! item_idx) \<and>
    count_list V video_tok = nat (embed_grid_sizes m grids ! item_idx)"
proof -
  have g: "py_nth grids (int item_idx) = Inr (t, h, w)" using grid by (simp add: py_nth_of_nat)
  have size: "embed_grid_sizes m grids ! item_idx = t * ((h div m) * (w div m))"
    using grid embed_size_factors [OF merge, of t] by (simp add: embed_grid_sizes_def pixel_grid_sizes_def)
  have "(t * h * w) div m ^ 2 = t * ((h div m) * (w div m))"
    using embed_size_factors [OF merge, of t] merge(1) by (simp add: power2_eq_square zdiv_zmult2_eq)
  moreover have "count_list (encode (timestamp_text ts)) video_tok = 0" for ts
    using plain(1) by (simp add: count_list_0_iff)
  ultimately show ?thesis
    using grid(3) times plain(2) merge(1)
    by (simp add: get_replacement_image_def get_replacement_video_def g size frame_size_factors [OF merge]
        count_list_concat count_list_replicate comp_def sum_list_triv nat_mult_distrib)
qed

lemma vision_replacement_matches_encoder_witness:
  "\<exists>I V. get_replacement_image 56 2 [(2, 4, 4)] 0 = Inr I \<and>
    get_replacement_video 57 53 54 2 (\<lambda>_. [27]) [(2, 4, 4)] None None 2 0 = Inr V \<and>
    count_list I 56 = 8 \<and> count_list V 57 = 8"
  using vision_replacement_matches_encoder [of 0 "[(2, 4, 4)]" 2 4 4 2 57 "\<lambda>_. [27]" 53 54 None None 2 "[0, 1]" 56]
  by (simp add: vision_timestamps_def embed_grid_sizes_def pixel_grid_sizes_def upt_rec)

end
