(* ===== verification/Rope_Index.thy ===== *)
theory Rope_Index
  imports Audio_Encoder
begin

text \<open>
  The three-dimensional rotary positions of a multimodal prompt: \<open>get_mrope_input_positions\<close>
  of the vLLM model, \<open>get_rope_index\<close> of the Hugging Face model, and the helpers
  \<open>iter_mm_features\<close> and \<open>_compute_interleaved_positions\<close> of the vLLM model. A position is
  the triple of its temporal, height and width coordinate; a block is the list of positions
  of consecutive tokens.
\<close>

section \<open>Blocks of positions\<close>

type_synonym pos = "int \<times> int \<times> int"

text \<open>\<open>arange(length) + start\<close> in all three coordinates\<close>

definition linear_block :: "int \<Rightarrow> nat \<Rightarrow> pos list" where
  "linear_block start n = map (\<lambda>i. (start + int i, start + int i, start + int i)) [0..<n]"

text \<open>The positions of a grid, given the temporal coordinate of each of its frames.\<close>

definition grid_block :: "int \<Rightarrow> int list \<Rightarrow> nat \<Rightarrow> nat \<Rightarrow> pos list" where
  "grid_block start t_index llm_h llm_w =
     concat (map (\<lambda>t. concat (map (\<lambda>y. map (\<lambda>x. (t + start, int y + start, int x + start))
       [0..<llm_w]) [0..<llm_h])) t_index)"

definition block_max :: "pos list \<Rightarrow> int option" where
  "block_max b = (case b of [] \<Rightarrow> None
     | (t, h, w) # ps \<Rightarrow> Some (foldl (\<lambda>a (t, h, w). max a (max t (max h w))) (max t (max h w)) ps))"

text \<open>\<open>_next_position\<close>: one more than the maximum of the last block.\<close>

definition next_position :: "pyerr \<Rightarrow> pos list list \<Rightarrow> int res" where
  "next_position empty_error blocks =
     (if blocks = [] then Inr 0
      else rbind (of_option empty_error (block_max (last blocks))) (\<lambda>n. Inr (n + 1)))"

definition append_1d :: "pos list list \<Rightarrow> int \<Rightarrow> int \<Rightarrow> pos list list" where
  "append_1d blocks start len =
     (if len \<le> 0 then blocks else blocks @ [linear_block start (nat len)])"

section \<open>Scanning the prompt\<close>

definition token_indices :: "int \<Rightarrow> int list \<Rightarrow> nat list" where
  "token_indices tok tokens = filter (\<lambda>i. tokens ! i = tok) [0..<length tokens]"

text \<open>The token in front of each vision end marker; in front of the first token Python reads the last.\<close>

definition vision_tokens :: "'z TLiveOmniTokenIds_scheme \<Rightarrow> int list \<Rightarrow> int list" where
  "vision_tokens cfg tokens =
     map (\<lambda>i. if i = 0 then last tokens else tokens ! (i - 1)) (token_indices (vision_end_token_id cfg) tokens)"

record rope_state =
  blocks :: "pos list list"
  st :: nat
  image_idx :: nat
  video_idx :: nat
  audio_idx :: nat
  remain_images :: int
  remain_videos :: int
  remain_audios :: int

definition initial_rope_state :: "'z TLiveOmniTokenIds_scheme \<Rightarrow> bool \<Rightarrow> int list \<Rightarrow> nat \<Rightarrow> nat \<Rightarrow> nat \<Rightarrow> rope_state" where
  "initial_rope_state cfg use_audio_in_video tokens image0 video0 audio0 =
     (let vt = vision_tokens cfg tokens;
          audio_start_nums = int (count_list tokens (audio_start_token_id cfg));
          image_nums = int (count_list vt (image_token_id cfg));
          video_audio_nums = int (count_list vt (audio_end_token_id cfg));
          video_only_nums = int (count_list vt (video_token_id cfg));
          video_nums = (if use_audio_in_video \<and> video_audio_nums > 0 then video_audio_nums else video_only_nums)
      in \<lparr>blocks = [], st = 0, image_idx = image0, video_idx = video0, audio_idx = audio0,
          remain_images = image_nums, remain_videos = video_nums,
          remain_audios = audio_start_nums - video_audio_nums\<rparr>)"

definition multimodal_nums :: "rope_state \<Rightarrow> nat" where
  "multimodal_nums s = nat (remain_images s + remain_videos s + remain_audios s)"

text \<open>\<open>input_tokens.index(tok, st)\<close>\<close>

definition token_index :: "int list \<Rightarrow> int \<Rightarrow> nat \<Rightarrow> nat res" where
  "token_index tokens tok from = of_option (ValueError ''is not in list'') (py_index tokens tok from)"

text \<open>Where the next vision span and the next audio span start, and where the vision span ends.\<close>

definition locate_media ::
    "'z TLiveOmniTokenIds_scheme \<Rightarrow> bool \<Rightarrow> int list \<Rightarrow> rope_state \<Rightarrow> (nat \<times> nat \<times> nat) res" where
  "locate_media cfg use_audio_in_video tokens s =
     (let none = length tokens + 1
      in rbind
        (if (image_token_id cfg \<in> set tokens \<or> video_token_id cfg \<in> set tokens) \<and>
            (remain_videos s > 0 \<or> remain_images s > 0)
         then rbind (token_index tokens (vision_start_token_id cfg) (st s)) (\<lambda>a.
              rbind (token_index tokens (vision_end_token_id cfg) (st s)) (\<lambda>b. Inr (a, b)))
         else Inr (none, none)) (\<lambda>(ed_vision_start, ed_vision_end).
        let next_audio_start = (case py_index tokens (audio_start_token_id cfg) (st s) of
              None \<Rightarrow> none | Some i \<Rightarrow> i);
            ed_audio_start =
              (if use_audio_in_video \<and> ed_vision_start < next_audio_start \<and> next_audio_start < ed_vision_end
               then next_audio_start
               else if remain_audios s > 0 then next_audio_start else none)
        in Inr (ed_vision_start, ed_vision_end, ed_audio_start)))"

text \<open>
  The lengths of an interleaved span, with the checks of its shape: the number of video tokens
  and of audio tokens. The two models differ in the exception for a missing end.
\<close>

definition measure_av_span ::
    "'z TLiveOmniTokenIds_scheme \<Rightarrow> pyerr \<Rightarrow> int list \<Rightarrow> nat \<Rightarrow> nat \<Rightarrow> nat \<Rightarrow> int \<Rightarrow> (nat \<times> nat) res" where
  "measure_av_span cfg no_audio_end tokens ed_vision_start ed_vision_end ed_audio_start grid_tokens =
     rbind (require (ed_audio_start = ed_vision_start + 1)
       (ValueError ''Audio-in-video span expected audio_start immediately after vision_start.'')) (\<lambda>_.
     rbind (of_option no_audio_end
       (List.find (\<lambda>i. i > ed_audio_start) (token_indices (audio_end_token_id cfg) tokens))) (\<lambda>audio_end.
     rbind (require (audio_end + 1 = ed_vision_end)
       (ValueError ''Audio-in-video span expected audio_end immediately before vision_end.'')) (\<lambda>_.
     let content = py_slice tokens (ed_audio_start + 1) audio_end;
         actual_video_len = length (takeWhile (\<lambda>x. x = video_token_id cfg) content);
         audio_tokens = drop actual_video_len content
     in if grid_tokens = 0 then Inl ZeroDivisionError
        else
     rbind (require (int actual_video_len mod grid_tokens = 0)
       (ValueError ''Video/audio span is not divisible by one temporal grid.'')) (\<lambda>_.
     rbind (require (int actual_video_len div grid_tokens = 1)
       (ValueError ''Audio-in-video span expected exactly one temporal grid.'')) (\<lambda>_.
     rbind (require (list_all (\<lambda>x. x = audio_token_id cfg) audio_tokens)
       (ValueError ''Audio-in-video span expected only audio_pad tokens between video_pad and audio_end.'')) (\<lambda>_.
     Inr (actual_video_len, length audio_tokens)))))))"

section \<open>The vLLM model\<close>

datatype mm_feature_data =
    ImageFeature "int \<times> int \<times> int"
  | VideoFeature "int \<times> int \<times> int" "rat option" bool
  | AudioFeature int

type_synonym mm_feature = "nat \<times> mm_feature_data"

definition sort_features :: "mm_feature list \<Rightarrow> mm_feature list" where
  "sort_features fs = sort_key fst fs"

text \<open>\<open>(arange(grid_t, float32) * t_factor + 1e-6).astype(int64)\<close>\<close>

definition f32_t_index :: "nat \<Rightarrow> rat \<Rightarrow> int list" where
  "f32_t_index grid_t t_factor =
     map (\<lambda>i. trunc (f32 (f32 (of_nat i * f32 t_factor) + eps_f32))) [0..<grid_t]"

definition vision_grid :: "int \<Rightarrow> int \<Rightarrow> int \<times> int \<times> int \<Rightarrow> rat \<Rightarrow> pos list \<times> nat" where
  "vision_grid spatial_merge_size start thw t_factor =
     (case thw of (t, h, w) \<Rightarrow>
        (grid_block start (f32_t_index (nat t) t_factor)
           (nat (h div spatial_merge_size)) (nat (w div spatial_merge_size)),
         nat ((t * h * w) div spatial_merge_size ^ 2)))"

text \<open>The media of a request, videos split into their temporal grids.\<close>

record media_lists =
  ml_images :: "(int \<times> int \<times> int) list option"
  ml_videos :: "(int \<times> int \<times> int) list option"
  ml_seconds :: "rat list option"
  ml_audios :: "int list option"
  ml_chunk_ends :: "nat list"
  ml_use_audio :: bool

definition nonempty :: "'a list \<Rightarrow> 'a list option" where
  "nonempty xs = (if xs = [] then None else Some xs)"

definition repeat_interleave :: "('a \<times> nat) list \<Rightarrow> 'a list" where
  "repeat_interleave xs = concat (map (\<lambda>(x, n). replicate n x) xs)"

fun running_sums :: "nat \<Rightarrow> nat list \<Rightarrow> nat list" where
  "running_sums acc [] = []"
| "running_sums acc (n # ns) = (acc + n) # running_sums (acc + n) ns"

definition split_grids :: "(int \<times> int \<times> int) list \<Rightarrow> (int \<times> int \<times> int) list" where
  "split_grids grids = repeat_interleave (map (\<lambda>(t, h, w). ((1, h, w), nat t)) grids)"

definition collect_media :: "mm_feature list \<Rightarrow> media_lists" where
  "collect_media fs =
     (let data = map snd (sort_features fs);
          images = List.map_filter (\<lambda>f. case f of ImageFeature g \<Rightarrow> Some g | _ \<Rightarrow> None) data;
          videos = List.map_filter (\<lambda>f. case f of VideoFeature g s u \<Rightarrow> Some (g, s, u) | _ \<Rightarrow> None) data;
          audios = List.map_filter (\<lambda>f. case f of AudioFeature n \<Rightarrow> Some n | _ \<Rightarrow> None) data;
          grids = map fst videos;
          seconds = map (\<lambda>(_, s, _). case s of None \<Rightarrow> 1 | Some x \<Rightarrow> f32 x) videos;
          counts = map (\<lambda>(t, _, _). nat t) grids
      in \<lparr>ml_images = nonempty images,
          ml_videos = map_option split_grids (nonempty grids),
          ml_seconds = map_option (\<lambda>_. repeat_interleave (zip seconds counts)) (nonempty grids),
          ml_audios = nonempty audios,
          ml_chunk_ends = running_sums 0 counts,
          ml_use_audio = list_ex (\<lambda>(_, _, u). u) videos\<rparr>)"

text \<open>
  The four kinds of spans. Each takes the state whose blocks end with the begin marker, the
  length of the text in front and the next position; the number of end markers is returned
  with the state, whose \<open>st\<close> is moved past them.
\<close>

definition mrope_audio ::
    "'z TLiveOmniTokenIds_scheme \<Rightarrow> media_lists \<Rightarrow> int list \<Rightarrow> nat \<Rightarrow> nat \<Rightarrow> int \<Rightarrow> rope_state \<Rightarrow>
     (rope_state \<times> int) res" where
  "mrope_audio cfg ml tokens ed_audio_start text_len st_idx s =
     rbind (require (ml_audios ml \<noteq> None) (RuntimeError ''audio_seqlens is required for audio position ids'')) (\<lambda>_.
     rbind (of_option (ValueError ''Standalone audio span missing audio_end token.'')
       (py_index tokens (audio_end_token_id cfg) ed_audio_start)) (\<lambda>audio_end.
     let audio_len = int audio_end - int ed_audio_start - 1
     in rbind (require (0 \<le> audio_len) (ValueError ''Standalone audio span has invalid token order.'')) (\<lambda>_.
        rbind (require (list_all (\<lambda>x. x = audio_token_id cfg) (py_slice tokens (ed_audio_start + 1) audio_end))
          (ValueError ''Standalone audio span expected only audio_pad tokens between audio_start and audio_end.'')) (\<lambda>_.
        Inr (s\<lparr>blocks := append_1d (blocks s) st_idx audio_len,
                st := st s + text_len + 1 + nat audio_len + 1,
                audio_idx := audio_idx s + 1,
                remain_audios := remain_audios s - 1\<rparr>, 1)))))"

definition mrope_image ::
    "'z TLiveOmniTokenIds_scheme \<Rightarrow> int \<Rightarrow> media_lists \<Rightarrow> nat \<Rightarrow> int \<Rightarrow> rope_state \<Rightarrow> (rope_state \<times> int) res" where
  "mrope_image cfg spatial_merge_size ml text_len st_idx s =
     rbind (of_option (AssertionError []) (ml_images ml)) (\<lambda>grids.
     rbind (py_nth grids (int (image_idx s))) (\<lambda>thw.
     let (block, image_len) = vision_grid spatial_merge_size st_idx thw (of_int (position_id_per_seconds cfg))
     in Inr (s\<lparr>blocks := blocks s @ [block],
                st := st s + text_len + 1 + image_len + 1,
                image_idx := image_idx s + 1,
                remain_images := remain_images s - 1\<rparr>, 1)))"

text \<open>The grid of the next video span and the time factor, \<open>float(second) * position_id_per_seconds\<close>.\<close>

definition next_video_grid ::
    "'z TLiveOmniTokenIds_scheme \<Rightarrow> media_lists \<Rightarrow> nat \<Rightarrow> ((int \<times> int \<times> int) \<times> rat) res" where
  "next_video_grid cfg ml idx =
     rbind (of_option (AssertionError []) (ml_videos ml)) (\<lambda>grids.
     rbind (of_option (AssertionError []) (ml_seconds ml)) (\<lambda>seconds.
     rbind (py_nth grids (int idx)) (\<lambda>thw.
     rbind (py_nth seconds (int idx)) (\<lambda>sec.
     Inr (thw, f64 (sec * of_int (position_id_per_seconds cfg)))))))"

definition mrope_video ::
    "'z TLiveOmniTokenIds_scheme \<Rightarrow> int \<Rightarrow> media_lists \<Rightarrow> nat \<Rightarrow> int \<Rightarrow> rope_state \<Rightarrow> (rope_state \<times> int) res" where
  "mrope_video cfg spatial_merge_size ml text_len st_idx s =
     rbind (next_video_grid cfg ml (video_idx s)) (\<lambda>((_, h, w), t_factor).
     let (block, video_len) = vision_grid spatial_merge_size st_idx (1, h, w) t_factor
     in Inr (s\<lparr>blocks := blocks s @ [block],
                st := st s + text_len + 1 + video_len + 1,
                video_idx := video_idx s + 1,
                remain_videos := remain_videos s - 1\<rparr>, 1))"

definition mrope_av ::
    "'z TLiveOmniTokenIds_scheme \<Rightarrow> int \<Rightarrow> media_lists \<Rightarrow> int list \<Rightarrow> nat \<Rightarrow> nat \<Rightarrow> nat \<Rightarrow> nat \<Rightarrow> int \<Rightarrow>
     rope_state \<Rightarrow> (rope_state \<times> int) res" where
  "mrope_av cfg spatial_merge_size ml tokens ed_vision_start ed_vision_end ed_audio_start text_len st_idx s =
     rbind (next_video_grid cfg ml (video_idx s)) (\<lambda>((_, h, w), t_factor).
     rbind (measure_av_span cfg StopIteration tokens ed_vision_start ed_vision_end ed_audio_start
       ((h * w) div spatial_merge_size ^ 2)) (\<lambda>(actual_video_len, audio_len).
     let content_st_idx = st_idx + 1;
         bs = append_1d (blocks s) st_idx 1;
         bs = bs @ [fst (vision_grid spatial_merge_size content_st_idx (1, h, w) t_factor)];
         bs = append_1d bs content_st_idx (int audio_len);
         vidx = video_idx s + 1
     in Inr (s\<lparr>blocks := bs,
                st := st s + text_len + 1 + 1 + audio_len + actual_video_len + 2,
                video_idx := vidx,
                audio_idx := (if vidx \<in> set (ml_chunk_ends ml) then audio_idx s + 1 else audio_idx s),
                remain_videos := remain_videos s - 1\<rparr>, 2)))"

text \<open>One round of the loop.\<close>

definition mrope_step ::
    "'z TLiveOmniTokenIds_scheme \<Rightarrow> int \<Rightarrow> media_lists \<Rightarrow> int list \<Rightarrow> rope_state \<Rightarrow> rope_state res" where
  "mrope_step cfg spatial_merge_size ml tokens s =
     rbind (next_position (ValueError ''zero-size array to reduction operation maximum'') (blocks s)) (\<lambda>st_idx.
     rbind (locate_media cfg (ml_use_audio ml) tokens s) (\<lambda>(ed_vision_start, ed_vision_end, ed_audio_start).
     let min_ed = min ed_vision_start ed_audio_start;
         text_len = min_ed - st s;
         bs = append_1d (blocks s) st_idx (int text_len);
         st_idx = st_idx + int text_len;
         s1 = s\<lparr>blocks := append_1d bs st_idx 1\<rparr>;
         st_idx = st_idx + 1
     in rbind
          (if min_ed = ed_audio_start
           then mrope_audio cfg ml tokens ed_audio_start text_len st_idx s1
           else rbind (py_nth tokens (int ed_vision_start + 1)) (\<lambda>first.
             if first = image_token_id cfg then mrope_image cfg spatial_merge_size ml text_len st_idx s1
             else if ed_vision_end < ed_audio_start then mrope_video cfg spatial_merge_size ml text_len st_idx s1
             else if ed_vision_end > ed_audio_start
             then mrope_av cfg spatial_merge_size ml tokens ed_vision_start ed_vision_end ed_audio_start
                    text_len st_idx s1
             else Inr (s1, 1))) (\<lambda>(s2, eos_len).
        rbind (next_position (ValueError ''zero-size array to reduction operation maximum'') (blocks s2)) (\<lambda>st_idx.
        Inr (s2\<lparr>blocks := append_1d (blocks s2) st_idx eos_len\<rparr>)))))"

fun iterate_res :: "nat \<Rightarrow> ('s \<Rightarrow> 's res) \<Rightarrow> 's \<Rightarrow> 's res" where
  "iterate_res 0 f s = Inr s"
| "iterate_res (Suc n) f s = rbind (f s) (iterate_res n f)"

definition get_mrope_input_positions ::
    "'z TLiveOmniTokenIds_scheme \<Rightarrow> int \<Rightarrow> int list \<Rightarrow> mm_feature list \<Rightarrow> (pos list \<times> int) res" where
  "get_mrope_input_positions cfg spatial_merge_size tokens features =
     (let ml = collect_media features;
          s0 = initial_rope_state cfg (ml_use_audio ml) tokens 0 0 0
      in if ml_images ml = None \<and> ml_videos ml = None
         then Inr (linear_block 0 (length tokens), 0)
         else
           rbind (iterate_res (multimodal_nums s0) (mrope_step cfg spatial_merge_size ml tokens) s0) (\<lambda>s.
           rbind (if st s < length tokens
                  then rbind (next_position (ValueError ''zero-size array to reduction operation maximum'') (blocks s))
                    (\<lambda>p. Inr (append_1d (blocks s) p (int (length tokens - st s))))
                  else Inr (blocks s)) (\<lambda>bs.
           rbind (require (bs \<noteq> []) (ValueError ''need at least one array to concatenate'')) (\<lambda>_.
           rbind (require (length (concat bs) = length tokens)
             (RuntimeError ''Position ids length != input ids length'')) (\<lambda>_.
           rbind (of_option (ValueError ''zero-size array to reduction operation maximum'') (block_max (concat bs))) (\<lambda>n.
           Inr (concat bs, n + 1 - int (length tokens))))))))"

section \<open>The Hugging Face model\<close>

text \<open>
  The block of an image comes from the transformers package: \<open>vision_pos_ids\<close> gets the start
  position, the temporal coordinates, and the height and width of the merged grid.
\<close>

type_synonym vision_pos_ids = "int \<Rightarrow> int list \<Rightarrow> nat \<Rightarrow> nat \<Rightarrow> pos list"

record rope_inputs =
  ri_images :: "(int \<times> int \<times> int) list option"
  ri_videos :: "(int \<times> int \<times> int) list option"
  ri_seconds :: "rat list"
  ri_chunk_ends :: "nat list"
  ri_audio_seqlens :: "int list option"
  ri_use_audio :: bool

definition split_rope_inputs ::
    "(int \<times> int \<times> int) list option \<Rightarrow> (int \<times> int \<times> int) list option \<Rightarrow> rat list option \<Rightarrow>
     int list option \<Rightarrow> bool \<Rightarrow> rope_inputs" where
  "split_rope_inputs image_grid_thw video_grid_thw second_per_grids audio_seqlens use_audio_in_video =
     (let videos = (case video_grid_thw of None \<Rightarrow> [] | Some gs \<Rightarrow> gs);
          counts = map (\<lambda>(t, _, _). nat t) videos;
          seconds = (case second_per_grids of None \<Rightarrow> map (\<lambda>_. 1) videos | Some ss \<Rightarrow> map f32 ss)
      in \<lparr>ri_images = image_grid_thw, ri_videos = map_option split_grids video_grid_thw,
          ri_seconds = repeat_interleave (zip seconds counts), ri_chunk_ends = running_sums 0 counts,
          ri_audio_seqlens = audio_seqlens, ri_use_audio = use_audio_in_video\<rparr>)"

text \<open>\<open>(arange(1, float32) * second * position_id_per_seconds).add(1e-6).long()\<close>\<close>

definition hf_t_index :: "nat \<Rightarrow> rat \<Rightarrow> int \<Rightarrow> int list" where
  "hf_t_index llm_grid_t second per_seconds =
     map (\<lambda>i. trunc (f32 (f32 (f32 (of_nat i * second) * of_int per_seconds) + eps_f32))) [0..<llm_grid_t]"

definition hf_audio ::
    "rope_inputs \<Rightarrow> nat \<Rightarrow> int \<Rightarrow> rope_state \<Rightarrow> (rope_state \<times> int) res" where
  "hf_audio ri text_len st_idx s =
     rbind (of_option (TypeError ''NoneType object is not subscriptable'') (ri_audio_seqlens ri)) (\<lambda>lens.
     rbind (py_nth lens (int (audio_idx s))) (\<lambda>n.
     let audio_len = nat (get_feat_extract_output_lengths n)
     in Inr (s\<lparr>blocks := blocks s @ [linear_block st_idx audio_len],
                st := st s + text_len + 1 + audio_len + 1,
                audio_idx := audio_idx s + 1,
                remain_audios := remain_audios s - 1\<rparr>, 1)))"

definition hf_image ::
    "'z TLiveOmniTokenIds_scheme \<Rightarrow> vision_pos_ids \<Rightarrow> int \<Rightarrow> rope_inputs \<Rightarrow> nat \<Rightarrow> int \<Rightarrow> rope_state \<Rightarrow>
     (rope_state \<times> int) res" where
  "hf_image cfg vision_pos_ids spatial_merge_size ri text_len st_idx s =
     rbind (of_option (TypeError ''NoneType object is not subscriptable'') (ri_images ri)) (\<lambda>grids.
     rbind (py_nth grids (int (image_idx s))) (\<lambda>(t, h, w).
     let t_index = map (\<lambda>i. int i * position_id_per_seconds cfg) [0..<nat t]
     in Inr (s\<lparr>blocks := blocks s @ [vision_pos_ids st_idx t_index
                  (nat (h div spatial_merge_size)) (nat (w div spatial_merge_size))],
                st := st s + text_len + 1 + nat ((t * h * w) div spatial_merge_size ^ 2) + 1,
                image_idx := image_idx s + 1,
                remain_images := remain_images s - 1\<rparr>, 1)))"

definition hf_video_grid :: "rope_inputs \<Rightarrow> nat \<Rightarrow> ((int \<times> int \<times> int) \<times> rat) res" where
  "hf_video_grid ri idx =
     rbind (of_option (TypeError ''NoneType object is not subscriptable'') (ri_videos ri)) (\<lambda>grids.
     rbind (py_nth grids (int idx)) (\<lambda>thw.
     rbind (py_nth (ri_seconds ri) (int idx)) (\<lambda>sec. Inr (thw, sec))))"

definition hf_video ::
    "'z TLiveOmniTokenIds_scheme \<Rightarrow> int \<Rightarrow> rope_inputs \<Rightarrow> nat \<Rightarrow> int \<Rightarrow> rope_state \<Rightarrow> (rope_state \<times> int) res" where
  "hf_video cfg spatial_merge_size ri text_len st_idx s =
     rbind (hf_video_grid ri (video_idx s)) (\<lambda>((_, h, w), sec).
     Inr (s\<lparr>blocks := blocks s @ [grid_block st_idx (hf_t_index 1 sec (position_id_per_seconds cfg))
               (nat (h div spatial_merge_size)) (nat (w div spatial_merge_size))],
            st := st s + text_len + 1 + nat ((1 * h * w) div spatial_merge_size ^ 2) + 1,
            video_idx := video_idx s + 1,
            remain_videos := remain_videos s - 1\<rparr>, 1))"

definition hf_av ::
    "'z TLiveOmniTokenIds_scheme \<Rightarrow> int \<Rightarrow> rope_inputs \<Rightarrow> int list \<Rightarrow> nat \<Rightarrow> nat \<Rightarrow> nat \<Rightarrow> nat \<Rightarrow> int \<Rightarrow>
     rope_state \<Rightarrow> (rope_state \<times> int) res" where
  "hf_av cfg spatial_merge_size ri tokens ed_vision_start ed_vision_end ed_audio_start text_len st_idx s =
     rbind (hf_video_grid ri (video_idx s)) (\<lambda>((_, h, w), sec).
     rbind (measure_av_span cfg (ValueError ''Could not find an audio end token index'') tokens
       ed_vision_start ed_vision_end ed_audio_start ((h * w) div spatial_merge_size ^ 2))
       (\<lambda>(actual_video_len, audio_len).
     let content_st_idx = st_idx + 1;
         bs = blocks s @ [linear_block st_idx 1];
         bs = bs @ [grid_block content_st_idx (hf_t_index 1 sec (position_id_per_seconds cfg))
                (nat (h div spatial_merge_size)) (nat (w div spatial_merge_size))];
         bs = (if audio_len > 0 then bs @ [linear_block content_st_idx audio_len] else bs);
         video_len = nat ((1 * h * w) div spatial_merge_size ^ 2);
         vidx = video_idx s + 1
     in Inr (s\<lparr>blocks := bs,
                st := st s + text_len + 1 + 1 + audio_len + video_len + 2,
                video_idx := vidx,
                audio_idx := (if vidx \<in> set (ri_chunk_ends ri) then audio_idx s + 1 else audio_idx s),
                remain_videos := remain_videos s - 1\<rparr>, 2)))"

definition hf_rope_step ::
    "'z TLiveOmniTokenIds_scheme \<Rightarrow> vision_pos_ids \<Rightarrow> int \<Rightarrow> rope_inputs \<Rightarrow> int list \<Rightarrow> rope_state \<Rightarrow> rope_state res" where
  "hf_rope_step cfg vision_pos_ids spatial_merge_size ri tokens s =
     rbind (next_position (RuntimeError ''max(): Expected reduction dim to be specified'') (blocks s)) (\<lambda>st_idx.
     rbind (locate_media cfg (ri_use_audio ri) tokens s) (\<lambda>(ed_vision_start, ed_vision_end, ed_audio_start).
     let min_ed = min ed_vision_start ed_audio_start;
         text_len = min_ed - st s;
         bs = (if text_len \<noteq> 0 then blocks s @ [linear_block st_idx text_len] else blocks s);
         st_idx = st_idx + int text_len;
         s1 = s\<lparr>blocks := bs @ [linear_block st_idx 1]\<rparr>;
         st_idx = st_idx + 1
     in rbind
          (if min_ed = ed_audio_start then hf_audio ri text_len st_idx s1
           else rbind (py_nth tokens (int ed_vision_start + 1)) (\<lambda>first.
             if first = image_token_id cfg
             then hf_image cfg vision_pos_ids spatial_merge_size ri text_len st_idx s1
             else if ed_vision_end < ed_audio_start then hf_video cfg spatial_merge_size ri text_len st_idx s1
             else if ed_vision_end > ed_audio_start
             then hf_av cfg spatial_merge_size ri tokens ed_vision_start ed_vision_end ed_audio_start
                    text_len st_idx s1
             else Inr (s1, 1))) (\<lambda>(s2, eos_len).
        rbind (next_position (RuntimeError ''max(): Expected reduction dim to be specified'') (blocks s2)) (\<lambda>st_idx.
        Inr (s2\<lparr>blocks := blocks s2 @ [linear_block st_idx (nat eos_len)]\<rparr>)))))"

text \<open>The positions of one row of the batch, and the media indices after it.\<close>

definition hf_rope_row ::
    "'z TLiveOmniTokenIds_scheme \<Rightarrow> vision_pos_ids \<Rightarrow> int \<Rightarrow> rope_inputs \<Rightarrow> int list \<Rightarrow> nat \<times> nat \<times> nat \<Rightarrow>
     ((pos list \<times> int) \<times> nat \<times> nat \<times> nat) res" where
  "hf_rope_row cfg vision_pos_ids spatial_merge_size ri tokens idxs =
     (case idxs of (im, vi, au) \<Rightarrow>
      let s0 = initial_rope_state cfg (ri_use_audio ri) tokens im vi au
      in rbind (iterate_res (multimodal_nums s0) (hf_rope_step cfg vision_pos_ids spatial_merge_size ri tokens) s0) (\<lambda>s.
         rbind (if st s < length tokens
                then rbind (next_position (RuntimeError ''max(): Expected reduction dim to be specified'') (blocks s))
                  (\<lambda>p. Inr (blocks s @ [linear_block p (length tokens - st s)]))
                else Inr (blocks s)) (\<lambda>bs.
         rbind (require (length (concat bs) = length tokens) (RuntimeError ''shape mismatch'')) (\<lambda>_.
         rbind (of_option (RuntimeError ''max(): Expected reduction dim to be specified'') (block_max (concat bs))) (\<lambda>n.
         Inr ((concat bs, n + 1 - int (length tokens)), image_idx s, video_idx s, audio_idx s))))))"

text \<open>\<open>position_ids[..., i, mask] = llm_positions\<close> on a row of zeros\<close>

fun place_positions :: "bool list \<Rightarrow> pos list \<Rightarrow> pos list" where
  "place_positions (True # bs) (p # ps) = p # place_positions bs ps"
| "place_positions (b # bs) ps = (0, 0, 0) # place_positions bs ps"
| "place_positions [] ps = []"

text \<open>
  The rows of the batch share the media lists: the indices run on from row to row. A missing
  attention mask is only noticed when the positions of a row are stored.
\<close>

fun hf_rope_rows ::
    "'z TLiveOmniTokenIds_scheme \<Rightarrow> vision_pos_ids \<Rightarrow> int \<Rightarrow> rope_inputs \<Rightarrow> (int list \<times> bool list option) list \<Rightarrow>
     nat \<times> nat \<times> nat \<Rightarrow> (pos list \<times> int) list res" where
  "hf_rope_rows cfg vision_pos_ids m ri [] idxs = Inr []"
| "hf_rope_rows cfg vision_pos_ids m ri ((ids, msk) # rows) idxs =
     rbind (hf_rope_row cfg vision_pos_ids m ri
              (case msk of None \<Rightarrow> ids | Some bs \<Rightarrow> map snd (filter fst (zip bs ids))) idxs)
       (\<lambda>((positions, delta), idxs').
     rbind (of_option (TypeError ''NoneType object is not subscriptable'') msk) (\<lambda>bs.
     rbind (hf_rope_rows cfg vision_pos_ids m ri rows idxs') (\<lambda>rest.
     Inr ((place_positions bs positions, delta) # rest))))"

text \<open>Without vision input: the running count of attended tokens, and 1 at padding.\<close>

fun text_positions :: "int \<Rightarrow> bool list \<Rightarrow> int list" where
  "text_positions n [] = []"
| "text_positions n (b # bs) = (if b then n else 1) # text_positions (if b then n + 1 else n) bs"

definition text_rope_row :: "bool list \<Rightarrow> pos list \<times> int" where
  "text_rope_row bs =
     (let ps = text_positions 0 bs
      in (map (\<lambda>p. (p, p, p)) ps, foldl max (hd ps) ps + 1 - int (count_list bs True)))"

definition get_rope_index ::
    "'z TLiveOmniTokenIds_scheme \<Rightarrow> vision_pos_ids \<Rightarrow> int \<Rightarrow> int list list option \<Rightarrow>
     (int \<times> int \<times> int) list option \<Rightarrow> (int \<times> int \<times> int) list option \<Rightarrow> bool list list option \<Rightarrow> bool \<Rightarrow>
     int list option \<Rightarrow> rat list option \<Rightarrow> (pos list \<times> int) list res" where
  "get_rope_index cfg vision_pos_ids spatial_merge_size input_ids image_grid_thw video_grid_thw
     attention_mask use_audio_in_video audio_seqlens second_per_grids =
     (case input_ids of
        Some rows \<Rightarrow>
          if image_grid_thw \<noteq> None \<or> video_grid_thw \<noteq> None then
            hf_rope_rows cfg vision_pos_ids spatial_merge_size
              (split_rope_inputs image_grid_thw video_grid_thw second_per_grids audio_seqlens use_audio_in_video)
              (zip rows (case attention_mask of None \<Rightarrow> map (\<lambda>_. None) rows | Some ms \<Rightarrow> map Some ms)) (0, 0, 0)
          else rbind (of_option (AttributeError ''NoneType object has no attribute long'') attention_mask)
                 (\<lambda>ms. Inr (map text_rope_row ms))
      | None \<Rightarrow> rbind (of_option (AttributeError ''NoneType object has no attribute long'') attention_mask)
                  (\<lambda>ms. Inr (map text_rope_row ms)))"

section \<open>Interleaved positions\<close>

text \<open>
  \<open>_compute_interleaved_positions\<close>: the positions of a video and of its audio track, merged by
  their temporal coordinate.
\<close>

fun merge_positions :: "pos list \<Rightarrow> pos list \<Rightarrow> pos list" where
  "merge_positions (v # vs) (a # as) =
     (if fst v \<le> fst a then v # merge_positions vs (a # as) else a # merge_positions (v # vs) as)"
| "merge_positions [] as = as"
| "merge_positions vs [] = vs"

definition compute_interleaved_positions ::
    "int \<Rightarrow> nat \<times> nat \<times> nat \<Rightarrow> rat \<Rightarrow> int \<Rightarrow> pos list \<times> nat" where
  "compute_interleaved_positions start_idx thw t_factor audio_feature_length =
     (case thw of (grid_t, grid_h, grid_w) \<Rightarrow>
      let audio_len = nat (get_feat_extract_output_lengths audio_feature_length);
          t_index = map (\<lambda>i. trunc (f64 (of_nat i * t_factor))) [0..<grid_t]
      in (merge_positions (grid_block start_idx t_index grid_h grid_w) (linear_block start_idx audio_len),
          grid_t * grid_h * grid_w + audio_len))"

text \<open>The features that \<open>iter_mm_features\<close> yields, in the order of their offsets.\<close>

datatype mm_yield =
    YImage nat nat nat nat rat
  | YVideo nat nat nat nat rat bool "int option"
  | YAudio nat int

definition audio_for_video_mapping :: "mm_feature list \<Rightarrow> (nat \<times> int) list \<times> nat list" where
  "audio_for_video_mapping fs =
     (let videos = filter (\<lambda>(_, f). case f of VideoFeature _ _ u \<Rightarrow> u | _ \<Rightarrow> False) fs;
          audios = List.map_filter (\<lambda>(off, f). case f of AudioFeature n \<Rightarrow> Some (off, n) | _ \<Rightarrow> None) fs;
          pairs = zip (map fst videos) audios
      in (map (\<lambda>(v, _, n). (v, n)) pairs, map (\<lambda>(_, a, _). a) pairs))"

definition iter_mm_features ::
    "'z TLiveOmniTokenIds_scheme \<Rightarrow> int \<Rightarrow> mm_feature list \<Rightarrow> mm_yield list" where
  "iter_mm_features cfg m features =
     (let fs = sort_features features;
          (mapping, paired) = audio_for_video_mapping fs
      in List.map_filter (\<lambda>(off, f). case f of
           ImageFeature (t, h, w) \<Rightarrow>
             Some (YImage off (nat t) (nat (h div m)) (nat (w div m)) (of_int (position_id_per_seconds cfg)))
         | VideoFeature (t, h, w) sec use_audio \<Rightarrow>
             Some (YVideo off (nat t) (nat (h div m)) (nat (w div m))
               (f64 ((case sec of None \<Rightarrow> 2 | Some x \<Rightarrow> x) * of_int (position_id_per_seconds cfg)))
               use_audio (map_of (rev mapping) off))
         | AudioFeature n \<Rightarrow> if off \<in> set paired then None else Some (YAudio off n)) fs)"

end
