(* ===== verification/Rope_Correct.thy ===== *)
theory Rope_Correct
  imports Rope_Index "HOL-Library.Multiset"
begin

text \<open>
  The positions that the two models compute, for prompts made of text and well formed media
  spans. A reference definition gives the positions of such a prompt span by span; a locale
  states what one round of a position loop has to achieve and proves the whole loop from it;
  the rounds of the vLLM model and of the Hugging Face model are its two instances.
\<close>

section \<open>Prompts and their reference positions\<close>

text \<open>
  The media of a prompt: an image and one temporal grid of a silent video with height and
  width in patches, an audio with its number of tokens, and one temporal grid of a video with
  the number of audio tokens that fall into it.
\<close>

datatype media = MImage int int | MAudio nat | MVideo int int | MAV int int nat

type_synonym segments = "(int list \<times> media) list"

definition grid_tokens :: "int \<Rightarrow> int \<Rightarrow> int \<Rightarrow> nat" where
  "grid_tokens m h w = nat ((h * w) div m ^ 2)"

fun render_media :: "'z TLiveOmniTokenIds_scheme \<Rightarrow> int \<Rightarrow> media \<Rightarrow> int list" where
  "render_media cfg m (MImage h w) =
     vision_start_token_id cfg # replicate (grid_tokens m h w) (image_token_id cfg) @ [vision_end_token_id cfg]"
| "render_media cfg m (MAudio n) =
     audio_start_token_id cfg # replicate n (audio_token_id cfg) @ [audio_end_token_id cfg]"
| "render_media cfg m (MVideo h w) =
     vision_start_token_id cfg # replicate (grid_tokens m h w) (video_token_id cfg) @ [vision_end_token_id cfg]"
| "render_media cfg m (MAV h w n) =
     vision_start_token_id cfg # audio_start_token_id cfg # replicate (grid_tokens m h w) (video_token_id cfg) @
       replicate n (audio_token_id cfg) @ [audio_end_token_id cfg, vision_end_token_id cfg]"

definition render_segments :: "'z TLiveOmniTokenIds_scheme \<Rightarrow> int \<Rightarrow> segments \<Rightarrow> int list \<Rightarrow> int list" where
  "render_segments cfg m segs tail = concat (map (\<lambda>(t, M). t @ render_media cfg m M) segs) @ tail"

text \<open>The extent of a merged grid, and the positions of a span that starts at \<open>p\<close>.\<close>

definition extent :: "int \<Rightarrow> int \<Rightarrow> int \<Rightarrow> int" where
  "extent m h w = max (h div m) (w div m)"

definition frame_positions :: "int \<Rightarrow> int \<Rightarrow> int \<Rightarrow> int \<Rightarrow> pos list" where
  "frame_positions m p h w = grid_block p [0] (nat (h div m)) (nat (w div m))"

fun media_positions :: "int \<Rightarrow> int \<Rightarrow> media \<Rightarrow> pos list" where
  "media_positions m p (MImage h w) =
     linear_block p 1 @ frame_positions m (p + 1) h w @ linear_block (p + 1 + extent m h w) 1"
| "media_positions m p (MVideo h w) =
     linear_block p 1 @ frame_positions m (p + 1) h w @ linear_block (p + 1 + extent m h w) 1"
| "media_positions m p (MAudio n) = linear_block p (n + 2)"
| "media_positions m p (MAV h w n) =
     linear_block p 2 @ frame_positions m (p + 2) h w @ linear_block (p + 2) n @
     linear_block (p + 2 + (if n > 0 then int n else extent m h w)) 2"

text \<open>The position after a span.\<close>

fun media_next :: "int \<Rightarrow> int \<Rightarrow> media \<Rightarrow> int" where
  "media_next m p (MImage h w) = p + 2 + extent m h w"
| "media_next m p (MVideo h w) = p + 2 + extent m h w"
| "media_next m p (MAudio n) = p + int n + 2"
| "media_next m p (MAV h w n) = p + 4 + (if n > 0 then int n else extent m h w)"

fun spec_positions :: "int \<Rightarrow> int \<Rightarrow> segments \<Rightarrow> int list \<Rightarrow> pos list" where
  "spec_positions m p [] tail = linear_block p (length tail)"
| "spec_positions m p ((tx, M) # segs) tail =
     linear_block p (length tx) @ media_positions m (p + int (length tx)) M @
     spec_positions m (media_next m (p + int (length tx)) M) segs tail"

text \<open>Well formed media and text.\<close>

fun media_ok :: "int \<Rightarrow> media \<Rightarrow> bool" where
  "media_ok m (MImage h w) = (0 < h \<and> 0 < w \<and> m dvd h \<and> m dvd w)"
| "media_ok m (MVideo h w) = (0 < h \<and> 0 < w \<and> m dvd h \<and> m dvd w)"
| "media_ok m (MAudio n) = (0 < n)"
| "media_ok m (MAV h w n) = (0 < h \<and> 0 < w \<and> m dvd h \<and> m dvd w)"

definition plain_text :: "'z TLiveOmniTokenIds_scheme \<Rightarrow> int list \<Rightarrow> bool" where
  "plain_text cfg tx \<longleftrightarrow> list_all (\<lambda>x. x \<notin> set (special_ids cfg)) tx"

fun is_image :: "media \<Rightarrow> bool" where "is_image (MImage _ _) = True" | "is_image _ = False"
fun is_audio :: "media \<Rightarrow> bool" where "is_audio (MAudio _) = True" | "is_audio _ = False"
fun is_silent :: "media \<Rightarrow> bool" where "is_silent (MVideo _ _) = True" | "is_silent _ = False"
fun is_av :: "media \<Rightarrow> bool" where "is_av (MAV _ _ _) = True" | "is_av _ = False"

text \<open>The grids of the images and of the videos, and the token counts of the audios, in order.\<close>

fun image_grid :: "media \<Rightarrow> (int \<times> int \<times> int) list" where
  "image_grid (MImage h w) = [(1, h, w)]" | "image_grid _ = []"
fun video_grid :: "media \<Rightarrow> (int \<times> int \<times> int) list" where
  "video_grid (MVideo h w) = [(1, h, w)]" | "video_grid (MAV h w _) = [(1, h, w)]" | "video_grid _ = []"
fun audio_count :: "media \<Rightarrow> nat list" where
  "audio_count (MAudio n) = [n]" | "audio_count _ = []"

abbreviation seg_images :: "segments \<Rightarrow> (int \<times> int \<times> int) list" where
  "seg_images segs \<equiv> concat (map (image_grid \<circ> snd) segs)"
abbreviation seg_videos :: "segments \<Rightarrow> (int \<times> int \<times> int) list" where
  "seg_videos segs \<equiv> concat (map (video_grid \<circ> snd) segs)"
abbreviation seg_audios :: "segments \<Rightarrow> nat list" where
  "seg_audios segs \<equiv> concat (map (audio_count \<circ> snd) segs)"

definition segments_ok :: "'z TLiveOmniTokenIds_scheme \<Rightarrow> int \<Rightarrow> bool \<Rightarrow> segments \<Rightarrow> bool" where
  "segments_ok cfg m use_audio segs \<longleftrightarrow>
     list_all (\<lambda>(t, M). plain_text cfg t \<and> media_ok m M \<and> (is_av M \<longrightarrow> use_audio)) segs"

section \<open>Blocks\<close>

lemma length_linear_block [simp]: "length (linear_block p n) = n"
  by (simp add: linear_block_def)

lemma linear_block_0 [simp]: "linear_block p 0 = []"
  by (simp add: linear_block_def)

lemma linear_block_append: "linear_block p a @ linear_block (p + int a) b = linear_block p (a + b)"
  by (rule nth_equalityI) (auto simp: linear_block_def nth_append)

text \<open>The largest coordinate of a block.\<close>

definition peak :: "pos \<Rightarrow> int" where
  "peak q = (case q of (t, h, w) \<Rightarrow> max t (max h w))"

lemma foldl_peak: "foldl (\<lambda>a (t, h, w). max a (max t (max h w))) c ps = foldl max c (map peak ps)"
  by (induction ps arbitrary: c) (auto simp: peak_def)

lemma block_max_Max: "block_max b = (if b = [] then None else Some (Max (peak ` set b)))"
proof (cases b)
  case (Cons q ps)
  have "foldl max c xs = fold max xs c" for c :: int and xs
    by (induction xs arbitrary: c) (simp_all add: max.commute)
  then have "foldl max c xs = Max (set (c # xs))" for c :: int and xs
    by (simp only: Max.set_eq_fold)
  then show ?thesis using Cons by (cases q) (simp add: block_max_def foldl_peak peak_def)
qed (simp add: block_max_def)

lemma block_maxI: "b \<noteq> [] \<Longrightarrow> x \<in> set b \<Longrightarrow> peak x = n \<Longrightarrow> (\<And>y. y \<in> set b \<Longrightarrow> peak y \<le> n) \<Longrightarrow> block_max b = Some n"
  unfolding block_max_Max by (auto intro!: Max_eqI)

lemma block_max_linear: "0 < n \<Longrightarrow> block_max (linear_block p n) = Some (p + int n - 1)"
  by (rule block_maxI [of _ "(p + int n - 1, p + int n - 1, p + int n - 1)"])
    (auto simp: linear_block_def peak_def image_iff intro!: bexI [of _ "n - 1"])

lemma set_frame_positions:
  "set (frame_positions m p h w) =
     {(p, p + y, p + x) |x y. 0 \<le> x \<and> x < w div m \<and> 0 \<le> y \<and> y < h div m}"
proof -
  have "set [0..<nat k] = nat ` {0..<k}" for k
    by (auto simp: image_iff intro!: bexI [of _ "int _"])
  then show ?thesis
    by (auto simp: frame_positions_def grid_block_def image_iff algebra_simps) 
qed

lemma block_max_frame:
  assumes "0 < h div m" "0 < w div m"
  shows "block_max (frame_positions m p h w) = Some (p + extent m h w - 1)"
proof -
  let ?q = "(p, p + (h div m - 1), p + (w div m - 1))"
  have q: "?q \<in> set (frame_positions m p h w)" using assms by (auto simp: set_frame_positions)
  show ?thesis
  proof (rule block_maxI [of _ ?q])
    show "frame_positions m p h w \<noteq> []" using q by (metis empty_iff empty_set)
  qed (use q assms in \<open>auto simp: set_frame_positions peak_def extent_def\<close>)
qed

lemma length_frame_positions: "length (frame_positions m p h w) = nat (h div m) * nat (w div m)"
  by (simp add: frame_positions_def grid_block_def length_concat comp_def sum_list_triv)

lemma grid_tokens_factors:
  assumes "0 < m" "0 < h" "0 < w" "m dvd h" "m dvd w"
  shows "grid_tokens m h w = nat (h div m) * nat (w div m)" "0 < h div m" "0 < w div m"
proof -
  from assms obtain a b where ab: "h = m * a" "w = m * b" unfolding dvd_def by blast
  with assms have pos: "0 < a" "0 < b" by (simp_all add: zero_less_mult_iff)
  have "h * w = m ^ 2 * (a * b)" by (simp add: ab power2_eq_square)
  with assms(1) have "(h * w) div m ^ 2 = a * b" by simp
  with ab pos assms(1) show "grid_tokens m h w = nat (h div m) * nat (w div m)"
    "0 < h div m" "0 < w div m"
    by (simp_all add: grid_tokens_def nat_mult_distrib)
qed

section \<open>Where a round starts\<close>

definition positioned :: "rope_state \<Rightarrow> int \<Rightarrow> bool" where
  "positioned s p \<longleftrightarrow> (if blocks s = [] then p = 0 else block_max (last (blocks s)) = Some (p - 1))"

lemma positioned_next: "positioned s p \<Longrightarrow> next_position e (blocks s) = Inr p"
  by (simp add: positioned_def next_position_def split: if_splits)

definition at_segments ::
    "'z TLiveOmniTokenIds_scheme \<Rightarrow> int \<Rightarrow> bool \<Rightarrow> int list \<Rightarrow> rope_state \<Rightarrow> segments \<Rightarrow> int list \<Rightarrow> int \<Rightarrow> bool" where
  "at_segments cfg m ua tokens s segs tail p \<longleftrightarrow>
     (\<exists>pre. tokens = pre @ render_segments cfg m segs tail \<and> st s = length pre) \<and>
     positioned s p \<and> segments_ok cfg m ua segs \<and> plain_text cfg tail \<and>
     remain_images s = int (length (seg_images segs)) \<and>
     remain_videos s = int (length (seg_videos segs)) \<and>
     remain_audios s = int (length (seg_audios segs))"

lemma render_Cons: "render_segments cfg m ((tx, M) # segs) tail = tx @ render_media cfg m M @ render_segments cfg m segs tail"
  by (simp add: render_segments_def)

lemma render_vision_tokens:
  "seg_images segs \<noteq> [] \<or> seg_videos segs \<noteq> [] \<Longrightarrow>
     vision_start_token_id cfg \<in> set (render_segments cfg m segs tail) \<and>
     vision_end_token_id cfg \<in> set (render_segments cfg m segs tail)"
proof (induction segs)
  case (Cons seg segs)
  obtain tx M where "seg = (tx, M)" by (cases seg)
  with Cons show ?case by (cases M) (auto simp: render_Cons)
qed simp

lemma py_index_pre: "py_index (pre @ xs) t (length pre) = map_option ((+) (length pre)) (py_index xs t 0)"
  by (subst py_index_drop) simp

lemma py_index_skip:
  "t \<notin> set xs \<Longrightarrow> py_index (pre @ xs @ ys) t (length pre) =
     map_option ((+) (length pre + length xs)) (py_index ys t 0)"
  by (cases "py_index ys t 0") (simp_all add: py_index_pre py_index_0_append)

lemma py_index_hit:
  "t \<notin> set xs \<Longrightarrow> py_index (pre @ xs @ t # ys) t (length pre) = Some (length pre + length xs)"
  by (simp add: py_index_skip)

lemma plain_not_special: "plain_text cfg tx \<Longrightarrow> x \<in> set (special_ids cfg) \<Longrightarrow> x \<notin> set tx"
  by (auto simp: plain_text_def list_all_iff)

lemma specials [simp]:
  "audio_token_id cfg \<in> set (special_ids cfg)" "image_token_id cfg \<in> set (special_ids cfg)"
  "video_token_id cfg \<in> set (special_ids cfg)" "audio_start_token_id cfg \<in> set (special_ids cfg)"
  "audio_end_token_id cfg \<in> set (special_ids cfg)" "vision_start_token_id cfg \<in> set (special_ids cfg)"
  "vision_end_token_id cfg \<in> set (special_ids cfg)"
  by (simp_all add: special_ids_def)

lemma distinct_specials:
  assumes "distinct (special_ids cfg)"
  shows "audio_token_id cfg \<noteq> image_token_id cfg" "audio_token_id cfg \<noteq> video_token_id cfg"
    "audio_token_id cfg \<noteq> audio_start_token_id cfg" "audio_token_id cfg \<noteq> audio_end_token_id cfg"
    "audio_token_id cfg \<noteq> vision_start_token_id cfg" "audio_token_id cfg \<noteq> vision_end_token_id cfg"
    "image_token_id cfg \<noteq> video_token_id cfg" "image_token_id cfg \<noteq> audio_start_token_id cfg"
    "image_token_id cfg \<noteq> audio_end_token_id cfg" "image_token_id cfg \<noteq> vision_start_token_id cfg"
    "image_token_id cfg \<noteq> vision_end_token_id cfg" "video_token_id cfg \<noteq> audio_start_token_id cfg"
    "video_token_id cfg \<noteq> audio_end_token_id cfg" "video_token_id cfg \<noteq> vision_start_token_id cfg"
    "video_token_id cfg \<noteq> vision_end_token_id cfg" "audio_start_token_id cfg \<noteq> audio_end_token_id cfg"
    "audio_start_token_id cfg \<noteq> vision_start_token_id cfg" "audio_start_token_id cfg \<noteq> vision_end_token_id cfg"
    "audio_end_token_id cfg \<noteq> vision_start_token_id cfg" "audio_end_token_id cfg \<noteq> vision_end_token_id cfg"
    "vision_start_token_id cfg \<noteq> vision_end_token_id cfg"
  using assms by (simp_all add: special_ids_def)

text \<open>The shape of the prompt around the next span.\<close>

lemma at_segmentsD:
  assumes "at_segments cfg m ua tokens s ((tx, M) # segs) tail p"
  shows "\<exists>pre. tokens = pre @ tx @ render_media cfg m M @ render_segments cfg m segs tail \<and> st s = length pre"
    and "plain_text cfg tx" and "media_ok m M" and "is_av M \<longrightarrow> ua" and "positioned s p"
    and "remain_images s = int (length (image_grid M)) + int (length (seg_images segs))"
    and "remain_videos s = int (length (video_grid M)) + int (length (seg_videos segs))"
    and "remain_audios s = int (length (audio_count M)) + int (length (seg_audios segs))"
    and "segments_ok cfg m ua segs" and "plain_text cfg tail"
  using assms by (simp_all add: at_segments_def render_Cons segments_ok_def)

lemma locate_audio:
  assumes ids: "distinct (special_ids cfg)"
    and at: "at_segments cfg m ua tokens s ((tx, MAudio n) # segs) tail p"
  shows "\<exists>vs ve. locate_media cfg ua tokens s = Inr (vs, ve, st s + length tx) \<and> st s + length tx < vs"
proof -
  note D = at_segmentsD [OF at] and plain = at_segmentsD(2) [OF at]
  obtain pre where t: "tokens = pre @ tx @ render_media cfg m (MAudio n) @ render_segments cfg m segs tail"
    and st: "st s = length pre" using D(1) by blast
  have remain: "remain_images s = int (length (seg_images segs))" "remain_videos s = int (length (seg_videos segs))"
      "remain_audios s > 0" using D(6-8) by simp_all
  note ne = distinct_specials [OF ids] distinct_specials [OF ids, THEN not_sym] plain_not_special [OF plain]
  let ?rest = "render_segments cfg m segs tail"
  have nas: "py_index tokens (audio_start_token_id cfg) (st s) = Some (st s + length tx)"
    unfolding t st using py_index_hit [of _ tx pre] by (simp add: ne)
  have after: "py_index tokens x (st s) = map_option ((+) (st s + length tx + n + 2)) (py_index ?rest x 0)"
    if "x \<in> {vision_start_token_id cfg, vision_end_token_id cfg}" for x
    using py_index_skip [of x "tx @ render_media cfg m (MAudio n)" pre ?rest] that
    by (auto simp: t st ne add.assoc)
  show ?thesis
  proof (cases "(image_token_id cfg \<in> set tokens \<or> video_token_id cfg \<in> set tokens) \<and>
            (remain_videos s > 0 \<or> remain_images s > 0)")
    case True
    then have "seg_images segs \<noteq> [] \<or> seg_videos segs \<noteq> []" using remain by auto
    from render_vision_tokens [OF this, of cfg m tail] obtain a b where
      "py_index ?rest (vision_start_token_id cfg) 0 = Some a" "py_index ?rest (vision_end_token_id cfg) 0 = Some b"
      by (metis py_index_None_iff not_None_eq)
    then show ?thesis
      unfolding locate_media_def Let_def if_P [OF True] using remain(3)
      by (simp add: token_index_def nas after)
  next
    case False
    have "locate_media cfg ua tokens s = Inr (length tokens + 1, length tokens + 1, st s + length tx)"
      unfolding locate_media_def Let_def if_not_P [OF False] using remain(3) by (simp add: nas)
    moreover have "st s + length tx < length tokens + 1" by (simp add: t st)
    ultimately show ?thesis by blast
  qed
qed

lemma locate_vision:
  assumes ids: "distinct (special_ids cfg)" and m: "0 < m"
    and at: "at_segments cfg m ua tokens s ((tx, M) # segs) tail p"
    and M: "M = MImage h w \<or> M = MVideo h w"
  defines "a \<equiv> st s + length tx" and "g \<equiv> grid_tokens m h w"
  shows "\<exists>as. locate_media cfg ua tokens s = Inr (a, a + 1 + g, as) \<and> a + 1 + g < as"
proof -
  note D = at_segmentsD [OF at] and plain = at_segmentsD(2) [OF at] and ok = at_segmentsD(3) [OF at]
  obtain pre where t: "tokens = pre @ tx @ render_media cfg m M @ render_segments cfg m segs tail"
    and st: "st s = length pre" using D(1) by blast
  have remain: "remain_videos s > 0 \<or> remain_images s > 0" using D(6,7) M by auto
  note ne = distinct_specials [OF ids] distinct_specials [OF ids, THEN not_sym] plain_not_special [OF plain]
  let ?rest = "render_segments cfg m segs tail"
  have g: "0 < g" using M ok m grid_tokens_factors [of m h w] by (auto simp: g_def)
  define tok where "tok = (if is_image M then image_token_id cfg else video_token_id cfg)"
  have tok: "render_media cfg m M = vision_start_token_id cfg # replicate g tok @ [vision_end_token_id cfg]"
    "tok \<in> {image_token_id cfg, video_token_id cfg}" using M by (auto simp: g_def tok_def)
  have vs: "py_index tokens (vision_start_token_id cfg) (st s) = Some a"
    unfolding t st a_def using py_index_hit [of _ tx pre] by (simp add: tok ne)
  have ve: "py_index tokens (vision_end_token_id cfg) (st s) = Some (a + 1 + g)"
    using py_index_hit [of "vision_end_token_id cfg" "tx @ vision_start_token_id cfg # replicate g tok" pre ?rest] tok(2)
    by (auto simp: t st a_def tok(1) ne)
  have as: "py_index tokens (audio_start_token_id cfg) (st s) =
      map_option ((+) (a + g + 2)) (py_index ?rest (audio_start_token_id cfg) 0)"
    using py_index_skip [of "audio_start_token_id cfg" "tx @ render_media cfg m M" pre ?rest] tok(2)
    by (auto simp: t st a_def tok(1) ne add.assoc)
  have "image_token_id cfg \<in> set tokens \<or> video_token_id cfg \<in> set tokens" using g tok by (auto simp: t)
  moreover have "a + 1 + g < length tokens + 1" by (simp add: t st a_def tok)
  ultimately show ?thesis using remain
    by (cases "py_index ?rest (audio_start_token_id cfg) 0")
      (auto simp: locate_media_def token_index_def vs ve as Let_def)
qed

lemma locate_av:
  assumes ids: "distinct (special_ids cfg)" and m: "0 < m"
    and at: "at_segments cfg m ua tokens s ((tx, MAV h w n) # segs) tail p"
  defines "a \<equiv> st s + length tx"
  shows "locate_media cfg ua tokens s = Inr (a, a + grid_tokens m h w + n + 3, a + 1)"
proof -
  let ?g = "grid_tokens m h w" and ?M = "MAV h w n" and ?rest = "render_segments cfg m segs tail"
  note D = at_segmentsD [OF at] and plain = at_segmentsD(2) [OF at] and ok = at_segmentsD(3) [OF at]
  obtain pre where t: "tokens = pre @ tx @ render_media cfg m ?M @ ?rest"
    and st: "st s = length pre" using D(1) by blast
  have remain: "remain_videos s > 0" and ua: ua using D(4,7) by simp_all
  note ne = distinct_specials [OF ids] distinct_specials [OF ids, THEN not_sym] plain_not_special [OF plain]
  have g: "0 < ?g" using ok m grid_tokens_factors [of m h w] by auto
  let ?mid = "replicate ?g (video_token_id cfg) @ replicate n (audio_token_id cfg) @ [audio_end_token_id cfg]"
  have vs: "py_index tokens (vision_start_token_id cfg) (st s) = Some a"
    unfolding t st a_def using py_index_hit [of _ tx pre] by (simp add: ne)
  have ve: "py_index tokens (vision_end_token_id cfg) (st s) = Some (a + ?g + n + 3)"
    using py_index_hit [of "vision_end_token_id cfg" "tx @ vision_start_token_id cfg # audio_start_token_id cfg # ?mid" pre ?rest]
    by (auto simp: t st a_def ne)
  have as: "py_index tokens (audio_start_token_id cfg) (st s) = Some (a + 1)"
    using py_index_hit [of "audio_start_token_id cfg" "tx @ [vision_start_token_id cfg]" pre
        "?mid @ vision_end_token_id cfg # ?rest"]
    by (auto simp: t st a_def ne)
  have "video_token_id cfg \<in> set tokens" using g by (auto simp: t)
  then show ?thesis using remain ua
    by (auto simp: locate_media_def token_index_def vs ve as Let_def)
qed

text \<open>The measurement of an interleaved span.\<close>

lemma find_filter_upt:
  assumes "P i" "i < n" "\<And>j. j < i \<Longrightarrow> \<not> P j"
  shows "List.find P [0..<n] = Some i"
  using assms by (auto simp: find_Some_iff)

lemma find_filter: "List.find P (filter Q xs) = List.find (\<lambda>x. Q x \<and> P x) xs"
  by (induction xs) auto

lemma find_token_index:
  assumes "tok \<notin> set mid"
  shows "List.find (\<lambda>i. i > length pre) (token_indices tok (pre @ x # mid @ tok # rest)) =
    Some (length pre + 1 + length mid)"
  unfolding token_indices_def find_filter
proof (rule find_filter_upt)
  fix j assume j: "j < length pre + 1 + length mid"
  show "\<not> ((pre @ x # mid @ tok # rest) ! j = tok \<and> j > length pre)"
  proof
    assume h: "(pre @ x # mid @ tok # rest) ! j = tok \<and> j > length pre"
    then obtain i where i: "j = length pre + 1 + i" by (metis add.commute less_iff_Suc_add plus_1_eq_Suc add.assoc)
    with j have "i < length mid" by simp
    with h i have "mid ! i = tok" by (simp add: nth_append)
    with \<open>i < length mid\<close> assms show False by (auto simp: set_conv_nth)
  qed
qed (simp_all add: nth_append)

lemma measure_av_span_ok:
  assumes ids: "distinct (special_ids cfg)" and g: "0 < g"
    and t: "tokens = pre @ vision_start_token_id cfg # audio_start_token_id cfg #
      replicate g (video_token_id cfg) @ replicate n (audio_token_id cfg) @
      audio_end_token_id cfg # vision_end_token_id cfg # rest"
  shows "measure_av_span cfg e tokens (length pre) (length pre + g + n + 3) (length pre + 1) (int g) = Inr (g, n)"
proof -
  note ne = distinct_specials [OF ids] distinct_specials [OF ids, THEN not_sym]
  let ?mid = "replicate g (video_token_id cfg) @ replicate n (audio_token_id cfg)"
  have stop: "List.find (\<lambda>i. i > length pre + 1) (token_indices (audio_end_token_id cfg) tokens) =
      Some (length pre + g + n + 2)"
    using find_token_index [of "audio_end_token_id cfg" ?mid "pre @ [vision_start_token_id cfg]"]
    by (auto simp: t ne)
  have slice: "py_slice tokens (length pre + 2) (length pre + g + n + 2) = ?mid"
    using py_slice_append3 [of "pre @ [vision_start_token_id cfg, audio_start_token_id cfg]" ?mid]
    by (simp add: t add.assoc)
  have "takeWhile (\<lambda>x. x = video_token_id cfg) ?mid = replicate g (video_token_id cfg)"
    by (cases n) (simp_all add: takeWhile_append ne)
  with stop slice g show ?thesis
    by (simp add: measure_av_span_def Let_def list_all_iff)
qed

section \<open>One round\<close>

text \<open>The blocks that a round appends for the text and for the span.\<close>

definition text_block :: "int \<Rightarrow> int list \<Rightarrow> pos list list" where
  "text_block p tx = (if tx = [] then [] else [linear_block p (length tx)])"

fun media_blocks :: "int \<Rightarrow> int \<Rightarrow> media \<Rightarrow> pos list list" where
  "media_blocks m p (MImage h w) =
     [linear_block p 1, frame_positions m (p + 1) h w, linear_block (p + 1 + extent m h w) 1]"
| "media_blocks m p (MVideo h w) =
     [linear_block p 1, frame_positions m (p + 1) h w, linear_block (p + 1 + extent m h w) 1]"
| "media_blocks m p (MAudio n) = [linear_block p 1, linear_block (p + 1) n, linear_block (p + 1 + int n) 1]"
| "media_blocks m p (MAV h w n) =
     [linear_block p 1, linear_block (p + 1) 1, frame_positions m (p + 2) h w] @
     (if n > 0 then [linear_block (p + 2) n] else []) @
     [linear_block (p + 2 + (if n > 0 then int n else extent m h w)) 2]"

lemma concat_text_block [simp]: "concat (text_block p tx) = linear_block p (length tx)"
  by (simp add: text_block_def)

lemma concat_media_blocks: "concat (media_blocks m p M) = media_positions m p M"
proof (cases M)
  case (MAudio n)
  have "linear_block p 1 @ linear_block (p + 1) n @ linear_block (p + 1 + int n) 1 = linear_block p (n + 2)"
    using linear_block_append [of p 1 n] linear_block_append [of p "1 + n" 1]
    by (simp add: add.assoc flip: append_assoc)
  with MAudio show ?thesis by simp
next
  case (MAV h w n)
  have "linear_block p 1 @ linear_block (p + 1) 1 = linear_block p 2"
    using linear_block_append [of p 1 1] by (simp add: numeral_2_eq_2)
  with MAV show ?thesis by (simp flip: append_assoc)
qed simp_all

lemma media_blocks_last:
  "media_blocks m p M \<noteq> []" "block_max (last (media_blocks m p M)) = Some (media_next m p M - 1)"
  by (cases M; simp add: block_max_linear)+

lemma append_1d_eq [simp]:
  "append_1d bs p (int (length tx)) = bs @ text_block p tx"
  "append_1d bs p 1 = bs @ [linear_block p 1]" "append_1d bs p 2 = bs @ [linear_block p 2]"
  "0 < n \<Longrightarrow> append_1d bs p (int n) = bs @ [linear_block p n]"
  by (simp_all add: append_1d_def text_block_def)

lemma next_position_snoc: "block_max b = Some n \<Longrightarrow> next_position e (bs @ [b]) = Inr (n + 1)"
  by (simp add: next_position_def)

lemma next_position_linear: "0 < n \<Longrightarrow> next_position e (bs @ [linear_block p n]) = Inr (p + int n)"
  by (simp add: next_position_snoc block_max_linear)

lemma next_position_frame:
  "0 < h div m \<Longrightarrow> 0 < w div m \<Longrightarrow>
     next_position e (bs @ [frame_positions m p h w]) = Inr (p + extent m h w)"
  by (simp add: next_position_snoc block_max_frame)

text \<open>What a round has to do with the state.\<close>

definition moved :: "int \<Rightarrow> 'z TLiveOmniTokenIds_scheme \<Rightarrow> int \<Rightarrow> int list \<Rightarrow> media \<Rightarrow> rope_state \<Rightarrow> rope_state \<Rightarrow> bool" where
  "moved m cfg p tx M s s' \<longleftrightarrow>
     blocks s' = blocks s @ text_block p tx @ media_blocks m (p + int (length tx)) M \<and>
     st s' = st s + length tx + length (render_media cfg m M) \<and>
     image_idx s' = image_idx s + length (image_grid M) \<and>
     video_idx s' = video_idx s + length (video_grid M) \<and>
     remain_images s' = remain_images s - int (length (image_grid M)) \<and>
     remain_videos s' = remain_videos s - int (length (video_grid M)) \<and>
     remain_audios s' = remain_audios s - int (length (audio_count M))"

lemma moved_at_segments:
  assumes "at_segments cfg m ua tokens s ((tx, M) # segs) tail p" and "moved m cfg p tx M s s'"
  shows "at_segments cfg m ua tokens s' segs tail (media_next m (p + int (length tx)) M)"
proof -
  note D = at_segmentsD [OF assms(1)]
  obtain pre where "tokens = pre @ tx @ render_media cfg m M @ render_segments cfg m segs tail"
    "st s = length pre" using D(1) by blast
  then have "tokens = (pre @ tx @ render_media cfg m M) @ render_segments cfg m segs tail \<and>
      st s' = length (pre @ tx @ render_media cfg m M)"
    using assms(2) by (simp add: moved_def)
  moreover have "positioned s' (media_next m (p + int (length tx)) M)"
    using assms(2) media_blocks_last [of m "p + int (length tx)" M] by (simp add: positioned_def moved_def)
  ultimately show ?thesis
    using assms(2) D(6-10) unfolding at_segments_def by (auto simp: moved_def)
qed

section \<open>The loop\<close>

text \<open>
  The contract of a position loop: from a state that is ready for a sequence of segments, one
  round handles the first of them, and the state is then ready for the others.
\<close>

locale rope_engine =
  fixes step :: "rope_state \<Rightarrow> rope_state res"
    and ready :: "rope_state \<Rightarrow> segments \<Rightarrow> int \<Rightarrow> bool"
    and m :: int
  assumes round: "ready s ((tx, M) # segs) p \<Longrightarrow>
    \<exists>s'. step s = Inr s' \<and> ready s' segs (media_next m (p + int (length tx)) M) \<and>
      concat (blocks s') = concat (blocks s) @ linear_block p (length tx) @ media_positions m (p + int (length tx)) M"
begin

lemma loop:
  "ready s segs p \<Longrightarrow> \<exists>s' q. iterate_res (length segs) step s = Inr s' \<and> ready s' [] q \<and>
     concat (blocks s') @ linear_block q (length tail) = concat (blocks s) @ spec_positions m p segs tail"
proof (induction segs arbitrary: s p)
  case Nil
  then show ?case by auto
next
  case (Cons seg segs)
  obtain tx M where seg: "seg = (tx, M)" by (cases seg)
  from round [OF Cons.prems [unfolded seg]] obtain s1 where
    step: "step s = Inr s1" and ready: "ready s1 segs (media_next m (p + int (length tx)) M)" and
    pos: "concat (blocks s1) = concat (blocks s) @ linear_block p (length tx) @ media_positions m (p + int (length tx)) M"
    by blast
  from Cons.IH [OF ready] obtain s' q where
    "iterate_res (length segs) step s1 = Inr s'" "ready s' [] q"
    "concat (blocks s') @ linear_block q (length tail) =
       concat (blocks s1) @ spec_positions m (media_next m (p + int (length tx)) M) segs tail" by blast
  with step pos seg show ?case by auto
qed

end

section \<open>The rounds of the vLLM model\<close>

lemma f32_t_index_1 [simp]: "f32_t_index 1 f = [0]" "f32_t_index (Suc 0) f = [0]"
proof -
  have "trunc (f32 eps_f32) = 0" by code_simp
  then show "f32_t_index 1 f = [0]" "f32_t_index (Suc 0) f = [0]" by (simp_all add: f32_t_index_def)
qed

lemma vision_grid_frame: "vision_grid m p (1, h, w) f = (frame_positions m p h w, grid_tokens m h w)"
  by (simp add: vision_grid_def frame_positions_def grid_tokens_def)

definition vllm_ready ::
    "'z TLiveOmniTokenIds_scheme \<Rightarrow> int \<Rightarrow> media_lists \<Rightarrow> int list \<Rightarrow> int list \<Rightarrow> rope_state \<Rightarrow> segments \<Rightarrow> int \<Rightarrow> bool" where
  "vllm_ready cfg m ml tokens tail s segs p \<longleftrightarrow>
     distinct (special_ids cfg) \<and> 0 < m \<and> at_segments cfg m (ml_use_audio ml) tokens s segs tail p \<and>
     (seg_images segs \<noteq> [] \<longrightarrow> (\<exists>gs. ml_images ml = Some gs \<and> drop (image_idx s) gs = seg_images segs)) \<and>
     (seg_videos segs \<noteq> [] \<longrightarrow> (\<exists>gs ss. ml_videos ml = Some gs \<and> ml_seconds ml = Some ss \<and>
        length ss = length gs \<and> drop (video_idx s) gs = seg_videos segs)) \<and>
     (seg_audios segs \<noteq> [] \<longrightarrow> ml_audios ml \<noteq> None)"

lemma py_nth_drop_Cons: "drop i xs = x # ys \<Longrightarrow> py_nth xs (int i) = Inr x \<and> drop (Suc i) xs = ys"
  by (metis Cons_nth_drop_Suc drop_eq_Nil le_less_linear list.distinct(1) list.inject py_nth_of_nat)

lemma next_video_grid_ok:
  "ml_videos ml = Some gs \<Longrightarrow> ml_seconds ml = Some ss \<Longrightarrow> length ss = length gs \<Longrightarrow>
   drop i gs = (1, h, w) # ys \<Longrightarrow> \<exists>f. next_video_grid cfg ml i = Inr ((1, h, w), f)"
  using py_nth_drop_Cons [of i gs "(1, h, w)" ys]
  by (auto simp: next_video_grid_def py_nth_of_nat split: if_splits)

lemma vllm_ready_video:
  assumes "vllm_ready cfg m ml tokens tail s ((tx, M) # segs) p" and "video_grid M = [(1, h, w)]"
  shows "\<exists>f. next_video_grid cfg ml (video_idx s) = Inr ((1, h, w), f)"
proof -
  from assms obtain gs ss where "ml_videos ml = Some gs" "ml_seconds ml = Some ss" "length ss = length gs"
    "drop (video_idx s) gs = (1, h, w) # seg_videos segs"
    unfolding vllm_ready_def by auto
  then show ?thesis by (rule next_video_grid_ok)
qed

text \<open>The state after the begin marker, and a round from there on.\<close>

definition opened :: "int \<Rightarrow> int list \<Rightarrow> rope_state \<Rightarrow> rope_state" where
  "opened p tx s = s\<lparr>blocks := blocks s @ text_block p tx @ [linear_block (p + int (length tx)) 1]\<rparr>"

lemma opened_sel [simp]:
  "blocks (opened p tx s) = blocks s @ text_block p tx @ [linear_block (p + int (length tx)) 1]"
  "st (opened p tx s) = st s" "image_idx (opened p tx s) = image_idx s"
  "video_idx (opened p tx s) = video_idx s" "audio_idx (opened p tx s) = audio_idx s"
  "remain_images (opened p tx s) = remain_images s" "remain_videos (opened p tx s) = remain_videos s"
  "remain_audios (opened p tx s) = remain_audios s"
  by (simp_all add: opened_def)

abbreviation np_error :: pyerr where
  "np_error \<equiv> ValueError ''zero-size array to reduction operation maximum''"

lemma mrope_step_eq:
  assumes "positioned s p" "locate_media cfg (ml_use_audio ml) tokens s = Inr (vs, ve, as)"
    and "min vs as = st s + length tx"
  shows "mrope_step cfg m ml tokens s =
    rbind (if st s + length tx = as then mrope_audio cfg ml tokens as (length tx) (p + int (length tx) + 1) (opened p tx s)
           else rbind (py_nth tokens (int vs + 1)) (\<lambda>first.
             if first = image_token_id cfg then mrope_image cfg m ml (length tx) (p + int (length tx) + 1) (opened p tx s)
             else if ve < as then mrope_video cfg m ml (length tx) (p + int (length tx) + 1) (opened p tx s)
             else if ve > as then mrope_av cfg m ml tokens vs ve as (length tx) (p + int (length tx) + 1) (opened p tx s)
             else Inr (opened p tx s, 1))) (\<lambda>(s2, eos_len).
      rbind (next_position np_error (blocks s2)) (\<lambda>q. Inr (s2\<lparr>blocks := append_1d (blocks s2) q eos_len\<rparr>)))"
  by (simp only: mrope_step_def positioned_next [OF assms(1)] assms(2,3) rbind_Inr prod.case Let_def
      diff_add_inverse append_1d_eq opened_def append_assoc)

lemma mrope_step_audio:
  assumes ready: "vllm_ready cfg m ml tokens tail s ((tx, MAudio n) # segs) p"
  shows "\<exists>s'. mrope_step cfg m ml tokens s = Inr s' \<and> moved m cfg p tx (MAudio n) s s'"
proof -
  have ids: "distinct (special_ids cfg)" and at: "at_segments cfg m (ml_use_audio ml) tokens s ((tx, MAudio n) # segs) tail p"
    and au: "ml_audios ml \<noteq> None" using ready by (simp_all add: vllm_ready_def)
  note D = at_segmentsD [OF at]
  note ne = distinct_specials [OF ids] distinct_specials [OF ids, THEN not_sym] plain_not_special [OF D(2)]
  let ?a = "st s + length tx"
  obtain vs ve where loc: "locate_media cfg (ml_use_audio ml) tokens s = Inr (vs, ve, ?a)" and vs: "?a < vs"
    using locate_audio [OF ids at] by blast
  obtain pre where t: "tokens = pre @ tx @ render_media cfg m (MAudio n) @ render_segments cfg m segs tail"
    and st: "st s = length pre" using D(1) by blast
  have n: "0 < n" using D(3) by simp
  have stop: "py_index tokens (audio_end_token_id cfg) ?a = Some (?a + n + 1)"
    using py_index_hit [of "audio_end_token_id cfg" "audio_start_token_id cfg # replicate n (audio_token_id cfg)" "pre @ tx"
        "render_segments cfg m segs tail"] by (auto simp: t st ne)
  have slice: "py_slice tokens (?a + 1) (?a + n + 1) = replicate n (audio_token_id cfg)"
    using py_slice_append3 [of "pre @ tx @ [audio_start_token_id cfg]" "replicate n (audio_token_id cfg)"]
    by (simp add: t st add.assoc)
  let ?s2 = "opened p tx s\<lparr>blocks := blocks (opened p tx s) @ [linear_block (p + int (length tx) + 1) n],
      st := st s + length tx + 1 + n + 1, audio_idx := audio_idx s + 1, remain_audios := remain_audios s - 1\<rparr>"
  have branch: "mrope_audio cfg ml tokens ?a (length tx) (p + int (length tx) + 1) (opened p tx s) = Inr (?s2, 1)"
    using au n stop slice by (simp add: mrope_audio_def Let_def list_all_iff)
  have "mrope_step cfg m ml tokens s = Inr (?s2\<lparr>blocks := blocks ?s2 @ [linear_block (p + int (length tx) + 1 + int n) 1]\<rparr>)"
    using mrope_step_eq [OF D(5) loc, of tx m] vs n branch next_position_linear [OF n]
    by (simp flip: append_assoc)
  then show ?thesis by (simp add: moved_def)
qed

lemma vision_first_token:
  assumes "tokens = pre @ tx @ render_media cfg m M @ rest" "st s = length pre" "0 < m" "media_ok m M"
  shows "M = MImage h w \<Longrightarrow> py_nth tokens (int (st s + length tx) + 1) = Inr (image_token_id cfg)"
    and "M = MVideo h w \<Longrightarrow> py_nth tokens (int (st s + length tx) + 1) = Inr (video_token_id cfg)"
    and "M = MAV h w n \<Longrightarrow> py_nth tokens (int (st s + length tx) + 1) = Inr (audio_start_token_id cfg)"
proof -
  have eq: "py_nth tokens (int (st s + length tx) + 1) = Inr x"
    if "render_media cfg m M = v # x # l" for v x l
    using that py_nth_of_nat [of tokens "st s + length tx + 1"] assms(1,2)
    by (simp add: nth_append add.commute)
  have g: "0 < grid_tokens m h w" if "M \<in> {MImage h w, MVideo h w}" 
    using that assms(3,4) grid_tokens_factors [of m h w] by auto
  then obtain k where k: "M \<in> {MImage h w, MVideo h w} \<Longrightarrow> grid_tokens m h w = Suc k"
    using gr0_implies_Suc by blast
  show "M = MImage h w \<Longrightarrow> py_nth tokens (int (st s + length tx) + 1) = Inr (image_token_id cfg)"
    by (rule eq [of "vision_start_token_id cfg" _ "replicate k (image_token_id cfg) @ [vision_end_token_id cfg]"])
      (simp add: k)
  show "M = MVideo h w \<Longrightarrow> py_nth tokens (int (st s + length tx) + 1) = Inr (video_token_id cfg)"
    by (rule eq [of "vision_start_token_id cfg" _ "replicate k (video_token_id cfg) @ [vision_end_token_id cfg]"])
      (simp add: k)
  show "M = MAV h w n \<Longrightarrow> py_nth tokens (int (st s + length tx) + 1) = Inr (audio_start_token_id cfg)"
    by (rule eq [of "vision_start_token_id cfg"]) simp
qed

lemma frame_length:
  assumes "0 < m" "media_ok m M" "M = MImage h w \<or> M = MVideo h w \<or> M = MAV h w n"
  shows "0 < h div m" "0 < w div m" "0 < grid_tokens m h w"
  using assms grid_tokens_factors [of m h w] by auto

lemma mrope_step_image:
  assumes ready: "vllm_ready cfg m ml tokens tail s ((tx, MImage h w) # segs) p"
  shows "\<exists>s'. mrope_step cfg m ml tokens s = Inr s' \<and> moved m cfg p tx (MImage h w) s s'"
proof -
  have ids: "distinct (special_ids cfg)" and m: "0 < m"
    and at: "at_segments cfg m (ml_use_audio ml) tokens s ((tx, MImage h w) # segs) tail p"
    using ready by (simp_all add: vllm_ready_def)
  obtain gs where gs: "ml_images ml = Some gs" "drop (image_idx s) gs = (1, h, w) # seg_images segs"
    using ready by (auto simp: vllm_ready_def)
  note D = at_segmentsD [OF at] and f = frame_length [OF m at_segmentsD(3) [OF at], of h w]
  let ?a = "st s + length tx" and ?p = "p + int (length tx) + 1" and ?g = "grid_tokens m h w"
  obtain as where loc: "locate_media cfg (ml_use_audio ml) tokens s = Inr (?a, ?a + 1 + ?g, as)" and as: "?a + 1 + ?g < as"
    using locate_vision [OF ids m at] by blast
  have first: "py_nth tokens (int ?a + 1) = Inr (image_token_id cfg)"
    using D(1) vision_first_token(1) [OF _ _ m D(3)] by blast
  let ?s2 = "opened p tx s\<lparr>blocks := blocks (opened p tx s) @ [frame_positions m ?p h w],
      st := st s + length tx + 1 + ?g + 1, image_idx := image_idx s + 1, remain_images := remain_images s - 1\<rparr>"
  have branch: "mrope_image cfg m ml (length tx) ?p (opened p tx s) = Inr (?s2, 1)"
    using py_nth_drop_Cons [OF gs(2)] by (simp add: mrope_image_def gs(1) vision_grid_frame)
  have "mrope_step cfg m ml tokens s = Inr (?s2\<lparr>blocks := blocks ?s2 @ [linear_block (?p + extent m h w) 1]\<rparr>)"
    using mrope_step_eq [OF D(5) loc, of tx m] as first branch next_position_frame [of h m w] f
    by (simp flip: append_assoc)
  then show ?thesis by (simp add: moved_def)
qed

lemma mrope_step_video:
  assumes ready: "vllm_ready cfg m ml tokens tail s ((tx, MVideo h w) # segs) p"
  shows "\<exists>s'. mrope_step cfg m ml tokens s = Inr s' \<and> moved m cfg p tx (MVideo h w) s s'"
proof -
  have ids: "distinct (special_ids cfg)" and m: "0 < m"
    and at: "at_segments cfg m (ml_use_audio ml) tokens s ((tx, MVideo h w) # segs) tail p"
    using ready by (simp_all add: vllm_ready_def)
  obtain fac where fac: "next_video_grid cfg ml (video_idx s) = Inr ((1, h, w), fac)"
    using vllm_ready_video [OF ready] by auto
  note D = at_segmentsD [OF at] and f = frame_length [OF m at_segmentsD(3) [OF at], of h w]
  let ?a = "st s + length tx" and ?p = "p + int (length tx) + 1" and ?g = "grid_tokens m h w"
  obtain as where loc: "locate_media cfg (ml_use_audio ml) tokens s = Inr (?a, ?a + 1 + ?g, as)" and as: "?a + 1 + ?g < as"
    using locate_vision [OF ids m at] by blast
  have first: "py_nth tokens (int ?a + 1) = Inr (video_token_id cfg)"
    using D(1) vision_first_token(2) [OF _ _ m D(3)] by blast
  let ?s2 = "opened p tx s\<lparr>blocks := blocks (opened p tx s) @ [frame_positions m ?p h w],
      st := st s + length tx + 1 + ?g + 1, video_idx := video_idx s + 1, remain_videos := remain_videos s - 1\<rparr>"
  have branch: "mrope_video cfg m ml (length tx) ?p (opened p tx s) = Inr (?s2, 1)"
    by (simp add: mrope_video_def fac vision_grid_frame)
  have "mrope_step cfg m ml tokens s = Inr (?s2\<lparr>blocks := blocks ?s2 @ [linear_block (?p + extent m h w) 1]\<rparr>)"
    using mrope_step_eq [OF D(5) loc, of tx m] as first branch next_position_frame [of h m w] f
      distinct_specials(7) [OF ids, THEN not_sym]
    by (simp flip: append_assoc)
  then show ?thesis by (simp add: moved_def)
qed

lemma measure_at_segments:
  assumes "distinct (special_ids cfg)" "0 < m"
    and "at_segments cfg m ua tokens s ((tx, MAV h w n) # segs) tail p"
  shows "measure_av_span cfg e tokens (st s + length tx) (st s + length tx + grid_tokens m h w + n + 3)
    (st s + length tx + 1) ((h * w) div m ^ 2) = Inr (grid_tokens m h w, n)"
proof -
  note D = at_segmentsD [OF assms(3)] and f = frame_length [OF assms(2) at_segmentsD(3) [OF assms(3)], of h w]
  have g: "(h * w) div m ^ 2 = int (grid_tokens m h w)" using f by (simp add: grid_tokens_def)
  obtain pre where "tokens = pre @ tx @ render_media cfg m (MAV h w n) @ render_segments cfg m segs tail"
    "st s = length pre" using D(1) by blast
  then show ?thesis
    using measure_av_span_ok [OF assms(1) f(3), where pre = "pre @ tx" and tokens = tokens and n = n
        and rest = "render_segments cfg m segs tail" and e = e] by (simp add: g)
qed

lemma mrope_step_av:
  assumes ready: "vllm_ready cfg m ml tokens tail s ((tx, MAV h w n) # segs) p"
  shows "\<exists>s'. mrope_step cfg m ml tokens s = Inr s' \<and> moved m cfg p tx (MAV h w n) s s'"
proof -
  have ids: "distinct (special_ids cfg)" and m: "0 < m"
    and at: "at_segments cfg m (ml_use_audio ml) tokens s ((tx, MAV h w n) # segs) tail p"
    using ready by (simp_all add: vllm_ready_def)
  obtain fac where fac: "next_video_grid cfg ml (video_idx s) = Inr ((1, h, w), fac)"
    using vllm_ready_video [OF ready] by auto
  note D = at_segmentsD [OF at] and f = frame_length [OF m at_segmentsD(3) [OF at], of h w]
  let ?a = "st s + length tx" and ?p = "p + int (length tx) + 1" and ?g = "grid_tokens m h w"
  let ?q = "?p + 1 + (if n > 0 then int n else extent m h w)"
  have loc: "locate_media cfg (ml_use_audio ml) tokens s = Inr (?a, ?a + ?g + n + 3, ?a + 1)"
    by (rule locate_av [OF ids m at])
  have first: "py_nth tokens (int ?a + 1) = Inr (audio_start_token_id cfg)"
    using D(1) vision_first_token(3) [OF _ _ m D(3)] by blast
  let ?bs = "blocks (opened p tx s) @ [linear_block ?p 1, frame_positions m (?p + 1) h w] @
    (if n > 0 then [linear_block (?p + 1) n] else [])"
  let ?s2 = "opened p tx s\<lparr>blocks := ?bs, st := st s + length tx + 1 + 1 + n + ?g + 2,
      video_idx := video_idx s + 1,
      audio_idx := (if video_idx s + 1 \<in> set (ml_chunk_ends ml) then audio_idx s + 1 else audio_idx s),
      remain_videos := remain_videos s - 1\<rparr>"
  have branch: "mrope_av cfg m ml tokens ?a (?a + ?g + n + 3) (?a + 1) (length tx) ?p (opened p tx s) = Inr (?s2, 2)"
    by (simp only: mrope_av_def opened_sel fac rbind_Inr prod.case vision_grid_frame fst_conv Let_def
        measure_at_segments [OF ids m at]) (cases "n = 0"; simp add: append_1d_def)
  have np: "next_position np_error ?bs = Inr ?q"
    using next_position_frame [of h m w np_error "blocks (opened p tx s) @ [linear_block ?p 1]" "?p + 1"]
      next_position_linear [of n np_error "blocks (opened p tx s) @ [linear_block ?p 1, frame_positions m (?p + 1) h w]"] f
    by simp
  have "mrope_step cfg m ml tokens s = Inr (?s2\<lparr>blocks := ?bs @ [linear_block ?q 2]\<rparr>)"
    using mrope_step_eq [OF D(5) loc, of tx m] first branch np distinct_specials(8) [OF ids, THEN not_sym]
    by simp
  then show ?thesis by (simp add: moved_def add.commute [of 2])
qed

lemma mrope_step_moves:
  assumes "vllm_ready cfg m ml tokens tail s ((tx, M) # segs) p"
  shows "\<exists>s'. mrope_step cfg m ml tokens s = Inr s' \<and> moved m cfg p tx M s s'"
proof (cases M)
  case (MImage h w)
  show ?thesis using assms unfolding MImage by (rule mrope_step_image)
next
  case (MAudio n)
  show ?thesis using assms unfolding MAudio by (rule mrope_step_audio)
next
  case (MVideo h w)
  show ?thesis using assms unfolding MVideo by (rule mrope_step_video)
next
  case (MAV h w n)
  show ?thesis using assms unfolding MAV by (rule mrope_step_av)
qed

lemma drop_next: "drop i gs = xs @ ys \<Longrightarrow> drop (i + length xs) gs = ys"
  by (metis add.commute append_eq_conv_conj drop_drop)

lemma moved_vllm_ready:
  assumes "vllm_ready cfg m ml tokens tail s ((tx, M) # segs) p" and "moved m cfg p tx M s s'"
  shows "vllm_ready cfg m ml tokens tail s' segs (media_next m (p + int (length tx)) M)"
proof -
  have "at_segments cfg m (ml_use_audio ml) tokens s' segs tail (media_next m (p + int (length tx)) M)"
    by (rule moved_at_segments [OF _ assms(2)]) (use assms(1) in \<open>simp add: vllm_ready_def\<close>)
  moreover have "\<exists>gs. ml_images ml = Some gs \<and> drop (image_idx s') gs = seg_images segs" if "seg_images segs \<noteq> []"
    using assms that drop_next [of "image_idx s" _ "image_grid M"] by (auto simp: vllm_ready_def moved_def)
  moreover have "\<exists>gs ss. ml_videos ml = Some gs \<and> ml_seconds ml = Some ss \<and> length ss = length gs \<and>
      drop (video_idx s') gs = seg_videos segs" if "seg_videos segs \<noteq> []"
    using assms that drop_next [of "video_idx s" _ "video_grid M"] by (auto simp: vllm_ready_def moved_def)
  ultimately show ?thesis using assms(1) by (simp add: vllm_ready_def)
qed

lemma moved_positions:
  "moved m cfg p tx M s s' \<Longrightarrow> concat (blocks s') =
     concat (blocks s) @ linear_block p (length tx) @ media_positions m (p + int (length tx)) M"
  by (simp add: moved_def concat_media_blocks)

interpretation vllm: rope_engine "mrope_step cfg m ml tokens" "vllm_ready cfg m ml tokens tail" m
  for cfg :: "'z TLiveOmniTokenIds_scheme" and ml tokens tail m
proof
  fix s tx M segs p
  assume ready: "vllm_ready cfg m ml tokens tail s ((tx, M) # segs) p"
  then obtain s' where "mrope_step cfg m ml tokens s = Inr s'" "moved m cfg p tx M s s'"
    using mrope_step_moves by blast
  with moved_vllm_ready [OF ready this(2)] moved_positions [OF this(2)]
  show "\<exists>s'. mrope_step cfg m ml tokens s = Inr s' \<and>
      vllm_ready cfg m ml tokens tail s' segs (media_next m (p + int (length tx)) M) \<and>
      concat (blocks s') = concat (blocks s) @ linear_block p (length tx) @ media_positions m (p + int (length tx)) M"
    by blast
qed

section \<open>Counting the spans of a prompt\<close>

fun tokens_before :: "int \<Rightarrow> int \<Rightarrow> int list \<Rightarrow> int list" where
  "tokens_before ve prev [] = []"
| "tokens_before ve prev (x # xs) = (if x = ve then [prev] else []) @ tokens_before ve x xs"

lemma tokens_before_indices:
  "map (\<lambda>i. if i = 0 then prev else xs ! (i - 1)) (filter (\<lambda>i. xs ! i = ve) [0..<length xs]) = tokens_before ve prev xs"
proof (induction xs arbitrary: prev)
  case (Cons x xs)
  have "[0..<length (x # xs)] = 0 # map Suc [0..<length xs]" by (simp add: upt_conv_Cons map_Suc_upt del: upt_Suc)
  then show ?case using Cons [of x] by (auto simp: filter_map comp_def nth_Cons' simp del: upt_Suc)
qed simp

lemma vision_tokens_before: "vision_tokens cfg tokens = tokens_before (vision_end_token_id cfg) (last tokens) tokens"
  using tokens_before_indices [of "last tokens" tokens] by (simp add: vision_tokens_def token_indices_def)

lemma tokens_before_append:
  "tokens_before ve p (xs @ ys) = tokens_before ve p xs @ tokens_before ve (last (p # xs)) ys"
  by (induction xs arbitrary: p) auto

lemma tokens_before_plain: "ve \<notin> set xs \<Longrightarrow> tokens_before ve p xs = []"
  by (induction xs arbitrary: p) auto

fun span_kind :: "'z TLiveOmniTokenIds_scheme \<Rightarrow> media \<Rightarrow> int list" where
  "span_kind cfg (MImage _ _) = [image_token_id cfg]"
| "span_kind cfg (MVideo _ _) = [video_token_id cfg]"
| "span_kind cfg (MAV _ _ _) = [audio_end_token_id cfg]"
| "span_kind cfg (MAudio _) = []"

lemma tokens_before_render:
  assumes ids: "distinct (special_ids cfg)" and "0 < m" "media_ok m M"
  shows "tokens_before (vision_end_token_id cfg) p (render_media cfg m M) = span_kind cfg M"
proof (cases M)
  case (MImage h w)
  with assms frame_length(3) [of m M h w] show ?thesis
    using distinct_specials [OF ids] by (simp add: tokens_before_append tokens_before_plain)
next
  case (MVideo h w)
  with assms frame_length(3) [of m M h w] show ?thesis
    using distinct_specials [OF ids] by (simp add: tokens_before_append tokens_before_plain)
qed (use distinct_specials [OF ids] in \<open>simp_all add: tokens_before_append tokens_before_plain\<close>)

lemma tokens_before_plain_text [simp]:
  "plain_text cfg tx \<Longrightarrow> tokens_before (vision_end_token_id cfg) p tx = []"
  by (simp add: plain_not_special tokens_before_plain)

lemma tokens_before_segments:
  assumes ids: "distinct (special_ids cfg)" and m: "0 < m" and "segments_ok cfg m ua segs" "plain_text cfg tail"
  shows "tokens_before (vision_end_token_id cfg) p (render_segments cfg m segs tail) =
    concat (map (span_kind cfg \<circ> snd) segs)"
  using assms(3)
proof (induction segs arbitrary: p)
  case Nil
  then show ?case using plain_not_special [OF assms(4)] by (simp add: render_segments_def tokens_before_plain)
next
  case (Cons seg segs)
  obtain tx M where "seg = (tx, M)" by (cases seg)
  with Cons tokens_before_render [OF ids m] show ?case
    by (simp add: render_Cons segments_ok_def tokens_before_append)
qed

lemma count_audio_start:
  assumes ids: "distinct (special_ids cfg)" and "segments_ok cfg m ua segs" "plain_text cfg tail"
  shows "count_list (render_segments cfg m segs tail) (audio_start_token_id cfg) =
    length (seg_audios segs) + length (filter (is_av \<circ> snd) segs)"
  using assms(2)
proof (induction segs)
  case Nil
  then show ?case
    using plain_not_special [OF assms(3)] by (simp add: render_segments_def count_list_0_iff)
next
  case (Cons seg segs)
  obtain tx M where seg: "seg = (tx, M)" by (cases seg)
  with Cons.prems have "plain_text cfg tx" by (simp add: segments_ok_def)
  then have "count_list tx (audio_start_token_id cfg) = 0"
    by (simp add: plain_not_special count_list_0_iff)
  moreover have "segments_ok cfg m ua segs" using Cons.prems by (simp add: segments_ok_def)
  ultimately show ?case using Cons.IH seg distinct_specials [OF ids]
    by (cases M) (simp_all add: render_Cons count_list_replicate)
qed

lemma count_span_kinds:
  assumes "distinct (special_ids cfg)"
  shows "count_list (concat (map (span_kind cfg \<circ> snd) segs)) (image_token_id cfg) = length (seg_images segs)"
    and "count_list (concat (map (span_kind cfg \<circ> snd) segs)) (audio_end_token_id cfg) = length (filter (is_av \<circ> snd) segs)"
    and "count_list (concat (map (span_kind cfg \<circ> snd) segs)) (video_token_id cfg) = length (filter (is_silent \<circ> snd) segs)"
proof (induction segs)
  case (Cons seg segs)
  obtain tx M where seg: "seg = (tx, M)" by (cases seg)
  note ne = distinct_specials [OF assms] distinct_specials [OF assms, THEN not_sym]
  { case 1 show ?case using seg ne Cons by (cases M) simp_all }
  { case 2 show ?case using seg ne Cons by (cases M) simp_all }
  { case 3 show ?case using seg ne Cons by (cases M) simp_all }
qed simp_all

text \<open>Videos with and without sound are not mixed in one prompt.\<close>

definition unmixed :: "segments \<Rightarrow> bool" where
  "unmixed segs \<longleftrightarrow> list_all (\<lambda>(_, M). \<not> is_av M) segs \<or> list_all (\<lambda>(_, M). \<not> is_silent M) segs"

lemma length_seg_videos:
  "length (seg_videos segs) = length (filter (is_av \<circ> snd) segs) + length (filter (is_silent \<circ> snd) segs)"
proof (induction segs)
  case (Cons seg segs)
  obtain tx M where "seg = (tx, M)" by (cases seg)
  with Cons show ?case by (cases M) simp_all
qed simp

lemma length_segments:
  "length segs = length (seg_images segs) + length (seg_videos segs) + length (seg_audios segs)"
proof (induction segs)
  case (Cons seg segs)
  obtain tx M where "seg = (tx, M)" by (cases seg)
  with Cons show ?case by (cases M) simp_all
qed simp

lemma initial_at_segments:
  assumes ids: "distinct (special_ids cfg)" and m: "0 < m"
    and ok: "segments_ok cfg m ua segs" "plain_text cfg tail" "unmixed segs"
  defines "tokens \<equiv> render_segments cfg m segs tail"
  shows "at_segments cfg m ua tokens (initial_rope_state cfg ua tokens i v a) segs tail 0"
    and "multimodal_nums (initial_rope_state cfg ua tokens i v a) = length segs"
proof -
  let ?s = "initial_rope_state cfg ua tokens i v a"
  have vt: "vision_tokens cfg tokens = concat (map (span_kind cfg \<circ> snd) segs)"
    unfolding tokens_def vision_tokens_before by (rule tokens_before_segments [OF ids m ok(1,2)])
  have av: "filter (is_av \<circ> snd) segs \<noteq> [] \<Longrightarrow> filter (is_silent \<circ> snd) segs = []"
    using ok(3) by (auto simp: unmixed_def list_all_iff filter_empty_conv)
  have "\<not> ua \<Longrightarrow> filter (is_av \<circ> snd) segs = []"
    using ok(1) by (auto simp: segments_ok_def list_all_iff filter_empty_conv)
  with av have remain: "remain_images ?s = int (length (seg_images segs))"
      "remain_videos ?s = int (length (seg_videos segs))" "remain_audios ?s = int (length (seg_audios segs))"
    by (auto simp: initial_rope_state_def Let_def vt count_span_kinds [OF ids] length_seg_videos
        count_audio_start [OF ids ok(1,2), folded tokens_def])
  moreover have "st ?s = 0" "blocks ?s = []" by (simp_all add: initial_rope_state_def Let_def)
  ultimately show "at_segments cfg m ua tokens ?s segs tail 0"
    using ok by (simp add: at_segments_def positioned_def tokens_def)
  show "multimodal_nums ?s = length segs"
    using remain length_segments [of segs] by (simp add: multimodal_nums_def)
qed

section \<open>The whole prompt\<close>

lemma length_media_positions:
  assumes "0 < m" "media_ok m M"
  shows "length (media_positions m p M) = length (render_media cfg m M)"
  using assms grid_tokens_factors(1) [of m] by (cases M) (simp_all add: length_frame_positions)

lemma length_spec_positions:
  assumes "0 < m" "segments_ok cfg m ua segs"
  shows "length (spec_positions m p segs tail) = length (render_segments cfg m segs tail)"
  using assms(2)
proof (induction segs arbitrary: p)
  case (Cons seg segs)
  obtain tx M where "seg = (tx, M)" by (cases seg)
  with Cons length_media_positions [OF assms(1), where cfg = cfg] show ?case
    by (simp add: render_Cons segments_ok_def)
qed (simp add: render_segments_def)

text \<open>The last stage of both models: the text after the last span.\<close>

lemma trailing_text:
  assumes "at_segments cfg m ua tokens s [] tail q"
  shows "(if st s < length tokens
      then rbind (next_position e (blocks s)) (\<lambda>p. Inr (append_1d (blocks s) p (int (length tokens - st s))))
      else Inr (blocks s)) = Inr (blocks s @ text_block q tail)"
proof -
  obtain pre where "tokens = pre @ tail" "st s = length pre" and "positioned s q"
    using assms by (auto simp: at_segments_def render_segments_def)
  then show ?thesis by (cases "tail = []") (simp_all add: positioned_next, simp add: text_block_def)
qed

lemma collect_media_seconds:
  assumes "ml_videos (collect_media fs) = Some gs"
  shows "\<exists>ss. ml_seconds (collect_media fs) = Some ss \<and> length ss = length gs"
proof -
  have "length (repeat_interleave (zip (map f vs) (map (\<lambda>(t, _, _). nat t) (map fst vs)))) =
      length (split_grids (map fst vs))" for f :: "_ \<Rightarrow> rat" and vs :: "((int \<times> int \<times> int) \<times> rat option \<times> bool) list"
    by (induction vs) (auto simp: repeat_interleave_def split_grids_def)
  then show ?thesis using assms
    by (auto simp: collect_media_def Let_def nonempty_def simp del: map_map split: if_splits)
qed

text \<open>The features of a request supply the media of the spans, in the order of the spans.\<close>

definition features_match :: "segments \<Rightarrow> mm_feature list \<Rightarrow> bool" where
  "features_match segs fs \<longleftrightarrow>
     (let ml = collect_media fs in
      ml_images ml = nonempty (seg_images segs) \<and> ml_videos ml = nonempty (seg_videos segs) \<and>
      (seg_audios segs \<noteq> [] \<longrightarrow> ml_audios ml \<noteq> None))"

lemma vllm_ready_initial:
  assumes "distinct (special_ids cfg)" "0 < m" "segments_ok cfg m (ml_use_audio (collect_media fs)) segs"
    and "plain_text cfg tail" "unmixed segs" "features_match segs fs"
  defines "tokens \<equiv> render_segments cfg m segs tail"
  shows "vllm_ready cfg m (collect_media fs) tokens tail
    (initial_rope_state cfg (ml_use_audio (collect_media fs)) tokens 0 0 0) segs 0"
  using assms(6) initial_at_segments(1) [OF assms(1-5), of 0 0 0] collect_media_seconds [of fs] assms(1,2)
  by (auto simp: vllm_ready_def features_match_def Let_def nonempty_def tokens_def initial_rope_state_def)

lemma get_mrope_input_positions_eq:
  assumes ids: "distinct (special_ids cfg)" and m: "0 < m"
    and ok: "segments_ok cfg m (ml_use_audio (collect_media fs)) segs" "plain_text cfg tail" "unmixed segs"
      "features_match segs fs" and vision: "seg_images segs \<noteq> [] \<or> seg_videos segs \<noteq> []"
  defines "tokens \<equiv> render_segments cfg m segs tail"
  shows "\<exists>n. block_max (spec_positions m 0 segs tail) = Some n \<and>
    get_mrope_input_positions cfg m tokens fs =
      Inr (spec_positions m 0 segs tail, n + 1 - int (length tokens))"
proof -
  define ml where "ml = collect_media fs"
  let ?s0 = "initial_rope_state cfg (ml_use_audio ml) tokens 0 0 0" and ?spec = "spec_positions m 0 segs tail"
  obtain s q where loop: "iterate_res (length segs) (mrope_step cfg m ml tokens) ?s0 = Inr s"
    and ready: "vllm_ready cfg m ml tokens tail s [] q"
    and pos: "concat (blocks s) @ linear_block q (length tail) = concat (blocks ?s0) @ ?spec"
    using vllm.loop [OF vllm_ready_initial [OF ids m ok], of tail] unfolding ml_def tokens_def by blast
  have at: "at_segments cfg m (ml_use_audio ml) tokens s [] tail q" using ready by (simp add: vllm_ready_def)
  have spec: "concat (blocks s @ text_block q tail) = ?spec"
    using pos by (simp add: initial_rope_state_def Let_def)
  have len: "length ?spec = length tokens" unfolding tokens_def by (rule length_spec_positions [OF m ok(1)])
  have "tokens \<noteq> []" using render_vision_tokens [OF vision, of cfg m tail] by (auto simp: tokens_def)
  with len have ne: "?spec \<noteq> []" by auto
  then obtain n where n: "block_max ?spec = Some n" by (simp add: block_max_Max)
  have "\<not> (ml_images ml = None \<and> ml_videos ml = None)"
    using ok(4) vision by (auto simp: features_match_def ml_def Let_def nonempty_def)
  moreover have "multimodal_nums ?s0 = length segs"
    unfolding tokens_def ml_def by (rule initial_at_segments(2) [OF ids m ok(1-3)])
  moreover have "blocks s @ text_block q tail \<noteq> []" using ne spec by (metis concat.simps(1))
  ultimately have "get_mrope_input_positions cfg m tokens fs = Inr (?spec, n + 1 - int (length tokens))"
    unfolding get_mrope_input_positions_def Let_def ml_def [symmetric]
    by (simp only: loop rbind_Inr trailing_text [OF at] spec len n if_False require_True of_option_Some
        simp_thms not_False_eq_True)
  with n show ?thesis by blast
qed

section \<open>The rounds of the Hugging Face model\<close>

text \<open>The contract of the transformers helper: the positions of a grid.\<close>

definition grid_contract :: "vision_pos_ids \<Rightarrow> bool" where
  "grid_contract vp \<longleftrightarrow> (\<forall>p ts h w. vp p ts h w = grid_block p ts h w)"

lemma hf_t_index_1 [simp]: "hf_t_index 1 sec per = [0]" "hf_t_index (Suc 0) sec per = [0]"
proof -
  have "trunc (f32 eps_f32) = 0" by code_simp
  then show "hf_t_index 1 sec per = [0]" "hf_t_index (Suc 0) sec per = [0]" by (simp_all add: hf_t_index_def)
qed

text \<open>
  The standalone audios have the number of tokens that their lengths give; an interleaved
  video uses up one entry of the lengths when its last grid is done.
\<close>

fun hf_audios_ok :: "nat list \<Rightarrow> int list \<Rightarrow> nat \<Rightarrow> nat \<Rightarrow> media list \<Rightarrow> bool" where
  "hf_audios_ok ends lens vi ai [] = True"
| "hf_audios_ok ends lens vi ai (MAudio n # Ms) =
     (ai < length lens \<and> nat (get_feat_extract_output_lengths (lens ! ai)) = n \<and>
      hf_audios_ok ends lens vi (ai + 1) Ms)"
| "hf_audios_ok ends lens vi ai (MImage h w # Ms) = hf_audios_ok ends lens vi ai Ms"
| "hf_audios_ok ends lens vi ai (MVideo h w # Ms) = hf_audios_ok ends lens (vi + 1) ai Ms"
| "hf_audios_ok ends lens vi ai (MAV h w n # Ms) =
     hf_audios_ok ends lens (vi + 1) (if vi + 1 \<in> set ends then ai + 1 else ai) Ms"

definition hf_ready ::
    "'z TLiveOmniTokenIds_scheme \<Rightarrow> vision_pos_ids \<Rightarrow> int \<Rightarrow> rope_inputs \<Rightarrow> int list \<Rightarrow> int list \<Rightarrow> rope_state \<Rightarrow>
     segments \<Rightarrow> int \<Rightarrow> bool" where
  "hf_ready cfg vp m ri tokens tail s segs p \<longleftrightarrow>
     distinct (special_ids cfg) \<and> 0 < m \<and> grid_contract vp \<and>
     at_segments cfg m (ri_use_audio ri) tokens s segs tail p \<and>
     (seg_images segs \<noteq> [] \<longrightarrow> (\<exists>gs. ri_images ri = Some gs \<and> drop (image_idx s) gs = seg_images segs)) \<and>
     (seg_videos segs \<noteq> [] \<longrightarrow> (\<exists>gs. ri_videos ri = Some gs \<and> length (ri_seconds ri) = length gs \<and>
        drop (video_idx s) gs = seg_videos segs)) \<and>
     (seg_audios segs \<noteq> [] \<longrightarrow> (\<exists>lens. ri_audio_seqlens ri = Some lens \<and>
        hf_audios_ok (ri_chunk_ends ri) lens (video_idx s) (audio_idx s) (map snd segs)))"

lemma hf_ready_video:
  assumes "hf_ready cfg vp m ri tokens tail s ((tx, M) # segs) p" and "video_grid M = [(1, h, w)]"
  shows "\<exists>f. hf_video_grid ri (video_idx s) = Inr ((1, h, w), f)"
proof -
  from assms obtain gs where gs: "ri_videos ri = Some gs" "length (ri_seconds ri) = length gs"
    "drop (video_idx s) gs = (1, h, w) # seg_videos segs" unfolding hf_ready_def by auto
  with py_nth_drop_Cons [OF gs(3)] show ?thesis
    by (auto simp: hf_video_grid_def py_nth_of_nat split: if_splits)
qed

abbreviation torch_error :: pyerr where
  "torch_error \<equiv> RuntimeError ''max(): Expected reduction dim to be specified''"

lemma text_block_if: "(if length tx \<noteq> 0 then bs @ [linear_block p (length tx)] else bs) = bs @ text_block p tx"
  by (simp add: text_block_def)

lemma hf_rope_step_eq:
  assumes "positioned s p" "locate_media cfg (ri_use_audio ri) tokens s = Inr (vs, ve, as)"
    and "min vs as = st s + length tx"
  shows "hf_rope_step cfg vp m ri tokens s =
    rbind (if st s + length tx = as then hf_audio ri (length tx) (p + int (length tx) + 1) (opened p tx s)
           else rbind (py_nth tokens (int vs + 1)) (\<lambda>first.
             if first = image_token_id cfg then hf_image cfg vp m ri (length tx) (p + int (length tx) + 1) (opened p tx s)
             else if ve < as then hf_video cfg m ri (length tx) (p + int (length tx) + 1) (opened p tx s)
             else if ve > as then hf_av cfg m ri tokens vs ve as (length tx) (p + int (length tx) + 1) (opened p tx s)
             else Inr (opened p tx s, 1))) (\<lambda>(s2, eos_len).
      rbind (next_position torch_error (blocks s2)) (\<lambda>q. Inr (s2\<lparr>blocks := blocks s2 @ [linear_block q (nat eos_len)]\<rparr>)))"
  by (simp only: hf_rope_step_def positioned_next [OF assms(1)] assms(2,3) rbind_Inr prod.case Let_def
      diff_add_inverse text_block_if opened_def append_assoc)

lemma hf_step_audio:
  assumes ready: "hf_ready cfg vp m ri tokens tail s ((tx, MAudio n) # segs) p"
  shows "\<exists>s'. hf_rope_step cfg vp m ri tokens s = Inr s' \<and> moved m cfg p tx (MAudio n) s s' \<and>
    audio_idx s' = audio_idx s + 1"
proof -
  have ids: "distinct (special_ids cfg)" and at: "at_segments cfg m (ri_use_audio ri) tokens s ((tx, MAudio n) # segs) tail p"
    using ready by (simp_all add: hf_ready_def)
  obtain lens where lens: "ri_audio_seqlens ri = Some lens" "audio_idx s < length lens"
    "nat (get_feat_extract_output_lengths (lens ! audio_idx s)) = n"
    using ready by (auto simp: hf_ready_def)
  note D = at_segmentsD [OF at]
  let ?a = "st s + length tx"
  obtain vs ve where loc: "locate_media cfg (ri_use_audio ri) tokens s = Inr (vs, ve, ?a)" and vs: "?a < vs"
    using locate_audio [OF ids at] by blast
  have n: "0 < n" using D(3) by simp
  let ?s2 = "opened p tx s\<lparr>blocks := blocks (opened p tx s) @ [linear_block (p + int (length tx) + 1) n],
      st := st s + length tx + 1 + n + 1, audio_idx := audio_idx s + 1, remain_audios := remain_audios s - 1\<rparr>"
  have branch: "hf_audio ri (length tx) (p + int (length tx) + 1) (opened p tx s) = Inr (?s2, 1)"
    using lens by (simp add: hf_audio_def py_nth_of_nat)
  have "hf_rope_step cfg vp m ri tokens s = Inr (?s2\<lparr>blocks := blocks ?s2 @ [linear_block (p + int (length tx) + 1 + int n) 1]\<rparr>)"
    using hf_rope_step_eq [OF D(5) loc, of tx vp m] vs n branch next_position_linear [OF n]
    by (simp flip: append_assoc)
  then show ?thesis by (simp add: moved_def)
qed

lemma hf_step_image:
  assumes ready: "hf_ready cfg vp m ri tokens tail s ((tx, MImage h w) # segs) p"
  shows "\<exists>s'. hf_rope_step cfg vp m ri tokens s = Inr s' \<and> moved m cfg p tx (MImage h w) s s' \<and>
    audio_idx s' = audio_idx s"
proof -
  have ids: "distinct (special_ids cfg)" and m: "0 < m" and vp: "grid_contract vp"
    and at: "at_segments cfg m (ri_use_audio ri) tokens s ((tx, MImage h w) # segs) tail p"
    using ready by (simp_all add: hf_ready_def)
  obtain gs where gs: "ri_images ri = Some gs" "drop (image_idx s) gs = (1, h, w) # seg_images segs"
    using ready by (auto simp: hf_ready_def)
  note D = at_segmentsD [OF at] and f = frame_length [OF m at_segmentsD(3) [OF at], of h w]
  let ?a = "st s + length tx" and ?p = "p + int (length tx) + 1" and ?g = "grid_tokens m h w"
  obtain as where loc: "locate_media cfg (ri_use_audio ri) tokens s = Inr (?a, ?a + 1 + ?g, as)" and as: "?a + 1 + ?g < as"
    using locate_vision [OF ids m at] by blast
  have first: "py_nth tokens (int ?a + 1) = Inr (image_token_id cfg)"
    using D(1) vision_first_token(1) [OF _ _ m D(3)] by blast
  let ?s2 = "opened p tx s\<lparr>blocks := blocks (opened p tx s) @ [frame_positions m ?p h w],
      st := st s + length tx + 1 + ?g + 1, image_idx := image_idx s + 1, remain_images := remain_images s - 1\<rparr>"
  have branch: "hf_image cfg vp m ri (length tx) ?p (opened p tx s) = Inr (?s2, 1)"
    using py_nth_drop_Cons [OF gs(2)] vp
    by (simp add: hf_image_def gs(1) grid_contract_def frame_positions_def grid_tokens_def)
  have "hf_rope_step cfg vp m ri tokens s = Inr (?s2\<lparr>blocks := blocks ?s2 @ [linear_block (?p + extent m h w) 1]\<rparr>)"
    using hf_rope_step_eq [OF D(5) loc, of tx vp m] as first branch next_position_frame [of h m w] f
    by (simp flip: append_assoc)
  then show ?thesis by (simp add: moved_def)
qed

lemma hf_step_video:
  assumes ready: "hf_ready cfg vp m ri tokens tail s ((tx, MVideo h w) # segs) p"
  shows "\<exists>s'. hf_rope_step cfg vp m ri tokens s = Inr s' \<and> moved m cfg p tx (MVideo h w) s s' \<and>
    audio_idx s' = audio_idx s"
proof -
  have ids: "distinct (special_ids cfg)" and m: "0 < m"
    and at: "at_segments cfg m (ri_use_audio ri) tokens s ((tx, MVideo h w) # segs) tail p"
    using ready by (simp_all add: hf_ready_def)
  obtain sec where sec: "hf_video_grid ri (video_idx s) = Inr ((1, h, w), sec)"
    using hf_ready_video [OF ready] by auto
  note D = at_segmentsD [OF at] and f = frame_length [OF m at_segmentsD(3) [OF at], of h w]
  let ?a = "st s + length tx" and ?p = "p + int (length tx) + 1" and ?g = "grid_tokens m h w"
  obtain as where loc: "locate_media cfg (ri_use_audio ri) tokens s = Inr (?a, ?a + 1 + ?g, as)" and as: "?a + 1 + ?g < as"
    using locate_vision [OF ids m at] by blast
  have first: "py_nth tokens (int ?a + 1) = Inr (video_token_id cfg)"
    using D(1) vision_first_token(2) [OF _ _ m D(3)] by blast
  let ?s2 = "opened p tx s\<lparr>blocks := blocks (opened p tx s) @ [frame_positions m ?p h w],
      st := st s + length tx + 1 + ?g + 1, video_idx := video_idx s + 1, remain_videos := remain_videos s - 1\<rparr>"
  have branch: "hf_video cfg m ri (length tx) ?p (opened p tx s) = Inr (?s2, 1)"
    by (simp add: hf_video_def sec frame_positions_def grid_tokens_def)
  have "hf_rope_step cfg vp m ri tokens s = Inr (?s2\<lparr>blocks := blocks ?s2 @ [linear_block (?p + extent m h w) 1]\<rparr>)"
    using hf_rope_step_eq [OF D(5) loc, of tx vp m] as first branch next_position_frame [of h m w] f
      distinct_specials(7) [OF ids, THEN not_sym]
    by (simp flip: append_assoc)
  then show ?thesis by (simp add: moved_def)
qed

lemma hf_step_av:
  assumes ready: "hf_ready cfg vp m ri tokens tail s ((tx, MAV h w n) # segs) p"
  shows "\<exists>s'. hf_rope_step cfg vp m ri tokens s = Inr s' \<and> moved m cfg p tx (MAV h w n) s s' \<and>
    audio_idx s' = (if video_idx s + 1 \<in> set (ri_chunk_ends ri) then audio_idx s + 1 else audio_idx s)"
proof -
  have ids: "distinct (special_ids cfg)" and m: "0 < m"
    and at: "at_segments cfg m (ri_use_audio ri) tokens s ((tx, MAV h w n) # segs) tail p"
    using ready by (simp_all add: hf_ready_def)
  obtain sec where sec: "hf_video_grid ri (video_idx s) = Inr ((1, h, w), sec)"
    using hf_ready_video [OF ready] by auto
  note D = at_segmentsD [OF at] and f = frame_length [OF m at_segmentsD(3) [OF at], of h w]
  let ?a = "st s + length tx" and ?p = "p + int (length tx) + 1" and ?g = "grid_tokens m h w"
  let ?q = "?p + 1 + (if n > 0 then int n else extent m h w)"
  have loc: "locate_media cfg (ri_use_audio ri) tokens s = Inr (?a, ?a + ?g + n + 3, ?a + 1)"
    by (rule locate_av [OF ids m at])
  have first: "py_nth tokens (int ?a + 1) = Inr (audio_start_token_id cfg)"
    using D(1) vision_first_token(3) [OF _ _ m D(3)] by blast
  let ?bs = "blocks (opened p tx s) @ [linear_block ?p 1, frame_positions m (?p + 1) h w] @
    (if n > 0 then [linear_block (?p + 1) n] else [])"
  let ?s2 = "opened p tx s\<lparr>blocks := ?bs, st := st s + length tx + 1 + 1 + n + ?g + 2,
      video_idx := video_idx s + 1,
      audio_idx := (if video_idx s + 1 \<in> set (ri_chunk_ends ri) then audio_idx s + 1 else audio_idx s),
      remain_videos := remain_videos s - 1\<rparr>"
  have branch: "hf_av cfg m ri tokens ?a (?a + ?g + n + 3) (?a + 1) (length tx) ?p (opened p tx s) = Inr (?s2, 2)"
    by (simp only: hf_av_def opened_sel sec rbind_Inr prod.case Let_def measure_at_segments [OF ids m at] hf_t_index_1)
      (cases "n = 0"; simp add: frame_positions_def grid_tokens_def)
  have np: "next_position torch_error ?bs = Inr ?q"
    using next_position_frame [of h m w torch_error "blocks (opened p tx s) @ [linear_block ?p 1]" "?p + 1"]
      next_position_linear [of n torch_error "blocks (opened p tx s) @ [linear_block ?p 1, frame_positions m (?p + 1) h w]"] f
    by simp
  have "hf_rope_step cfg vp m ri tokens s = Inr (?s2\<lparr>blocks := ?bs @ [linear_block ?q 2]\<rparr>)"
    using hf_rope_step_eq [OF D(5) loc, of tx vp m] first branch np distinct_specials(8) [OF ids, THEN not_sym]
    by simp
  then show ?thesis by (simp add: moved_def add.commute [of 2])
qed

fun audio_after :: "nat list \<Rightarrow> nat \<Rightarrow> nat \<Rightarrow> media \<Rightarrow> nat" where
  "audio_after ends vi ai (MAudio n) = ai + 1"
| "audio_after ends vi ai (MAV h w n) = (if vi + 1 \<in> set ends then ai + 1 else ai)"
| "audio_after ends vi ai _ = ai"

lemma hf_step_moves:
  assumes "hf_ready cfg vp m ri tokens tail s ((tx, M) # segs) p"
  shows "\<exists>s'. hf_rope_step cfg vp m ri tokens s = Inr s' \<and> moved m cfg p tx M s s' \<and>
    audio_idx s' = audio_after (ri_chunk_ends ri) (video_idx s) (audio_idx s) M"
proof (cases M)
  case (MImage h w)
  show ?thesis using assms unfolding MImage audio_after.simps by (rule hf_step_image)
next
  case (MAudio n)
  show ?thesis using assms unfolding MAudio audio_after.simps by (rule hf_step_audio)
next
  case (MVideo h w)
  show ?thesis using assms unfolding MVideo audio_after.simps by (rule hf_step_video)
next
  case (MAV h w n)
  show ?thesis using assms unfolding MAV audio_after.simps by (rule hf_step_av)
qed

lemma moved_hf_ready:
  assumes ready: "hf_ready cfg vp m ri tokens tail s ((tx, M) # segs) p" and moved: "moved m cfg p tx M s s'"
    and audio: "audio_idx s' = audio_after (ri_chunk_ends ri) (video_idx s) (audio_idx s) M"
  shows "hf_ready cfg vp m ri tokens tail s' segs (media_next m (p + int (length tx)) M)"
proof -
  have "at_segments cfg m (ri_use_audio ri) tokens s' segs tail (media_next m (p + int (length tx)) M)"
    by (rule moved_at_segments [OF _ moved]) (use ready in \<open>simp add: hf_ready_def\<close>)
  moreover have "\<exists>gs. ri_images ri = Some gs \<and> drop (image_idx s') gs = seg_images segs" if "seg_images segs \<noteq> []"
    using ready moved that drop_next [of "image_idx s" _ "image_grid M"] by (auto simp: hf_ready_def moved_def)
  moreover have "\<exists>gs. ri_videos ri = Some gs \<and> length (ri_seconds ri) = length gs \<and>
      drop (video_idx s') gs = seg_videos segs" if "seg_videos segs \<noteq> []"
    using ready moved that drop_next [of "video_idx s" _ "video_grid M"] by (auto simp: hf_ready_def moved_def)
  moreover have "\<exists>lens. ri_audio_seqlens ri = Some lens \<and>
      hf_audios_ok (ri_chunk_ends ri) lens (video_idx s') (audio_idx s') (map snd segs)" if "seg_audios segs \<noteq> []"
  proof -
    from ready that obtain lens where "ri_audio_seqlens ri = Some lens"
      "hf_audios_ok (ri_chunk_ends ri) lens (video_idx s) (audio_idx s) (M # map snd segs)"
      by (auto simp: hf_ready_def)
    with moved audio show ?thesis by (cases M) (auto simp: moved_def split: if_splits)
  qed
  ultimately show ?thesis using ready by (simp add: hf_ready_def)
qed

interpretation hf: rope_engine "hf_rope_step cfg vp m ri tokens" "hf_ready cfg vp m ri tokens tail" m
  for cfg :: "'z TLiveOmniTokenIds_scheme" and vp ri tokens tail m
proof
  fix s tx M segs p
  assume ready: "hf_ready cfg vp m ri tokens tail s ((tx, M) # segs) p"
  then obtain s' where "hf_rope_step cfg vp m ri tokens s = Inr s'" "moved m cfg p tx M s s'"
    "audio_idx s' = audio_after (ri_chunk_ends ri) (video_idx s) (audio_idx s) M"
    using hf_step_moves by blast
  with moved_hf_ready [OF ready this(2,3)] moved_positions [OF this(2)]
  show "\<exists>s'. hf_rope_step cfg vp m ri tokens s = Inr s' \<and>
      hf_ready cfg vp m ri tokens tail s' segs (media_next m (p + int (length tx)) M) \<and>
      concat (blocks s') = concat (blocks s) @ linear_block p (length tx) @ media_positions m (p + int (length tx)) M"
    by blast
qed

lemma hf_trailing_text:
  assumes "at_segments cfg m ua tokens s [] tail q"
  shows "(if st s < length tokens
      then rbind (next_position e (blocks s)) (\<lambda>p. Inr (blocks s @ [linear_block p (length tokens - st s)]))
      else Inr (blocks s)) = Inr (blocks s @ text_block q tail)"
proof -
  obtain pre where "tokens = pre @ tail" "st s = length pre" and "positioned s q"
    using assms by (auto simp: at_segments_def render_segments_def)
  then show ?thesis by (cases "tail = []") (simp_all add: positioned_next text_block_def)
qed

text \<open>The inputs of a single-row batch supply the media of the spans.\<close>

definition inputs_match :: "segments \<Rightarrow> rope_inputs \<Rightarrow> bool" where
  "inputs_match segs ri \<longleftrightarrow>
     (seg_images segs \<noteq> [] \<longrightarrow> ri_images ri = Some (seg_images segs)) \<and>
     (seg_videos segs \<noteq> [] \<longrightarrow> ri_videos ri = Some (seg_videos segs) \<and>
        length (ri_seconds ri) = length (seg_videos segs)) \<and>
     (seg_audios segs \<noteq> [] \<longrightarrow> (\<exists>lens. ri_audio_seqlens ri = Some lens \<and>
        hf_audios_ok (ri_chunk_ends ri) lens 0 0 (map snd segs)))"

lemma hf_rope_row_eq:
  assumes ids: "distinct (special_ids cfg)" and m: "0 < m" and vp: "grid_contract vp"
    and ok: "segments_ok cfg m (ri_use_audio ri) segs" "plain_text cfg tail" "unmixed segs" "inputs_match segs ri"
    and ne: "segs \<noteq> []"
  defines "tokens \<equiv> render_segments cfg m segs tail"
  shows "\<exists>n idxs. block_max (spec_positions m 0 segs tail) = Some n \<and>
    hf_rope_row cfg vp m ri tokens (0, 0, 0) =
      Inr ((spec_positions m 0 segs tail, n + 1 - int (length tokens)), idxs)"
proof -
  let ?s0 = "initial_rope_state cfg (ri_use_audio ri) tokens 0 0 0" and ?spec = "spec_positions m 0 segs tail"
  have "hf_ready cfg vp m ri tokens tail ?s0 segs 0"
    using ok(4) vp initial_at_segments(1) [OF ids m ok(1-3), of 0 0 0] ids m
    by (auto simp: hf_ready_def inputs_match_def tokens_def initial_rope_state_def Let_def)
  from hf.loop [OF this, of tail] obtain s q where
    loop: "iterate_res (length segs) (hf_rope_step cfg vp m ri tokens) ?s0 = Inr s"
    and ready: "hf_ready cfg vp m ri tokens tail s [] q"
    and pos: "concat (blocks s) @ linear_block q (length tail) = concat (blocks ?s0) @ ?spec" by blast
  have at: "at_segments cfg m (ri_use_audio ri) tokens s [] tail q" using ready by (simp add: hf_ready_def)
  have spec: "concat (blocks s @ text_block q tail) = ?spec"
    using pos by (simp add: initial_rope_state_def Let_def)
  have len: "length ?spec = length tokens" unfolding tokens_def by (rule length_spec_positions [OF m ok(1)])
  have "tokens \<noteq> []" using ne by (cases segs; cases "snd (hd segs)") (auto simp: tokens_def render_Cons)
  with len have "?spec \<noteq> []" by auto
  then obtain n where n: "block_max ?spec = Some n" by (simp add: block_max_Max)
  moreover have "multimodal_nums ?s0 = length segs"
    unfolding tokens_def by (rule initial_at_segments(2) [OF ids m ok(1-3)])
  then have "hf_rope_row cfg vp m ri tokens (0, 0, 0) =
      Inr ((?spec, n + 1 - int (length tokens)), image_idx s, video_idx s, audio_idx s)"
    unfolding hf_rope_row_def prod.case Let_def
    by (simp only: loop rbind_Inr hf_trailing_text [OF at] spec len n require_True of_option_Some simp_thms)
  ultimately show ?thesis by blast
qed

section \<open>Properties\<close>

text \<open>
  C21: For a prompt of text and well formed media spans whose media the request supplies in
  order, \<open>get_mrope_input_positions\<close> succeeds and returns the reference positions, one per
  token, with the offset that continues the numbering after the largest of them.
\<close>

theorem mrope_positions_correct:
  assumes "distinct (special_ids cfg)" "0 < m"
    and "segments_ok cfg m (ml_use_audio (collect_media fs)) segs" "plain_text cfg tail" "unmixed segs"
    and "features_match segs fs" "seg_images segs \<noteq> [] \<or> seg_videos segs \<noteq> []"
  shows "\<exists>n. block_max (spec_positions m 0 segs tail) = Some n \<and>
    length (spec_positions m 0 segs tail) = length (render_segments cfg m segs tail) \<and>
    get_mrope_input_positions cfg m (render_segments cfg m segs tail) fs =
      Inr (spec_positions m 0 segs tail, n + 1 - int (length (render_segments cfg m segs tail)))"
  using get_mrope_input_positions_eq [OF assms] length_spec_positions [OF assms(2,3)] by blast

definition demo_segs :: segments where
  "demo_segs = [([1, 2], MImage 4 4), ([3], MAV 4 4 3), ([], MAudio 2)]"

definition demo_features :: "mm_feature list" where
  "demo_features = [(10, VideoFeature (1, 4, 4) (Some 2) True), (2, ImageFeature (1, 4, 4)), (30, AudioFeature 10),
     (10, AudioFeature 20)]"

theorem mrope_positions_correct_witness:
  "\<exists>n. block_max (spec_positions 2 0 demo_segs [7]) = Some n \<and>
    get_mrope_input_positions default_token_ids 2 (render_segments default_token_ids 2 demo_segs [7]) demo_features =
      Inr (spec_positions 2 0 demo_segs [7], n + 1 - 25)"
proof -
  have "segments_ok default_token_ids 2 (ml_use_audio (collect_media demo_features)) demo_segs"
    "plain_text default_token_ids [7]" "unmixed demo_segs" "features_match demo_segs demo_features"
    "seg_images demo_segs \<noteq> [] \<or> seg_videos demo_segs \<noteq> []"
    "length (render_segments default_token_ids 2 demo_segs [7]) = 25"
    by code_simp+
  with mrope_positions_correct [OF default_special_ids_distinct, of 2 demo_features demo_segs "[7]"]
  show ?thesis by auto
qed

text \<open>
  C22: The Hugging Face model and the vLLM model give such a prompt the same positions and the
  same offset, when both are given the media of its spans.
\<close>

theorem hf_vllm_positions_agree:
  assumes "distinct (special_ids cfg)" "0 < m" "grid_contract vp"
    and "segments_ok cfg m (ri_use_audio ri) segs" "plain_text cfg tail" "unmixed segs"
    and "inputs_match segs ri" "features_match segs fs" "ri_use_audio ri = ml_use_audio (collect_media fs)"
    and "seg_images segs \<noteq> [] \<or> seg_videos segs \<noteq> []"
  shows "\<exists>positions delta idxs.
    hf_rope_row cfg vp m ri (render_segments cfg m segs tail) (0, 0, 0) = Inr ((positions, delta), idxs) \<and>
    get_mrope_input_positions cfg m (render_segments cfg m segs tail) fs = Inr (positions, delta)"
proof -
  have "segs \<noteq> []" using assms(10) by auto
  from hf_rope_row_eq [OF assms(1-7) this] get_mrope_input_positions_eq [of cfg m fs segs tail] assms
  show ?thesis by fastforce
qed

definition demo_inputs :: rope_inputs where
  "demo_inputs = split_rope_inputs (Some [(1, 4, 4)]) (Some [(1, 4, 4)]) (Some [2]) (Some [20, 10]) True"

theorem hf_vllm_positions_agree_witness:
  "\<exists>positions delta idxs.
    hf_rope_row default_token_ids grid_block 2 demo_inputs (render_segments default_token_ids 2 demo_segs [7]) (0, 0, 0) =
      Inr ((positions, delta), idxs) \<and>
    get_mrope_input_positions default_token_ids 2 (render_segments default_token_ids 2 demo_segs [7]) demo_features =
      Inr (positions, delta)"
proof (rule hf_vllm_positions_agree)
  show "inputs_match demo_segs demo_inputs"
  proof -
    have "ri_images demo_inputs = Some (seg_images demo_segs)" "ri_videos demo_inputs = Some (seg_videos demo_segs)"
      "length (ri_seconds demo_inputs) = length (seg_videos demo_segs)" "ri_audio_seqlens demo_inputs = Some [20, 10]"
      "hf_audios_ok (ri_chunk_ends demo_inputs) [20, 10] 0 0 (map snd demo_segs)" by code_simp+
    then show ?thesis by (simp add: inputs_match_def)
  qed
qed (rule default_special_ids_distinct | simp add: grid_contract_def | code_simp)+

text \<open>The coordinates of a span lie between its start and the position after it.\<close>

definition trough :: "pos \<Rightarrow> int" where
  "trough q = (case q of (t, h, w) \<Rightarrow> min t (min h w))"

text \<open>The audio of an interleaved grid is absent or at least as long as the grid is wide and high.\<close>

fun covers_grid :: "int \<Rightarrow> media \<Rightarrow> bool" where
  "covers_grid m (MAV h w n) = (n = 0 \<or> extent m h w \<le> int n)"
| "covers_grid m _ = True"

lemma linear_block_range: "q \<in> set (linear_block p n) \<Longrightarrow> p \<le> trough q \<and> peak q < p + int n"
  by (auto simp: linear_block_def trough_def peak_def)

lemma frame_range: "q \<in> set (frame_positions m p h w) \<Longrightarrow> p \<le> trough q \<and> peak q < p + max 1 (extent m h w)"
  by (auto simp: set_frame_positions trough_def peak_def extent_def)

lemma media_range:
  assumes "0 < m" "media_ok m M" "covers_grid m M" "q \<in> set (media_positions m p M)"
  shows "p \<le> trough q \<and> peak q < media_next m p M"
proof (cases M)
  case (MAV h w n)
  have e: "0 < extent m h w" using frame_length [of m M h w n] assms MAV by (auto simp: extent_def)
  from MAV assms(4) consider "q \<in> set (linear_block p 2)" | "q \<in> set (frame_positions m (p + 2) h w)"
    | "q \<in> set (linear_block (p + 2) n)" | "q \<in> set (linear_block (p + 2 + (if n > 0 then int n else extent m h w)) 2)"
    by auto
  then show ?thesis
    by cases (use MAV assms(3) e in \<open>auto dest!: linear_block_range frame_range split: if_splits\<close>)
next
  case (MImage h w)
  have "0 < extent m h w" using frame_length [of m M h w] assms MImage by (auto simp: extent_def)
  with MImage assms(4) show ?thesis by (auto dest!: linear_block_range frame_range)
next
  case (MVideo h w)
  have "0 < extent m h w" using frame_length [of m M h w] assms MVideo by (auto simp: extent_def)
  with MVideo assms(4) show ?thesis by (auto dest!: linear_block_range frame_range)
qed (use assms(4) in \<open>auto dest!: linear_block_range\<close>)

lemma spec_positions_append:
  "\<exists>q. spec_positions m p (as @ bs) tail = spec_positions m p as [] @ spec_positions m q bs tail \<and>
     (0 < m \<longrightarrow> list_all (\<lambda>(_, M). media_ok m M \<and> covers_grid m M) as \<longrightarrow>
        p \<le> q \<and> (\<forall>x \<in> set (spec_positions m p as []). p \<le> trough x \<and> peak x < q))"
proof (induction as arbitrary: p)
  case Nil
  then show ?case by (auto intro!: exI [of _ p])
next
  case (Cons seg as)
  obtain tx M where seg: "seg = (tx, M)" by (cases seg)
  let ?p = "p + int (length tx)"
  from Cons.IH [of "media_next m ?p M"] obtain q where
    q: "spec_positions m (media_next m ?p M) (as @ bs) tail =
        spec_positions m (media_next m ?p M) as [] @ spec_positions m q bs tail"
    and range: "0 < m \<Longrightarrow> list_all (\<lambda>(_, M). media_ok m M \<and> covers_grid m M) as \<Longrightarrow>
        media_next m ?p M \<le> q \<and>
        (\<forall>x \<in> set (spec_positions m (media_next m ?p M) as []). media_next m ?p M \<le> trough x \<and> peak x < q)"
    by blast
  have "p \<le> q \<and> (\<forall>x \<in> set (spec_positions m p (seg # as) []). p \<le> trough x \<and> peak x < q)"
    if m: "0 < m" and ok: "list_all (\<lambda>(_, M). media_ok m M \<and> covers_grid m M) (seg # as)"
  proof -
    have r: "x \<in> set (media_positions m ?p M) \<Longrightarrow> ?p \<le> trough x \<and> peak x < media_next m ?p M" for x
      using media_range [OF m, of M x ?p] ok seg by auto
    have "media_positions m ?p M \<noteq> []" by (cases M) (auto simp: linear_block_def)
    then obtain x where "x \<in> set (media_positions m ?p M)" by (meson last_in_set)
    moreover have "trough x \<le> peak x" for x by (cases x) (simp add: trough_def peak_def)
    ultimately have "?p < media_next m ?p M" using r by (meson le_less_trans)
    with range [OF m] ok r seg show ?thesis by (fastforce dest!: linear_block_range)
  qed
  with q seg show ?case by (auto intro!: exI [of _ q])
qed

lemma spec_positions_above:
  assumes "0 < m" "list_all (\<lambda>(_, M). media_ok m M \<and> covers_grid m M) segs" "x \<in> set (spec_positions m p segs tail)"
  shows "p \<le> trough x"
proof -
  obtain q where "spec_positions m p (segs @ []) tail = spec_positions m p segs [] @ spec_positions m q [] tail"
    "p \<le> q" "\<forall>x \<in> set (spec_positions m p segs []). p \<le> trough x"
    using spec_positions_append [of m p segs "[]" tail] assms(1,2) by blast
  with assms(3) show ?thesis by (fastforce dest: linear_block_range)
qed

text \<open>
  C23: Numbering moves forward across spans. Where the prompt is cut between two spans, every
  coordinate of every position before the cut is smaller than every coordinate of every
  position after it, provided that the audio of each interleaved grid is absent or covers the
  height and width of the grid.
\<close>

theorem mrope_positions_monotone:
  assumes "distinct (special_ids cfg)" "0 < m"
    and "segments_ok cfg m (ml_use_audio (collect_media fs)) (as @ bs)" "plain_text cfg tail" "unmixed (as @ bs)"
    and "features_match (as @ bs) fs" "seg_images (as @ bs) \<noteq> [] \<or> seg_videos (as @ bs) \<noteq> []"
    and "list_all (\<lambda>(_, M). covers_grid m M) (as @ bs)"
    and run: "get_mrope_input_positions cfg m (render_segments cfg m (as @ bs) tail) fs = Inr (positions, delta)"
  defines "k \<equiv> length (render_segments cfg m as [])"
  shows "\<forall>i j. i < k \<longrightarrow> k \<le> j \<longrightarrow> j < length positions \<longrightarrow>
    peak (positions ! i) < trough (positions ! j)"
proof -
  have ok: "list_all (\<lambda>(_, M). media_ok m M \<and> covers_grid m M) as" "list_all (\<lambda>(_, M). media_ok m M \<and> covers_grid m M) bs"
    using assms(3,8) by (auto simp: segments_ok_def list_all_iff)
  obtain q where split: "spec_positions m 0 (as @ bs) tail = spec_positions m 0 as [] @ spec_positions m q bs tail"
    and low: "\<forall>x \<in> set (spec_positions m 0 as []). peak x < q"
    using spec_positions_append [of m 0 as bs tail] assms(2) ok(1) by blast
  have pos: "positions = spec_positions m 0 as [] @ spec_positions m q bs tail"
    using get_mrope_input_positions_eq [OF assms(1-7)] run split by auto
  have k: "length (spec_positions m 0 as []) = k"
    unfolding k_def using assms(3) by (intro length_spec_positions [OF assms(2), where ua = "ml_use_audio (collect_media fs)"])
      (simp add: segments_ok_def)
  show ?thesis
  proof (intro allI impI)
    fix i j assume ij: "i < k" "k \<le> j" "j < length positions"
    have "peak (positions ! i) < q" using low ij(1) k by (simp add: pos nth_append)
    moreover have "q \<le> trough (positions ! j)"
      using ij k by (intro spec_positions_above [OF assms(2) ok(2), of _ q tail]) (simp add: pos nth_append)
    ultimately show "peak (positions ! i) < trough (positions ! j)" by simp
  qed
qed

theorem mrope_positions_monotone_witness:
  "\<exists>positions delta.
    get_mrope_input_positions default_token_ids 2
      (render_segments default_token_ids 2 ([([1, 2], MImage 4 4)] @ [([3], MAV 4 4 3), ([], MAudio 2)]) [7]) demo_features =
      Inr (positions, delta) \<and> peak (positions ! 7) < trough (positions ! 8)"
proof -
  let ?as = "[([1, 2], MImage 4 4)]" and ?bs = "[([3], MAV 4 4 3), ([], MAudio 2)]"
  have ok: "segments_ok default_token_ids 2 (ml_use_audio (collect_media demo_features)) (?as @ ?bs)"
    "plain_text default_token_ids [7]" "unmixed (?as @ ?bs)" "features_match (?as @ ?bs) demo_features"
    "seg_images (?as @ ?bs) \<noteq> [] \<or> seg_videos (?as @ ?bs) \<noteq> []"
    "list_all (\<lambda>(_, M). covers_grid 2 M) (?as @ ?bs)"
    "length (render_segments default_token_ids 2 ?as []) = 8"
    "length (spec_positions 2 0 (?as @ ?bs) [7]) = 25"
    by code_simp+
  obtain n where run: "get_mrope_input_positions default_token_ids 2 (render_segments default_token_ids 2 (?as @ ?bs) [7])
      demo_features = Inr (spec_positions 2 0 (?as @ ?bs) [7], n)"
    using get_mrope_input_positions_eq [OF default_special_ids_distinct _ ok(1-5)] by auto
  from mrope_positions_monotone [OF default_special_ids_distinct zero_less_numeral ok(1-6) run]
  have "\<forall>i j. i < 8 \<longrightarrow> 8 \<le> j \<longrightarrow> j < 25 \<longrightarrow>
      peak (spec_positions 2 0 (?as @ ?bs) [7] ! i) < trough (spec_positions 2 0 (?as @ ?bs) [7] ! j)"
    by (simp only: ok(7,8))
  from this [THEN spec, THEN spec, of 7 8]
  have "peak (spec_positions 2 0 (?as @ ?bs) [7] ! 7) < trough (spec_positions 2 0 (?as @ ?bs) [7] ! 8)"
    by simp
  with run show ?thesis by blast
qed

text \<open>
  When the audio of an interleaved grid is present but shorter than the grid is high or
  wide, the numbering falls back: with a grid of four by four merged patches and one audio
  token, the text token after the span gets a position that the grid already uses.
\<close>

lemma short_audio_overlaps_grid:
  "\<exists>ps. get_mrope_input_positions default_token_ids 2
      (render_segments default_token_ids 2 [([], MAV 8 8 1)] [7])
      [(0, VideoFeature (1, 8, 8) (Some 2) True), (1, AudioFeature 1)] = Inr (ps, 6 - 22) \<and>
    last ps = (5, 5, 5) \<and> (2, 5, 5) \<in> set ps"
proof -
  let ?ps = "spec_positions 2 0 [([], MAV 8 8 1)] [7]"
  let ?segs = "[([], MAV 8 8 1)]" and ?fs = "[(0, VideoFeature (1, 8, 8) (Some 2) True), (1, AudioFeature 1)]"
  have ok: "segments_ok default_token_ids 2 (ml_use_audio (collect_media ?fs)) ?segs"
    "plain_text default_token_ids [7]" "unmixed ?segs" "features_match ?segs ?fs"
    "seg_images ?segs \<noteq> [] \<or> seg_videos ?segs \<noteq> []" by code_simp+
  moreover have "block_max ?ps = Some 5" "length (render_segments default_token_ids 2 ?segs [7]) = 22" by code_simp+
  ultimately have "get_mrope_input_positions default_token_ids 2 (render_segments default_token_ids 2 ?segs [7]) ?fs =
      Inr (?ps, 6 - 22)"
    using get_mrope_input_positions_eq [OF default_special_ids_distinct zero_less_numeral ok] by auto
  moreover have "last ?ps = (5, 5, 5)" "(2, 5, 5) \<in> set ?ps" by code_simp+
  ultimately show ?thesis by blast
qed

section \<open>Interleaved positions\<close>

lemma set_merge_positions: "set (merge_positions vs as) = set vs \<union> set as"
  by (induction vs as rule: merge_positions.induct) auto

lemma mset_merge_positions: "mset (merge_positions vs as) = mset vs + mset as"
  by (induction vs as rule: merge_positions.induct) auto

lemma sorted_merge_positions:
  "sorted (map fst vs) \<Longrightarrow> sorted (map fst as) \<Longrightarrow> sorted (map fst (merge_positions vs as))"
  by (induction vs as rule: merge_positions.induct) (auto simp: set_merge_positions)

lemma sorted_linear_block: "sorted (map fst (linear_block p n))"
  by (auto simp: linear_block_def sorted_iff_nth_mono)

lemma map_fst_grid_block: "map fst (grid_block p ts h w) = concat (map (\<lambda>t. replicate (h * w) (t + p)) ts)"
proof -
  have "map fst (concat (map (\<lambda>y. map (\<lambda>x. (t + p, int y + p, int x + p)) [0..<w]) [0..<h])) =
      replicate (h * w) (t + p)" for t
    by (induction h) (simp_all add: comp_def map_replicate_const replicate_add [symmetric] add.commute)
  then show ?thesis by (simp add: grid_block_def map_concat comp_def)
qed

lemma sorted_grid_block: "sorted ts \<Longrightarrow> sorted (map fst (grid_block p ts h w))"
  unfolding map_fst_grid_block by (induction ts) (auto simp: sorted_append)

text \<open>
  The interleaved positions of a video and its audio track are a merge of the two: every
  position of either occurs as often as in its own sequence, there are as many as announced,
  and the temporal coordinate never decreases.
\<close>

lemma interleaved_positions_merge:
  assumes "0 \<le> t_factor"
  shows "case compute_interleaved_positions start (t, h, w) t_factor n of (ps, num) \<Rightarrow>
    length ps = num \<and> sorted (map fst ps) \<and>
    (\<exists>ts. length ts = t \<and> sorted ts \<and> mset ps =
       mset (grid_block start ts h w) + mset (linear_block start (nat (get_feat_extract_output_lengths n))))"
proof -
  let ?ts = "map (\<lambda>i. trunc (f64 (of_nat i * t_factor))) [0..<t]"
  let ?v = "grid_block start ?ts h w" and ?a = "linear_block start (nat (get_feat_extract_output_lengths n))"
  have sorted: "sorted ?ts"
    using assms by (auto simp: sorted_iff_nth_mono intro!: trunc_mono fl_mono fl_nonneg mult_right_mono)
  have "length ?v = t * h * w"
    using arg_cong [OF map_fst_grid_block [of start ?ts h w], of length]
    by (simp add: length_concat comp_def sum_list_triv mult.assoc)
  then have "length (merge_positions ?v ?a) = t * h * w + length ?a"
    using arg_cong [OF mset_merge_positions [of ?v ?a], of size] by simp
  then show ?thesis
    using sorted sorted_merge_positions [OF sorted_grid_block [OF sorted] sorted_linear_block]
    by (auto simp: compute_interleaved_positions_def Let_def mset_merge_positions intro!: exI [of _ ?ts])
qed

lemma interleaved_positions_merge_witness:
  "\<exists>ts. length ts = 2 \<and> sorted ts \<and>
     mset (fst (compute_interleaved_positions 5 (2, 1, 1) 26 100)) =
       mset (grid_block 5 ts 1 1) + mset (linear_block 5 13)"
proof -
  have "nat (get_feat_extract_output_lengths 100) = 13" by code_simp
  with interleaved_positions_merge [of 26 2 5 1 1 100] show ?thesis by (auto split: prod.splits)
qed

end
