(* ===== verification/Request_Model.thy ===== *)
theory Request_Model
  imports Complex_Main TLive_Prelude "HOL-Library.Word" "HOL-Library.Char_ord" "HOL-Library.List_Lexorder"
    "HOL-Library.Product_Lexorder"
begin

text \<open>
  The request object of the serving engine (\<open>src/vllm/vllm/v1/request.py\<close>), as far as the
  caches and queues read it, its status and its order, and the placeholder range of a media
  item (\<open>src/vllm/vllm/multimodal/inputs.py\<close>).
\<close>

type_synonym bytes = "8 word list"

section \<open>Placeholder ranges\<close>

record PlaceholderRange =
  pr_offset :: nat
  pr_length :: nat
  is_embed :: "bool list option"

fun cumsum_bool :: "nat \<Rightarrow> bool list \<Rightarrow> nat list" where
  "cumsum_bool acc [] = []"
| "cumsum_bool acc (b # bs) = (let n = acc + (if b then 1 else 0) in n # cumsum_bool n bs)"

definition embeds_cumsum :: "PlaceholderRange \<Rightarrow> nat list option" where
  "embeds_cumsum p = map_option (cumsum_bool 0) (is_embed p)"

definition get_num_embeds :: "PlaceholderRange \<Rightarrow> nat res" where
  "get_num_embeds p =
     (case embeds_cumsum p of None \<Rightarrow> Inr (pr_length p) | Some c \<Rightarrow> py_nth c (- 1))"

definition get_embeds_indices_in_range :: "PlaceholderRange \<Rightarrow> int \<Rightarrow> int \<Rightarrow> (int \<times> int) res" where
  "get_embeds_indices_in_range p start_idx end_idx =
     (case embeds_cumsum p of
        None \<Rightarrow> Inr (start_idx, end_idx)
      | Some c \<Rightarrow>
          rbind (if start_idx > 0 then py_nth c (start_idx - 1) else Inr 0) (\<lambda>a.
          rbind (py_nth c (end_idx - 1)) (\<lambda>b. Inr (int a, int b))))"

lemma length_cumsum_bool [simp]: "length (cumsum_bool a bs) = length bs"
  by (induction bs arbitrary: a) (simp_all add: Let_def)

lemma nth_cumsum_bool:
  "i < length bs \<Longrightarrow> cumsum_bool a bs ! i = a + count_list (take (Suc i) bs) True"
proof (induction bs arbitrary: a i)
  case (Cons b bs)
  then show ?case by (cases i; cases b) (simp_all add: Let_def)
qed simp

lemma get_num_embeds_mask:
  assumes "is_embed p = Some m" and "m \<noteq> []"
  shows "get_num_embeds p = Inr (count_list m True)"
proof -
  have "nat (int (length m) - 1) = length m - 1" by linarith
  then show ?thesis
    using assms nth_cumsum_bool [of "length m - 1" m 0]
    by (simp add: get_num_embeds_def embeds_cumsum_def py_nth_def)
qed

lemma embeds_indices_mask:
  assumes "is_embed p = Some m" and "0 \<le> i" and "i < j" and "j \<le> int (length m)"
  shows "get_embeds_indices_in_range p i j =
    Inr (int (count_list (take (nat i) m) True), int (count_list (take (nat j) m) True))"
proof -
  have nth: "py_nth (cumsum_bool 0 m) (k - 1) = Inr (count_list (take (nat k) m) True)"
    if "0 < k" "k \<le> int (length m)" for k
  proof -
    from that have "Suc (nat (k - 1)) = nat k" by linarith
    then show ?thesis using that by (simp add: nth_cumsum_bool)
  qed
  show ?thesis
    using assms nth [of i] nth [of j]
    by (cases "i = 0") (simp_all add: get_embeds_indices_in_range_def embeds_cumsum_def)
qed

section \<open>Requests\<close>

record MultiModalFeatureSpec =
  mm_identifier :: "string option"
  mm_position :: PlaceholderRange

record LoRARequest =
  lora_name :: string
  lora_int_id :: int

datatype RequestStatus =
    WAITING
  | WAITING_FOR_STRUCTURED_OUTPUT_GRAMMAR
  | WAITING_FOR_REMOTE_KVS
  | WAITING_FOR_STREAMING_REQ
  | RUNNING
  | PREEMPTED
  | FINISHED_STOPPED
  | FINISHED_LENGTH_CAPPED
  | FINISHED_ABORTED
  | FINISHED_IGNORED
  | FINISHED_ERROR
  | FINISHED_REPETITION

datatype FinishReason = Reason_STOP | Reason_LENGTH | Reason_ABORT | Reason_ERROR | Reason_REPETITION

text \<open>\<open>enum.auto()\<close> numbers the members from 1.\<close>

fun status_value :: "RequestStatus \<Rightarrow> nat" where
  "status_value WAITING = 1"
| "status_value WAITING_FOR_STRUCTURED_OUTPUT_GRAMMAR = 2"
| "status_value WAITING_FOR_REMOTE_KVS = 3"
| "status_value WAITING_FOR_STREAMING_REQ = 4"
| "status_value RUNNING = 5"
| "status_value PREEMPTED = 6"
| "status_value FINISHED_STOPPED = 7"
| "status_value FINISHED_LENGTH_CAPPED = 8"
| "status_value FINISHED_ABORTED = 9"
| "status_value FINISHED_IGNORED = 10"
| "status_value FINISHED_ERROR = 11"
| "status_value FINISHED_REPETITION = 12"

definition is_finished :: "RequestStatus \<Rightarrow> bool" where
  "is_finished s \<longleftrightarrow> status_value s > status_value PREEMPTED"

fun get_finished_reason :: "RequestStatus \<Rightarrow> FinishReason option" where
  "get_finished_reason FINISHED_STOPPED = Some Reason_STOP"
| "get_finished_reason FINISHED_LENGTH_CAPPED = Some Reason_LENGTH"
| "get_finished_reason FINISHED_ABORTED = Some Reason_ABORT"
| "get_finished_reason FINISHED_IGNORED = Some Reason_LENGTH"
| "get_finished_reason FINISHED_ERROR = Some Reason_ERROR"
| "get_finished_reason WAITING_FOR_STREAMING_REQ = Some Reason_STOP"
| "get_finished_reason FINISHED_REPETITION = Some Reason_REPETITION"
| "get_finished_reason _ = None"

text \<open>
  \<open>py_id\<close> is the identity of the object, what \<open>id(self)\<close> returns and what \<open>==\<close>, sets and
  \<open>remove\<close> compare, since the class defines no \<open>__eq__\<close>. The rows of \<open>prompt_embeds\<close> are
  their bytes, \<open>embeds_hashes\<close> is the dict that memoizes the digests of their slices.
\<close>

record Request =
  py_id :: nat
  request_id :: string
  priority :: int
  arrival_time :: rat
  status :: RequestStatus
  mm_features :: "MultiModalFeatureSpec list"
  lora_request :: "LoRARequest option"
  cache_salt :: "string option"
  prompt_embeds :: "bytes list option"
  embeds_hashes :: "((nat \<times> nat) \<times> bytes) list"
  output_token_ids :: "int list"
  all_token_ids :: "int list"
  block_hashes :: "bytes list"
  num_computed_tokens :: nat
  num_preemptions :: nat
  skip_reading_prefix_cache :: bool

definition num_tokens :: "Request \<Rightarrow> nat" where
  "num_tokens r = length (all_token_ids r)"

definition get_num_encoder_embeds :: "Request \<Rightarrow> int \<Rightarrow> nat res" where
  "get_num_encoder_embeds r input_id =
     rbind (require (input_id < int (length (mm_features r))) (AssertionError [])) (\<lambda>_.
     rbind (py_nth (mm_features r) input_id) (\<lambda>f. get_num_embeds (mm_position f)))"

section \<open>The order of requests\<close>

definition request_lt :: "Request \<Rightarrow> Request \<Rightarrow> bool" where
  "request_lt a b =
     (if priority a \<noteq> priority b then priority a < priority b
      else if arrival_time a \<noteq> arrival_time b then arrival_time a < arrival_time b
      else if request_id a \<noteq> request_id b then request_id a < request_id b
      else py_id a < py_id b)"

text \<open>It is the lexicographic order of the sort key.\<close>

definition sort_key_of :: "Request \<Rightarrow> int \<times> rat \<times> string \<times> nat" where
  "sort_key_of r = (priority r, arrival_time r, request_id r, py_id r)"

lemma request_lt_key: "request_lt a b \<longleftrightarrow> sort_key_of a < sort_key_of b"
  by (auto simp: request_lt_def sort_key_of_def less_prod_def)

end
