(* ===== verification/Block_Hash.thy ===== *)
theory Block_Hash
  imports Request_Model "HOL-Library.Countable"
begin

text \<open>
  The keys of the prefix cache (\<open>src/vllm/vllm/v1/core/kv_cache_utils.py\<close>): packing a block
  hash with its group id, the extra keys a block hash depends on, the incremental hashing of a
  request's full blocks, and the view of the hashes at a larger block size. The hash function
  and the digest of prompt embeddings are parameters.
\<close>

section \<open>Packing\<close>



text \<open>\<open>n.to_bytes(4, "big", signed=False)\<close> and \<open>int.from_bytes(b, "big", signed=False)\<close>\<close>

definition to_bytes4 :: "int \<Rightarrow> bytes res" where
  "to_bytes4 n =
     (if n < 0 then Inl (OverflowError ''can't convert negative int to unsigned'')
      else if n \<ge> 2 ^ 32 then Inl (OverflowError ''int too big to convert'')
      else Inr (map (\<lambda>i. word_of_int (n div 256 ^ i)) [3, 2, 1, 0]))"

definition from_bytes :: "bytes \<Rightarrow> int" where
  "from_bytes bs = foldl (\<lambda>a b. a * 256 + uint b) 0 bs"

definition make_block_hash_with_group_id :: "bytes \<Rightarrow> int \<Rightarrow> bytes res" where
  "make_block_hash_with_group_id block_hash group_id =
     rbind (to_bytes4 group_id) (\<lambda>suffix. Inr (block_hash @ suffix))"

text \<open>\<open>key[:-4]\<close> and \<open>key[-4:]\<close>; a key shorter than four bytes gives the empty and the whole string.\<close>

definition get_block_hash :: "bytes \<Rightarrow> bytes" where
  "get_block_hash key = take (length key - 4) key"

definition get_group_id :: "bytes \<Rightarrow> int" where
  "get_group_id key = from_bytes (drop (length key - 4) key)"

datatype ExternalBlockHash = HashBytes bytes | HashInt int

definition maybe_convert_block_hash :: "bool \<Rightarrow> bytes \<Rightarrow> ExternalBlockHash" where
  "maybe_convert_block_hash use_int_block_hashes hash_bytes =
     (if \<not> use_int_block_hashes then HashBytes hash_bytes
      else HashInt (from_bytes hash_bytes mod 2 ^ 64))"

lemma to_bytes4_eq_Inr:
  "to_bytes4 n = Inr bs \<longleftrightarrow>
     0 \<le> n \<and> n < 2 ^ 32 \<and> bs = map (\<lambda>i. word_of_int (n div 256 ^ i)) [3, 2, 1, 0]"
  by (auto simp: to_bytes4_def)

lemma length_to_bytes4: "to_bytes4 n = Inr bs \<Longrightarrow> length bs = 4"
  by (auto simp: to_bytes4_eq_Inr)

lemma base256_step: "(n::int) div 256 ^ Suc i * 256 + n div 256 ^ i mod 256 = n div 256 ^ i"
proof -
  have "n div 256 ^ Suc i = n div 256 ^ i div 256"
    by (simp only: power_Suc2 zdiv_zmult2_eq)
  then show ?thesis by simp
qed

lemma uint_byte: "uint (word_of_int n :: 8 word) = n mod 256"
  by (simp add: uint_word_of_int)

lemma from_bytes_to_bytes4:
  assumes "to_bytes4 n = Inr bs"
  shows "from_bytes bs = n"
proof -
  from assms have n: "0 \<le> n" "n < 2 ^ 32"
    and bs: "bs = map (\<lambda>i. word_of_int (n div 256 ^ i)) [3, 2, 1, 0]"
    by (simp_all add: to_bytes4_eq_Inr)
  define d where "d i = n div 256 ^ i" for i
  have top: "d 3 mod 256 = d 3"
    using n by (simp add: d_def)
  have s2: "d 3 * 256 + d 2 mod 256 = d 2" and s1: "d 2 * 256 + d 1 mod 256 = d 1"
    and s0: "d 1 * 256 + d 0 mod 256 = d 0"
    using base256_step [of n 2] base256_step [of n 1] base256_step [of n 0]
    by (simp_all add: d_def)
  have "from_bytes bs = ((d 3 mod 256 * 256 + d 2 mod 256) * 256 + d 1 mod 256) * 256 + d 0 mod 256"
    unfolding bs d_def by (simp only: from_bytes_def list.map foldl.simps uint_byte) simp
  also have "\<dots> = d 0"
    by (simp only: top s2 s1 s0)
  finally show ?thesis by (simp add: d_def)
qed

lemma block_hash_key_parts:
  assumes "make_block_hash_with_group_id h g = Inr key"
  shows "get_block_hash key = h \<and> get_group_id key = g"
proof -
  from assms obtain s where s: "to_bytes4 g = Inr s" and key: "key = h @ s"
    by (auto simp: make_block_hash_with_group_id_def rbind_eq_Inr)
  show ?thesis
    using length_to_bytes4 [OF s] from_bytes_to_bytes4 [OF s]
    by (simp add: key get_block_hash_def get_group_id_def)
qed

lemma make_block_hash_inject:
  assumes "make_block_hash_with_group_id h g = Inr key"
    and "make_block_hash_with_group_id h' g' = Inr key"
  shows "h = h' \<and> g = g'"
  using block_hash_key_parts [OF assms(1)] block_hash_key_parts [OF assms(2)] by simp

lemma make_block_hash_defined:
  "(\<exists>key. make_block_hash_with_group_id h g = Inr key) \<longleftrightarrow> 0 \<le> g \<and> g < 2 ^ 32"
  by (auto simp: make_block_hash_with_group_id_def rbind_eq_Inr to_bytes4_eq_Inr)

section \<open>Extra keys\<close>

text \<open>An element of the extra key tuple: a string, a pair of a hash and an offset, or bytes.\<close>

datatype extra_key = KeyStr string | KeyPair string int | KeyBytes bytes

definition need_extra_keys :: "Request \<Rightarrow> bool" where
  "need_extra_keys r \<longleftrightarrow> mm_features r \<noteq> [] \<or> lora_request r \<noteq> None \<or> cache_salt r \<noteq> None"

text \<open>The loop over the features from the current index on.\<close>

fun mm_keys_loop ::
    "nat \<Rightarrow> nat \<Rightarrow> MultiModalFeatureSpec list \<Rightarrow> int \<Rightarrow> extra_key list \<Rightarrow> (extra_key list \<times> int) res" where
  "mm_keys_loop s e [] idx keys = Inr (keys, idx)"
| "mm_keys_loop s e (f # fs) idx keys =
     rbind (of_option (AssertionError []) (mm_identifier f)) (\<lambda>ident.
     let off = pr_offset (mm_position f); len = pr_length (mm_position f)
     in if e > off then
          if s \<ge> off + len then mm_keys_loop s e fs (idx + 1) keys
          else let keys' = keys @ [KeyPair ident (int off - int s)]
               in if e \<ge> off + len then mm_keys_loop s e fs (idx + 1) keys'
                  else Inr (keys', idx)
        else Inr (keys, idx))"

definition gen_mm_extra_hash_keys :: "Request \<Rightarrow> nat \<Rightarrow> nat \<Rightarrow> int \<Rightarrow> (extra_key list \<times> int) res" where
  "gen_mm_extra_hash_keys r s e start_mm_idx =
     (let fs = mm_features r
      in if fs = [] then Inr ([], start_mm_idx)
         else let last_pos = mm_position (last fs)
         in if pr_offset last_pos + pr_length last_pos \<le> s then Inr ([], start_mm_idx)
         else rbind
           (if start_mm_idx < 0
            then rbind (require (- start_mm_idx \<le> int (length fs)) (AssertionError []))
                   (\<lambda>_. Inr (int (length fs) + start_mm_idx))
            else Inr start_mm_idx) (\<lambda>idx.
         mm_keys_loop s e (drop (nat idx) fs) idx []))"

definition gen_lora_extra_hash_keys :: "Request \<Rightarrow> extra_key list" where
  "gen_lora_extra_hash_keys r = (case lora_request r of None \<Rightarrow> [] | Some l \<Rightarrow> [KeyStr (lora_name l)])"

text \<open>The digest of a slice is stored in the request; the request is returned with it.\<close>

definition gen_prompt_embeds_extra_hash_keys ::
    "(bytes \<Rightarrow> bytes) \<Rightarrow> Request \<Rightarrow> nat \<Rightarrow> nat \<Rightarrow> extra_key list \<times> Request" where
  "gen_prompt_embeds_extra_hash_keys sha256 r s e =
     (case prompt_embeds r of
        None \<Rightarrow> ([], r)
      | Some rows \<Rightarrow>
          (case map_of (embeds_hashes r) (s, e) of
             Some h \<Rightarrow> ([KeyBytes h], r)
           | None \<Rightarrow>
               let h = sha256 (concat (py_slice rows s e))
               in ([KeyBytes h], r\<lparr>embeds_hashes := ((s, e), h) # embeds_hashes r\<rparr>)))"

definition generate_block_hash_extra_keys ::
    "(bytes \<Rightarrow> bytes) \<Rightarrow> Request \<Rightarrow> nat \<Rightarrow> nat \<Rightarrow> int \<Rightarrow> (extra_key list option \<times> int \<times> Request) res" where
  "generate_block_hash_extra_keys sha256 r s e start_mm_idx =
     rbind (gen_mm_extra_hash_keys r s e start_mm_idx) (\<lambda>(mm_extra_keys, new_start_mm_idx).
     let cache_salt_keys = (case cache_salt r of
           None \<Rightarrow> [] | Some salt \<Rightarrow> if s = 0 \<and> salt \<noteq> [] then [KeyStr salt] else []);
         (prompt_embeds_keys, r') = gen_prompt_embeds_extra_hash_keys sha256 r s e;
         extra_keys = gen_lora_extra_hash_keys r @ mm_extra_keys @ cache_salt_keys @ prompt_embeds_keys
     in Inr (if extra_keys = [] then None else Some extra_keys, new_start_mm_idx, r'))"

section \<open>Hashing the blocks of a request\<close>

type_synonym hash_fn = "bytes \<times> int list \<times> extra_key list option \<Rightarrow> bytes"

definition hash_block_tokens ::
    "hash_fn \<Rightarrow> bytes \<Rightarrow> bytes option \<Rightarrow> int list \<Rightarrow> extra_key list option \<Rightarrow> bytes" where
  "hash_block_tokens hash_function NONE_HASH parent_block_hash toks extra_keys =
     (let parent = (case parent_block_hash of None \<Rightarrow> NONE_HASH | Some h \<Rightarrow> if h = [] then NONE_HASH else h)
      in hash_function (parent, toks, extra_keys))"

text \<open>The \<open>while True\<close> loop: with a block size of zero it does not end.\<close>

partial_function (option) hasher_loop ::
    "(bytes \<Rightarrow> bytes) \<Rightarrow> hash_fn \<Rightarrow> bytes \<Rightarrow> nat \<Rightarrow> Request \<Rightarrow> nat \<Rightarrow> int \<Rightarrow> bytes option \<Rightarrow> bytes list \<Rightarrow>
     (bytes list \<times> Request) res option" where
  "hasher_loop sha256 hash_function NONE_HASH block_size r start curr_mm_idx prev new_hashes =
     (if start + block_size > num_tokens r then Some (Inr (new_hashes, r))
      else case generate_block_hash_extra_keys sha256 r start (start + block_size) curr_mm_idx of
        Inl err \<Rightarrow> Some (Inl err)
      | Inr (extra_keys, idx', r') \<Rightarrow>
          (let h = hash_block_tokens hash_function NONE_HASH prev
                     (py_slice (all_token_ids r') start (start + block_size)) extra_keys
           in hasher_loop sha256 hash_function NONE_HASH block_size r' (start + block_size) idx'
                (Some h) (new_hashes @ [h])))"

definition request_block_hasher ::
    "(bytes \<Rightarrow> bytes) \<Rightarrow> hash_fn \<Rightarrow> bytes \<Rightarrow> nat \<Rightarrow> Request \<Rightarrow> (bytes list \<times> Request) res option" where
  "request_block_hasher sha256 hash_function NONE_HASH block_size r =
     (let start = length (block_hashes r) * block_size
      in if start + block_size > num_tokens r then Some (Inr ([], r))
         else hasher_loop sha256 hash_function NONE_HASH block_size r start
                (if start > 0 then - 1 else 0)
                (if block_hashes r = [] then None else Some (last (block_hashes r))) [])"

text \<open>\<open>update_block_hashes\<close> and \<open>append_output_token_ids\<close> of the request\<close>

definition update_block_hashes ::
    "(bytes \<Rightarrow> bytes) \<Rightarrow> hash_fn \<Rightarrow> bytes \<Rightarrow> nat \<Rightarrow> Request \<Rightarrow> Request res option" where
  "update_block_hashes sha256 hash_function NONE_HASH block_size r =
     map_option (\<lambda>m. rbind m (\<lambda>(hs, r'). Inr (r'\<lparr>block_hashes := block_hashes r' @ hs\<rparr>)))
       (request_block_hasher sha256 hash_function NONE_HASH block_size r)"

definition append_output_token_ids ::
    "(bytes \<Rightarrow> bytes) \<Rightarrow> hash_fn \<Rightarrow> bytes \<Rightarrow> nat \<Rightarrow> int list \<Rightarrow> Request \<Rightarrow> Request res option" where
  "append_output_token_ids sha256 hash_function NONE_HASH block_size toks r =
     update_block_hashes sha256 hash_function NONE_HASH block_size
       (r\<lparr>output_token_ids := output_token_ids r @ toks, all_token_ids := all_token_ids r @ toks\<rparr>)"

section \<open>Hashes at a larger block size\<close>

record BlockHashListWithBlockSize =
  fine_hashes :: "bytes list"
  scale_factor :: int

definition new_BlockHashListWithBlockSize :: "bytes list \<Rightarrow> int \<Rightarrow> int \<Rightarrow> BlockHashListWithBlockSize res" where
  "new_BlockHashListWithBlockSize hs hash_block_size target_block_size =
     (if hash_block_size = 0 then Inl ZeroDivisionError
      else rbind (require (target_block_size mod hash_block_size = 0) (AssertionError [])) (\<lambda>_.
      Inr \<lparr>fine_hashes = hs, scale_factor = target_block_size div hash_block_size\<rparr>))"

definition coarse_len :: "BlockHashListWithBlockSize \<Rightarrow> int res" where
  "coarse_len b = (if scale_factor b = 0 then Inl ZeroDivisionError
     else Inr (int (length (fine_hashes b)) div scale_factor b))"

definition get_value_at :: "BlockHashListWithBlockSize \<Rightarrow> int \<Rightarrow> bytes res" where
  "get_value_at b idx =
     (let base = idx * scale_factor b
      in rbind (py_nth (fine_hashes b) base) (\<lambda>h.
         fold_res (\<lambda>i merged. rbind (py_nth (fine_hashes b) i) (\<lambda>h'. Inr (merged @ h')))
           [base + 1 .. base + scale_factor b - 1] h))"

text \<open>\<open>b[start:]\<close> for a non-negative start\<close>

definition coarse_from :: "BlockHashListWithBlockSize \<Rightarrow> nat \<Rightarrow> bytes list res" where
  "coarse_from b start =
     rbind (coarse_len b) (\<lambda>n. map_res (get_value_at b) [int start .. n - 1])"

end
