(* ===== verification/Block_Queue.thy ===== *)
theory Block_Queue
  imports Request_Model "HOL-Library.Multiset"
begin

text \<open>
  The block objects of the KV cache and the queue of free blocks, a doubly linked list threaded
  through them (\<open>KVCacheBlock\<close> and \<open>FreeKVCacheBlockQueue\<close> of
  \<open>src/vllm/vllm/v1/core/kv_cache_utils.py\<close>). The objects live in a store indexed by
  references; the two sentinels of the queue are references of their own. The queue operations
  are shown to implement the operations of a plain list of block numbers.
\<close>

section \<open>Blocks and the store\<close>

datatype block_ref = FakeHead | FakeTail | Block nat

record KVCacheBlock =
  block_id :: int
  ref_cnt :: int
  block_hash :: "bytes option"
  prev_free_block :: "block_ref option"
  next_free_block :: "block_ref option"
  is_null :: bool

definition new_block :: "int \<Rightarrow> KVCacheBlock" where
  "new_block i = \<lparr>block_id = i, ref_cnt = 0, block_hash = None, prev_free_block = None,
     next_free_block = None, is_null = False\<rparr>"

text \<open>The setter of the property \<open>block_hash\<close>\<close>

definition set_block_hash :: "bytes \<Rightarrow> KVCacheBlock \<Rightarrow> KVCacheBlock res" where
  "set_block_hash h b =
     rbind (require (block_hash b = None) (AssertionError ''The block already has a hash. This should not happen.''))
       (\<lambda>_. Inr (b\<lparr>block_hash := Some h\<rparr>))"

definition reset_hash :: "KVCacheBlock \<Rightarrow> KVCacheBlock" where
  "reset_hash b = b\<lparr>block_hash := None\<rparr>"

type_synonym block_store = "block_ref \<Rightarrow> KVCacheBlock"

record FreeKVCacheBlockQueue =
  store :: block_store
  num_free_blocks :: int

definition set_prev :: "block_ref \<Rightarrow> block_ref option \<Rightarrow> FreeKVCacheBlockQueue \<Rightarrow> FreeKVCacheBlockQueue" where
  "set_prev x v q = q\<lparr>store := (store q)(x := (store q x)\<lparr>prev_free_block := v\<rparr>)\<rparr>"

definition set_next :: "block_ref \<Rightarrow> block_ref option \<Rightarrow> FreeKVCacheBlockQueue \<Rightarrow> FreeKVCacheBlockQueue" where
  "set_next x v q = q\<lparr>store := (store q)(x := (store q x)\<lparr>next_free_block := v\<rparr>)\<rparr>"

definition nxt :: "FreeKVCacheBlockQueue \<Rightarrow> block_ref \<Rightarrow> block_ref option" where
  "nxt q x = next_free_block (store q x)"

definition prv :: "FreeKVCacheBlockQueue \<Rightarrow> block_ref \<Rightarrow> block_ref option" where
  "prv q x = prev_free_block (store q x)"

section \<open>The operations\<close>

text \<open>\<open>__init__\<close>: links consecutive blocks, then the sentinels\<close>

definition link_step :: "nat list \<Rightarrow> nat \<Rightarrow> FreeKVCacheBlockQueue \<Rightarrow> FreeKVCacheBlockQueue" where
  "link_step blocks i q =
     (let q1 = (if i > 0 then set_prev (Block (blocks ! i)) (Some (Block (blocks ! (i - 1)))) q else q)
      in if int i < int (length blocks) - 1
         then set_next (Block (blocks ! i)) (Some (Block (blocks ! (i + 1)))) q1 else q1)"

definition new_queue :: "block_store \<Rightarrow> nat list \<Rightarrow> FreeKVCacheBlockQueue" where
  "new_queue s blocks =
     (let q = fold (link_step blocks) [0..<length blocks] \<lparr>store = s, num_free_blocks = int (length blocks)\<rparr>;
          q1 = q\<lparr>store := (store q)(FakeHead := new_block (- 1), FakeTail := new_block (- 1))\<rparr>
      in if blocks \<noteq> []
         then set_next (Block (last blocks)) (Some FakeTail)
                (set_prev FakeTail (Some (Block (last blocks)))
                  (set_prev (Block (hd blocks)) (Some FakeHead)
                    (set_next FakeHead (Some (Block (hd blocks))) q1)))
         else set_prev FakeTail (Some FakeHead) (set_next FakeHead (Some FakeTail) q1))"

definition popleft :: "FreeKVCacheBlockQueue \<Rightarrow> (block_ref \<times> FreeKVCacheBlockQueue) res" where
  "popleft q =
     (if nxt q FakeHead = Some FakeTail \<or> nxt q FakeHead = None
      then rbind (require (num_free_blocks q = 0) (AssertionError ''num_free_blocks is out of sync with the free list.''))
             (\<lambda>_. Inl (ValueError ''No free blocks available''))
      else let first_block = the (nxt q FakeHead)
      in case nxt q first_block of
           None \<Rightarrow> Inl (RuntimeError ''Invalid block found in popleft() which doesn't have a valid next_free_block'')
         | Some second \<Rightarrow>
             let q1 = set_next FakeHead (Some second) q;
                 q2 = set_prev second (Some FakeHead) q1;
                 q3 = set_next first_block None (set_prev first_block None q2)
             in Inr (first_block, q3\<lparr>num_free_blocks := num_free_blocks q3 - 1\<rparr>))"

text \<open>The loop of \<open>popleft_n\<close>: the blocks taken, the block after them, and the queue\<close>

fun pop_loop :: "nat \<Rightarrow> block_ref option \<Rightarrow> block_ref list \<Rightarrow> FreeKVCacheBlockQueue \<Rightarrow>
    (block_ref list \<times> block_ref option \<times> FreeKVCacheBlockQueue) res" where
  "pop_loop 0 c ret q = Inr (ret, c, q)"
| "pop_loop (Suc n) None ret q = Inl (AssertionError [])"
| "pop_loop (Suc n) (Some b) ret q =
     pop_loop n (nxt q b) (ret @ [b]) (set_next b None (set_prev b None q))"

definition popleft_n :: "int \<Rightarrow> FreeKVCacheBlockQueue \<Rightarrow> (block_ref list \<times> FreeKVCacheBlockQueue) res" where
  "popleft_n n q =
     (if n = 0 then Inr ([], q)
      else rbind (require (num_free_blocks q \<ge> n) (AssertionError [])) (\<lambda>_.
        let q0 = q\<lparr>num_free_blocks := num_free_blocks q - n\<rparr>
        in rbind (pop_loop (nat n) (nxt q0 FakeHead) [] q0) (\<lambda>(ret, curr_block, q1).
           case curr_block of
             None \<Rightarrow> Inr (ret, q1)
           | Some b \<Rightarrow> Inr (ret, set_prev b (Some FakeHead) (set_next FakeHead (Some b) q1)))))"

definition queue_remove :: "block_ref \<Rightarrow> FreeKVCacheBlockQueue \<Rightarrow> FreeKVCacheBlockQueue res" where
  "queue_remove b q =
     (case (prv q b, nxt q b) of
        (Some p, Some n) \<Rightarrow>
          let q1 = set_next p (Some n) q;
              q2 = set_prev n (Some p) q1;
              q3 = set_next b None (set_prev b None q2)
          in Inr (q3\<lparr>num_free_blocks := num_free_blocks q3 - 1\<rparr>)
      | _ \<Rightarrow> Inl (RuntimeError ''remove() called on an invalid block''))"

definition queue_append :: "block_ref \<Rightarrow> FreeKVCacheBlockQueue \<Rightarrow> FreeKVCacheBlockQueue res" where
  "queue_append b q =
     (case prv q FakeTail of
        None \<Rightarrow> Inl (RuntimeError ''prev_free_block of fake_free_list_tail should always exist'')
      | Some last_block \<Rightarrow>
          let q1 = set_next last_block (Some b) q;
              q2 = set_prev b (Some last_block) q1;
              q3 = set_next b (Some FakeTail) q2;
              q4 = set_prev FakeTail (Some b) q3
          in Inr (q4\<lparr>num_free_blocks := num_free_blocks q4 + 1\<rparr>))"

fun append_loop :: "block_ref list \<Rightarrow> block_ref \<Rightarrow> FreeKVCacheBlockQueue \<Rightarrow> block_ref \<times> FreeKVCacheBlockQueue" where
  "append_loop [] last_block q = (last_block, q)"
| "append_loop (b # bs) last_block q =
     append_loop bs b (set_next last_block (Some b) (set_prev b (Some last_block) q))"

definition queue_append_n :: "block_ref list \<Rightarrow> FreeKVCacheBlockQueue \<Rightarrow> FreeKVCacheBlockQueue res" where
  "queue_append_n bs q =
     (if bs = [] then Inr q
      else rbind (of_option (AssertionError ''prev_free_block of fake_free_list_tail should always exist'')
        (prv q FakeTail)) (\<lambda>last_block.
      let (last_block', q1) = append_loop bs last_block q;
          q2 = set_prev FakeTail (Some last_block') (set_next last_block' (Some FakeTail) q1)
      in Inr (q2\<lparr>num_free_blocks := num_free_blocks q2 + int (length bs)\<rparr>)))"

text \<open>The walk of \<open>get_all_free_blocks\<close> ends only if the list does.\<close>

partial_function (option) free_walk ::
    "FreeKVCacheBlockQueue \<Rightarrow> block_ref \<Rightarrow> block_ref list \<Rightarrow> block_ref list option" where
  "free_walk q b ret = (case nxt q b of None \<Rightarrow> Some ret | Some n \<Rightarrow> free_walk q n (ret @ [b]))"

definition get_all_free_blocks :: "FreeKVCacheBlockQueue \<Rightarrow> block_ref list res option" where
  "get_all_free_blocks q =
     (case nxt q FakeHead of
        None \<Rightarrow> Some (Inl (RuntimeError ''next_free_block of fake_free_list_head should always exist''))
      | Some b \<Rightarrow> map_option Inr (free_walk q b []))"

section \<open>Links\<close>

lemma nxt_set_next [simp]: "nxt (set_next x v q) = (nxt q)(x := v)"
  and nxt_set_prev [simp]: "nxt (set_prev x v q) = nxt q"
  and prv_set_prev [simp]: "prv (set_prev x v q) = (prv q)(x := v)"
  and prv_set_next [simp]: "prv (set_next x v q) = prv q"
  and nxt_num [simp]: "nxt (q\<lparr>num_free_blocks := n\<rparr>) = nxt q"
  and prv_num [simp]: "prv (q\<lparr>num_free_blocks := n\<rparr>) = prv q"
  and num_set_next [simp]: "num_free_blocks (set_next x v q) = num_free_blocks q"
  and num_set_prev [simp]: "num_free_blocks (set_prev x v q) = num_free_blocks q"
  by (auto simp: nxt_def prv_def set_next_def set_prev_def)

lemma set_prev_set_next: "set_prev x v (set_next y w q) = set_next y w (set_prev x v q)"
  by (cases "x = y"; cases "store q x") (simp_all add: set_prev_def set_next_def fun_upd_twist)

text \<open>What the queue operations leave alone: everything of a block but its links\<close>

definition contents :: "KVCacheBlock \<Rightarrow> int \<times> int \<times> bytes option \<times> bool" where
  "contents b = (block_id b, ref_cnt b, block_hash b, is_null b)"

definition same_contents :: "FreeKVCacheBlockQueue \<Rightarrow> FreeKVCacheBlockQueue \<Rightarrow> bool" where
  "same_contents q q' \<longleftrightarrow> (\<forall>x. contents (store q' x) = contents (store q x))"

lemma same_contents_refl [simp]: "same_contents q q"
  by (simp add: same_contents_def)

lemma same_contents_trans: "same_contents q q' \<Longrightarrow> same_contents q' q'' \<Longrightarrow> same_contents q q''"
  by (simp add: same_contents_def)

lemma contents_set [simp]:
  "contents (store (set_next x v q) y) = contents (store q y)"
  "contents (store (set_prev x v q) y) = contents (store q y)"
  by (simp_all add: set_next_def set_prev_def contents_def)

lemma same_contents_set [simp]:
  "same_contents q (set_next x v q') = same_contents q q'"
  "same_contents q (set_prev x v q') = same_contents q q'"
  "same_contents q (q'\<lparr>num_free_blocks := n\<rparr>) = same_contents q q'"
  "same_contents (q\<lparr>num_free_blocks := n\<rparr>) q' = same_contents q q'"
  "same_contents (set_next x v q) q' = same_contents q q'"
  "same_contents (set_prev x v q) q' = same_contents q q'"
  by (simp_all add: same_contents_def)

text \<open>A path follows the forward links and is mirrored by the backward links.\<close>

fun path :: "('a \<Rightarrow> 'a option) \<Rightarrow> ('a \<Rightarrow> 'a option) \<Rightarrow> 'a list \<Rightarrow> bool" where
  "path f g (x # y # zs) \<longleftrightarrow> f x = Some y \<and> g y = Some x \<and> path f g (y # zs)"
| "path f g _ \<longleftrightarrow> True"

lemma path_append: "path f g (xs @ y # zs) \<longleftrightarrow> path f g (xs @ [y]) \<and> path f g (y # zs)"
proof (induction xs)
  case (Cons x xs)
  then show ?case by (cases xs) auto
qed simp

lemma path_cong:
  assumes "\<forall>x \<in> set (butlast xs). f x = f' x" and "\<forall>x \<in> set (tl xs). g x = g' x"
  shows "path f g xs = path f' g' xs"
  using assms by (induction f g xs rule: path.induct) auto

lemma path_iff_nth:
  "path f g xs \<longleftrightarrow> (\<forall>i. Suc i < length xs \<longrightarrow> f (xs ! i) = Some (xs ! Suc i) \<and> g (xs ! Suc i) = Some (xs ! i))"
proof (induction f g xs rule: path.induct)
  case (1 f g x y zs)
  show ?case
  proof
    assume "path f g (x # y # zs)"
    then show "\<forall>i. Suc i < length (x # y # zs) \<longrightarrow> f ((x # y # zs) ! i) = Some ((x # y # zs) ! Suc i) \<and>
        g ((x # y # zs) ! Suc i) = Some ((x # y # zs) ! i)"
      using 1 by (auto simp: nth_Cons split: nat.split)
  next
    assume *: "\<forall>i. Suc i < length (x # y # zs) \<longrightarrow> f ((x # y # zs) ! i) = Some ((x # y # zs) ! Suc i) \<and>
        g ((x # y # zs) ! Suc i) = Some ((x # y # zs) ! i)"
    then have "f x = Some y \<and> g y = Some x" by force
    moreover have "path f g (y # zs)"
      unfolding 1 using * by (metis Suc_less_eq length_Cons nth_Cons_Suc)
    ultimately show "path f g (x # y # zs)" by simp
  qed
qed auto

section \<open>The queue implements a list\<close>

text \<open>
  \<open>queue_rep q xs\<close>: from the head sentinel the links visit the blocks \<open>xs\<close> and then the tail
  sentinel, the blocks outside the list have no links, and the count is right.
\<close>

definition chain :: "nat list \<Rightarrow> block_ref list" where
  "chain xs = FakeHead # map Block xs @ [FakeTail]"

definition queue_rep :: "FreeKVCacheBlockQueue \<Rightarrow> nat list \<Rightarrow> bool" where
  "queue_rep q xs \<longleftrightarrow> distinct xs \<and> path (nxt q) (prv q) (chain xs) \<and>
     nxt q FakeTail = None \<and> num_free_blocks q = int (length xs) \<and>
     (\<forall>b. b \<notin> set xs \<longrightarrow> nxt q (Block b) = None \<and> prv q (Block b) = None)"

lemma distinct_chain: "distinct (chain xs) \<longleftrightarrow> distinct xs"
  by (auto simp: chain_def distinct_map inj_on_def)

lemma chain_append: "chain (xs @ ys) = (FakeHead # map Block xs) @ map Block ys @ [FakeTail]"
  by (simp add: chain_def)

text \<open>Unlinking the node between \<open>p\<close> and \<open>n\<close>\<close>

lemma path_unlink:
  assumes "path f g (L @ p # b # n # R)" and "distinct (L @ p # b # n # R)"
  shows "f p = Some b" and "g b = Some p" and "f b = Some n" and "g n = Some b"
    and "path (f(p := Some n, b := None)) (g(n := Some p, b := None)) (L @ p # n # R)"
proof -
  from assms(1) have parts: "path f g (L @ [p])" "f p = Some b" "g b = Some p" "f b = Some n" "g n = Some b"
    "path f g (n # R)"
    using path_append [of f g L p "b # n # R"] by auto
  then show "f p = Some b" "g b = Some p" "f b = Some n" "g n = Some b" by auto
  let ?f = "f(p := Some n, b := None)" and ?g = "g(n := Some p, b := None)"
  have "path ?f ?g (L @ [p]) = path f g (L @ [p])"
  proof (rule path_cong)
    show "\<forall>x \<in> set (butlast (L @ [p])). ?f x = f x" using assms(2) by auto
    have "set (tl (L @ [p])) \<subseteq> set (L @ [p])" by (cases L) auto
    with assms(2) show "\<forall>x \<in> set (tl (L @ [p])). ?g x = g x" by auto
  qed
  moreover have "path ?f ?g (n # R) = path f g (n # R)"
  proof (rule path_cong)
    have "set (butlast (n # R)) \<subseteq> set (n # R)" by (auto dest: in_set_butlastD split: if_splits)
    with assms(2) show "\<forall>x \<in> set (butlast (n # R)). ?f x = f x" by auto
    show "\<forall>x \<in> set (tl (n # R)). ?g x = g x" using assms(2) by auto
  qed
  ultimately show "path ?f ?g (L @ p # n # R)"
    using parts assms(2) path_append [of ?f ?g L p "n # R"] by auto
qed

lemma queue_rep_split:
  assumes "queue_rep q (ys @ b # zs)"
  obtains L p n R where "FakeHead # map Block ys = L @ [p]" and "map Block zs @ [FakeTail] = n # R"
    and "path (nxt q) (prv q) (L @ p # Block b # n # R)" and "distinct (L @ p # Block b # n # R)"
proof -
  let ?pre = "FakeHead # map Block ys" and ?post = "map Block zs @ [FakeTail]"
  have L: "?pre = butlast ?pre @ [last ?pre]" by (rule append_butlast_last_id [symmetric]) simp
  have R: "?post = hd ?post # tl ?post" by (rule list.collapse [symmetric]) simp
  have chain: "chain (ys @ b # zs) = butlast ?pre @ last ?pre # Block b # hd ?post # tl ?post"
    unfolding chain_append using L R by (metis append.assoc append_Cons append_Nil list.simps(9))
  from assms have "distinct (chain (ys @ b # zs))" "path (nxt q) (prv q) (chain (ys @ b # zs))"
    by (simp_all only: distinct_chain queue_rep_def)
  then show thesis
    using that [OF L R] unfolding chain by blast
qed

lemma queue_remove_member:
  assumes "queue_rep q (ys @ b # zs)"
  shows "\<exists>q'. queue_remove (Block b) q = Inr q' \<and> queue_rep q' (ys @ zs) \<and> same_contents q q'"
proof -
  from queue_rep_split [OF assms] obtain L p n R where
    L: "FakeHead # map Block ys = L @ [p]" and R: "map Block zs @ [FakeTail] = n # R"
    and path: "path (nxt q) (prv q) (L @ p # Block b # n # R)" and dist: "distinct (L @ p # Block b # n # R)" .
  note links = path_unlink [OF path dist]
  define q' where "q' = (set_next (Block b) None (set_prev (Block b) None (set_prev n (Some p) (set_next p (Some n) q))))
    \<lparr>num_free_blocks := num_free_blocks q - 1\<rparr>"
  have "queue_remove (Block b) q = Inr q'"
    using links(2,3) by (simp add: queue_remove_def q'_def Let_def)
  moreover have "same_contents q q'" by (simp add: q'_def)
  moreover have "queue_rep q' (ys @ zs)"
  proof -
    have chain: "chain (ys @ zs) = L @ p # n # R"
      unfolding chain_append by (metis L R append.assoc append_Cons append_Nil)
    have members: "p \<in> insert FakeHead (Block ` set ys)" "n \<in> insert FakeTail (Block ` set zs)"
      using arg_cong [OF L, of set] arg_cong [OF R, of set] by auto
    then have "p \<noteq> FakeTail" by auto
    with members show ?thesis
      using assms links(5) unfolding queue_rep_def chain
      by (auto simp: q'_def)
  qed
  ultimately show ?thesis by blast
qed

lemma queue_remove_other:
  assumes "queue_rep q xs" and "b \<notin> set xs"
  shows "queue_remove (Block b) q = Inl (RuntimeError ''remove() called on an invalid block'')"
  using assms by (simp add: queue_rep_def queue_remove_def)

lemma popleft_empty:
  assumes "queue_rep q []"
  shows "popleft q = Inl (ValueError ''No free blocks available'')"
  using assms by (simp add: queue_rep_def chain_def popleft_def)

lemma popleft_cons:
  assumes "queue_rep q (x # xs)"
  shows "\<exists>q'. popleft q = Inr (Block x, q') \<and> queue_rep q' xs \<and> same_contents q q'"
proof -
  from assms have rep: "queue_rep q ([] @ x # xs)" by simp
  from queue_rep_split [OF rep] obtain L p n R where
    L: "FakeHead # map Block [] = L @ [p]"
    and path: "path (nxt q) (prv q) (L @ p # Block x # n # R)" and dist: "distinct (L @ p # Block x # n # R)" .
  from L have p: "p = FakeHead" by simp
  note links = path_unlink [OF path dist, unfolded p]
  have "popleft q = rbind (queue_remove (Block x) q) (\<lambda>q'. Inr (Block x, q'))"
    using links(1-4) by (simp add: popleft_def queue_remove_def Let_def)
  with queue_remove_member [OF rep] show ?thesis by auto
qed

text \<open>Taking blocks off the front: the loop clears their links and stops at the block after them.\<close>

lemma pop_loop_path:
  assumes "path (nxt q) (prv q) (map Block ys @ n # R)" and "distinct (map Block ys @ n # R)"
  shows "\<exists>q'. pop_loop (length ys) (Some (hd (map Block ys @ n # R))) ret q = Inr (ret @ map Block ys, Some n, q') \<and>
    nxt q' = (\<lambda>x. if x \<in> Block ` set ys then None else nxt q x) \<and>
    prv q' = (\<lambda>x. if x \<in> Block ` set ys then None else prv q x) \<and>
    num_free_blocks q' = num_free_blocks q \<and> same_contents q q'"
  using assms
proof (induction ys arbitrary: q ret)
  case Nil
  then show ?case by simp
next
  case (Cons y ys)
  let ?rest = "map Block ys @ n # R"
  let ?q = "set_next (Block y) None (set_prev (Block y) None q)"
  have rest: "?rest = hd ?rest # tl ?rest" by (cases ys) auto
  with Cons.prems(1) have succ: "nxt q (Block y) = Some (hd ?rest)" and path: "path (nxt q) (prv q) ?rest"
    by (metis append_Cons list.simps(9) path.simps(1))+
  from Cons.prems(2) have y: "Block y \<notin> set ?rest" and dist: "distinct ?rest" by auto
  have "path (nxt ?q) (prv ?q) ?rest = path (nxt q) (prv q) ?rest"
    by (rule path_cong) (use y in \<open>auto dest!: in_set_butlastD dest: list.set_sel(2) [rotated]\<close>)
  with path have "path (nxt ?q) (prv ?q) ?rest" by simp
  from Cons.IH [OF this dist, of "ret @ [Block y]"] succ show ?case
    by (auto simp: fun_eq_iff)
qed

lemma queue_rep_front:
  assumes "queue_rep q (ys @ zs)"
  obtains n R where "map Block zs @ [FakeTail] = n # R" and "nxt q FakeHead = Some (hd (map Block ys @ n # R))"
    and "path (nxt q) (prv q) (map Block ys @ n # R)" and "distinct (FakeHead # map Block ys @ n # R)"
proof -
  obtain n R where R: "map Block zs @ [FakeTail] = n # R" by (cases "map Block zs @ [FakeTail]") auto
  then have chain: "chain (ys @ zs) = FakeHead # map Block ys @ n # R" unfolding chain_append by simp
  have front: "map Block ys @ n # R = hd (map Block ys @ n # R) # tl (map Block ys @ n # R)" by (cases ys) auto
  from assms have "path (nxt q) (prv q) (chain (ys @ zs))" "distinct (chain (ys @ zs))"
    by (simp_all only: queue_rep_def distinct_chain)
  then show thesis
    using that [OF R] front unfolding chain by (metis path.simps(1))
qed

lemma popleft_n_correct:
  assumes "queue_rep q (ys @ zs)"
  shows "\<exists>q'. popleft_n (int (length ys)) q = Inr (map Block ys, q') \<and> queue_rep q' zs \<and> same_contents q q'"
proof (cases "ys = []")
  case True
  with assms show ?thesis by (simp add: popleft_n_def)
next
  case False
  from queue_rep_front [OF assms] obtain n R where R: "map Block zs @ [FakeTail] = n # R"
    and head: "nxt q FakeHead = Some (hd (map Block ys @ n # R))"
    and path: "path (nxt q) (prv q) (map Block ys @ n # R)" and dist: "distinct (FakeHead # map Block ys @ n # R)" .
  let ?q = "q\<lparr>num_free_blocks := num_free_blocks q - int (length ys)\<rparr>"
  from path dist have "path (nxt ?q) (prv ?q) (map Block ys @ n # R)" "distinct (map Block ys @ n # R)" by simp_all
  from pop_loop_path [OF this, of "[]"] obtain q1 where
    loop: "pop_loop (length ys) (Some (hd (map Block ys @ n # R))) [] ?q = Inr (map Block ys, Some n, q1)"
    and links': "nxt q1 = (\<lambda>x. if x \<in> Block ` set ys then None else nxt ?q x)"
      "prv q1 = (\<lambda>x. if x \<in> Block ` set ys then None else prv ?q x)"
    and num: "num_free_blocks q1 = num_free_blocks q - int (length ys)" and same: "same_contents q q1"
    by auto
  note links = links' [unfolded nxt_num prv_num]
  define q' where "q' = set_prev n (Some FakeHead) (set_next FakeHead (Some n) q1)"
  have "popleft_n (int (length ys)) q = Inr (map Block ys, q')"
    using False assms loop head by (simp add: popleft_n_def q'_def queue_rep_def Let_def)
  moreover have "queue_rep q' zs"
  proof -
    have chain: "chain zs = FakeHead # n # R" unfolding chain_def R ..
    from path have "path (nxt q) (prv q) (n # R)"
      using path_append [of "nxt q" "prv q" "map Block ys" n R] by simp
    moreover have "path (nxt q') (prv q') (n # R) = path (nxt q) (prv q) (n # R)"
      by (rule path_cong) (use dist in \<open>auto simp: q'_def links dest!: in_set_butlastD split: if_splits\<close>)
    moreover have "n \<in> insert FakeTail (Block ` set zs)" using arg_cong [OF R, of set] by auto
    moreover have "nxt q' FakeTail = None" "num_free_blocks q' = int (length zs)" "distinct zs"
      using assms num by (auto simp: queue_rep_def q'_def links)
    moreover have "nxt q' (Block b) = None \<and> prv q' (Block b) = None" if "b \<notin> set zs" for b
      using assms that calculation(3) by (auto simp: queue_rep_def q'_def links)
    ultimately show ?thesis
      unfolding queue_rep_def chain by (simp add: q'_def)
  qed
  ultimately show ?thesis using same by (auto simp: q'_def)
qed

text \<open>Appending blocks that are not in the queue\<close>

lemma append_loop_path:
  assumes "path (nxt q) (prv q) (L @ [p])" and "distinct (L @ p # bs)"
  shows "\<exists>q'. append_loop bs p q = (last (p # bs), q') \<and> path (nxt q') (prv q') (L @ p # bs) \<and>
    (\<forall>x. x \<notin> set (butlast (p # bs)) \<longrightarrow> nxt q' x = nxt q x) \<and> (\<forall>x. x \<notin> set bs \<longrightarrow> prv q' x = prv q x) \<and>
    num_free_blocks q' = num_free_blocks q \<and> same_contents q q'"
  using assms
proof (induction bs arbitrary: p q L)
  case Nil
  then show ?case by simp
next
  case (Cons b bs)
  let ?q = "set_next p (Some b) (set_prev b (Some p) q)"
  have "path (nxt ?q) (prv ?q) (L @ [p]) = path (nxt q) (prv q) (L @ [p])"
  proof (rule path_cong)
    show "\<forall>x \<in> set (butlast (L @ [p])). nxt ?q x = nxt q x" using Cons.prems(2) by auto
    have "set (tl (L @ [p])) \<subseteq> set (L @ [p])" by (cases L) auto
    with Cons.prems(2) show "\<forall>x \<in> set (tl (L @ [p])). prv ?q x = prv q x" by auto
  qed
  with Cons.prems have "path (nxt ?q) (prv ?q) ((L @ [p]) @ [b])"
    using path_append [of "nxt ?q" "prv ?q" L p "[b]"] by auto
  from Cons.IH [OF this] Cons.prems(2) obtain q' where
    q': "append_loop bs b ?q = (last (b # bs), q')" "path (nxt q') (prv q') ((L @ [p]) @ b # bs)"
    "\<forall>x. x \<notin> set (butlast (b # bs)) \<longrightarrow> nxt q' x = nxt ?q x" "\<forall>x. x \<notin> set bs \<longrightarrow> prv q' x = prv ?q x"
    "num_free_blocks q' = num_free_blocks ?q" "same_contents ?q q'" by auto
  have "same_contents q q'"
    using q'(6) by (rule same_contents_trans [rotated]) simp
  with q' show ?case by auto
qed

lemma queue_rep_tail:
  assumes "queue_rep q xs"
  shows "path (nxt q) (prv q) (FakeHead # map Block xs)"
    and "prv q FakeTail = Some (last (FakeHead # map Block xs))"
proof -
  define L p where "L = butlast (FakeHead # map Block xs)" and "p = last (FakeHead # map Block xs)"
  have Lp: "FakeHead # map Block xs = L @ [p]" by (simp add: L_def p_def)
  then have "chain xs = L @ p # [FakeTail]" by (simp add: chain_def)
  with assms have "path (nxt q) (prv q) (L @ p # [FakeTail])" by (simp add: queue_rep_def)
  then show "path (nxt q) (prv q) (FakeHead # map Block xs)"
    and "prv q FakeTail = Some (last (FakeHead # map Block xs))"
    unfolding path_append [of _ _ L p "[FakeTail]"] Lp by auto
qed

lemma queue_append_n_correct:
  assumes "queue_rep q xs" and "distinct bs" and "set bs \<inter> set xs = {}"
  shows "\<exists>q'. queue_append_n (map Block bs) q = Inr q' \<and> queue_rep q' (xs @ bs) \<and> same_contents q q'"
proof (cases "bs = []")
  case True
  with assms show ?thesis by (simp add: queue_append_n_def)
next
  case False
  define L p where "L = butlast (FakeHead # map Block xs)" and "p = last (FakeHead # map Block xs)"
  have Lp: "FakeHead # map Block xs = L @ [p]" by (simp add: L_def p_def)
  note path = queue_rep_tail(1) [OF assms(1), unfolded Lp] and tail = queue_rep_tail(2) [OF assms(1), folded p_def]
  have dist: "distinct (L @ p # map Block bs)"
  proof -
    have "distinct (FakeHead # map Block (xs @ bs))"
      using assms by (auto simp: queue_rep_def distinct_map inj_on_def)
    moreover have "L @ p # map Block bs = FakeHead # map Block (xs @ bs)" using Lp by simp
    ultimately show ?thesis by (simp only:)
  qed
  from append_loop_path [OF path dist] obtain q1 where
    loop: "append_loop (map Block bs) p q = (last (map Block bs), q1)"
    and path1: "path (nxt q1) (prv q1) (L @ p # map Block bs)"
    and frame: "\<forall>x. x \<notin> set (butlast (p # map Block bs)) \<longrightarrow> nxt q1 x = nxt q x"
      "\<forall>x. x \<notin> set (map Block bs) \<longrightarrow> prv q1 x = prv q x"
    and num: "num_free_blocks q1 = num_free_blocks q" and same: "same_contents q q1"
    using False by auto
  let ?l = "last (map Block bs)"
  define q' where "q' = (set_prev FakeTail (Some ?l) (set_next ?l (Some FakeTail) q1))
    \<lparr>num_free_blocks := num_free_blocks q + int (length bs)\<rparr>"
  have "queue_append_n (map Block bs) q = Inr q'"
    using False tail loop num by (simp add: queue_append_n_def q'_def Let_def)
  moreover have "same_contents q q'" using same by (simp add: q'_def)
  moreover have "queue_rep q' (xs @ bs)"
  proof -
    define M where "M = L @ butlast (p # map Block bs)"
    have M: "L @ p # map Block bs = M @ [?l]" using False by (simp add: M_def)
    have M_nodes: "set M \<subseteq> insert FakeHead (Block ` set (xs @ bs))" "?l \<in> Block ` set bs"
    proof -
      have "set M \<subseteq> set (L @ p # map Block bs)" unfolding M by auto
      also have "\<dots> = insert FakeHead (Block ` set (xs @ bs))" using arg_cong [OF Lp, of set] by auto
      finally show "set M \<subseteq> insert FakeHead (Block ` set (xs @ bs))" .
      show "?l \<in> Block ` set bs" using False by (simp add: last_map)
    qed
    have chain: "chain (xs @ bs) = M @ ?l # [FakeTail]"
      unfolding chain_append Lp using M by simp
    have "path (nxt q') (prv q') (M @ [?l]) = path (nxt q1) (prv q1) (M @ [?l])"
    proof (rule path_cong)
      show "\<forall>x \<in> set (butlast (M @ [?l])). nxt q' x = nxt q1 x"
        using dist M by (auto simp: q'_def)
      have "set (tl (M @ [?l])) \<subseteq> set (M @ [?l])" by (cases M) auto
      with M_nodes show "\<forall>x \<in> set (tl (M @ [?l])). prv q' x = prv q1 x" by (auto simp: q'_def)
    qed
    with path1 M have "path (nxt q') (prv q') (M @ [?l])" by simp
    then have "path (nxt q') (prv q') (chain (xs @ bs))"
      unfolding chain path_append [of _ _ M ?l "[FakeTail]"] using M_nodes by (auto simp: q'_def)
    moreover have frame': "nxt q' x = nxt q x \<and> (x = FakeTail \<or> prv q' x = prv q x)"
      if "x \<notin> insert FakeHead (Block ` set (xs @ bs))" for x
    proof -
      have "x \<notin> set (butlast (p # map Block bs))" using that M_nodes by (auto simp: M_def)
      then show ?thesis using that M_nodes frame by (auto simp: q'_def)
    qed
    moreover have "nxt q' FakeTail = None" "num_free_blocks q' = int (length (xs @ bs))" "distinct (xs @ bs)"
      using assms frame' [of FakeTail] num by (auto simp: queue_rep_def q'_def image_iff)
    moreover have "nxt q' (Block b) = None \<and> prv q' (Block b) = None" if "b \<notin> set (xs @ bs)" for b
      using assms(1) that frame' [of "Block b"] by (auto simp: queue_rep_def)
    ultimately show ?thesis by (simp add: queue_rep_def)
  qed
  ultimately show ?thesis by blast
qed

lemma queue_append_as_n:
  assumes "queue_rep q xs"
  shows "queue_append (Block b) q = queue_append_n [Block b] q"
  by (simp add: queue_append_def queue_append_n_def Let_def queue_rep_tail(2) [OF assms]
    set_prev_set_next [of "Block b"])

text \<open>The constructor\<close>

definition link_fold :: "block_store \<Rightarrow> nat list \<Rightarrow> nat \<Rightarrow> FreeKVCacheBlockQueue" where
  "link_fold s bs k = fold (link_step bs) [0..<k] \<lparr>store = s, num_free_blocks = int (length bs)\<rparr>"

lemma link_fold_Suc: "link_fold s bs (Suc k) = link_step bs k (link_fold s bs k)"
  by (simp add: link_fold_def)

lemma link_fold_links:
  assumes "distinct bs" and "k \<le> length bs"
    and "\<forall>b. next_free_block (s (Block b)) = None \<and> prev_free_block (s (Block b)) = None"
  shows "(\<forall>i < length bs.
      nxt (link_fold s bs k) (Block (bs ! i)) = (if i < k \<and> Suc i < length bs then Some (Block (bs ! Suc i)) else None) \<and>
      prv (link_fold s bs k) (Block (bs ! i)) = (if i < k \<and> 0 < i then Some (Block (bs ! (i - 1))) else None)) \<and>
    (\<forall>b. b \<notin> set bs \<longrightarrow> nxt (link_fold s bs k) (Block b) = None \<and> prv (link_fold s bs k) (Block b) = None) \<and>
    num_free_blocks (link_fold s bs k) = int (length bs) \<and>
    same_contents \<lparr>store = s, num_free_blocks = int (length bs)\<rparr> (link_fold s bs k)"
  using assms(2)
proof (induction k)
  case 0
  then show ?case using assms(3) by (simp add: link_fold_def nxt_def prv_def)
next
  case (Suc k)
  then show ?case
    using assms(1) by (auto intro!: nth_mem simp: link_fold_Suc link_step_def Let_def nth_eq_iff_index_eq less_Suc_eq)
qed

lemma chain_nth: "i \<le> Suc (length xs) \<Longrightarrow>
  chain xs ! i = (if i = 0 then FakeHead else if i \<le> length xs then Block (xs ! (i - 1)) else FakeTail)"
  by (cases i) (auto simp: chain_def nth_append)

lemma new_queue_correct:
  assumes "distinct bs" and "\<forall>b. next_free_block (s (Block b)) = None \<and> prev_free_block (s (Block b)) = None"
  shows "queue_rep (new_queue s bs) bs \<and> (\<forall>b. contents (store (new_queue s bs) (Block b)) = contents (s (Block b)))"
proof -
  let ?q = "link_fold s bs (length bs)" and ?n = "length bs"
  note links = link_fold_links [OF assms(1) order_refl assms(2)]
  define q1 where "q1 = ?q\<lparr>store := (store ?q)(FakeHead := new_block (- 1), FakeTail := new_block (- 1))\<rparr>"
  have q1: "nxt q1 (Block b) = nxt ?q (Block b)" "prv q1 (Block b) = prv ?q (Block b)"
    "nxt q1 FakeHead = None" "nxt q1 FakeTail = None" "num_free_blocks q1 = int ?n" for b
    using links by (simp_all add: q1_def nxt_def prv_def new_block_def)
  define q' where "q' = new_queue s bs"
  have nxt': "nxt q' = (if bs = [] then (nxt q1)(FakeHead := Some FakeTail)
      else (nxt q1)(FakeHead := Some (Block (hd bs)), Block (last bs) := Some FakeTail))"
    and prv': "prv q' = (if bs = [] then (prv q1)(FakeTail := Some FakeHead)
      else (prv q1)(Block (hd bs) := Some FakeHead, FakeTail := Some (Block (last bs))))"
    and num': "num_free_blocks q' = int ?n"
    using q1(5) by (simp_all add: q'_def new_queue_def q1_def link_fold_def Let_def)
  have "path (nxt q') (prv q') (chain bs)"
    unfolding path_iff_nth
  proof (intro allI impI)
    fix i assume "Suc i < length (chain bs)"
    then have i: "i \<le> ?n" by (simp add: chain_def)
    have last: "last bs = bs ! (?n - 1)" and hd: "hd bs = bs ! 0" if "bs \<noteq> []"
      using that by (simp_all add: last_conv_nth hd_conv_nth)
    consider "bs = []" | "bs \<noteq> []" "i = 0" | "bs \<noteq> []" "i = ?n" | j where "i = Suc j" "Suc j < ?n"
      using i by (cases i) (auto simp: le_less)
    then show "nxt q' (chain bs ! i) = Some (chain bs ! Suc i) \<and> prv q' (chain bs ! Suc i) = Some (chain bs ! i)"
    proof cases
      case 4
      then have "bs \<noteq> []" by auto
      with 4 show ?thesis
        using links assms(1) by (simp add: chain_nth nxt' prv' q1 last hd nth_eq_iff_index_eq)
    qed (use i in \<open>simp_all add: chain_nth nxt' prv' last hd Suc_le_eq\<close>)
  qed
  moreover have "nxt q' (Block b) = None \<and> prv q' (Block b) = None" if "b \<notin> set bs" for b
  proof -
    from that have "bs \<noteq> [] \<longrightarrow> b \<noteq> last bs \<and> b \<noteq> hd bs" by (metis last_in_set hd_in_set)
    with links that show ?thesis by (cases "bs = []") (simp_all add: nxt' prv' q1)
  qed
  moreover have "nxt q' FakeTail = None" using q1 by (simp add: nxt')
  moreover have "contents (store q' (Block b)) = contents (s (Block b))" for b
    using links by (cases "bs = []") (simp_all add: q'_def new_queue_def Let_def same_contents_def flip: link_fold_def)
  ultimately show ?thesis
    using assms(1) num' by (simp add: queue_rep_def q'_def)
qed

text \<open>Walking the list\<close>

lemma free_walk_path:
  assumes "path (nxt q) (prv q) (map Block xs @ [FakeTail])" and "nxt q FakeTail = None"
  shows "free_walk q (hd (map Block xs @ [FakeTail])) ret = Some (ret @ map Block xs)"
  using assms(1)
proof (induction xs arbitrary: ret)
  case Nil
  show ?case using assms(2) by (simp add: free_walk.simps)
next
  case (Cons x xs)
  then have "nxt q (Block x) = Some (hd (map Block xs @ [FakeTail]))"
    and "path (nxt q) (prv q) (map Block xs @ [FakeTail])"
    by (cases xs; simp)+
  with Cons.IH [of "ret @ [Block x]"] show ?case by (simp add: free_walk.simps [of _ "Block x"])
qed

lemma get_all_free_blocks_correct:
  assumes "queue_rep q xs"
  shows "get_all_free_blocks q = Some (Inr (map Block xs))"
proof -
  from assms have "nxt q FakeHead = Some (hd (map Block xs @ [FakeTail]))"
    and "path (nxt q) (prv q) (map Block xs @ [FakeTail])"
    by (cases xs; simp add: queue_rep_def chain_def)+
  then show ?thesis
    using assms by (simp add: get_all_free_blocks_def free_walk_path queue_rep_def)
qed

lemma queue_rep_unique: "queue_rep q xs \<Longrightarrow> queue_rep q ys \<Longrightarrow> xs = ys"
  using get_all_free_blocks_correct [of q xs] get_all_free_blocks_correct [of q ys]
  by (auto simp: inj_map_eq_map inj_def)

section \<open>The interface of the queue\<close>

text \<open>
  What the block pool relies on: a queue of blocks with first-in first-out order, removal from
  the middle, and operations that leave the rest of the blocks alone. The laws speak about the
  list of block numbers a queue holds.
\<close>

locale free_block_list =
  fixes rep :: "'q \<Rightarrow> nat list \<Rightarrow> bool"
    and same :: "'q \<Rightarrow> 'q \<Rightarrow> bool"
    and pop_n :: "int \<Rightarrow> 'q \<Rightarrow> (block_ref list \<times> 'q) res"
    and del :: "block_ref \<Rightarrow> 'q \<Rightarrow> 'q res"
    and add_n :: "block_ref list \<Rightarrow> 'q \<Rightarrow> 'q res"
  assumes rep_distinct: "rep q xs \<Longrightarrow> distinct xs"
    and rep_fun: "rep q xs \<Longrightarrow> rep q ys \<Longrightarrow> xs = ys"
    and pop_law: "rep q (ys @ zs) \<Longrightarrow>
      \<exists>q'. pop_n (int (length ys)) q = Inr (map Block ys, q') \<and> rep q' zs \<and> same q q'"
    and del_law: "rep q (ys @ b # zs) \<Longrightarrow> \<exists>q'. del (Block b) q = Inr q' \<and> rep q' (ys @ zs) \<and> same q q'"
    and add_law: "rep q xs \<Longrightarrow> distinct bs \<Longrightarrow> set bs \<inter> set xs = {} \<Longrightarrow>
      \<exists>q'. add_n (map Block bs) q = Inr q' \<and> rep q' (xs @ bs) \<and> same q q'"
    and same_trans: "same q q' \<Longrightarrow> same q' q'' \<Longrightarrow> same q q''"
begin

lemma pop_first:
  assumes "rep q xs" and "n \<le> length xs"
  shows "\<exists>q'. pop_n (int n) q = Inr (map Block (take n xs), q') \<and> rep q' (drop n xs) \<and> same q q'"
  using pop_law [of q "take n xs" "drop n xs"] assms by (simp add: min_absorb2)

lemma del_member:
  assumes "rep q xs" and "b \<in> set xs"
  shows "\<exists>q'. del (Block b) q = Inr q' \<and> rep q' (remove1 b xs) \<and> same q q'"
proof -
  from split_list_first [OF assms(2)] obtain ys zs where "xs = ys @ b # zs" "b \<notin> set ys" by blast
  with del_law [of q ys b zs] assms(1) show ?thesis by (simp add: remove1_append)
qed

text \<open>Blocks taken and given back are reused last, in the order they were given back.\<close>

lemma recycle:
  assumes "rep q xs" and "n \<le> length xs" and "mset bs = mset (take n xs)"
  shows "\<exists>q1 q2. pop_n (int n) q = Inr (map Block (take n xs), q1) \<and>
    add_n (map Block bs) q1 = Inr q2 \<and> rep q2 (drop n xs @ bs) \<and> same q q2"
proof -
  from pop_first [OF assms(1,2)] obtain q1 where
    q1: "pop_n (int n) q = Inr (map Block (take n xs), q1)" "rep q1 (drop n xs)" "same q q1" by blast
  have "set bs = set (take n xs)" "distinct bs"
    using assms(3) rep_distinct [OF assms(1)]
    by (metis mset_eq_setD, metis distinct_take mset_eq_imp_distinct_iff)
  moreover have "set (take n xs) \<inter> set (drop n xs) = {}"
    using rep_distinct [OF assms(1)] by (simp add: set_take_disj_set_drop_if_distinct)
  ultimately obtain q2 where "add_n (map Block bs) q1 = Inr q2" "rep q2 (drop n xs @ bs)" "same q1 q2"
    using add_law [OF q1(2)] by blast
  with q1 same_trans show ?thesis by blast
qed

end

interpretation fq: free_block_list queue_rep same_contents popleft_n queue_remove queue_append_n
proof unfold_locales
  show "queue_rep q xs \<Longrightarrow> distinct xs" for q xs by (simp add: queue_rep_def)
  show "queue_rep q xs \<Longrightarrow> queue_rep q ys \<Longrightarrow> xs = ys" for q xs ys by (rule queue_rep_unique)
qed (rule popleft_n_correct queue_remove_member queue_append_n_correct same_contents_trans; assumption)+

section \<open>Theorems\<close>

text \<open>
  C24: The linked list of free blocks refines a list of block numbers. Built from distinct
  blocks it holds them in order; each operation on a queue that holds \<open>xs\<close> returns and leaves
  a queue that holds what the list operation gives: the first block or the first \<open>n\<close> blocks
  are taken, a block is removed from anywhere, blocks not in the queue are appended, and the
  walk over the links ends and returns exactly \<open>xs\<close>.
\<close>

theorem free_queue_refines_list:
  "(\<forall>s bs. distinct bs \<and> (\<forall>b. next_free_block (s (Block b)) = None \<and> prev_free_block (s (Block b)) = None) \<longrightarrow>
      queue_rep (new_queue s bs) bs) \<and>
   (\<forall>q xs. queue_rep q xs \<longrightarrow>
      get_all_free_blocks q = Some (Inr (map Block xs)) \<and>
      (case xs of [] \<Rightarrow> popleft q = Inl (ValueError ''No free blocks available'')
        | x # xs' \<Rightarrow> \<exists>q'. popleft q = Inr (Block x, q') \<and> queue_rep q' xs' \<and> same_contents q q') \<and>
      (\<forall>n \<le> length xs. \<exists>q'. popleft_n (int n) q = Inr (map Block (take n xs), q') \<and>
         queue_rep q' (drop n xs) \<and> same_contents q q') \<and>
      (\<forall>b. if b \<in> set xs
           then \<exists>q'. queue_remove (Block b) q = Inr q' \<and> queue_rep q' (remove1 b xs) \<and> same_contents q q'
           else queue_remove (Block b) q = Inl (RuntimeError ''remove() called on an invalid block'')) \<and>
      (\<forall>b. b \<notin> set xs \<longrightarrow> (\<exists>q'. queue_append (Block b) q = Inr q' \<and> queue_rep q' (xs @ [b]) \<and> same_contents q q')) \<and>
      (\<forall>bs. distinct bs \<and> set bs \<inter> set xs = {} \<longrightarrow>
         (\<exists>q'. queue_append_n (map Block bs) q = Inr q' \<and> queue_rep q' (xs @ bs) \<and> same_contents q q')))"
proof (intro conjI allI impI)
  fix q xs assume rep: "queue_rep q xs"
  show "get_all_free_blocks q = Some (Inr (map Block xs))" by (rule get_all_free_blocks_correct [OF rep])
  show "case xs of [] \<Rightarrow> popleft q = Inl (ValueError ''No free blocks available'')
      | x # xs' \<Rightarrow> \<exists>q'. popleft q = Inr (Block x, q') \<and> queue_rep q' xs' \<and> same_contents q q'"
    using rep popleft_empty popleft_cons by (cases xs) auto
  show "if b \<in> set xs
      then \<exists>q'. queue_remove (Block b) q = Inr q' \<and> queue_rep q' (remove1 b xs) \<and> same_contents q q'
      else queue_remove (Block b) q = Inl (RuntimeError ''remove() called on an invalid block'')" for b
    using fq.del_member [OF rep] queue_remove_other [OF rep] by simp
  show "\<exists>q'. queue_append (Block b) q = Inr q' \<and> queue_rep q' (xs @ [b]) \<and> same_contents q q'"
    if "b \<notin> set xs" for b
    using fq.add_law [OF rep, of "[b]"] that by (simp add: queue_append_as_n [OF rep])
qed (use new_queue_correct fq.pop_first fq.add_law in blast)+

definition sample_store :: block_store where
  "sample_store x = new_block (case x of Block b \<Rightarrow> int b | _ \<Rightarrow> - 1)"

theorem free_queue_refines_list_witness:
  "get_all_free_blocks (new_queue sample_store [0, 1, 2]) = Some (Inr [Block 0, Block 1, Block 2])"
proof -
  have "\<forall>b. next_free_block (sample_store (Block b)) = None \<and> prev_free_block (sample_store (Block b)) = None"
    by (simp add: sample_store_def new_block_def)
  then have "queue_rep (new_queue sample_store [0, 1, 2]) [0, 1, 2]"
    using free_queue_refines_list by force
  then show ?thesis using free_queue_refines_list by force
qed

end
