(* ===== verification/Block_Pool.thy ===== *)
theory Block_Pool
  imports Block_Hash Block_Queue "HOL-Library.AList"
begin

text \<open>
  The block pool of the KV cache (\<open>src/vllm/vllm/v1/core/block_pool.py\<close>): the index from block
  hashes to cached blocks, allocation, reference counting, caching and eviction of blocks, and
  the events the pool reports. The block objects are in the store of the free queue. The
  metrics collector only observes; the pool records the calls it makes to it.
\<close>

section \<open>The index of cached blocks\<close>

text \<open>A hash maps to one block or to a dict from block ids to blocks, in insertion order.\<close>

datatype cached_blocks = OneBlock block_ref | BlockDict "(int \<times> block_ref) list"

type_synonym BlockHashToBlockMap = "(bytes \<times> cached_blocks) list"

definition get_one_block :: "BlockHashToBlockMap \<Rightarrow> bytes \<Rightarrow> block_ref option res" where
  "get_one_block cache key =
     (case map_of cache key of
        None \<Rightarrow> Inr None
      | Some (OneBlock b) \<Rightarrow> Inr (Some b)
      | Some (BlockDict d) \<Rightarrow> (case d of [] \<Rightarrow> Inl StopIteration | (_, b) # _ \<Rightarrow> Inr (Some b)))"

text \<open>\<open>insert\<close>; the ids of the blocks are read from the objects.\<close>

definition map_insert :: "block_store \<Rightarrow> bytes \<Rightarrow> block_ref \<Rightarrow> BlockHashToBlockMap \<Rightarrow> BlockHashToBlockMap" where
  "map_insert s key b cache =
     (case map_of cache key of
        None \<Rightarrow> AList.update key (OneBlock b) cache
      | Some (OneBlock b') \<Rightarrow>
          AList.update key (BlockDict (AList.update (block_id (s b)) b [(block_id (s b'), b')])) cache
      | Some (BlockDict d) \<Rightarrow> AList.update key (BlockDict (AList.update (block_id (s b)) b d)) cache)"

definition map_pop ::
    "block_store \<Rightarrow> bytes \<Rightarrow> int \<Rightarrow> BlockHashToBlockMap \<Rightarrow> block_ref option \<times> BlockHashToBlockMap" where
  "map_pop s key bid cache =
     (let cache' = AList.delete key cache
      in case map_of cache key of
        None \<Rightarrow> (None, cache)
      | Some (OneBlock b) \<Rightarrow>
          if block_id (s b) = bid then (Some b, cache')
          else (None, AList.update key (OneBlock b) cache')
      | Some (BlockDict d) \<Rightarrow>
          let d' = AList.delete bid d
          in (map_of d bid, if d' \<noteq> [] then AList.update key (BlockDict d') cache' else cache'))"

definition map_len :: "BlockHashToBlockMap \<Rightarrow> nat" where
  "map_len cache = length cache"

section \<open>The pool\<close>

datatype KVCacheEvent =
    BlockStored "ExternalBlockHash list" "ExternalBlockHash option" "int list" nat "int option" string
      "string option" "extra_key list option list option"
  | BlockRemoved "ExternalBlockHash list" string
  | AllBlocksCleared

datatype metrics_call = OnAllocated block_ref | OnEvicted block_ref | OnAccessed block_ref | MetricsReset

record BlockPool =
  num_gpu_blocks :: int
  enable_caching :: bool
  hash_block_size :: nat
  blocks :: "block_ref list"
  free_block_queue :: FreeKVCacheBlockQueue
  cached_block_hash_to_block :: BlockHashToBlockMap
  null_block :: block_ref
  enable_kv_cache_events :: bool
  kv_event_queue :: "KVCacheEvent list"
  metrics_collector :: "metrics_call list option"

definition blk :: "BlockPool \<Rightarrow> block_ref \<Rightarrow> KVCacheBlock" where
  "blk p x = store (free_block_queue p) x"

definition update_blk :: "block_ref \<Rightarrow> (KVCacheBlock \<Rightarrow> KVCacheBlock) \<Rightarrow> BlockPool \<Rightarrow> BlockPool" where
  "update_blk x f p =
     p\<lparr>free_block_queue := (free_block_queue p)\<lparr>store := (store (free_block_queue p))(x := f (blk p x))\<rparr>\<rparr>"

definition add_ref :: "int \<Rightarrow> block_ref \<Rightarrow> BlockPool \<Rightarrow> BlockPool" where
  "add_ref k x = update_blk x (\<lambda>b. b\<lparr>ref_cnt := ref_cnt b + k\<rparr>)"

definition metric :: "metrics_call \<Rightarrow> BlockPool \<Rightarrow> BlockPool" where
  "metric c p = p\<lparr>metrics_collector := map_option (\<lambda>calls. calls @ [c]) (metrics_collector p)\<rparr>"

definition new_BlockPool :: "int \<Rightarrow> bool \<Rightarrow> nat \<Rightarrow> bool \<Rightarrow> bool \<Rightarrow> BlockPool res" where
  "new_BlockPool n caching hash_size events with_metrics =
     rbind (require (n > 0) (AssertionError [])) (\<lambda>_.
     let s = (\<lambda>x. new_block (case x of Block b \<Rightarrow> int b | _ \<Rightarrow> - 1));
         q = new_queue s [0..<nat n]
     in rbind (popleft q) (\<lambda>(null, q').
        Inr (update_blk null (\<lambda>b. b\<lparr>is_null := True\<rparr>)
          \<lparr>num_gpu_blocks = n, enable_caching = caching, hash_block_size = hash_size,
           blocks = map Block [0..<nat n], free_block_queue = q', cached_block_hash_to_block = [],
           null_block = null, enable_kv_cache_events = events, kv_event_queue = [],
           metrics_collector = (if with_metrics then Some [] else None)\<rparr>)))"

definition get_num_free_blocks :: "BlockPool \<Rightarrow> int" where
  "get_num_free_blocks p = num_free_blocks (free_block_queue p)"

fun get_cached_block :: "BlockPool \<Rightarrow> bytes \<Rightarrow> int list \<Rightarrow> block_ref list option res" where
  "get_cached_block p h [] = Inr (Some [])"
| "get_cached_block p h (g # gs) =
     rbind (make_block_hash_with_group_id h g) (\<lambda>key.
     rbind (get_one_block (cached_block_hash_to_block p) key) (\<lambda>found.
     case found of
       None \<Rightarrow> Inr None
     | Some b \<Rightarrow> rbind (get_cached_block p h gs) (\<lambda>rest. Inr (map_option (\<lambda>bs. b # bs) rest))))"

text \<open>One iteration of the loop of \<open>cache_full_blocks\<close>\<close>

definition cache_block ::
    "bool \<Rightarrow> bytes list \<Rightarrow> int \<Rightarrow> nat \<times> block_ref \<Rightarrow> BlockPool \<times> ExternalBlockHash list option \<Rightarrow>
     (BlockPool \<times> ExternalBlockHash list option) res" where
  "cache_block use_int new_block_hashes group_id = (\<lambda>(i, x) (p, new_hashes).
     if is_null (blk p x) then Inr (p, new_hashes)
     else rbind (require (block_hash (blk p x) = None) (AssertionError [])) (\<lambda>_.
       rbind (py_nth new_block_hashes (int i)) (\<lambda>h.
       rbind (make_block_hash_with_group_id h group_id) (\<lambda>key.
       rbind (set_block_hash key (blk p x)) (\<lambda>b'.
       let p1 = update_blk x (\<lambda>_. b') p;
           p2 = p1\<lparr>cached_block_hash_to_block :=
             map_insert (store (free_block_queue p1)) key x (cached_block_hash_to_block p1)\<rparr>
       in Inr (p2, map_option (\<lambda>hs. hs @ [maybe_convert_block_hash use_int h]) new_hashes))))))"

text \<open>The extra keys reported with the event, one entry per block that is not null\<close>

definition event_extra_keys ::
    "(bytes \<Rightarrow> bytes) \<Rightarrow> BlockPool \<Rightarrow> block_ref list \<Rightarrow> nat \<Rightarrow> nat list \<Rightarrow> Request \<Rightarrow>
     (extra_key list option list \<times> Request) res" where
  "event_extra_keys sha256 p bs block_size idxs r =
     rbind (fold_res (\<lambda>i (keys, mm_idx, r).
       rbind (py_nth bs (int i)) (\<lambda>x.
       if is_null (blk p x) then Inr (keys, mm_idx, r)
       else rbind (generate_block_hash_extra_keys sha256 r (i * block_size) (i * block_size + block_size) mm_idx)
         (\<lambda>(extra_keys, mm_idx', r'). Inr (keys @ [extra_keys], mm_idx', r'))))
       idxs ([], 0, r)) (\<lambda>(keys, _, r'). Inr (keys, r'))"

text \<open>The hashes of a request at the block size of a group: the slice from a block on, and one block\<close>

definition group_hashes_from :: "BlockPool \<Rightarrow> Request \<Rightarrow> nat \<Rightarrow> nat \<Rightarrow> bytes list res" where
  "group_hashes_from p r block_size start =
     (if block_size = hash_block_size p then Inr (drop start (block_hashes r))
      else if hash_block_size p = 0 then Inl ZeroDivisionError
      else rbind (require (block_size mod hash_block_size p = 0) (AssertionError [])) (\<lambda>_.
        rbind (new_BlockHashListWithBlockSize (block_hashes r) (int (hash_block_size p)) (int block_size)) (\<lambda>l.
        coarse_from l start)))"

definition group_hash_at :: "BlockPool \<Rightarrow> Request \<Rightarrow> nat \<Rightarrow> int \<Rightarrow> bytes res" where
  "group_hash_at p r block_size i =
     (if block_size = hash_block_size p then py_nth (block_hashes r) i
      else rbind (new_BlockHashListWithBlockSize (block_hashes r) (int (hash_block_size p)) (int block_size))
        (\<lambda>l. get_value_at l i))"

definition cache_full_blocks ::
    "(bytes \<Rightarrow> bytes) \<Rightarrow> bool \<Rightarrow> Request \<Rightarrow> block_ref list \<Rightarrow> nat \<Rightarrow> nat \<Rightarrow> nat \<Rightarrow> int \<Rightarrow> BlockPool \<Rightarrow>
     (BlockPool \<times> Request) res" where
  "cache_full_blocks sha256 use_int r bs num_cached num_full block_size group_id p =
     (if num_cached \<ge> num_full then Inr (p, r)
      else let new_full_blocks = py_slice bs num_cached num_full
      in rbind (require (length (block_hashes r) \<ge> num_full) (AssertionError [])) (\<lambda>_.
      rbind (group_hashes_from p r block_size num_cached) (\<lambda>new_block_hashes.
      rbind (fold_res (cache_block use_int new_block_hashes group_id) (List.enumerate 0 new_full_blocks)
        (p, if enable_kv_cache_events p then Some [] else None)) (\<lambda>(p1, new_hashes).
      if \<not> enable_kv_cache_events p1 then Inr (p1, r)
      else
        rbind (if num_cached = 0 then Inr None
               else rbind (group_hash_at p1 r block_size (int num_cached - 1))
                      (\<lambda>h. Inr (Some (maybe_convert_block_hash use_int h)))) (\<lambda>parent.
        rbind (event_extra_keys sha256 p1 bs block_size [num_cached..<num_full] r) (\<lambda>(extra_keys, r').
        Inr (p1\<lparr>kv_event_queue := kv_event_queue p1 @
               [BlockStored (the new_hashes) parent
                 (py_slice (all_token_ids r) (num_cached * block_size) (num_full * block_size))
                 block_size (map_option lora_int_id (lora_request r)) ''GPU'' (map_option lora_name (lora_request r))
                 (if extra_keys \<noteq> [] then Some extra_keys else None)]\<rparr>, r')))))))"

definition maybe_evict_cached_block :: "bool \<Rightarrow> block_ref \<Rightarrow> BlockPool \<Rightarrow> bool \<times> BlockPool" where
  "maybe_evict_cached_block use_int x p0 =
     (let p = metric (OnEvicted x) p0
      in case block_hash (blk p x) of
        None \<Rightarrow> (False, p)
      | Some key \<Rightarrow>
          let (found, cache') = map_pop (store (free_block_queue p)) key (block_id (blk p x)) (cached_block_hash_to_block p);
              p1 = p\<lparr>cached_block_hash_to_block := cache'\<rparr>
          in case found of
            None \<Rightarrow> (False, p1)
          | Some _ \<Rightarrow>
              let p2 = update_blk x reset_hash p1
              in (True, if enable_kv_cache_events p2
                    then p2\<lparr>kv_event_queue := kv_event_queue p2 @
                      [BlockRemoved [maybe_convert_block_hash use_int (get_block_hash key)] ''GPU'']\<rparr>
                    else p2))"

text \<open>One block of \<open>get_new_blocks\<close>\<close>

definition take_new_block :: "bool \<Rightarrow> block_ref \<Rightarrow> BlockPool \<Rightarrow> BlockPool res" where
  "take_new_block use_int x p =
     (let p1 = (if enable_caching p then snd (maybe_evict_cached_block use_int x p) else p)
      in rbind (require (ref_cnt (blk p1 x) = 0) (AssertionError [])) (\<lambda>_.
         Inr (metric (OnAllocated x) (add_ref 1 x p1))))"

definition get_new_blocks :: "bool \<Rightarrow> int \<Rightarrow> BlockPool \<Rightarrow> (block_ref list \<times> BlockPool) res" where
  "get_new_blocks use_int n p =
     rbind (require (n \<le> get_num_free_blocks p) (ValueError ''Cannot get free blocks from the pool'')) (\<lambda>_.
     rbind (popleft_n n (free_block_queue p)) (\<lambda>(ret, q).
     rbind (fold_res (take_new_block use_int) ret (p\<lparr>free_block_queue := q\<rparr>)) (\<lambda>p'.
     Inr (ret, p'))))"

definition touch_block :: "block_ref \<Rightarrow> BlockPool \<Rightarrow> BlockPool res" where
  "touch_block x p =
     rbind (if ref_cnt (blk p x) = 0 \<and> \<not> is_null (blk p x)
            then rbind (queue_remove x (free_block_queue p)) (\<lambda>q. Inr (p\<lparr>free_block_queue := q\<rparr>))
            else Inr p) (\<lambda>p1.
     Inr (metric (OnAccessed x) (add_ref 1 x p1)))"

definition touch :: "block_ref list \<Rightarrow> BlockPool \<Rightarrow> BlockPool res" where
  "touch bs p = fold_res touch_block bs p"

definition free_blocks :: "block_ref list \<Rightarrow> BlockPool \<Rightarrow> BlockPool res" where
  "free_blocks ordered_blocks p =
     (let p1 = fold (add_ref (- 1)) ordered_blocks p
      in rbind (queue_append_n
           (filter (\<lambda>x. ref_cnt (blk p1 x) = 0 \<and> \<not> is_null (blk p1 x)) ordered_blocks) (free_block_queue p1))
         (\<lambda>q. Inr (p1\<lparr>free_block_queue := q\<rparr>)))"

text \<open>The set of block ids, in the order the loop visits it; a negative id indexes from the end.\<close>

definition evict_blocks :: "bool \<Rightarrow> int list \<Rightarrow> BlockPool \<Rightarrow> BlockPool res" where
  "evict_blocks use_int block_ids p =
     fold_res (\<lambda>i p.
       rbind (require (i < int (length (blocks p))) (AssertionError ''Invalid block_id'')) (\<lambda>_.
       rbind (py_nth (blocks p) i) (\<lambda>x. Inr (snd (maybe_evict_cached_block use_int x p))))) block_ids p"

definition reset_prefix_cache :: "BlockPool \<Rightarrow> bool \<times> BlockPool" where
  "reset_prefix_cache p =
     (if num_gpu_blocks p - get_num_free_blocks p \<noteq> 1 then (False, p)
      else let p1 = p\<lparr>cached_block_hash_to_block := []\<rparr>;
               p2 = fold (\<lambda>x. update_blk x reset_hash) (blocks p1) p1;
               p3 = metric MetricsReset p2
           in (True, if enable_kv_cache_events p3
                 then p3\<lparr>kv_event_queue := kv_event_queue p3 @ [AllBlocksCleared]\<rparr> else p3))"

definition get_usage :: "BlockPool \<Rightarrow> rat" where
  "get_usage p =
     (let total_gpu_blocks = num_gpu_blocks p - 1
      in if total_gpu_blocks = 0 then 0
         else 1 - of_int (get_num_free_blocks p) / of_int total_gpu_blocks)"

definition take_events :: "BlockPool \<Rightarrow> KVCacheEvent list \<times> BlockPool" where
  "take_events p =
     (if \<not> enable_kv_cache_events p then ([], p) else (kv_event_queue p, p\<lparr>kv_event_queue := []\<rparr>))"

end
