(* ===== verification/Block_Hash_Correct.thy ===== *)
theory Block_Hash_Correct
  imports Block_Hash
begin

text \<open>
  What the block hashes of a request are: the incremental hashing computes, for every full
  block, the hash of its parent's hash, its tokens and the keys of exactly the media that
  overlap it; hence equal hashes mean equal prefixes when the hash function does not collide.
\<close>

section \<open>The reference\<close>

definition feature_start :: "MultiModalFeatureSpec \<Rightarrow> nat" where
  "feature_start f = pr_offset (mm_position f)"

definition feature_end :: "MultiModalFeatureSpec \<Rightarrow> nat" where
  "feature_end f = pr_offset (mm_position f) + pr_length (mm_position f)"

definition overlaps :: "nat \<Rightarrow> nat \<Rightarrow> MultiModalFeatureSpec \<Rightarrow> bool" where
  "overlaps s e f \<longleftrightarrow> feature_start f < e \<and> s < feature_end f"

definition mm_key :: "nat \<Rightarrow> MultiModalFeatureSpec \<Rightarrow> extra_key" where
  "mm_key s f = KeyPair (the (mm_identifier f)) (int (feature_start f) - int s)"

definition extra_keys_spec :: "(bytes \<Rightarrow> bytes) \<Rightarrow> Request \<Rightarrow> nat \<Rightarrow> nat \<Rightarrow> extra_key list option" where
  "extra_keys_spec sha256 r s e =
     (let keys = gen_lora_extra_hash_keys r
        @ map (mm_key s) (filter (overlaps s e) (mm_features r))
        @ (case cache_salt r of None \<Rightarrow> [] | Some salt \<Rightarrow> if s = 0 \<and> salt \<noteq> [] then [KeyStr salt] else [])
        @ (case prompt_embeds r of None \<Rightarrow> [] | Some rows \<Rightarrow> [KeyBytes (sha256 (concat (py_slice rows s e)))])
      in if keys = [] then None else Some keys)"

fun block_hash_spec :: "(bytes \<Rightarrow> bytes) \<Rightarrow> hash_fn \<Rightarrow> bytes \<Rightarrow> nat \<Rightarrow> Request \<Rightarrow> nat \<Rightarrow> bytes" where
  "block_hash_spec sha256 hf nh bs r i =
     hash_block_tokens hf nh (case i of 0 \<Rightarrow> None | Suc j \<Rightarrow> Some (block_hash_spec sha256 hf nh bs r j))
       (py_slice (all_token_ids r) (i * bs) (i * bs + bs)) (extra_keys_spec sha256 r (i * bs) (i * bs + bs))"

declare block_hash_spec.simps [simp del]

text \<open>Features with identifiers, in order and without overlap\<close>

definition features_ok :: "MultiModalFeatureSpec list \<Rightarrow> bool" where
  "features_ok fs \<longleftrightarrow> list_all (\<lambda>f. mm_identifier f \<noteq> None) fs \<and>
     sorted_wrt (\<lambda>f g. feature_end f \<le> feature_start g) fs"

definition memo_ok :: "(bytes \<Rightarrow> bytes) \<Rightarrow> Request \<Rightarrow> bool" where
  "memo_ok sha256 r \<longleftrightarrow>
     (\<forall>rows. prompt_embeds r = Some rows \<longrightarrow>
       (\<forall>((s, e), h) \<in> set (embeds_hashes r). h = sha256 (concat (py_slice rows s e))))"

text \<open>The features an index skips all end before the block starts.\<close>

definition idx_ok :: "MultiModalFeatureSpec list \<Rightarrow> nat \<Rightarrow> int \<Rightarrow> bool" where
  "idx_ok fs s idx \<longleftrightarrow>
     (if idx = - 1 then \<forall>f \<in> set (butlast fs). feature_end f \<le> s
      else 0 \<le> idx \<and> (\<forall>f \<in> set (take (nat idx) fs). feature_end f \<le> s))"

section \<open>The media keys\<close>

lemma feature_start_le_end: "feature_start f \<le> feature_end f"
  by (simp add: feature_start_def feature_end_def)

lemma features_ok_Cons:
  "features_ok (f # fs) \<longleftrightarrow> mm_identifier f \<noteq> None \<and> (\<forall>g \<in> set fs. feature_end f \<le> feature_start g) \<and> features_ok fs"
  by (auto simp: features_ok_def)

lemma features_ok_append: "features_ok (xs @ ys) \<longleftrightarrow> features_ok xs \<and> features_ok ys \<and>
  (\<forall>f \<in> set xs. \<forall>g \<in> set ys. feature_end f \<le> feature_start g)"
  by (auto simp: features_ok_def sorted_wrt_append)

lemma no_overlap_after:
  assumes "\<forall>g \<in> set fs. e \<le> feature_start g"
  shows "filter (overlaps s e) fs = []"
  using assms by (auto simp: filter_empty_conv overlaps_def)

lemma no_overlap_before:
  assumes "\<forall>g \<in> set fs. feature_end g \<le> s"
  shows "filter (overlaps s e) fs = []"
  using assms by (auto simp: filter_empty_conv overlaps_def)

lemma mm_keys_loop_correct:
  assumes "features_ok fs" and "s \<le> e"
  shows "\<exists>n. mm_keys_loop s e fs idx keys = Inr (keys @ map (mm_key s) (filter (overlaps s e) fs), idx + int n)
    \<and> (\<forall>f \<in> set (take n fs). feature_end f \<le> e)"
  using assms(1)
proof (induction fs arbitrary: idx keys)
  case Nil
  show ?case by (rule exI [of _ 0]) simp
next
  case (Cons f fs)
  from Cons.prems obtain i where i: "mm_identifier f = Some i"
    and after: "\<forall>g \<in> set fs. feature_end f \<le> feature_start g" and ok: "features_ok fs"
    by (auto simp: features_ok_Cons)
  note defs = feature_start_def feature_end_def overlaps_def [of s e f] mm_key_def [of s f] Let_def
  consider (before) "e \<le> feature_start f" | (past) "feature_start f < e" "feature_end f \<le> s"
    | (cut) "feature_start f < e" "s < feature_end f" "e < feature_end f"
    | (inside) "feature_start f < e" "s < feature_end f" "feature_end f \<le> e" by linarith
  then show ?case
  proof cases
    case before
    with after have "filter (overlaps s e) fs = []"
      by (intro no_overlap_after) (meson feature_start_le_end le_trans)
    with before show ?thesis
      by (intro exI [of _ 0]) (simp add: i defs)
  next
    case cut
    with after have "filter (overlaps s e) fs = []"
      by (intro no_overlap_after) (meson le_trans less_imp_le)
    with cut show ?thesis
      by (intro exI [of _ 0]) (simp add: i defs)
  next
    case past
    from Cons.IH [OF ok, of "idx + 1" keys] obtain n where
      n: "mm_keys_loop s e fs (idx + 1) keys = Inr (keys @ map (mm_key s) (filter (overlaps s e) fs), idx + 1 + int n)"
      "\<forall>f \<in> set (take n fs). feature_end f \<le> e" by blast
    from past n assms(2) show ?thesis
      by (intro exI [of _ "Suc n"]) (simp add: i defs)
  next
    case inside
    from Cons.IH [OF ok, of "idx + 1" "keys @ [mm_key s f]"] obtain n where
      n: "mm_keys_loop s e fs (idx + 1) (keys @ [mm_key s f]) =
        Inr ((keys @ [mm_key s f]) @ map (mm_key s) (filter (overlaps s e) fs), idx + 1 + int n)"
      "\<forall>f \<in> set (take n fs). feature_end f \<le> e" by blast
    from inside n show ?thesis
      by (intro exI [of _ "Suc n"]) (simp add: i defs)
  qed
qed

lemma idx_ok_mono: "idx_ok fs s idx \<Longrightarrow> s \<le> e \<Longrightarrow> idx_ok fs e idx"
  by (auto simp: idx_ok_def split: if_splits)

lemma features_end_le_last:
  assumes "features_ok fs" and "f \<in> set fs"
  shows "feature_end f \<le> feature_end (last fs)"
proof -
  from assms have "fs \<noteq> []" by auto
  then have fs: "fs = butlast fs @ [last fs]" by simp
  from assms(2) fs consider "f \<in> set (butlast fs)" | "f = last fs"
    by (metis append_butlast_last_id in_set_butlastD list.set_intros(1) rotate1.simps(2) set_ConsD set_rotate1)
  then show ?thesis
  proof cases
    case 1
    with assms(1) have "feature_end f \<le> feature_start (last fs)"
      by (metis features_ok_append fs list.set_intros(1))
    then show ?thesis using feature_start_le_end le_trans by blast
  qed simp
qed

lemma mm_keys_from:
  assumes "features_ok fs" and "s \<le> e" and "\<forall>f \<in> set (take k fs). feature_end f \<le> s"
  shows "\<exists>idx'. mm_keys_loop s e (drop k fs) (int k) [] =
      Inr (map (mm_key s) (filter (overlaps s e) fs), idx') \<and> idx_ok fs e idx'"
proof -
  from assms(1) have "features_ok (drop k fs)"
    by (metis append_take_drop_id features_ok_append)
  from mm_keys_loop_correct [OF this assms(2), of "int k" "[]"] obtain n where
    n: "mm_keys_loop s e (drop k fs) (int k) [] =
      Inr (map (mm_key s) (filter (overlaps s e) (drop k fs)), int (k + n))"
    "\<forall>f \<in> set (take n (drop k fs)). feature_end f \<le> e" by auto
  have "filter (overlaps s e) fs = filter (overlaps s e) (take k fs) @ filter (overlaps s e) (drop k fs)"
    by (metis append_take_drop_id filter_append)
  with no_overlap_before [OF assms(3)] have eq: "filter (overlaps s e) (drop k fs) = filter (overlaps s e) fs"
    by simp
  have "idx_ok fs e (int (k + n))"
    using n(2) assms(2,3) by (auto simp: idx_ok_def take_add simp flip: of_nat_add)
  with n(1) eq show ?thesis by auto
qed

lemma gen_mm_keys_correct:
  assumes "features_ok (mm_features r)" and "s \<le> e" and "idx_ok (mm_features r) s idx"
  shows "\<exists>idx'. gen_mm_extra_hash_keys r s e idx =
      Inr (map (mm_key s) (filter (overlaps s e) (mm_features r)), idx') \<and> idx_ok (mm_features r) e idx'"
proof -
  let ?fs = "mm_features r"
  consider (empty) "?fs = []" | (over) "?fs \<noteq> []" "feature_end (last ?fs) \<le> s"
    | (end_idx) "?fs \<noteq> []" "s < feature_end (last ?fs)" "idx = - 1"
    | (forward) "?fs \<noteq> []" "s < feature_end (last ?fs)" "idx \<noteq> - 1" by linarith
  then show ?thesis
  proof cases
    case empty
    with assms show ?thesis
      by (auto simp: gen_mm_extra_hash_keys_def idx_ok_def)
  next
    case over
    then have "\<forall>f \<in> set ?fs. feature_end f \<le> s"
      using features_end_le_last [OF assms(1)] le_trans by blast
    from no_overlap_before [OF this] over show ?thesis
      using idx_ok_mono [OF assms(3,2)]
      by (simp add: gen_mm_extra_hash_keys_def Let_def feature_end_def)
  next
    case end_idx
    let ?k = "length ?fs - 1"
    from end_idx have k: "int (length ?fs) + idx = int ?k" "- idx \<le> int (length ?fs)"
      by (simp_all add: of_nat_diff Suc_leI)
    have "\<forall>f \<in> set (take ?k ?fs). feature_end f \<le> s"
      using assms(3) end_idx by (simp add: idx_ok_def butlast_conv_take)
    note loop = mm_keys_from [OF assms(1,2) this]
    have "nat (int (length ?fs) - 1) = length ?fs - Suc 0" by linarith
    with loop k end_idx show ?thesis
      by (simp add: gen_mm_extra_hash_keys_def Let_def feature_end_def)
  next
    case forward
    with assms(3) have idx: "0 \<le> idx" "\<forall>f \<in> set (take (nat idx) ?fs). feature_end f \<le> s"
      by (simp_all add: idx_ok_def)
    from mm_keys_from [OF assms(1,2) idx(2)] idx(1) forward show ?thesis
      by (simp add: gen_mm_extra_hash_keys_def Let_def feature_end_def)
  qed
qed

section \<open>The hashes of a request\<close>

lemma generate_keys_correct:
  assumes "features_ok (mm_features r)" and "s \<le> e" and "idx_ok (mm_features r) s idx" and "memo_ok sha256 r"
  shows "\<exists>idx' m. generate_block_hash_extra_keys sha256 r s e idx =
      Inr (extra_keys_spec sha256 r s e, idx', r\<lparr>embeds_hashes := m\<rparr>) \<and>
      idx_ok (mm_features r) e idx' \<and> memo_ok sha256 (r\<lparr>embeds_hashes := m\<rparr>)"
proof -
  from gen_mm_keys_correct [OF assms(1-3)] obtain idx' where
    mm: "gen_mm_extra_hash_keys r s e idx = Inr (map (mm_key s) (filter (overlaps s e) (mm_features r)), idx')"
    and idx': "idx_ok (mm_features r) e idx'" by blast
  define embeds where "embeds = (case prompt_embeds r of None \<Rightarrow> [] |
    Some rows \<Rightarrow> [KeyBytes (sha256 (concat (py_slice rows s e)))])"
  have "\<exists>m. gen_prompt_embeds_extra_hash_keys sha256 r s e = (embeds, r\<lparr>embeds_hashes := m\<rparr>) \<and>
      memo_ok sha256 (r\<lparr>embeds_hashes := m\<rparr>)"
  proof (cases "prompt_embeds r")
    case None
    with assms(4) show ?thesis
      by (intro exI [of _ "embeds_hashes r"]) (simp add: embeds_def gen_prompt_embeds_extra_hash_keys_def)
  next
    case (Some rows)
    show ?thesis
    proof (cases "map_of (embeds_hashes r) (s, e)")
      case None
      with Some assms(4) show ?thesis
        by (intro exI [of _ "((s, e), sha256 (concat (py_slice rows s e))) # embeds_hashes r"])
          (simp add: embeds_def gen_prompt_embeds_extra_hash_keys_def Let_def memo_ok_def)
    next
      case memo: (Some h)
      then have "((s, e), h) \<in> set (embeds_hashes r)" by (rule map_of_SomeD)
      with Some assms(4) have "h = sha256 (concat (py_slice rows s e))"
        unfolding memo_ok_def by fast
      with Some memo assms(4) show ?thesis
        by (intro exI [of _ "embeds_hashes r"]) (simp add: embeds_def gen_prompt_embeds_extra_hash_keys_def)
    qed
  qed
  then obtain m where m: "gen_prompt_embeds_extra_hash_keys sha256 r s e = (embeds, r\<lparr>embeds_hashes := m\<rparr>)"
    "memo_ok sha256 (r\<lparr>embeds_hashes := m\<rparr>)" by blast
  then show ?thesis
    using idx' by (intro exI [of _ idx'] exI [of _ m])
      (simp add: generate_block_hash_extra_keys_def mm extra_keys_spec_def Let_def embeds_def)
qed

lemma extra_keys_spec_memo [simp]: "extra_keys_spec sha256 (r\<lparr>embeds_hashes := m\<rparr>) s e = extra_keys_spec sha256 r s e"
  by (simp add: extra_keys_spec_def gen_lora_extra_hash_keys_def)

lemma block_hash_spec_cong_upto:
  assumes "\<And>j. j \<le> i \<Longrightarrow> py_slice (all_token_ids r) (j * bs) (j * bs + bs) = py_slice (all_token_ids r') (j * bs) (j * bs + bs)"
    and "\<And>j. j \<le> i \<Longrightarrow> extra_keys_spec sha256 r (j * bs) (j * bs + bs) = extra_keys_spec sha256 r' (j * bs) (j * bs + bs)"
  shows "block_hash_spec sha256 hf nh bs r i = block_hash_spec sha256 hf nh bs r' i"
  using assms
proof (induction i)
  case 0
  from 0 [of 0] show ?case by (simp add: block_hash_spec.simps [of _ _ _ _ _ 0])
next
  case (Suc i)
  then have "block_hash_spec sha256 hf nh bs r i = block_hash_spec sha256 hf nh bs r' i" by simp
  with Suc.prems [of "Suc i"] show ?case
    by (simp add: block_hash_spec.simps [of _ _ _ _ _ "Suc i"])
qed

lemma block_hash_spec_cong:
  assumes "\<And>j. j \<le> i \<Longrightarrow> py_slice (all_token_ids r) (j * bs) (j * bs + bs) = py_slice (all_token_ids r') (j * bs) (j * bs + bs)"
    and "\<And>s e. extra_keys_spec sha256 r s e = extra_keys_spec sha256 r' s e"
  shows "block_hash_spec sha256 hf nh bs r i = block_hash_spec sha256 hf nh bs r' i"
  using assms by (intro block_hash_spec_cong_upto)

lemma block_hash_spec_memo [simp]:
  "block_hash_spec sha256 hf nh bs (r\<lparr>embeds_hashes := m\<rparr>) i = block_hash_spec sha256 hf nh bs r i"
  by (rule block_hash_spec_cong) simp_all

lemma num_tokens_memo [simp]: "num_tokens (r\<lparr>embeds_hashes := m\<rparr>) = num_tokens r"
  by (simp add: num_tokens_def)

lemma hasher_loop_correct:
  assumes "0 < bs" and "features_ok (mm_features r)" and "idx_ok (mm_features r) (k * bs) idx"
    and "memo_ok sha256 r" and "k \<le> num_tokens r div bs"
    and "prev = (case k of 0 \<Rightarrow> None | Suc j \<Rightarrow> Some (block_hash_spec sha256 hf nh bs r j))"
  shows "\<exists>m. hasher_loop sha256 hf nh bs r (k * bs) idx prev acc =
      Some (Inr (acc @ map (block_hash_spec sha256 hf nh bs r) [k..<num_tokens r div bs], r\<lparr>embeds_hashes := m\<rparr>))
      \<and> memo_ok sha256 (r\<lparr>embeds_hashes := m\<rparr>)"
  using assms(2-)
proof (induction "num_tokens r div bs - k" arbitrary: k idx r prev acc)
  case 0
  then have "k = num_tokens r div bs" by simp
  then have "num_tokens r < k * bs + bs"
    using assms(1) by (metis dividend_less_div_times add.commute)
  then show ?case
    using 0 by (intro exI [of _ "embeds_hashes r"]) (simp add: hasher_loop.simps)
next
  case (Suc d)
  then have left: "d = num_tokens r div bs - Suc k" "Suc k \<le> num_tokens r div bs" by linarith+
  then have room: "\<not> k * bs + bs > num_tokens r"
    using assms(1) by (simp add: less_eq_div_iff_mult_less_eq)
  from generate_keys_correct [OF Suc.prems(1) _ Suc.prems(2,3), of "k * bs + bs"] obtain idx' m where
    gen: "generate_block_hash_extra_keys sha256 r (k * bs) (k * bs + bs) idx =
      Inr (extra_keys_spec sha256 r (k * bs) (k * bs + bs), idx', r\<lparr>embeds_hashes := m\<rparr>)"
    and idx': "idx_ok (mm_features r) (Suc k * bs) idx'" and memo: "memo_ok sha256 (r\<lparr>embeds_hashes := m\<rparr>)"
    by (auto simp: add.commute)
  let ?r = "r\<lparr>embeds_hashes := m\<rparr>" and ?h = "block_hash_spec sha256 hf nh bs r k"
  have h: "hash_block_tokens hf nh prev (py_slice (all_token_ids r) (k * bs) (k * bs + bs))
      (extra_keys_spec sha256 r (k * bs) (k * bs + bs)) = ?h"
    by (simp add: block_hash_spec.simps [of _ _ _ _ _ k] Suc.prems(5))
  from Suc.hyps(1) [of ?r "Suc k" idx' "Some ?h" "acc @ [?h]"] obtain m' where
    "hasher_loop sha256 hf nh bs ?r (Suc k * bs) idx' (Some ?h) (acc @ [?h]) =
      Some (Inr ((acc @ [?h]) @ map (block_hash_spec sha256 hf nh bs ?r) [Suc k..<num_tokens r div bs], ?r\<lparr>embeds_hashes := m'\<rparr>))"
    "memo_ok sha256 (r\<lparr>embeds_hashes := m'\<rparr>)"
    using Suc.prems(1) idx' memo left by auto
  with room gen h Suc.hyps(2) show ?case
    by (intro exI [of _ m']) (simp add: hasher_loop.simps [of _ _ _ _ r] add.commute upt_conv_Cons)
qed

text \<open>The invariant of a request: its hashes are the reference hashes of its first full blocks.\<close>

definition hashes_ok :: "(bytes \<Rightarrow> bytes) \<Rightarrow> hash_fn \<Rightarrow> bytes \<Rightarrow> nat \<Rightarrow> Request \<Rightarrow> bool" where
  "hashes_ok sha256 hf nh bs r \<longleftrightarrow>
     block_hashes r = map (block_hash_spec sha256 hf nh bs r) [0..<length (block_hashes r)]
     \<and> length (block_hashes r) \<le> num_tokens r div bs \<and> features_ok (mm_features r) \<and> memo_ok sha256 r"

definition only_last_feature_open :: "nat \<Rightarrow> Request \<Rightarrow> bool" where
  "only_last_feature_open bs r \<longleftrightarrow>
     (block_hashes r \<noteq> [] \<longrightarrow>
       (\<forall>f \<in> set (butlast (mm_features r)). feature_end f \<le> length (block_hashes r) * bs))"

lemma update_block_hashes_correct:
  assumes "0 < bs" and "hashes_ok sha256 hf nh bs r" and "only_last_feature_open bs r"
  shows "\<exists>m. update_block_hashes sha256 hf nh bs r =
    Some (Inr (r\<lparr>embeds_hashes := m,
      block_hashes := map (block_hash_spec sha256 hf nh bs r) [0..<num_tokens r div bs]\<rparr>)) \<and>
    memo_ok sha256 (r\<lparr>embeds_hashes := m\<rparr>)"
proof -
  let ?k = "length (block_hashes r)" and ?n = "num_tokens r div bs" and ?spec = "block_hash_spec sha256 hf nh bs r"
  from assms(2) have hs: "block_hashes r = map ?spec [0..<?k]" and k: "?k \<le> ?n"
    and fs: "features_ok (mm_features r)" and memo: "memo_ok sha256 r"
    by (simp_all add: hashes_ok_def)
  from k have upt: "[0..<?n] = [0..<?k] @ [?k..<?n]"
    using upt_add_eq_append [of 0 ?k "?n - ?k"] by simp
  show ?thesis
  proof (cases "?k * bs + bs > num_tokens r")
    case True
    then have "?n < Suc ?k"
      using assms(1) by (simp add: less_mult_imp_div_less add.commute)
    with k have n: "?k = ?n" by simp
    have "update_block_hashes sha256 hf nh bs r = Some (Inr r)"
      using True by (simp add: update_block_hashes_def request_block_hasher_def Let_def)
    then show ?thesis
      using hs memo n by (intro exI [of _ "embeds_hashes r"]) simp
  next
    case False
    let ?idx = "if ?k * bs > 0 then - 1 else (0 :: int)"
    let ?prev = "if block_hashes r = [] then None else Some (last (block_hashes r))"
    have idx: "idx_ok (mm_features r) (?k * bs) ?idx"
      using assms(1,3) by (auto simp: idx_ok_def only_last_feature_open_def)
    have prev: "?prev = (case ?k of 0 \<Rightarrow> None | Suc j \<Rightarrow> Some (?spec j))"
      by (subst hs, subst hs) (simp add: last_map split: nat.split)
    from hasher_loop_correct [OF assms(1) fs idx memo k prev, of "[]"] obtain m where
      m: "hasher_loop sha256 hf nh bs r (?k * bs) ?idx ?prev [] =
        Some (Inr (map ?spec [?k..<?n], r\<lparr>embeds_hashes := m\<rparr>))"
      "memo_ok sha256 (r\<lparr>embeds_hashes := m\<rparr>)" by auto
    have "update_block_hashes sha256 hf nh bs r =
        Some (Inr (r\<lparr>embeds_hashes := m, block_hashes := block_hashes r @ map ?spec [?k..<?n]\<rparr>))"
      using False m(1) by (simp add: update_block_hashes_def request_block_hasher_def Let_def)
    moreover have "block_hashes r @ map ?spec [?k..<?n] = map ?spec [0..<?n]"
      by (subst hs) (simp only: upt map_append)
    ultimately show ?thesis using m(2) by auto
  qed
qed

lemma block_hash_spec_more:
  assumes "Suc i * bs \<le> num_tokens r" and "all_token_ids r' = all_token_ids r @ toks"
    and "\<And>s e. extra_keys_spec sha256 r s e = extra_keys_spec sha256 r' s e"
  shows "block_hash_spec sha256 hf nh bs r i = block_hash_spec sha256 hf nh bs r' i"
proof (rule block_hash_spec_cong)
  fix j assume "j \<le> i"
  then have "Suc j * bs \<le> Suc i * bs" by (intro mult_le_mono1) simp
  also note assms(1)
  finally have "j * bs + bs \<le> length (all_token_ids r)" by (simp add: num_tokens_def add.commute)
  then show "py_slice (all_token_ids r) (j * bs) (j * bs + bs) = py_slice (all_token_ids r') (j * bs) (j * bs + bs)"
    by (simp add: assms(2) py_slice_def)
qed (rule assms(3))

lemma hashes_ok_extend:
  assumes "0 < bs" and "hashes_ok sha256 hf nh bs r"
  shows "hashes_ok sha256 hf nh bs
    (r\<lparr>output_token_ids := out, all_token_ids := all_token_ids r @ toks\<rparr>)" (is "hashes_ok _ _ _ _ ?r")
proof -
  have extra: "extra_keys_spec sha256 r s e = extra_keys_spec sha256 ?r s e" for s e
    by (simp add: extra_keys_spec_def gen_lora_extra_hash_keys_def)
  have le: "num_tokens r \<le> num_tokens ?r" by (simp add: num_tokens_def)
  have "map (block_hash_spec sha256 hf nh bs r) [0..<length (block_hashes r)] =
      map (block_hash_spec sha256 hf nh bs ?r) [0..<length (block_hashes r)]"
  proof (rule map_cong [OF refl])
    fix i assume "i \<in> set [0..<length (block_hashes r)]"
    with assms(2) have "Suc i \<le> num_tokens r div bs" by (simp add: hashes_ok_def)
    with assms(1) have "Suc i * bs \<le> num_tokens r" by (simp add: less_eq_div_iff_mult_less_eq)
    then show "block_hash_spec sha256 hf nh bs r i = block_hash_spec sha256 hf nh bs ?r i"
      by (rule block_hash_spec_more) (simp_all add: extra)
  qed
  with assms(2) div_le_mono [OF le, of bs] show ?thesis
    by (auto simp: hashes_ok_def memo_ok_def)
qed

section \<open>Theorems\<close>

text \<open>
  C25: Appending tokens to a request whose hashes are right returns a request whose hashes are
  right: the hash of every full block, and of no other, over its parent's hash, its tokens and
  the keys of exactly the media that overlap it. The loop ends. The hypothesis on the media is
  what the code assumes of a request that already has hashes: only its last media item
  reaches into the blocks not yet hashed.
\<close>

theorem append_output_token_ids_correct:
  assumes "0 < bs" and "hashes_ok sha256 hf nh bs r" and "only_last_feature_open bs r"
  shows "\<exists>r'. append_output_token_ids sha256 hf nh bs toks r = Some (Inr r') \<and>
    all_token_ids r' = all_token_ids r @ toks \<and>
    block_hashes r' = map (block_hash_spec sha256 hf nh bs r') [0..<num_tokens r' div bs] \<and>
    hashes_ok sha256 hf nh bs r' \<and> (block_hashes r \<noteq> [] \<longrightarrow> only_last_feature_open bs r')"
proof -
  let ?r = "r\<lparr>output_token_ids := output_token_ids r @ toks, all_token_ids := all_token_ids r @ toks\<rparr>"
  have media: "only_last_feature_open bs ?r" using assms(3) by (simp add: only_last_feature_open_def)
  have ok: "hashes_ok sha256 hf nh bs ?r" by (rule hashes_ok_extend [OF assms(1,2)])
  from update_block_hashes_correct [OF assms(1) ok media] obtain m where
    m: "append_output_token_ids sha256 hf nh bs toks r = Some (Inr (?r\<lparr>embeds_hashes := m,
      block_hashes := map (block_hash_spec sha256 hf nh bs ?r) [0..<num_tokens ?r div bs]\<rparr>))"
    "memo_ok sha256 (?r\<lparr>embeds_hashes := m\<rparr>)" by (auto simp: append_output_token_ids_def)
  define r' where "r' = ?r\<lparr>embeds_hashes := m,
      block_hashes := map (block_hash_spec sha256 hf nh bs ?r) [0..<num_tokens ?r div bs]\<rparr>"
  have spec: "block_hash_spec sha256 hf nh bs r' i = block_hash_spec sha256 hf nh bs ?r i" for i
    by (rule block_hash_spec_cong) (simp_all add: r'_def extra_keys_spec_def gen_lora_extra_hash_keys_def)
  have more: "length (block_hashes r) * bs \<le> num_tokens ?r div bs * bs"
    using ok by (simp add: hashes_ok_def num_tokens_def)
  have "hashes_ok sha256 hf nh bs r'"
    using ok m(2) spec by (simp add: hashes_ok_def r'_def num_tokens_def memo_ok_def)
  moreover have "only_last_feature_open bs r'" if "block_hashes r \<noteq> []"
  proof -
    have "feature_end f \<le> num_tokens ?r div bs * bs" if "f \<in> set (butlast (mm_features r))" for f
      using assms(3) that \<open>block_hashes r \<noteq> []\<close> more le_trans unfolding only_last_feature_open_def by blast
    then show ?thesis by (simp add: only_last_feature_open_def r'_def)
  qed
  ultimately show ?thesis
    using m(1) spec by (intro exI [of _ r']) (simp add: r'_def num_tokens_def)
qed


definition sample_request :: "Request" where
  "sample_request = \<lparr>py_id = 0, request_id = ''r'', priority = 0, arrival_time = 0, status = RUNNING,
     mm_features = [\<lparr>mm_identifier = Some ''a'', mm_position = \<lparr>pr_offset = 1, pr_length = 2, is_embed = None\<rparr>\<rparr>],
     lora_request = None, cache_salt = Some ''s'', prompt_embeds = None, embeds_hashes = [],
     output_token_ids = [], all_token_ids = [5, 9, 9], block_hashes = [], num_computed_tokens = 0,
     num_preemptions = 0, skip_reading_prefix_cache = False\<rparr>"

lemma sample_request_ok: "hashes_ok sha256 hf nh 2 sample_request \<and> only_last_feature_open 2 sample_request"
  by (simp add: sample_request_def hashes_ok_def only_last_feature_open_def features_ok_def memo_ok_def)

theorem append_output_token_ids_correct_witness:
  "\<exists>r'. append_output_token_ids id (\<lambda>(p, ts, ks). 1 # p) [0] 2 [6] sample_request = Some (Inr r') \<and>
    length (block_hashes r') = 2"
  using append_output_token_ids_correct [of 2 id "\<lambda>(p, ts, ks). 1 # p" "[0]" sample_request "[6]"]
    sample_request_ok [of id "\<lambda>(p, ts, ks). 1 # p" "[0]"]
  by (auto simp: num_tokens_def sample_request_def)

text \<open>The hash a block is chained to\<close>

definition parent_hash :: "(bytes \<Rightarrow> bytes) \<Rightarrow> hash_fn \<Rightarrow> bytes \<Rightarrow> nat \<Rightarrow> Request \<Rightarrow> nat \<Rightarrow> bytes" where
  "parent_hash sha256 hf nh bs r i = (case i of 0 \<Rightarrow> nh | Suc j \<Rightarrow> block_hash_spec sha256 hf nh bs r j)"

lemma block_hash_spec_chain:
  assumes "[] \<notin> range hf"
  shows "block_hash_spec sha256 hf nh bs r i = hf (parent_hash sha256 hf nh bs r i,
    py_slice (all_token_ids r) (i * bs) (i * bs + bs), extra_keys_spec sha256 r (i * bs) (i * bs + bs))"
proof (cases i)
  case 0
  then show ?thesis
    by (simp add: block_hash_spec.simps [of _ _ _ _ _ 0] hash_block_tokens_def parent_hash_def)
next
  case (Suc j)
  have "block_hash_spec sha256 hf nh bs r j \<in> range hf"
    by (subst block_hash_spec.simps) (simp add: hash_block_tokens_def Let_def)
  with assms have "block_hash_spec sha256 hf nh bs r j \<noteq> []" by auto
  with Suc show ?thesis
    by (simp add: block_hash_spec.simps [of _ _ _ _ _ "Suc j"] hash_block_tokens_def parent_hash_def)
qed

lemma block_hash_spec_inject:
  assumes "inj hf" and "nh \<notin> range hf" and "[] \<notin> range hf"
    and "block_hash_spec sha256 hf nh bs r i = block_hash_spec sha256' hf nh bs r' j"
  shows "i = j \<and> (\<forall>k \<le> i.
    py_slice (all_token_ids r) (k * bs) (k * bs + bs) = py_slice (all_token_ids r') (k * bs) (k * bs + bs) \<and>
    extra_keys_spec sha256 r (k * bs) (k * bs + bs) = extra_keys_spec sha256' r' (k * bs) (k * bs + bs))"
  using assms(4)
proof (induction i arbitrary: j)
  have not_seed: "block_hash_spec sha hf nh bs q n \<noteq> nh" for sha q n
    unfolding block_hash_spec_chain [OF assms(3)] using assms(2) by (metis rangeI)
  have parts: "parent_hash sha256 hf nh bs r n = parent_hash sha256' hf nh bs r' k \<and>
      py_slice (all_token_ids r) (n * bs) (n * bs + bs) = py_slice (all_token_ids r') (k * bs) (k * bs + bs) \<and>
      extra_keys_spec sha256 r (n * bs) (n * bs + bs) = extra_keys_spec sha256' r' (k * bs) (k * bs + bs)"
    if "block_hash_spec sha256 hf nh bs r n = block_hash_spec sha256' hf nh bs r' k" for n k
    using injD [OF assms(1) that [unfolded block_hash_spec_chain [OF assms(3)]]] by blast
  {
    case 0
    from parts [OF 0] have "parent_hash sha256' hf nh bs r' j = nh" by (simp add: parent_hash_def)
    with not_seed have "j = 0" by (cases j) (simp_all add: parent_hash_def)
    with parts [OF 0] show ?case by simp
  next
    case (Suc i)
    from parts [OF Suc.prems] not_seed [of sha256 r i] obtain j' where j: "j = Suc j'"
      by (cases j) (force simp: parent_hash_def)+
    with parts [OF Suc.prems] have "block_hash_spec sha256 hf nh bs r i = block_hash_spec sha256' hf nh bs r' j'"
      by (simp add: parent_hash_def)
    from Suc.IH [OF this] parts [OF Suc.prems] j show ?case by (metis le_Suc_eq)
  }
qed

lemma take_py_slice: "take (n + bs) zs = take n zs @ py_slice zs n (n + bs)"
  unfolding py_slice_def drop_take diff_add_inverse by (rule take_add)

lemma take_blocks_eq:
  assumes "\<forall>k \<le> i. py_slice xs (k * bs) (k * bs + bs) = py_slice ys (k * bs) (k * bs + bs)"
  shows "take (Suc i * bs) xs = take (Suc i * bs) ys"
  using assms
proof (induction i)
  case 0
  then show ?case by (simp add: py_slice_def)
next
  case (Suc i)
  from Suc.IH Suc.prems have "take (Suc i * bs) xs = take (Suc i * bs) ys" by simp
  moreover from Suc.prems have
    "py_slice xs (Suc i * bs) (Suc i * bs + bs) = py_slice ys (Suc i * bs) (Suc i * bs + bs)" by blast
  moreover have "Suc (Suc i) * bs = Suc i * bs + bs" by simp
  ultimately show ?case by (simp only: take_py_slice)
qed

text \<open>
  C26: Equal block hashes mean equal prefixes: when the hash function is injective and returns
  neither the empty string nor the seed, two requests share a block hash only at the same
  block, with the same tokens up to the end of it and the same extra keys in every block up
  to it. So a prefix cache hit never mixes prompts.
\<close>

theorem equal_hash_equal_prefix:
  assumes "inj hf" and "nh \<notin> range hf" and "[] \<notin> range hf"
    and "hashes_ok sha256 hf nh bs r" and "hashes_ok sha256 hf nh bs r'"
    and "i < length (block_hashes r)" and "j < length (block_hashes r')"
    and "block_hashes r ! i = block_hashes r' ! j"
  shows "i = j \<and> take (Suc i * bs) (all_token_ids r) = take (Suc i * bs) (all_token_ids r') \<and>
    (\<forall>k \<le> i. extra_keys_spec sha256 r (k * bs) (k * bs + bs) = extra_keys_spec sha256 r' (k * bs) (k * bs + bs))"
proof -
  have nth: "block_hashes q ! n = block_hash_spec sha256 hf nh bs q n"
    if "hashes_ok sha256 hf nh bs q" "n < length (block_hashes q)" for q n
  proof -
    from that(1) have "block_hashes q = map (block_hash_spec sha256 hf nh bs q) [0..<length (block_hashes q)]"
      by (simp add: hashes_ok_def)
    then have "block_hashes q ! n = map (block_hash_spec sha256 hf nh bs q) [0..<length (block_hashes q)] ! n"
      by simp
    with that(2) show ?thesis by simp
  qed
  from assms(8) have "block_hash_spec sha256 hf nh bs r i = block_hash_spec sha256 hf nh bs r' j"
    by (simp add: nth assms(4-7))
  from block_hash_spec_inject [OF assms(1-3) this] take_blocks_eq [of i "all_token_ids r" bs "all_token_ids r'"]
  show ?thesis by blast
qed

instance extra_key :: countable
  by countable_datatype

definition sample_hash :: "hash_fn" where
  "sample_hash x = 1 # replicate (to_nat x) 0"

lemma sample_hash_ok: "inj sample_hash" "[0] \<notin> range sample_hash" "[] \<notin> range sample_hash"
  by (auto simp: sample_hash_def inj_def replicate_eq_replicate)

definition hashed_sample :: "string \<Rightarrow> Request" where
  "hashed_sample salt = (let r = sample_request\<lparr>cache_salt := Some salt\<rparr> in
     r\<lparr>block_hashes := [block_hash_spec id sample_hash [0] 2 r 0]\<rparr>)"

lemma hashed_sample_ok: "hashes_ok id sample_hash [0] 2 (hashed_sample salt)"
proof -
  have "block_hash_spec id sample_hash [0] 2 (hashed_sample salt) 0 =
      block_hash_spec id sample_hash [0] 2 (sample_request\<lparr>cache_salt := Some salt\<rparr>) 0"
    by (rule block_hash_spec_cong)
      (simp_all add: hashed_sample_def extra_keys_spec_def gen_lora_extra_hash_keys_def Let_def)
  then show ?thesis
    by (simp add: hashes_ok_def hashed_sample_def Let_def sample_request_def features_ok_def memo_ok_def num_tokens_def)
qed

theorem equal_hash_equal_prefix_witness:
  "block_hashes (hashed_sample ''s'') ! 0 \<noteq> block_hashes (hashed_sample ''t'') ! 0"
proof
  assume "block_hashes (hashed_sample ''s'') ! 0 = block_hashes (hashed_sample ''t'') ! 0"
  from equal_hash_equal_prefix [OF sample_hash_ok hashed_sample_ok hashed_sample_ok _ _ this]
  have "\<forall>k \<le> 0. extra_keys_spec id (hashed_sample ''s'') (k * 2) (k * 2 + 2) =
      extra_keys_spec id (hashed_sample ''t'') (k * 2) (k * 2 + 2)"
    by (simp add: hashed_sample_def Let_def del: mult_0_right)
  then have "extra_keys_spec id (hashed_sample ''s'') 0 2 = extra_keys_spec id (hashed_sample ''t'') 0 2"
    by (metis add_0 le_refl mult_0)
  then show False
    by (simp add: extra_keys_spec_def hashed_sample_def Let_def sample_request_def gen_lora_extra_hash_keys_def)
qed

section \<open>Where equal hashes do not mean equal requests\<close>

text \<open>
  Once a request has hashes, the search for its media starts at the last item. So the keys of its
  further blocks do not depend on the items before it.
\<close>

lemma drop_to_last:
  assumes "xs \<noteq> []" and "int (length xs) - 1 \<le> idx"
  shows "drop (nat idx) xs = (if idx = int (length xs) - 1 then [last xs] else [])"
proof -
  have "drop (length xs - 1) xs = [last xs]"
    using assms(1) by (cases xs rule: rev_cases) simp_all
  moreover have "nat idx = length xs - 1" if "idx = int (length xs) - 1" using that by simp
  moreover have "length xs \<le> nat idx" if "idx \<noteq> int (length xs) - 1" using that assms(2) by simp
  ultimately show ?thesis by simp
qed

definition at_last :: "MultiModalFeatureSpec list \<Rightarrow> int \<Rightarrow> bool" where
  "at_last fs idx \<longleftrightarrow> idx = - 1 \<or> int (length fs) - 1 \<le> idx"

definition same_last :: "MultiModalFeatureSpec list \<Rightarrow> MultiModalFeatureSpec list \<Rightarrow> bool" where
  "same_last fs gs \<longleftrightarrow> fs \<noteq> [] \<and> length gs = length fs \<and> last gs = last fs \<and> mm_identifier (last fs) \<noteq> None"

lemma mm_keys_loop_last:
  assumes "fs \<noteq> []" and "mm_identifier (last fs) \<noteq> None" and "int (length fs) - 1 \<le> idx"
  shows "\<exists>ks idx'. mm_keys_loop s e (drop (nat idx) fs) idx [] = Inr (ks, idx') \<and> int (length fs) - 1 \<le> idx'"
  using assms by (auto simp: drop_to_last Let_def)

lemma gen_mm_keys_last:
  assumes "same_last (mm_features r) gs" and "at_last gs idx"
  shows "\<exists>ks idx'. gen_mm_extra_hash_keys r s e idx = Inr (ks, idx') \<and>
    gen_mm_extra_hash_keys (r\<lparr>mm_features := gs\<rparr>) s e idx = Inr (ks, idx') \<and> at_last gs idx'"
proof -
  let ?fs = "mm_features r" and ?j = "if idx < 0 then int (length gs) + idx else idx"
  have fs: "?fs \<noteq> []" "gs \<noteq> []" "length ?fs = length gs" "last gs = last ?fs" "mm_identifier (last ?fs) \<noteq> None"
    using assms(1) by (auto simp: same_last_def)
  have l: "1 \<le> int (length gs)" using fs(2) by (simp add: Suc_leI)
  have j: "int (length ?fs) - 1 \<le> ?j" "- idx \<le> int (length gs)"
    using assms(2) fs(3) l unfolding at_last_def by auto
  from mm_keys_loop_last [OF fs(1,5) j(1), of s e] obtain ks idx' where
    loop: "mm_keys_loop s e (drop (nat ?j) ?fs) ?j [] = Inr (ks, idx')" "int (length ?fs) - 1 \<le> idx'" by blast
  have drop: "drop (nat ?j) gs = drop (nat ?j) ?fs"
    using drop_to_last [OF fs(1) j(1)] drop_to_last [OF fs(2), of ?j] j(1) fs(3,4) by simp
  show ?thesis
  proof (cases "pr_offset (mm_position (last ?fs)) + pr_length (mm_position (last ?fs)) \<le> s")
    case True
    then show ?thesis using assms(2) fs by (simp add: gen_mm_extra_hash_keys_def Let_def)
  next
    case False
    then show ?thesis
      using loop drop fs j(2)
      by (cases "idx < 0") (auto simp: gen_mm_extra_hash_keys_def Let_def at_last_def)
  qed
qed

lemma generate_keys_last:
  assumes "same_last (mm_features r) gs" and "at_last gs idx"
  shows "\<exists>ks idx' m. generate_block_hash_extra_keys sha256 r s e idx = Inr (ks, idx', r\<lparr>embeds_hashes := m\<rparr>) \<and>
    generate_block_hash_extra_keys sha256 (r\<lparr>mm_features := gs\<rparr>) s e idx =
      Inr (ks, idx', r\<lparr>embeds_hashes := m, mm_features := gs\<rparr>) \<and> at_last gs idx'"
proof -
  have "\<exists>ks m. gen_prompt_embeds_extra_hash_keys sha256 r s e = (ks, r\<lparr>embeds_hashes := m\<rparr>) \<and>
      gen_prompt_embeds_extra_hash_keys sha256 (r\<lparr>mm_features := gs\<rparr>) s e =
        (ks, r\<lparr>embeds_hashes := m, mm_features := gs\<rparr>)"
  proof (cases "case prompt_embeds r of None \<Rightarrow> False | Some rows \<Rightarrow> map_of (embeds_hashes r) (s, e) = None")
    case True
    then obtain rows where "prompt_embeds r = Some rows" "map_of (embeds_hashes r) (s, e) = None"
      by (auto split: option.splits)
    then show ?thesis
      by (intro exI [of _ "[KeyBytes (sha256 (concat (py_slice rows s e)))]"]
          exI [of _ "((s, e), sha256 (concat (py_slice rows s e))) # embeds_hashes r"])
        (simp add: gen_prompt_embeds_extra_hash_keys_def Let_def)
  next
    case False
    then show ?thesis
      by (intro exI [of _ "fst (gen_prompt_embeds_extra_hash_keys sha256 r s e)"] exI [of _ "embeds_hashes r"])
        (auto simp: gen_prompt_embeds_extra_hash_keys_def split: option.splits)
  qed
  with gen_mm_keys_last [OF assms, of s e] show ?thesis
    by (auto simp: generate_block_hash_extra_keys_def Let_def gen_lora_extra_hash_keys_def)
qed

lemma hasher_loop_last:
  assumes "0 < bs" and "same_last (mm_features r) gs" and "at_last gs idx"
  shows "\<exists>hs m. hasher_loop sha256 hf nh bs r start idx prev acc = Some (Inr (hs, r\<lparr>embeds_hashes := m\<rparr>)) \<and>
    hasher_loop sha256 hf nh bs (r\<lparr>mm_features := gs\<rparr>) start idx prev acc =
      Some (Inr (hs, r\<lparr>embeds_hashes := m, mm_features := gs\<rparr>)) \<and>
    length hs = length acc + (num_tokens r - start) div bs"
  using assms(2,3)
proof (induction "num_tokens r - start" arbitrary: r start idx prev acc rule: less_induct)
  case less
  have n: "num_tokens (r\<lparr>mm_features := gs\<rparr>) = num_tokens r" by (simp add: num_tokens_def)
  show ?case
  proof (cases "start + bs > num_tokens r")
    case True
    then have "(num_tokens r - start) div bs = 0" using assms(1) by (simp add: div_eq_0_iff)
    with True show ?thesis
      by (intro exI [of _ acc] exI [of _ "embeds_hashes r"]) (simp add: hasher_loop.simps n)
  next
    case False
    from generate_keys_last [OF less.prems, of sha256 start "start + bs"] obtain ks idx' m where
      gen: "generate_block_hash_extra_keys sha256 r start (start + bs) idx = Inr (ks, idx', r\<lparr>embeds_hashes := m\<rparr>)"
        "generate_block_hash_extra_keys sha256 (r\<lparr>mm_features := gs\<rparr>) start (start + bs) idx =
          Inr (ks, idx', r\<lparr>embeds_hashes := m, mm_features := gs\<rparr>)"
      and idx': "at_last gs idx'" by blast
    let ?r = "r\<lparr>embeds_hashes := m\<rparr>"
    let ?h = "hash_block_tokens hf nh prev (py_slice (all_token_ids r) start (start + bs)) ks"
    have "num_tokens ?r - (start + bs) < num_tokens r - start" "same_last (mm_features ?r) gs"
      using False assms(1) less.prems(1) by (simp_all add: num_tokens_def)
    from less.hyps [OF this idx', of "Some ?h" "acc @ [?h]"] obtain hs m' where
      "hasher_loop sha256 hf nh bs ?r (start + bs) idx' (Some ?h) (acc @ [?h]) = Some (Inr (hs, ?r\<lparr>embeds_hashes := m'\<rparr>))"
      "hasher_loop sha256 hf nh bs (?r\<lparr>mm_features := gs\<rparr>) (start + bs) idx' (Some ?h) (acc @ [?h]) =
        Some (Inr (hs, ?r\<lparr>embeds_hashes := m', mm_features := gs\<rparr>))"
      "length hs = length (acc @ [?h]) + (num_tokens ?r - (start + bs)) div bs" by blast
    moreover have "(num_tokens r - start) div bs = Suc ((num_tokens r - (start + bs)) div bs)"
      using False assms(1) le_div_geq [of bs "num_tokens r - start"] by simp
    ultimately show ?thesis
      using False gen
      by (intro exI [of _ hs] exI [of _ m']) (simp add: hasher_loop.simps [of _ _ _ _ _ start] n)
  qed
qed

lemma append_same_last:
  assumes "0 < bs" and "same_last (mm_features r) gs" and "block_hashes r \<noteq> []"
    and "Suc (length (block_hashes r)) * bs \<le> num_tokens r + length toks"
  shows "\<exists>r' q'. append_output_token_ids sha256 hf nh bs toks r = Some (Inr r') \<and>
    append_output_token_ids sha256 hf nh bs toks (r\<lparr>mm_features := gs\<rparr>) = Some (Inr q') \<and>
    block_hashes r' = block_hashes q' \<and> length (block_hashes r) < length (block_hashes r') \<and>
    mm_features r' = mm_features r \<and> mm_features q' = gs"
proof -
  let ?k = "length (block_hashes r)"
  let ?r = "r\<lparr>output_token_ids := output_token_ids r @ toks, all_token_ids := all_token_ids r @ toks\<rparr>"
  have k: "0 < ?k * bs" and full: "?k * bs + bs \<le> num_tokens ?r"
    using assms(1,3,4) by (simp_all add: num_tokens_def add.commute)
  have "at_last gs (- 1)" "same_last (mm_features ?r) gs" using assms(2) by (simp_all add: at_last_def)
  from hasher_loop_last [OF assms(1) this(2,1), of sha256 hf nh "?k * bs" "Some (last (block_hashes r))" "[]"]
  obtain hs m where
    run: "hasher_loop sha256 hf nh bs ?r (?k * bs) (- 1) (Some (last (block_hashes r))) [] = Some (Inr (hs, ?r\<lparr>embeds_hashes := m\<rparr>))"
    "hasher_loop sha256 hf nh bs (?r\<lparr>mm_features := gs\<rparr>) (?k * bs) (- 1) (Some (last (block_hashes r))) [] =
      Some (Inr (hs, ?r\<lparr>embeds_hashes := m, mm_features := gs\<rparr>))"
    and len: "length hs = (num_tokens ?r - ?k * bs) div bs" by auto
  have "0 < (num_tokens ?r - ?k * bs) div bs"
    using full assms(1) by (simp add: div_greater_zero_iff)
  moreover have "?r\<lparr>mm_features := gs\<rparr> =
      r\<lparr>mm_features := gs, output_token_ids := output_token_ids r @ toks, all_token_ids := all_token_ids r @ toks\<rparr>"
    by simp
  note run' = run(2) [unfolded this]
  ultimately show ?thesis
    using k full assms(3) run(1) run' len
    by (simp add: append_output_token_ids_def update_block_hashes_def request_block_hasher_def num_tokens_def Let_def)
qed

text \<open>Replacing the identifier of one item\<close>

lemma other_identifier_keys:
  assumes "mm_features r = pre @ g # mid @ [l]" and "mm_identifier g = Some x" and "x \<noteq> y"
    and "overlaps s e g"
  shows "extra_keys_spec sha256 r s e \<noteq>
    extra_keys_spec sha256 (r\<lparr>mm_features := pre @ g\<lparr>mm_identifier := Some y\<rparr> # mid @ [l]\<rparr>) s e"
proof -
  let ?g = "g\<lparr>mm_identifier := Some y\<rparr>"
  have "overlaps s e ?g" using assms(4) by (simp add: overlaps_def feature_start_def feature_end_def)
  moreover have "mm_key s g \<noteq> mm_key s ?g" using assms(2,3) by (simp add: mm_key_def)
  ultimately show ?thesis
    using assms(1,4) by (simp add: extra_keys_spec_def gen_lora_extra_hash_keys_def Let_def)
qed

lemma other_identifier_hashes_ok:
  assumes "0 < bs" and "hashes_ok sha256 hf nh bs r" and "mm_features r = pre @ g # mid @ [l]"
    and "length (block_hashes r) * bs \<le> feature_start g"
  shows "hashes_ok sha256 hf nh bs (r\<lparr>mm_features := pre @ g\<lparr>mm_identifier := Some y\<rparr> # mid @ [l]\<rparr>)"
    (is "hashes_ok _ _ _ _ ?q")
proof -
  let ?g = "g\<lparr>mm_identifier := Some y\<rparr>" and ?k = "length (block_hashes r)"
  have pos: "feature_start ?g = feature_start g" "feature_end ?g = feature_end g"
    by (simp_all add: feature_start_def feature_end_def)
  have "block_hash_spec sha256 hf nh bs r i = block_hash_spec sha256 hf nh bs ?q i" if "i < ?k" for i
  proof (rule block_hash_spec_cong_upto)
    fix j assume "j \<le> i"
    with that have "Suc j * bs \<le> ?k * bs" by (intro mult_le_mono1) simp
    then have "\<not> overlaps (j * bs) (j * bs + bs) g" "\<not> overlaps (j * bs) (j * bs + bs) ?g"
      using assms(4) pos by (auto simp: overlaps_def add.commute)
    then show "extra_keys_spec sha256 r (j * bs) (j * bs + bs) = extra_keys_spec sha256 ?q (j * bs) (j * bs + bs)"
      using assms(3) by (simp add: extra_keys_spec_def gen_lora_extra_hash_keys_def)
  qed simp
  then have "map (block_hash_spec sha256 hf nh bs r) [0..<?k] = map (block_hash_spec sha256 hf nh bs ?q) [0..<?k]"
    by simp
  moreover have "block_hashes r = map (block_hash_spec sha256 hf nh bs r) [0..<?k]"
    using assms(2) by (simp only: hashes_ok_def)
  ultimately have "block_hashes r = map (block_hash_spec sha256 hf nh bs ?q) [0..<?k]" by simp
  moreover have "features_ok (mm_features ?q)"
    using assms(2,3) pos by (simp add: hashes_ok_def features_ok_append features_ok_Cons)
  ultimately show ?thesis
    using assms(2) by (simp add: hashes_ok_def memo_ok_def num_tokens_def)
qed

text \<open>
  C27: A block that generation completes is hashed with the last media item only. Take a request
  whose hashes are right and whose open block holds, besides the last media item, an earlier one,
  all of them inside the prompt; and the same request with another identifier for the earlier item,
  whose hashes are right too. Once generated tokens fill the block, both requests get the same block
  hashes, for every hash function, although the keys of the media in the block differ. So the second
  request finds the block of the first in the prefix cache.
\<close>

theorem partial_block_drops_media:
  assumes bs: "0 < bs" and ok: "hashes_ok sha256 hf nh bs r" and hashed: "block_hashes r \<noteq> []"
    and media: "mm_features r = pre @ g # mid @ [l]" "mm_identifier g = Some x" "x \<noteq> y"
    and inside: "length (block_hashes r) * bs \<le> feature_start g" "feature_start g < feature_end g"
      "feature_end l \<le> num_tokens r" "num_tokens r < Suc (length (block_hashes r)) * bs"
    and filled: "Suc (length (block_hashes r)) * bs \<le> num_tokens r + length toks"
  defines "q \<equiv> r\<lparr>mm_features := pre @ g\<lparr>mm_identifier := Some y\<rparr> # mid @ [l]\<rparr>"
    and "s \<equiv> length (block_hashes r) * bs"
  shows "hashes_ok sha256 hf nh bs q \<and>
    extra_keys_spec sha256 r s (s + bs) \<noteq> extra_keys_spec sha256 q s (s + bs) \<and>
    (\<exists>r' q'. append_output_token_ids sha256 hf nh bs toks r = Some (Inr r') \<and>
      append_output_token_ids sha256 hf nh bs toks q = Some (Inr q') \<and>
      block_hashes r' = block_hashes q' \<and> length (block_hashes r) < length (block_hashes r') \<and>
      mm_features r' = mm_features r \<and> mm_features q' = mm_features q)"
proof -
  have fok: "features_ok (mm_features r)" using ok by (simp add: hashes_ok_def)
  then have "feature_end g \<le> feature_start l" "mm_identifier l \<noteq> None"
    using media(1) by (simp_all add: features_ok_append features_ok_Cons)
  then have "feature_end g < s + bs"
    using inside(3,4) feature_start_le_end [of l] by (simp add: s_def add.commute)
  then have "overlaps s (s + bs) g" using inside(1,2) by (simp add: overlaps_def s_def)
  then have keys: "extra_keys_spec sha256 r s (s + bs) \<noteq> extra_keys_spec sha256 q s (s + bs)"
    unfolding q_def using media by (intro other_identifier_keys) (auto)
  have "same_last (mm_features r) (mm_features q)"
    using media(1) \<open>mm_identifier l \<noteq> None\<close> by (simp add: same_last_def q_def)
  from append_same_last [OF bs this hashed filled, of sha256 hf nh]
  have "\<exists>r' q'. append_output_token_ids sha256 hf nh bs toks r = Some (Inr r') \<and>
      append_output_token_ids sha256 hf nh bs toks q = Some (Inr q') \<and>
      block_hashes r' = block_hashes q' \<and> length (block_hashes r) < length (block_hashes r') \<and>
      mm_features r' = mm_features r \<and> mm_features q' = mm_features q"
    by (simp add: q_def)
  then show ?thesis
    using other_identifier_hashes_ok [OF bs ok media(1) inside(1)] keys by (simp add: q_def)
qed

text \<open>A prompt of five tokens in blocks of three: two audios of one token each in the open block\<close>

definition two_audios :: "string \<Rightarrow> Request" where
  "two_audios ident =
     (let r = sample_request\<lparr>cache_salt := None, all_token_ids := [5, 6, 7, 9, 9],
       mm_features :=
         [\<lparr>mm_identifier = Some ident, mm_position = \<lparr>pr_offset = 3, pr_length = 1, is_embed = None\<rparr>\<rparr>,
          \<lparr>mm_identifier = Some ''b'', mm_position = \<lparr>pr_offset = 4, pr_length = 1, is_embed = None\<rparr>\<rparr>]\<rparr>
      in r\<lparr>block_hashes := [block_hash_spec id sample_hash [0] 3 r 0]\<rparr>)"

lemma two_audios_ok: "hashes_ok id sample_hash [0] 3 (two_audios ident)"
proof -
  have "block_hash_spec id sample_hash [0] 3 (two_audios ident) 0 = block_hashes (two_audios ident) ! 0"
    unfolding two_audios_def Let_def
    by (simp, rule block_hash_spec_cong) (simp_all add: extra_keys_spec_def gen_lora_extra_hash_keys_def)
  then show ?thesis
    by (simp add: hashes_ok_def two_audios_def Let_def sample_request_def features_ok_def memo_ok_def num_tokens_def
        feature_start_def feature_end_def)
qed

theorem partial_block_drops_media_witness:
  "\<exists>r' q'. append_output_token_ids id sample_hash [0] 3 [8] (two_audios ''a'') = Some (Inr r') \<and>
     append_output_token_ids id sample_hash [0] 3 [8] ((two_audios ''a'')\<lparr>mm_features :=
       (hd (mm_features (two_audios ''a'')))\<lparr>mm_identifier := Some ''c''\<rparr> # tl (mm_features (two_audios ''a''))\<rparr>) = Some (Inr q') \<and>
     block_hashes r' = block_hashes q' \<and> 1 < length (block_hashes r')"
proof -
  let ?g = "\<lparr>mm_identifier = Some ''a'', mm_position = \<lparr>pr_offset = 3, pr_length = 1, is_embed = None\<rparr>\<rparr>"
  let ?l = "\<lparr>mm_identifier = Some ''b'', mm_position = \<lparr>pr_offset = 4, pr_length = 1, is_embed = None\<rparr>\<rparr>"
  have fs: "mm_features (two_audios ''a'') = [] @ ?g # [] @ [?l]" and hs: "length (block_hashes (two_audios ''a'')) = 1"
    and n: "num_tokens (two_audios ''a'') = 5"
    by (simp_all add: two_audios_def Let_def num_tokens_def)
  then have "block_hashes (two_audios ''a'') \<noteq> []" by auto
  from partial_block_drops_media [OF _ two_audios_ok this fs, of "''a''" "''c''" "[8]"]
  show ?thesis by (auto simp: hs n fs feature_start_def feature_end_def)
qed

text \<open>
  C28: The extra keys do not say where they come from. Take a request for an adapter without a cache
  salt, and the same request for the base model with the adapter's name as its cache salt. If no media
  item reaches into the first block, both requests get the same hash for their first block, for every
  hash function and every block size that the prompt fills.
\<close>

theorem lora_salt_collision:
  assumes bs: "0 < bs" "bs \<le> num_tokens r" and new: "block_hashes r = []"
    and media: "features_ok (mm_features r)" "\<forall>f \<in> set (mm_features r). bs \<le> feature_start f"
    and memo: "memo_ok sha256 r"
    and adapter: "lora_request r = Some l" "lora_name l \<noteq> []" "cache_salt r = None"
  defines "q \<equiv> r\<lparr>lora_request := None, cache_salt := Some (lora_name l)\<rparr>"
  shows "\<exists>r' q'. update_block_hashes sha256 hf nh bs r = Some (Inr r') \<and>
    update_block_hashes sha256 hf nh bs q = Some (Inr q') \<and>
    block_hashes r' \<noteq> [] \<and> block_hashes q' \<noteq> [] \<and> block_hashes r' ! 0 = block_hashes q' ! 0 \<and>
    lora_request r' = Some l \<and> lora_request q' = None"
proof -
  have ok: "hashes_ok sha256 hf nh bs r" "only_last_feature_open bs r"
    "hashes_ok sha256 hf nh bs q" "only_last_feature_open bs q"
    using new media memo by (simp_all add: hashes_ok_def only_last_feature_open_def q_def memo_ok_def)
  have "0 < num_tokens r div bs" and n: "num_tokens q = num_tokens r"
    using bs by (simp_all add: div_greater_zero_iff q_def num_tokens_def)
  moreover have "filter (overlaps 0 bs) (mm_features r) = []" using media(2) by (rule no_overlap_after)
  then have "block_hash_spec sha256 hf nh bs r 0 = block_hash_spec sha256 hf nh bs q 0"
    using adapter
    by (simp add: block_hash_spec.simps [of _ _ _ _ _ 0] extra_keys_spec_def gen_lora_extra_hash_keys_def q_def)
  ultimately show ?thesis
    using update_block_hashes_correct [OF bs(1) ok(1,2)] update_block_hashes_correct [OF bs(1) ok(3,4)] adapter
    by (auto simp: q_def)
qed

theorem lora_salt_collision_witness:
  "\<exists>r' q'. update_block_hashes id sample_hash [0] 2 (sample_request\<lparr>mm_features := [], cache_salt := None,
       lora_request := Some \<lparr>lora_name = ''x'', lora_int_id = 1\<rparr>\<rparr>) = Some (Inr r') \<and>
     update_block_hashes id sample_hash [0] 2 (sample_request\<lparr>mm_features := [], cache_salt := Some ''x''\<rparr>) = Some (Inr q') \<and>
     block_hashes r' ! 0 = block_hashes q' ! 0"
proof -
  let ?r = "sample_request\<lparr>mm_features := [], cache_salt := None, lora_request := Some \<lparr>lora_name = ''x'', lora_int_id = 1\<rparr>\<rparr>"
  have "?r\<lparr>lora_request := None, cache_salt := Some ''x''\<rparr> = sample_request\<lparr>mm_features := [], cache_salt := Some ''x''\<rparr>"
    by (simp add: sample_request_def)
  with lora_salt_collision [of 2 ?r id "\<lparr>lora_name = ''x'', lora_int_id = 1\<rparr>" sample_hash "[0]"] show ?thesis
    by (auto simp: num_tokens_def sample_request_def features_ok_def memo_ok_def)
qed

text \<open>
  C29: The key of a cached block packs its hash and its group id without loss: keys are equal
  exactly when hash and group are, both are read back from the key, and packing fails exactly
  for a group id that does not fit four bytes.
\<close>

theorem block_hash_key_roundtrip:
  "((\<exists>key. make_block_hash_with_group_id h g = Inr key) \<longleftrightarrow> 0 \<le> g \<and> g < 2 ^ 32) \<and>
   (make_block_hash_with_group_id h g = Inr key \<longrightarrow>
     get_block_hash key = h \<and> get_group_id key = g \<and>
     (make_block_hash_with_group_id h' g' = Inr key \<longrightarrow> h = h' \<and> g = g'))"
  using make_block_hash_defined [of h g] block_hash_key_parts [of h g key]
    make_block_hash_inject [of h g key h' g'] by blast

theorem block_hash_key_roundtrip_witness:
  "get_block_hash [7, 9, 0, 0, 1, 2] = [7, 9] \<and> get_group_id [7, 9, 0, 0, 1, 2] = 258"
proof -
  have "make_block_hash_with_group_id [7, 9] 258 = Inr [7, 9, 0, 0, 1, 2]"
    by (simp add: make_block_hash_with_group_id_def to_bytes4_def)
  with block_hash_key_roundtrip [of "[7, 9]" 258 "[7, 9, 0, 0, 1, 2]" "[7, 9]" 258] show ?thesis by blast
qed

end
