(* ===== verification/Block_Pool_Correct.thy ===== *)
theory Block_Pool_Correct
  imports Block_Pool Block_Hash_Correct
begin

text \<open>
  The invariant of the block pool and its preservation: the free queue holds exactly the blocks
  nobody holds, the reference count of a block is the number of its holders, and the index
  finds exactly the blocks that carry a hash.
\<close>

section \<open>The index as a map from keys to lists of blocks\<close>

definition block_entry :: "nat \<Rightarrow> int \<times> block_ref" where
  "block_entry b = (int b, Block b)"

definition holds :: "BlockHashToBlockMap \<Rightarrow> bytes \<Rightarrow> nat list \<Rightarrow> bool" where
  "holds cache key bs \<longleftrightarrow>
     (case map_of cache key of
        None \<Rightarrow> bs = []
      | Some (OneBlock x) \<Rightarrow> \<exists>b. x = Block b \<and> bs = [b]
      | Some (BlockDict d) \<Rightarrow> bs \<noteq> [] \<and> distinct bs \<and> d = map block_entry bs)"

definition ids_ok :: "block_store \<Rightarrow> bool" where
  "ids_ok s \<longleftrightarrow> (\<forall>b. block_id (s (Block b)) = int b)"

lemma entries_update: "b \<notin> set bs \<Longrightarrow> AList.update (int b) (Block b) (map block_entry bs) = map block_entry (bs @ [b])"
  by (induction bs) (auto simp: block_entry_def)

lemma entries_delete: "AList.delete (int b) (map block_entry bs) = map block_entry (filter (\<lambda>c. c \<noteq> b) bs)"
  by (induction bs) (auto simp: block_entry_def AList.delete_eq)

lemma entries_lookup: "map_of (map block_entry bs) (int b) = (if b \<in> set bs then Some (Block b) else None)"
  by (induction bs) (auto simp: block_entry_def)

lemma holds_distinct: "holds cache key bs \<Longrightarrow> distinct bs"
  by (auto simp: holds_def split: option.splits cached_blocks.splits)

lemma get_one_block_holds:
  "holds cache key bs \<Longrightarrow> get_one_block cache key = Inr (case bs of [] \<Rightarrow> None | b # _ \<Rightarrow> Some (Block b))"
  by (auto simp: holds_def get_one_block_def block_entry_def split: option.splits cached_blocks.splits list.splits)

lemma map_insert_holds:
  assumes "ids_ok s" and "holds cache key bs" and "b \<notin> set bs"
  shows "holds (map_insert s key (Block b) cache) key (bs @ [b])"
proof (cases "map_of cache key")
  case None
  with assms show ?thesis by (simp add: holds_def map_insert_def update_conv)
next
  case (Some c)
  show ?thesis
  proof (cases c)
    case (OneBlock x)
    with Some assms(2) obtain b' where "x = Block b'" "bs = [b']" by (auto simp: holds_def)
    with assms(1,3) Some OneBlock show ?thesis
      by (simp add: holds_def map_insert_def update_conv ids_ok_def block_entry_def)
  next
    case (BlockDict d)
    with Some assms(2) have "bs \<noteq> []" "distinct bs" "d = map block_entry bs" by (simp_all add: holds_def)
    with assms(1,3) Some BlockDict show ?thesis
      by (simp add: holds_def map_insert_def update_conv ids_ok_def entries_update)
  qed
qed

lemma map_insert_other:
  assumes "key' \<noteq> key"
  shows "holds (map_insert s key x cache) key' bs = holds cache key' bs"
  using assms by (simp add: holds_def map_insert_def update_conv split: option.split cached_blocks.split)

lemma map_pop_holds:
  assumes "ids_ok s" and "holds cache key bs"
  shows "fst (map_pop s key (int b) cache) = (if b \<in> set bs then Some (Block b) else None) \<and>
    holds (snd (map_pop s key (int b) cache)) key (filter (\<lambda>c. c \<noteq> b) bs)"
proof (cases "map_of cache key")
  case None
  with assms show ?thesis by (simp add: holds_def map_pop_def)
next
  case (Some c)
  show ?thesis
  proof (cases c)
    case (OneBlock x)
    with Some assms(2) obtain b' where "x = Block b'" "bs = [b']" by (auto simp: holds_def)
    with assms(1) Some OneBlock show ?thesis
      by (auto simp: holds_def map_pop_def update_conv delete_conv ids_ok_def)
  next
    case (BlockDict d)
    with Some assms(2) have d: "bs \<noteq> []" "distinct bs" "d = map block_entry bs" by (simp_all add: holds_def)
    with Some BlockDict show ?thesis
      by (simp add: holds_def map_pop_def update_conv delete_conv entries_delete entries_lookup Let_def)
  qed
qed

lemma map_pop_other:
  assumes "key' \<noteq> key"
  shows "holds (snd (map_pop s key i cache)) key' bs = holds cache key' bs"
  using assms by (simp add: holds_def map_pop_def update_conv delete_conv Let_def split: option.split cached_blocks.split)

section \<open>The invariant\<close>

abbreviation hash_of :: "BlockPool \<Rightarrow> nat \<Rightarrow> bytes option" where
  "hash_of p b \<equiv> block_hash (blk p (Block b))"

abbreviation refs :: "BlockPool \<Rightarrow> nat \<Rightarrow> int" where
  "refs p b \<equiv> ref_cnt (blk p (Block b))"

abbreviation pool_size :: "BlockPool \<Rightarrow> nat" where
  "pool_size p \<equiv> nat (num_gpu_blocks p)"

definition static_ok :: "BlockPool \<Rightarrow> bool" where
  "static_ok p \<longleftrightarrow> 0 < num_gpu_blocks p \<and> blocks p = map Block [0..<pool_size p] \<and> null_block p = Block 0 \<and>
     (\<forall>b. block_id (blk p (Block b)) = int b) \<and> (\<forall>b. is_null (blk p (Block b)) \<longleftrightarrow> b = 0)"

text \<open>\<open>refs_ok p held xs\<close>: \<open>held\<close> are the references given out, \<open>xs\<close> is the free queue.\<close>

definition refs_ok :: "BlockPool \<Rightarrow> nat multiset \<Rightarrow> nat list \<Rightarrow> bool" where
  "refs_ok p held xs \<longleftrightarrow> queue_rep (free_block_queue p) xs \<and>
     set xs \<inter> set_mset held = {} \<and> set xs \<union> set_mset held \<subseteq> {0 <..< pool_size p} \<and>
     (\<forall>b > 0. refs p b = int (count held b))"

definition cache_ok :: "BlockPool \<Rightarrow> bool" where
  "cache_ok p \<longleftrightarrow> (\<forall>b. hash_of p b \<noteq> None \<longrightarrow> 0 < b \<and> b < pool_size p) \<and>
     (\<forall>key. \<exists>bs. holds (cached_block_hash_to_block p) key bs \<and> set bs = {b. hash_of p b = Some key})"

definition pool_rel :: "BlockPool \<Rightarrow> nat multiset \<Rightarrow> nat list \<Rightarrow> bool" where
  "pool_rel p held xs \<longleftrightarrow> static_ok p \<and> refs_ok p held xs \<and> cache_ok p"

definition pool_ok :: "BlockPool \<Rightarrow> nat multiset \<Rightarrow> bool" where
  "pool_ok p held \<longleftrightarrow> (\<exists>xs. pool_rel p held xs \<and> {0 <..< pool_size p} \<subseteq> set xs \<union> set_mset held)"

section \<open>What the elementary updates change\<close>

lemma blk_update_blk: "blk (update_blk x f p) y = (if y = x then f (blk p x) else blk p y)"
  by (simp add: blk_def update_blk_def)

lemma update_blk_fields [simp]:
  "num_gpu_blocks (update_blk x f p) = num_gpu_blocks p"
  "blocks (update_blk x f p) = blocks p"
  "null_block (update_blk x f p) = null_block p"
  "cached_block_hash_to_block (update_blk x f p) = cached_block_hash_to_block p"
  "enable_kv_cache_events (update_blk x f p) = enable_kv_cache_events p"
  "enable_caching (update_blk x f p) = enable_caching p"
  "hash_block_size (update_blk x f p) = hash_block_size p"
  "kv_event_queue (update_blk x f p) = kv_event_queue p"
  by (simp_all add: update_blk_def)

lemma queue_rep_cong:
  assumes "nxt q = nxt q'" and "prv q = prv q'" and "num_free_blocks q = num_free_blocks q'"
  shows "queue_rep q xs = queue_rep q' xs"
  using assms by (simp add: queue_rep_def)

lemma queue_rep_update_blk:
  assumes "\<And>b. next_free_block (f b) = next_free_block b" and "\<And>b. prev_free_block (f b) = prev_free_block b"
  shows "queue_rep (free_block_queue (update_blk x f p)) xs = queue_rep (free_block_queue p) xs"
  by (rule queue_rep_cong) (auto simp: nxt_def prv_def update_blk_def blk_def assms)

lemma metric_fields [simp]:
  "blk (metric c p) = blk p" "free_block_queue (metric c p) = free_block_queue p"
  "num_gpu_blocks (metric c p) = num_gpu_blocks p" "blocks (metric c p) = blocks p"
  "null_block (metric c p) = null_block p" "enable_caching (metric c p) = enable_caching p"
  "cached_block_hash_to_block (metric c p) = cached_block_hash_to_block p"
  "enable_kv_cache_events (metric c p) = enable_kv_cache_events p"
  "kv_event_queue (metric c p) = kv_event_queue p" "hash_block_size (metric c p) = hash_block_size p"
  by (simp_all add: metric_def blk_def fun_eq_iff)

lemma pool_rel_metric [simp]: "pool_rel (metric c p) held xs = pool_rel p held xs"
  by (simp add: pool_rel_def static_ok_def refs_ok_def cache_ok_def)

lemma pool_rel_events [simp]: "pool_rel (p\<lparr>kv_event_queue := es\<rparr>) held xs = pool_rel p held xs"
  by (simp add: pool_rel_def static_ok_def refs_ok_def cache_ok_def blk_def)

lemma pool_ok_metric [simp]: "pool_ok (metric c p) held = pool_ok p held"
  by (simp add: pool_ok_def)

lemma pool_ok_events [simp]: "pool_ok (p\<lparr>kv_event_queue := es\<rparr>) held = pool_ok p held"
  by (simp add: pool_ok_def)

text \<open>Replacing the queue by one with the same block contents\<close>

lemma blk_same_contents:
  assumes "same_contents (free_block_queue p) q"
  shows "contents (blk (p\<lparr>free_block_queue := q\<rparr>) x) = contents (blk p x)"
  using assms by (simp add: same_contents_def blk_def)

lemma pool_rel_queue:
  assumes "pool_rel p held xs" and "same_contents (free_block_queue p) q" and "queue_rep q ys"
    and "set ys \<inter> set_mset held = {}" and "set ys \<subseteq> {0 <..< pool_size p}"
  shows "pool_rel (p\<lparr>free_block_queue := q\<rparr>) held ys"
proof -
  note same = blk_same_contents [OF assms(2), unfolded contents_def]
  show ?thesis
    using assms same unfolding pool_rel_def static_ok_def refs_ok_def cache_ok_def
    by simp
qed

lemma add_ref_fields [simp]:
  "block_hash (blk (add_ref k x p) y) = block_hash (blk p y)"
  "block_id (blk (add_ref k x p) y) = block_id (blk p y)"
  "is_null (blk (add_ref k x p) y) = is_null (blk p y)"
  "ref_cnt (blk (add_ref k x p) y) = ref_cnt (blk p y) + (if y = x then k else 0)"
  "queue_rep (free_block_queue (add_ref k x p)) xs = queue_rep (free_block_queue p) xs"
  "num_gpu_blocks (add_ref k x p) = num_gpu_blocks p" "blocks (add_ref k x p) = blocks p"
  "null_block (add_ref k x p) = null_block p" "enable_caching (add_ref k x p) = enable_caching p"
  "cached_block_hash_to_block (add_ref k x p) = cached_block_hash_to_block p"
  by (simp_all add: add_ref_def blk_update_blk queue_rep_update_blk)

lemmas pool_rel_defs = pool_rel_def static_ok_def refs_ok_def cache_ok_def

lemma pool_rel_add_ref:
  assumes "pool_rel p held xs" and "0 < b" and "b < pool_size p" and "b \<notin> set xs"
  shows "pool_rel (add_ref 1 (Block b) p) (add_mset b held) xs"
  using assms by (simp add: pool_rel_defs)

lemma pool_rel_add_ref_null:
  assumes "pool_rel p held xs"
  shows "pool_rel (add_ref k (Block 0) p) held xs"
  using assms by (simp add: pool_rel_defs)

lemma pool_rel_free:
  assumes "pool_rel p held xs" and "b \<in> set xs"
  shows "0 < b \<and> b < pool_size p \<and> b \<notin># held \<and> refs p b = 0 \<and> \<not> is_null (blk p (Block b))"
proof -
  from assms have "0 < b" "b < pool_size p" "b \<notin># held" by (auto simp: pool_rel_def refs_ok_def)
  moreover from this assms(1) have "refs p b = 0" by (simp add: pool_rel_def refs_ok_def not_in_iff)
  ultimately show ?thesis using assms(1) by (simp add: pool_rel_def static_ok_def)
qed

lemma pool_rel_null: "pool_rel p held xs \<Longrightarrow> hash_of p 0 = None"
  unfolding pool_rel_def cache_ok_def by (metis less_numeral_extra(3))

lemma pool_rel_cached:
  "pool_rel p held xs \<Longrightarrow>
     \<exists>bs. holds (cached_block_hash_to_block p) key bs \<and> set bs = {b. hash_of p b = Some key}"
  unfolding pool_rel_def cache_ok_def by blast

section \<open>Eviction from the index\<close>

lemma maybe_evict_rel:
  assumes "pool_rel p held xs"
  shows "pool_rel (snd (maybe_evict_cached_block ui (Block b) p)) held xs \<and>
    hash_of (snd (maybe_evict_cached_block ui (Block b) p)) b = None \<and>
    (\<forall>c. c \<noteq> b \<longrightarrow> hash_of (snd (maybe_evict_cached_block ui (Block b) p)) c = hash_of p c) \<and>
    (\<forall>x. ref_cnt (blk (snd (maybe_evict_cached_block ui (Block b) p)) x) = ref_cnt (blk p x)) \<and>
    num_gpu_blocks (snd (maybe_evict_cached_block ui (Block b) p)) = num_gpu_blocks p"
proof (cases "hash_of p b")
  case None
  then show ?thesis using assms by (simp add: maybe_evict_cached_block_def)
next
  case (Some key)
  let ?c = "cached_block_hash_to_block p" and ?s = "store (free_block_queue p)"
  from pool_rel_cached [OF assms] obtain bs where bs: "holds ?c key bs" "set bs = {b. hash_of p b = Some key}"
    by blast
  have ids: "ids_ok ?s" using assms by (simp add: pool_rel_defs ids_ok_def blk_def)
  define cache' where "cache' = snd (map_pop ?s key (int b) ?c)"
  have pop: "map_pop ?s key (int b) ?c = (Some (Block b), cache')"
    and h': "holds cache' key (filter (\<lambda>c. c \<noteq> b) bs)"
    using map_pop_holds [OF ids bs(1), of b] bs(2) Some by (simp_all add: cache'_def prod_eq_iff)
  have other: "holds cache' key' bs' = holds ?c key' bs'" if "key' \<noteq> key" for key' bs'
    unfolding cache'_def by (rule map_pop_other [OF that])
  define p2 where "p2 = update_blk (Block b) reset_hash (metric (OnEvicted (Block b)) p\<lparr>cached_block_hash_to_block := cache'\<rparr>)"
  have fields: "blk p2 y = (if y = Block b then reset_hash (blk p y) else blk p y)" for y
    by (simp add: p2_def blk_update_blk) (simp add: blk_def)
  have queue: "queue_rep (free_block_queue p2) zs = queue_rep (free_block_queue p) zs" for zs
    by (simp add: p2_def queue_rep_update_blk reset_hash_def)
  have fields': "cached_block_hash_to_block p2 = cache'" "num_gpu_blocks p2 = num_gpu_blocks p"
    "blocks p2 = blocks p" "null_block p2 = null_block p"
    by (simp_all add: p2_def)
  have bid: "block_id (blk p (Block b)) = int b" using assms by (simp add: pool_rel_defs)
  have "\<exists>bs. holds cache' k bs \<and> set bs = {c. hash_of p2 c = Some k}" for k
  proof (cases "k = key")
    case True
    have "set (filter (\<lambda>c. c \<noteq> b) bs) = {c. hash_of p2 c = Some k}"
      using bs(2) True by (auto simp: fields reset_hash_def)
    with h' True show ?thesis by blast
  next
    case False
    from pool_rel_cached [OF assms] obtain bs' where "holds ?c k bs'" "set bs' = {b. hash_of p b = Some k}"
      by blast
    moreover have "{b. hash_of p b = Some k} = {c. hash_of p2 c = Some k}"
      using False Some by (auto simp: fields reset_hash_def)
    ultimately show ?thesis using other [OF False] by blast
  qed
  then have "pool_rel p2 held xs"
    using assms fields' queue unfolding pool_rel_defs by (simp add: fields reset_hash_def)
  moreover have "snd (maybe_evict_cached_block ui (Block b) p) = p2 \<or>
      (\<exists>es. snd (maybe_evict_cached_block ui (Block b) p) = p2\<lparr>kv_event_queue := es\<rparr>)"
    using Some pop bid by (auto simp: maybe_evict_cached_block_def Let_def p2_def)
  moreover have "blk (p2\<lparr>kv_event_queue := es\<rparr>) = blk p2" for es by (simp add: blk_def fun_eq_iff)
  ultimately show ?thesis
    by (elim disjE exE) (simp_all add: fields fields' reset_hash_def)
qed

section \<open>Allocation\<close>

lemma take_new_block_rel:
  assumes "pool_rel p held xs" and "0 < b" and "b < pool_size p" and "b \<notin> set xs" and "b \<notin># held"
  shows "\<exists>p'. take_new_block ui (Block b) p = Inr p' \<and> pool_rel p' (add_mset b held) xs \<and>
    num_gpu_blocks p' = num_gpu_blocks p \<and> enable_caching p' = enable_caching p \<and>
    (enable_caching p \<longrightarrow> hash_of p' b = None) \<and> (\<forall>c. c \<noteq> b \<longrightarrow> hash_of p' c = hash_of p c)"
proof -
  define p1 where "p1 = (if enable_caching p then snd (maybe_evict_cached_block ui (Block b) p) else p)"
  have p1: "pool_rel p1 held xs" "refs p1 b = refs p b" "num_gpu_blocks p1 = num_gpu_blocks p"
    "enable_caching p \<longrightarrow> hash_of p1 b = None" "\<forall>c. c \<noteq> b \<longrightarrow> hash_of p1 c = hash_of p c"
    using maybe_evict_rel [OF assms(1), of ui b] assms(1) by (simp_all add: p1_def)
  have "enable_caching p1 = enable_caching p"
    by (auto simp: p1_def maybe_evict_cached_block_def Let_def split: option.splits prod.splits)
  moreover have "refs p b = 0" using assms by (simp add: pool_rel_def refs_ok_def not_in_iff)
  ultimately have "take_new_block ui (Block b) p = Inr (metric (OnAllocated (Block b)) (add_ref 1 (Block b) p1))"
    using p1(2) by (simp add: take_new_block_def flip: p1_def)
  moreover have "pool_rel (add_ref 1 (Block b) p1) (add_mset b held) xs"
    using pool_rel_add_ref [OF p1(1)] assms p1(3) by simp
  ultimately show ?thesis
    using p1 \<open>enable_caching p1 = enable_caching p\<close> by simp
qed

lemma take_new_blocks_rel:
  assumes "pool_rel p held xs" and "distinct bs" and "set bs \<subseteq> {0 <..< pool_size p}"
    and "set bs \<inter> (set xs \<union> set_mset held) = {}"
  shows "\<exists>p'. fold_res (take_new_block ui) (map Block bs) p = Inr p' \<and> pool_rel p' (held + mset bs) xs \<and>
    num_gpu_blocks p' = num_gpu_blocks p \<and> enable_caching p' = enable_caching p \<and>
    (enable_caching p \<longrightarrow> (\<forall>b \<in> set bs. hash_of p' b = None)) \<and>
    (\<forall>c. c \<notin> set bs \<longrightarrow> hash_of p' c = hash_of p c)"
  using assms
proof (induction bs arbitrary: p held)
  case Nil
  then show ?case by simp
next
  case (Cons b bs)
  then obtain p1 where p1: "take_new_block ui (Block b) p = Inr p1" "pool_rel p1 (add_mset b held) xs"
    "num_gpu_blocks p1 = num_gpu_blocks p" "enable_caching p1 = enable_caching p"
    "enable_caching p \<longrightarrow> hash_of p1 b = None" "\<forall>c. c \<noteq> b \<longrightarrow> hash_of p1 c = hash_of p c"
    using take_new_block_rel [of p held xs b ui] by auto
  from Cons.IH [OF p1(2)] Cons.prems p1(3) obtain p' where
    "fold_res (take_new_block ui) (map Block bs) p1 = Inr p'" "pool_rel p' (add_mset b held + mset bs) xs"
    "num_gpu_blocks p' = num_gpu_blocks p1" "enable_caching p' = enable_caching p1"
    "enable_caching p1 \<longrightarrow> (\<forall>b \<in> set bs. hash_of p' b = None)" "\<forall>c. c \<notin> set bs \<longrightarrow> hash_of p' c = hash_of p1 c"
    by auto
  with p1 Cons.prems(2) show ?case by auto
qed

lemma get_new_blocks_rel:
  assumes "pool_rel p held xs" and "n \<le> length xs"
  shows "\<exists>p'. get_new_blocks ui (int n) p = Inr (map Block (take n xs), p') \<and>
    pool_rel p' (held + mset (take n xs)) (drop n xs) \<and> num_gpu_blocks p' = num_gpu_blocks p \<and>
    (enable_caching p \<longrightarrow> (\<forall>b \<in> set (take n xs). hash_of p' b = None)) \<and>
    (\<forall>c. c \<notin> set (take n xs) \<longrightarrow> hash_of p' c = hash_of p c)"
proof -
  from assms(1) have rep: "queue_rep (free_block_queue p) xs" and free: "set xs \<inter> set_mset held = {}"
    "set xs \<subseteq> {0 <..< pool_size p}" by (auto simp: pool_rel_def refs_ok_def)
  from fq.pop_first [OF rep assms(2)] obtain q where
    q: "popleft_n (int n) (free_block_queue p) = Inr (map Block (take n xs), q)"
    "queue_rep q (drop n xs)" "same_contents (free_block_queue p) q" by blast
  have sub: "set (take n xs) \<subseteq> set xs" "set (drop n xs) \<subseteq> set xs" by (simp_all add: set_take_subset set_drop_subset)
  have dist: "distinct xs" using rep by (rule fq.rep_distinct)
  let ?p = "p\<lparr>free_block_queue := q\<rparr>"
  have rel: "pool_rel ?p held (drop n xs)"
    by (rule pool_rel_queue [OF assms(1) q(3,2)]) (use free sub in auto)
  have disj: "set (take n xs) \<inter> (set (drop n xs) \<union> set_mset held) = {}"
    using free sub set_take_disj_set_drop_if_distinct [OF dist, of n n] by auto
  from sub(1) free(2) have range: "set (take n xs) \<subseteq> {0 <..< pool_size ?p}" by simp
  from take_new_blocks_rel [OF rel distinct_take [OF dist] range disj, of ui] obtain p' where
    p': "fold_res (take_new_block ui) (map Block (take n xs)) ?p = Inr p'"
    "pool_rel p' (held + mset (take n xs)) (drop n xs)" "num_gpu_blocks p' = num_gpu_blocks p"
    "enable_caching p \<longrightarrow> (\<forall>b \<in> set (take n xs). hash_of p' b = None)"
    "\<forall>c. c \<notin> set (take n xs) \<longrightarrow> hash_of p' c = hash_of ?p c" by auto
  have "hash_of ?p c = hash_of p c" for c
    using blk_same_contents [OF q(3)] by (simp add: contents_def)
  moreover have "int n \<le> get_num_free_blocks p"
    using rep assms(2) by (simp add: get_num_free_blocks_def queue_rep_def)
  ultimately show ?thesis
    using q(1) p' by (simp add: get_new_blocks_def)
qed

section \<open>Touching and freeing\<close>

lemma touch_block_rel:
  assumes "pool_rel p held xs" and "b < pool_size p" and "0 < b \<longrightarrow> b \<in> set xs \<or> b \<in># held"
  shows "\<exists>p'. touch_block (Block b) p = Inr p' \<and> num_gpu_blocks p' = num_gpu_blocks p \<and>
    (\<forall>c. hash_of p' c = hash_of p c) \<and>
    pool_rel p' (if b = 0 then held else add_mset b held) (remove1 b xs)"
proof -
  from assms(1) have rep: "queue_rep (free_block_queue p) xs" and free: "set xs \<inter> set_mset held = {}"
    "set xs \<subseteq> {0 <..< pool_size p}" and null: "is_null (blk p (Block b)) \<longleftrightarrow> b = 0"
    by (auto simp: pool_rel_defs)
  note dist = fq.rep_distinct [OF rep]
  consider (null) "b = 0" | (queued) "b \<in> set xs" | (held) "b \<in># held" "0 < b" using assms(3) by blast
  then show ?thesis
  proof cases
    case null
    then have "b \<notin> set xs" using free by auto
    with null pool_rel_add_ref_null [OF assms(1)] \<open>is_null (blk p (Block b)) \<longleftrightarrow> b = 0\<close> show ?thesis
      by (simp add: touch_block_def remove1_idem)
  next
    case queued
    note b = pool_rel_free [OF assms(1) queued]
    from fq.del_member [OF rep queued] obtain q where q: "queue_remove (Block b) (free_block_queue p) = Inr q"
      "queue_rep q (remove1 b xs)" "same_contents (free_block_queue p) q" by blast
    have rel: "pool_rel (p\<lparr>free_block_queue := q\<rparr>) held (remove1 b xs)"
      by (rule pool_rel_queue [OF assms(1) q(3,2)]) (use free set_remove1_subset [of b xs] in auto)
    have "pool_rel (add_ref 1 (Block b) (p\<lparr>free_block_queue := q\<rparr>)) (add_mset b held) (remove1 b xs)"
      by (rule pool_rel_add_ref [OF rel]) (use b dist in simp_all)
    moreover have "hash_of (p\<lparr>free_block_queue := q\<rparr>) c = hash_of p c" for c
      using blk_same_contents [OF q(3)] by (simp add: contents_def)
    ultimately show ?thesis using b q(1) by (simp add: touch_block_def)
  next
    case held
    then have "b \<notin> set xs" using free by auto
    moreover have "refs p b \<noteq> 0" using held assms(1) by (simp add: pool_rel_def refs_ok_def)
    ultimately show ?thesis
      using pool_rel_add_ref [OF assms(1) held(2) assms(2)] held by (simp add: touch_block_def remove1_idem)
  qed
qed

lemma touch_rel:
  assumes "pool_rel p held xs" and "set bs \<subseteq> {..< pool_size p}"
    and "{0 <..< pool_size p} \<subseteq> set xs \<union> set_mset held"
  shows "\<exists>p'. touch (map Block bs) p = Inr p' \<and> num_gpu_blocks p' = num_gpu_blocks p \<and>
    (\<forall>c. hash_of p' c = hash_of p c) \<and>
    pool_rel p' (held + mset (filter (\<lambda>b. b \<noteq> 0) bs)) (filter (\<lambda>x. x \<notin> set bs) xs) \<and>
    {0 <..< pool_size p} \<subseteq> set (filter (\<lambda>x. x \<notin> set bs) xs) \<union> set_mset (held + mset (filter (\<lambda>b. b \<noteq> 0) bs))"
  using assms
proof (induction bs arbitrary: p held xs)
  case Nil
  then show ?case by (simp add: touch_def)
next
  case (Cons b bs)
  from Cons.prems(2) have b1: "b < pool_size p" by simp
  with Cons.prems(3) have b: "0 < b \<longrightarrow> b \<in> set xs \<or> b \<in># held" by (auto simp: subset_iff)
  let ?held = "if b = 0 then held else add_mset b held"
  from touch_block_rel [OF Cons.prems(1) b1 b] obtain p1 where p1: "touch_block (Block b) p = Inr p1"
    "num_gpu_blocks p1 = num_gpu_blocks p" "\<forall>c. hash_of p1 c = hash_of p c" "pool_rel p1 ?held (remove1 b xs)" by blast
  have dist: "distinct xs" using Cons.prems(1) by (simp add: pool_rel_def refs_ok_def queue_rep_def)
  have left: "filter (\<lambda>x. x \<notin> set bs) (remove1 b xs) = filter (\<lambda>x. x \<notin> set (b # bs)) xs"
    using dist by (simp add: distinct_remove1_removeAll removeAll_filter_not_eq conj_commute) (metis (mono_tags, lifting))
  have "{0 <..< pool_size p1} \<subseteq> set (remove1 b xs) \<union> set_mset ?held"
    using Cons.prems(3) dist p1(2) by auto
  from Cons.IH [OF p1(4) _ this] Cons.prems(2) p1(2) obtain p' where
    p': "touch (map Block bs) p1 = Inr p'" "num_gpu_blocks p' = num_gpu_blocks p" "\<forall>c. hash_of p' c = hash_of p1 c"
    "pool_rel p' (?held + mset (filter (\<lambda>b. b \<noteq> 0) bs)) (filter (\<lambda>x. x \<notin> set bs) (remove1 b xs))"
    "{0 <..< pool_size p} \<subseteq> set (filter (\<lambda>x. x \<notin> set bs) (remove1 b xs)) \<union> set_mset (?held + mset (filter (\<lambda>b. b \<noteq> 0) bs))"
    by auto
  have "?held + mset (filter (\<lambda>b. b \<noteq> 0) bs) = held + mset (filter (\<lambda>b. b \<noteq> 0) (b # bs))" by simp
  with p' p1 left show ?case by (simp only: touch_def list.map fold_res.simps rbind_Inr) auto
qed

lemma fold_add_ref:
  "ref_cnt (blk (fold (add_ref k) xs p) y) = ref_cnt (blk p y) + k * int (count_list xs y) \<and>
   block_hash (blk (fold (add_ref k) xs p) y) = block_hash (blk p y) \<and>
   block_id (blk (fold (add_ref k) xs p) y) = block_id (blk p y) \<and>
   is_null (blk (fold (add_ref k) xs p) y) = is_null (blk p y) \<and>
   queue_rep (free_block_queue (fold (add_ref k) xs p)) zs = queue_rep (free_block_queue p) zs \<and>
   num_gpu_blocks (fold (add_ref k) xs p) = num_gpu_blocks p \<and> blocks (fold (add_ref k) xs p) = blocks p \<and>
   null_block (fold (add_ref k) xs p) = null_block p \<and>
   cached_block_hash_to_block (fold (add_ref k) xs p) = cached_block_hash_to_block p"
proof (induction xs arbitrary: p)
  case (Cons x xs)
  from Cons.IH [of "add_ref k x p"] show ?case by (simp add: algebra_simps)
qed simp

lemma free_blocks_rel:
  assumes "pool_rel p held xs" and "distinct (filter (\<lambda>b. b \<noteq> 0) bs)" and "mset (filter (\<lambda>b. b \<noteq> 0) bs) \<subseteq># held"
  defines "held' \<equiv> held - mset (filter (\<lambda>b. b \<noteq> 0) bs)"
  shows "\<exists>p'. free_blocks (map Block bs) p = Inr p' \<and> num_gpu_blocks p' = num_gpu_blocks p \<and>
    (\<forall>c. hash_of p' c = hash_of p c) \<and>
    pool_rel p' held' (xs @ filter (\<lambda>b. b \<noteq> 0 \<and> b \<notin># held') bs)"
proof -
  define p1 where "p1 = fold (add_ref (- 1)) (map Block bs) p"
  note p1 = fold_add_ref [of "- 1" "map Block bs" p, folded p1_def]
  have count: "count_list (map Block bs) (Block b) = count (mset (filter (\<lambda>b. b \<noteq> 0) bs)) b" if "0 < b" for b
    using that by (induction bs) auto
  have refs: "refs p1 b = int (count held' b)" if "0 < b" for b
    using that assms(1) p1 count [OF that] mset_subset_eq_count [OF assms(3), of b]
    by (simp add: pool_rel_def refs_ok_def held'_def of_nat_diff)
  define new where "new = filter (\<lambda>b. b \<noteq> 0 \<and> b \<notin># held') bs"
  have free: "filter (\<lambda>x. ref_cnt (blk p1 x) = 0 \<and> \<not> is_null (blk p1 x)) (map Block bs) = map Block new"
  proof -
    have "(ref_cnt (blk p1 (Block b)) = 0 \<and> \<not> is_null (blk p1 (Block b))) \<longleftrightarrow> b \<noteq> 0 \<and> b \<notin># held'" for b
    proof (cases "b = 0")
      case True
      then show ?thesis using p1 assms(1) by (simp add: pool_rel_def static_ok_def)
    next
      case False
      then have "is_null (blk p1 (Block b)) = False"
        using p1 assms(1) by (simp add: pool_rel_def static_ok_def)
      with False refs [of b] show ?thesis by (simp only: not_in_iff) simp
    qed
    then show ?thesis by (simp add: filter_map new_def comp_def)
  qed
  have new: "distinct new" "set new \<subseteq> set_mset held" "set new \<inter> set_mset held' = {}" "set new \<subseteq> set (filter (\<lambda>b. b \<noteq> 0) bs)"
  proof -
    have "new = filter (\<lambda>b. b \<notin># held') (filter (\<lambda>b. b \<noteq> 0) bs)" by (simp add: new_def conj_commute)
    with assms(2) show "distinct new" by (metis distinct_filter)
    show "set new \<subseteq> set (filter (\<lambda>b. b \<noteq> 0) bs)" "set new \<inter> set_mset held' = {}" by (auto simp: new_def)
    with set_mset_mono [OF assms(3)] show "set new \<subseteq> set_mset held" by (simp add: new_def)
  qed
  from assms(1) have held: "set xs \<inter> set_mset held = {}" "set xs \<union> set_mset held \<subseteq> {0 <..< pool_size p}"
    by (simp_all add: pool_rel_def refs_ok_def)
  have held': "set_mset held' \<subseteq> set_mset held" unfolding held'_def by (auto dest: in_diffD)
  have rel1: "pool_rel p1 held' xs"
    using assms(1) p1 refs held held' unfolding pool_rel_defs by (auto simp: subset_iff)
  have rep: "queue_rep (free_block_queue p1) xs" using rel1 by (simp add: pool_rel_def refs_ok_def)
  from fq.add_law [OF rep new(1)] new(2) held obtain q where
    q: "queue_append_n (map Block new) (free_block_queue p1) = Inr q" "queue_rep q (xs @ new)"
    "same_contents (free_block_queue p1) q" by blast
  have "pool_rel (p1\<lparr>free_block_queue := q\<rparr>) held' (xs @ new)"
    by (rule pool_rel_queue [OF rel1 q(3,2)]) (use new held held' p1 in auto)
  moreover have "hash_of (p1\<lparr>free_block_queue := q\<rparr>) c = hash_of p c" for c
    using blk_same_contents [OF q(3)] fold_add_ref [of "- 1" "map Block bs" p, folded p1_def] by (simp add: contents_def)
  ultimately show ?thesis
    using q(1) p1 free by (simp add: free_blocks_def new_def flip: p1_def)
qed

section \<open>Hashes at the block size of a group\<close>

definition group_hash :: "Request \<Rightarrow> nat \<Rightarrow> nat \<Rightarrow> bytes" where
  "group_hash r k i = concat (py_slice (block_hashes r) (i * k) (i * k + k))"

lemma upto_int_upt: "[int a .. int b - 1] = map int [a..<b]"
proof (cases "a \<le> b")
  case True
  then show ?thesis
  proof (induction b rule: dec_induct)
    case (step n)
    then have "[int a .. int (Suc n) - 1] = [int a .. int n - 1] @ [int n]"
      using upto_rec2 [of "int a" "int n"] by simp
    with step show ?case by simp
  qed simp
qed simp

lemma fold_merge_hashes:
  assumes "b \<le> length hs"
  shows "fold_res (\<lambda>i merged. rbind (py_nth hs i) (\<lambda>h. Inr (merged @ h))) (map int [a..<b]) m =
    Inr (m @ concat (map ((!) hs) [a..<b]))"
  using assms
proof (induction b)
  case (Suc b)
  then show ?case by (cases "a \<le> b") (simp_all add: fold_res_append py_nth_of_nat)
qed simp

lemma py_slice_nth: "j \<le> length hs \<Longrightarrow> py_slice hs i j = map ((!) hs) [i..<j]"
  by (rule nth_equalityI) (simp_all add: py_slice_def)

lemma get_value_at_eq:
  assumes "0 < k" and "i * k + k \<le> length hs"
  shows "get_value_at \<lparr>fine_hashes = hs, scale_factor = int k\<rparr> (int i) = Inr (concat (py_slice hs (i * k) (i * k + k)))"
proof -
  from assms have nth: "py_nth hs (int i * int k) = Inr (hs ! (i * k))"
    by (simp add: py_nth_of_nat flip: of_nat_mult)
  have idx: "[int i * int k + 1 .. int i * int k + int k - 1] = map int [Suc (i * k)..<i * k + k]"
    using upto_int_upt [of "Suc (i * k)" "i * k + k"] by (simp add: algebra_simps)
  have "[i * k..<i * k + k] = i * k # [Suc (i * k)..<i * k + k]" using assms(1) by (simp add: upt_conv_Cons)
  then show ?thesis
    using fold_merge_hashes [OF assms(2), of "Suc (i * k)" "hs ! (i * k)"] py_slice_nth [OF assms(2), of "i * k"]
    by (simp add: get_value_at_def nth idx)
qed

lemma group_hash_one: "i < length (block_hashes r) \<Longrightarrow> group_hash r 1 i = block_hashes r ! i"
  by (simp add: group_hash_def py_slice_nth)

lemma group_hashes_from_eq:
  assumes "0 < k" and "0 < hash_block_size p"
  shows "group_hashes_from p r (k * hash_block_size p) start =
    Inr (map (group_hash r k) [start..<length (block_hashes r) div k])"
proof (cases "k = 1")
  case True
  have "drop start (block_hashes r) = map (group_hash r 1) [start..<length (block_hashes r)]"
    by (rule nth_equalityI) (simp_all add: group_hash_one del: One_nat_def)
  then show ?thesis by (simp add: group_hashes_from_def True)
next
  case False
  let ?hs = "block_hashes r"
  have "map_res (get_value_at \<lparr>fine_hashes = ?hs, scale_factor = int k\<rparr>) (map int [start..<length ?hs div k]) =
      Inr (map (group_hash r k) [start..<length ?hs div k])"
    unfolding map_res_eq_Inr
  proof (intro conjI allI impI)
    fix i assume "i < length (map int [start..<length ?hs div k])"
    then have i: "start + i < length ?hs div k" by simp
    then have "Suc (start + i) \<le> length ?hs div k" by simp
    with assms(1) have "Suc (start + i) * k \<le> length ?hs" by (simp only: less_eq_div_iff_mult_less_eq)
    then have "(start + i) * k + k \<le> length ?hs" by (simp add: algebra_simps)
    from get_value_at_eq [OF assms(1) this] i show
      "get_value_at \<lparr>fine_hashes = ?hs, scale_factor = int k\<rparr> (map int [start..<length ?hs div k] ! i) =
        Inr (map (group_hash r k) [start..<length ?hs div k] ! i)"
      by (simp add: group_hash_def del: of_nat_add)
  qed simp
  moreover have "int (length ?hs) div int k = int (length ?hs div k)" by (simp add: zdiv_int)
  ultimately show ?thesis
    using False assms upto_int_upt [of start "length ?hs div k"]
    by (simp add: group_hashes_from_def new_BlockHashListWithBlockSize_def coarse_from_def coarse_len_def)
qed

lemma group_hash_at_eq:
  assumes "0 < k" and "0 < hash_block_size p" and "i * k + k \<le> length (block_hashes r)"
  shows "group_hash_at p r (k * hash_block_size p) (int i) = Inr (group_hash r k i)"
proof (cases "k = 1")
  case True
  with assms(3) show ?thesis by (simp add: group_hash_at_def py_nth_of_nat group_hash_one del: One_nat_def)
next
  case False
  with assms get_value_at_eq [OF assms(1,3)] show ?thesis
    by (simp add: group_hash_at_def new_BlockHashListWithBlockSize_def group_hash_def)
qed

section \<open>Caching full blocks\<close>

lemma pool_rel_insert:
  assumes "pool_rel p held xs" and "0 < b" and "b < pool_size p" and "hash_of p b = None"
    and p1_def: "p1 = update_blk (Block b) (\<lambda>_. (blk p (Block b))\<lparr>block_hash := Some key\<rparr>) p"
  shows "pool_rel (p1\<lparr>cached_block_hash_to_block :=
    map_insert (store (free_block_queue p1)) key (Block b) (cached_block_hash_to_block p1)\<rparr>) held xs"
    (is "pool_rel ?p2 held xs")
proof -
  have blk1: "blk p1 y = (if y = Block b then (blk p y)\<lparr>block_hash := Some key\<rparr> else blk p y)" for y
    by (simp add: p1_def blk_update_blk)
  have blk2: "blk ?p2 = blk p1" by (simp add: blk_def fun_eq_iff)
  have ids: "ids_ok (store (free_block_queue p1))"
    using assms(1) blk1 by (simp add: pool_rel_defs ids_ok_def flip: blk_def)
  have cache1: "cached_block_hash_to_block p1 = cached_block_hash_to_block p" by (simp add: p1_def)
  have queue: "queue_rep (free_block_queue ?p2) ys = queue_rep (free_block_queue p) ys" for ys
    by (rule queue_rep_cong) (auto simp: nxt_def prv_def p1_def update_blk_def blk_def fun_eq_iff)
  have "\<exists>bs. holds (cached_block_hash_to_block ?p2) k bs \<and> set bs = {c. hash_of p1 c = Some k}" for k
  proof -
    from pool_rel_cached [OF assms(1)] obtain bs where
      bs: "holds (cached_block_hash_to_block p) k bs" "set bs = {c. hash_of p c = Some k}" by blast
    show ?thesis
    proof (cases "k = key")
      case True
      have "b \<notin> set bs" using bs(2) assms(4) by simp
      with map_insert_holds [OF ids, of "cached_block_hash_to_block p" key bs b] bs True
      have "holds (cached_block_hash_to_block ?p2) k (bs @ [b])" by (simp add: cache1)
      moreover have "set (bs @ [b]) = {c. hash_of p1 c = Some k}" using bs(2) True by (auto simp: blk1)
      ultimately show ?thesis by blast
    next
      case False
      then have "{c. hash_of p1 c = Some k} = {c. hash_of p c = Some k}" using assms(4) by (auto simp: blk1)
      with bs map_insert_other [OF False] show ?thesis by (auto simp: cache1)
    qed
  qed
  moreover have fields: "num_gpu_blocks p1 = num_gpu_blocks p" "blocks p1 = blocks p" "null_block p1 = null_block p"
    by (simp_all add: p1_def)
  ultimately have "cache_ok ?p2" unfolding cache_ok_def blk2
    using assms(1-3) by (auto simp: blk1 pool_rel_def cache_ok_def)
  moreover have "static_ok ?p2" unfolding static_ok_def blk2
    using assms(1) fields by (simp add: blk1 pool_rel_def static_ok_def)
  moreover have "refs_ok ?p2 held xs" unfolding refs_ok_def blk2 queue
    using assms(1) fields by (simp add: blk1 pool_rel_def refs_ok_def)
  ultimately show ?thesis by (simp add: pool_rel_def)
qed

lemma cache_block_rel:
  assumes "pool_rel p held xs" and "b < pool_size p" and "0 < b \<longrightarrow> hash_of p b = None"
    and "i < length hs" and "make_block_hash_with_group_id (hs ! i) g = Inr key"
  shows "\<exists>p' nh'. cache_block ui hs g (i, Block b) (p, nh) = Inr (p', nh') \<and> pool_rel p' held xs \<and>
    num_gpu_blocks p' = num_gpu_blocks p \<and> enable_kv_cache_events p' = enable_kv_cache_events p \<and>
    (0 < b \<longrightarrow> hash_of p' b = Some key) \<and> (\<forall>c. c \<noteq> b \<longrightarrow> hash_of p' c = hash_of p c) \<and>
    hash_block_size p' = hash_block_size p"
proof (cases "b = 0")
  case True
  then have "is_null (blk p (Block b))" using assms(1) by (simp add: pool_rel_def static_ok_def)
  with True assms(1) show ?thesis by (simp add: cache_block_def)
next
  case False
  then have "\<not> is_null (blk p (Block b))" using assms(1) by (simp add: pool_rel_def static_ok_def)
  define p1 where "p1 = update_blk (Block b) (\<lambda>_. (blk p (Block b))\<lparr>block_hash := Some key\<rparr>) p"
  define p2 where "p2 = p1\<lparr>cached_block_hash_to_block :=
    map_insert (store (free_block_queue p1)) key (Block b) (cached_block_hash_to_block p1)\<rparr>"
  have "cache_block ui hs g (i, Block b) (p, nh) =
      Inr (p2, map_option (\<lambda>l. l @ [maybe_convert_block_hash ui (hs ! i)]) nh)"
    using \<open>\<not> is_null (blk p (Block b))\<close> False assms
    by (simp add: cache_block_def set_block_hash_def p1_def p2_def py_nth_of_nat Let_def)
  moreover have "pool_rel p2 held xs"
    unfolding p2_def by (rule pool_rel_insert [OF _ _ _ _ p1_def]) (use assms False in simp_all)
  moreover have "hash_of p2 c = (if c = b then Some key else hash_of p c)" for c
    using blk_update_blk [of "Block b" _ p "Block c"] by (simp add: p2_def p1_def blk_def)
  moreover have "num_gpu_blocks p2 = num_gpu_blocks p" "enable_kv_cache_events p2 = enable_kv_cache_events p"
    "hash_block_size p2 = hash_block_size p"
    by (simp_all add: p2_def p1_def)
  ultimately show ?thesis using False by auto
qed

lemma cache_blocks_rel:
  assumes "pool_rel p held xs" and "set bs \<subseteq> {..< pool_size p}" and "distinct (filter (\<lambda>b. b \<noteq> 0) bs)"
    and "\<forall>b \<in> set bs. 0 < b \<longrightarrow> hash_of p b = None" and "k + length bs \<le> length hs"
    and "\<forall>h. \<exists>key. make_block_hash_with_group_id h g = Inr key"
  shows "\<exists>p' nh'. fold_res (cache_block ui hs g) (enumerate k (map Block bs)) (p, nh) = Inr (p', nh') \<and>
    pool_rel p' held xs \<and> num_gpu_blocks p' = num_gpu_blocks p \<and> hash_block_size p' = hash_block_size p \<and>
    enable_kv_cache_events p' = enable_kv_cache_events p \<and>
    (\<forall>i < length bs. 0 < bs ! i \<longrightarrow>
       (\<exists>key. make_block_hash_with_group_id (hs ! (k + i)) g = Inr key \<and> hash_of p' (bs ! i) = Some key)) \<and>
    (\<forall>c. c \<notin> set bs \<or> c = 0 \<longrightarrow> hash_of p' c = hash_of p c)"
  using assms(1-5)
proof (induction bs arbitrary: p k nh)
  case Nil
  then show ?case by simp
next
  case (Cons b bs)
  from assms(6) obtain key where key: "make_block_hash_with_group_id (hs ! k) g = Inr key" by blast
  from Cons.prems have b: "b < pool_size p" "0 < b \<longrightarrow> hash_of p b = None" "k < length hs" by auto
  from cache_block_rel [OF Cons.prems(1) b key, of ui nh] obtain p1 nh1 where
    p1: "cache_block ui hs g (k, Block b) (p, nh) = Inr (p1, nh1)" "pool_rel p1 held xs"
    "num_gpu_blocks p1 = num_gpu_blocks p" "enable_kv_cache_events p1 = enable_kv_cache_events p"
    "0 < b \<longrightarrow> hash_of p1 b = Some key" "\<forall>c. c \<noteq> b \<longrightarrow> hash_of p1 c = hash_of p c"
    "hash_block_size p1 = hash_block_size p" by blast
  have fresh: "\<forall>c \<in> set bs. 0 < c \<longrightarrow> hash_of p1 c = None"
    using Cons.prems(3,4) p1(6) by (auto split: if_splits)
  have null: "hash_of p1 0 = hash_of p 0"
    using pool_rel_null [OF p1(2)] pool_rel_null [OF Cons.prems(1)] by simp
  from Cons.IH [OF p1(2) _ _ fresh, of "Suc k" nh1] Cons.prems(2,3,5) p1(3) obtain p' nh' where
    p': "fold_res (cache_block ui hs g) (enumerate (Suc k) (map Block bs)) (p1, nh1) = Inr (p', nh')"
    "pool_rel p' held xs" "num_gpu_blocks p' = num_gpu_blocks p1" "hash_block_size p' = hash_block_size p1"
    "enable_kv_cache_events p' = enable_kv_cache_events p1"
    "\<forall>i < length bs. 0 < bs ! i \<longrightarrow>
       (\<exists>key. make_block_hash_with_group_id (hs ! (Suc k + i)) g = Inr key \<and> hash_of p' (bs ! i) = Some key)"
    "\<forall>c. c \<notin> set bs \<or> c = 0 \<longrightarrow> hash_of p' c = hash_of p1 c"
    by (auto split: if_splits)
  have "\<exists>key. make_block_hash_with_group_id (hs ! (k + i)) g = Inr key \<and> hash_of p' ((b # bs) ! i) = Some key"
    if "i < length (b # bs)" "0 < (b # bs) ! i" for i
    using that key p1(5) p'(6,7) Cons.prems(3) by (cases i) (auto split: if_splits)
  moreover have "hash_of p' c = hash_of p c" if "c \<notin> set (b # bs) \<or> c = 0" for c
    using that p'(7) p1(6) null by auto
  ultimately show ?case
    using p1 p' by simp
qed

lemma event_extra_keys_defined:
  assumes "features_ok (mm_features r)" and "memo_ok sha256 r" and "n \<le> length bs"
  shows "\<exists>keys m. event_extra_keys sha256 p bs block_size [a..<n] r = Inr (keys, r\<lparr>embeds_hashes := m\<rparr>) \<and>
    memo_ok sha256 (r\<lparr>embeds_hashes := m\<rparr>)"
proof -
  have "\<exists>keys' idx' m. fold_res (\<lambda>i (keys, mm_idx, r).
       rbind (py_nth bs (int i)) (\<lambda>x.
       if is_null (blk p x) then Inr (keys, mm_idx, r)
       else rbind (generate_block_hash_extra_keys sha256 r (i * block_size) (i * block_size + block_size) mm_idx)
         (\<lambda>(extra_keys, mm_idx', r'). Inr (keys @ [extra_keys], mm_idx', r'))))
       [a..<n] (keys, idx, r) = Inr (keys', idx', r\<lparr>embeds_hashes := m\<rparr>) \<and> memo_ok sha256 (r\<lparr>embeds_hashes := m\<rparr>)"
    if "idx_ok (mm_features r) (a * block_size) idx" for keys idx
    using assms(1,2) that
  proof (induction "n - a" arbitrary: a keys idx r)
    case 0
    then show ?case by (auto intro: exI [of _ "embeds_hashes r"])
  next
    case (Suc d)
    then have upt: "[a..<n] = a # [Suc a..<n]" and a: "a < length bs" and d: "d = n - Suc a"
      using assms(3) by (simp_all add: upt_conv_Cons)
    from a have nth: "py_nth bs (int a) = Inr (bs ! a)" by (simp add: py_nth_of_nat)
    have mono: "idx_ok (mm_features r) (Suc a * block_size) idx" by (rule idx_ok_mono [OF Suc.prems(3)]) simp
    from generate_keys_correct [OF Suc.prems(1) _ Suc.prems(3,2), of "a * block_size + block_size"]
    obtain idx' m where gen: "generate_block_hash_extra_keys sha256 r (a * block_size) (a * block_size + block_size) idx =
        Inr (extra_keys_spec sha256 r (a * block_size) (a * block_size + block_size), idx', r\<lparr>embeds_hashes := m\<rparr>)"
      "idx_ok (mm_features r) (Suc a * block_size) idx'" "memo_ok sha256 (r\<lparr>embeds_hashes := m\<rparr>)"
      by (auto simp: add.commute)
    show ?case
    proof (cases "is_null (blk p (bs ! a))")
      case True
      with Suc.hyps(1) [OF d Suc.prems(1,2) mono] nth show ?thesis by (simp add: upt)
    next
      case False
      from Suc.hyps(1) [OF d, of "r\<lparr>embeds_hashes := m\<rparr>" idx'] Suc.prems(1) gen(2,3) False nth show ?thesis
        by (simp add: upt gen(1))
    qed
  qed
  from this [of 0 "[]"] show ?thesis by (auto simp: event_extra_keys_def idx_ok_def)
qed

text \<open>What the callers of \<open>cache_full_blocks\<close> guarantee\<close>

definition cache_legal ::
    "(bytes \<Rightarrow> bytes) \<Rightarrow> BlockPool \<Rightarrow> Request \<Rightarrow> nat list \<Rightarrow> nat \<Rightarrow> nat \<Rightarrow> nat \<Rightarrow> int \<Rightarrow> bool" where
  "cache_legal sha256 p r bs num_cached num_full k g \<longleftrightarrow>
     num_full \<le> length bs \<and> set (py_slice bs num_cached num_full) \<subseteq> {..< pool_size p} \<and>
     distinct (filter (\<lambda>b. b \<noteq> 0) (py_slice bs num_cached num_full)) \<and>
     (\<forall>b \<in> set (py_slice bs num_cached num_full). 0 < b \<longrightarrow> hash_of p b = None) \<and>
     0 < k \<and> 0 < hash_block_size p \<and> num_full * k \<le> length (block_hashes r) \<and> 0 \<le> g \<and> g < 2 ^ 32 \<and>
     features_ok (mm_features r) \<and> memo_ok sha256 r"

lemma map_py_slice: "map f (py_slice xs i j) = py_slice (map f xs) i j"
  by (simp add: py_slice_def drop_map take_map)

lemma cache_full_blocks_rel:
  assumes "pool_rel p held xs" and legal: "cache_legal sha256 p r bs nc nf k g" and "nc < nf"
  shows "\<exists>p' r'. cache_full_blocks sha256 ui r (map Block bs) nc nf (k * hash_block_size p) g p = Inr (p', r') \<and>
    pool_rel p' held xs \<and> num_gpu_blocks p' = num_gpu_blocks p \<and>
    (\<forall>i. nc \<le> i \<and> i < nf \<and> 0 < bs ! i \<longrightarrow>
       (\<exists>key. make_block_hash_with_group_id (group_hash r k i) g = Inr key \<and> hash_of p' (bs ! i) = Some key)) \<and>
    (\<forall>c. c \<notin> set (py_slice bs nc nf) \<or> c = 0 \<longrightarrow> hash_of p' c = hash_of p c)"
proof -
  let ?new = "py_slice bs nc nf" and ?bsz = "k * hash_block_size p"
  let ?hs = "map (group_hash r k) [nc..<length (block_hashes r) div k]"
  note L = legal [unfolded cache_legal_def]
  from L have enough: "nf \<le> length (block_hashes r) div k" by (simp add: less_eq_div_iff_mult_less_eq)
  have len: "length ?new = nf - nc" using L by (simp add: length_py_slice)
  have keys: "\<forall>h. \<exists>key. make_block_hash_with_group_id h g = Inr key" using L by (simp add: make_block_hash_defined)
  define nh :: "ExternalBlockHash list option" where "nh = (if enable_kv_cache_events p then Some [] else None)"
  have room: "0 + length ?new \<le> length ?hs" using len enough by simp
  from L have new: "set ?new \<subseteq> {..< pool_size p}" "distinct (filter (\<lambda>b. b \<noteq> 0) ?new)"
    "\<forall>b \<in> set ?new. 0 < b \<longrightarrow> hash_of p b = None" by simp_all
  from cache_blocks_rel [OF assms(1) new room keys, of ui nh] obtain p1 nh1 where
    p1: "fold_res (cache_block ui ?hs g) (enumerate 0 (map Block ?new)) (p, nh) = Inr (p1, nh1)"
    "pool_rel p1 held xs" "num_gpu_blocks p1 = num_gpu_blocks p" "hash_block_size p1 = hash_block_size p"
    "\<forall>i < length ?new. 0 < ?new ! i \<longrightarrow>
       (\<exists>key. make_block_hash_with_group_id (?hs ! i) g = Inr key \<and> hash_of p1 (?new ! i) = Some key)"
    "\<forall>c. c \<notin> set ?new \<or> c = 0 \<longrightarrow> hash_of p1 c = hash_of p c" by (auto simp del: length_map)
  have hashes: "\<exists>key. make_block_hash_with_group_id (group_hash r k i) g = Inr key \<and> hash_of p1 (bs ! i) = Some key"
    if "nc \<le> i" "i < nf" "0 < bs ! i" for i
  proof -
    from that L have "?new ! (i - nc) = bs ! i" "i - nc < length ?new" "?hs ! (i - nc) = group_hash r k i"
      using enough by (simp_all add: py_slice_def)
    with p1(5) that(3) show ?thesis by metis
  qed
  have from_hashes: "group_hashes_from p r ?bsz nc = Inr ?hs" by (rule group_hashes_from_eq) (use L in simp_all)
  have "\<exists>parent. (if nc = 0 then Inr None else rbind (group_hash_at p1 r ?bsz (int nc - 1))
      (\<lambda>h. Inr (Some (maybe_convert_block_hash ui h)))) = (Inr parent :: ExternalBlockHash option res)"
  proof (cases nc)
    case (Suc j)
    have "j * k + k \<le> nf * k" using Suc assms(3) by (metis less_imp_le mult_Suc add.commute mult_le_mono1)
    with group_hash_at_eq [of k p1 j r] L p1(4) Suc show ?thesis by simp
  qed simp
  then obtain parent where parent: "(if nc = 0 then Inr None else rbind (group_hash_at p1 r ?bsz (int nc - 1))
      (\<lambda>h. Inr (Some (maybe_convert_block_hash ui h)))) = (Inr parent :: ExternalBlockHash option res)" ..
  from event_extra_keys_defined [of r sha256 nf "map Block bs" p1 ?bsz nc] L obtain ek m where
    ek: "event_extra_keys sha256 p1 (map Block bs) ?bsz [nc..<nf] r = Inr (ek, r\<lparr>embeds_hashes := m\<rparr>)" by auto
  have "nf \<le> length (block_hashes r)" using L by (meson div_le_dividend enough le_trans)
  with assms(3) p1(1) from_hashes
  have "\<exists>r' p'. cache_full_blocks sha256 ui r (map Block bs) nc nf ?bsz g p = Inr (p', r') \<and>
      (p' = p1 \<or> (\<exists>es. p' = p1\<lparr>kv_event_queue := es\<rparr>))"
    by (cases "enable_kv_cache_events p1")
      (simp_all add: cache_full_blocks_def Let_def map_py_slice parent ek flip: nh_def, blast)
  then obtain r' p' where run: "cache_full_blocks sha256 ui r (map Block bs) nc nf ?bsz g p = Inr (p', r')"
    and p': "p' = p1 \<or> (\<exists>es. p' = p1\<lparr>kv_event_queue := es\<rparr>)" by blast
  have "blk (p1\<lparr>kv_event_queue := es\<rparr>) = blk p1" for es by (simp add: blk_def fun_eq_iff)
  with p' p1(2,3) have "pool_rel p' held xs" "num_gpu_blocks p' = num_gpu_blocks p" "blk p' = blk p1" by auto
  with run hashes p1(6) show ?thesis by auto
qed

section \<open>Construction, eviction and reset\<close>

lemma new_BlockPool_rel:
  assumes "0 < n"
  shows "\<exists>p. new_BlockPool n caching hs ev me = Inr p \<and> pool_rel p {#} [1..<nat n] \<and> num_gpu_blocks p = n \<and>
    enable_caching p = caching \<and> hash_block_size p = hs \<and> (\<forall>b. hash_of p b = None)"
proof -
  let ?s = "\<lambda>x. new_block (case x of Block b \<Rightarrow> int b | _ \<Rightarrow> - 1)"
  let ?q = "new_queue ?s [0..<nat n]"
  have init: "queue_rep ?q (0 # [1..<nat n])" "\<forall>b. contents (store ?q (Block b)) = contents (?s (Block b))"
    using new_queue_correct [of "[0..<nat n]" ?s] assms by (simp_all add: new_block_def upt_conv_Cons)
  from popleft_cons [OF init(1)] obtain q where
    q: "popleft ?q = Inr (Block 0, q)" "queue_rep q [1..<nat n]" "same_contents ?q q" by blast
  have blocks: "contents (store q (Block b)) = (int b, 0, None, False)" for b
    using q(3) init(2) by (simp add: same_contents_def contents_def new_block_def)
  define p where "p = update_blk (Block 0) (\<lambda>b. b\<lparr>is_null := True\<rparr>)
    \<lparr>num_gpu_blocks = n, enable_caching = caching, hash_block_size = hs, blocks = map Block [0..<nat n],
     free_block_queue = q, cached_block_hash_to_block = [], null_block = Block 0, enable_kv_cache_events = ev,
     kv_event_queue = [], metrics_collector = (if me then Some [] else None)\<rparr>"
  have "new_BlockPool n caching hs ev me = Inr p"
    using assms q(1) by (simp add: new_BlockPool_def p_def Let_def)
  moreover have blk: "blk p (Block b) = (if b = 0 then (store q (Block 0))\<lparr>is_null := True\<rparr> else store q (Block b))" for b
    by (simp add: p_def blk_update_blk) (simp add: blk_def)
  have "queue_rep (free_block_queue p) [1..<nat n]"
    unfolding p_def by (subst queue_rep_update_blk) (use q(2) in simp_all)
  then have "pool_rel p {#} [1..<nat n]"
    using assms blocks unfolding pool_rel_defs blk contents_def by (auto simp: p_def holds_def)
  moreover have "num_gpu_blocks p = n" "enable_caching p = caching" "hash_block_size p = hs"
    by (simp_all add: p_def)
  moreover have "hash_of p b = None" for b
    using blocks [of b] blocks [of 0] by (simp add: blk contents_def)
  ultimately show ?thesis by blast
qed

lemma evict_blocks_rel:
  assumes "pool_rel p held xs" and "set bs \<subseteq> {..< pool_size p}"
  shows "\<exists>p'. evict_blocks ui (map int bs) p = Inr p' \<and> pool_rel p' held xs \<and> num_gpu_blocks p' = num_gpu_blocks p \<and>
    (\<forall>c. hash_of p' c = (if c \<in> set bs then None else hash_of p c))"
  using assms
proof (induction bs arbitrary: p)
  case Nil
  then show ?case by (simp add: evict_blocks_def)
next
  case (Cons b bs)
  define p1 where "p1 = snd (maybe_evict_cached_block ui (Block b) p)"
  have p1: "pool_rel p1 held xs" "hash_of p1 b = None" "\<forall>c. c \<noteq> b \<longrightarrow> hash_of p1 c = hash_of p c"
    "num_gpu_blocks p1 = num_gpu_blocks p"
    using maybe_evict_rel [OF Cons.prems(1), of ui b] by (simp_all add: p1_def)
  have "blocks p = map Block [0..<pool_size p]" using Cons.prems(1) by (simp add: pool_rel_def static_ok_def)
  with Cons.prems(2) have nth: "py_nth (blocks p) (int b) = Inr (Block b)" "int b < int (length (blocks p))"
    by (simp_all add: py_nth_of_nat del: int_nat_eq)
  from Cons.IH [OF p1(1)] Cons.prems(2) p1 nth show ?case
    by (auto simp: evict_blocks_def simp flip: p1_def)
qed

lemma reset_hash_fields [simp]:
  "next_free_block (reset_hash b) = next_free_block b" "prev_free_block (reset_hash b) = prev_free_block b"
  "ref_cnt (reset_hash b) = ref_cnt b" "block_id (reset_hash b) = block_id b" "is_null (reset_hash b) = is_null b"
  "block_hash (reset_hash b) = None" "reset_hash (reset_hash b) = reset_hash b"
  by (simp_all add: reset_hash_def)

lemma fold_reset_hash:
  "blk (fold (\<lambda>x. update_blk x reset_hash) xs p) y = (if y \<in> set xs then reset_hash (blk p y) else blk p y) \<and>
   queue_rep (free_block_queue (fold (\<lambda>x. update_blk x reset_hash) xs p)) zs = queue_rep (free_block_queue p) zs \<and>
   num_gpu_blocks (fold (\<lambda>x. update_blk x reset_hash) xs p) = num_gpu_blocks p \<and>
   blocks (fold (\<lambda>x. update_blk x reset_hash) xs p) = blocks p \<and>
   null_block (fold (\<lambda>x. update_blk x reset_hash) xs p) = null_block p \<and>
   cached_block_hash_to_block (fold (\<lambda>x. update_blk x reset_hash) xs p) = cached_block_hash_to_block p"
proof (induction xs arbitrary: p)
  case (Cons x xs)
  from Cons.IH [of "update_blk x reset_hash p"] show ?case
    by (simp add: blk_update_blk queue_rep_update_blk)
qed simp

lemma reset_prefix_cache_rel:
  assumes "pool_rel p {#} xs" and "{0 <..< pool_size p} \<subseteq> set xs"
  shows "\<exists>p'. reset_prefix_cache p = (True, p') \<and> pool_rel p' {#} xs \<and> num_gpu_blocks p' = num_gpu_blocks p \<and>
    cached_block_hash_to_block p' = [] \<and> (\<forall>b. hash_of p' b = None)"
proof -
  from assms have xs: "set xs = {0 <..< pool_size p}" "distinct xs" "num_free_blocks (free_block_queue p) = int (length xs)"
    and pos: "0 < num_gpu_blocks p" and bl: "blocks p = map Block [0..<pool_size p]"
    by (auto simp: pool_rel_defs queue_rep_def)
  then have "length xs = pool_size p - 1"
    by (metis card_greaterThanLessThan diff_zero distinct_card One_nat_def diff_Suc_eq_diff_pred)
  with xs(3) pos have all_free: "num_gpu_blocks p - get_num_free_blocks p = 1" by (simp add: get_num_free_blocks_def)
  define p2 where "p2 = fold (\<lambda>x. update_blk x reset_hash) (blocks p) (p\<lparr>cached_block_hash_to_block := []\<rparr>)"
  note fields = fold_reset_hash [of "blocks p" "p\<lparr>cached_block_hash_to_block := []\<rparr>", folded p2_def]
  have blk0: "blk (p\<lparr>cached_block_hash_to_block := []\<rparr>) = blk p" by (simp add: blk_def fun_eq_iff)
  have none: "hash_of p2 b = None" for b
  proof (cases "b < pool_size p")
    case True
    then have "Block b \<in> set (blocks p)" by (simp add: bl)
    with fields show ?thesis by simp
  next
    case False
    then have "hash_of p b = None" using assms(1) unfolding pool_rel_def cache_ok_def by blast
    with fields blk0 show ?thesis by simp
  qed
  have "pool_rel p2 {#} xs"
    using assms(1) fields none blk0 unfolding pool_rel_defs by (auto simp: holds_def split: if_splits)
  moreover have "snd (reset_prefix_cache p) = metric MetricsReset p2 \<or>
      (\<exists>es. snd (reset_prefix_cache p) = (metric MetricsReset p2)\<lparr>kv_event_queue := es\<rparr>)"
    and "fst (reset_prefix_cache p)"
    using all_free by (auto simp: reset_prefix_cache_def Let_def p2_def)
  moreover have "blk (q\<lparr>kv_event_queue := es\<rparr>) = blk q" for es q by (simp add: blk_def fun_eq_iff)
  ultimately show ?thesis
    using fields none by (intro exI [of _ "snd (reset_prefix_cache p)"]) (auto simp: prod_eq_iff)
qed

end
