(* ===== verification/Block_Pool_Safety.thy ===== *)
theory Block_Pool_Safety
  imports Block_Pool_Correct
begin

text \<open>
  The block pool in use: a step relation over the pool and the references its clients hold, the
  invariant of every reachable state, and what allocation, lookup, freeing and reset do in a
  state that satisfies it.
\<close>

section \<open>Steps\<close>

text \<open>
  A client may allocate, touch blocks of the pool, give back references it holds (each block
  once per call, as a request's blocks are distinct), cache full blocks, evict and reset.
\<close>

inductive pool_step ::
    "(bytes \<Rightarrow> bytes) \<Rightarrow> bool \<Rightarrow> BlockPool \<times> nat multiset \<Rightarrow> BlockPool \<times> nat multiset \<Rightarrow> bool"
  for sha256 ui where
    allocate: "0 \<le> n \<Longrightarrow> get_new_blocks ui n p = Inr (map Block bs, p') \<Longrightarrow>
      pool_step sha256 ui (p, held) (p', held + mset bs)"
  | touching: "set bs \<subseteq> {..< pool_size p} \<Longrightarrow> touch (map Block bs) p = Inr p' \<Longrightarrow>
      pool_step sha256 ui (p, held) (p', held + mset (filter (\<lambda>b. b \<noteq> 0) bs))"
  | freeing: "distinct (filter (\<lambda>b. b \<noteq> 0) bs) \<Longrightarrow> mset (filter (\<lambda>b. b \<noteq> 0) bs) \<subseteq># held \<Longrightarrow>
      free_blocks (map Block bs) p = Inr p' \<Longrightarrow>
      pool_step sha256 ui (p, held) (p', held - mset (filter (\<lambda>b. b \<noteq> 0) bs))"
  | caching: "cache_legal sha256 p r bs nc nf k g \<Longrightarrow> nc < nf \<Longrightarrow>
      cache_full_blocks sha256 ui r (map Block bs) nc nf (k * hash_block_size p) g p = Inr (p', r') \<Longrightarrow>
      pool_step sha256 ui (p, held) (p', held)"
  | evicting: "set bs \<subseteq> {..< pool_size p} \<Longrightarrow> evict_blocks ui (map int bs) p = Inr p' \<Longrightarrow>
      pool_step sha256 ui (p, held) (p', held)"
  | resetting: "reset_prefix_cache p = (ok, p') \<Longrightarrow> pool_step sha256 ui (p, held) (p', held)"
  | reporting: "take_events p = (es, p') \<Longrightarrow> pool_step sha256 ui (p, held) (p', held)"

inductive_cases pool_stepE: "pool_step sha256 ui s s'"

lemma pool_ok_rel: "pool_ok p held \<Longrightarrow>
  \<exists>xs. pool_rel p held xs \<and> set xs = {0 <..< pool_size p} - set_mset held"
  unfolding pool_ok_def pool_rel_def refs_ok_def by blast

lemma pool_okI: "pool_rel p held xs \<Longrightarrow> {0 <..< pool_size p} \<subseteq> set xs \<union> set_mset held \<Longrightarrow> pool_ok p held"
  by (auto simp: pool_ok_def)

lemma pool_ok_same_size:
  "pool_rel p' held xs \<Longrightarrow> num_gpu_blocks p' = num_gpu_blocks p \<Longrightarrow>
     {0 <..< pool_size p} \<subseteq> set xs \<union> set_mset held \<Longrightarrow> pool_ok p' held"
  by (auto simp: pool_ok_def)

lemma num_free_rel: "pool_rel p held xs \<Longrightarrow> get_num_free_blocks p = int (length xs)"
  by (simp add: pool_rel_def refs_ok_def queue_rep_def get_num_free_blocks_def)

lemma pool_ok_allocate:
  assumes "pool_ok p held" and "0 \<le> n" and "n \<le> get_num_free_blocks p"
  shows "\<exists>bs p'. get_new_blocks ui n p = Inr (map Block bs, p') \<and> int (length bs) = n \<and> distinct bs \<and>
    set bs \<subseteq> {0 <..< pool_size p} - set_mset held \<and> pool_ok p' (held + mset bs) \<and>
    (enable_caching p \<longrightarrow> (\<forall>b \<in> set bs. hash_of p' b = None)) \<and>
    (\<forall>c. c \<notin> set bs \<longrightarrow> hash_of p' c = hash_of p c)"
proof -
  from pool_ok_rel [OF assms(1)] obtain xs where xs: "pool_rel p held xs"
    "set xs = {0 <..< pool_size p} - set_mset held" by blast
  from assms(2,3) num_free_rel [OF xs(1)] have n: "nat n \<le> length xs" "int (nat n) = n" by auto
  from get_new_blocks_rel [OF xs(1) n(1), of ui] n(2) obtain p' where
    p': "get_new_blocks ui n p = Inr (map Block (take (nat n) xs), p')"
    "pool_rel p' (held + mset (take (nat n) xs)) (drop (nat n) xs)" "num_gpu_blocks p' = num_gpu_blocks p"
    "enable_caching p \<longrightarrow> (\<forall>b \<in> set (take (nat n) xs). hash_of p' b = None)"
    "\<forall>c. c \<notin> set (take (nat n) xs) \<longrightarrow> hash_of p' c = hash_of p c" by auto
  have parts: "set xs = set (take (nat n) xs) \<union> set (drop (nat n) xs)"
    by (metis append_take_drop_id set_append)
  have "pool_ok p' (held + mset (take (nat n) xs))"
    by (rule pool_okI [OF p'(2)]) (use p'(3) xs(2) parts in auto)
  moreover have "distinct xs" using xs(1) by (simp add: pool_rel_def refs_ok_def queue_rep_def)
  ultimately show ?thesis
    using p' n xs(2) parts by (intro exI [of _ "take (nat n) xs"] exI [of _ p']) auto
qed

lemma used_blocks:
  assumes "pool_ok p held"
  shows "num_gpu_blocks p - get_num_free_blocks p = 1 + int (card (set_mset held))"
proof -
  from pool_ok_rel [OF assms] obtain xs where xs: "pool_rel p held xs"
    "set xs = {0 <..< pool_size p} - set_mset held" by blast
  then have sub: "set_mset held \<subseteq> {0 <..< pool_size p}" and pos: "0 < num_gpu_blocks p" and "distinct xs"
    by (auto simp: pool_rel_defs queue_rep_def)
  with xs(2) have "length xs = card ({0 <..< pool_size p} - set_mset held)" by (metis distinct_card)
  also have "\<dots> = pool_size p - 1 - card (set_mset held)" using sub by (simp add: card_Diff_subset)
  finally have "length xs = pool_size p - 1 - card (set_mset held)" .
  moreover have "card (set_mset held) \<le> pool_size p - 1" using card_mono [OF _ sub] by simp
  ultimately show ?thesis using pos by (simp add: num_free_rel [OF xs(1)])
qed

lemma pool_ok_reset:
  assumes "pool_ok p held"
  shows "held = {#} \<longrightarrow> (\<exists>p'. reset_prefix_cache p = (True, p') \<and> pool_ok p' {#} \<and> (\<forall>b. hash_of p' b = None))"
    and "held \<noteq> {#} \<longrightarrow> reset_prefix_cache p = (False, p)"
proof -
  from pool_ok_rel [OF assms] obtain xs where xs: "pool_rel p held xs"
    "set xs = {0 <..< pool_size p} - set_mset held" by blast
  show "held = {#} \<longrightarrow> (\<exists>p'. reset_prefix_cache p = (True, p') \<and> pool_ok p' {#} \<and> (\<forall>b. hash_of p' b = None))"
  proof
    assume "held = {#}"
    with reset_prefix_cache_rel [of p xs] xs obtain p' where "reset_prefix_cache p = (True, p')" "pool_rel p' {#} xs"
      "num_gpu_blocks p' = num_gpu_blocks p" "\<forall>b. hash_of p' b = None" by auto
    then show "\<exists>p'. reset_prefix_cache p = (True, p') \<and> pool_ok p' {#} \<and> (\<forall>b. hash_of p' b = None)"
      using xs(2) \<open>held = {#}\<close> by (auto intro: pool_okI)
  qed
  show "held \<noteq> {#} \<longrightarrow> reset_prefix_cache p = (False, p)"
    using used_blocks [OF assms] by (simp add: reset_prefix_cache_def card_eq_0_iff)
qed

lemma pool_ok_step:
  assumes "pool_step sha256 ui s s'" and "pool_ok (fst s) (snd s)"
  shows "pool_ok (fst s') (snd s')"
  using assms
proof (induction rule: pool_step.induct)
  case (allocate n p bs p' held)
  have "n \<le> get_num_free_blocks p"
    using allocate(2) by (simp add: get_new_blocks_def rbind_eq_Inr require_eq_Inr)
  from pool_ok_allocate [OF _ allocate(1) this, of held ui] allocate(2,3) show ?case
    by (auto simp: inj_map_eq_map inj_def)
next
  case (touching bs p p' held)
  from pool_ok_rel [OF touching(3)] obtain xs where "pool_rel p held xs"
    "{0 <..< pool_size p} \<subseteq> set xs \<union> set_mset held" by auto
  from touch_rel [OF this(1) touching(1) this(2)] touching(2) have
    p': "num_gpu_blocks p' = num_gpu_blocks p"
    "pool_rel p' (held + mset (filter (\<lambda>b. b \<noteq> 0) bs)) (filter (\<lambda>x. x \<notin> set bs) xs)"
    "{0 <..< pool_size p} \<subseteq> set (filter (\<lambda>x. x \<notin> set bs) xs) \<union> set_mset (held + mset (filter (\<lambda>b. b \<noteq> 0) bs))"
    by auto
  from pool_ok_same_size [OF p'(2,1,3)] show ?case by simp
next
  case (freeing bs held p p')
  from pool_ok_rel [OF freeing(4)] obtain xs where xs: "pool_rel p held xs"
    "set xs = {0 <..< pool_size p} - set_mset held" by auto
  let ?nn = "filter (\<lambda>b. b \<noteq> 0) bs"
  from free_blocks_rel [OF xs(1) freeing(1,2)] freeing(3) have p': "num_gpu_blocks p' = num_gpu_blocks p"
    "pool_rel p' (held - mset ?nn) (xs @ filter (\<lambda>b. b \<noteq> 0 \<and> b \<notin># held - mset ?nn) bs)" by auto
  have "b \<in> set bs" if "b \<in># held" "b \<notin># held - mset ?nn" for b
    using that by (metis diff_zero count_diff count_eq_zero_iff filter_is_subset in_mono not_in_iff set_mset_mset)
  with xs(2) p' show ?case by (intro pool_okI) auto
next
  case (caching p r bs nc nf k g p' r' held)
  from pool_ok_rel [OF caching(4)] obtain xs where "pool_rel p held xs"
    "{0 <..< pool_size p} \<subseteq> set xs \<union> set_mset held" by auto
  with cache_full_blocks_rel [OF this(1) caching(1,2), of ui] caching(3) show ?case
    by (auto intro: pool_ok_same_size)
next
  case (evicting bs p p' held)
  from pool_ok_rel [OF evicting(3)] obtain xs where "pool_rel p held xs"
    "{0 <..< pool_size p} \<subseteq> set xs \<union> set_mset held" by auto
  with evict_blocks_rel [OF this(1) evicting(1), of ui] evicting(2) show ?case
    by (auto intro: pool_ok_same_size)
next
  case (resetting p ok p' held)
  then show ?case using pool_ok_reset [of p held] by (cases "held = {#}") auto
next
  case (reporting p es p' held)
  then show ?case by (auto simp: take_events_def split: if_splits)
qed

lemma get_cached_block_ok:
  assumes "pool_rel p held xs" and "\<forall>g \<in> set gs. 0 \<le> g \<and> g < 2 ^ 32"
  shows "case get_cached_block p h gs of
      Inl e \<Rightarrow> False
    | Inr None \<Rightarrow> \<exists>g \<in> set gs. \<forall>key b. make_block_hash_with_group_id h g = Inr key \<longrightarrow> hash_of p b \<noteq> Some key
    | Inr (Some bs) \<Rightarrow> list_all2 (\<lambda>g x. \<exists>b key. x = Block b \<and> 0 < b \<and> b < pool_size p \<and>
        make_block_hash_with_group_id h g = Inr key \<and> hash_of p b = Some key) gs bs"
  using assms(2)
proof (induction gs)
  case Nil
  show ?case by simp
next
  case (Cons g gs)
  from Cons.prems obtain key where key: "make_block_hash_with_group_id h g = Inr key"
    using make_block_hash_defined [of h g] by auto
  from pool_rel_cached [OF assms(1)] obtain bs where
    bs: "holds (cached_block_hash_to_block p) key bs" "set bs = {b. hash_of p b = Some key}" by blast
  show ?case
  proof (cases bs)
    case Nil
    with bs key show ?thesis by (auto simp: get_one_block_holds [OF bs(1)])
  next
    case (Cons b bs')
    then have b: "hash_of p b = Some key" using bs(2) by auto
    then have range: "0 < b" "b < pool_size p" using assms(1) by (auto simp: pool_rel_def cache_ok_def)
    have "get_cached_block p h (g # gs) =
        rbind (get_cached_block p h gs) (\<lambda>rest. Inr (map_option (\<lambda>bs. Block b # bs) rest))"
      using Cons by (simp add: key get_one_block_holds [OF bs(1)])
    moreover have "case get_cached_block p h gs of
      Inl e \<Rightarrow> False
    | Inr None \<Rightarrow> \<exists>g \<in> set gs. \<forall>key b. make_block_hash_with_group_id h g = Inr key \<longrightarrow> hash_of p b \<noteq> Some key
    | Inr (Some bs) \<Rightarrow> list_all2 (\<lambda>g x. \<exists>b key. x = Block b \<and> 0 < b \<and> b < pool_size p \<and>
        make_block_hash_with_group_id h g = Inr key \<and> hash_of p b = Some key) gs bs"
      using Cons.IH Cons.prems by simp
    ultimately show ?thesis
      using key b range by (auto split: sum.splits option.splits)
  qed
qed

lemma new_BlockPool_ok:
  assumes "new_BlockPool n caching hs ev me = Inr p"
  shows "pool_ok p {#}"
proof -
  from assms have "0 < n" by (simp add: new_BlockPool_def rbind_eq_Inr require_eq_Inr)
  from new_BlockPool_rel [OF this, of caching hs ev me] assms have "pool_rel p {#} [1..<nat n]" "num_gpu_blocks p = n"
    by simp_all
  then show ?thesis by (intro pool_okI) auto
qed

lemma pool_reachable_ok:
  assumes "new_BlockPool n caching hs ev me = Inr p0" and "(pool_step sha256 ui)\<^sup>*\<^sup>* (p0, {#}) (p, held)"
  shows "pool_ok p held"
proof -
  from assms(2) have "pool_ok (fst (p, held)) (snd (p, held))"
  proof (induction rule: rtranclp_induct)
    case base
    then show ?case using new_BlockPool_ok [OF assms(1)] by simp
  next
    case (step s s')
    then show ?case by (auto intro: pool_ok_step)
  qed
  then show ?thesis by simp
qed

section \<open>Theorems\<close>

text \<open>
  C30: In every state the pool can reach, the reference count of every block but the null block
  is the number of references its clients hold, the free queue lists exactly the blocks nobody
  holds, each once, the count of free blocks agrees, and a key finds exactly the blocks that
  carry it.
\<close>

theorem pool_reachable_invariant:
  assumes "new_BlockPool n caching hs ev me = Inr p0" and "(pool_step sha256 ui)\<^sup>*\<^sup>* (p0, {#}) (p, held)"
  shows "(\<forall>b > 0. refs p b = int (count held b)) \<and>
    (\<exists>xs. get_all_free_blocks (free_block_queue p) = Some (Inr (map Block xs)) \<and> distinct xs \<and>
       set xs = {0 <..< pool_size p} - set_mset held) \<and>
    num_gpu_blocks p = get_num_free_blocks p + 1 + int (card (set_mset held)) \<and>
    (\<forall>key. \<exists>bs. holds (cached_block_hash_to_block p) key bs \<and> set bs = {b. hash_of p b = Some key})"
proof -
  note ok = pool_reachable_ok [OF assms]
  from pool_ok_rel [OF ok] obtain xs where xs: "pool_rel p held xs"
    "set xs = {0 <..< pool_size p} - set_mset held" by blast
  then have rep: "queue_rep (free_block_queue p) xs" by (simp add: pool_rel_def refs_ok_def)
  from get_all_free_blocks_correct [OF rep] fq.rep_distinct [OF rep] xs(2) have
    "\<exists>xs. get_all_free_blocks (free_block_queue p) = Some (Inr (map Block xs)) \<and> distinct xs \<and>
       set xs = {0 <..< pool_size p} - set_mset held" by blast
  moreover have "\<forall>b > 0. refs p b = int (count held b)" using xs(1) by (simp add: pool_rel_def refs_ok_def)
  ultimately show ?thesis using used_blocks [OF ok] pool_rel_cached [OF xs(1)] by auto
qed

definition sample_pool :: "BlockPool" where
  "sample_pool = projr (new_BlockPool 4 True 2 True False)"

lemma sample_pool_new: "new_BlockPool 4 True 2 True False = Inr sample_pool"
  using new_BlockPool_rel [of 4 True 2 True False] by (auto simp: sample_pool_def)

theorem pool_reachable_invariant_witness:
  "num_gpu_blocks sample_pool = get_num_free_blocks sample_pool + 1"
  using pool_reachable_invariant [OF sample_pool_new, of id False sample_pool "{#}"] by simp

text \<open>
  Allocation hands out blocks nobody holds. When enough blocks are free it returns exactly
  the number asked for, distinct, none of them held or the null block, their count becomes one
  and, with caching, their hashes are gone from the index; the other blocks keep theirs. When
  too few are free it raises and nothing has changed.
\<close>

lemma get_new_blocks_correct:
  assumes "pool_ok p held" and "0 \<le> n"
  shows "if n \<le> get_num_free_blocks p
    then \<exists>bs p'. get_new_blocks ui n p = Inr (map Block bs, p') \<and> int (length bs) = n \<and> distinct bs \<and>
      set bs \<subseteq> {0 <..< pool_size p} - set_mset held \<and> pool_ok p' (held + mset bs) \<and>
      (enable_caching p \<longrightarrow> (\<forall>b \<in> set bs. hash_of p' b = None)) \<and>
      (\<forall>c. c \<notin> set bs \<longrightarrow> hash_of p' c = hash_of p c)
    else get_new_blocks ui n p = Inl (ValueError ''Cannot get free blocks from the pool'')"
  using pool_ok_allocate [OF assms] by (simp add: get_new_blocks_def)

lemma get_new_blocks_correct_example:
  "\<exists>bs p'. get_new_blocks False 2 sample_pool = Inr (map Block bs, p') \<and> length bs = 2 \<and> distinct bs"
proof -
  note ok = new_BlockPool_ok [OF sample_pool_new]
  have "num_gpu_blocks sample_pool = 4"
    using new_BlockPool_rel [of 4 True 2 True False] sample_pool_new by auto
  with used_blocks [OF ok] get_new_blocks_correct [OF ok, of 2 False] show ?thesis by auto
qed

text \<open>
  Freed blocks are reused last, in the order they are given: after \<open>free_blocks\<close> the free
  queue is the old one followed by those blocks nobody else holds. No hash is lost, so a freed
  block can still be found; touching it again takes it out of the queue.
\<close>

lemma free_blocks_order:
  assumes "pool_ok p held" and "get_all_free_blocks (free_block_queue p) = Some (Inr (map Block xs))"
    and "distinct (filter (\<lambda>b. b \<noteq> 0) bs)" and "mset (filter (\<lambda>b. b \<noteq> 0) bs) \<subseteq># held"
  defines "held' \<equiv> held - mset (filter (\<lambda>b. b \<noteq> 0) bs)"
  shows "\<exists>p'. free_blocks (map Block bs) p = Inr p' \<and> pool_ok p' held' \<and>
    get_all_free_blocks (free_block_queue p') =
      Some (Inr (map Block (xs @ filter (\<lambda>b. b \<noteq> 0 \<and> b \<notin># held') bs))) \<and>
    (\<forall>c. hash_of p' c = hash_of p c)"
proof -
  from pool_ok_rel [OF assms(1)] obtain ys where ys: "pool_rel p held ys" by blast
  then have "queue_rep (free_block_queue p) ys" by (simp add: pool_rel_def refs_ok_def)
  from get_all_free_blocks_correct [OF this] assms(2) have "ys = xs" by (auto simp: inj_map_eq_map inj_def)
  with free_blocks_rel [OF _ assms(3,4), of p ys] ys obtain p' where
    p': "free_blocks (map Block bs) p = Inr p'" "\<forall>c. hash_of p' c = hash_of p c"
    "pool_rel p' held' (xs @ filter (\<lambda>b. b \<noteq> 0 \<and> b \<notin># held') bs)" by (auto simp: held'_def)
  have "pool_step id False (p, held) (p', held')"
    unfolding held'_def by (rule pool_step.freeing [OF assms(3,4) p'(1)])
  from pool_ok_step [OF this] assms(1) have "pool_ok p' held'" by simp
  moreover from p'(3) have "queue_rep (free_block_queue p') (xs @ filter (\<lambda>b. b \<noteq> 0 \<and> b \<notin># held') bs)"
    by (simp add: pool_rel_def refs_ok_def)
  ultimately show ?thesis using p' get_all_free_blocks_correct by blast
qed

text \<open>
  C31: The prefix cache finds what was cached. Caching full blocks returns and gives each of
  them the key of its hash and group; and a lookup returns a block for every group it is asked
  for, each carrying exactly the key of the hash and that group, or reports a miss because some
  group has no such block.
\<close>

theorem prefix_cache_lookup:
  assumes "pool_ok p held" and "cache_legal sha256 p r bs nc nf k g" and "nc < nf"
  shows "\<exists>p' r'. cache_full_blocks sha256 ui r (map Block bs) nc nf (k * hash_block_size p) g p = Inr (p', r') \<and>
    pool_ok p' held \<and>
    (\<forall>i. nc \<le> i \<and> i < nf \<and> 0 < bs ! i \<longrightarrow>
       (\<exists>b. get_cached_block p' (group_hash r k i) [g] = Inr (Some [Block b]))) \<and>
    (\<forall>h gs found. set gs \<subseteq> {0 ..< 2 ^ 32} \<and> get_cached_block p' h gs = Inr (Some found) \<longrightarrow>
       list_all2 (\<lambda>g x. \<exists>b key. x = Block b \<and> 0 < b \<and> b < pool_size p' \<and>
         make_block_hash_with_group_id h g = Inr key \<and> hash_of p' b = Some key) gs found)"
proof -
  from pool_ok_rel [OF assms(1)] obtain xs where xs: "pool_rel p held xs"
    "{0 <..< pool_size p} \<subseteq> set xs \<union> set_mset held" by blast
  from cache_full_blocks_rel [OF xs(1) assms(2,3), of ui] obtain p' r' where
    p': "cache_full_blocks sha256 ui r (map Block bs) nc nf (k * hash_block_size p) g p = Inr (p', r')"
    "pool_rel p' held xs" "num_gpu_blocks p' = num_gpu_blocks p"
    and keys: "\<And>i. nc \<le> i \<Longrightarrow> i < nf \<Longrightarrow> 0 < bs ! i \<Longrightarrow>
       \<exists>key. make_block_hash_with_group_id (group_hash r k i) g = Inr key \<and> hash_of p' (bs ! i) = Some key" by blast
  have hit: "\<exists>b. get_cached_block p' (group_hash r k i) [g] = Inr (Some [Block b])"
    if i: "nc \<le> i" "i < nf" "0 < bs ! i" for i
  proof -
    from keys [OF i] obtain key where key: "make_block_hash_with_group_id (group_hash r k i) g = Inr key"
      "hash_of p' (bs ! i) = Some key" by blast
    from pool_rel_cached [OF p'(2)] obtain ys where
      ys: "holds (cached_block_hash_to_block p') key ys" "set ys = {b. hash_of p' b = Some key}" by blast
    with key(2) obtain y ys' where "ys = y # ys'" by (cases ys) auto
    with key(1) get_one_block_holds [OF ys(1)] show ?thesis by simp
  qed
  have "list_all2 (\<lambda>g x. \<exists>b key. x = Block b \<and> 0 < b \<and> b < pool_size p' \<and>
      make_block_hash_with_group_id h g = Inr key \<and> hash_of p' b = Some key) gs found"
    if "set gs \<subseteq> {0 ..< 2 ^ 32}" "get_cached_block p' h gs = Inr (Some found)" for h gs found
    using get_cached_block_ok [OF p'(2), of gs h] that by (auto simp: subset_iff)
  with p'(1) hit pool_ok_same_size [OF p'(2,3) xs(2)] show ?thesis by blast
qed

definition hashed_request :: "Request" where
  "hashed_request = \<lparr>py_id = 0, request_id = ''r'', priority = 0, arrival_time = 0, status = RUNNING,
     mm_features = [], lora_request = None, cache_salt = None, prompt_embeds = None, embeds_hashes = [],
     output_token_ids = [], all_token_ids = [5, 6], block_hashes = [[7]], num_computed_tokens = 0,
     num_preemptions = 0, skip_reading_prefix_cache = False\<rparr>"

theorem prefix_cache_lookup_witness:
  "\<exists>p' r' b. cache_full_blocks id False hashed_request [Block 1] 0 1 2 3 sample_pool = Inr (p', r') \<and>
    get_cached_block p' [7] [3] = Inr (Some [Block b])"
proof -
  have pool: "hash_block_size sample_pool = 2" "num_gpu_blocks sample_pool = 4" "hash_of sample_pool 1 = None"
    using new_BlockPool_rel [of 4 True 2 True False] sample_pool_new by auto
  then have "cache_legal id sample_pool hashed_request [1] 0 1 1 3"
    by (simp add: cache_legal_def hashed_request_def py_slice_def features_ok_def memo_ok_def)
  moreover have "group_hash hashed_request 1 0 = [7]" by (simp add: group_hash_def hashed_request_def py_slice_def)
  ultimately show ?thesis
    using prefix_cache_lookup [OF new_BlockPool_ok [OF sample_pool_new], of id hashed_request "[1]" 0 1 1 3 False] pool(1)
    by auto
qed

text \<open>
  The prefix cache is reset exactly when no client holds a block. Then it reports success,
  every later lookup misses, and the pool stays consistent; otherwise nothing changes.
\<close>

lemma reset_prefix_cache_correct:
  assumes "pool_ok p held"
  shows "if held = {#}
    then \<exists>p'. reset_prefix_cache p = (True, p') \<and> pool_ok p' {#} \<and>
      (\<forall>h g gs. 0 \<le> g \<and> g < 2 ^ 32 \<longrightarrow> get_cached_block p' h (g # gs) = Inr None)
    else reset_prefix_cache p = (False, p)"
proof (cases "held = {#}")
  case True
  with pool_ok_reset(1) [OF assms] obtain p' where p': "reset_prefix_cache p = (True, p')" "pool_ok p' {#}"
    "\<forall>b. hash_of p' b = None" by blast
  have "get_cached_block p' h (g # gs) = Inr None" if g: "0 \<le> g \<and> g < 2 ^ 32" for h g gs
  proof -
    from g obtain key where key: "make_block_hash_with_group_id h g = Inr key"
      using make_block_hash_defined [of h g] by auto
    from pool_ok_rel [OF p'(2)] pool_rel_cached [of p' "{#}"] obtain bs where
      "holds (cached_block_hash_to_block p') key bs" "set bs = {b. hash_of p' b = Some key}" by blast
    with p'(3) have "holds (cached_block_hash_to_block p') key []" by simp
    with key show ?thesis by (simp add: get_one_block_holds)
  qed
  with p' True show ?thesis by auto
next
  case False
  with pool_ok_reset(2) [OF assms] show ?thesis by simp
qed

end
