(* ===== verification/Cache_Hits.thy ===== *)
theory Cache_Hits
  imports Block_Pool_Safety
begin

text \<open>
  How the prefix cache is searched for a request: \<open>find_longest_cache_hit\<close> of the managers of the
  attention types (\<open>src/vllm/vllm/v1/core/single_type_kv_cache_manager.py\<close>) and of the coordinators
  (\<open>src/vllm/vllm/v1/core/kv_cache_coordinator.py\<close>). A search returns, for every group it is asked for,
  one block per block of the prefix; the model keeps one row per block, with an entry per group.
\<close>

section \<open>Specifications\<close>

text \<open>
  The classes of \<open>kv_cache_interface.py\<close> the managers tell apart. \<open>layout\<close> stands for the fields that
  are only compared (heads, sizes, types).
\<close>

datatype attention_type =
    FullAttentionSpec
  | MLAAttentionSpec
  | SlidingWindowSpec nat
  | ChunkedLocalAttentionSpec nat
  | MambaSpec bool nat
  | CrossAttentionSpec
  | SinkFullAttentionSpec nat

text \<open>
  The arguments are the window, the chunk size, for Mamba whether states are aligned with blocks and the
  number of blocks for speculation, and the length of the sink.
\<close>

record KVCacheSpec =
  attention :: attention_type
  block_size :: nat
  layout :: nat

definition is_full_attention :: "KVCacheSpec \<Rightarrow> bool" where
  "is_full_attention spec \<longleftrightarrow>
     (case attention spec of FullAttentionSpec \<Rightarrow> True | MLAAttentionSpec \<Rightarrow> True | SinkFullAttentionSpec _ \<Rightarrow> True | _ \<Rightarrow> False)"

definition cdiv :: "int \<Rightarrow> int \<Rightarrow> int" where
  "cdiv a b = - (a div (- b))"

section \<open>The search of one attention type\<close>

type_synonym hit_row = "block_ref list"

text \<open>The blocks of one position, when every group has one; an empty list of groups finds nothing.\<close>

definition cached_row :: "BlockPool \<Rightarrow> int list \<Rightarrow> bytes \<Rightarrow> hit_row option res" where
  "cached_row p gs h =
     rbind (get_cached_block p h gs) (\<lambda>r. Inr (case r of Some (b # bs) \<Rightarrow> Some (b # bs) | _ \<Rightarrow> None))"

text \<open>The loop that gives up blocks until the length is aligned\<close>

function (sequential) drop_unaligned :: "nat \<Rightarrow> nat \<Rightarrow> 'a list \<Rightarrow> 'a list" where
  "drop_unaligned bsz alignment rows =
     (if rows \<noteq> [] \<and> length rows * bsz mod alignment \<noteq> 0 then drop_unaligned bsz alignment (butlast rows) else rows)"
  by pat_completeness auto
termination by (relation "measure (\<lambda>(_, _, rows). length rows)") auto

declare drop_unaligned.simps [simp del]

definition align_rows :: "nat \<Rightarrow> nat \<Rightarrow> 'a list \<Rightarrow> 'a list res" where
  "align_rows bsz alignment rows =
     (if bsz = alignment then Inr rows
      else if alignment = 0 then Inl ZeroDivisionError
      else Inr (drop_unaligned bsz alignment rows))"

text \<open>Whether the end of block \<open>L\<close> is off the alignment; the test is skipped when the sizes agree.\<close>

definition misaligned :: "nat \<Rightarrow> nat \<Rightarrow> nat \<Rightarrow> bool res" where
  "misaligned bsz alignment L =
     (if bsz = alignment then Inr False
      else if alignment = 0 then Inl ZeroDivisionError
      else Inr (L * bsz mod alignment \<noteq> 0))"

subsection \<open>Full attention\<close>

fun full_scan :: "BlockPool \<Rightarrow> int list \<Rightarrow> bytes list \<Rightarrow> hit_row list res" where
  "full_scan p gs [] = Inr []"
| "full_scan p gs (h # hs) =
     rbind (cached_row p gs h) (\<lambda>r. case r of
       None \<Rightarrow> Inr []
     | Some row \<Rightarrow> rbind (full_scan p gs hs) (\<lambda>rows. Inr (row # rows)))"

definition full_cache_hit ::
    "BlockPool \<Rightarrow> KVCacheSpec \<Rightarrow> bool \<Rightarrow> nat \<Rightarrow> nat \<Rightarrow> int list \<Rightarrow> bytes list \<Rightarrow> nat \<Rightarrow> hit_row list res" where
  "full_cache_hit p spec use_eagle alignment world gs hs max_length =
     (let bsz = (if world > 1 then block_size spec * world else block_size spec)
      in if bsz = 0 then Inl ZeroDivisionError
      else rbind (full_scan p gs (take (max_length div bsz) hs)) (\<lambda>rows.
           align_rows bsz alignment (if use_eagle then butlast rows else rows)))"

subsection \<open>Sliding window\<close>

text \<open>The loop from the last block to the first: whether a match was found, the length of the run, and
  the rows\<close>

fun sliding_scan ::
    "BlockPool \<Rightarrow> int list \<Rightarrow> bytes list \<Rightarrow> nat \<Rightarrow> nat \<Rightarrow> nat \<Rightarrow> nat \<Rightarrow> nat \<Rightarrow> hit_row list \<Rightarrow>
     (bool \<times> nat \<times> hit_row list) res" where
  "sliding_scan p gs hs bsz alignment needed 0 run rows = Inr (False, run, rows)"
| "sliding_scan p gs hs bsz alignment needed (Suc i) run rows =
     rbind (py_nth hs (int i)) (\<lambda>h.
     rbind (cached_row p gs h) (\<lambda>r. case r of
       None \<Rightarrow> sliding_scan p gs hs bsz alignment needed i 0 rows
     | Some row \<Rightarrow>
         rbind (if run = 0 then misaligned bsz alignment (i + 1) else Inr False) (\<lambda>skip.
         if skip then sliding_scan p gs hs bsz alignment needed i run rows
         else if run + 1 \<ge> needed then Inr (True, run + 1, take (i + (run + 1)) (rows[i := row]))
         else sliding_scan p gs hs bsz alignment needed i (run + 1) (rows[i := row]))))"

definition window_blocks :: "nat \<Rightarrow> nat \<Rightarrow> bool \<Rightarrow> nat" where
  "window_blocks window bsz use_eagle =
     nat (cdiv (int window - 1) (int bsz)) + (if use_eagle then 1 else 0)"

definition sliding_cache_hit ::
    "BlockPool \<Rightarrow> nat \<Rightarrow> nat \<Rightarrow> bool \<Rightarrow> nat \<Rightarrow> int list \<Rightarrow> bytes list \<Rightarrow> nat \<Rightarrow> hit_row list res" where
  "sliding_cache_hit p window bsz use_eagle alignment gs hs max_length =
     (if bsz = 0 then Inl ZeroDivisionError
      else let max_num_blocks = max_length div bsz;
               none = replicate (length gs) (null_block p)
      in rbind (sliding_scan p gs hs bsz alignment (window_blocks window bsz use_eagle) max_num_blocks 0
                  (replicate max_num_blocks none)) (\<lambda>(match_found, run, rows).
         rbind (if match_found then Inr rows else align_rows bsz alignment (take run rows)) (\<lambda>rows.
         if use_eagle \<and> rows \<noteq> []
         then rbind (require (bsz = alignment) (AssertionError ''aligned_length is not compatible with eagle now'')) (\<lambda>_.
              Inr (butlast rows))
         else Inr rows)))"

subsection \<open>Chunked local attention\<close>

definition chunked_cache_hit ::
    "BlockPool \<Rightarrow> nat \<Rightarrow> nat \<Rightarrow> bool \<Rightarrow> nat \<Rightarrow> int list \<Rightarrow> bytes list \<Rightarrow> nat \<Rightarrow> hit_row list res" where
  "chunked_cache_hit p chunk bsz use_eagle alignment gs hs max_length =
     rbind (require (\<not> use_eagle) (AssertionError ''Hybrid KV cache is not supported for eagle + chunked local attention.'')) (\<lambda>_.
     rbind (require (bsz = alignment) (AssertionError ''KV cache groups with different block sizes are not compatible with chunked local attention now'')) (\<lambda>_.
     if bsz = 0 \<or> (max_length > 0 \<and> chunk = 0) then Inl ZeroDivisionError
     else let max_num_blocks = max_length div bsz;
              local_attention_start_idx = max_length div chunk * chunk;
              start = local_attention_start_idx div bsz
          in rbind (full_scan p gs (py_slice hs start max_num_blocks)) (\<lambda>rows.
             if start + length rows < max_num_blocks \<and> start + length rows \<ge> length hs
             then Inl IndexError
             else Inr (replicate start (replicate (length gs) (null_block p)) @ rows))))"

subsection \<open>Mamba\<close>

fun mamba_scan :: "BlockPool \<Rightarrow> int list \<Rightarrow> bytes list \<Rightarrow> nat \<Rightarrow> nat \<Rightarrow> nat \<Rightarrow> hit_row list res" where
  "mamba_scan p gs hs bsz alignment 0 = Inr []"
| "mamba_scan p gs hs bsz alignment (Suc i) =
     rbind (py_nth hs (int i)) (\<lambda>h.
     rbind (cached_row p gs h) (\<lambda>r. case r of
       None \<Rightarrow> mamba_scan p gs hs bsz alignment i
     | Some row \<Rightarrow>
         rbind (misaligned bsz alignment (i + 1)) (\<lambda>skip.
         if skip then mamba_scan p gs hs bsz alignment i
         else Inr (replicate i (replicate (length gs) (null_block p)) @ [row]))))"

definition mamba_cache_hit ::
    "BlockPool \<Rightarrow> nat \<Rightarrow> nat \<Rightarrow> int list \<Rightarrow> bytes list \<Rightarrow> nat \<Rightarrow> hit_row list res" where
  "mamba_cache_hit p bsz alignment gs hs max_length =
     (if bsz = 0 then Inl ZeroDivisionError else mamba_scan p gs hs bsz alignment (max_length div bsz))"

subsection \<open>Choice by the specification\<close>

text \<open>
  The search of the manager class of a specification (\<open>spec_manager_map\<close>). The product of the world
  sizes is above one only for full attention.
\<close>

definition find_longest_cache_hit ::
    "BlockPool \<Rightarrow> KVCacheSpec \<Rightarrow> bool \<Rightarrow> nat \<Rightarrow> nat \<Rightarrow> int list \<Rightarrow> bytes list \<Rightarrow> nat \<Rightarrow> hit_row list res" where
  "find_longest_cache_hit p spec use_eagle alignment world gs hs max_length =
     (case attention spec of
        FullAttentionSpec \<Rightarrow> full_cache_hit p spec use_eagle alignment world gs hs max_length
      | MLAAttentionSpec \<Rightarrow> full_cache_hit p spec use_eagle alignment world gs hs max_length
      | SinkFullAttentionSpec _ \<Rightarrow> full_cache_hit p spec use_eagle alignment world gs hs max_length
      | CrossAttentionSpec \<Rightarrow> Inl (NotImplementedError ''CrossAttentionManager does not support caching'')
      | kind \<Rightarrow>
          rbind (require (world = 1) (AssertionError ''DCP not support'')) (\<lambda>_.
          case kind of
            SlidingWindowSpec window \<Rightarrow> sliding_cache_hit p window (block_size spec) use_eagle alignment gs hs max_length
          | ChunkedLocalAttentionSpec chunk \<Rightarrow> chunked_cache_hit p chunk (block_size spec) use_eagle alignment gs hs max_length
          | _ \<Rightarrow> mamba_cache_hit p (block_size spec) alignment gs hs max_length))"

section \<open>The coordinators\<close>

text \<open>One list of blocks per group, from the rows of a search for \<open>n\<close> groups\<close>

definition columns :: "nat \<Rightarrow> hit_row list \<Rightarrow> block_ref list list" where
  "columns n rows = map (\<lambda>j. map (\<lambda>row. row ! j) rows) [0..<n]"

definition no_prefix_cache_hit :: "KVCacheSpec list \<Rightarrow> block_ref list list \<times> nat" where
  "no_prefix_cache_hit groups = (map (\<lambda>_. []) groups, 0)"

definition unitary_cache_hit ::
    "BlockPool \<Rightarrow> KVCacheSpec \<Rightarrow> bool \<Rightarrow> nat \<Rightarrow> nat \<Rightarrow> bytes list \<Rightarrow> nat \<Rightarrow> (block_ref list list \<times> nat) res" where
  "unitary_cache_hit p spec use_eagle dcp pcp hs max_length =
     (let bsz0 = (if dcp > 1 then block_size spec * dcp else block_size spec);
          bsz = (if pcp > 1 then bsz0 * pcp else bsz0)
      in rbind (find_longest_cache_hit p spec use_eagle bsz (dcp * pcp) [0] hs max_length) (\<lambda>rows.
         Inr (columns 1 rows, length rows * bsz)))"

text \<open>
  \<open>verify_and_split_kv_cache_groups\<close>: the groups of equal specification, full attention first. (Equal
  specifications have equal manager classes.)
\<close>

type_synonym attention_group = "KVCacheSpec \<times> nat list"

fun add_to_groups :: "nat \<Rightarrow> KVCacheSpec \<Rightarrow> attention_group list \<Rightarrow> attention_group list" where
  "add_to_groups i spec [] = [(spec, [i])]"
| "add_to_groups i spec ((spec', ids) # groups) =
     (if spec' = spec then (spec', ids @ [i]) # groups else (spec', ids) # add_to_groups i spec groups)"

definition split_groups :: "KVCacheSpec list \<Rightarrow> attention_group list" where
  "split_groups specs = fold (\<lambda>(i, spec). add_to_groups i spec) (List.enumerate 0 specs) []"

record hybrid_coordinator =
  hash_size :: nat
  attention_groups :: "attention_group list"
  lcm_block_size :: nat
  num_groups :: nat
  use_eagle :: bool

definition new_hybrid_coordinator :: "KVCacheSpec list \<Rightarrow> nat \<Rightarrow> bool \<Rightarrow> nat \<Rightarrow> nat \<Rightarrow> hybrid_coordinator res" where
  "new_hybrid_coordinator specs hash_sz eagle dcp pcp =
     rbind (require (0 < hash_sz \<or> specs = []) ZeroDivisionError) (\<lambda>_.
     rbind (require (list_all (\<lambda>spec. block_size spec mod hash_sz = 0) specs)
       (AssertionError ''block_size must be divisible by hash_block_size'')) (\<lambda>_.
     rbind (require (dcp = 1) (AssertionError ''DCP not support hybrid attn now.'')) (\<lambda>_.
     rbind (require (pcp = 1) (AssertionError ''PCP not support hybrid attn now.'')) (\<lambda>_.
     let groups = split_groups specs
     in rbind (require (1 < length groups) (AssertionError ''HybridKVCacheCoordinator requires at least two attention groups.'')) (\<lambda>_.
        Inr \<lparr>hash_size = hash_sz, attention_groups = sort_key (\<lambda>(spec, _). \<not> is_full_attention spec) groups,
             lcm_block_size = fold (\<lambda>(spec, _). lcm (block_size spec)) groups 1, num_groups = length specs,
             use_eagle = eagle\<rparr>)))))"

text \<open>The hashes of the request at the block size of a group\<close>

definition hashes_for :: "nat \<Rightarrow> KVCacheSpec \<Rightarrow> bytes list \<Rightarrow> bytes list res" where
  "hashes_for hash_sz spec hs =
     (if block_size spec = hash_sz then Inr hs
      else rbind (new_BlockHashListWithBlockSize hs (int hash_sz) (int (block_size spec))) (\<lambda>l. coarse_from l 0))"

text \<open>
  One attention group of the round: the length it accepts and the blocks found so far, by group
\<close>

type_synonym hits_by_group = "block_ref list option list"

definition store_hits :: "nat list \<Rightarrow> block_ref list list \<Rightarrow> hits_by_group \<Rightarrow> hits_by_group" where
  "store_hits ids cols hits = fold (\<lambda>(i, col) hits. hits[i := Some col]) (zip ids cols) hits"

definition hybrid_group ::
    "BlockPool \<Rightarrow> hybrid_coordinator \<Rightarrow> bytes list \<Rightarrow> attention_group \<Rightarrow> nat \<times> hits_by_group \<Rightarrow> (nat \<times> hits_by_group) res" where
  "hybrid_group p co hs = (\<lambda>(spec, ids) (curr_hit_length, hits).
     if is_full_attention spec \<and> hits ! hd ids \<noteq> None
     then Inr (curr_hit_length div block_size spec * block_size spec, hits)
     else
       rbind (hashes_for (hash_size co) spec hs) (\<lambda>spec_hashes.
       rbind (find_longest_cache_hit p spec (use_eagle co) (lcm_block_size co) 1 (map int ids) spec_hashes curr_hit_length) (\<lambda>rows.
       Inr (length rows * block_size spec, store_hits ids (columns (length ids) rows) hits))))"

definition is_simple_hybrid :: "hybrid_coordinator \<Rightarrow> bool" where
  "is_simple_hybrid co \<longleftrightarrow> length (attention_groups co) = 2 \<and> is_full_attention (fst (hd (attention_groups co)))"

text \<open>The loop \<open>while True\<close>: it goes round again only with a smaller length.\<close>

function hybrid_loop ::
    "BlockPool \<Rightarrow> hybrid_coordinator \<Rightarrow> bytes list \<Rightarrow> nat \<Rightarrow> hits_by_group \<Rightarrow> (nat \<times> hits_by_group) res" where
  "hybrid_loop p co hs hit_length hits =
     (case fold_res (hybrid_group p co hs) (attention_groups co) (hit_length, hits) of
        Inl e \<Rightarrow> Inl e
      | Inr (curr_hit_length, hits') \<Rightarrow>
          if curr_hit_length \<ge> hit_length then Inr (hit_length, hits')
          else if is_simple_hybrid co then Inr (curr_hit_length, hits')
          else hybrid_loop p co hs curr_hit_length hits')"
  by pat_completeness auto
termination by (relation "measure (\<lambda>(_, _, _, hit_length, _). hit_length)") auto

declare hybrid_loop.simps [simp del]

text \<open>The blocks of the first group of the coordinator are cut to the final length if it is full attention.\<close>

definition truncate_full :: "hybrid_coordinator \<Rightarrow> nat \<Rightarrow> hits_by_group \<Rightarrow> hits_by_group" where
  "truncate_full co hit_length hits =
     (case hd (attention_groups co) of (spec, ids) \<Rightarrow>
        if is_full_attention spec
        then fold (\<lambda>i hits. hits[i := map_option (take (hit_length div block_size spec)) (hits ! i)]) ids hits
        else hits)"

definition hybrid_cache_hit ::
    "BlockPool \<Rightarrow> hybrid_coordinator \<Rightarrow> bytes list \<Rightarrow> nat \<Rightarrow> (block_ref list list \<times> nat) res" where
  "hybrid_cache_hit p co hs max_length =
     rbind (hybrid_loop p co hs max_length (replicate (num_groups co) None)) (\<lambda>(hit_length, hits).
     Inr (map (\<lambda>h. case h of None \<Rightarrow> [] | Some bs \<Rightarrow> bs) (truncate_full co hit_length hits), hit_length))"

end
