(* ===== verification/KV_Managers.thy ===== *)
theory KV_Managers
  imports Cache_Hits
begin

text \<open>
  The managers of the attention types (\<open>src/vllm/vllm/v1/core/single_type_kv_cache_manager.py\<close>): which
  blocks every request has, how many more it needs, how they are allocated, cached, replaced by the null
  block once the attention no longer reads them, and freed. The pool is shared by the managers and
  passed along.
\<close>

section \<open>Python dictionaries and lists\<close>

definition py_floordiv :: "int \<Rightarrow> int \<Rightarrow> int res" where
  "py_floordiv a b = (if b = 0 then Inl ZeroDivisionError else Inr (a div b))"

definition py_cdiv :: "int \<Rightarrow> int \<Rightarrow> int res" where
  "py_cdiv a b = rbind (py_floordiv a (- b)) (\<lambda>q. Inr (- q))"

text \<open>\<open>xs[i] = v\<close>\<close>

definition py_set :: "'a list \<Rightarrow> int \<Rightarrow> 'a \<Rightarrow> 'a list res" where
  "py_set xs i v =
     (let j = (if i < 0 then int (length xs) + i else i)
      in if 0 \<le> j \<and> j < int (length xs) then Inr (xs[nat j := v]) else Inl IndexError)"

definition dict_get :: "('k \<times> 'v) list \<Rightarrow> 'k \<Rightarrow> 'v \<Rightarrow> 'v" where
  "dict_get d k v = (case map_of d k of None \<Rightarrow> v | Some w \<Rightarrow> w)"

text \<open>Reading a \<open>defaultdict(list)\<close> adds the key.\<close>

definition touch_key :: "'k \<Rightarrow> ('k \<times> 'v list) list \<Rightarrow> ('k \<times> 'v list) list" where
  "touch_key k d = (case map_of d k of None \<Rightarrow> AList.update k [] d | Some _ \<Rightarrow> d)"

section \<open>The state of a manager\<close>

text \<open>
  The last three fields are those of the Mamba manager; its sets are lists without repetition.
\<close>

record SingleTypeKVCacheManager =
  kv_cache_spec :: KVCacheSpec
  manager_block_size :: nat
  manager_caching :: bool
  kv_cache_group_id :: nat
  new_block_ids :: "int list"
  req_to_blocks :: "(string \<times> block_ref list) list"
  num_cached_block :: "(string \<times> nat) list"
  cached_blocks_this_step :: "bytes list"
  last_state_block_idx :: "(string \<times> int) list"
  allocated_block_reqs :: "string list"

abbreviation kind :: "SingleTypeKVCacheManager \<Rightarrow> attention_type" where
  "kind m \<equiv> attention (kv_cache_spec m)"

definition bsize :: "SingleTypeKVCacheManager \<Rightarrow> int" where
  "bsize m = int (manager_block_size m)"

definition blocks_of :: "SingleTypeKVCacheManager \<Rightarrow> string \<Rightarrow> block_ref list" where
  "blocks_of m rid = dict_get (req_to_blocks m) rid []"

definition set_blocks :: "string \<Rightarrow> block_ref list \<Rightarrow> SingleTypeKVCacheManager \<Rightarrow> SingleTypeKVCacheManager" where
  "set_blocks rid bs m = m\<lparr>req_to_blocks := AList.update rid bs (req_to_blocks m)\<rparr>"

text \<open>A sink takes its blocks out of the queue when the manager is made.\<close>

definition new_manager ::
    "KVCacheSpec \<Rightarrow> bool \<Rightarrow> nat \<Rightarrow> nat \<Rightarrow> nat \<Rightarrow> BlockPool \<Rightarrow> (SingleTypeKVCacheManager \<times> BlockPool) res" where
  "new_manager spec caching group_id dcp pcp p =
     (let m = \<lparr>kv_cache_spec = spec,
               manager_block_size = (if dcp * pcp > 1 then block_size spec * (dcp * pcp) else block_size spec),
               manager_caching = caching, kv_cache_group_id = group_id, new_block_ids = [], req_to_blocks = [],
               num_cached_block = [], cached_blocks_this_step = [], last_state_block_idx = [], allocated_block_reqs = []\<rparr>
      in case attention spec of
        SinkFullAttentionSpec sink_len \<Rightarrow>
          rbind (require (0 < sink_len) (AssertionError [])) (\<lambda>_.
          rbind (py_floordiv (int sink_len) (bsize m)) (\<lambda>num_sink_block.
          rbind (require (sink_len mod manager_block_size m = 0) (AssertionError [])) (\<lambda>_.
          rbind (popleft_n num_sink_block (free_block_queue p)) (\<lambda>(_, q).
          Inr (m, p\<lparr>free_block_queue := q\<rparr>)))))
      | _ \<Rightarrow> Inr (m, p))"

section \<open>Skipped tokens\<close>

definition get_num_skipped_tokens :: "SingleTypeKVCacheManager \<Rightarrow> int \<Rightarrow> int res" where
  "get_num_skipped_tokens m computed =
     (case kind m of
        SlidingWindowSpec window \<Rightarrow> Inr (max 0 (computed - int window + 1))
      | ChunkedLocalAttentionSpec chunk \<Rightarrow> rbind (py_floordiv computed (int chunk)) (\<lambda>n. Inr (n * int chunk))
      | MambaSpec _ _ \<Rightarrow> Inr (computed - 1)
      | _ \<Rightarrow> Inr 0)"

section \<open>How many blocks a request needs\<close>

definition get_num_evictable_blocks :: "BlockPool \<Rightarrow> block_ref list \<Rightarrow> int" where
  "get_num_evictable_blocks p bs = int (length (filter (\<lambda>x. ref_cnt (blk p x) = 0 \<and> \<not> is_null (blk p x)) bs))"

definition base_blocks_to_allocate ::
    "SingleTypeKVCacheManager \<Rightarrow> BlockPool \<Rightarrow> string \<Rightarrow> int \<Rightarrow> block_ref list \<Rightarrow> int \<Rightarrow> int res" where
  "base_blocks_to_allocate m p rid slots computed_blocks total_tokens =
     rbind (py_cdiv slots (bsize m)) (\<lambda>num_required_blocks.
     let num_req_blocks = int (length (blocks_of m rid))
     in if map_of (num_cached_block m) rid \<noteq> None
        then rbind (require (computed_blocks = []) (AssertionError [])) (\<lambda>_.
          Inr (max (num_required_blocks - num_req_blocks) 0))
        else
          rbind (get_num_skipped_tokens m total_tokens) (\<lambda>num_skipped_tokens.
          rbind (py_floordiv num_skipped_tokens (bsize m)) (\<lambda>num_skipped_blocks.
          let num_local_computed_blocks = int (length computed_blocks) + num_req_blocks;
              num_new_blocks = max (num_required_blocks - max num_skipped_blocks num_local_computed_blocks) 0;
              num_skipped_new_computed_blocks = max 0 (num_skipped_blocks - num_req_blocks)
          in Inr (num_new_blocks + get_num_evictable_blocks p (drop (nat num_skipped_new_computed_blocks) computed_blocks)))))"

definition get_num_blocks_to_allocate ::
    "SingleTypeKVCacheManager \<Rightarrow> BlockPool \<Rightarrow> string \<Rightarrow> int \<Rightarrow> block_ref list \<Rightarrow> int \<Rightarrow> int \<Rightarrow>
     (int \<times> SingleTypeKVCacheManager) res" where
  "get_num_blocks_to_allocate m p rid slots computed_blocks total_tokens main_slots =
     (case kind m of
        MambaSpec align spec_blocks \<Rightarrow>
          if computed_blocks \<noteq> [] \<and>
             (case block_hash (blk p (last computed_blocks)) of None \<Rightarrow> False | Some h \<Rightarrow> h \<in> set (cached_blocks_this_step m))
          then Inr (num_gpu_blocks p + 1, m)
          else if \<not> align
          then rbind (base_blocks_to_allocate m p rid
                 (if spec_blocks > 0 then slots + int (block_size (kv_cache_spec m)) * int spec_blocks else slots)
                 computed_blocks total_tokens) (\<lambda>n. Inr (n, m))
          else
            rbind (py_cdiv main_slots (bsize m)) (\<lambda>c.
            let num_new_blocks = c + int spec_blocks - int (length computed_blocks) - int (length (blocks_of m rid));
                needed = (if num_new_blocks > 0
                          then if rid \<in> set (allocated_block_reqs m) then 1 else 1 + int spec_blocks
                          else num_new_blocks)
            in Inr (needed + get_num_evictable_blocks p computed_blocks, m\<lparr>req_to_blocks := touch_key rid (req_to_blocks m)\<rparr>))
      | _ \<Rightarrow> rbind (base_blocks_to_allocate m p rid slots computed_blocks total_tokens) (\<lambda>n. Inr (n, m)))"

section \<open>Allocation\<close>

text \<open>The blocks of full attention that a worker has to clear\<close>

definition record_new_ids :: "BlockPool \<Rightarrow> block_ref list \<Rightarrow> SingleTypeKVCacheManager \<Rightarrow> SingleTypeKVCacheManager" where
  "record_new_ids p bs m =
     (if kind m = FullAttentionSpec then m\<lparr>new_block_ids := new_block_ids m @ map (\<lambda>x. block_id (blk p x)) bs\<rparr> else m)"

definition add_computed_blocks ::
    "bool \<Rightarrow> string \<Rightarrow> block_ref list \<Rightarrow> int \<Rightarrow> int \<Rightarrow> SingleTypeKVCacheManager \<Rightarrow> BlockPool \<Rightarrow>
     (SingleTypeKVCacheManager \<times> BlockPool) res" where
  "add_computed_blocks ui rid computed_blocks num_local num_external m p =
     (if map_of (num_cached_block m) rid \<noteq> None
      then rbind (require (computed_blocks = []) (AssertionError [])) (\<lambda>_. Inr (m, p))
      else
        rbind (require (blocks_of m rid = []) (AssertionError [])) (\<lambda>_.
        let total_tokens = num_local + num_external
        in rbind (get_num_skipped_tokens m total_tokens) (\<lambda>num_skipped_tokens.
           rbind (py_floordiv num_skipped_tokens (bsize m)) (\<lambda>num_skipped_blocks.
           let kept = (if num_skipped_blocks > 0 then drop (nat num_skipped_blocks) computed_blocks else computed_blocks);
               external = (if num_skipped_blocks > 0 then min (total_tokens - num_skipped_tokens) num_external else num_external)
           in rbind (if manager_caching m then touch kept p
                     else rbind (require (kept = [])
                       (AssertionError ''Computed blocks should be empty when prefix caching is disabled'')) (\<lambda>_. Inr p)) (\<lambda>p1.
              let req_blocks = py_repeat num_skipped_blocks (null_block p1) @ kept;
                  m1 = (set_blocks rid req_blocks m)\<lparr>num_cached_block := AList.update rid (length req_blocks) (num_cached_block m)\<rparr>
              in if external > 0
                 then rbind (py_cdiv total_tokens (bsize m)) (\<lambda>c.
                      rbind (get_new_blocks ui (c - int (length req_blocks)) p1) (\<lambda>(new, p2).
                      Inr (record_new_ids p2 new (set_blocks rid (req_blocks @ new) m1), p2)))
                 else Inr (m1, p1))))))"

definition allocate_new_computed_blocks ::
    "bool \<Rightarrow> string \<Rightarrow> block_ref list \<Rightarrow> int \<Rightarrow> int \<Rightarrow> SingleTypeKVCacheManager \<Rightarrow> BlockPool \<Rightarrow>
     (SingleTypeKVCacheManager \<times> BlockPool) res" where
  "allocate_new_computed_blocks ui rid computed_blocks num_local num_external m p =
     (case kind m of
        CrossAttentionSpec \<Rightarrow> rbind (require (computed_blocks = []) (AssertionError [])) (\<lambda>_. Inr (m, p))
      | _ \<Rightarrow> add_computed_blocks ui rid computed_blocks num_local num_external m p)"

definition base_allocate_new_blocks ::
    "bool \<Rightarrow> string \<Rightarrow> int \<Rightarrow> SingleTypeKVCacheManager \<Rightarrow> BlockPool \<Rightarrow>
     (block_ref list \<times> SingleTypeKVCacheManager \<times> BlockPool) res" where
  "base_allocate_new_blocks ui rid slots m p =
     rbind (py_cdiv slots (bsize m)) (\<lambda>num_required_blocks.
     let num_new_blocks = num_required_blocks - int (length (blocks_of m rid))
     in if num_new_blocks \<le> 0 then Inr ([], m\<lparr>req_to_blocks := touch_key rid (req_to_blocks m)\<rparr>, p)
        else rbind (get_new_blocks ui num_new_blocks p) (\<lambda>(new, p1).
          Inr (new, record_new_ids p1 new (set_blocks rid (blocks_of m rid @ new) m), p1)))"

text \<open>
  Aligned Mamba states. The blocks for speculation of the previous step move to the end, until one of
  them is still read.
\<close>

fun reuse_speculative :: "BlockPool \<Rightarrow> int \<Rightarrow> int list \<Rightarrow> block_ref list \<Rightarrow> block_ref list res" where
  "reuse_speculative p num_skipped [] bs = Inr bs"
| "reuse_speculative p num_skipped (i # is) bs =
     (if i < num_skipped
      then rbind (py_nth bs i) (\<lambda>x. rbind (py_set (bs @ [x]) i (null_block p)) (reuse_speculative p num_skipped is))
      else Inr bs)"

definition mamba_allocate_aligned ::
    "bool \<Rightarrow> nat \<Rightarrow> string \<Rightarrow> int \<Rightarrow> SingleTypeKVCacheManager \<Rightarrow> BlockPool \<Rightarrow>
     (block_ref list \<times> SingleTypeKVCacheManager \<times> BlockPool) res" where
  "mamba_allocate_aligned ui spec_blocks rid slots m p =
     rbind (py_cdiv slots (bsize m)) (\<lambda>c.
     let num_required_blocks = c + int spec_blocks;
         req_blocks = blocks_of m rid;
         prev_block_len = int (length req_blocks)
     in if num_required_blocks = prev_block_len then Inr ([], m\<lparr>req_to_blocks := touch_key rid (req_to_blocks m)\<rparr>, p)
        else rbind (require (num_required_blocks > prev_block_len) (AssertionError ''num_required_blocks'')) (\<lambda>_.
          let blocks_allocated = rid \<in> set (allocated_block_reqs m);
              idx = last_state_block_idx m;
              idx' = (if blocks_allocated then AList.update rid (prev_block_len - 1 - int spec_blocks) idx
                      else if prev_block_len > 0 then AList.update rid (prev_block_len - 1) idx else idx);
              num_skipped_blocks = num_required_blocks - int spec_blocks - 1;
              padded = req_blocks @ py_repeat (num_skipped_blocks - prev_block_len) (null_block p)
          in rbind (if blocks_allocated
                    then reuse_speculative p num_skipped_blocks [prev_block_len - int spec_blocks .. prev_block_len - 1] padded
                    else Inr padded) (\<lambda>reused.
             let num_new_blocks = num_required_blocks - int (length reused)
             in rbind (require (num_new_blocks \<le> (if blocks_allocated then 1 else int spec_blocks + 1)) (AssertionError [])) (\<lambda>_.
                rbind (get_new_blocks ui num_new_blocks p) (\<lambda>(new, p1).
                Inr (drop (length req_blocks) (reused @ new),
                     (set_blocks rid (reused @ new) m)\<lparr>last_state_block_idx := idx',
                        allocated_block_reqs := List.insert rid (allocated_block_reqs m)\<rparr>, p1))))))"

definition allocate_new_blocks ::
    "bool \<Rightarrow> string \<Rightarrow> int \<Rightarrow> int \<Rightarrow> SingleTypeKVCacheManager \<Rightarrow> BlockPool \<Rightarrow>
     (block_ref list \<times> SingleTypeKVCacheManager \<times> BlockPool) res" where
  "allocate_new_blocks ui rid slots main_slots m p =
     (case kind m of
        MambaSpec align spec_blocks \<Rightarrow>
          if align then mamba_allocate_aligned ui spec_blocks rid main_slots m p
          else base_allocate_new_blocks ui rid (if spec_blocks > 0 then slots + bsize m * int spec_blocks else slots) m p
      | _ \<Rightarrow> base_allocate_new_blocks ui rid slots m p)"

definition take_new_block_ids :: "SingleTypeKVCacheManager \<Rightarrow> int list \<times> SingleTypeKVCacheManager" where
  "take_new_block_ids m = (new_block_ids m, m\<lparr>new_block_ids := []\<rparr>)"

section \<open>Caching\<close>

definition base_cache_blocks ::
    "(bytes \<Rightarrow> bytes) \<Rightarrow> bool \<Rightarrow> int \<Rightarrow> Request \<Rightarrow> SingleTypeKVCacheManager \<Rightarrow> BlockPool \<Rightarrow>
     (Request \<times> SingleTypeKVCacheManager \<times> BlockPool) res" where
  "base_cache_blocks sha256 ui cached_tokens r m p =
     (let rid = request_id r; num_cached_blocks = dict_get (num_cached_block m) rid 0
      in rbind (py_floordiv cached_tokens (bsize m)) (\<lambda>num_full_blocks.
         if int num_cached_blocks \<ge> num_full_blocks then Inr (r, m, p)
         else rbind (cache_full_blocks sha256 ui r (blocks_of m rid) num_cached_blocks (nat num_full_blocks)
                (manager_block_size m) (int (kv_cache_group_id m)) p) (\<lambda>(p', r').
           Inr (r', m\<lparr>req_to_blocks := touch_key rid (req_to_blocks m),
                     num_cached_block := AList.update rid (nat num_full_blocks) (num_cached_block m)\<rparr>, p'))))"

definition remember_cached :: "BlockPool \<Rightarrow> block_ref list \<Rightarrow> bytes list \<Rightarrow> bytes list res" where
  "remember_cached p bs known =
     fold_res (\<lambda>x known. if is_null (blk p x) then Inr known
       else rbind (of_option (AssertionError []) (block_hash (blk p x))) (\<lambda>h. Inr (List.insert h known))) bs known"

definition cache_blocks ::
    "(bytes \<Rightarrow> bytes) \<Rightarrow> bool \<Rightarrow> int \<Rightarrow> Request \<Rightarrow> SingleTypeKVCacheManager \<Rightarrow> BlockPool \<Rightarrow>
     (Request \<times> SingleTypeKVCacheManager \<times> BlockPool) res" where
  "cache_blocks sha256 ui cached_tokens r m p =
     (case kind m of
        CrossAttentionSpec \<Rightarrow> Inl (ValueError ''Should not be called as prefix caching is disabled.'')
      | MambaSpec _ _ \<Rightarrow>
          let cached_before = dict_get (num_cached_block m) (request_id r) 0
          in rbind (base_cache_blocks sha256 ui cached_tokens r m p) (\<lambda>(r', m', p').
             let cached_after = dict_get (num_cached_block m') (request_id r) 0
             in if cached_after > cached_before
                then rbind (remember_cached p' (py_slice (blocks_of m' (request_id r)) cached_before cached_after) (cached_blocks_this_step m'))
                       (\<lambda>known. Inr (r', m'\<lparr>cached_blocks_this_step := known\<rparr>, p'))
                else Inr (r', m', p'))
      | _ \<Rightarrow> base_cache_blocks sha256 ui cached_tokens r m p)"

section \<open>Release\<close>

definition manager_free :: "string \<Rightarrow> SingleTypeKVCacheManager \<Rightarrow> BlockPool \<Rightarrow> (SingleTypeKVCacheManager \<times> BlockPool) res" where
  "manager_free rid m p =
     (let m1 = (case kind m of
                  MambaSpec True _ \<Rightarrow> m\<lparr>allocated_block_reqs := removeAll rid (allocated_block_reqs m),
                                       last_state_block_idx := AList.delete rid (last_state_block_idx m)\<rparr>
                | _ \<Rightarrow> m)
      in rbind (free_blocks (rev (blocks_of m1 rid)) p) (\<lambda>p'.
         Inr (m1\<lparr>req_to_blocks := AList.delete rid (req_to_blocks m1),
                 num_cached_block := AList.delete rid (num_cached_block m1)\<rparr>, p')))"

text \<open>The loop from the last skipped block to the first: the blocks removed and the new list\<close>

fun drop_skipped :: "BlockPool \<Rightarrow> nat \<Rightarrow> block_ref list \<Rightarrow> block_ref list \<times> block_ref list" where
  "drop_skipped p 0 bs = ([], bs)"
| "drop_skipped p (Suc i) bs =
     (if bs ! i = null_block p then ([], bs)
      else case drop_skipped p i (bs[i := null_block p]) of (removed, bs') \<Rightarrow> (bs ! i # removed, bs'))"

definition base_remove_skipped ::
    "string \<Rightarrow> int \<Rightarrow> SingleTypeKVCacheManager \<Rightarrow> BlockPool \<Rightarrow> (SingleTypeKVCacheManager \<times> BlockPool) res" where
  "base_remove_skipped rid total_tokens m p =
     rbind (get_num_skipped_tokens m total_tokens) (\<lambda>num_skipped_tokens.
     if num_skipped_tokens \<le> 0 then Inr (m, p)
     else rbind (py_floordiv num_skipped_tokens (bsize m)) (\<lambda>n.
       case drop_skipped p (min (nat n) (length (blocks_of m rid))) (blocks_of m rid) of (removed, bs') \<Rightarrow>
         rbind (free_blocks removed p) (\<lambda>p'. Inr (set_blocks rid bs' m, p'))))"

definition manager_remove_skipped ::
    "string \<Rightarrow> int \<Rightarrow> SingleTypeKVCacheManager \<Rightarrow> BlockPool \<Rightarrow> (SingleTypeKVCacheManager \<times> BlockPool) res" where
  "manager_remove_skipped rid total_tokens m p =
     (case kind m of
        MambaSpec align spec_blocks \<Rightarrow>
          let computed = max 0 (total_tokens - int spec_blocks)
          in rbind (base_remove_skipped rid computed m p) (\<lambda>(m1, p1).
             case (if align then map_of (last_state_block_idx m1) rid else None) of
               None \<Rightarrow> Inr (m1, p1)
             | Some idx \<Rightarrow>
                 rbind (py_cdiv computed (bsize m1)) (\<lambda>c.
                 if idx < c - 1
                 then let bs = blocks_of m1 rid; m2 = m1\<lparr>req_to_blocks := touch_key rid (req_to_blocks m1)\<rparr>
                      in rbind (py_nth bs idx) (\<lambda>x.
                         if x \<noteq> null_block p1
                         then rbind (free_blocks [x] p1) (\<lambda>p2.
                              rbind (py_set bs idx (null_block p1)) (\<lambda>bs'. Inr (set_blocks rid bs' m2, p2)))
                         else Inr (m2, p1))
                 else Inr (m1, p1)))
      | _ \<Rightarrow> base_remove_skipped rid total_tokens m p)"

section \<open>Shared prefix\<close>

definition manager_common_prefix_blocks :: "string \<Rightarrow> SingleTypeKVCacheManager \<Rightarrow> BlockPool \<Rightarrow> nat \<times> SingleTypeKVCacheManager" where
  "manager_common_prefix_blocks rid m p =
     (if is_full_attention (kv_cache_spec m)
      then let m' = m\<lparr>req_to_blocks := touch_key rid (req_to_blocks m)\<rparr>
           in (length (takeWhile (\<lambda>x. ref_cnt (blk p x) = int (length (req_to_blocks m'))) (blocks_of m' rid)), m')
      else (0, m))"

definition manager_new_step :: "SingleTypeKVCacheManager \<Rightarrow> SingleTypeKVCacheManager" where
  "manager_new_step m = m\<lparr>cached_blocks_this_step := []\<rparr>"

end
