(* ===== verification/KV_Cache.thy ===== *)
theory KV_Cache
  imports KV_Managers
begin

text \<open>
  The KV cache of the engine: the coordinator that runs one manager per group over a shared pool
  (\<open>src/vllm/vllm/v1/core/kv_cache_coordinator.py\<close>) and the interface of the scheduler
  (\<open>src/vllm/vllm/v1/core/kv_cache_manager.py\<close>): the cached prefix of a request, slots for its tokens, and
  their release.
\<close>

section \<open>The coordinator\<close>

text \<open>How the subclass of the coordinator searches the prefix cache\<close>

datatype cache_search =
    NoPrefixCache
  | Unitary KVCacheSpec bool nat nat
  | Hybrid hybrid_coordinator

record KVCacheCoordinator =
  coordinator_pool :: BlockPool
  single_type_managers :: "SingleTypeKVCacheManager list"
  cache_search :: cache_search

text \<open>A call of every manager in turn, with the index of its group and the state they share\<close>

fun each_manager ::
    "(nat \<Rightarrow> SingleTypeKVCacheManager \<Rightarrow> 's \<Rightarrow> ('a \<times> SingleTypeKVCacheManager \<times> 's) res) \<Rightarrow> nat \<Rightarrow>
     SingleTypeKVCacheManager list \<Rightarrow> 's \<Rightarrow> ('a list \<times> SingleTypeKVCacheManager list \<times> 's) res" where
  "each_manager f i [] s = Inr ([], [], s)"
| "each_manager f i (m # ms) s =
     rbind (f i m s) (\<lambda>(x, m', s').
     rbind (each_manager f (Suc i) ms s') (\<lambda>(xs, ms', s'').
     Inr (x # xs, m' # ms', s'')))"

fun new_managers ::
    "bool \<Rightarrow> nat \<Rightarrow> nat \<Rightarrow> nat \<Rightarrow> KVCacheSpec list \<Rightarrow> BlockPool \<Rightarrow> (SingleTypeKVCacheManager list \<times> BlockPool) res" where
  "new_managers caching dcp pcp i [] p = Inr ([], p)"
| "new_managers caching dcp pcp i (spec # specs) p =
     rbind (new_manager spec caching i dcp pcp p) (\<lambda>(m, p1).
     rbind (new_managers caching dcp pcp (Suc i) specs p1) (\<lambda>(ms, p2).
     Inr (m # ms, p2)))"

definition get_kv_cache_coordinator ::
    "int \<Rightarrow> KVCacheSpec list \<Rightarrow> bool \<Rightarrow> bool \<Rightarrow> bool \<Rightarrow> nat \<Rightarrow> nat \<Rightarrow> nat \<Rightarrow> bool \<Rightarrow> KVCacheCoordinator res" where
  "get_kv_cache_coordinator num_blocks specs eagle caching events dcp pcp hash_sz with_metrics =
     rbind (new_BlockPool num_blocks caching hash_sz events with_metrics) (\<lambda>p0.
     rbind (new_managers caching dcp pcp 0 specs p0) (\<lambda>(ms, p).
     rbind (if \<not> caching then Inr NoPrefixCache
            else case specs of
              [spec] \<Rightarrow>
                let bsz0 = (if dcp > 1 then block_size spec * dcp else block_size spec);
                    bsz = (if pcp > 1 then bsz0 * pcp else bsz0)
                in rbind (require (hash_sz = bsz) (AssertionError ''UnitaryKVCacheCoordinator assumes hash_block_size == block_size'')) (\<lambda>_.
                   Inr (Unitary spec eagle dcp pcp))
            | _ \<Rightarrow> rbind (new_hybrid_coordinator specs hash_sz eagle dcp pcp) (\<lambda>co. Inr (Hybrid co))) (\<lambda>search.
     Inr \<lparr>coordinator_pool = p, single_type_managers = ms, cache_search = search\<rparr>)))"

definition coordinator_cache_hit :: "KVCacheCoordinator \<Rightarrow> bytes list \<Rightarrow> nat \<Rightarrow> (block_ref list list \<times> nat) res" where
  "coordinator_cache_hit c hs max_length =
     (case cache_search c of
        NoPrefixCache \<Rightarrow> Inr (no_prefix_cache_hit (map kv_cache_spec (single_type_managers c)))
      | Unitary spec eagle dcp pcp \<Rightarrow> unitary_cache_hit (coordinator_pool c) spec eagle dcp pcp hs max_length
      | Hybrid co \<Rightarrow> hybrid_cache_hit (coordinator_pool c) co hs max_length)"

text \<open>Cross attention gets the blocks of the encoder's tokens, at once.\<close>

definition coordinator_blocks_to_allocate ::
    "string \<Rightarrow> int \<Rightarrow> block_ref list list \<Rightarrow> int \<Rightarrow> int \<Rightarrow> int \<Rightarrow> KVCacheCoordinator \<Rightarrow> (int \<times> KVCacheCoordinator) res" where
  "coordinator_blocks_to_allocate rid slots computed encoder_tokens total_tokens main_slots c =
     rbind (each_manager (\<lambda>i m p.
       if kind m = CrossAttentionSpec
       then rbind (get_num_blocks_to_allocate m p rid encoder_tokens [] 0 encoder_tokens) (\<lambda>(n, m'). Inr (n, m', p))
       else rbind (py_nth computed (int i)) (\<lambda>bs.
            rbind (get_num_blocks_to_allocate m p rid slots bs total_tokens main_slots) (\<lambda>(n, m'). Inr (n, m', p))))
       0 (single_type_managers c) (coordinator_pool c)) (\<lambda>(ns, ms, _).
     Inr (sum_list ns, c\<lparr>single_type_managers := ms\<rparr>))"

definition coordinator_add_computed ::
    "bool \<Rightarrow> string \<Rightarrow> block_ref list list \<Rightarrow> int \<Rightarrow> int \<Rightarrow> KVCacheCoordinator \<Rightarrow> KVCacheCoordinator res" where
  "coordinator_add_computed ui rid computed num_local num_external c =
     rbind (each_manager (\<lambda>i m p.
       rbind (py_nth computed (int i)) (\<lambda>bs.
       rbind (allocate_new_computed_blocks ui rid bs num_local num_external m p) (\<lambda>(m', p'). Inr ((), m', p'))))
       0 (single_type_managers c) (coordinator_pool c)) (\<lambda>(_, ms, p).
     Inr (c\<lparr>single_type_managers := ms, coordinator_pool := p\<rparr>))"

definition coordinator_allocate ::
    "bool \<Rightarrow> string \<Rightarrow> int \<Rightarrow> int \<Rightarrow> int \<Rightarrow> KVCacheCoordinator \<Rightarrow> (block_ref list list \<times> KVCacheCoordinator) res" where
  "coordinator_allocate ui rid slots main_slots encoder_tokens c =
     rbind (each_manager (\<lambda>_ m p.
       allocate_new_blocks ui rid (if kind m = CrossAttentionSpec then encoder_tokens else slots) main_slots m p)
       0 (single_type_managers c) (coordinator_pool c)) (\<lambda>(new, ms, p).
     Inr (new, c\<lparr>single_type_managers := ms, coordinator_pool := p\<rparr>))"

definition coordinator_cache_blocks ::
    "(bytes \<Rightarrow> bytes) \<Rightarrow> bool \<Rightarrow> Request \<Rightarrow> int \<Rightarrow> KVCacheCoordinator \<Rightarrow> (Request \<times> KVCacheCoordinator) res" where
  "coordinator_cache_blocks sha256 ui r cached_tokens c =
     rbind (each_manager (\<lambda>_ m (r, p).
       rbind (cache_blocks sha256 ui cached_tokens r m p) (\<lambda>(r', m', p'). Inr ((), m', (r', p'))))
       0 (single_type_managers c) (r, coordinator_pool c)) (\<lambda>(_, ms, (r', p)).
     Inr (r', c\<lparr>single_type_managers := ms, coordinator_pool := p\<rparr>))"

definition coordinator_free :: "string \<Rightarrow> KVCacheCoordinator \<Rightarrow> KVCacheCoordinator res" where
  "coordinator_free rid c =
     rbind (each_manager (\<lambda>_ m p. rbind (manager_free rid m p) (\<lambda>(m', p'). Inr ((), m', p')))
       0 (single_type_managers c) (coordinator_pool c)) (\<lambda>(_, ms, p).
     Inr (c\<lparr>single_type_managers := ms, coordinator_pool := p\<rparr>))"

definition coordinator_remove_skipped :: "string \<Rightarrow> int \<Rightarrow> KVCacheCoordinator \<Rightarrow> KVCacheCoordinator res" where
  "coordinator_remove_skipped rid total_tokens c =
     rbind (each_manager (\<lambda>_ m p. rbind (manager_remove_skipped rid total_tokens m p) (\<lambda>(m', p'). Inr ((), m', p')))
       0 (single_type_managers c) (coordinator_pool c)) (\<lambda>(_, ms, p).
     Inr (c\<lparr>single_type_managers := ms, coordinator_pool := p\<rparr>))"

definition coordinator_get_blocks :: "string \<Rightarrow> KVCacheCoordinator \<Rightarrow> block_ref list list" where
  "coordinator_get_blocks rid c = map (\<lambda>m. blocks_of m rid) (single_type_managers c)"

definition coordinator_common_prefix_blocks :: "string \<Rightarrow> KVCacheCoordinator \<Rightarrow> nat list \<times> KVCacheCoordinator" where
  "coordinator_common_prefix_blocks rid c =
     (case cache_search c of
        NoPrefixCache \<Rightarrow> (replicate (length (single_type_managers c)) 0, c)
      | _ \<Rightarrow> let rs = map (\<lambda>m. manager_common_prefix_blocks rid m (coordinator_pool c)) (single_type_managers c)
            in (map fst rs, c\<lparr>single_type_managers := map snd rs\<rparr>))"

definition coordinator_new_step :: "KVCacheCoordinator \<Rightarrow> KVCacheCoordinator" where
  "coordinator_new_step c = c\<lparr>single_type_managers := map manager_new_step (single_type_managers c)\<rparr>"

section \<open>Blocks handed to the scheduler\<close>

text \<open>
  \<open>None\<close> is the manager's one \<open>empty_kv_cache_blocks\<close>, which \<open>allocate_slots\<close> recognizes by identity and
  which it also uses when no blocks are given.
\<close>

type_synonym KVCacheBlocks = "block_ref list list option"

definition kv_blocks :: "nat \<Rightarrow> KVCacheBlocks \<Rightarrow> block_ref list list" where
  "kv_blocks n x = (case x of None \<Rightarrow> replicate n [] | Some bss \<Rightarrow> bss)"

definition create_kv_cache_blocks :: "block_ref list list \<Rightarrow> KVCacheBlocks" where
  "create_kv_cache_blocks bss = (if \<exists>bs \<in> set bss. bs \<noteq> [] then Some bss else None)"

definition kv_blocks_add :: "nat \<Rightarrow> KVCacheBlocks \<Rightarrow> KVCacheBlocks \<Rightarrow> KVCacheBlocks" where
  "kv_blocks_add n x y = Some (map (\<lambda>(bs, bs'). bs @ bs') (zip (kv_blocks n x) (kv_blocks n y)))"

definition kv_get_block_ids :: "BlockPool \<Rightarrow> nat \<Rightarrow> bool \<Rightarrow> KVCacheBlocks \<Rightarrow> int list list option" where
  "kv_get_block_ids p n allow_none x =
     (if allow_none \<and> list_all (\<lambda>bs. bs = []) (kv_blocks n x) then None
      else Some (map (map (\<lambda>b. block_id (blk p b))) (kv_blocks n x)))"

definition get_unhashed_block_ids :: "BlockPool \<Rightarrow> nat \<Rightarrow> KVCacheBlocks \<Rightarrow> int list res" where
  "get_unhashed_block_ids p n x =
     (case kv_blocks n x of
        [bs] \<Rightarrow> Inr (map (\<lambda>b. block_id (blk p b)) (filter (\<lambda>b. block_hash (blk p b) = None) bs))
      | _ \<Rightarrow> Inl (AssertionError ''Only one group is supported''))"

definition get_unhashed_block_ids_all_groups :: "BlockPool \<Rightarrow> nat \<Rightarrow> KVCacheBlocks \<Rightarrow> int list list" where
  "get_unhashed_block_ids_all_groups p n x =
     map (\<lambda>bs. map (\<lambda>b. block_id (blk p b)) (filter (\<lambda>b. block_hash (blk p b) = None \<and> \<not> is_null (blk p b)) bs)) (kv_blocks n x)"

definition kv_new_empty :: "nat \<Rightarrow> KVCacheBlocks \<Rightarrow> KVCacheBlocks" where
  "kv_new_empty n x = Some (map (\<lambda>_. []) (kv_blocks n x))"

section \<open>The manager of the scheduler\<close>

record PrefixCacheStats =
  stats_reset :: bool
  stats_requests :: nat
  stats_queries :: nat
  stats_hits :: nat
  preempted_requests :: nat
  preempted_queries :: nat
  preempted_hits :: nat

definition new_stats :: PrefixCacheStats where
  "new_stats = \<lparr>stats_reset = False, stats_requests = 0, stats_queries = 0, stats_hits = 0,
     preempted_requests = 0, preempted_queries = 0, preempted_hits = 0\<rparr>"

definition record_query :: "nat \<Rightarrow> nat \<Rightarrow> bool \<Rightarrow> PrefixCacheStats \<Rightarrow> PrefixCacheStats" where
  "record_query tokens hits preempted s =
     (if preempted
      then s\<lparr>preempted_requests := preempted_requests s + 1, preempted_queries := preempted_queries s + tokens,
             preempted_hits := preempted_hits s + hits\<rparr>
      else s\<lparr>stats_requests := stats_requests s + 1, stats_queries := stats_queries s + tokens,
             stats_hits := stats_hits s + hits\<rparr>)"

text \<open>The statistics are there if they are logged.\<close>

record KVCacheManager =
  coordinator :: KVCacheCoordinator
  max_model_len :: int
  kv_enable_caching :: bool
  prefix_cache_stats :: "PrefixCacheStats option"

abbreviation pool_of :: "KVCacheManager \<Rightarrow> BlockPool" where
  "pool_of kv \<equiv> coordinator_pool (coordinator kv)"

abbreviation num_kv_cache_groups :: "KVCacheManager \<Rightarrow> nat" where
  "num_kv_cache_groups kv \<equiv> length (single_type_managers (coordinator kv))"

definition new_KVCacheManager ::
    "int \<Rightarrow> KVCacheSpec list \<Rightarrow> int \<Rightarrow> nat \<Rightarrow> bool \<Rightarrow> bool \<Rightarrow> bool \<Rightarrow> bool \<Rightarrow> nat \<Rightarrow> nat \<Rightarrow> bool \<Rightarrow> KVCacheManager res" where
  "new_KVCacheManager num_blocks specs model_len hash_sz caching eagle log_stats events dcp pcp with_metrics =
     rbind (get_kv_cache_coordinator num_blocks specs eagle caching events dcp pcp hash_sz with_metrics) (\<lambda>c.
     Inr \<lparr>coordinator = c, max_model_len = model_len, kv_enable_caching = caching,
          prefix_cache_stats = (if log_stats then Some new_stats else None)\<rparr>)"

definition kv_usage :: "KVCacheManager \<Rightarrow> rat" where
  "kv_usage kv = get_usage (pool_of kv)"

definition make_prefix_cache_stats :: "KVCacheManager \<Rightarrow> PrefixCacheStats option \<times> KVCacheManager" where
  "make_prefix_cache_stats kv =
     (case prefix_cache_stats kv of
        None \<Rightarrow> (None, kv)
      | Some s \<Rightarrow> (Some s, kv\<lparr>prefix_cache_stats := Some new_stats\<rparr>))"

text \<open>
  The last token of a request is never taken from the cache, so that its logits are computed; a request
  has a token.
\<close>

definition get_computed_blocks :: "Request \<Rightarrow> KVCacheManager \<Rightarrow> ((KVCacheBlocks \<times> nat) \<times> KVCacheManager) res" where
  "get_computed_blocks r kv =
     (if \<not> kv_enable_caching kv \<or> skip_reading_prefix_cache r then Inr ((None, 0), kv)
      else rbind (coordinator_cache_hit (coordinator kv) (block_hashes r) (num_tokens r - 1)) (\<lambda>(computed, hits).
        Inr ((create_kv_cache_blocks computed, hits),
             kv\<lparr>prefix_cache_stats := map_option (record_query (num_tokens r) hits (num_preemptions r > 0)) (prefix_cache_stats kv)\<rparr>)))"

definition can_fit_full_sequence ::
    "Request \<Rightarrow> int \<Rightarrow> KVCacheBlocks \<Rightarrow> int \<Rightarrow> int \<Rightarrow> KVCacheManager \<Rightarrow> (bool \<times> KVCacheManager) res" where
  "can_fit_full_sequence r new_computed_tokens new_computed external encoder_tokens kv =
     (let total_tokens = min (int (num_computed_tokens r) + new_computed_tokens + external) (max_model_len kv);
          full_num_tokens = min (int (num_tokens r)) (max_model_len kv)
      in rbind (coordinator_blocks_to_allocate (request_id r) full_num_tokens (kv_blocks (num_kv_cache_groups kv) new_computed)
           encoder_tokens total_tokens full_num_tokens (coordinator kv)) (\<lambda>(n, c).
         Inr (n \<le> get_num_free_blocks (coordinator_pool c), kv\<lparr>coordinator := c\<rparr>)))"

text \<open>\<open>allocate_slots\<close>: no slots (\<open>None\<close>) if the pool has too few free blocks\<close>

definition allocate_slots ::
    "(bytes \<Rightarrow> bytes) \<Rightarrow> bool \<Rightarrow> Request \<Rightarrow> int \<Rightarrow> int \<Rightarrow> KVCacheBlocks \<Rightarrow> int \<Rightarrow> int \<Rightarrow> bool \<Rightarrow> int \<Rightarrow> KVCacheManager \<Rightarrow>
     (KVCacheBlocks option \<times> Request \<times> KVCacheManager) res" where
  "allocate_slots sha256 ui r num_new new_computed_tokens new_computed lookahead external delay_cache encoder_tokens kv =
     rbind (require (\<not> (num_new = 0 \<and> external = 0))
       (ValueError ''num_new_tokens must be greater than 0 when there are no external computed tokens'')) (\<lambda>_.
     let computed = kv_blocks (num_kv_cache_groups kv) new_computed;
         num_local = int (num_computed_tokens r) + new_computed_tokens;
         total_tokens = min (num_local + external) (max_model_len kv);
         main_slots = total_tokens + num_new;
         slots = min (main_slots + lookahead) (max_model_len kv);
         rid = request_id r
     in rbind (coordinator_remove_skipped rid total_tokens (coordinator kv)) (\<lambda>c1.
        rbind (coordinator_blocks_to_allocate rid slots computed encoder_tokens (num_local + external) main_slots c1) (\<lambda>(n, c2).
        if n > get_num_free_blocks (coordinator_pool c2) then Inr (None, r, kv\<lparr>coordinator := c2\<rparr>)
        else
          rbind (if new_computed \<noteq> None \<or> external > 0 then coordinator_add_computed ui rid computed num_local external c2
                 else Inr c2) (\<lambda>c3.
          rbind (coordinator_allocate ui rid slots main_slots encoder_tokens c3) (\<lambda>(new, c4).
          if \<not> kv_enable_caching kv \<or> delay_cache then Inr (Some (create_kv_cache_blocks new), r, kv\<lparr>coordinator := c4\<rparr>)
          else rbind (coordinator_cache_blocks sha256 ui r (min (total_tokens + num_new) (int (num_tokens r))) c4) (\<lambda>(r', c5).
            Inr (Some (create_kv_cache_blocks new), r', kv\<lparr>coordinator := c5\<rparr>)))))))"

definition kv_free :: "Request \<Rightarrow> KVCacheManager \<Rightarrow> KVCacheManager res" where
  "kv_free r kv = rbind (coordinator_free (request_id r) (coordinator kv)) (\<lambda>c. Inr (kv\<lparr>coordinator := c\<rparr>))"

definition kv_remove_skipped_blocks :: "string \<Rightarrow> int \<Rightarrow> KVCacheManager \<Rightarrow> KVCacheManager res" where
  "kv_remove_skipped_blocks rid total_tokens kv =
     rbind (coordinator_remove_skipped rid total_tokens (coordinator kv)) (\<lambda>c. Inr (kv\<lparr>coordinator := c\<rparr>))"

definition kv_evict_blocks :: "bool \<Rightarrow> int list \<Rightarrow> KVCacheManager \<Rightarrow> KVCacheManager res" where
  "kv_evict_blocks ui ids kv =
     rbind (evict_blocks ui ids (pool_of kv)) (\<lambda>p. Inr (kv\<lparr>coordinator := (coordinator kv)\<lparr>coordinator_pool := p\<rparr>\<rparr>))"

definition kv_reset_prefix_cache :: "KVCacheManager \<Rightarrow> bool \<times> KVCacheManager" where
  "kv_reset_prefix_cache kv =
     (case reset_prefix_cache (pool_of kv) of (ok, p) \<Rightarrow>
        let kv' = kv\<lparr>coordinator := (coordinator kv)\<lparr>coordinator_pool := p\<rparr>\<rparr>
        in if ok then (True, kv'\<lparr>prefix_cache_stats := map_option (\<lambda>s. s\<lparr>stats_reset := True\<rparr>) (prefix_cache_stats kv')\<rparr>)
           else (False, kv'))"

definition get_num_common_prefix_blocks :: "string \<Rightarrow> KVCacheManager \<Rightarrow> nat list \<times> KVCacheManager" where
  "get_num_common_prefix_blocks rid kv =
     (case coordinator_common_prefix_blocks rid (coordinator kv) of (ns, c) \<Rightarrow> (ns, kv\<lparr>coordinator := c\<rparr>))"

definition kv_take_events :: "KVCacheManager \<Rightarrow> KVCacheEvent list \<times> KVCacheManager" where
  "kv_take_events kv =
     (case take_events (pool_of kv) of (es, p) \<Rightarrow> (es, kv\<lparr>coordinator := (coordinator kv)\<lparr>coordinator_pool := p\<rparr>\<rparr>))"

definition kv_get_blocks :: "string \<Rightarrow> KVCacheManager \<Rightarrow> KVCacheBlocks" where
  "kv_get_blocks rid kv = create_kv_cache_blocks (coordinator_get_blocks rid (coordinator kv))"

definition get_block_ids :: "string \<Rightarrow> KVCacheManager \<Rightarrow> int list list option" where
  "get_block_ids rid kv = kv_get_block_ids (pool_of kv) (num_kv_cache_groups kv) False (kv_get_blocks rid kv)"

definition kv_cache_blocks ::
    "(bytes \<Rightarrow> bytes) \<Rightarrow> bool \<Rightarrow> Request \<Rightarrow> int \<Rightarrow> KVCacheManager \<Rightarrow> (Request \<times> KVCacheManager) res" where
  "kv_cache_blocks sha256 ui r computed kv =
     (if kv_enable_caching kv
      then rbind (coordinator_cache_blocks sha256 ui r computed (coordinator kv)) (\<lambda>(r', c). Inr (r', kv\<lparr>coordinator := c\<rparr>))
      else Inr (r, kv))"

definition kv_take_new_block_ids :: "KVCacheManager \<Rightarrow> int list \<times> KVCacheManager" where
  "kv_take_new_block_ids kv =
     (let rs = map take_new_block_ids (single_type_managers (coordinator kv))
      in (concat (map fst rs), kv\<lparr>coordinator := (coordinator kv)\<lparr>single_type_managers := map snd rs\<rparr>\<rparr>))"

definition kv_new_step_starts :: "KVCacheManager \<Rightarrow> KVCacheManager" where
  "kv_new_step_starts kv = kv\<lparr>coordinator := coordinator_new_step (coordinator kv)\<rparr>"

end
