(* ===== verification/KV_Managers_Correct.thy ===== *)
theory KV_Managers_Correct
  imports KV_Cache
begin

text \<open>
  What one manager keeps: the blocks listed for its requests are references it holds in the pool, the
  ones not yet cached belong to one request only, and every call returns and keeps this. The contract of
  a call is a locale; a call of all managers in turn keeps it.
\<close>

section \<open>Dictionaries and division\<close>

lemma py_floordiv_pos [simp]: "0 < b \<Longrightarrow> py_floordiv a b = Inr (a div b)"
  by (simp add: py_floordiv_def)

lemma py_cdiv_pos [simp]: "0 < b \<Longrightarrow> py_cdiv a b = Inr (cdiv a b)"
  by (simp add: py_cdiv_def py_floordiv_def cdiv_def)

lemma cdiv_least:
  assumes "0 < b"
  shows "cdiv a b \<le> n \<longleftrightarrow> a \<le> n * b"
proof -
  define q where "q = - a div b"
  have q: "q * b \<le> - a" "- a < q * b + b"
    using div_mult_mod_eq [of "- a" b] pos_mod_bound [OF assms, of "- a"] pos_mod_sign [OF assms, of "- a"]
    unfolding q_def by linarith+
  have "cdiv a b = - q" by (simp add: cdiv_def q_def div_minus_right)
  moreover have "- q \<le> n \<longleftrightarrow> a \<le> n * b"
  proof
    assume "- q \<le> n"
    then have "- q * b \<le> n * b" using assms by (intro mult_right_mono) simp_all
    with q(1) show "a \<le> n * b" by simp
  next
    assume a: "a \<le> n * b"
    show "- q \<le> n"
    proof (rule ccontr)
      assume "\<not> - q \<le> n"
      then have "(n + 1) * b \<le> - q * b" using assms by (intro mult_right_mono) simp_all
      with q(2) a show False by (simp add: algebra_simps)
    qed
  qed
  ultimately show ?thesis by simp
qed

lemma dict_get_update [simp]: "dict_get (AList.update k v d) k' w = (if k' = k then v else dict_get d k' w)"
  by (simp add: dict_get_def update_conv')

lemma dict_get_delete [simp]: "dict_get (AList.delete k d) k' w = (if k' = k then w else dict_get d k' w)"
  by (simp add: dict_get_def delete_conv')

lemma dict_get_touch_key [simp]: "dict_get (touch_key k d) k' [] = dict_get d k' []"
  by (simp add: touch_key_def dict_get_def update_conv' split: option.split)

lemma distinct_touch_key [simp]: "distinct (map fst d) \<Longrightarrow> distinct (map fst (touch_key k d))"
  by (simp add: touch_key_def distinct_update split: option.split)

lemma sum_list_update:
  fixes g :: "'v \<Rightarrow> 'a multiset"
  assumes "distinct (map fst d)" and "g w = {#}"
  shows "sum_list (map (g \<circ> snd) (AList.update k v d)) + g (dict_get d k w) = sum_list (map (g \<circ> snd) d) + g v"
  using assms
proof (induction d)
  case (Cons kv d)
  obtain k' v' where "kv = (k', v')" by (cases kv)
  with Cons show ?case by (auto simp: dict_get_def map_of_eq_None_iff ac_simps split: option.splits)
qed (simp add: dict_get_def)

lemma sum_list_delete:
  fixes g :: "'v \<Rightarrow> 'a multiset"
  assumes "distinct (map fst d)" and "g w = {#}"
  shows "sum_list (map (g \<circ> snd) (AList.delete k d)) + g (dict_get d k w) = sum_list (map (g \<circ> snd) d)"
  using assms
proof (induction d)
  case (Cons kv d)
  obtain k' v' where kv: "kv = (k', v')" by (cases kv)
  have "AList.delete k d = d" if "k \<notin> fst ` set d" using that by (simp add: delete_id)
  with Cons kv show ?case by (auto simp: dict_get_def AList.delete_eq ac_simps split: option.splits)
qed (simp add: dict_get_def AList.delete_eq)

section \<open>The blocks a manager holds\<close>

fun nat_of :: "block_ref \<Rightarrow> nat" where
  "nat_of (Block b) = b"
| "nat_of _ = 0"

definition owned :: "block_ref list \<Rightarrow> nat multiset" where
  "owned bs = mset (filter (\<lambda>b. b \<noteq> 0) (map nat_of bs))"

lemma owned_simps [simp]:
  "owned [] = {#}" "owned (x # xs) = (if nat_of x = 0 then {#} else {#nat_of x#}) + owned xs"
  "owned (xs @ ys) = owned xs + owned ys" "owned (rev xs) = owned xs"
  "owned (replicate n (Block 0)) = {#}"
  by (auto simp: owned_def rev_map [symmetric] rev_filter [symmetric] simp del: rev_map)

definition held_in :: "SingleTypeKVCacheManager \<Rightarrow> nat multiset" where
  "held_in m = sum_list (map (owned \<circ> snd) (req_to_blocks m))"

definition blocks_wf :: "BlockPool \<Rightarrow> block_ref list \<Rightarrow> bool" where
  "blocks_wf p bs \<longleftrightarrow> (\<forall>x \<in> set bs. \<exists>b < pool_size p. x = Block b) \<and> distinct (filter (\<lambda>b. b \<noteq> 0) (map nat_of bs))"

definition cached_count :: "SingleTypeKVCacheManager \<Rightarrow> string \<Rightarrow> nat" where
  "cached_count m rid = dict_get (num_cached_block m) rid 0"

text \<open>A block in the list of one request that no lookup can find\<close>

definition unshared :: "BlockPool \<Rightarrow> nat multiset \<Rightarrow> nat \<Rightarrow> bool" where
  "unshared p held b \<longleftrightarrow> (enable_caching p \<longrightarrow> hash_of p b = None) \<and> count held b = 1"

definition manager_wf :: "BlockPool \<Rightarrow> nat multiset \<Rightarrow> SingleTypeKVCacheManager \<Rightarrow> bool" where
  "manager_wf p held m \<longleftrightarrow> 0 < manager_block_size m \<and> distinct (map fst (req_to_blocks m)) \<and>
     manager_caching m = enable_caching p \<and>
     (\<forall>rid. blocks_wf p (blocks_of m rid) \<and> cached_count m rid \<le> length (blocks_of m rid) \<and>
       (\<forall>b \<in># owned (drop (cached_count m rid) (blocks_of m rid)). unshared p held b))"

text \<open>The kinds whose managers do not override the operations of the base class\<close>

definition plain :: "SingleTypeKVCacheManager \<Rightarrow> bool" where
  "plain m \<longleftrightarrow> (case kind m of
      FullAttentionSpec \<Rightarrow> True | MLAAttentionSpec \<Rightarrow> True | SlidingWindowSpec window \<Rightarrow> 0 < window
    | ChunkedLocalAttentionSpec chunk \<Rightarrow> 0 < chunk | _ \<Rightarrow> False)"

definition skipped_tokens :: "SingleTypeKVCacheManager \<Rightarrow> int \<Rightarrow> int" where
  "skipped_tokens m computed = (case kind m of
      SlidingWindowSpec window \<Rightarrow> max 0 (computed - int window + 1)
    | ChunkedLocalAttentionSpec chunk \<Rightarrow> computed div int chunk * int chunk
    | _ \<Rightarrow> 0)"

lemma plain_skipped [simp]: "plain m \<Longrightarrow> get_num_skipped_tokens m n = Inr (skipped_tokens m n)"
  by (auto simp: plain_def get_num_skipped_tokens_def skipped_tokens_def split: attention_type.splits)

lemma skipped_tokens_bounds:
  assumes "plain m" and "0 \<le> n"
  shows "0 \<le> skipped_tokens m n" and "skipped_tokens m n \<le> n"
  using assms zmod_le_nonneg_dividend [of n]
  by (auto simp: plain_def skipped_tokens_def pos_imp_zdiv_nonneg_iff minus_mod_eq_div_mult [symmetric] split: attention_type.splits)

lemma set_blocks_simps [simp]:
  "blocks_of (set_blocks rid bs m) rid' = (if rid' = rid then bs else blocks_of m rid')"
  "kv_cache_spec (set_blocks rid bs m) = kv_cache_spec m"
  "manager_block_size (set_blocks rid bs m) = manager_block_size m"
  "manager_caching (set_blocks rid bs m) = manager_caching m"
  "num_cached_block (set_blocks rid bs m) = num_cached_block m"
  "kv_cache_group_id (set_blocks rid bs m) = kv_cache_group_id m"
  by (simp_all add: set_blocks_def blocks_of_def)

lemma set_blocks_keys [simp]:
  "distinct (map fst (req_to_blocks m)) \<Longrightarrow> distinct (map fst (req_to_blocks (set_blocks rid bs m)))"
  "cached_count (set_blocks rid bs m) rid' = cached_count m rid'"
  by (simp_all add: set_blocks_def distinct_update cached_count_def)

lemma held_in_set_blocks:
  assumes "distinct (map fst (req_to_blocks m))"
  shows "held_in (set_blocks rid bs m) + owned (blocks_of m rid) = held_in m + owned bs"
  using sum_list_update [OF assms, of owned "[]" rid bs] by (simp add: held_in_def set_blocks_def blocks_of_def)

lemma owned_blocks_of:
  assumes "distinct (map fst (req_to_blocks m))"
  shows "owned (blocks_of m rid) \<subseteq># held_in m"
  using sum_list_delete [OF assms, of owned "[]" rid] by (metis blocks_of_def held_in_def mset_subset_eq_add_right owned_simps(1))

lemma held_in_touch_key:
  assumes "distinct (map fst (req_to_blocks m))"
  shows "held_in (m\<lparr>req_to_blocks := touch_key rid (req_to_blocks m)\<rparr>) = held_in m"
  using sum_list_update [OF assms, of owned "[]" rid "[]"]
  by (auto simp: held_in_def touch_key_def dict_get_def split: option.split)

section \<open>The contract of a call\<close>

text \<open>
  What a call leaves of the pool for the other managers: its size and pool_settings, and the blocks that are
  unshared and not the manager's own stay so.
\<close>

definition keeps :: "BlockPool \<Rightarrow> nat multiset \<Rightarrow> BlockPool \<Rightarrow> nat multiset \<Rightarrow> nat multiset \<Rightarrow> bool" where
  "keeps p held p' held' own \<longleftrightarrow> num_gpu_blocks p' = num_gpu_blocks p \<and> hash_block_size p' = hash_block_size p \<and>
     enable_caching p' = enable_caching p \<and> (\<forall>b. unshared p held b \<and> b \<notin># own \<longrightarrow> unshared p' held' b)"

lemma manager_wf_keeps:
  assumes "manager_wf p held m" and "keeps p held p' held' own" and "held_in m + own \<subseteq># held"
  shows "manager_wf p' held' m"
proof -
  have "unshared p' held' b" if b: "b \<in># owned (drop (cached_count m rid) (blocks_of m rid))" for rid b
  proof -
    have "owned (drop (cached_count m rid) (blocks_of m rid)) \<subseteq># owned (blocks_of m rid)"
      by (metis append_take_drop_id mset_subset_eq_add_right owned_simps(3))
    also have "\<dots> \<subseteq># held_in m" using assms(1) by (intro owned_blocks_of) (simp add: manager_wf_def)
    finally have "b \<in># held_in m" using b by (rule mset_subset_eqD)
    moreover have "unshared p held b" using assms(1) b by (auto simp: manager_wf_def)
    moreover have "count (held_in m) b + count own b \<le> count held b"
      using mset_subset_eq_count [OF assms(3), of b] by simp
    moreover have "0 < count (held_in m) b" using \<open>b \<in># held_in m\<close> by (simp only: count_greater_zero_iff)
    ultimately have "count own b = 0" unfolding unshared_def by linarith
    then have "b \<notin># own" by (simp only: not_in_iff)
    with assms(2) \<open>unshared p held b\<close> show ?thesis by (simp add: keeps_def)
  qed
  with assms(1,2) show ?thesis by (auto simp: manager_wf_def keeps_def blocks_wf_def)
qed

lemma keeps_refl [simp]: "keeps p held p held own"
  by (simp add: keeps_def)

lemma keeps_trans:
  assumes "keeps p held p' held' own" and "keeps p' held' p'' held'' own'" and "set_mset own' \<subseteq> set_mset own"
  shows "keeps p held p'' held'' own"
  using assms by (auto simp: keeps_def)

text \<open>
  A call of a manager: \<open>pl\<close> is the pool in the state it is passed, \<open>env\<close> what all calls may assume and keep,
  \<open>pre\<close> what it assumes of its manager, \<open>need\<close> how many free blocks it uses at most and \<open>post\<close> what it does.
\<close>

locale manager_call =
  fixes call :: "nat \<Rightarrow> SingleTypeKVCacheManager \<Rightarrow> 's \<Rightarrow> ('a \<times> SingleTypeKVCacheManager \<times> 's) res"
    and pl :: "'s \<Rightarrow> BlockPool"
    and env :: "'s \<Rightarrow> nat multiset \<Rightarrow> bool"
    and pre :: "nat \<Rightarrow> SingleTypeKVCacheManager \<Rightarrow> bool"
    and need :: "nat \<Rightarrow> SingleTypeKVCacheManager \<Rightarrow> nat"
    and post :: "nat \<Rightarrow> SingleTypeKVCacheManager \<Rightarrow> 'a \<Rightarrow> SingleTypeKVCacheManager \<Rightarrow> bool"
  assumes contract: "pool_ok (pl s) (held_in m + others) \<Longrightarrow> manager_wf (pl s) (held_in m + others) m \<Longrightarrow>
      env s (held_in m + others) \<Longrightarrow> pre i m \<Longrightarrow> int (need i m) \<le> get_num_free_blocks (pl s) \<Longrightarrow>
      \<exists>x m' s'. call i m s = Inr (x, m', s') \<and> pool_ok (pl s') (held_in m' + others) \<and>
        manager_wf (pl s') (held_in m' + others) m' \<and> env s' (held_in m' + others) \<and>
        keeps (pl s) (held_in m + others) (pl s') (held_in m' + others) (held_in m) \<and>
        get_num_free_blocks (pl s') \<ge> get_num_free_blocks (pl s) - int (need i m) \<and> post i m x m'"
begin

lemma each_manager_contract:
  assumes "pool_ok (pl s) (sum_list (map held_in ms) + others)" and "env s (sum_list (map held_in ms) + others)"
    and "\<forall>m \<in> set ms. manager_wf (pl s) (sum_list (map held_in ms) + others) m"
    and "\<forall>j < length ms. pre (i + j) (ms ! j)"
    and "int (\<Sum>j<length ms. need (i + j) (ms ! j)) \<le> get_num_free_blocks (pl s)"
  shows "\<exists>xs ms' s'. each_manager call i ms s = Inr (xs, ms', s') \<and> length xs = length ms \<and> length ms' = length ms \<and>
    pool_ok (pl s') (sum_list (map held_in ms') + others) \<and> env s' (sum_list (map held_in ms') + others) \<and>
    (\<forall>m \<in> set ms'. manager_wf (pl s') (sum_list (map held_in ms') + others) m) \<and>
    keeps (pl s) (sum_list (map held_in ms) + others) (pl s') (sum_list (map held_in ms') + others) (sum_list (map held_in ms)) \<and>
    get_num_free_blocks (pl s') \<ge> get_num_free_blocks (pl s) - int (\<Sum>j<length ms. need (i + j) (ms ! j)) \<and>
    (\<forall>j < length ms. post (i + j) (ms ! j) (xs ! j) (ms' ! j))"
  using assms
proof (induction ms arbitrary: i s others)
  case Nil
  then show ?case by simp
next
  case (Cons m ms)
  let ?rest = "sum_list (map held_in ms)"
  have split: "(\<Sum>j<length (m # ms). need (i + j) ((m # ms) ! j)) = need i m + (\<Sum>j<length ms. need (Suc i + j) (ms ! j))"
    by (simp add: sum.lessThan_Suc_shift del: sum.lessThan_Suc)
  have "pre i m" using Cons.prems(4) [rule_format, of 0] by simp
  moreover have "int (need i m) \<le> get_num_free_blocks (pl s)" using Cons.prems(5) unfolding split of_nat_add by linarith
  ultimately obtain x m' s' where call: "call i m s = Inr (x, m', s')"
    and ok: "pool_ok (pl s') (held_in m' + (?rest + others))" "manager_wf (pl s') (held_in m' + (?rest + others)) m'"
      "env s' (held_in m' + (?rest + others))"
    and keep: "keeps (pl s) (held_in m + (?rest + others)) (pl s') (held_in m' + (?rest + others)) (held_in m)"
    and free: "get_num_free_blocks (pl s') \<ge> get_num_free_blocks (pl s) - int (need i m)" and post: "post i m x m'"
    using contract [of s m "?rest + others" i] Cons.prems(1-3) by (auto simp: add.assoc)
  have swap: "held_in m' + (?rest + others) = ?rest + (held_in m' + others)" by (simp add: ac_simps)
  have "manager_wf (pl s') (?rest + (held_in m' + others)) n" if n: "n \<in> set ms" for n
  proof (rule manager_wf_keeps [OF _ keep [unfolded swap]])
    show "manager_wf (pl s) (held_in m + (?rest + others)) n" using Cons.prems(3) n by (simp add: add.assoc)
    have "held_in n \<subseteq># ?rest" using n by (metis in_set_conv_decomp map_append list.simps(9) sum_list.append sum_list.Cons
      mset_subset_eq_add_left mset_subset_eq_add_right subset_mset.order_trans)
    then show "held_in n + held_in m \<subseteq># held_in m + (?rest + others)"
      by (simp add: add.commute [of "held_in n"] subset_mset.add_increasing2)
  qed
  with Cons.IH [of s' "held_in m' + others" "Suc i"] ok Cons.prems(4,5) free obtain xs ms' s'' where
    rest: "each_manager call (Suc i) ms s' = Inr (xs, ms', s'')" "length xs = length ms" "length ms' = length ms"
      "pool_ok (pl s'') (sum_list (map held_in ms') + (held_in m' + others))" "env s'' (sum_list (map held_in ms') + (held_in m' + others))"
      "\<forall>m \<in> set ms'. manager_wf (pl s'') (sum_list (map held_in ms') + (held_in m' + others)) m"
      "keeps (pl s') (?rest + (held_in m' + others)) (pl s'') (sum_list (map held_in ms') + (held_in m' + others)) ?rest"
      "get_num_free_blocks (pl s'') \<ge> get_num_free_blocks (pl s') - int (\<Sum>j<length ms. need (Suc i + j) (ms ! j))"
      "\<forall>j < length ms. post (Suc i + j) (ms ! j) (xs ! j) (ms' ! j)"
    unfolding swap split by (fastforce simp: nth_Cons)
  have swap': "sum_list (map held_in ms') + (held_in m' + others) = sum_list (map held_in (m' # ms')) + others" by (simp add: ac_simps)
  have "manager_wf (pl s'') (sum_list (map held_in (m' # ms')) + others) m'"
    using manager_wf_keeps [OF ok(2) [unfolded swap] rest(7)] by (simp add: swap' ac_simps)
  moreover have "keeps (pl s) (sum_list (map held_in (m # ms)) + others) (pl s'') (sum_list (map held_in (m' # ms')) + others)
      (sum_list (map held_in (m # ms)))"
  proof -
    have "b \<notin># held_in m" "b \<notin># ?rest" if "b \<notin># sum_list (map held_in (m # ms))" for b using that by auto
    with keep [unfolded swap] rest(7) show ?thesis unfolding keeps_def swap' by (auto simp: ac_simps)
  qed
  moreover have "\<forall>j < length (m # ms). post (i + j) ((m # ms) ! j) ((x # xs) ! j) ((m' # ms') ! j)"
    using post rest(9) by (auto simp: nth_Cons split: nat.splits)
  ultimately show ?case
    using call rest(1-6,8) free unfolding split swap'
    by (intro exI [of _ "x # xs"] exI [of _ "m' # ms'"] exI [of _ s'']) auto
qed

end

section \<open>What the operations of the pool keep\<close>

lemma cache_full_blocks_request:
  assumes "cache_full_blocks sha256 ui r bs nc nf bsz g p = Inr (p', r')" and "nf \<le> length bs"
    and "features_ok (mm_features r)" and "memo_ok sha256 r"
  shows "\<exists>m. r' = r\<lparr>embeds_hashes := m\<rparr> \<and> memo_ok sha256 r'"
proof -
  have "r' = r \<or> (\<exists>p1 keys. event_extra_keys sha256 p1 bs bsz [nc..<nf] r = Inr (keys, r'))"
    using assms(1) by (auto simp: cache_full_blocks_def rbind_eq_Inr Let_def split: if_splits)
  moreover have "r = r\<lparr>embeds_hashes := embeds_hashes r\<rparr>" by simp
  ultimately show ?thesis
    using event_extra_keys_defined [OF assms(3,4,2), of _ bsz nc] assms(4) by (metis Inr_inject prod.inject)
qed

definition pool_settings :: "BlockPool \<Rightarrow> bool \<times> nat" where
  "pool_settings p = (enable_caching p, hash_block_size p)"

lemma settings_simps [simp]:
  "pool_settings (update_blk x f p) = pool_settings p" "pool_settings (add_ref k x p) = pool_settings p" "pool_settings (metric c p) = pool_settings p"
  "pool_settings (p\<lparr>free_block_queue := q\<rparr>) = pool_settings p" "pool_settings (p\<lparr>kv_event_queue := es\<rparr>) = pool_settings p"
  "pool_settings (p\<lparr>cached_block_hash_to_block := cache\<rparr>) = pool_settings p"
  by (simp_all add: pool_settings_def add_ref_def)

lemma settings_evict [simp]: "pool_settings (snd (maybe_evict_cached_block ui x p)) = pool_settings p"
  by (simp add: maybe_evict_cached_block_def Let_def split: option.split prod.split)

lemma settings_free: "free_blocks bs p = Inr p' \<Longrightarrow> pool_settings p' = pool_settings p"
proof -
  have "pool_settings (fold (add_ref k) bs p) = pool_settings p" for k by (induction bs arbitrary: p) simp_all
  then show "free_blocks bs p = Inr p' \<Longrightarrow> pool_settings p' = pool_settings p"
    by (auto simp: free_blocks_def Let_def rbind_eq_Inr)
qed

lemma settings_touch: "touch bs p = Inr p' \<Longrightarrow> pool_settings p' = pool_settings p"
  unfolding touch_def
  by (erule fold_res_invariant [where P = "\<lambda>p'. pool_settings p' = pool_settings p"])
    (auto simp: touch_block_def rbind_eq_Inr split: if_splits)

lemma settings_new: "get_new_blocks ui n p = Inr (bs, p') \<Longrightarrow> pool_settings p' = pool_settings p"
proof -
  assume "get_new_blocks ui n p = Inr (bs, p')"
  then obtain q where "fold_res (take_new_block ui) bs (p\<lparr>free_block_queue := q\<rparr>) = Inr p'"
    by (auto simp: get_new_blocks_def rbind_eq_Inr)
  then show "pool_settings p' = pool_settings p"
    by (rule fold_res_invariant [where P = "\<lambda>p'. pool_settings p' = pool_settings p"])
      (auto simp: take_new_block_def Let_def rbind_eq_Inr require_eq_Inr split: if_splits)
qed

lemma settings_cache: "cache_full_blocks sha256 ui r bs nc nf bsz g p = Inr (p', r') \<Longrightarrow> pool_settings p' = pool_settings p"
proof -
  have one: "pool_settings (fst s') = pool_settings (fst s)" if "cache_block ui hs g x s = Inr s'" for hs x s s'
    using that by (cases x; cases s) (auto simp: cache_block_def rbind_eq_Inr require_eq_Inr Let_def split: if_splits)
  have loop: "pool_settings (fst s') = pool_settings (fst s)" if "fold_res (cache_block ui hs g) xs s = Inr s'" for hs xs s s'
    by (rule fold_res_invariant [OF that, where P = "\<lambda>t. pool_settings (fst t) = pool_settings (fst s)"]) (auto dest: one)
  assume run: "cache_full_blocks sha256 ui r bs nc nf bsz g p = Inr (p', r')"
  show ?thesis
  proof (cases "nc \<ge> nf")
    case True
    with run show ?thesis by (simp add: cache_full_blocks_def)
  next
    case False
    with run obtain hs where hs: "group_hashes_from p r bsz nc = Inr hs"
      by (cases "group_hashes_from p r bsz nc") (auto simp: cache_full_blocks_def Let_def require_def split: if_splits)
    define nh :: "ExternalBlockHash list option" where "nh = (if enable_kv_cache_events p then Some [] else None)"
    from False run hs obtain p1 nh1 where
      fold: "fold_res (cache_block ui hs g) (List.enumerate 0 (py_slice bs nc nf)) (p, nh) = Inr (p1, nh1)"
      unfolding nh_def
      by (cases "fold_res (cache_block ui hs g) (List.enumerate 0 (py_slice bs nc nf)) (p, if enable_kv_cache_events p then Some [] else None)")
        (auto simp: cache_full_blocks_def Let_def require_def split: if_splits)
    from False run hs fold have "pool_settings p' = pool_settings p1"
      by (cases "enable_kv_cache_events p1")
        (auto simp: cache_full_blocks_def Let_def require_def rbind_eq_Inr simp flip: nh_def split: if_splits)
    with loop [OF fold] show ?thesis by simp
  qed
qed

lemma free_count: "pool_ok p held \<Longrightarrow> get_num_free_blocks p = num_gpu_blocks p - 1 - int (card (set_mset held))"
  using used_blocks [of p held] by simp

lemma free_nonneg: "pool_ok p held \<Longrightarrow> 0 \<le> get_num_free_blocks p"
  using pool_ok_rel num_free_rel by fastforce

lemma pool_ok_static:
  assumes "pool_ok p held"
  shows "0 < pool_size p" and "null_block p = Block 0" and "\<And>b. is_null (blk p (Block b)) \<longleftrightarrow> b = 0"
    and "\<And>b. 0 < b \<Longrightarrow> ref_cnt (blk p (Block b)) = int (count held b)" and "\<And>b. block_id (blk p (Block b)) = int b"
proof -
  from assms obtain xs where "static_ok p" "refs_ok p held xs" by (auto simp: pool_ok_def pool_rel_def)
  then show "0 < pool_size p" and "null_block p = Block 0" and "\<And>b. is_null (blk p (Block b)) \<longleftrightarrow> b = 0"
    and "\<And>b. 0 < b \<Longrightarrow> ref_cnt (blk p (Block b)) = int (count held b)" and "\<And>b. block_id (blk p (Block b)) = int b"
    unfolding static_ok_def refs_ok_def by simp_all
qed

lemma blocks_wf_map: "blocks_wf p bs \<Longrightarrow> bs = map Block (map nat_of bs) \<and> set (map nat_of bs) \<subseteq> {..<pool_size p}"
  by (auto simp: blocks_wf_def intro!: map_idI [symmetric])

lemma pool_free:
  assumes "pool_ok p held" and "blocks_wf p bs" and "owned bs \<subseteq># held"
  shows "\<exists>p'. free_blocks bs p = Inr p' \<and> pool_ok p' (held - owned bs) \<and> num_gpu_blocks p' = num_gpu_blocks p \<and>
    pool_settings p' = pool_settings p \<and> (\<forall>c. hash_of p' c = hash_of p c) \<and> get_num_free_blocks p' \<ge> get_num_free_blocks p"
proof -
  let ?ids = "map nat_of bs"
  from blocks_wf_map [OF assms(2)] have bs: "bs = map Block ?ids" by blast
  have nn: "distinct (filter (\<lambda>b. b \<noteq> 0) ?ids)" "mset (filter (\<lambda>b. b \<noteq> 0) ?ids) \<subseteq># held"
    using assms(2,3) by (simp_all add: blocks_wf_def owned_def)
  from pool_ok_rel [OF assms(1)] obtain xs where "pool_rel p held xs" by blast
  from free_blocks_rel [OF this nn] obtain p' where p': "free_blocks (map Block ?ids) p = Inr p'"
    "num_gpu_blocks p' = num_gpu_blocks p" "\<forall>c. hash_of p' c = hash_of p c" by blast
  from pool_ok_step [OF pool_step.freeing [OF nn p'(1)]] assms(1) have "pool_ok p' (held - owned bs)" by (simp add: owned_def)
  moreover have "set_mset (held - owned bs) \<subseteq> set_mset held" by (auto dest: in_diffD)
  then have "card (set_mset (held - owned bs)) \<le> card (set_mset held)" by (simp add: card_mono)
  ultimately have "pool_ok p' (held - owned bs)" "get_num_free_blocks p' \<ge> get_num_free_blocks p"
    using free_count [OF assms(1)] free_count [of p' "held - owned bs"] p'(2) by simp_all
  with p' settings_free [OF p'(1)] bs show ?thesis by metis
qed

lemma pool_touch:
  assumes "pool_ok p held" and "blocks_wf p bs"
  shows "\<exists>p'. touch bs p = Inr p' \<and> pool_ok p' (held + owned bs) \<and> num_gpu_blocks p' = num_gpu_blocks p \<and>
    pool_settings p' = pool_settings p \<and> (\<forall>c. hash_of p' c = hash_of p c)"
proof -
  let ?ids = "map nat_of bs"
  from blocks_wf_map [OF assms(2)] have bs: "bs = map Block ?ids" "set ?ids \<subseteq> {..<pool_size p}" by blast+
  from pool_ok_rel [OF assms(1)] obtain xs where "pool_rel p held xs" "{0 <..< pool_size p} \<subseteq> set xs \<union> set_mset held" by auto
  from touch_rel [OF this(1) bs(2) this(2)] obtain p' where p': "touch (map Block ?ids) p = Inr p'"
    "num_gpu_blocks p' = num_gpu_blocks p" "\<forall>c. hash_of p' c = hash_of p c" by blast
  from pool_ok_step [OF pool_step.touching [OF bs(2) p'(1), of id False held]] assms(1)
  have "pool_ok p' (held + owned bs)" by (simp add: owned_def)
  with p' settings_touch [OF p'(1)] bs(1) show ?thesis by metis
qed

lemma pool_new:
  assumes "pool_ok p held" and "0 \<le> n" and "n \<le> get_num_free_blocks p"
  shows "\<exists>bs p'. get_new_blocks ui n p = Inr (bs, p') \<and> int (length bs) = n \<and> blocks_wf p bs \<and>
    pool_ok p' (held + owned bs) \<and> num_gpu_blocks p' = num_gpu_blocks p \<and> pool_settings p' = pool_settings p \<and>
    size (owned bs) = length bs \<and> set_mset (owned bs) \<inter> set_mset held = {} \<and> (\<forall>b. count (owned bs) b \<le> 1) \<and>
    (enable_caching p \<longrightarrow> (\<forall>b \<in># owned bs. hash_of p' b = None)) \<and> (\<forall>c. c \<notin># owned bs \<longrightarrow> hash_of p' c = hash_of p c)"
proof -
  from pool_ok_allocate [OF assms, of ui] obtain ids p' where
    ids: "get_new_blocks ui n p = Inr (map Block ids, p')" "int (length ids) = n" "distinct ids"
      "set ids \<subseteq> {0 <..< pool_size p} - set_mset held" and p': "pool_ok p' (held + mset ids)"
      "enable_caching p \<longrightarrow> (\<forall>b \<in> set ids. hash_of p' b = None)" "\<forall>c. c \<notin> set ids \<longrightarrow> hash_of p' c = hash_of p c" by blast
  have nn: "filter (\<lambda>b. b \<noteq> 0) ids = ids" using ids(4) by (auto simp: filter_id_conv)
  then have own: "owned (map Block ids) = mset ids" by (simp add: owned_def comp_def)
  from pool_ok_rel [OF assms(1)] obtain xs where "pool_rel p held xs" by blast
  then have "num_gpu_blocks p' = num_gpu_blocks p"
    using get_new_blocks_rel [of p held xs "nat n" ui] ids(1) assms(2,3) by (auto simp: num_free_rel)
  with ids p' own nn settings_new [OF ids(1)] show ?thesis
    by (intro exI [of _ "map Block ids"] exI [of _ p'])
      (auto simp: blocks_wf_def comp_def distinct_count_atmost_1)
qed

end
