(* ===== verification/KV_Contracts.thy ===== *)
theory KV_Contracts
  imports KV_Managers_Correct
begin

text \<open>
  The contract of every call of a manager: freeing a request, dropping the blocks its attention no longer
  reads, adding the blocks found in the prefix cache, allocating new ones and caching full ones.
\<close>

section \<open>Replacing the blocks of one request\<close>

definition same_manager :: "SingleTypeKVCacheManager \<Rightarrow> SingleTypeKVCacheManager \<Rightarrow> bool" where
  "same_manager m m' \<longleftrightarrow> kv_cache_spec m' = kv_cache_spec m \<and> manager_block_size m' = manager_block_size m \<and>
     manager_caching m' = manager_caching m \<and> kv_cache_group_id m' = kv_cache_group_id m"

definition other_requests_kept :: "string \<Rightarrow> SingleTypeKVCacheManager \<Rightarrow> SingleTypeKVCacheManager \<Rightarrow> bool" where
  "other_requests_kept rid m m' \<longleftrightarrow> same_manager m m' \<and>
     (\<forall>rid'. rid' \<noteq> rid \<longrightarrow> blocks_of m' rid' = blocks_of m rid' \<and> map_of (num_cached_block m') rid' = map_of (num_cached_block m) rid')"

definition call_ok ::
    "BlockPool \<Rightarrow> SingleTypeKVCacheManager \<Rightarrow> nat multiset \<Rightarrow> BlockPool \<Rightarrow> SingleTypeKVCacheManager \<Rightarrow> bool" where
  "call_ok p m others p' m' \<longleftrightarrow> pool_ok p' (held_in m' + others) \<and> manager_wf p' (held_in m' + others) m' \<and>
     keeps p (held_in m + others) p' (held_in m' + others) (held_in m)"

lemma owned_two_requests:
  assumes "distinct (map fst (req_to_blocks m))" and "rid' \<noteq> rid"
  shows "owned (blocks_of m rid') + owned (blocks_of m rid) \<subseteq># held_in m"
proof -
  have "distinct (map fst (req_to_blocks (set_blocks rid [] m)))" using assms(1) by (simp add: set_blocks_def distinct_update)
  from owned_blocks_of [OF this, of rid'] held_in_set_blocks [OF assms(1), of rid "[]"] assms(2) show ?thesis
    by (metis add.right_neutral owned_simps(1) set_blocks_simps(1) subset_mset.add_right_mono)
qed

lemma keeps_mono: "keeps p held p' held' own \<Longrightarrow> own \<subseteq># own' \<Longrightarrow> keeps p held p' held' own'"
  by (auto simp: keeps_def dest: mset_subset_eqD)

lemma keepsI:
  assumes "num_gpu_blocks p' = num_gpu_blocks p" and "pool_settings p' = pool_settings p"
    and "\<And>b. unshared p held b \<Longrightarrow> b \<notin># own \<Longrightarrow> count held' b = count held b \<and> hash_of p' b = hash_of p b"
  shows "keeps p held p' held' own"
  using assms by (auto simp: keeps_def pool_settings_def unshared_def)

lemma call_okI:
  assumes wf: "manager_wf p (held_in m + others) m" and "pool_ok p' (held_in m' + others)"
    and keep: "keeps p (held_in m + others) p' (held_in m' + others) (owned (blocks_of m rid))"
    and rest: "other_requests_kept rid m m'" and "distinct (map fst (req_to_blocks m'))"
    and "blocks_wf p (blocks_of m' rid)" and "cached_count m' rid \<le> length (blocks_of m' rid)"
    and new: "\<forall>b \<in># owned (drop (cached_count m' rid) (blocks_of m' rid)). unshared p' (held_in m' + others) b"
  shows "call_ok p m others p' m'"
proof -
  from wf have keys: "distinct (map fst (req_to_blocks m))" by (simp add: manager_wf_def)
  have "unshared p' (held_in m' + others) b" if b: "b \<in># owned (drop (cached_count m rid') (blocks_of m rid'))" "rid' \<noteq> rid" for b rid'
  proof -
    have un: "unshared p (held_in m + others) b" using wf b(1) by (auto simp: manager_wf_def)
    have "owned (drop (cached_count m rid') (blocks_of m rid')) \<subseteq># owned (blocks_of m rid')"
      by (metis append_take_drop_id mset_subset_eq_add_right owned_simps(3))
    with b(1) have "0 < count (owned (blocks_of m rid')) b" by (auto dest: mset_subset_eqD)
    moreover have "count (owned (blocks_of m rid')) b + count (owned (blocks_of m rid)) b \<le> count (held_in m) b"
      using mset_subset_eq_count [OF owned_two_requests [OF keys b(2)], of b] by simp
    ultimately have "count (owned (blocks_of m rid)) b = 0" using un unfolding unshared_def count_union by linarith
    with keep un show ?thesis by (simp add: keeps_def not_in_iff)
  qed
  moreover have "blocks_wf p' bs \<longleftrightarrow> blocks_wf p bs" for bs using keep by (simp add: keeps_def blocks_wf_def)
  moreover have "cached_count m' rid' = cached_count m rid'" "blocks_of m' rid' = blocks_of m rid'" if "rid' \<noteq> rid" for rid'
    using rest that by (simp_all add: other_requests_kept_def cached_count_def dict_get_def)
  moreover have "enable_caching p' = enable_caching p" using keep by (simp add: keeps_def)
  ultimately have "manager_wf p' (held_in m' + others) m'"
    using wf rest assms(5-7) new unfolding manager_wf_def other_requests_kept_def same_manager_def by metis
  with assms(2) keeps_mono [OF keep owned_blocks_of [OF keys]] show ?thesis by (simp add: call_ok_def)
qed

lemma unshared_drop:
  assumes "manager_wf p held m" and "b \<in># owned (drop (cached_count m rid) (blocks_of m rid))"
  shows "unshared p held b"
  using assms by (auto simp: manager_wf_def)

section \<open>Freeing a request\<close>

lemma manager_free_contract:
  assumes ok: "pool_ok p (held_in m + others)" and wf: "manager_wf p (held_in m + others) m"
  shows "\<exists>m' p'. manager_free rid m p = Inr (m', p') \<and> call_ok p m others p' m' \<and> other_requests_kept rid m m' \<and>
    get_num_free_blocks p' \<ge> get_num_free_blocks p \<and> blocks_of m' rid = [] \<and> map_of (num_cached_block m') rid = None"
proof -
  let ?bs = "blocks_of m rid" and ?T = "held_in m + others"
  from wf have keys: "distinct (map fst (req_to_blocks m))" and bs: "blocks_wf p ?bs" by (simp_all add: manager_wf_def)
  have "blocks_wf p (rev ?bs)" using bs by (simp add: blocks_wf_def rev_map [symmetric] rev_filter [symmetric] del: rev_map)
  moreover have own: "owned ?bs \<subseteq># held_in m" by (rule owned_blocks_of [OF keys])
  then have "owned (rev ?bs) \<subseteq># ?T" by (simp add: subset_mset.add_increasing2)
  ultimately obtain p' where p': "free_blocks (rev ?bs) p = Inr p'" "pool_ok p' (?T - owned (rev ?bs))"
    "num_gpu_blocks p' = num_gpu_blocks p" "pool_settings p' = pool_settings p" "\<forall>c. hash_of p' c = hash_of p c"
    "get_num_free_blocks p' \<ge> get_num_free_blocks p"
    using pool_free [OF ok, of "rev ?bs"] by blast
  define m1 where "m1 = (case kind m of
      MambaSpec True _ \<Rightarrow> m\<lparr>allocated_block_reqs := removeAll rid (allocated_block_reqs m),
                           last_state_block_idx := AList.delete rid (last_state_block_idx m)\<rparr>
    | _ \<Rightarrow> m)"
  define m' where "m' = m1\<lparr>req_to_blocks := AList.delete rid (req_to_blocks m1), num_cached_block := AList.delete rid (num_cached_block m1)\<rparr>"
  have m1: "req_to_blocks m1 = req_to_blocks m" "num_cached_block m1 = num_cached_block m" "same_manager m m1"
    by (auto simp: m1_def same_manager_def split: attention_type.split bool.split)
  have run: "manager_free rid m p = Inr (m', p')"
    using p'(1) m1(1) unfolding manager_free_def m1_def [symmetric] m'_def by (simp add: blocks_of_def)
  have held: "held_in m' + owned ?bs = held_in m"
    using sum_list_delete [OF keys, of owned "[]" rid] m1(1) by (simp add: held_in_def m'_def blocks_of_def)
  then have T': "?T - owned (rev ?bs) = held_in m' + others"
    by (metis add.assoc add.commute add_diff_cancel_right' owned_simps(4))
  have blocks: "blocks_of m' rid' = (if rid' = rid then [] else blocks_of m rid')" for rid'
    using m1(1) by (simp add: m'_def blocks_of_def)
  have rest: "other_requests_kept rid m m'"
    using m1 blocks by (auto simp: other_requests_kept_def same_manager_def m'_def delete_conv')
  have cached: "map_of (num_cached_block m') rid = None" by (simp add: m'_def delete_conv')
  have keep: "keeps p ?T p' (held_in m' + others) (owned ?bs)"
    by (rule keepsI [OF p'(3,4)]) (use p'(5) in \<open>simp add: T' [symmetric] not_in_iff\<close>)
  have "call_ok p m others p' m'"
    by (rule call_okI [OF wf _ keep rest]) (use p'(2) T' blocks cached keys m1 in
      \<open>auto simp: blocks_wf_def cached_count_def dict_get_def m'_def distinct_delete\<close>)
  with p'(6) run rest blocks cached show ?thesis by auto
qed

interpretation free_call: manager_call "\<lambda>_ m p. rbind (manager_free rid m p) (\<lambda>(m', p'). Inr ((), m', p'))" "\<lambda>p. p"
  "\<lambda>_ _. True" "\<lambda>_ _. True" "\<lambda>_ _. 0"
  "\<lambda>_ m _ m'. other_requests_kept rid m m' \<and> blocks_of m' rid = [] \<and> map_of (num_cached_block m') rid = None"
proof unfold_locales
  fix p m others
  assume "pool_ok p (held_in m + others)" and "manager_wf p (held_in m + others) m"
  from manager_free_contract [OF this, of rid] show
    "\<exists>x m' s'. rbind (manager_free rid m p) (\<lambda>(m', p'). Inr ((), m', p')) = Inr (x, m', s') \<and> pool_ok s' (held_in m' + others) \<and>
      manager_wf s' (held_in m' + others) m' \<and> True \<and> keeps p (held_in m + others) s' (held_in m' + others) (held_in m) \<and>
      get_num_free_blocks s' \<ge> get_num_free_blocks p - int 0 \<and>
      (other_requests_kept rid m m' \<and> blocks_of m' rid = [] \<and> map_of (num_cached_block m') rid = None)"
    by (auto simp: call_ok_def)
qed

section \<open>Dropping skipped blocks\<close>

lemma drop_skipped_spec:
  assumes "n \<le> length bs" and "null_block p = Block 0"
  shows "\<exists>j \<le> n. drop_skipped p n bs = (rev (drop j (take n bs)), take j bs @ replicate (n - j) (Block 0) @ drop n bs)"
  using assms(1)
proof (induction n arbitrary: bs)
  case (Suc i)
  show ?case
  proof (cases "bs ! i = null_block p")
    case True
    then show ?thesis by (intro exI [of _ "Suc i"]) simp
  next
    case False
    from Suc.IH [of "bs[i := null_block p]"] Suc.prems obtain j where
      j: "j \<le> i" "drop_skipped p i (bs[i := null_block p]) = (rev (drop j (take i bs)),
        take j bs @ replicate (i - j) (Block 0) @ drop i (bs[i := null_block p]))" by auto
    have tail: "drop i (bs[i := null_block p]) = Block 0 # drop (Suc i) bs"
      using Suc.prems assms(2) by (simp add: drop_update_swap flip: Cons_nth_drop_Suc)
    have shift: "replicate (i - j) (Block 0) @ Block 0 # drop (Suc i) bs = replicate (Suc i - j) (Block 0) @ drop (Suc i) bs"
      using j(1) by (simp add: Suc_diff_le replicate_append_same flip: append_Cons)
    have "bs ! i # rev (drop j (take i bs)) = rev (drop j (take (Suc i) bs))"
      using Suc.prems j(1) by (simp add: take_Suc_conv_app_nth)
    with j False tail shift show ?thesis by (intro exI [of _ j]) simp
  qed
qed simp

lemma blocks_wf_append: "blocks_wf p (xs @ ys) \<Longrightarrow> blocks_wf p xs \<and> blocks_wf p ys"
  by (auto simp: blocks_wf_def)

lemma blocks_wf_middle:
  assumes "blocks_wf p (xs @ ys @ zs)" and "0 < pool_size p"
  shows "blocks_wf p (xs @ replicate k (Block 0) @ zs)"
proof -
  have "filter (\<lambda>b. b \<noteq> 0) (map nat_of (replicate k (Block 0))) = []" by simp
  with assms show ?thesis by (auto simp: blocks_wf_def)
qed

lemma owned_drop_mono:
  assumes "length bs' = length bs" and "\<forall>i < length bs. bs' ! i = bs ! i \<or> bs' ! i = Block 0"
  shows "owned (drop c bs') \<subseteq># owned (drop c bs)"
proof -
  have "list_all2 (\<lambda>x' x. x' = x \<or> x' = Block 0) (drop c bs') (drop c bs)"
    using assms by (auto simp: list_all2_conv_all_nth)
  then show ?thesis
  proof (induction rule: list_all2_induct)
    case (Cons x' xs' x xs)
    then have "owned xs' \<subseteq># {#nat_of x#} + owned xs" by (intro subset_mset.add_increasing) simp_all
    with Cons show ?case by auto
  qed simp
qed

definition skipped_blocks :: "SingleTypeKVCacheManager \<Rightarrow> int \<Rightarrow> int" where
  "skipped_blocks m computed = skipped_tokens m computed div bsize m"

lemma remove_skipped_contract:
  assumes ok: "pool_ok p (held_in m + others)" and wf: "manager_wf p (held_in m + others) m" and "plain m"
  shows "\<exists>m' p'. manager_remove_skipped rid computed m p = Inr (m', p') \<and> call_ok p m others p' m' \<and>
    (\<forall>c. hash_of p' c = hash_of p c) \<and> get_num_free_blocks p' \<ge> get_num_free_blocks p \<and> other_requests_kept rid m m' \<and>
    num_cached_block m' = num_cached_block m \<and> length (blocks_of m' rid) = length (blocks_of m rid) \<and>
    (\<forall>i < length (blocks_of m rid). blocks_of m' rid ! i = blocks_of m rid ! i \<or>
      blocks_of m' rid ! i = Block 0 \<and> int i < skipped_blocks m computed)"
proof -
  have base: "manager_remove_skipped rid computed m p = base_remove_skipped rid computed m p"
    using assms(3) by (auto simp: manager_remove_skipped_def plain_def split: attention_type.splits)
  have pos: "0 < bsize m" using wf by (simp add: manager_wf_def bsize_def)
  show ?thesis
  proof (cases "skipped_tokens m computed \<le> 0")
    case True
    then have "manager_remove_skipped rid computed m p = Inr (m, p)"
      using assms(3) by (simp add: base base_remove_skipped_def)
    with ok wf show ?thesis by (auto simp: call_ok_def other_requests_kept_def same_manager_def)
  next
    case False
    let ?bs = "blocks_of m rid" and ?T = "held_in m + others"
    let ?n = "min (nat (skipped_blocks m computed)) (length ?bs)"
    from wf have keys: "distinct (map fst (req_to_blocks m))" and bs: "blocks_wf p ?bs" by (simp_all add: manager_wf_def)
    from drop_skipped_spec [of ?n ?bs p] pool_ok_static(2) [OF ok] obtain j where j: "j \<le> ?n" and dropped: "drop_skipped p ?n ?bs =
        (rev (drop j (take ?n ?bs)), take j ?bs @ replicate (?n - j) (Block 0) @ drop ?n ?bs)" by auto
    define gone where "gone = drop j (take ?n ?bs)"
    define bs' where "bs' = take j ?bs @ replicate (?n - j) (Block 0) @ drop ?n ?bs"
    have parts: "?bs = take j ?bs @ gone @ drop ?n ?bs"
      unfolding gone_def by (metis append.assoc append_take_drop_id j min_absorb1 take_take)
    have len: "length bs' = length ?bs" using j by (simp add: bs'_def)
    have nth: "bs' ! i = ?bs ! i \<or> bs' ! i = Block 0 \<and> int i < skipped_blocks m computed" if "i < length ?bs" for i
      using that j by (auto simp: bs'_def nth_append)
    have own: "owned ?bs = owned bs' + owned gone" by (subst parts) (simp add: bs'_def)
    have wfs: "blocks_wf p (rev gone)" "blocks_wf p bs'"
    proof -
      have "blocks_wf p gone" using bs blocks_wf_append parts by metis
      then show "blocks_wf p (rev gone)" by (simp add: blocks_wf_def rev_map [symmetric] rev_filter [symmetric] del: rev_map)
      have "blocks_wf p (take j ?bs @ gone @ drop ?n ?bs)" using bs parts by simp
      from blocks_wf_middle [OF this] pool_ok_static(1) [OF ok] show "blocks_wf p bs'" by (simp add: bs'_def)
    qed
    have "owned gone \<subseteq># owned ?bs" by (simp add: own)
    also have "\<dots> \<subseteq># held_in m" by (rule owned_blocks_of [OF keys])
    finally have sub: "owned (rev gone) \<subseteq># ?T" by (simp add: subset_mset.add_increasing2)
    from pool_free [OF ok wfs(1) sub] obtain p' where p': "free_blocks (rev gone) p = Inr p'" "pool_ok p' (?T - owned (rev gone))"
      "num_gpu_blocks p' = num_gpu_blocks p" "pool_settings p' = pool_settings p" "\<forall>c. hash_of p' c = hash_of p c"
      "get_num_free_blocks p' \<ge> get_num_free_blocks p" by blast
    let ?m = "set_blocks rid bs' m"
    have run: "manager_remove_skipped rid computed m p = Inr (?m, p')"
      using False assms(3) pos dropped p'(1)
      by (simp add: base base_remove_skipped_def skipped_blocks_def gone_def bs'_def)
    have held: "held_in ?m + owned gone = held_in m"
      using held_in_set_blocks [OF keys, of rid bs'] by (simp add: own)
    then have T': "?T - owned (rev gone) = held_in ?m + others"
      by (metis add.assoc add.commute add_diff_cancel_right' owned_simps(4))
    have rest: "other_requests_kept rid m ?m" by (simp add: other_requests_kept_def same_manager_def)
    have apart: "b \<notin># owned gone" if "b \<in># owned bs'" for b
    proof -
      have "count (owned ?bs) b \<le> 1" using bs by (simp add: blocks_wf_def owned_def distinct_count_atmost_1)
      moreover have "0 < count (owned bs') b" using that by (simp only: count_greater_zero_iff)
      ultimately have "count (owned gone) b = 0" unfolding own count_union by linarith
      then show ?thesis by (simp only: not_in_iff)
    qed
    have keep: "keeps p ?T p' (held_in ?m + others) (owned ?bs)"
      by (rule keepsI [OF p'(3,4)]) (use p'(5) in \<open>auto simp: T' [symmetric] own not_in_iff\<close>)
    have "unshared p' (held_in ?m + others) b" if b: "b \<in># owned (drop (cached_count m rid) bs')" for b
    proof -
      have "b \<in># owned (drop (cached_count m rid) ?bs)" using b owned_drop_mono [OF len] nth by (blast dest: mset_subset_eqD)
      then have "unshared p ?T b" by (rule unshared_drop [OF wf])
      moreover have "b \<in># owned bs'" using b by (metis append_take_drop_id owned_simps(3) union_iff)
      then have "b \<notin># owned gone" by (rule apart)
      ultimately show ?thesis using p'(4,5) by (simp add: unshared_def pool_settings_def T' [symmetric] not_in_iff)
    qed
    then have "call_ok p m others p' ?m"
      by (intro call_okI [OF wf _ keep rest])
        (use p'(2) T' wfs(2) len keys wf in \<open>simp_all add: manager_wf_def\<close>)
    with run p'(5,6) rest len nth show ?thesis by (intro exI [of _ ?m] exI [of _ p']) auto
  qed
qed

interpretation skip_call: manager_call
  "\<lambda>_ m p. rbind (manager_remove_skipped rid computed m p) (\<lambda>(m', p'). Inr ((), m', p'))" "\<lambda>p. p"
  "\<lambda>p _. num_gpu_blocks p = num_gpu_blocks p0 \<and> (\<forall>c. hash_of p c = hash_of p0 c)" "\<lambda>_. plain" "\<lambda>_ _. 0"
  "\<lambda>_ m _ m'. other_requests_kept rid m m' \<and> num_cached_block m' = num_cached_block m \<and>
     length (blocks_of m' rid) = length (blocks_of m rid) \<and>
     (\<forall>i < length (blocks_of m rid). blocks_of m' rid ! i = blocks_of m rid ! i \<or>
       blocks_of m' rid ! i = Block 0 \<and> int i < skipped_blocks m computed)"
proof (unfold_locales, goal_cases)
  case (1 p m others i)
  from remove_skipped_contract [OF 1(1,2,4), of rid computed] 1(3) show ?case by (auto simp: call_ok_def keeps_def)
qed

section \<open>Adding the blocks of a cache hit\<close>

definition computed_ok :: "BlockPool \<Rightarrow> block_ref list \<Rightarrow> bool" where
  "computed_ok p bs \<longleftrightarrow> blocks_wf p bs \<and> (\<forall>b \<in># owned bs. hash_of p b \<noteq> None)"

text \<open>The blocks of a hit that are read, and how many of them are not in use\<close>

definition kept_blocks :: "SingleTypeKVCacheManager \<Rightarrow> int \<Rightarrow> block_ref list \<Rightarrow> block_ref list" where
  "kept_blocks m computed bs = drop (nat (skipped_blocks m computed)) bs"

definition unused :: "nat set \<Rightarrow> block_ref list \<Rightarrow> nat" where
  "unused S bs = length (filter (\<lambda>b. b \<noteq> 0 \<and> b \<notin> S) (map nat_of bs))"

lemma evictable_unused:
  assumes "pool_ok p held" and "blocks_wf p bs"
  shows "get_num_evictable_blocks p bs = int (unused (set_mset held) bs)"
proof -
  have "length (filter (\<lambda>x. ref_cnt (blk p x) = 0 \<and> \<not> is_null (blk p x)) (map Block ids)) =
      length (filter (\<lambda>b. b \<noteq> 0 \<and> b \<notin># held) ids)" for ids
    by (induction ids) (auto simp: pool_ok_static(3,4) [OF assms(1)] not_in_iff)
  with blocks_wf_map [OF assms(2)] show ?thesis unfolding get_num_evictable_blocks_def unused_def by metis
qed

lemma card_owned: "card (set_mset (held + owned bs)) \<le> card (set_mset held) + unused (set_mset held) bs"
proof -
  have "set_mset (owned bs) - set_mset held = set (filter (\<lambda>b. b \<noteq> 0 \<and> b \<notin># held) (map nat_of bs))"
    by (auto simp: owned_def)
  then have "card (set_mset (owned bs) - set_mset held) \<le> unused (set_mset held) bs"
    unfolding unused_def by (metis card_length)
  moreover have "set_mset (held + owned bs) = set_mset held \<union> (set_mset (owned bs) - set_mset held)" by auto
  ultimately show ?thesis using card_Un_le [of "set_mset held" "set_mset (owned bs) - set_mset held"] by simp
qed

lemma unused_mono: "S \<subseteq> S' \<Longrightarrow> unused S' bs \<le> unused S bs"
  unfolding unused_def by (induction bs) auto

lemma blocks_wf_nulls: "blocks_wf p bs \<Longrightarrow> 0 < pool_size p \<Longrightarrow> blocks_wf p (replicate n (Block 0) @ bs)"
  using blocks_wf_middle [of p "[]" "[]" bs n] by simp

lemma computed_ok_drop: "computed_ok p bs \<Longrightarrow> computed_ok p (drop n bs)"
  using blocks_wf_append [of p "take n bs" "drop n bs"] owned_simps(3) [of "take n bs" "drop n bs"]
  by (auto simp: computed_ok_def)

lemma add_computed_contract:
  fixes num_local :: int
  assumes ok: "pool_ok p (held_in m + others)" and wf: "manager_wf p (held_in m + others) m" and "plain m"
    and new: "blocks_of m rid = []" "map_of (num_cached_block m) rid = None" and "manager_caching m \<or> bs = []"
    and hit: "computed_ok p bs"
  defines "kept \<equiv> kept_blocks m num_local bs"
  shows "\<exists>m' p'. allocate_new_computed_blocks ui rid bs num_local 0 m p = Inr (m', p') \<and> call_ok p m others p' m' \<and>
    held_in m' = held_in m + owned kept \<and> (\<forall>c. hash_of p' c = hash_of p c) \<and> num_gpu_blocks p' = num_gpu_blocks p \<and>
    get_num_free_blocks p' \<ge> get_num_free_blocks p - int (unused (set_mset (held_in m + others)) kept) \<and>
    other_requests_kept rid m m' \<and> map_of (num_cached_block m') rid = Some (length (blocks_of m' rid)) \<and>
    blocks_of m' rid = replicate (nat (skipped_blocks m num_local)) (Block 0) @ kept"
proof -
  let ?T = "held_in m + others" and ?n = "skipped_blocks m num_local"
  have keptok: "computed_ok p kept" using hit by (simp add: kept_def kept_blocks_def computed_ok_drop)
  then have kept_wf: "blocks_wf p kept" by (simp add: computed_ok_def)
  from wf have keys: "distinct (map fst (req_to_blocks m))" and pos: "0 < bsize m" and caching: "manager_caching m = enable_caching p"
    by (simp_all add: manager_wf_def bsize_def)
  have "\<exists>p1. (if manager_caching m then touch kept p else rbind (require (kept = [])
        (AssertionError ''Computed blocks should be empty when prefix caching is disabled'')) (\<lambda>_. Inr p)) = Inr p1 \<and>
      pool_ok p1 (?T + owned kept) \<and> num_gpu_blocks p1 = num_gpu_blocks p \<and> pool_settings p1 = pool_settings p \<and> (\<forall>c. hash_of p1 c = hash_of p c)"
  proof (cases "manager_caching m")
    case True
    with pool_touch [OF ok kept_wf] show ?thesis by auto
  next
    case False
    with assms(6) ok show ?thesis by (simp add: kept_def kept_blocks_def)
  qed
  then obtain p1 where p1: "(if manager_caching m then touch kept p else rbind (require (kept = [])
        (AssertionError ''Computed blocks should be empty when prefix caching is disabled'')) (\<lambda>_. Inr p)) = Inr p1"
    "pool_ok p1 (?T + owned kept)" "num_gpu_blocks p1 = num_gpu_blocks p" "pool_settings p1 = pool_settings p" "\<forall>c. hash_of p1 c = hash_of p c"
    by blast
  define bs' where "bs' = replicate (nat ?n) (Block 0) @ kept"
  define m' where "m' = (set_blocks rid bs' m)\<lparr>num_cached_block := AList.update rid (length bs') (num_cached_block m)\<rparr>"
  have drop: "(if ?n > 0 then drop (nat ?n) bs else bs) = kept" by (simp add: kept_def kept_blocks_def)
  have skip: "skipped_tokens m num_local div bsize m = ?n" by (simp add: skipped_blocks_def)
  have inside: "((if ?n > 0 then min (num_local - skipped_tokens m num_local) 0 else 0) > 0) = False" by simp
  have "allocate_new_computed_blocks ui rid bs num_local 0 m p = add_computed_blocks ui rid bs num_local 0 m p"
    using assms(3) by (auto simp: allocate_new_computed_blocks_def plain_def split: attention_type.splits)
  also have "\<dots> = Inr (m', p1)"
    unfolding add_computed_blocks_def Let_def
    by (simp only: new plain_skipped [OF assms(3)] rbind_Inr require_True py_floordiv_pos [OF pos] simp_thms if_False
      add_0_right skip drop p1(1) inside pool_ok_static(2) [OF p1(2)] m'_def bs'_def)
  finally have run: "allocate_new_computed_blocks ui rid bs num_local 0 m p = Inr (m', p1)" .
  have "held_in (set_blocks rid bs' m) = held_in m + owned kept"
    using held_in_set_blocks [OF keys, of rid bs'] new(1) by (simp add: bs'_def)
  then have held: "held_in m' = held_in m + owned kept" by (simp add: m'_def held_in_def)
  have T': "held_in m' + others = ?T + owned kept" by (simp add: held ac_simps)
  have blocks: "blocks_of m' rid' = (if rid' = rid then bs' else blocks_of m rid')" for rid'
    using set_blocks_simps(1) [of rid bs' m rid'] by (simp add: m'_def blocks_of_def)
  have rest: "other_requests_kept rid m m'"
    using blocks by (auto simp: other_requests_kept_def same_manager_def m'_def update_conv')
  have keep: "keeps p ?T p1 (held_in m' + others) (owned (blocks_of m rid))"
  proof (rule keepsI [OF p1(3,4)])
    fix b assume un: "unshared p ?T b"
    have "b \<notin># owned kept"
    proof (cases "manager_caching m")
      case True
      with un keptok caching show ?thesis by (auto simp: computed_ok_def unshared_def)
    next
      case False
      with assms(6) show ?thesis by (simp add: kept_def kept_blocks_def)
    qed
    then show "count (held_in m' + others) b = count ?T b \<and> hash_of p1 b = hash_of p b"
      using p1(5) unfolding T' by (simp add: not_in_iff)
  qed
  have "call_ok p m others p1 m'"
  proof (rule call_okI [OF wf _ keep rest])
    show "pool_ok p1 (held_in m' + others)" using p1(2) by (simp add: T')
    show "distinct (map fst (req_to_blocks m'))" using set_blocks_keys(1) [OF keys] by (simp add: m'_def)
    show "blocks_wf p (blocks_of m' rid)" using blocks_wf_nulls [OF kept_wf pool_ok_static(1) [OF ok]] by (simp add: blocks bs'_def)
    have "cached_count m' rid = length (blocks_of m' rid)" unfolding blocks by (simp add: cached_count_def m'_def)
    then show "cached_count m' rid \<le> length (blocks_of m' rid)"
      and "\<forall>b \<in># owned (drop (cached_count m' rid) (blocks_of m' rid)). unshared p1 (held_in m' + others) b" by simp_all
  qed
  moreover have "get_num_free_blocks p1 \<ge> get_num_free_blocks p - int (unused (set_mset ?T) kept)"
    using free_count [OF ok] free_count [OF p1(2)] p1(3) card_owned [of ?T kept] by simp
  moreover have "map_of (num_cached_block m') rid = Some (length (blocks_of m' rid))" 
    unfolding blocks by (simp add: m'_def update_conv')
  ultimately show ?thesis using run held p1(3,5) rest blocks unfolding bs'_def by auto
qed

interpretation hit_call: manager_call
  "\<lambda>i m p. rbind (py_nth computed (int i)) (\<lambda>bs.
     rbind (allocate_new_computed_blocks ui rid bs num_local 0 m p) (\<lambda>(m', p'). Inr ((), m', p')))" "\<lambda>p. p"
  "\<lambda>p held. S \<subseteq> set_mset held \<and> (\<forall>bs \<in> set computed. computed_ok p bs)"
  "\<lambda>i m. plain m \<and> i < length computed \<and> blocks_of m rid = [] \<and> map_of (num_cached_block m) rid = None \<and>
     (manager_caching m \<or> computed ! i = [])"
  "\<lambda>i m. unused S (kept_blocks m num_local (computed ! i))"
  "\<lambda>i m _ m'. other_requests_kept rid m m' \<and> map_of (num_cached_block m') rid = Some (length (blocks_of m' rid)) \<and>
     blocks_of m' rid = replicate (nat (skipped_blocks m num_local)) (Block 0) @ kept_blocks m num_local (computed ! i)"
proof (unfold_locales, goal_cases)
  case (1 p m others i)
  then have hit: "computed_ok p (computed ! i)" and pre: "plain m" "i < length computed" "blocks_of m rid = []"
    "map_of (num_cached_block m) rid = None" "manager_caching m \<or> computed ! i = []" by auto
  let ?kept = "kept_blocks m num_local (computed ! i)"
  from add_computed_contract [OF 1(1,2) pre(1,3-5) hit, of ui num_local] obtain m' p' where
    run: "allocate_new_computed_blocks ui rid (computed ! i) num_local 0 m p = Inr (m', p')" "call_ok p m others p' m'"
    "held_in m' = held_in m + owned ?kept" "\<forall>c. hash_of p' c = hash_of p c" "num_gpu_blocks p' = num_gpu_blocks p"
    "get_num_free_blocks p' \<ge> get_num_free_blocks p - int (unused (set_mset (held_in m + others)) ?kept)"
    "other_requests_kept rid m m'" "map_of (num_cached_block m') rid = Some (length (blocks_of m' rid))"
    "blocks_of m' rid = replicate (nat (skipped_blocks m num_local)) (Block 0) @ ?kept" by blast
  have "unused (set_mset (held_in m + others)) ?kept \<le> unused S ?kept" using 1(3) by (intro unused_mono) simp
  moreover have "S \<subseteq> set_mset (held_in m' + others)" using 1(3) run(3) by auto
  moreover have "computed_ok p' bs \<longleftrightarrow> computed_ok p bs" for bs using run(4,5) by (simp add: computed_ok_def blocks_wf_def)
  ultimately show ?case using run pre(2) 1(3) by (auto simp: py_nth_of_nat call_ok_def)
qed

section \<open>Allocating new blocks\<close>

lemma record_new_ids_simps [simp]:
  "blocks_of (record_new_ids p bs m) = blocks_of m" "held_in (record_new_ids p bs m) = held_in m"
  "req_to_blocks (record_new_ids p bs m) = req_to_blocks m" "num_cached_block (record_new_ids p bs m) = num_cached_block m"
  "same_manager m' (record_new_ids p bs m) = same_manager m' m" "cached_count (record_new_ids p bs m) = cached_count m"
  by (auto simp: record_new_ids_def blocks_of_def held_in_def same_manager_def cached_count_def fun_eq_iff)

definition missing_blocks :: "SingleTypeKVCacheManager \<Rightarrow> string \<Rightarrow> int \<Rightarrow> nat" where
  "missing_blocks m rid slots = nat (cdiv slots (bsize m) - int (length (blocks_of m rid)))"

lemma allocate_contract:
  assumes ok: "pool_ok p (held_in m + others)" and wf: "manager_wf p (held_in m + others) m" and "plain m"
    and room: "int (missing_blocks m rid slots) \<le> get_num_free_blocks p"
  shows "\<exists>new m' p'. allocate_new_blocks ui rid slots main_slots m p = Inr (new, m', p') \<and> call_ok p m others p' m' \<and>
    get_num_free_blocks p' \<ge> get_num_free_blocks p - int (missing_blocks m rid slots) \<and>
    other_requests_kept rid m m' \<and> num_cached_block m' = num_cached_block m \<and>
    length new = missing_blocks m rid slots \<and> blocks_of m' rid = blocks_of m rid @ new"
proof -
  let ?T = "held_in m + others" and ?n = "cdiv slots (bsize m) - int (length (blocks_of m rid))"
  have base: "allocate_new_blocks ui rid slots main_slots m p = base_allocate_new_blocks ui rid slots m p"
    using assms(3) by (auto simp: allocate_new_blocks_def plain_def split: attention_type.splits)
  from wf have keys: "distinct (map fst (req_to_blocks m))" and pos: "0 < bsize m" and bs: "blocks_wf p (blocks_of m rid)"
    and cached: "cached_count m rid \<le> length (blocks_of m rid)" by (simp_all add: manager_wf_def bsize_def)
  show ?thesis
  proof (cases "?n \<le> 0")
    case True
    let ?m = "m\<lparr>req_to_blocks := touch_key rid (req_to_blocks m)\<rparr>"
    have run: "allocate_new_blocks ui rid slots main_slots m p = Inr ([], ?m, p)"
      using True pos by (simp add: base base_allocate_new_blocks_def)
    have blocks: "blocks_of ?m rid' = blocks_of m rid'" for rid' by (simp add: blocks_of_def)
    have held: "held_in ?m = held_in m" by (rule held_in_touch_key [OF keys])
    have "call_ok p m others p ?m"
      using ok wf blocks unfolding call_ok_def held manager_wf_def by (simp add: cached_count_def)
    with run blocks True show ?thesis
      by (auto simp: other_requests_kept_def same_manager_def missing_blocks_def)
  next
    case False
    then have n: "int (missing_blocks m rid slots) = ?n" by (simp add: missing_blocks_def)
    with pool_new [OF ok, of ?n ui] room False obtain new p' where
      new: "get_new_blocks ui ?n p = Inr (new, p')" "int (length new) = ?n" "blocks_wf p new" "pool_ok p' (?T + owned new)"
      "num_gpu_blocks p' = num_gpu_blocks p" "pool_settings p' = pool_settings p" "set_mset (owned new) \<inter> set_mset ?T = {}"
      "\<forall>b. count (owned new) b \<le> 1" "enable_caching p \<longrightarrow> (\<forall>b \<in># owned new. hash_of p' b = None)"
      "\<forall>c. c \<notin># owned new \<longrightarrow> hash_of p' c = hash_of p c" by auto
    define m' where "m' = record_new_ids p' new (set_blocks rid (blocks_of m rid @ new) m)"
    have run: "allocate_new_blocks ui rid slots main_slots m p = Inr (new, m', p')"
      using False pos new(1) by (simp add: base base_allocate_new_blocks_def m'_def)
    have held: "held_in m' = held_in m + owned new"
      using held_in_set_blocks [OF keys, of rid "blocks_of m rid @ new"] by (simp add: m'_def ac_simps)
    have T': "held_in m' + others = ?T + owned new" by (simp add: held ac_simps)
    have rest: "other_requests_kept rid m m'" by (simp add: other_requests_kept_def m'_def) (simp add: same_manager_def)
    have old: "b \<notin># owned new" if "unshared p ?T b" for b
      using that new(7) by (metis disjoint_iff not_in_iff unshared_def zero_neq_one)
    have keep: "keeps p ?T p' (held_in m' + others) (owned (blocks_of m rid))"
      by (rule keepsI [OF new(5,6)]) (use old new(10) in \<open>simp add: T' not_in_iff\<close>)
    have fresh: "unshared p' (held_in m' + others) b" if "b \<in># owned (drop (cached_count m rid) (blocks_of m rid @ new))" for b
    proof -
      have "b \<in># owned (drop (cached_count m rid) (blocks_of m rid)) \<or> b \<in># owned new" using that cached by simp
      then show ?thesis
      proof
        assume "b \<in># owned (drop (cached_count m rid) (blocks_of m rid))"
        from unshared_drop [OF wf this] old new(6,10) show ?thesis by (auto simp: unshared_def pool_settings_def T' not_in_iff)
      next
        assume b: "b \<in># owned new"
        with new(7) have "count ?T b = 0" by (metis disjoint_iff not_in_iff)
        moreover have "0 < count (owned new) b" using b by (simp only: count_greater_zero_iff)
        then have "count (owned new) b = 1" using new(8) [rule_format, of b] by linarith
        ultimately show ?thesis using b new(6,9) unfolding unshared_def T' count_union by (simp add: pool_settings_def)
      qed
    qed
    have wf': "blocks_wf p (blocks_of m rid @ new)"
    proof -
      have "set_mset (owned (blocks_of m rid)) \<subseteq> set_mset ?T"
        using owned_blocks_of [OF keys, of rid] by (auto dest: mset_subset_eqD)
      with new(7) have "set_mset (owned (blocks_of m rid)) \<inter> set_mset (owned new) = {}" by blast
      with bs new(3) show ?thesis by (auto simp: blocks_wf_def owned_def)
    qed
    have "pool_ok p' (held_in m' + others)" using new(4) unfolding T' .
    then have "call_ok p m others p' m'"
      by (rule call_okI [OF wf _ keep rest]) (use keys wf' cached fresh in \<open>simp_all add: m'_def\<close>)
    moreover have "get_num_free_blocks p' \<ge> get_num_free_blocks p - ?n"
    proof -
      have "unused (set_mset ?T) new \<le> length new" by (simp add: unused_def le_trans [OF length_filter_le])
      then show ?thesis using free_count [OF ok] free_count [OF new(4)] new(2,5) card_owned [of ?T new] by linarith
    qed
    ultimately show ?thesis using run rest n new(2) by (intro exI [of _ new] exI [of _ m'] exI [of _ p']) (simp add: m'_def)
  qed
qed

interpretation allocate_call: manager_call
  "\<lambda>_ m p. allocate_new_blocks ui rid (if kind m = CrossAttentionSpec then encoder_tokens else slots) main_slots m p" "\<lambda>p. p"
  "\<lambda>_ _. True" "\<lambda>_. plain" "\<lambda>_ m. missing_blocks m rid slots"
  "\<lambda>_ m new m'. other_requests_kept rid m m' \<and> num_cached_block m' = num_cached_block m \<and>
     length new = missing_blocks m rid slots \<and> blocks_of m' rid = blocks_of m rid @ new"
proof (unfold_locales, goal_cases)
  case (1 p m others i)
  then have "kind m \<noteq> CrossAttentionSpec" by (auto simp: plain_def)
  with allocate_contract [OF 1(1,2,4,5), of ui main_slots] show ?case by (auto simp: call_ok_def)
qed

section \<open>Caching full blocks\<close>

lemma py_slice_parts:
  assumes "i \<le> j"
  shows "drop i xs = py_slice xs i j @ drop j xs" and "xs = take i xs @ py_slice xs i j @ drop j xs"
proof -
  have "drop j xs = drop (j - i) (drop i xs)" using assms by simp
  then show "drop i xs = py_slice xs i j @ drop j xs" unfolding py_slice_def drop_take by (metis append_take_drop_id)
  then show "xs = take i xs @ py_slice xs i j @ drop j xs" by (metis append_take_drop_id)
qed

lemma cache_contract:
  assumes ok: "pool_ok p (held_in m + others)" and wf: "manager_wf p (held_in m + others) m" and "plain m"
    and caching: "0 < hash_block_size p" "enable_caching p" "hash_block_size p dvd manager_block_size m"
    and "kv_cache_group_id m < 2 ^ 32" and "0 \<le> tokens"
    and room: "tokens \<le> int (length (blocks_of m (request_id r)) * manager_block_size m)"
    and hashes: "tokens div int (hash_block_size p) \<le> int (length (block_hashes r))"
    and req: "features_ok (mm_features r)" "memo_ok sha256 r"
  shows "\<exists>r' m' p'. cache_blocks sha256 ui tokens r m p = Inr (r', m', p') \<and> call_ok p m others p' m' \<and> pool_settings p' = pool_settings p \<and>
    get_num_free_blocks p' = get_num_free_blocks p \<and> (\<exists>h. r' = r\<lparr>embeds_hashes := h\<rparr>) \<and> memo_ok sha256 r' \<and>
    other_requests_kept (request_id r) m m' \<and> blocks_of m' (request_id r) = blocks_of m (request_id r) \<and>
    int (cached_count m' (request_id r)) = max (int (cached_count m (request_id r))) (tokens div bsize m)"
proof -
  let ?rid = "request_id r" and ?T = "held_in m + others"
  let ?bs = "blocks_of m ?rid" and ?nc = "cached_count m ?rid" and ?nf = "nat (tokens div bsize m)"
  have base: "cache_blocks sha256 ui tokens r m p = base_cache_blocks sha256 ui tokens r m p"
    using assms(3) by (auto simp: cache_blocks_def plain_def split: attention_type.splits)
  from wf have keys: "distinct (map fst (req_to_blocks m))" and pos: "0 < bsize m" and bs: "blocks_wf p ?bs" by (simp_all add: manager_wf_def bsize_def)
  have nf: "int ?nf = tokens div bsize m" using assms(8) pos by (simp add: pos_imp_zdiv_nonneg_iff)
  show ?thesis
  proof (cases "tokens div bsize m \<le> int ?nc")
    case True
    then have "cache_blocks sha256 ui tokens r m p = Inr (r, m, p)"
      using pos by (simp add: base base_cache_blocks_def cached_count_def)
    moreover have "r = r\<lparr>embeds_hashes := embeds_hashes r\<rparr>" by simp
    ultimately show ?thesis using ok wf req(2) True
      by (intro exI [of _ r] exI [of _ m] exI [of _ p] conjI exI [of _ "embeds_hashes r"])
        (auto simp: call_ok_def other_requests_kept_def same_manager_def)
  next
    case False
    then have less: "?nc < ?nf" using nf by linarith
    from caching(3) obtain k where k: "manager_block_size m = k * hash_block_size p" by (auto simp: dvd_def mult.commute)
    have kpos: "0 < k" using pos k by (cases k) (simp_all add: bsize_def)
    let ?ids = "map nat_of ?bs"
    from blocks_wf_map [OF bs] have ids: "?bs = map Block ?ids" "set ?ids \<subseteq> {..<pool_size p}" by blast+
    have enough: "?nf \<le> length ?bs"
    proof -
      have "tokens div bsize m \<le> int (length ?bs * manager_block_size m) div bsize m" using room pos by (intro zdiv_mono1) simp_all
      also have "\<dots> = int (length ?bs)" using pos by (simp add: bsize_def)
      finally show ?thesis using nf by linarith
    qed
    have "?nf * k \<le> length (block_hashes r)"
    proof -
      have "tokens div bsize m = tokens div int (hash_block_size p) div int k"
        unfolding bsize_def k of_nat_mult mult.commute [of "int k"] by (rule zdiv_zmult2_eq) simp
      with hashes have "tokens div bsize m \<le> int (length (block_hashes r)) div int k" using kpos by (simp add: zdiv_mono1)
      then have "?nf \<le> length (block_hashes r) div k" using nf by (metis of_nat_le_iff zdiv_int)
      then show ?thesis using kpos by (simp add: less_eq_div_iff_mult_less_eq)
    qed
    moreover note parts = py_slice_parts [OF less_imp_le [OF less], of ?ids]
    have middle: "distinct (filter (\<lambda>b. b \<noteq> 0) (py_slice ?ids ?nc ?nf))"
      "b \<noteq> 0 \<Longrightarrow> b \<in> set (drop ?nf ?ids) \<Longrightarrow> b \<notin> set (py_slice ?ids ?nc ?nf)" for b
    proof -
      have "distinct (filter (\<lambda>b. b \<noteq> 0) (take ?nc ?ids @ py_slice ?ids ?nc ?nf @ drop ?nf ?ids))"
        using bs parts(2) unfolding blocks_wf_def by metis
      then show "distinct (filter (\<lambda>b. b \<noteq> 0) (py_slice ?ids ?nc ?nf))"
        "b \<noteq> 0 \<Longrightarrow> b \<in> set (drop ?nf ?ids) \<Longrightarrow> b \<notin> set (py_slice ?ids ?nc ?nf)" by auto
    qed
    have fresh: "hash_of p b = None" if "b \<in> set (py_slice ?ids ?nc ?nf)" "0 < b" for b
    proof -
      have "b \<in> set (drop ?nc ?ids)" using that parts(1) by simp
      then have "b \<in># owned (drop ?nc ?bs)" using that(2) by (simp add: owned_def drop_map)
      from unshared_drop [OF wf this] caching(2) show ?thesis by (simp add: unshared_def)
    qed
    moreover note middle(1)
    ultimately have legal: "cache_legal sha256 p r ?ids ?nc ?nf k (int (kv_cache_group_id m))"
      unfolding cache_legal_def using enough set_py_slice [of ?ids ?nc ?nf] ids(2) kpos caching(1) assms(7) req by auto
    from pool_ok_rel [OF ok] obtain xs where xs: "pool_rel p ?T xs" by blast
    from cache_full_blocks_rel [OF xs legal less, of ui] obtain p' r' where
      p': "cache_full_blocks sha256 ui r (map Block ?ids) ?nc ?nf (k * hash_block_size p) (int (kv_cache_group_id m)) p = Inr (p', r')"
      "num_gpu_blocks p' = num_gpu_blocks p" "\<forall>c. c \<notin> set (py_slice ?ids ?nc ?nf) \<or> c = 0 \<longrightarrow> hash_of p' c = hash_of p c" by blast
    from pool_ok_step [OF pool_step.caching [OF legal less p'(1)]] ok have ok': "pool_ok p' ?T" by simp
    note set' = settings_cache [OF p'(1)]
    define m' where "m' = m\<lparr>req_to_blocks := touch_key ?rid (req_to_blocks m), num_cached_block := AList.update ?rid ?nf (num_cached_block m)\<rparr>"
    have run: "cache_blocks sha256 ui tokens r m p = Inr (r', m', p')"
      using False pos p'(1) ids(1) by (simp add: base base_cache_blocks_def m'_def k Let_def flip: cached_count_def)
    have blocks: "blocks_of m' rid = blocks_of m rid" for rid by (simp add: m'_def blocks_of_def)
    have held: "held_in m' = held_in m" using held_in_touch_key [OF keys, of ?rid] by (simp add: m'_def held_in_def)
    have rest: "other_requests_kept ?rid m m'"
      using blocks by (auto simp: other_requests_kept_def same_manager_def m'_def update_conv')
    have count: "cached_count m' ?rid = ?nf" by (simp add: cached_count_def m'_def)
    have keep: "keeps p ?T p' (held_in m' + others) (owned ?bs)"
    proof (rule keepsI [OF p'(2) set'])
      fix b assume "b \<notin># owned ?bs"
      then have "b \<notin> set ?ids \<or> b = 0" by (auto simp: owned_def)
      then show "count (held_in m' + others) b = count ?T b \<and> hash_of p' b = hash_of p b"
        using p'(3) set_py_slice [of ?ids ?nc ?nf] held by auto
    qed
    have later: "unshared p' ?T b" if b: "b \<in># owned (drop ?nf ?bs)" for b
    proof -
      have nn: "b \<noteq> 0" "b \<in> set (drop ?nf ?ids)" using b by (auto simp: owned_def drop_map)
      then have "b \<in># owned (drop ?nc ?bs)" using parts(1) by (auto simp: owned_def drop_map)
      moreover have "b \<notin> set (py_slice ?ids ?nc ?nf)" using middle(2) nn by blast
      ultimately show ?thesis
        using unshared_drop [OF wf, of b ?rid] p'(3) set' by (simp add: unshared_def pool_settings_def)
    qed
    have "call_ok p m others p' m'"
    proof (rule call_okI [OF wf _ keep rest])
      show "pool_ok p' (held_in m' + others)" using ok' by (simp add: held)
      show "distinct (map fst (req_to_blocks m'))" using keys by (simp add: m'_def)
    qed (use bs enough later count held blocks in simp_all)
    moreover have "get_num_free_blocks p' = get_num_free_blocks p"
      using free_count [OF ok] free_count [OF ok'] p'(2) by simp
    moreover have "\<exists>h. r' = r\<lparr>embeds_hashes := h\<rparr>" "memo_ok sha256 r'"
      using cache_full_blocks_request [OF p'(1) _ req] enough by auto
    ultimately show ?thesis
      using run set' rest blocks count nf False by (intro exI [of _ r'] exI [of _ m'] exI [of _ p']) auto
  qed
qed

interpretation cache_call: manager_call
  "\<lambda>_ m (r, p). rbind (cache_blocks sha256 ui tokens r m p) (\<lambda>(r', m', p'). Inr ((), m', (r', p')))" snd
  "\<lambda>(r, p) _. (\<exists>h. r = r0\<lparr>embeds_hashes := h\<rparr>) \<and> memo_ok sha256 r \<and> enable_caching p \<and> hash_block_size p = hsz"
  "\<lambda>_ m. plain m \<and> features_ok (mm_features r0) \<and> 0 < hsz \<and> hsz dvd manager_block_size m \<and> kv_cache_group_id m < 2 ^ 32 \<and>
     0 \<le> tokens \<and> tokens \<le> int (length (blocks_of m (request_id r0)) * manager_block_size m) \<and>
     tokens div int hsz \<le> int (length (block_hashes r0))"
  "\<lambda>_ _. 0"
  "\<lambda>_ m _ m'. other_requests_kept (request_id r0) m m' \<and> blocks_of m' (request_id r0) = blocks_of m (request_id r0) \<and>
     int (cached_count m' (request_id r0)) = max (int (cached_count m (request_id r0))) (tokens div bsize m)"
proof (unfold_locales, goal_cases)
  case (1 s m others i)
  obtain r p where s: "s = (r, p)" by (cases s)
  with 1(3) obtain h where r: "r = r0\<lparr>embeds_hashes := h\<rparr>" "memo_ok sha256 r" "enable_caching p" "hash_block_size p = hsz" by auto
  from cache_contract [of p m others tokens r sha256 ui] 1 s r obtain r' m' p' where
    "cache_blocks sha256 ui tokens r m p = Inr (r', m', p')" "call_ok p m others p' m'" "pool_settings p' = pool_settings p"
    "get_num_free_blocks p' = get_num_free_blocks p" "\<exists>h. r' = r\<lparr>embeds_hashes := h\<rparr>" "memo_ok sha256 r'"
    "other_requests_kept (request_id r0) m m'" "blocks_of m' (request_id r0) = blocks_of m (request_id r0)"
    "int (cached_count m' (request_id r0)) = max (int (cached_count m (request_id r0))) (tokens div bsize m)" by auto
  with s r show ?case by (auto simp: call_ok_def pool_settings_def)
qed

end
