(* ===== verification/Cache_Hits_Correct.thy ===== *)
theory Cache_Hits_Correct
  imports Cache_Hits
begin

text \<open>
  The searches of the prefix cache find the longest usable prefix: the longest aligned one of which the blocks
  the attention reads are cached.
\<close>

section \<open>What a hit is\<close>

text \<open>
  \<open>row_at p gs hs i\<close> is the row of cached blocks of position \<open>i\<close>, if there is one for every group.
\<close>

definition row_at :: "BlockPool \<Rightarrow> int list \<Rightarrow> bytes list \<Rightarrow> nat \<Rightarrow> hit_row option" where
  "row_at p gs hs i = (case cached_row p gs (hs ! i) of Inr r \<Rightarrow> r | Inl _ \<Rightarrow> None)"

definition groups_ok :: "int list \<Rightarrow> bool" where
  "groups_ok gs \<longleftrightarrow> gs \<noteq> [] \<and> (\<forall>g \<in> set gs. 0 \<le> g \<and> g < 2 ^ 32)"

lemma cached_row_row_at:
  assumes "pool_ok p held" and "groups_ok gs"
  shows "cached_row p gs (hs ! i) = Inr (row_at p gs hs i)"
proof -
  from pool_ok_rel [OF assms(1)] obtain xs where "pool_rel p held xs" by blast
  from get_cached_block_ok [OF this, of gs "hs ! i"] assms(2) obtain r where "get_cached_block p (hs ! i) gs = Inr r"
    by (auto simp: groups_ok_def split: sum.splits)
  then show ?thesis by (simp add: row_at_def cached_row_def)
qed

text \<open>
  The last \<open>n\<close> of the first \<open>L\<close> positions are cached; and \<open>L\<close> blocks are a whole number of alignment units.
\<close>

definition cached_window :: "(nat \<Rightarrow> hit_row option) \<Rightarrow> nat \<Rightarrow> nat \<Rightarrow> bool" where
  "cached_window f n L \<longleftrightarrow> (\<forall>i. L - n \<le> i \<and> i < L \<longrightarrow> f i \<noteq> None)"

definition aligned :: "nat \<Rightarrow> nat \<Rightarrow> nat \<Rightarrow> bool" where
  "aligned bsz alignment L \<longleftrightarrow> bsz = alignment \<or> L * bsz mod alignment = 0"

lemma cached_windowD: "cached_window f n L \<Longrightarrow> L - n \<le> i \<Longrightarrow> i < L \<Longrightarrow> f i \<noteq> None"
  by (simp add: cached_window_def)

lemma misaligned_iff: "0 < alignment \<Longrightarrow> misaligned bsz alignment L = Inr (\<not> aligned bsz alignment L)"
  by (auto simp: misaligned_def aligned_def)

lemma aligned_0 [simp]: "aligned bsz alignment 0"
  by (simp add: aligned_def)

section \<open>The scans\<close>

lemma full_scan_prefix:
  assumes "\<And>i. i < length hs \<Longrightarrow> cached_row p gs (hs ! i) = Inr (f i)"
  shows "\<exists>rows. full_scan p gs hs = Inr rows \<and> length rows \<le> length hs \<and>
    (\<forall>i < length rows. f i = Some (rows ! i)) \<and> (length rows < length hs \<longrightarrow> f (length rows) = None)"
  using assms
proof (induction hs arbitrary: f)
  case (Cons h hs)
  have "cached_row p gs h = Inr (f 0)" using Cons.prems [of 0] by simp
  moreover from Cons.IH [of "\<lambda>i. f (Suc i)"] Cons.prems obtain rows where
    rows: "full_scan p gs hs = Inr rows" "length rows \<le> length hs"
    "\<forall>i < length rows. f (Suc i) = Some (rows ! i)" "length rows < length hs \<longrightarrow> f (Suc (length rows)) = None"
    by fastforce
  ultimately show ?case
  proof (cases "f 0")
    case (Some row)
    with rows have "\<forall>i < length (row # rows). f i = Some ((row # rows) ! i)" by (auto simp: nth_Cons split: nat.splits)
    with Some rows \<open>cached_row p gs h = Inr (f 0)\<close> show ?thesis by (intro exI [of _ "row # rows"]) auto
  qed simp
qed simp

lemma drop_unaligned_longest:
  "\<exists>k. drop_unaligned bsz alignment rows = take k rows \<and> k \<le> length rows \<and> k * bsz mod alignment = 0 \<and>
     (\<forall>L. k < L \<and> L \<le> length rows \<longrightarrow> L * bsz mod alignment \<noteq> 0)"
proof (induction bsz alignment rows rule: drop_unaligned.induct)
  case (1 bsz alignment rows)
  show ?case
  proof (cases "rows \<noteq> [] \<and> length rows * bsz mod alignment \<noteq> 0")
    case True
    from 1 [OF True] obtain k where
      k: "drop_unaligned bsz alignment (butlast rows) = take k (butlast rows)" "k \<le> length rows - 1" "k * bsz mod alignment = 0"
      "\<forall>L. k < L \<and> L \<le> length rows - 1 \<longrightarrow> L * bsz mod alignment \<noteq> 0" by auto
    have "take k (butlast rows) = take k rows" using k(2) by (simp add: butlast_conv_take)
    moreover have "L * bsz mod alignment \<noteq> 0" if "k < L" "L \<le> length rows" for L
      using that k(4) True by (cases "L = length rows") auto
    ultimately show ?thesis using True k drop_unaligned.simps [of bsz alignment rows] by (intro exI [of _ k]) auto
  next
    case False
    then show ?thesis using drop_unaligned.simps [of bsz alignment rows] by (intro exI [of _ "length rows"]) auto
  qed
qed

lemma drop_unaligned_aligned: "length rows * bsz mod alignment = 0 \<Longrightarrow> drop_unaligned bsz alignment rows = rows"
  by (subst drop_unaligned.simps) simp

lemma align_rows_longest:
  assumes "0 < alignment"
  shows "\<exists>k. align_rows bsz alignment rows = Inr (take k rows) \<and> k \<le> length rows \<and> aligned bsz alignment k \<and>
    (\<forall>L. k < L \<and> L \<le> length rows \<longrightarrow> \<not> aligned bsz alignment L)"
proof (cases "bsz = alignment")
  case True
  then show ?thesis by (intro exI [of _ "length rows"]) (simp add: align_rows_def aligned_def)
next
  case False
  with drop_unaligned_longest [of bsz alignment rows] assms show ?thesis
    by (auto simp: align_rows_def aligned_def)
qed

text \<open>What a search returns: the longest aligned prefix whose window is cached, with its rows\<close>

definition longest_hit :: "(nat \<Rightarrow> hit_row option) \<Rightarrow> hit_row \<Rightarrow> (nat \<Rightarrow> nat) \<Rightarrow> nat \<Rightarrow> nat \<Rightarrow> nat \<Rightarrow> hit_row list \<Rightarrow> bool" where
  "longest_hit f none need bsz alignment N rows \<longleftrightarrow>
     length rows \<le> N \<and> aligned bsz alignment (length rows) \<and> cached_window f (need (length rows)) (length rows) \<and>
     (\<forall>L. length rows < L \<and> L \<le> N \<longrightarrow> \<not> (aligned bsz alignment L \<and> cached_window f (need L) L)) \<and>
     (\<forall>i < length rows. rows ! i = (if length rows - need (length rows) \<le> i then the (f i) else none))"

lemma full_hit_longest:
  assumes rows: "full_scan p gs (take N hs) = Inr rows" "length rows \<le> N" "\<forall>i < length rows. f i = Some (rows ! i)"
      "length rows < N \<longrightarrow> f (length rows) = None"
    and "0 < alignment"
  shows "\<exists>rows'. align_rows bsz alignment rows = Inr rows' \<and> longest_hit f none (\<lambda>L. L) bsz alignment N rows'"
proof -
  from align_rows_longest [OF assms(5), of bsz rows] obtain k where
    k: "align_rows bsz alignment rows = Inr (take k rows)" "k \<le> length rows" "aligned bsz alignment k"
    "\<forall>L. k < L \<and> L \<le> length rows \<longrightarrow> \<not> aligned bsz alignment L" by blast
  have "\<not> cached_window f L L" if "length rows < L" "L \<le> N" for L
    using that rows(4) cached_windowD [of f L L "length rows"] by auto
  then have "\<not> (aligned bsz alignment L \<and> cached_window f L L)" if "k < L" "L \<le> N" for L
    using that k(4) by (cases "L \<le> length rows") auto
  moreover have "cached_window f k k" using k(2) rows(3) by (auto simp: cached_window_def)
  ultimately show ?thesis
    using k rows by (intro exI [of _ "take k rows"]) (auto simp: longest_hit_def)
qed

text \<open>
  The state of the scan of a sliding window before position \<open>i\<close>: a run of cached rows that starts at an
  aligned end and is shorter than the window, and no longer prefix is usable.
\<close>

definition sliding_state :: "(nat \<Rightarrow> hit_row option) \<Rightarrow> hit_row \<Rightarrow> nat \<Rightarrow> nat \<Rightarrow> nat \<Rightarrow> nat \<Rightarrow> nat \<Rightarrow> nat \<Rightarrow> hit_row list \<Rightarrow> bool" where
  "sliding_state f none n bsz alignment N i run rows \<longleftrightarrow>
     length rows = N \<and> i + run \<le> N \<and> run < n \<and> (0 < run \<longrightarrow> aligned bsz alignment (i + run)) \<and>
     (\<forall>j < i. rows ! j = none) \<and> (\<forall>j. i \<le> j \<and> j < i + run \<longrightarrow> f j = Some (rows ! j)) \<and>
     (\<forall>L. i < L \<and> L \<le> N \<and> aligned bsz alignment L \<and> cached_window f n L \<longrightarrow> 0 < run \<and> L \<le> i + run)"

lemma sliding_state_miss:
  assumes "sliding_state f none n bsz alignment N (Suc i) run rows" and "f i = None"
  shows "sliding_state f none n bsz alignment N i 0 rows"
proof -
  have "\<not> cached_window f n L" if "i < L" "L \<le> N" "aligned bsz alignment L" for L
  proof
    assume win: "cached_window f n L"
    have "L - n \<le> i"
    proof (cases "L = Suc i")
      case False
      with that win assms(1) have "L \<le> Suc i + run" "run < n" by (auto simp: sliding_state_def)
      then show ?thesis by linarith
    qed (use assms(1) in \<open>auto simp: sliding_state_def\<close>)
    with cached_windowD [OF win _ \<open>i < L\<close>] assms(2) show False by blast
  qed
  with assms(1) show ?thesis by (auto simp: sliding_state_def)
qed

lemma sliding_state_skip:
  assumes "sliding_state f none n bsz alignment N (Suc i) 0 rows" and "\<not> aligned bsz alignment (Suc i)"
  shows "sliding_state f none n bsz alignment N i 0 rows"
proof -
  have "\<not> cached_window f n L" if "i < L" "L \<le> N" "aligned bsz alignment L" for L
  proof (cases "L = Suc i")
    case True
    with assms(2) that(3) show ?thesis by simp
  next
    case False
    with that assms(1) show ?thesis by (auto simp: sliding_state_def)
  qed
  with assms(1) show ?thesis by (auto simp: sliding_state_def)
qed

lemma sliding_state_extend:
  assumes "sliding_state f none n bsz alignment N (Suc i) run rows" and "f i = Some row"
    and "run = 0 \<longrightarrow> aligned bsz alignment (Suc i)"
  shows "length rows = N" and "i + Suc run \<le> N" and "aligned bsz alignment (i + Suc run)"
    and "\<forall>j < i. rows[i := row] ! j = none"
    and "\<forall>j. i \<le> j \<and> j < i + Suc run \<longrightarrow> f j = Some (rows[i := row] ! j)"
    and "\<forall>L. i < L \<and> L \<le> N \<and> aligned bsz alignment L \<and> cached_window f n L \<longrightarrow> L \<le> i + Suc run"
    and "Suc run < n \<Longrightarrow> sliding_state f none n bsz alignment N i (Suc run) (rows[i := row])"
proof -
  from assms(1) have st: "length rows = N" "Suc i + run \<le> N" "run < n" "0 < run \<longrightarrow> aligned bsz alignment (Suc i + run)"
    "\<forall>j < Suc i. rows ! j = none" "\<forall>j. Suc i \<le> j \<and> j < Suc i + run \<longrightarrow> f j = Some (rows ! j)"
    "\<forall>L. Suc i < L \<and> L \<le> N \<and> aligned bsz alignment L \<and> cached_window f n L \<longrightarrow> 0 < run \<and> L \<le> Suc i + run"
    by (simp_all add: sliding_state_def)
  show len: "length rows = N" and le: "i + Suc run \<le> N" using st by simp_all
  show al: "aligned bsz alignment (i + Suc run)" using st(4) assms(3) by (cases "run = 0") simp_all
  show below: "\<forall>j < i. rows[i := row] ! j = none" using st(5) by simp
  show hits: "\<forall>j. i \<le> j \<and> j < i + Suc run \<longrightarrow> f j = Some (rows[i := row] ! j)"
  proof (intro allI impI)
    fix j assume "i \<le> j \<and> j < i + Suc run"
    then show "f j = Some (rows[i := row] ! j)"
      using st(1,2,6) assms(2) by (cases "j = i") auto
  qed
  show bound: "\<forall>L. i < L \<and> L \<le> N \<and> aligned bsz alignment L \<and> cached_window f n L \<longrightarrow> L \<le> i + Suc run"
  proof (intro allI impI)
    fix L assume L: "i < L \<and> L \<le> N \<and> aligned bsz alignment L \<and> cached_window f n L"
    show "L \<le> i + Suc run" using L st(7) by (cases "L = Suc i") auto
  qed
  show "Suc run < n \<Longrightarrow> sliding_state f none n bsz alignment N i (Suc run) (rows[i := row])"
    using len le al below hits bound by (simp add: sliding_state_def)
qed

lemma sliding_scan_longest:
  assumes "\<And>i. i < N \<Longrightarrow> cached_row p gs (hs ! i) = Inr (f i)" and "N \<le> length hs" and "i \<le> N" and al: "0 < alignment"
    and "sliding_state f none n bsz alignment N i run rows"
  shows "\<exists>found run' rows'. sliding_scan p gs hs bsz alignment n i run rows = Inr (found, run', rows') \<and>
    longest_hit f none (\<lambda>L. min n L) bsz alignment N (if found then rows' else take run' rows')"
  using assms(3,5)
proof (induction i arbitrary: run rows)
  case 0
  then have st: "length rows = N" "run \<le> N" "run < n" "0 < run \<longrightarrow> aligned bsz alignment run"
    "\<forall>j < run. f j = Some (rows ! j)"
    "\<forall>L. 0 < L \<and> L \<le> N \<and> aligned bsz alignment L \<and> cached_window f n L \<longrightarrow> L \<le> run"
    by (simp_all add: sliding_state_def)
  have win: "cached_window f (min n L) L = cached_window f n L" for L by (auto simp: cached_window_def min_def)
  have "longest_hit f none (\<lambda>L. min n L) bsz alignment N (take run rows)"
  proof -
    have "\<not> (aligned bsz alignment L \<and> cached_window f (min n L) L)" if "run < L" "L \<le> N" for L
      using st(6) [rule_format, of L] that unfolding win by auto
    moreover have "cached_window f (min n run) run" using st(5) by (auto simp: cached_window_def)
    moreover have "aligned bsz alignment run" using st(4) by (cases "run = 0") simp_all
    ultimately show ?thesis using st(1-3,5) by (auto simp: longest_hit_def)
  qed
  then show ?case by (intro exI [of _ False]) simp
next
  case (Suc i)
  have lookup: "py_nth hs (int i) = Inr (hs ! i)" "cached_row p gs (hs ! i) = Inr (f i)"
    using Suc.prems(1) assms(1,2) by (simp_all add: py_nth_of_nat)
  show ?case
  proof (cases "f i")
    case None
    with sliding_state_miss [OF Suc.prems(2)] Suc.IH [of 0 rows] Suc.prems(1) lookup show ?thesis by simp
  next
    case (Some row)
    show ?thesis
    proof (cases "run = 0 \<and> \<not> aligned bsz alignment (Suc i)")
      case True
      with sliding_state_skip [of f none n bsz alignment N i rows] Suc.prems Suc.IH [of 0 rows] lookup Some
      show ?thesis by (simp add: misaligned_iff [OF al])
    next
      case False
      then have first: "(if run = 0 then misaligned bsz alignment (i + 1) else Inr False) = Inr False"
        by (auto simp: misaligned_iff [OF al])
      from False have "run = 0 \<longrightarrow> aligned bsz alignment (Suc i)" by blast
      note ext = sliding_state_extend [OF Suc.prems(2) Some this]
      show ?thesis
      proof (cases "run + 1 \<ge> n")
        case True
        let ?rows = "take (i + (run + 1)) (rows[i := row])"
        from True Suc.prems(2) have n: "n = Suc run" by (simp add: sliding_state_def)
        have len: "length ?rows = i + Suc run" using ext(1,2) by simp
        have win: "cached_window f (min n L) L = cached_window f n L" for L by (auto simp: cached_window_def min_def)
        have "longest_hit f none (\<lambda>L. min n L) bsz alignment N ?rows"
          unfolding longest_hit_def len
        proof (intro conjI allI impI)
          show "i + Suc run \<le> N" and "aligned bsz alignment (i + Suc run)" by (fact ext)+
          show "cached_window f (min n (i + Suc run)) (i + Suc run)" using ext(5) n by (auto simp: cached_window_def)
        next
          fix L assume "i + Suc run < L \<and> L \<le> N"
          then show "\<not> (aligned bsz alignment L \<and> cached_window f (min n L) L)"
            using ext(6) [rule_format, of L] unfolding win by auto
        next
          fix j assume j: "j < i + Suc run"
          then have "?rows ! j = rows[i := row] ! j" by simp
          then show "?rows ! j = (if i + Suc run - min n (i + Suc run) \<le> j then the (f j) else none)"
            using ext(4,5) j n by auto
        qed
        with lookup Some first True show ?thesis by auto
      next
        case small: False
        with ext(7) Suc.IH [of "Suc run" "rows[i := row]"] Suc.prems(1) lookup Some first show ?thesis by auto
      qed
    qed
  qed
qed

lemma mamba_scan_longest:
  assumes "\<And>i. i < N \<Longrightarrow> cached_row p gs (hs ! i) = Inr (f i)" and "N \<le> length hs" and "i \<le> N" and al: "0 < alignment"
    and "\<forall>L. i < L \<and> L \<le> N \<longrightarrow> \<not> (aligned bsz alignment L \<and> cached_window f 1 L)"
  shows "\<exists>rows. mamba_scan p gs hs bsz alignment i = Inr rows \<and>
    longest_hit f (replicate (length gs) (null_block p)) (\<lambda>L. min 1 L) bsz alignment N rows"
  using assms(3,5)
proof (induction i)
  case 0
  have "cached_window f (min 1 L) L = cached_window f 1 L" for L by (auto simp: cached_window_def min_def)
  with 0 show ?case by (auto simp: longest_hit_def) (simp add: cached_window_def)
next
  case (Suc i)
  have lookup: "py_nth hs (int i) = Inr (hs ! i)" "cached_row p gs (hs ! i) = Inr (f i)"
    using Suc.prems(1) assms(1,2) by (simp_all add: py_nth_of_nat)
  have win: "cached_window f (Suc 0) L \<longleftrightarrow> L = 0 \<or> f (L - 1) \<noteq> None" for L
    by (cases L) (auto simp: cached_window_def less_Suc_eq_le dest: le_antisym)
  show ?case
  proof (cases "f i = None \<or> \<not> aligned bsz alignment (Suc i)")
    case True
    have none: "\<not> (aligned bsz alignment L \<and> cached_window f 1 L)" if "i < L" "L \<le> N" for L
    proof (cases "L = Suc i")
      case True
      with \<open>f i = None \<or> \<not> aligned bsz alignment (Suc i)\<close> show ?thesis by (auto simp: win)
    next
      case False
      with that Suc.prems(2) show ?thesis by simp
    qed
    have "mamba_scan p gs hs bsz alignment (Suc i) = mamba_scan p gs hs bsz alignment i"
      using True lookup by (auto simp: misaligned_iff [OF al] split: option.split)
    moreover have "i \<le> N" using Suc.prems(1) by simp
    ultimately show ?thesis using Suc.IH none by metis
  next
    case False
    then obtain row where row: "f i = Some row" and end_al: "aligned bsz alignment (Suc i)" by auto
    let ?rows = "replicate i (replicate (length gs) (null_block p)) @ [row]"
    have len: "length ?rows = Suc i" by simp
    have "mamba_scan p gs hs bsz alignment (Suc i) = Inr ?rows"
      using row end_al lookup by (simp add: misaligned_iff [OF al])
    moreover have "longest_hit f (replicate (length gs) (null_block p)) (\<lambda>L. min 1 L) bsz alignment N ?rows"
      unfolding longest_hit_def len
    proof (intro conjI allI impI)
      show "Suc i \<le> N" using Suc.prems(1) .
      show "aligned bsz alignment (Suc i)" by (fact end_al)
      show "cached_window f (min 1 (Suc i)) (Suc i)" using row by (simp add: win)
    next
      fix L assume "Suc i < L \<and> L \<le> N"
      with Suc.prems(2) show "\<not> (aligned bsz alignment L \<and> cached_window f (min 1 L) L)" by simp
    next
      fix j assume "j < Suc i"
      then show "?rows ! j = (if Suc i - min 1 (Suc i) \<le> j then the (f j) else replicate (length gs) (null_block p))"
        using row by (auto simp: nth_append less_Suc_eq)
    qed
    ultimately show ?thesis by blast
  qed
qed

section \<open>One attention type\<close>

text \<open>How many blocks at the end of a prefix of \<open>L\<close> blocks an attention type reads\<close>

definition blocks_read :: "KVCacheSpec \<Rightarrow> nat \<Rightarrow> nat" where
  "blocks_read spec L = (case attention spec of
      SlidingWindowSpec window \<Rightarrow> min (window_blocks window (block_size spec) False) L
    | MambaSpec _ _ \<Rightarrow> min 1 L
    | _ \<Rightarrow> L)"

definition searchable :: "KVCacheSpec \<Rightarrow> bool" where
  "searchable spec \<longleftrightarrow> 0 < block_size spec \<and> (case attention spec of
      SlidingWindowSpec window \<Rightarrow> 2 \<le> window
    | ChunkedLocalAttentionSpec _ \<Rightarrow> False
    | CrossAttentionSpec \<Rightarrow> False
    | _ \<Rightarrow> True)"

lemma window_blocks_pos: "2 \<le> window \<Longrightarrow> 0 < bsz \<Longrightarrow> 0 < window_blocks window bsz False"
  by (simp add: window_blocks_def cdiv_def div_minus_right pos_imp_zdiv_neg_iff)

lemma longest_cache_hit:
  assumes ok: "pool_ok p held" "groups_ok gs" and spec: "searchable spec" and "0 < alignment"
    and hashes: "max_length div block_size spec \<le> length hs"
  shows "\<exists>rows. find_longest_cache_hit p spec False alignment 1 gs hs max_length = Inr rows \<and>
    longest_hit (row_at p gs hs) (replicate (length gs) (null_block p)) (blocks_read spec) (block_size spec) alignment
      (max_length div block_size spec) rows"
proof -
  let ?N = "max_length div block_size spec" and ?f = "row_at p gs hs" and ?none = "replicate (length gs) (null_block p)"
  note row = cached_row_row_at [OF ok, of hs]
  have pos: "0 < block_size spec" using spec by (simp add: searchable_def)
  have full: "\<exists>rows. full_cache_hit p spec False alignment 1 gs hs max_length = Inr rows \<and>
      longest_hit ?f ?none (\<lambda>L. L) (block_size spec) alignment ?N rows"
  proof -
    from full_scan_prefix [of "take ?N hs" p gs ?f] row hashes obtain rows where
      "full_scan p gs (take ?N hs) = Inr rows" "length rows \<le> ?N" "\<forall>i < length rows. ?f i = Some (rows ! i)"
      "length rows < ?N \<longrightarrow> ?f (length rows) = None" by (auto simp: min_absorb2)
    with full_hit_longest [OF this assms(4), of "block_size spec" ?none] pos show ?thesis
      by (auto simp: full_cache_hit_def)
  qed
  show ?thesis
  proof (cases "attention spec")
    case (SlidingWindowSpec w)
    let ?n = "window_blocks w (block_size spec) False"
    from SlidingWindowSpec spec have "sliding_state ?f ?none ?n (block_size spec) alignment ?N ?N 0 (replicate ?N ?none)"
      using window_blocks_pos by (auto simp: sliding_state_def searchable_def)
    from sliding_scan_longest [OF row hashes order_refl assms(4) this] obtain found run rows where
      scan: "sliding_scan p gs hs (block_size spec) alignment ?n ?N 0 (replicate ?N ?none) = Inr (found, run, rows)"
      and longest: "longest_hit ?f ?none (\<lambda>L. min ?n L) (block_size spec) alignment ?N (if found then rows else take run rows)"
      by blast
    from longest have "aligned (block_size spec) alignment (length (if found then rows else take run rows))"
      by (simp add: longest_hit_def)
    then have "(if found then Inr rows else align_rows (block_size spec) alignment (take run rows)) =
        Inr (if found then rows else take run rows)"
      using assms(4) by (auto simp: align_rows_def aligned_def drop_unaligned_aligned)
    with scan longest SlidingWindowSpec pos show ?thesis
      by (simp add: find_longest_cache_hit_def sliding_cache_hit_def blocks_read_def [abs_def] Let_def)
  next
    case (MambaSpec a b)
    have "\<exists>rows. mamba_scan p gs hs (block_size spec) alignment ?N = Inr rows \<and>
        longest_hit ?f ?none (\<lambda>L. min 1 L) (block_size spec) alignment ?N rows"
      by (rule mamba_scan_longest) (use row hashes assms(4) in auto)
    with MambaSpec pos show ?thesis by (simp add: find_longest_cache_hit_def mamba_cache_hit_def blocks_read_def [abs_def])
  qed (use full spec in \<open>auto simp: find_longest_cache_hit_def blocks_read_def [abs_def] searchable_def\<close>)
qed

end
