(* ===== verification/Cache_Hybrid.thy ===== *)
theory Cache_Hybrid
  imports Cache_Hits_Correct
begin

text \<open>
  The search of the hybrid coordinator: the groups of equal specification, the rounds in which each
  of them accepts or lowers the length, and the fixed point they end in.
\<close>

section \<open>What a group can use\<close>

text \<open>The block cached under a hash for one group\<close>

definition cached_for :: "BlockPool \<Rightarrow> bytes \<Rightarrow> int \<Rightarrow> block_ref option" where
  "cached_for p h g = (case get_cached_block p h [g] of Inr (Some (b # _)) \<Rightarrow> Some b | _ \<Rightarrow> None)"

lemma cached_for_single:
  assumes "pool_ok p held" and "0 \<le> g" and "g < 2 ^ 32"
  shows "get_cached_block p h [g] = Inr (map_option (\<lambda>b. [b]) (cached_for p h g))"
proof -
  from pool_ok_rel [OF assms(1)] obtain xs where "pool_rel p held xs" by blast
  from get_cached_block_ok [OF this, of "[g]" h] assms(2,3) show ?thesis
    by (auto simp: cached_for_def list_all2_Cons1 split: sum.splits option.splits)
qed

lemma get_cached_block_cached_for:
  assumes "pool_ok p held" and "\<forall>g \<in> set gs. 0 \<le> g \<and> g < 2 ^ 32"
  shows "get_cached_block p h gs =
    Inr (if \<forall>g \<in> set gs. cached_for p h g \<noteq> None then Some (map (\<lambda>g. the (cached_for p h g)) gs) else None)"
  using assms(2)
proof (induction gs)
  case (Cons g gs)
  have one: "get_cached_block p h [g] = Inr (map_option (\<lambda>b. [b]) (cached_for p h g))"
    using cached_for_single [OF assms(1)] Cons.prems by simp
  then obtain key where key: "make_block_hash_with_group_id h g = Inr key" by (auto simp: rbind_eq_Inr)
  with one have "get_one_block (cached_block_hash_to_block p) key = Inr (cached_for p h g)"
    by (cases "get_one_block (cached_block_hash_to_block p) key"; cases "cached_for p h g") (auto split: option.splits)
  with key Cons.IH Cons.prems show ?case by (auto split: option.splits)
qed simp

lemma row_at_cached_for:
  assumes "pool_ok p held" and "groups_ok gs"
  shows "row_at p gs hs i =
    (if \<forall>g \<in> set gs. cached_for p (hs ! i) g \<noteq> None then Some (map (\<lambda>g. the (cached_for p (hs ! i) g)) gs) else None)"
proof -
  have "gs \<noteq> []" using assms(2) by (simp add: groups_ok_def)
  then obtain g gs' where "gs = g # gs'" by (cases gs) auto
  with get_cached_block_cached_for [OF assms(1), of gs "hs ! i"] assms(2) show ?thesis
    by (auto simp: row_at_def cached_row_def groups_ok_def)
qed

text \<open>The hash of block \<open>i\<close> at the block size of a specification\<close>

definition spec_hash :: "nat \<Rightarrow> KVCacheSpec \<Rightarrow> bytes list \<Rightarrow> nat \<Rightarrow> bytes" where
  "spec_hash hash_sz spec hs i =
     (let k = block_size spec div hash_sz in concat (py_slice hs (i * k) (i * k + k)))"

lemma hashes_for_eq:
  assumes "0 < hash_sz" and "hash_sz dvd block_size spec" and "0 < block_size spec"
  shows "hashes_for hash_sz spec hs =
    Inr (map (spec_hash hash_sz spec hs) [0..<length hs div (block_size spec div hash_sz)])"
proof -
  from assms(2,3) obtain k where k: "block_size spec = k * hash_sz" "0 < k" by (auto simp: dvd_def mult.commute)
  let ?p = "sample_pool\<lparr>hash_block_size := hash_sz\<rparr>" and ?r = "hashed_request\<lparr>block_hashes := hs\<rparr>"
  have "hashes_for hash_sz spec hs = group_hashes_from ?p ?r (k * hash_sz) 0"
    using assms(1) k by (simp add: hashes_for_def group_hashes_from_def)
  also have "\<dots> = Inr (map (group_hash ?r k) [0..<length hs div k])"
    using group_hashes_from_eq [of k ?p ?r 0] k(2) assms(1) by simp
  finally show ?thesis
    using k assms(1) by (simp add: spec_hash_def [abs_def] group_hash_def [abs_def])
qed

definition cached_at :: "BlockPool \<Rightarrow> nat \<Rightarrow> bytes list \<Rightarrow> KVCacheSpec \<Rightarrow> nat \<Rightarrow> nat \<Rightarrow> block_ref option" where
  "cached_at p hash_sz hs spec g i = cached_for p (spec_hash hash_sz spec hs i) (int g)"

text \<open>
  A prefix is usable for a group if every block its attention reads is cached; the hit is then those
  blocks, with the null block for the ones that are not read.
\<close>

definition usable :: "BlockPool \<Rightarrow> nat \<Rightarrow> bytes list \<Rightarrow> KVCacheSpec \<Rightarrow> nat \<Rightarrow> nat \<Rightarrow> bool" where
  "usable p hash_sz hs spec g len \<longleftrightarrow>
     (let L = len div block_size spec
      in \<forall>i \<in> {L - blocks_read spec L..<L}. cached_at p hash_sz hs spec g i \<noteq> None)"

definition hit_column :: "BlockPool \<Rightarrow> nat \<Rightarrow> bytes list \<Rightarrow> KVCacheSpec \<Rightarrow> nat \<Rightarrow> nat \<Rightarrow> block_ref list" where
  "hit_column p hash_sz hs spec g len =
     (let L = len div block_size spec
      in map (\<lambda>i. if L - blocks_read spec L \<le> i then the (cached_at p hash_sz hs spec g i) else null_block p) [0..<L])"

lemma length_hit_column [simp]: "length (hit_column p hash_sz hs spec g len) = len div block_size spec"
  by (simp add: hit_column_def Let_def)

lemma blocks_read_full: "is_full_attention spec \<Longrightarrow> blocks_read spec L = L"
  by (auto simp: is_full_attention_def blocks_read_def split: attention_type.splits)

lemma usable_full_down:
  assumes "is_full_attention spec" and "usable p hash_sz hs spec g M" and "len \<le> M"
  shows "usable p hash_sz hs spec g len"
    and "take (len div block_size spec) (hit_column p hash_sz hs spec g M) = hit_column p hash_sz hs spec g len"
proof -
  have "len div block_size spec \<le> M div block_size spec" using assms(3) by (rule div_le_mono)
  then show "usable p hash_sz hs spec g len"
    and "take (len div block_size spec) (hit_column p hash_sz hs spec g M) = hit_column p hash_sz hs spec g len"
    using assms(1,2) by (auto simp: usable_def hit_column_def blocks_read_full Let_def take_map min_absorb1)
qed

section \<open>One attention group\<close>

lemma group_rows:
  assumes "pool_ok p held" and "groups_ok (map int ids)" and "i < n"
  shows "row_at p (map int ids) (map (spec_hash hash_sz spec hs) [0..<n]) i =
    (if \<forall>g \<in> set ids. cached_at p hash_sz hs spec g i \<noteq> None
     then Some (map (\<lambda>g. the (cached_at p hash_sz hs spec g i)) ids) else None)"
  using assms(3) by (auto simp: row_at_cached_for [OF assms(1,2)] cached_at_def)

lemma group_search:
  assumes ok: "pool_ok p held" "groups_ok (map int ids)" and spec: "searchable spec"
    and sizes: "0 < hash_sz" "hash_sz dvd block_size spec" "block_size spec dvd alignment" "0 < alignment"
    and hashes: "cur div hash_sz \<le> length hs"
  shows "\<exists>spec_hashes rows. hashes_for hash_sz spec hs = Inr spec_hashes \<and>
    find_longest_cache_hit p spec False alignment 1 (map int ids) spec_hashes cur = Inr rows \<and>
    (let len = length rows * block_size spec
     in len \<le> cur \<and> alignment dvd len \<and> (\<forall>g \<in> set ids. usable p hash_sz hs spec g len) \<and>
        (\<forall>len' \<le> cur. alignment dvd len' \<and> (\<forall>g \<in> set ids. usable p hash_sz hs spec g len') \<longrightarrow> len' \<le> len) \<and>
        columns (length ids) rows = map (\<lambda>g. hit_column p hash_sz hs spec g len) ids)"
proof -
  let ?bs = "block_size spec"
  let ?k = "?bs div hash_sz"
  let ?hs = "map (spec_hash hash_sz spec hs) [0..<length hs div ?k]"
  let ?f = "row_at p (map int ids) ?hs"
  have pos: "0 < ?bs" using spec by (simp add: searchable_def)
  have bs: "?bs = hash_sz * ?k" using sizes(2) by simp
  have "cur div ?bs = cur div hash_sz div ?k" by (subst bs) (simp add: div_mult2_eq)
  then have N: "cur div ?bs \<le> length ?hs" using div_le_mono [OF hashes, of ?k] by simp
  from longest_cache_hit [OF ok spec sizes(4) N] obtain rows where
    rows: "find_longest_cache_hit p spec False alignment 1 (map int ids) ?hs cur = Inr rows" and
    longest: "longest_hit ?f (replicate (length ids) (null_block p)) (blocks_read spec) ?bs alignment (cur div ?bs) rows"
    by auto
  have al: "aligned ?bs alignment L \<longleftrightarrow> alignment dvd L * ?bs" for L by (auto simp: aligned_def mod_0_imp_dvd)
  have row: "?f i = (if \<forall>g \<in> set ids. cached_at p hash_sz hs spec g i \<noteq> None
      then Some (map (\<lambda>g. the (cached_at p hash_sz hs spec g i)) ids) else None)" if "i < cur div ?bs" for i
    by (rule group_rows [OF ok]) (use that N in simp)
  have window: "cached_window ?f (blocks_read spec L) L \<longleftrightarrow> (\<forall>g \<in> set ids. usable p hash_sz hs spec g (L * ?bs))"
    if "L \<le> cur div ?bs" for L
  proof -
    have "?f i \<noteq> None \<longleftrightarrow> (\<forall>g \<in> set ids. cached_at p hash_sz hs spec g i \<noteq> None)" if "i < L" for i
      using row [of i] that \<open>L \<le> cur div ?bs\<close> by (auto split: if_splits)
    then have "cached_window ?f (blocks_read spec L) L \<longleftrightarrow>
        (\<forall>i. L - blocks_read spec L \<le> i \<and> i < L \<longrightarrow> (\<forall>g \<in> set ids. cached_at p hash_sz hs spec g i \<noteq> None))"
      unfolding cached_window_def by metis
    with pos show ?thesis unfolding usable_def Let_def by auto
  qed
  define L where "L = length rows"
  from longest have hit: "L \<le> cur div ?bs" "alignment dvd L * ?bs" "cached_window ?f (blocks_read spec L) L"
    "\<And>L'. L < L' \<Longrightarrow> L' \<le> cur div ?bs \<Longrightarrow> alignment dvd L' * ?bs \<Longrightarrow> \<not> cached_window ?f (blocks_read spec L') L'"
    "\<And>i. i < L \<Longrightarrow> rows ! i = (if L - blocks_read spec L \<le> i then the (?f i) else replicate (length ids) (null_block p))"
    by (auto simp: longest_hit_def L_def al)
  have L: "\<forall>g \<in> set ids. usable p hash_sz hs spec g (L * ?bs)" using hit(3) window [OF hit(1)] by blast
  have le: "L' * ?bs \<le> cur \<longleftrightarrow> L' \<le> cur div ?bs" for L' using pos by (simp add: less_eq_div_iff_mult_less_eq)
  have greatest: "len' \<le> L * ?bs" if bounds: "len' \<le> cur" "alignment dvd len'" "\<forall>g \<in> set ids. usable p hash_sz hs spec g len'" for len'
  proof -
    obtain L' where L': "len' = L' * ?bs"
      using dvd_trans [OF sizes(3) bounds(2)] by (auto simp: dvd_def mult.commute)
    with bounds le have "L' \<le> cur div ?bs" by simp
    with hit(4) [of L'] bounds window L' have "\<not> L < L'" by auto
    with L' show ?thesis by simp
  qed
  have "columns (length ids) rows ! j = map (\<lambda>g. hit_column p hash_sz hs spec g (L * ?bs)) ids ! j" if j: "j < length ids" for j
  proof (rule nth_equalityI)
    show "length (columns (length ids) rows ! j) = length (map (\<lambda>g. hit_column p hash_sz hs spec g (L * ?bs)) ids ! j)"
      using j pos by (simp add: columns_def L_def)
    fix i assume "i < length (columns (length ids) rows ! j)"
    then have i: "i < L" using j by (simp add: columns_def L_def)
    with hit(1) have iN: "i < cur div ?bs" by simp
    have "?f i \<noteq> None" if "L - blocks_read spec L \<le> i" using cached_windowD [OF hit(3) that i] .
    with hit(5) [OF i] show "columns (length ids) rows ! j ! i = map (\<lambda>g. hit_column p hash_sz hs spec g (L * ?bs)) ids ! j ! i"
      using i j pos by (auto simp: columns_def hit_column_def Let_def row [OF iN] L_def split: if_splits)
  qed
  then have "columns (length ids) rows = map (\<lambda>g. hit_column p hash_sz hs spec g (L * ?bs)) ids"
    by (intro nth_equalityI) (simp_all add: columns_def)
  with rows hashes_for_eq [OF sizes(1,2) pos] hit(1,2) L greatest le show ?thesis
    by (intro exI [of _ ?hs] exI [of _ rows]) (simp add: L_def [symmetric] Let_def)
qed

lemma store_hits_nth:
  assumes "length cols = length ids" and "distinct ids" and "set ids \<subseteq> {..<length hits}"
  shows "length (store_hits ids cols hits) = length hits"
    and "\<And>j. j < length ids \<Longrightarrow> store_hits ids cols hits ! (ids ! j) = Some (cols ! j)"
    and "\<And>g. g \<notin> set ids \<Longrightarrow> store_hits ids cols hits ! g = hits ! g"
proof -
  have "length (store_hits ids cols hits) = length hits \<and>
      (\<forall>j < length ids. store_hits ids cols hits ! (ids ! j) = Some (cols ! j)) \<and>
      (\<forall>g. g \<notin> set ids \<longrightarrow> store_hits ids cols hits ! g = hits ! g)"
    using assms
  proof (induction cols ids arbitrary: hits rule: list_induct2)
    case (Cons c cols g ids)
    from Cons.IH [of "hits[g := Some c]"] Cons.prems Cons.hyps show ?case
      by (auto simp: store_hits_def nth_Cons split: nat.splits)
  qed (simp add: store_hits_def)
  then show "length (store_hits ids cols hits) = length hits"
    and "\<And>j. j < length ids \<Longrightarrow> store_hits ids cols hits ! (ids ! j) = Some (cols ! j)"
    and "\<And>g. g \<notin> set ids \<Longrightarrow> store_hits ids cols hits ! g = hits ! g" by blast+
qed

section \<open>The groups of the coordinator\<close>

definition groups_of :: "KVCacheSpec list \<Rightarrow> attention_group list \<Rightarrow> bool" where
  "groups_of specs groups \<longleftrightarrow> distinct (map fst groups) \<and> fst ` set groups = set specs \<and>
     (\<forall>(spec, ids) \<in> set groups. ids = filter (\<lambda>g. specs ! g = spec) [0..<length specs])"

lemma add_to_groups_fst:
  "map fst (add_to_groups i spec groups) = (if spec \<in> fst ` set groups then map fst groups else map fst groups @ [spec])"
  by (induction i spec groups rule: add_to_groups.induct) auto

lemma add_to_groups_ids:
  assumes "(spec', ids) \<in> set (add_to_groups i spec groups)" and "distinct (map fst groups)"
  shows "if spec' = spec then (\<exists>old. (spec, old) \<in> set groups \<and> ids = old @ [i]) \<or> spec \<notin> fst ` set groups \<and> ids = [i]
    else (spec', ids) \<in> set groups"
  using assms by (induction i spec groups rule: add_to_groups.induct) (force split: if_splits)+

lemma groups_of_add:
  assumes "groups_of specs groups"
  shows "groups_of (specs @ [spec]) (add_to_groups (length specs) spec groups)"
proof -
  let ?groups = "add_to_groups (length specs) spec groups"
  have "distinct (map fst ?groups)" using assms by (auto simp: add_to_groups_fst groups_of_def)
  moreover have "set (map fst ?groups) = set (specs @ [spec])"
    using assms unfolding add_to_groups_fst by (auto simp: groups_of_def)
  moreover have "ids = filter (\<lambda>g. (specs @ [spec]) ! g = spec') [0..<length (specs @ [spec])]"
    if "(spec', ids) \<in> set ?groups" for spec' ids
  proof -
    have old: "filter (\<lambda>g. (specs @ [spec]) ! g = spec') [0..<length specs] = filter (\<lambda>g. specs ! g = spec') [0..<length specs]"
      by (rule filter_cong) (auto simp: nth_append)
    have "filter (\<lambda>g. specs ! g = spec) [0..<length specs] = []" if "spec \<notin> fst ` set groups"
      using that assms by (auto simp: groups_of_def filter_empty_conv)
    with add_to_groups_ids [OF that] assms old show ?thesis
      by (auto simp: groups_of_def nth_append split: if_splits)
  qed
  ultimately show ?thesis unfolding groups_of_def by auto
qed

lemma groups_of_split: "groups_of specs (split_groups specs)"
proof (induction specs rule: rev_induct)
  case Nil
  show ?case by (simp add: groups_of_def split_groups_def)
next
  case (snoc spec specs)
  from groups_of_add [OF this, of spec] show ?case by (simp add: split_groups_def enumerate_append_eq)
qed

lemma groups_of_perm: "groups_of specs groups \<Longrightarrow> mset groups' = mset groups \<Longrightarrow> groups_of specs groups'"
  by (metis (no_types, lifting) groups_of_def mset_eq_imp_distinct_iff mset_eq_setD mset_map)

lemma fold_lcm:
  fixes n :: nat
  shows "n dvd fold (\<lambda>(spec, _). lcm (block_size spec)) groups n"
    and "spec \<in> fst ` set groups \<Longrightarrow> block_size spec dvd fold (\<lambda>(spec, _). lcm (block_size spec)) groups n"
    and "0 < n \<Longrightarrow> (\<And>spec. spec \<in> fst ` set groups \<Longrightarrow> 0 < block_size spec) \<Longrightarrow>
      0 < fold (\<lambda>(spec, _). lcm (block_size spec)) groups n"
proof (induction groups arbitrary: n)
  case (Cons ag groups)
  obtain spec' ids where ag: "ag = (spec', ids)" by (cases ag)
  { case 1
    show ?case using Cons(1) [of "lcm (block_size spec') n"] ag by (auto intro: dvd_trans) }
  { case 2
    then show ?case using Cons(1,2) [of "lcm (block_size spec') n"] ag by (auto intro: dvd_trans) }
  { case 3
    then show ?case using Cons(3) [of "lcm (block_size spec') n"] ag by (simp add: lcm_pos_nat) }
qed simp_all

text \<open>
  What the searches rely on: a consistent pool, groups whose caches can be searched, one kind of full
  attention, no draft model that drops blocks, and a hash for every block that is looked for.
\<close>

definition one_full :: "KVCacheSpec list \<Rightarrow> bool" where
  "one_full specs \<longleftrightarrow> (\<forall>s \<in> set specs. \<forall>t \<in> set specs. is_full_attention s \<and> is_full_attention t \<longrightarrow> s = t)"

definition coordinated :: "BlockPool \<Rightarrow> KVCacheSpec list \<Rightarrow> hybrid_coordinator \<Rightarrow> bool" where
  "coordinated p specs co \<longleftrightarrow> (\<exists>held. pool_ok p held) \<and> groups_of specs (attention_groups co) \<and> specs \<noteq> [] \<and>
     num_groups co = length specs \<and> \<not> use_eagle co \<and> length specs \<le> 2 ^ 32 \<and> 0 < hash_size co \<and> 0 < lcm_block_size co \<and>
     (\<forall>spec \<in> set specs. searchable spec \<and> hash_size co dvd block_size spec \<and> block_size spec dvd lcm_block_size co) \<and>
     (\<forall>ag \<in> set (attention_groups co). is_full_attention (fst ag) \<longrightarrow> ag = hd (attention_groups co))"

lemma full_group_first:
  assumes "groups_of specs groups" and "one_full specs" and "ag \<in> set groups" and "is_full_attention (fst ag)"
    and "sorted (map (\<lambda>(spec, _). \<not> is_full_attention spec) groups)"
  shows "ag = hd groups"
proof -
  obtain first rest where groups: "groups = first # rest" using assms(3) by (cases groups) auto
  with assms(3-5) have "is_full_attention (fst first)" by (auto simp: split_beta)
  moreover have "fst first \<in> set specs" "fst ag \<in> set specs" using assms(1,3) groups by (auto simp: groups_of_def)
  ultimately have "fst first = fst ag" using assms(2,4) by (auto simp: one_full_def)
  with assms(1,3) groups show ?thesis by (auto simp: groups_of_def image_iff)
qed

lemma new_hybrid_coordinated:
  assumes "new_hybrid_coordinator specs hash_sz False 1 1 = Inr co" and "pool_ok p held"
    and "\<forall>spec \<in> set specs. searchable spec" and "one_full specs" and "length specs \<le> 2 ^ 32"
  shows "coordinated p specs co" and "hash_size co = hash_sz"
proof -
  let ?key = "\<lambda>(spec, _ :: nat list). \<not> is_full_attention spec"
  from assms(1) have co: "co = \<lparr>hash_size = hash_sz, attention_groups = sort_key ?key (split_groups specs),
      lcm_block_size = fold (\<lambda>(spec, _). lcm (block_size spec)) (split_groups specs) 1, num_groups = length specs,
      use_eagle = False\<rparr>"
    and hash: "0 < hash_sz \<or> specs = []" "\<forall>spec \<in> set specs. block_size spec mod hash_sz = 0"
    and two: "1 < length (split_groups specs)"
    by (auto simp: new_hybrid_coordinator_def rbind_eq_Inr require_eq_Inr list_all_iff Let_def)
  have "specs \<noteq> []" using two by (auto simp: split_groups_def)
  have fst: "fst ` set (split_groups specs) = set specs" using groups_of_split [of specs] by (simp add: groups_of_def)
  have groups: "groups_of specs (sort_key ?key (split_groups specs))"
    by (rule groups_of_perm [OF groups_of_split]) simp
  have "sorted (map ?key (sort_key ?key (split_groups specs)))" by (rule sorted_sort_key)
  from full_group_first [OF groups assms(4) _ _ this] have
    "\<forall>ag \<in> set (attention_groups co). is_full_attention (fst ag) \<longrightarrow> ag = hd (attention_groups co)"
    unfolding co by simp
  moreover have "0 < lcm_block_size co"
    using fold_lcm(3) [of 1 "split_groups specs"] assms(3) fst unfolding co by (simp add: searchable_def)
  moreover have "\<forall>spec \<in> set specs. block_size spec dvd lcm_block_size co"
    using fold_lcm(2) [of _ "split_groups specs" 1] fst unfolding co by simp
  ultimately show "coordinated p specs co" and "hash_size co = hash_sz"
    using assms(2,3,5) hash \<open>specs \<noteq> []\<close> groups unfolding coordinated_def
    by (auto simp: co mod_0_imp_dvd)
qed

section \<open>Rounds\<close>

text \<open>
  A length that an attention group accepts, and the hit of a length among the blocks found so far
\<close>

definition accepted :: "BlockPool \<Rightarrow> hybrid_coordinator \<Rightarrow> bytes list \<Rightarrow> attention_group \<Rightarrow> nat \<Rightarrow> bool" where
  "accepted p co hs ag len \<longleftrightarrow>
     lcm_block_size co dvd len \<and> (\<forall>g \<in> set (snd ag). usable p (hash_size co) hs (fst ag) g len)"

definition stored :: "BlockPool \<Rightarrow> hybrid_coordinator \<Rightarrow> bytes list \<Rightarrow> attention_group \<Rightarrow> hits_by_group \<Rightarrow> nat \<Rightarrow> bool" where
  "stored p co hs ag hits len \<longleftrightarrow> accepted p co hs ag len \<and>
     (\<forall>g \<in> set (snd ag). hits ! g = Some (hit_column p (hash_size co) hs (fst ag) g len))"

definition reusable :: "BlockPool \<Rightarrow> hybrid_coordinator \<Rightarrow> bytes list \<Rightarrow> attention_group \<Rightarrow> hits_by_group \<Rightarrow> nat \<Rightarrow> bool" where
  "reusable p co hs ag hits len \<longleftrightarrow>
     is_full_attention (fst ag) \<and> hits ! hd (snd ag) \<noteq> None \<longrightarrow>
     lcm_block_size co dvd len \<and> (\<exists>M \<ge> len. stored p co hs ag hits M)"

lemma accepted_full_down:
  "is_full_attention (fst ag) \<Longrightarrow> accepted p co hs ag M \<Longrightarrow> len \<le> M \<Longrightarrow> lcm_block_size co dvd len \<Longrightarrow> accepted p co hs ag len"
  by (auto simp: accepted_def dest: usable_full_down(1))

lemma stored_cong: "stored p co hs ag hits M \<Longrightarrow> (\<And>g. g \<in> set (snd ag) \<Longrightarrow> hits' ! g = hits ! g) \<Longrightarrow> stored p co hs ag hits' M"
  by (simp add: stored_def)

lemma reusable_mono:
  assumes "reusable p co hs ag hits cur" and "len \<le> cur" and "lcm_block_size co dvd len" and "snd ag \<noteq> []"
    and same: "\<And>g. g \<in> set (snd ag) \<Longrightarrow> hits' ! g = hits ! g"
  shows "reusable p co hs ag hits' len"
  unfolding reusable_def
proof (intro impI conjI)
  assume full: "is_full_attention (fst ag) \<and> hits' ! hd (snd ag) \<noteq> None"
  have "hits' ! hd (snd ag) = hits ! hd (snd ag)" using same assms(4) by simp
  with full assms(1) obtain M where "cur \<le> M" "stored p co hs ag hits M" by (auto simp: reusable_def)
  with stored_cong [of p co hs ag hits M hits'] same assms(2) show "\<exists>M \<ge> len. stored p co hs ag hits' M"
    by (intro exI [of _ M]) auto
qed (rule assms(3))

lemma group_ids:
  assumes "coordinated p specs co" and "ag \<in> set (attention_groups co)"
  shows "fst ag \<in> set specs" and "snd ag \<noteq> []" and "distinct (snd ag)" and "set (snd ag) \<subseteq> {..<length specs}"
    and "groups_ok (map int (snd ag))" and "\<And>g. g \<in> set (snd ag) \<Longrightarrow> specs ! g = fst ag"
proof -
  from assms have G: "groups_of specs (attention_groups co)" and n: "length specs \<le> 2 ^ 32" by (auto simp: coordinated_def)
  with assms(2) show spec: "fst ag \<in> set specs" by (auto simp: groups_of_def)
  have ids: "snd ag = filter (\<lambda>g. specs ! g = fst ag) [0..<length specs]"
    using G assms(2) by (auto simp: groups_of_def split_beta)
  from spec obtain g where "g < length specs" "specs ! g = fst ag" by (auto simp: in_set_conv_nth)
  with ids show "snd ag \<noteq> []" by (auto simp: filter_empty_conv)
  with ids n show "distinct (snd ag)" "set (snd ag) \<subseteq> {..<length specs}" "groups_ok (map int (snd ag))"
    "\<And>g. g \<in> set (snd ag) \<Longrightarrow> specs ! g = fst ag"
    by (auto simp: groups_ok_def)
qed

lemma hybrid_group_step:
  assumes co: "coordinated p specs co" and ag: "ag \<in> set (attention_groups co)" and "length hits = length specs"
    and hashes: "cur div hash_size co \<le> length hs" and reuse: "reusable p co hs ag hits cur"
  shows "\<exists>cur' hits'. hybrid_group p co hs ag (cur, hits) = Inr (cur', hits') \<and> cur' \<le> cur \<and> accepted p co hs ag cur' \<and>
    (\<forall>len \<le> cur. accepted p co hs ag len \<longrightarrow> len \<le> cur') \<and> length hits' = length specs \<and>
    (\<forall>g. g \<notin> set (snd ag) \<longrightarrow> hits' ! g = hits ! g) \<and>
    (\<exists>M \<ge> cur'. stored p co hs ag hits' M \<and> (\<not> is_full_attention (fst ag) \<longrightarrow> M = cur'))"
proof -
  obtain spec ids where sp: "ag = (spec, ids)" by (cases ag)
  note ids = group_ids [OF co ag, unfolded sp fst_conv snd_conv]
  from co ids(1) have spec: "searchable spec" "hash_size co dvd block_size spec" "block_size spec dvd lcm_block_size co"
    and sizes: "0 < hash_size co" "0 < lcm_block_size co" "\<not> use_eagle co" by (auto simp: coordinated_def)
  from co obtain held where held: "pool_ok p held" by (auto simp: coordinated_def)
  show ?thesis
  proof (cases "is_full_attention spec \<and> hits ! hd ids \<noteq> None")
    case True
    with reuse sp obtain M where M: "cur \<le> M" "stored p co hs ag hits M" "lcm_block_size co dvd cur"
      by (auto simp: reusable_def)
    have "cur div block_size spec * block_size spec = cur" using dvd_trans [OF spec(3) M(3)] by simp
    with True sp have "hybrid_group p co hs ag (cur, hits) = Inr (cur, hits)" by (simp add: hybrid_group_def)
    moreover have "accepted p co hs ag cur"
      using accepted_full_down [of ag p co hs M cur] True sp M by (simp add: stored_def)
    ultimately show ?thesis using M assms(3) True sp by (intro exI [of _ cur] exI [of _ hits]) auto
  next
    case False
    from group_search [OF held ids(5) spec(1) sizes(1) spec(2,3) sizes(2) hashes] obtain spec_hashes rows where
      run: "hashes_for (hash_size co) spec hs = Inr spec_hashes"
      "find_longest_cache_hit p spec False (lcm_block_size co) 1 (map int ids) spec_hashes cur = Inr rows" and
      len: "length rows * block_size spec \<le> cur" "accepted p co hs ag (length rows * block_size spec)"
      "\<forall>len \<le> cur. accepted p co hs ag len \<longrightarrow> len \<le> length rows * block_size spec" and
      cols: "columns (length ids) rows = map (\<lambda>g. hit_column p (hash_size co) hs spec g (length rows * block_size spec)) ids"
      unfolding Let_def accepted_def sp fst_conv snd_conv by blast
    let ?hits = "store_hits ids (columns (length ids) rows) hits"
    note hits = store_hits_nth [of "columns (length ids) rows" ids hits]
    have "hybrid_group p co hs ag (cur, hits) = Inr (length rows * block_size spec, ?hits)"
      unfolding sp using False run sizes(3) by (auto simp: hybrid_group_def)
    moreover have "stored p co hs ag ?hits (length rows * block_size spec)"
      unfolding stored_def sp fst_conv snd_conv
    proof (intro conjI ballI)
      show "accepted p co hs (spec, ids) (length rows * block_size spec)" using len(2) sp by simp
      fix g assume "g \<in> set ids"
      then obtain j where "j < length ids" "g = ids ! j" by (auto simp: in_set_conv_nth)
      then show "?hits ! g = Some (hit_column p (hash_size co) hs spec g (length rows * block_size spec))"
        using hits(2) ids(3,4) assms(3) by (simp add: cols)
    qed
    ultimately show ?thesis using len hits(1,3) ids(3,4) assms(3) sp cols
      by (intro exI [of _ "length rows * block_size spec"] exI [of _ ?hits]) auto
  qed
qed

lemma hybrid_round:
  assumes co: "coordinated p specs co" and "set groups \<subseteq> set (attention_groups co)" and "distinct (map fst groups)"
    and "length hits = length specs" and "cur div hash_size co \<le> length hs"
    and "\<forall>ag \<in> set groups. reusable p co hs ag hits cur" and "groups \<noteq> []"
  shows "\<exists>cur' hits'. fold_res (hybrid_group p co hs) groups (cur, hits) = Inr (cur', hits') \<and> cur' \<le> cur \<and>
    lcm_block_size co dvd cur' \<and> (\<forall>len \<le> cur. (\<forall>ag \<in> set groups. accepted p co hs ag len) \<longrightarrow> len \<le> cur') \<and>
    length hits' = length specs \<and> (\<forall>g. g \<notin> (\<Union>ag \<in> set groups. set (snd ag)) \<longrightarrow> hits' ! g = hits ! g) \<and>
    (\<forall>ag \<in> set groups. \<exists>M \<ge> cur'. stored p co hs ag hits' M \<and>
      (\<not> is_full_attention (fst ag) \<longrightarrow> M \<le> cur \<and> (ag = last groups \<longrightarrow> M = cur')))"
  using assms(2-)
proof (induction groups arbitrary: cur hits)
  case (Cons ag groups)
  from hybrid_group_step [OF co, of ag hits cur hs] Cons.prems obtain c1 hits1 where
    step: "hybrid_group p co hs ag (cur, hits) = Inr (c1, hits1)" "c1 \<le> cur" "accepted p co hs ag c1"
    "\<forall>len \<le> cur. accepted p co hs ag len \<longrightarrow> len \<le> c1" "length hits1 = length specs"
    "\<forall>g. g \<notin> set (snd ag) \<longrightarrow> hits1 ! g = hits ! g"
    and M: "\<exists>M \<ge> c1. stored p co hs ag hits1 M \<and> (\<not> is_full_attention (fst ag) \<longrightarrow> M = c1)" by auto
  show ?case
  proof (cases "groups = []")
    case True
    with step M show ?thesis by (auto simp: accepted_def)
  next
    case False
    have apart: "g \<notin> set (snd ag')" if "ag' \<in> set groups" "g \<in> set (snd ag)" for ag' g
      using group_ids(6) [OF co, of ag g] group_ids(6) [OF co, of ag' g] that Cons.prems(1,2) by (auto simp: image_iff)
    have "reusable p co hs ag' hits1 c1" if "ag' \<in> set groups" for ag'
    proof -
      have same: "hits1 ! g = hits ! g" if "g \<in> set (snd ag')" for g
        using apart [OF \<open>ag' \<in> set groups\<close>] step(6) that by blast
      have "reusable p co hs ag' hits cur" "snd ag' \<noteq> []" using Cons.prems(1,5) group_ids(2) [OF co, of ag'] that by auto
      with reusable_mono [of p co hs ag' hits cur c1 hits1] step(2,3) same show ?thesis by (auto simp: accepted_def)
    qed
    with Cons.IH [of hits1 c1] Cons.prems step(2,5) False div_le_mono [OF step(2), of "hash_size co"] obtain cur' hits' where
      rest: "fold_res (hybrid_group p co hs) groups (c1, hits1) = Inr (cur', hits')" "cur' \<le> c1" "lcm_block_size co dvd cur'"
      "\<forall>len \<le> c1. (\<forall>ag \<in> set groups. accepted p co hs ag len) \<longrightarrow> len \<le> cur'" "length hits' = length specs"
      "\<forall>g. g \<notin> (\<Union>ag \<in> set groups. set (snd ag)) \<longrightarrow> hits' ! g = hits1 ! g"
      "\<forall>ag \<in> set groups. \<exists>M \<ge> cur'. stored p co hs ag hits' M \<and>
        (\<not> is_full_attention (fst ag) \<longrightarrow> M \<le> c1 \<and> (ag = last groups \<longrightarrow> M = cur'))" by auto
    have "\<exists>M \<ge> cur'. stored p co hs ag hits' M \<and> (\<not> is_full_attention (fst ag) \<longrightarrow> M \<le> cur)"
    proof -
      have "hits' ! g = hits1 ! g" if "g \<in> set (snd ag)" for g using rest(6) apart that by blast
      with M step(2) rest(2) show ?thesis by (meson order_trans order_refl stored_cong)
    qed
    moreover have "ag \<noteq> last groups" using Cons.prems(2) False last_in_set by fastforce
    ultimately have "\<forall>ag' \<in> set (ag # groups). \<exists>M \<ge> cur'. stored p co hs ag' hits' M \<and>
        (\<not> is_full_attention (fst ag') \<longrightarrow> M \<le> cur \<and> (ag' = last (ag # groups) \<longrightarrow> M = cur'))"
      using rest(7) step(2) False by (auto intro: order_trans)
    moreover have "\<forall>g. g \<notin> (\<Union>ag \<in> set (ag # groups). set (snd ag)) \<longrightarrow> hits' ! g = hits ! g"
      using rest(6) step(6) by auto
    moreover have "len \<le> cur'" if "len \<le> cur" "\<forall>ag \<in> set (ag # groups). accepted p co hs ag len" for len
      using that step(4) rest(4) by simp
    ultimately show ?thesis using step(1,2) rest(1-3,5) by (intro exI [of _ cur'] exI [of _ hits']) simp
  qed
qed simp

section \<open>The fixed point\<close>

lemma hybrid_loop_fixed_point:
  assumes co: "coordinated p specs co" and "length hits = length specs"
    and "hit div hash_size co \<le> length hs" and "\<forall>ag \<in> set (attention_groups co). reusable p co hs ag hits hit"
  shows "\<exists>len hits'. hybrid_loop p co hs hit hits = Inr (len, hits') \<and> len \<le> hit \<and>
    (\<forall>ag \<in> set (attention_groups co). accepted p co hs ag len) \<and>
    (\<forall>len' \<le> hit. (\<forall>ag \<in> set (attention_groups co). accepted p co hs ag len') \<longrightarrow> len' \<le> len) \<and>
    length hits' = length specs \<and>
    (\<forall>ag \<in> set (attention_groups co). \<exists>M \<ge> len. stored p co hs ag hits' M \<and> (\<not> is_full_attention (fst ag) \<longrightarrow> M = len))"
  using assms(2-)
proof (induction hit arbitrary: hits rule: less_induct)
  case (less hit)
  let ?AG = "attention_groups co"
  from co have AG: "?AG \<noteq> []" "distinct (map fst ?AG)" by (auto simp: coordinated_def groups_of_def)
  from hybrid_round [OF co order_refl AG(2) less.prems AG(1)] obtain cur hits' where
    round: "fold_res (hybrid_group p co hs) ?AG (hit, hits) = Inr (cur, hits')" "cur \<le> hit" "lcm_block_size co dvd cur"
    "\<forall>len \<le> hit. (\<forall>ag \<in> set ?AG. accepted p co hs ag len) \<longrightarrow> len \<le> cur" "length hits' = length specs"
    "\<forall>ag \<in> set ?AG. \<exists>M \<ge> cur. stored p co hs ag hits' M \<and>
      (\<not> is_full_attention (fst ag) \<longrightarrow> M \<le> hit \<and> (ag = last ?AG \<longrightarrow> M = cur))" by blast
  show ?case
  proof (cases "cur = hit \<or> is_simple_hybrid co")
    case True
    have fit: "\<exists>M \<ge> cur. stored p co hs ag hits' M \<and> (\<not> is_full_attention (fst ag) \<longrightarrow> M = cur)" if ag: "ag \<in> set ?AG" for ag
    proof -
      from round(6) ag obtain M where
        M: "cur \<le> M" "stored p co hs ag hits' M" "\<not> is_full_attention (fst ag) \<longrightarrow> M \<le> hit \<and> (ag = last ?AG \<longrightarrow> M = cur)" by blast
      have "ag = last ?AG" if "\<not> is_full_attention (fst ag)" "is_simple_hybrid co"
        using that ag by (auto simp: is_simple_hybrid_def length_Suc_conv numeral_2_eq_2)
      with M True show ?thesis by (intro exI [of _ M]) auto
    qed
    have acc: "accepted p co hs ag cur" if ag: "ag \<in> set ?AG" for ag
      using fit [OF ag] accepted_full_down [of ag p co hs _ cur] round(3) by (auto simp: stored_def)
    have "hybrid_loop p co hs hit hits = Inr (cur, hits')" using True round(1,2) by (subst hybrid_loop.simps) auto
    with fit acc round(2,4,5) show ?thesis by blast
  next
    case False
    with round(2) have smaller: "cur < hit" by simp
    have "reusable p co hs ag hits' cur" if "ag \<in> set ?AG" for ag
      using round(3,6) that by (auto simp: reusable_def)
    with less.IH [OF smaller, of hits'] less.prems(2) smaller round(5) div_le_mono [of cur hit "hash_size co"] obtain len hits'' where
      rest: "hybrid_loop p co hs cur hits' = Inr (len, hits'')" "len \<le> cur"
      "\<forall>ag \<in> set ?AG. accepted p co hs ag len"
      "\<forall>len' \<le> cur. (\<forall>ag \<in> set ?AG. accepted p co hs ag len') \<longrightarrow> len' \<le> len" "length hits'' = length specs"
      "\<forall>ag \<in> set ?AG. \<exists>M \<ge> len. stored p co hs ag hits'' M \<and> (\<not> is_full_attention (fst ag) \<longrightarrow> M = len)" by auto
    have "len' \<le> len" if "len' \<le> hit" "\<forall>ag \<in> set ?AG. accepted p co hs ag len'" for len'
      using round(4) rest(4) that by blast
    moreover have "hybrid_loop p co hs hit hits = Inr (len, hits'')"
      using False round(1) smaller rest(1) by (subst hybrid_loop.simps) simp
    ultimately show ?thesis using rest smaller by auto
  qed
qed

lemma fold_update_nth:
  "distinct ids \<Longrightarrow> set ids \<subseteq> {..<length hits} \<Longrightarrow>
     length (fold (\<lambda>i hits. hits[i := f (hits ! i)]) ids hits) = length hits \<and>
     fold (\<lambda>i hits. hits[i := f (hits ! i)]) ids hits ! g = (if g \<in> set ids then f (hits ! g) else hits ! g)"
  by (induction ids arbitrary: hits) (auto simp: nth_list_update)

lemma truncate_full_nth:
  assumes co: "coordinated p specs co" and "length hits = length specs" and "ag \<in> set (attention_groups co)" and "g \<in> set (snd ag)"
    and M: "len \<le> M" "stored p co hs ag hits M" "\<not> is_full_attention (fst ag) \<longrightarrow> M = len"
  shows "length (truncate_full co len hits) = length specs"
    and "truncate_full co len hits ! g = Some (hit_column p (hash_size co) hs (fst ag) g len)"
proof -
  obtain spec ids where hd: "hd (attention_groups co) = (spec, ids)" by (cases "hd (attention_groups co)")
  have "hd (attention_groups co) \<in> set (attention_groups co)" using assms(3) by (cases "attention_groups co") auto
  note first = group_ids [OF co this, unfolded hd fst_conv snd_conv]
  have cut: "length (truncate_full co len hits) = length specs \<and>
      truncate_full co len hits ! g = (if is_full_attention spec \<and> g \<in> set ids
        then map_option (take (len div block_size spec)) (hits ! g) else hits ! g)"
    using fold_update_nth [of ids hits "map_option (take (len div block_size spec))" g] first(3,4) assms(2)
    by (simp add: truncate_full_def hd)
  then show "length (truncate_full co len hits) = length specs" by simp
  have col: "hits ! g = Some (hit_column p (hash_size co) hs (fst ag) g M)"
    and use: "usable p (hash_size co) hs (fst ag) g M" using M(2) assms(4) by (auto simp: stored_def accepted_def)
  show "truncate_full co len hits ! g = Some (hit_column p (hash_size co) hs (fst ag) g len)"
  proof (cases "is_full_attention (fst ag)")
    case True
    with co assms(3) hd have "ag = (spec, ids)" by (auto simp: coordinated_def)
    with True cut col use M(1) assms(4) usable_full_down(2) [of spec p "hash_size co" hs g M len] show ?thesis by simp
  next
    case False
    have "g \<notin> set ids" if "is_full_attention spec"
      using group_ids(6) [OF co assms(3,4)] first(6) [of g] False that by auto
    with False cut col M(3) show ?thesis by auto
  qed
qed

lemma all_groups:
  assumes "coordinated p specs co"
  shows "(\<forall>ag \<in> set (attention_groups co). accepted p co hs ag len) \<longleftrightarrow>
    lcm_block_size co dvd len \<and> (\<forall>g < length specs. usable p (hash_size co) hs (specs ! g) g len)"
    (is "?L \<longleftrightarrow> ?R")
    and "g < length specs \<Longrightarrow> \<exists>ag \<in> set (attention_groups co). fst ag = specs ! g \<and> g \<in> set (snd ag)"
proof -
  have find: "\<exists>ag \<in> set (attention_groups co). fst ag = specs ! g \<and> g \<in> set (snd ag)" if g: "g < length specs" for g
  proof -
    from assms have G: "groups_of specs (attention_groups co)" by (simp add: coordinated_def)
    have "specs ! g \<in> fst ` set (attention_groups co)" using G nth_mem [OF g] by (simp add: groups_of_def)
    then obtain ag where ag: "ag \<in> set (attention_groups co)" "fst ag = specs ! g" by auto
    with G have "snd ag = filter (\<lambda>i. specs ! i = specs ! g) [0..<length specs]" by (auto simp: groups_of_def split_beta)
    with ag g show ?thesis by auto
  qed
  then show "g < length specs \<Longrightarrow> \<exists>ag \<in> set (attention_groups co). fst ag = specs ! g \<and> g \<in> set (snd ag)" .
  show "?L \<longleftrightarrow> ?R"
  proof
    assume acc: ?L
    have "specs \<noteq> []" using assms by (simp add: coordinated_def)
    with acc find show ?R by (metis accepted_def length_greater_0_conv)
  next
    assume ?R
    then show ?L
    proof (intro ballI)
      fix ag assume "?R" and ag: "ag \<in> set (attention_groups co)"
      moreover have "usable p (hash_size co) hs (fst ag) g len" if "g \<in> set (snd ag)" for g
        using \<open>?R\<close> group_ids(4,6) [OF assms ag] that by (metis lessThan_iff subsetD)
      ultimately show "accepted p co hs ag len" by (simp add: accepted_def)
    qed
  qed
qed

lemma hybrid_cache_hit_greatest:
  assumes co: "coordinated p specs co" and "max_length div hash_size co \<le> length hs"
  defines "common len \<equiv> lcm_block_size co dvd len \<and> (\<forall>g < length specs. usable p (hash_size co) hs (specs ! g) g len)"
  shows "\<exists>len. hybrid_cache_hit p co hs max_length =
      Inr (map (\<lambda>g. hit_column p (hash_size co) hs (specs ! g) g len) [0..<length specs], len) \<and>
    len \<le> max_length \<and> common len \<and> (\<forall>len' \<le> max_length. common len' \<longrightarrow> len' \<le> len)"
proof -
  let ?none = "replicate (num_groups co) None"
  have n: "num_groups co = length specs" using co by (simp add: coordinated_def)
  have "reusable p co hs ag ?none max_length" if "ag \<in> set (attention_groups co)" for ag
    using group_ids(2,4) [OF co that] n by (auto simp: reusable_def dest!: hd_in_set)
  with hybrid_loop_fixed_point [OF co, of ?none max_length hs] assms(2) n obtain len hits where
    loop: "hybrid_loop p co hs max_length ?none = Inr (len, hits)" "len \<le> max_length"
    "\<forall>ag \<in> set (attention_groups co). accepted p co hs ag len"
    "\<forall>len' \<le> max_length. (\<forall>ag \<in> set (attention_groups co). accepted p co hs ag len') \<longrightarrow> len' \<le> len"
    "length hits = length specs"
    "\<forall>ag \<in> set (attention_groups co). \<exists>M \<ge> len. stored p co hs ag hits M \<and> (\<not> is_full_attention (fst ag) \<longrightarrow> M = len)"
    by auto
  have cut: "length (truncate_full co len hits) = length specs \<and>
      truncate_full co len hits ! g = Some (hit_column p (hash_size co) hs (specs ! g) g len)" if g: "g < length specs" for g
  proof -
    from all_groups(2) [OF co g] obtain ag where ag: "ag \<in> set (attention_groups co)" "fst ag = specs ! g" "g \<in> set (snd ag)" by blast
    with loop(6) obtain M where "len \<le> M" "stored p co hs ag hits M" "\<not> is_full_attention (fst ag) \<longrightarrow> M = len" by blast
    with truncate_full_nth [OF co loop(5) ag(1,3) this] ag(2) show ?thesis by simp
  qed
  have "length (truncate_full co len hits) = length specs" using cut [of 0] co by (auto simp: coordinated_def)
  with cut have "map (\<lambda>h. case h of None \<Rightarrow> [] | Some bs \<Rightarrow> bs) (truncate_full co len hits) =
      map (\<lambda>g. hit_column p (hash_size co) hs (specs ! g) g len) [0..<length specs]"
    by (intro nth_equalityI) simp_all
  with loop(1) have "hybrid_cache_hit p co hs max_length =
      Inr (map (\<lambda>g. hit_column p (hash_size co) hs (specs ! g) g len) [0..<length specs], len)"
    by (simp add: hybrid_cache_hit_def)
  with loop(2-4) show ?thesis unfolding all_groups(1) [OF co] common_def [symmetric] by blast
qed

end
