(* ===== verification/KV_Cache_Correct.thy ===== *)
theory KV_Cache_Correct
  imports KV_Contracts Cache_Hybrid
begin

text \<open>
  The coordinator keeps its tables and the pool consistent: what it means that they agree, and that the calls of
  all managers \<open>allocate_slots\<close> and \<open>free\<close> are made of return, keep it and change the tables of one
  request only.
\<close>

section \<open>The invariant\<close>

definition all_held :: "KVCacheCoordinator \<Rightarrow> nat multiset" where
  "all_held c = sum_list (map held_in (single_type_managers c))"

definition coordinator_wf :: "KVCacheCoordinator \<Rightarrow> bool" where
  "coordinator_wf c \<longleftrightarrow> pool_ok (coordinator_pool c) (all_held c) \<and>
     (\<forall>m \<in> set (single_type_managers c). manager_wf (coordinator_pool c) (all_held c) m \<and> plain m \<and> kv_cache_group_id m < 2 ^ 32 \<and>
       (enable_caching (coordinator_pool c) \<longrightarrow> 0 < hash_block_size (coordinator_pool c) \<and>
         hash_block_size (coordinator_pool c) dvd manager_block_size m))"

definition kv_wf :: "KVCacheManager \<Rightarrow> bool" where
  "kv_wf kv \<longleftrightarrow> coordinator_wf (coordinator kv) \<and> enable_caching (pool_of kv) = kv_enable_caching kv"

text \<open>The table of a request in group \<open>g\<close>\<close>

definition table :: "KVCacheCoordinator \<Rightarrow> nat \<Rightarrow> string \<Rightarrow> block_ref list" where
  "table c g rid = blocks_of (single_type_managers c ! g) rid"

abbreviation groups :: "KVCacheCoordinator \<Rightarrow> nat" where
  "groups c \<equiv> length (single_type_managers c)"

text \<open>The coordinator after calls for one request: same groups, the tables of the others unchanged\<close>

definition only_request :: "string \<Rightarrow> KVCacheCoordinator \<Rightarrow> KVCacheCoordinator \<Rightarrow> bool" where
  "only_request rid c c' \<longleftrightarrow> groups c' = groups c \<and> cache_search c' = cache_search c \<and>
     enable_caching (coordinator_pool c') = enable_caching (coordinator_pool c) \<and>
     hash_block_size (coordinator_pool c') = hash_block_size (coordinator_pool c) \<and>
     (\<forall>g < groups c. other_requests_kept rid (single_type_managers c ! g) (single_type_managers c' ! g))"

lemma other_requests_kept_trans:
  "other_requests_kept rid m m' \<Longrightarrow> other_requests_kept rid m' m'' \<Longrightarrow> other_requests_kept rid m m''"
  by (simp add: other_requests_kept_def same_manager_def)

lemma only_request_trans: "only_request rid c c' \<Longrightarrow> only_request rid c' c'' \<Longrightarrow> only_request rid c c''"
  by (auto simp: only_request_def intro: other_requests_kept_trans)

lemma only_request_refl [simp]: "only_request rid c c"
  by (simp add: only_request_def other_requests_kept_def same_manager_def)

lemma plain_same: "same_manager m m' \<Longrightarrow> plain m' = plain m \<and> skipped_blocks m' = skipped_blocks m \<and> bsize m' = bsize m"
  by (auto simp: same_manager_def plain_def skipped_blocks_def skipped_tokens_def bsize_def fun_eq_iff)

text \<open>What a call of all managers leaves well-formed\<close>

lemma coordinator_wf_call:
  assumes "coordinator_wf c" and "length ms = groups c" and "pool_ok p (sum_list (map held_in ms))"
    and "\<forall>m \<in> set ms. manager_wf p (sum_list (map held_in ms)) m"
    and keep: "keeps (coordinator_pool c) (all_held c) p (sum_list (map held_in ms)) own"
    and rest: "\<forall>g < groups c. other_requests_kept rid (single_type_managers c ! g) (ms ! g)"
  shows "coordinator_wf (c\<lparr>single_type_managers := ms, coordinator_pool := p\<rparr>) \<and>
    only_request rid c (c\<lparr>single_type_managers := ms, coordinator_pool := p\<rparr>)"
proof -
  have "plain m \<and> kv_cache_group_id m < 2 ^ 32 \<and> (enable_caching p \<longrightarrow> 0 < hash_block_size p \<and> hash_block_size p dvd manager_block_size m)"
    if m: "m \<in> set ms" for m
  proof -
    from m assms(2) obtain g where g: "g < groups c" "m = ms ! g" by (auto simp: in_set_conv_nth)
    with rest have same: "same_manager (single_type_managers c ! g) m" by (simp add: other_requests_kept_def)
    have "single_type_managers c ! g \<in> set (single_type_managers c)" using g by simp
    with assms(1) keep plain_same [OF same] same show ?thesis
      by (auto simp: coordinator_wf_def keeps_def same_manager_def)
  qed
  with assms show ?thesis by (auto simp: coordinator_wf_def only_request_def keeps_def all_held_def)
qed

text \<open>A request without blocks, as a new one or one that was freed\<close>

definition new_request :: "string \<Rightarrow> KVCacheCoordinator \<Rightarrow> bool" where
  "new_request rid c \<longleftrightarrow> (\<forall>m \<in> set (single_type_managers c). blocks_of m rid = [] \<and> map_of (num_cached_block m) rid = None)"

section \<open>Freeing a request\<close>

lemma coordinator_free_ok:
  assumes wf: "coordinator_wf c"
  shows "\<exists>c'. coordinator_free rid c = Inr c' \<and> coordinator_wf c' \<and> only_request rid c c' \<and> new_request rid c'"
proof -
  let ?ms = "single_type_managers c"
  from wf free_call.each_manager_contract [where s = "coordinator_pool c" and ms = ?ms and others = "{#}" and i = 0 and rid = rid] obtain xs ms p where
    run: "each_manager (\<lambda>_ m p. rbind (manager_free rid m p) (\<lambda>(m', p'). Inr ((), m', p'))) 0 ?ms (coordinator_pool c) = Inr (xs, ms, p)"
    "length ms = length ?ms" "pool_ok p (sum_list (map held_in ms))" "\<forall>m \<in> set ms. manager_wf p (sum_list (map held_in ms)) m"
    "keeps (coordinator_pool c) (all_held c) p (sum_list (map held_in ms)) (all_held c)"
    and post: "\<forall>j < length ?ms. other_requests_kept rid (?ms ! j) (ms ! j) \<and> blocks_of (ms ! j) rid = [] \<and> map_of (num_cached_block (ms ! j)) rid = None"
    by (auto simp: coordinator_wf_def all_held_def free_nonneg)
  have "new_request rid (c\<lparr>single_type_managers := ms, coordinator_pool := p\<rparr>)"
    using post run(2) by (auto simp: new_request_def in_set_conv_nth)
  with coordinator_wf_call [OF wf run(2-5)] post run(1) show ?thesis by (auto simp: coordinator_free_def)
qed

section \<open>The steps of an allocation\<close>

lemma coordinator_skip_ok:
  assumes wf: "coordinator_wf c"
  shows "\<exists>c'. coordinator_remove_skipped rid computed c = Inr c' \<and> coordinator_wf c' \<and> only_request rid c c' \<and>
    get_num_free_blocks (coordinator_pool c') \<ge> get_num_free_blocks (coordinator_pool c) \<and>
    (\<forall>bs. computed_ok (coordinator_pool c') bs \<longleftrightarrow> computed_ok (coordinator_pool c) bs) \<and>
    (\<forall>g < groups c. num_cached_block (single_type_managers c' ! g) = num_cached_block (single_type_managers c ! g) \<and>
      length (table c' g rid) = length (table c g rid) \<and>
      (\<forall>i < length (table c g rid). table c' g rid ! i = table c g rid ! i \<or>
        table c' g rid ! i = Block 0 \<and> int i < skipped_blocks (single_type_managers c ! g) computed))"
proof -
  let ?ms = "single_type_managers c"
  from wf skip_call.each_manager_contract [where s = "coordinator_pool c" and ms = ?ms and others = "{#}" and i = 0 and rid = rid and computed = computed and
    ?p0.0 = "coordinator_pool c"]
  obtain xs ms p where
    run: "each_manager (\<lambda>_ m p. rbind (manager_remove_skipped rid computed m p) (\<lambda>(m', p'). Inr ((), m', p'))) 0 ?ms (coordinator_pool c) = Inr (xs, ms, p)"
    "length ms = length ?ms" "pool_ok p (sum_list (map held_in ms))" "\<forall>m \<in> set ms. manager_wf p (sum_list (map held_in ms)) m"
    "keeps (coordinator_pool c) (all_held c) p (sum_list (map held_in ms)) (all_held c)"
    "get_num_free_blocks p \<ge> get_num_free_blocks (coordinator_pool c)"
    "num_gpu_blocks p = num_gpu_blocks (coordinator_pool c)" "\<forall>b. hash_of p b = hash_of (coordinator_pool c) b"
    and post: "\<forall>j < length ?ms. other_requests_kept rid (?ms ! j) (ms ! j) \<and> num_cached_block (ms ! j) = num_cached_block (?ms ! j) \<and>
      length (blocks_of (ms ! j) rid) = length (blocks_of (?ms ! j) rid) \<and>
      (\<forall>i < length (blocks_of (?ms ! j) rid). blocks_of (ms ! j) rid ! i = blocks_of (?ms ! j) rid ! i \<or>
        blocks_of (ms ! j) rid ! i = Block 0 \<and> int i < skipped_blocks (?ms ! j) computed)"
    by (auto simp: coordinator_wf_def all_held_def free_nonneg)
  let ?c = "c\<lparr>single_type_managers := ms, coordinator_pool := p\<rparr>"
  have "coordinator_remove_skipped rid computed c = Inr ?c" using run(1) by (simp add: coordinator_remove_skipped_def)
  moreover have "coordinator_wf ?c \<and> only_request rid c ?c" using coordinator_wf_call [OF wf run(2-5)] post by blast
  moreover have "computed_ok p bs \<longleftrightarrow> computed_ok (coordinator_pool c) bs" for bs
    using run(7,8) by (simp add: computed_ok_def blocks_wf_def)
  ultimately show ?thesis using run(6) post by (intro exI [of _ ?c]) (simp add: table_def)
qed

lemma each_manager_pure:
  assumes "\<And>j. j < length ms \<Longrightarrow> f (i + j) (ms ! j) s = Inr (g j, ms ! j, s)"
  shows "each_manager f i ms s = Inr (map g [0..<length ms], ms, s)"
  using assms
proof (induction ms arbitrary: i g)
  case (Cons m ms)
  have "f i m s = Inr (g 0, m, s)" using Cons.prems [of 0] by simp
  moreover have "each_manager f (Suc i) ms s = Inr (map (\<lambda>j. g (Suc j)) [0..<length ms], ms, s)"
    by (rule Cons.IH) (use Cons.prems in force)
  ultimately show ?case by (simp add: upt_conv_Cons map_Suc_upt [symmetric] comp_def del: upt_Suc)
qed simp

text \<open>The blocks a request of one group asks for: the missing ones and the hits nobody holds\<close>

definition demand :: "nat set \<Rightarrow> SingleTypeKVCacheManager \<Rightarrow> string \<Rightarrow> int \<Rightarrow> block_ref list \<Rightarrow> int \<Rightarrow> nat" where
  "demand S m rid slots bs computed =
     nat (cdiv slots (bsize m) - max (skipped_blocks m computed) (int (length bs) + int (length (blocks_of m rid)))) +
     unused S (kept_blocks m computed bs)"

lemma blocks_to_allocate_new:
  assumes "pool_ok p held" and wf: "manager_wf p held m" "plain m" and "blocks_of m rid = []" and "map_of (num_cached_block m) rid = None"
    and "blocks_wf p bs" and "0 \<le> computed"
  shows "get_num_blocks_to_allocate m p rid slots bs computed main_slots = Inr (int (demand (set_mset held) m rid slots bs computed), m)"
proof -
  have pos: "0 < bsize m" using wf(1) by (simp add: manager_wf_def bsize_def)
  have base: "get_num_blocks_to_allocate m p rid slots bs computed main_slots =
      rbind (base_blocks_to_allocate m p rid slots bs computed) (\<lambda>n. Inr (n, m))"
    using wf(2) by (auto simp: get_num_blocks_to_allocate_def plain_def split: attention_type.splits)
  have skip: "skipped_tokens m computed div bsize m = skipped_blocks m computed" by (simp add: skipped_blocks_def)
  have "blocks_wf p (kept_blocks m computed bs)"
    using blocks_wf_append [of p "take (nat (skipped_blocks m computed)) bs" "drop (nat (skipped_blocks m computed)) bs"] assms(6)
    by (simp add: kept_blocks_def)
  from evictable_unused [OF assms(1) this] have
    "get_num_evictable_blocks p (drop (nat (skipped_blocks m computed)) bs) = int (unused (set_mset held) (kept_blocks m computed bs))"
    by (simp add: kept_blocks_def)
  moreover have "nat (max 0 k) = nat k" "max k 0 = int (nat k)" for k :: int by simp_all
  ultimately show ?thesis
    using assms(4,5) wf(2) pos unfolding base base_blocks_to_allocate_def
    by (simp add: skip demand_def Let_def)
qed

lemma blocks_to_allocate_running:
  assumes wf: "manager_wf p held m" "plain m" and "0 \<le> computed" and "computed \<le> int (length (blocks_of m rid)) * bsize m"
  shows "get_num_blocks_to_allocate m p rid slots [] computed main_slots = Inr (int (missing_blocks m rid slots), m)"
proof -
  have pos: "0 < bsize m" using wf(1) by (simp add: manager_wf_def bsize_def)
  have base: "get_num_blocks_to_allocate m p rid slots [] computed main_slots =
      rbind (base_blocks_to_allocate m p rid slots [] computed) (\<lambda>n. Inr (n, m))"
    using wf(2) by (auto simp: get_num_blocks_to_allocate_def plain_def split: attention_type.splits)
  have "skipped_tokens m computed div bsize m \<le> int (length (blocks_of m rid)) * bsize m div bsize m"
    using skipped_tokens_bounds [OF wf(2) assms(3)] assms(4) pos by (intro zdiv_mono1) simp_all
  then have "skipped_tokens m computed div bsize m \<le> int (length (blocks_of m rid))" using pos by simp
  then show ?thesis
    using wf(2) pos unfolding base base_blocks_to_allocate_def
    by (simp add: missing_blocks_def get_num_evictable_blocks_def Let_def max_def)
qed

lemma coordinator_demand:
  assumes "\<And>g. g < groups c \<Longrightarrow> plain (single_type_managers c ! g) \<and> g < length computed \<and>
      get_num_blocks_to_allocate (single_type_managers c ! g) (coordinator_pool c) rid slots (computed ! g) total_tokens main_slots =
        Inr (int (f g), single_type_managers c ! g)"
  shows "coordinator_blocks_to_allocate rid slots computed enc total_tokens main_slots c = Inr (int (\<Sum>g<groups c. f g), c)"
proof -
  have "each_manager (\<lambda>i m p.
       if kind m = CrossAttentionSpec
       then rbind (get_num_blocks_to_allocate m p rid enc [] 0 enc) (\<lambda>(n, m'). Inr (n, m', p))
       else rbind (py_nth computed (int i)) (\<lambda>bs.
            rbind (get_num_blocks_to_allocate m p rid slots bs total_tokens main_slots) (\<lambda>(n, m'). Inr (n, m', p))))
       0 (single_type_managers c) (coordinator_pool c) =
     Inr (map (\<lambda>g. int (f g)) [0..<groups c], single_type_managers c, coordinator_pool c)"
  proof (rule each_manager_pure, goal_cases)
    case (1 j)
    then have "kind (single_type_managers c ! j) \<noteq> CrossAttentionSpec" using assms [of j] by (auto simp: plain_def)
    with assms [OF 1] show ?case by (simp add: py_nth_of_nat)
  qed
  then show ?thesis
    by (simp add: coordinator_blocks_to_allocate_def sum_list_distinct_conv_sum_set atLeast0LessThan)
qed

lemma coordinator_hit_ok:
  fixes num_local :: int
  assumes wf: "coordinator_wf c" and new: "new_request rid c" and "length computed = groups c"
    and hits: "\<forall>bs \<in> set computed. computed_ok (coordinator_pool c) bs \<and> (enable_caching (coordinator_pool c) \<or> bs = [])"
  defines "used \<equiv> int (\<Sum>g<groups c. unused (set_mset (all_held c)) (kept_blocks (single_type_managers c ! g) num_local (computed ! g)))"
  assumes room: "used \<le> get_num_free_blocks (coordinator_pool c)"
  shows "\<exists>c'. coordinator_add_computed ui rid computed num_local 0 c = Inr c' \<and> coordinator_wf c' \<and> only_request rid c c' \<and>
    get_num_free_blocks (coordinator_pool c') \<ge> get_num_free_blocks (coordinator_pool c) - used \<and>
    (\<forall>g < groups c. table c' g rid = replicate (nat (skipped_blocks (single_type_managers c ! g) num_local)) (Block 0) @
      kept_blocks (single_type_managers c ! g) num_local (computed ! g))"
proof -
  let ?ms = "single_type_managers c" and ?p = "coordinator_pool c" and ?S = "set_mset (all_held c)"
  let ?call = "\<lambda>i m p. rbind (py_nth computed (int i)) (\<lambda>bs.
     rbind (allocate_new_computed_blocks ui rid bs num_local 0 m p) (\<lambda>(m', p'). Inr ((), m', p')))"
  from wf have ok: "pool_ok ?p (sum_list (map held_in ?ms) + {#})" "\<forall>m \<in> set ?ms. manager_wf ?p (sum_list (map held_in ?ms) + {#}) m"
    by (simp_all add: coordinator_wf_def all_held_def)
  have env: "?S \<subseteq> set_mset (sum_list (map held_in ?ms) + {#}) \<and> (\<forall>bs \<in> set computed. computed_ok ?p bs)"
    using hits by (simp add: all_held_def)
  have pre: "\<forall>j < length ?ms. plain (?ms ! j) \<and> 0 + j < length computed \<and> blocks_of (?ms ! j) rid = [] \<and>
      map_of (num_cached_block (?ms ! j)) rid = None \<and> (manager_caching (?ms ! j) \<or> computed ! (0 + j) = [])"
  proof (intro allI impI)
    fix j assume j: "j < length ?ms"
    then have "?ms ! j \<in> set ?ms" "computed ! j \<in> set computed" using assms(3) by simp_all
    with wf new hits j assms(3) show "plain (?ms ! j) \<and> 0 + j < length computed \<and> blocks_of (?ms ! j) rid = [] \<and>
      map_of (num_cached_block (?ms ! j)) rid = None \<and> (manager_caching (?ms ! j) \<or> computed ! (0 + j) = [])"
      by (auto simp: coordinator_wf_def new_request_def manager_wf_def)
  qed
  from hit_call.each_manager_contract [OF ok(1) env ok(2) pre, where ui = ui and num_local = num_local] room obtain xs ms p where
    run: "each_manager ?call 0 ?ms ?p = Inr (xs, ms, p)"
    "length ms = length ?ms" "pool_ok p (sum_list (map held_in ms))" "\<forall>m \<in> set ms. manager_wf p (sum_list (map held_in ms)) m"
    "keeps ?p (all_held c) p (sum_list (map held_in ms)) (all_held c)" "get_num_free_blocks p \<ge> get_num_free_blocks ?p - used"
    and post: "\<forall>j < length ?ms. other_requests_kept rid (?ms ! j) (ms ! j) \<and>
      blocks_of (ms ! j) rid = replicate (nat (skipped_blocks (?ms ! j) num_local)) (Block 0) @ kept_blocks (?ms ! j) num_local (computed ! j)"
    unfolding used_def by (auto simp: all_held_def)
  let ?c = "c\<lparr>single_type_managers := ms, coordinator_pool := p\<rparr>"
  have "coordinator_add_computed ui rid computed num_local 0 c = Inr ?c" using run(1) by (simp add: coordinator_add_computed_def)
  moreover have "coordinator_wf ?c \<and> only_request rid c ?c" using coordinator_wf_call [OF wf run(2-5)] post by blast
  ultimately show ?thesis using run(6) post by (intro exI [of _ ?c]) (simp add: table_def)
qed

lemma coordinator_allocate_ok:
  fixes slots :: int and rid :: string
  assumes wf: "coordinator_wf c"
  defines "used \<equiv> int (\<Sum>g<groups c. missing_blocks (single_type_managers c ! g) rid slots)"
  assumes room: "used \<le> get_num_free_blocks (coordinator_pool c)"
  shows "\<exists>new c'. coordinator_allocate ui rid slots main_slots enc c = Inr (new, c') \<and> coordinator_wf c' \<and> only_request rid c c' \<and>
    length new = groups c \<and> (\<forall>g < groups c. length (new ! g) = missing_blocks (single_type_managers c ! g) rid slots \<and>
      table c' g rid = table c g rid @ new ! g)"
proof -
  let ?ms = "single_type_managers c" and ?p = "coordinator_pool c"
  let ?call = "\<lambda>_ m p. allocate_new_blocks ui rid (if kind m = CrossAttentionSpec then enc else slots) main_slots m p"
  from wf have ok: "pool_ok ?p (sum_list (map held_in ?ms) + {#})" "\<forall>m \<in> set ?ms. manager_wf ?p (sum_list (map held_in ?ms) + {#}) m"
    and pre: "\<forall>j < length ?ms. plain (?ms ! j)"
    by (simp_all add: coordinator_wf_def all_held_def)
  from allocate_call.each_manager_contract [OF ok(1) TrueI ok(2) pre, where rid = rid and slots = slots and i = 0 and ui = ui and
      main_slots = main_slots and encoder_tokens = enc] room obtain new ms p where
    run: "each_manager ?call 0 ?ms ?p = Inr (new, ms, p)"
    "length ms = length ?ms" "pool_ok p (sum_list (map held_in ms))" "\<forall>m \<in> set ms. manager_wf p (sum_list (map held_in ms)) m"
    "keeps ?p (all_held c) p (sum_list (map held_in ms)) (all_held c)" "length new = length ?ms"
    and post: "\<forall>j < length ?ms. other_requests_kept rid (?ms ! j) (ms ! j) \<and> length (new ! j) = missing_blocks (?ms ! j) rid slots \<and>
      blocks_of (ms ! j) rid = blocks_of (?ms ! j) rid @ new ! j"
    unfolding used_def by (auto simp: all_held_def)
  let ?c = "c\<lparr>single_type_managers := ms, coordinator_pool := p\<rparr>"
  have "coordinator_allocate ui rid slots main_slots enc c = Inr (new, ?c)" using run(1) by (simp add: coordinator_allocate_def)
  moreover have "coordinator_wf ?c \<and> only_request rid c ?c" using coordinator_wf_call [OF wf run(2-5)] post by blast
  ultimately show ?thesis using run(6) post by (intro exI [of _ new] exI [of _ ?c]) (simp add: table_def)
qed

lemma coordinator_cache_ok:
  fixes tokens :: int
  assumes wf: "coordinator_wf c" and "enable_caching (coordinator_pool c)"
    and req: "features_ok (mm_features r)" "memo_ok sha256 r"
    and "0 \<le> tokens" and "\<forall>g < groups c. tokens \<le> int (length (table c g (request_id r)) * manager_block_size (single_type_managers c ! g))"
    and "tokens div int (hash_block_size (coordinator_pool c)) \<le> int (length (block_hashes r))"
  shows "\<exists>r' c'. coordinator_cache_blocks sha256 ui r tokens c = Inr (r', c') \<and> coordinator_wf c' \<and> only_request (request_id r) c c' \<and>
    (\<exists>h. r' = r\<lparr>embeds_hashes := h\<rparr>) \<and> memo_ok sha256 r' \<and> (\<forall>g < groups c. table c' g (request_id r) = table c g (request_id r))"
proof -
  let ?ms = "single_type_managers c" and ?p = "coordinator_pool c" and ?rid = "request_id r"
  let ?call = "\<lambda>_ m (r, p). rbind (cache_blocks sha256 ui tokens r m p) (\<lambda>(r', m', p'). Inr ((), m', (r', p')))"
  from wf have ok: "pool_ok (snd (r, ?p)) (sum_list (map held_in ?ms) + {#})"
    "\<forall>m \<in> set ?ms. manager_wf (snd (r, ?p)) (sum_list (map held_in ?ms) + {#}) m" by (simp_all add: coordinator_wf_def all_held_def)
  have pre: "\<forall>j < length ?ms. plain (?ms ! j) \<and> features_ok (mm_features r) \<and> 0 < hash_block_size ?p \<and>
      hash_block_size ?p dvd manager_block_size (?ms ! j) \<and> kv_cache_group_id (?ms ! j) < 2 ^ 32 \<and> 0 \<le> tokens \<and>
      tokens \<le> int (length (blocks_of (?ms ! j) ?rid) * manager_block_size (?ms ! j)) \<and>
      tokens div int (hash_block_size ?p) \<le> int (length (block_hashes r))"
    using wf assms(2,5-7) req(1) unfolding coordinator_wf_def table_def by (metis nth_mem)
  have same: "\<exists>h. r = r\<lparr>embeds_hashes := h\<rparr>" by (rule exI [of _ "embeds_hashes r"]) simp
  have env: "(case (r, ?p) of (r', p) \<Rightarrow> \<lambda>_. (\<exists>h. r' = r\<lparr>embeds_hashes := h\<rparr>) \<and> memo_ok sha256 r' \<and> enable_caching p \<and>
      hash_block_size p = hash_block_size ?p) (sum_list (map held_in ?ms) + {#})"
    unfolding prod.case using req(2) assms(2) same by blast
  have zero: "int (\<Sum>j<length ?ms. 0) \<le> get_num_free_blocks (snd (r, ?p))" using free_nonneg [OF ok(1)] by simp
  from cache_call.each_manager_contract [OF ok(1) env ok(2) pre zero, where ui = ui and i = 0] obtain xs ms s where
    run: "each_manager ?call 0 ?ms (r, ?p) = Inr (xs, ms, s)" "length ms = length ?ms"
    "pool_ok (snd s) (sum_list (map held_in ms) + {#})" "\<forall>m \<in> set ms. manager_wf (snd s) (sum_list (map held_in ms) + {#}) m"
    "keeps (snd (r, ?p)) (sum_list (map held_in ?ms) + {#}) (snd s) (sum_list (map held_in ms) + {#}) (sum_list (map held_in ?ms))"
    and req': "(case s of (r', p) \<Rightarrow> \<lambda>_. (\<exists>h. r' = r\<lparr>embeds_hashes := h\<rparr>) \<and> memo_ok sha256 r' \<and> enable_caching p \<and>
      hash_block_size p = hash_block_size ?p) (sum_list (map held_in ms) + {#})"
    and post: "\<forall>j < length ?ms. other_requests_kept ?rid (?ms ! j) (ms ! j) \<and> blocks_of (ms ! j) ?rid = blocks_of (?ms ! j) ?rid"
    by blast
  obtain r' p where s: "s = (r', p)" by (cases s)
  note run = run [unfolded s snd_conv add_0_right all_held_def [symmetric]] and req' = req' [unfolded s prod.case]
  let ?c = "c\<lparr>single_type_managers := ms, coordinator_pool := p\<rparr>"
  have "coordinator_cache_blocks sha256 ui r tokens c = Inr (r', ?c)" using run(1) by (simp add: coordinator_cache_blocks_def)
  moreover have "coordinator_wf ?c \<and> only_request ?rid c ?c" using coordinator_wf_call [OF wf run(2-5)] post by blast
  moreover have "\<forall>g < groups c. table ?c g ?rid = table c g ?rid" using post by (simp add: table_def)
  ultimately show ?thesis using req' by blast
qed

end
