(* ===== verification/KV_Slots.thy ===== *)
theory KV_Slots
  imports KV_Cache_Correct
begin

text \<open>
  Slots for a request: what the scheduler passes to \<open>allocate_slots\<close>, and that the call returns slots for all
  tokens or reports that the pool has too few free blocks.
\<close>

section \<open>Calls of the scheduler\<close>

text \<open>
  A request without blocks comes with the blocks of its cache hit, one list per group, each of them as long as
  the hit; a request that runs has blocks for all tokens computed so far.
\<close>

definition hits_fit :: "KVCacheManager \<Rightarrow> int \<Rightarrow> KVCacheBlocks \<Rightarrow> bool" where
  "hits_fit kv hit_tokens hit \<longleftrightarrow>
     (let bss = kv_blocks (num_kv_cache_groups kv) hit
      in length bss = num_kv_cache_groups kv \<and>
         (\<forall>g < length bss. computed_ok (pool_of kv) (bss ! g) \<and> (kv_enable_caching kv \<or> bss ! g = []) \<and>
            int (length (bss ! g)) * bsize (single_type_managers (coordinator kv) ! g) = hit_tokens))"

definition slots_request ::
    "(bytes \<Rightarrow> bytes) \<Rightarrow> Request \<Rightarrow> int \<Rightarrow> int \<Rightarrow> KVCacheBlocks \<Rightarrow> int \<Rightarrow> KVCacheManager \<Rightarrow> bool" where
  "slots_request sha256 r num_new hit_tokens hit lookahead kv \<longleftrightarrow>
     0 < num_new \<and> 0 \<le> hit_tokens \<and> 0 \<le> lookahead \<and> features_ok (mm_features r) \<and> memo_ok sha256 r \<and>
     int (num_computed_tokens r) + hit_tokens \<le> max_model_len kv \<and> int (num_tokens r) \<le> max_model_len kv \<and>
     (kv_enable_caching kv \<longrightarrow> num_tokens r div hash_block_size (pool_of kv) \<le> length (block_hashes r)) \<and>
     (if new_request (request_id r) (coordinator kv) then num_computed_tokens r = 0 \<and> hits_fit kv hit_tokens hit
      else hit = None \<and> hit_tokens = 0 \<and>
        (\<forall>g < num_kv_cache_groups kv. int (num_computed_tokens r) \<le>
           int (length (table (coordinator kv) g (request_id r))) * bsize (single_type_managers (coordinator kv) ! g)))"

text \<open>The table of a request keeps the entries of a list, but for skipped ones\<close>

definition extends :: "int \<Rightarrow> block_ref list \<Rightarrow> block_ref list \<Rightarrow> bool" where
  "extends skipped bs bs' \<longleftrightarrow> length bs \<le> length bs' \<and> (\<forall>i < length bs. bs' ! i = bs ! i \<or> bs' ! i = Block 0 \<and> int i < skipped)"

lemma extends_append: "extends k bs bs' \<Longrightarrow> extends k bs (bs' @ new)"
  by (auto simp: extends_def nth_append)

lemma extends_kept: "extends k bs (replicate (nat k) (Block 0) @ drop (nat k) bs)"
  by (auto simp: extends_def nth_append)

section \<open>Before the allocation\<close>

lemma skipped_blocks_nonneg:
  assumes "manager_wf p held m" and "plain m" and "0 \<le> n"
  shows "0 \<le> skipped_blocks m n"
  using skipped_tokens_bounds(1) [OF assms(2,3)] assms(1)
  by (simp add: skipped_blocks_def pos_imp_zdiv_nonneg_iff bsize_def manager_wf_def)

lemma prepare_running:
  assumes wf: "coordinator_wf c" and "0 \<le> computed"
    and room: "\<forall>g < groups c. computed \<le> int (length (table c g rid)) * bsize (single_type_managers c ! g)"
  shows "coordinator_blocks_to_allocate rid slots (replicate (groups c) []) enc computed main_slots c =
    Inr (int (\<Sum>g<groups c. missing_blocks (single_type_managers c ! g) rid slots), c)"
  by (rule coordinator_demand)
    (use assms in \<open>auto simp: coordinator_wf_def table_def intro!: blocks_to_allocate_running [where held = "all_held c"]\<close>)

lemma prepare_new:
  assumes wf: "coordinator_wf c" and new: "new_request rid c" and "length computed = groups c" and "0 \<le> total_tokens"
    and hits: "\<forall>bs \<in> set computed. computed_ok (coordinator_pool c) bs \<and> (enable_caching (coordinator_pool c) \<or> bs = [])"
  shows "\<exists>n. coordinator_blocks_to_allocate rid slots computed enc total_tokens main_slots c = Inr (int n, c) \<and>
    n \<le> (\<Sum>g<groups c. nat (cdiv slots (bsize (single_type_managers c ! g))) + length (computed ! g)) \<and>
    (int n \<le> get_num_free_blocks (coordinator_pool c) \<longrightarrow>
      (\<exists>c'. coordinator_add_computed ui rid computed total_tokens 0 c = Inr c' \<and> coordinator_wf c' \<and> only_request rid c c' \<and>
        int (\<Sum>g<groups c. missing_blocks (single_type_managers c' ! g) rid slots) \<le> get_num_free_blocks (coordinator_pool c') \<and>
        (\<forall>g < groups c. extends (skipped_blocks (single_type_managers c ! g) total_tokens) (computed ! g) (table c' g rid))))"
proof -
  let ?ms = "single_type_managers c" and ?S = "set_mset (all_held c)" and ?p = "coordinator_pool c"
  let ?d = "\<lambda>g. demand ?S (?ms ! g) rid slots (computed ! g) total_tokens"
  let ?u = "\<lambda>g. unused ?S (kept_blocks (?ms ! g) total_tokens (computed ! g))"
  have mgr: "manager_wf ?p (all_held c) (?ms ! g)" "plain (?ms ! g)" "blocks_of (?ms ! g) rid = []"
    "map_of (num_cached_block (?ms ! g)) rid = None" "blocks_wf ?p (computed ! g)" if "g < groups c" for g
    using wf new hits assms(3) that by (auto simp: coordinator_wf_def new_request_def computed_ok_def)
  have run: "coordinator_blocks_to_allocate rid slots computed enc total_tokens main_slots c = Inr (int (\<Sum>g<groups c. ?d g), c)"
  proof (rule coordinator_demand)
    fix g assume "g < groups c"
    with mgr [OF this] assms(3,4) wf show "plain (?ms ! g) \<and> g < length computed \<and>
        get_num_blocks_to_allocate (?ms ! g) ?p rid slots (computed ! g) total_tokens main_slots = Inr (int (?d g), ?ms ! g)"
      by (simp add: blocks_to_allocate_new [where held = "all_held c"] coordinator_wf_def)
  qed
  have few: "(\<Sum>g<groups c. ?d g) \<le> (\<Sum>g<groups c. nat (cdiv slots (bsize (?ms ! g))) + length (computed ! g))"
  proof (rule sum_mono)
    fix g
    have "?u g \<le> length (computed ! g)"
      unfolding unused_def kept_blocks_def by (rule le_trans [OF length_filter_le]) simp
    then show "?d g \<le> nat (cdiv slots (bsize (?ms ! g))) + length (computed ! g)" unfolding demand_def by linarith
  qed
  have "\<exists>c'. coordinator_add_computed ui rid computed total_tokens 0 c = Inr c' \<and> coordinator_wf c' \<and> only_request rid c c' \<and>
      int (\<Sum>g<groups c. missing_blocks (single_type_managers c' ! g) rid slots) \<le> get_num_free_blocks (coordinator_pool c') \<and>
      (\<forall>g < groups c. extends (skipped_blocks (?ms ! g) total_tokens) (computed ! g) (table c' g rid))"
    if free: "int (\<Sum>g<groups c. ?d g) \<le> get_num_free_blocks ?p"
  proof -
    have "(\<Sum>g<groups c. ?u g) \<le> (\<Sum>g<groups c. ?d g)" by (rule sum_mono) (simp add: demand_def)
    with free have "int (\<Sum>g<groups c. ?u g) \<le> get_num_free_blocks ?p" by linarith
    from coordinator_hit_ok [OF wf new assms(3) hits this, of ui] obtain c' where
      c': "coordinator_add_computed ui rid computed total_tokens 0 c = Inr c'" "coordinator_wf c'" "only_request rid c c'"
      "get_num_free_blocks (coordinator_pool c') \<ge> get_num_free_blocks ?p - int (\<Sum>g<groups c. ?u g)"
      "\<forall>g < groups c. table c' g rid = replicate (nat (skipped_blocks (?ms ! g) total_tokens)) (Block 0) @
        kept_blocks (?ms ! g) total_tokens (computed ! g)" by blast
    have "(\<Sum>g<groups c. missing_blocks (single_type_managers c' ! g) rid slots) + (\<Sum>g<groups c. ?u g) = (\<Sum>g<groups c. ?d g)"
      unfolding sum.distrib [symmetric]
    proof (rule sum.cong, simp)
      fix g assume "g \<in> {..<groups c}"
      then have g: "g < groups c" by simp
      then have "bsize (single_type_managers c' ! g) = bsize (?ms ! g)"
        using c'(3) plain_same by (auto simp: only_request_def other_requests_kept_def)
      moreover have "int (length (table c' g rid)) = max (skipped_blocks (?ms ! g) total_tokens) (int (length (computed ! g)))"
        using c'(5) g skipped_blocks_nonneg [OF mgr(1,2) [OF g] assms(4)] by (auto simp: kept_blocks_def)
      ultimately show "missing_blocks (single_type_managers c' ! g) rid slots + ?u g = ?d g"
        using mgr(3) [OF g] by (simp add: missing_blocks_def demand_def flip: table_def)
    qed
    with free c'(4) have "int (\<Sum>g<groups c. missing_blocks (single_type_managers c' ! g) rid slots) \<le> get_num_free_blocks (coordinator_pool c')"
      by linarith
    moreover have "\<forall>g < groups c. extends (skipped_blocks (?ms ! g) total_tokens) (computed ! g) (table c' g rid)"
      using c'(5) by (simp add: kept_blocks_def extends_kept)
    ultimately show ?thesis using c'(1-3) by blast
  qed
  with run few show ?thesis by blast
qed

section \<open>The call\<close>

lemma kv_blocks_create: "length bss = n \<Longrightarrow> kv_blocks n (create_kv_cache_blocks bss) = bss"
  by (auto simp: kv_blocks_def create_kv_cache_blocks_def intro!: nth_equalityI)

text \<open>The slots of all groups, and the caching of the full blocks, once the hits are in the tables\<close>

lemma allocate_and_cache:
  fixes slots :: int and rid :: string
  assumes wf: "coordinator_wf c" and room: "int (\<Sum>g<groups c. missing_blocks (single_type_managers c ! g) rid slots) \<le> get_num_free_blocks (coordinator_pool c)"
    and req: "rid = request_id r" "features_ok (mm_features r)" "memo_ok sha256 r" and "0 \<le> tokens" and "tokens \<le> slots"
    and hashes: "caching \<longrightarrow> enable_caching (coordinator_pool c) \<and>
      tokens div int (hash_block_size (coordinator_pool c)) \<le> int (length (block_hashes r))"
  shows "\<exists>new c1 r' c2. coordinator_allocate ui rid slots main_slots enc c = Inr (new, c1) \<and>
    (if caching then coordinator_cache_blocks sha256 ui r tokens c1 else Inr (r, c1)) = Inr (r', c2) \<and>
    coordinator_wf c2 \<and> only_request rid c c2 \<and> (\<exists>h. r' = r\<lparr>embeds_hashes := h\<rparr>) \<and> length new = groups c \<and>
    (\<forall>g < groups c. table c2 g rid = table c g rid @ new ! g \<and> slots \<le> int (length (table c2 g rid)) * bsize (single_type_managers c ! g))"
proof -
  from coordinator_allocate_ok [OF wf room, of ui main_slots enc] obtain new c1 where
    alloc: "coordinator_allocate ui rid slots main_slots enc c = Inr (new, c1)" "coordinator_wf c1" "only_request rid c c1"
    "length new = groups c" "\<forall>g < groups c. length (new ! g) = missing_blocks (single_type_managers c ! g) rid slots \<and>
      table c1 g rid = table c g rid @ new ! g" by blast
  have same: "groups c1 = groups c" "bsize (single_type_managers c1 ! g) = bsize (single_type_managers c ! g)" if "g < groups c" for g
    using alloc(3) that plain_same by (auto simp: only_request_def other_requests_kept_def)
  have enough: "slots \<le> int (length (table c1 g rid)) * bsize (single_type_managers c ! g)" if g: "g < groups c" for g
  proof -
    have pos: "0 < bsize (single_type_managers c ! g)" using wf g by (auto simp: coordinator_wf_def manager_wf_def bsize_def)
    have "int (length (table c1 g rid)) = int (length (table c g rid)) + int (missing_blocks (single_type_managers c ! g) rid slots)"
      using alloc(5) g by simp
    then have "cdiv slots (bsize (single_type_managers c ! g)) \<le> int (length (table c1 g rid))"
      unfolding missing_blocks_def table_def by linarith
    then show ?thesis using cdiv_least [OF pos] by simp
  qed
  show ?thesis
  proof (cases caching)
    case False
    have "\<exists>h. r = r\<lparr>embeds_hashes := h\<rparr>" by (rule exI [of _ "embeds_hashes r"]) simp
    with False alloc enough show ?thesis by (intro exI [of _ new] exI [of _ c1] exI [of _ r] exI [of _ c1]) auto
  next
    case True
    have "\<forall>g < groups c1. tokens \<le> int (length (table c1 g (request_id r)) * manager_block_size (single_type_managers c1 ! g))"
    proof (intro allI impI)
      fix g assume "g < groups c1"
      then have g: "g < groups c" using alloc(3) by (simp add: only_request_def)
      from order_trans [OF assms(7) enough [OF g]] same(2) [OF g] req(1) show
        "tokens \<le> int (length (table c1 g (request_id r)) * manager_block_size (single_type_managers c1 ! g))"
        by (simp add: bsize_def)
    qed
    with coordinator_cache_ok [OF alloc(2) _ req(2,3) assms(6), of ui] True hashes alloc(3) req(1) obtain r' c2 where
      cache: "coordinator_cache_blocks sha256 ui r tokens c1 = Inr (r', c2)" "coordinator_wf c2" "only_request rid c1 c2"
      "\<exists>h. r' = r\<lparr>embeds_hashes := h\<rparr>" "\<forall>g < groups c1. table c2 g rid = table c1 g rid"
      by (auto simp: only_request_def)
    have "groups c1 = groups c" using alloc(3) by (simp add: only_request_def)
    with cache alloc enough True only_request_trans [OF alloc(3) cache(3)] show ?thesis
      by (intro exI [of _ new] exI [of _ c1] exI [of _ r'] exI [of _ c2]) auto
  qed
qed

text \<open>
  \<open>blocks_bound\<close> is an upper bound of the blocks a call asks for: those of all its tokens and those of the hit.
\<close>

definition blocks_bound :: "KVCacheManager \<Rightarrow> int \<Rightarrow> KVCacheBlocks \<Rightarrow> nat" where
  "blocks_bound kv slots hit =
     (\<Sum>g<num_kv_cache_groups kv. nat (cdiv slots (bsize (single_type_managers (coordinator kv) ! g))) + length (kv_blocks (num_kv_cache_groups kv) hit ! g))"

lemma missing_le: "missing_blocks m rid slots \<le> nat (cdiv slots (bsize m))"
  by (simp add: missing_blocks_def)

lemma new_request_skip:
  assumes "only_request rid c c'" and "\<forall>g < groups c. num_cached_block (single_type_managers c' ! g) = num_cached_block (single_type_managers c ! g) \<and>
      length (table c' g rid) = length (table c g rid)" and "new_request rid c"
  shows "new_request rid c'"
  unfolding new_request_def
proof
  fix m assume "m \<in> set (single_type_managers c')"
  then obtain g where g: "g < groups c" "m = single_type_managers c' ! g"
    using assms(1) by (auto simp: in_set_conv_nth only_request_def)
  then have "single_type_managers c ! g \<in> set (single_type_managers c)" by simp
  with assms(2,3) g show "blocks_of m rid = [] \<and> map_of (num_cached_block m) rid = None"
    by (auto simp: new_request_def table_def)
qed

lemma same_groups:
  assumes "only_request rid c c'" and "g < groups c"
  shows "bsize (single_type_managers c' ! g) = bsize (single_type_managers c ! g)"
    and "skipped_blocks (single_type_managers c' ! g) = skipped_blocks (single_type_managers c ! g)"
  using assms plain_same by (auto simp: only_request_def other_requests_kept_def)

text \<open>The number of blocks asked for after the skipped ones are gone, and the tables with the hits, if there is room\<close>

lemma slots_prepared:
  fixes num_new lookahead hit_tokens :: int
  assumes wf: "kv_wf kv" and req: "slots_request sha256 r num_new hit_tokens hit lookahead kv"
    and c1: "coordinator_remove_skipped (request_id r) total_tokens (coordinator kv) = Inr c1"
    and total: "total_tokens = int (num_computed_tokens r) + hit_tokens"
  defines "rid \<equiv> request_id r" and "bss \<equiv> kv_blocks (num_kv_cache_groups kv) hit" and "c \<equiv> coordinator kv"
  shows "\<exists>n. coordinator_blocks_to_allocate rid slots bss enc total_tokens main_slots c1 = Inr (int n, c1) \<and> n \<le> blocks_bound kv slots hit \<and>
    (int n \<le> get_num_free_blocks (coordinator_pool c1) \<longrightarrow>
      (\<exists>c2. (if hit \<noteq> None \<or> 0 > (0::int) then coordinator_add_computed ui rid bss total_tokens 0 c1 else Inr c1) = Inr c2 \<and>
        coordinator_wf c2 \<and> only_request rid c1 c2 \<and>
        int (\<Sum>g<groups c. missing_blocks (single_type_managers c2 ! g) rid slots) \<le> get_num_free_blocks (coordinator_pool c2) \<and>
        (\<forall>g < groups c. extends (skipped_blocks (single_type_managers c ! g) total_tokens)
          (if new_request rid c then bss ! g else table c g rid) (table c2 g rid))))"
proof -
  have wfc: "coordinator_wf c" and cach: "enable_caching (coordinator_pool c) = kv_enable_caching kv" using wf by (simp_all add: kv_wf_def c_def)
  from coordinator_skip_ok [OF wfc, of rid total_tokens] c1 have
    skip: "coordinator_wf c1" "only_request rid c c1"
      "\<forall>bs. computed_ok (coordinator_pool c1) bs \<longleftrightarrow> computed_ok (coordinator_pool c) bs"
      "\<forall>g < groups c. num_cached_block (single_type_managers c1 ! g) = num_cached_block (single_type_managers c ! g) \<and>
        length (table c1 g rid) = length (table c g rid)"
      "\<forall>g < groups c. extends (skipped_blocks (single_type_managers c ! g) total_tokens) (table c g rid) (table c1 g rid)"
    by (auto simp: rid_def c_def extends_def)
  have gs: "groups c1 = groups c" using skip(2) by (simp add: only_request_def)
  note same = same_groups [OF skip(2)]
  have nonneg: "0 \<le> total_tokens" using req total by (simp add: slots_request_def)
  show ?thesis
  proof (cases "new_request rid c")
    case True
    have new: "new_request rid c1" by (rule new_request_skip [OF skip(2,4) True])
    have fit: "length bss = groups c" "\<And>g. g < groups c \<Longrightarrow> computed_ok (coordinator_pool c) (bss ! g) \<and> (kv_enable_caching kv \<or> bss ! g = []) \<and>
        int (length (bss ! g)) * bsize (single_type_managers c ! g) = hit_tokens" and zero: "num_computed_tokens r = 0"
      using req True by (auto simp: slots_request_def rid_def c_def bss_def hits_fit_def Let_def)
    have "enable_caching (coordinator_pool c1) = kv_enable_caching kv" using skip(2) cach by (simp add: only_request_def)
    with fit skip(3) have hits: "\<forall>bs \<in> set bss. computed_ok (coordinator_pool c1) bs \<and> (enable_caching (coordinator_pool c1) \<or> bs = [])"
      by (metis in_set_conv_nth)
    from prepare_new [OF skip(1) new _ nonneg hits, of slots enc main_slots ui] fit(1) gs obtain n where
      n: "coordinator_blocks_to_allocate rid slots bss enc total_tokens main_slots c1 = Inr (int n, c1)"
      "n \<le> (\<Sum>g<groups c. nat (cdiv slots (bsize (single_type_managers c1 ! g))) + length (bss ! g))"
      "int n \<le> get_num_free_blocks (coordinator_pool c1) \<longrightarrow>
        (\<exists>c'. coordinator_add_computed ui rid bss total_tokens 0 c1 = Inr c' \<and> coordinator_wf c' \<and> only_request rid c1 c' \<and>
          int (\<Sum>g<groups c. missing_blocks (single_type_managers c' ! g) rid slots) \<le> get_num_free_blocks (coordinator_pool c') \<and>
          (\<forall>g < groups c. extends (skipped_blocks (single_type_managers c1 ! g) total_tokens) (bss ! g) (table c' g rid)))"
      by auto
    have bound: "n \<le> blocks_bound kv slots hit" using n(2) same(1) by (simp add: blocks_bound_def bss_def c_def)
    show ?thesis
    proof (cases "hit = None")
      case False
      with n bound True same(2) show ?thesis by auto
    next
      case hitless: True
      have empty: "bss = replicate (groups c1) []" using hitless gs by (simp add: bss_def kv_blocks_def c_def)
      have "hit_tokens = 0" if "g < groups c" for g using fit(2) [OF that] that empty gs by simp
      then have "\<forall>g < groups c1. total_tokens \<le> int (length (table c1 g rid)) * bsize (single_type_managers c1 ! g)"
        using zero total gs by (auto simp: bsize_def)
      from prepare_running [OF skip(1) nonneg this, of slots enc main_slots] n(1) empty
      have "n = (\<Sum>g<groups c1. missing_blocks (single_type_managers c1 ! g) rid slots)" by (simp del: of_nat_sum)
      then have "int n \<le> get_num_free_blocks (coordinator_pool c1) \<longrightarrow>
          int (\<Sum>g<groups c. missing_blocks (single_type_managers c1 ! g) rid slots) \<le> get_num_free_blocks (coordinator_pool c1)" using gs by simp
      with n(1) bound hitless skip(1) True empty gs show ?thesis by (auto simp: extends_def)
    qed
  next
    case False
    then have run: "hit = None" "hit_tokens = 0"
      "\<forall>g < groups c. int (num_computed_tokens r) \<le> int (length (table c g rid)) * bsize (single_type_managers c ! g)"
      using req by (auto simp: slots_request_def rid_def c_def)
    have empty: "bss = replicate (groups c1) []" using run(1) gs by (simp add: bss_def kv_blocks_def c_def)
    have "\<forall>g < groups c1. total_tokens \<le> int (length (table c1 g rid)) * bsize (single_type_managers c1 ! g)"
      using run(2,3) total skip(4) same(1) gs by simp
    note demand = prepare_running [OF skip(1) nonneg this, of slots enc main_slots]
    let ?n = "\<Sum>g<groups c1. missing_blocks (single_type_managers c1 ! g) rid slots"
    have "?n \<le> blocks_bound kv slots hit"
      unfolding blocks_bound_def gs c_def [symmetric]
      by (rule sum_mono) (use same(1) in \<open>auto intro: le_trans [OF missing_le]\<close>)
    with demand empty run(1) skip(1,5) False gs show ?thesis by (intro exI [of _ ?n]) auto
  qed
qed

lemma allocate_slots_ok:
  fixes num_new lookahead hit_tokens :: int
  assumes wf: "kv_wf kv" and req: "slots_request sha256 r num_new hit_tokens hit lookahead kv"
  defines "c \<equiv> coordinator kv" and "rid \<equiv> request_id r" and "total_tokens \<equiv> int (num_computed_tokens r) + hit_tokens"
  defines "slots \<equiv> min (total_tokens + num_new + lookahead) (max_model_len kv)"
  shows "\<exists>res r' kv'. allocate_slots sha256 ui r num_new hit_tokens hit lookahead 0 delay enc kv = Inr (res, r', kv') \<and>
    kv_wf kv' \<and> only_request rid c (coordinator kv') \<and> (\<exists>h. r' = r\<lparr>embeds_hashes := h\<rparr>) \<and>
    (\<forall>g < groups c. let skipped = skipped_blocks (single_type_managers c ! g) total_tokens;
                        before = (if new_request rid c then kv_blocks (groups c) hit ! g else table c g rid);
                        now = table (coordinator kv') g rid
       in case res of
            None \<Rightarrow> get_num_free_blocks (pool_of kv) < int (blocks_bound kv slots hit) \<and>
              length now = length (table c g rid) \<and> extends skipped (table c g rid) now
          | Some new \<Rightarrow> slots \<le> int (length now) * bsize (single_type_managers c ! g) \<and>
              (\<exists>old. now = old @ kv_blocks (groups c) new ! g \<and> extends skipped before old))"
proof -
  let ?bss = "kv_blocks (groups c) hit" and ?tokens = "min (total_tokens + num_new) (int (num_tokens r))"
  have wfc: "coordinator_wf c" and cach: "enable_caching (coordinator_pool c) = kv_enable_caching kv" using wf by (simp_all add: kv_wf_def c_def)
  have R: "0 < num_new" "0 \<le> hit_tokens" "0 \<le> lookahead" "features_ok (mm_features r)" "memo_ok sha256 r"
    "total_tokens \<le> max_model_len kv" "int (num_tokens r) \<le> max_model_len kv"
    "kv_enable_caching kv \<Longrightarrow> num_tokens r div hash_block_size (coordinator_pool c) \<le> length (block_hashes r)"
    using req by (auto simp: slots_request_def total_tokens_def c_def)
  have total: "min (total_tokens + 0) (max_model_len kv) = total_tokens" using R(6) by simp
  from coordinator_skip_ok [OF wfc, of rid total_tokens] obtain c1 where
    c1: "coordinator_remove_skipped rid total_tokens c = Inr c1" "coordinator_wf c1" "only_request rid c c1"
    "get_num_free_blocks (coordinator_pool c1) \<ge> get_num_free_blocks (coordinator_pool c)"
    "\<forall>g < groups c. length (table c1 g rid) = length (table c g rid)"
    "\<forall>g < groups c. extends (skipped_blocks (single_type_managers c ! g) total_tokens) (table c g rid) (table c1 g rid)"
    by (auto simp: extends_def)
  have "coordinator_remove_skipped (request_id r) total_tokens (coordinator kv) = Inr c1"
    "total_tokens = int (num_computed_tokens r) + hit_tokens" using c1(1) by (simp_all add: c_def rid_def total_tokens_def)
  from slots_prepared [OF wf req this, of slots enc "total_tokens + num_new" ui, folded c_def rid_def] obtain n where
    n: "coordinator_blocks_to_allocate rid slots ?bss enc total_tokens (total_tokens + num_new) c1 = Inr (int n, c1)"
      "n \<le> blocks_bound kv slots hit" and
    prep: "int n \<le> get_num_free_blocks (coordinator_pool c1) \<Longrightarrow>
      \<exists>c2. (if hit \<noteq> None \<or> 0 > (0::int) then coordinator_add_computed ui rid ?bss total_tokens 0 c1 else Inr c1) = Inr c2 \<and>
        coordinator_wf c2 \<and> only_request rid c1 c2 \<and>
        int (\<Sum>g<groups c. missing_blocks (single_type_managers c2 ! g) rid slots) \<le> get_num_free_blocks (coordinator_pool c2) \<and>
        (\<forall>g < groups c. extends (skipped_blocks (single_type_managers c ! g) total_tokens)
          (if new_request rid c then ?bss ! g else table c g rid) (table c2 g rid))"
    by blast
  show ?thesis
  proof (cases "int n \<le> get_num_free_blocks (coordinator_pool c1)")
    case False
    let ?kv = "kv\<lparr>coordinator := c1\<rparr>"
    have "allocate_slots sha256 ui r num_new hit_tokens hit lookahead 0 delay enc kv = Inr (None, r, ?kv)"
      using False R(1) total c1(1) n(1) unfolding allocate_slots_def Let_def
      by (simp add: slots_def total_tokens_def c_def rid_def)
    moreover have "kv_wf ?kv" using c1(2,3) cach by (simp add: kv_wf_def only_request_def)
    moreover have "get_num_free_blocks (pool_of kv) < int (blocks_bound kv slots hit)" using False c1(4) n(2) by (simp add: c_def)
    moreover have "\<exists>h. r = r\<lparr>embeds_hashes := h\<rparr>" by (rule exI [of _ "embeds_hashes r"]) simp
    ultimately show ?thesis using c1(3,5,6) by (intro exI [of _ None] exI [of _ r] exI [of _ ?kv]) (simp add: Let_def)
  next
    case True
    from prep [OF True] obtain c2 where
      c2: "(if hit \<noteq> None \<or> 0 > (0::int) then coordinator_add_computed ui rid ?bss total_tokens 0 c1 else Inr c1) = Inr c2"
      "coordinator_wf c2" "only_request rid c1 c2"
      "int (\<Sum>g<groups c. missing_blocks (single_type_managers c2 ! g) rid slots) \<le> get_num_free_blocks (coordinator_pool c2)"
      "\<forall>g < groups c. extends (skipped_blocks (single_type_managers c ! g) total_tokens)
        (if new_request rid c then ?bss ! g else table c g rid) (table c2 g rid)" by blast
    note only = only_request_trans [OF c1(3) c2(3)]
    then have gs: "groups c2 = groups c" "enable_caching (coordinator_pool c2) = kv_enable_caching kv"
      "hash_block_size (coordinator_pool c2) = hash_block_size (coordinator_pool c)" using cach by (simp_all add: only_request_def)
    define caching where "caching \<longleftrightarrow> \<not> (\<not> kv_enable_caching kv \<or> delay)"
    have hashes: "caching \<longrightarrow> enable_caching (coordinator_pool c2) \<and>
        ?tokens div int (hash_block_size (coordinator_pool c2)) \<le> int (length (block_hashes r))"
    proof
      assume caching
      then have "?tokens div int (hash_block_size (coordinator_pool c)) \<le> int (num_tokens r) div int (hash_block_size (coordinator_pool c))"
        by (cases "hash_block_size (coordinator_pool c) = 0") (auto intro: zdiv_mono1)
      with R(8) \<open>caching\<close> gs show "enable_caching (coordinator_pool c2) \<and>
          ?tokens div int (hash_block_size (coordinator_pool c2)) \<le> int (length (block_hashes r))"
        by (auto simp: caching_def simp flip: zdiv_int)
    qed
    have tokens: "0 \<le> ?tokens" "?tokens \<le> slots" using R by (auto simp: slots_def total_tokens_def)
    from allocate_and_cache [OF c2(2) c2(4) [folded gs(1)] _ R(4,5) tokens hashes, of ui "total_tokens + num_new" enc, unfolded gs(1)]
    obtain new c3 r' c4 where
      alloc: "coordinator_allocate ui rid slots (total_tokens + num_new) enc c2 = Inr (new, c3)"
      "(if caching then coordinator_cache_blocks sha256 ui r ?tokens c3 else Inr (r, c3)) = Inr (r', c4)"
      "coordinator_wf c4" "only_request rid c2 c4" "\<exists>h. r' = r\<lparr>embeds_hashes := h\<rparr>" "length new = groups c"
      "\<forall>g < groups c. table c4 g rid = table c2 g rid @ new ! g \<and> slots \<le> int (length (table c4 g rid)) * bsize (single_type_managers c2 ! g)"
      using rid_def by blast
    let ?kv = "kv\<lparr>coordinator := c4\<rparr>"
    have run: "allocate_slots sha256 ui r num_new hit_tokens hit lookahead 0 delay enc kv = Inr (Some (create_kv_cache_blocks new), r', ?kv)"
      using True R(1) total c1(1) n(1) c2(1) alloc(1,2) unfolding allocate_slots_def Let_def
      by (auto simp: slots_def total_tokens_def c_def rid_def caching_def split: if_splits)
    have all: "only_request rid c c4" by (rule only_request_trans [OF only alloc(4)])
    moreover have "kv_wf ?kv" using alloc(3) all cach by (simp add: kv_wf_def only_request_def)
    moreover have "\<forall>g < groups c. slots \<le> int (length (table c4 g rid)) * bsize (single_type_managers c ! g) \<and>
        (\<exists>old. table c4 g rid = old @ kv_blocks (groups c) (create_kv_cache_blocks new) ! g \<and>
          extends (skipped_blocks (single_type_managers c ! g) total_tokens) (if new_request rid c then ?bss ! g else table c g rid) old)"
      using alloc(6,7) c2(5) same_groups(1) [OF only] by (auto simp: kv_blocks_create)
    ultimately show ?thesis
      using run alloc(5) by (intro exI [of _ "Some (create_kv_cache_blocks new)"] exI [of _ r'] exI [of _ ?kv]) (simp add: Let_def)
  qed
qed

end
