(* ===== verification/KV_Lifecycle.thy ===== *)
theory KV_Lifecycle
  imports KV_Slots
begin

text \<open>
  The KV cache over a run of a scheduler without a connector, for groups of full, sliding window and chunked
  local attention: a new manager is consistent, every call keeps it so, a block is referenced as often as the tables of the requests list it, and freeing a request gives back all blocks that
  no other request lists.
\<close>

section \<open>A new manager\<close>

definition plain_spec :: "KVCacheSpec \<Rightarrow> bool" where
  "plain_spec spec \<longleftrightarrow> 0 < block_size spec \<and> (case attention spec of
      FullAttentionSpec \<Rightarrow> True | MLAAttentionSpec \<Rightarrow> True | SlidingWindowSpec window \<Rightarrow> 0 < window
    | ChunkedLocalAttentionSpec chunk \<Rightarrow> 0 < chunk | _ \<Rightarrow> False)"

definition fresh_manager :: "KVCacheSpec \<Rightarrow> bool \<Rightarrow> nat \<Rightarrow> nat \<Rightarrow> nat \<Rightarrow> SingleTypeKVCacheManager" where
  "fresh_manager spec caching i dcp pcp =
     \<lparr>kv_cache_spec = spec, manager_block_size = (if dcp * pcp > 1 then block_size spec * (dcp * pcp) else block_size spec),
      manager_caching = caching, kv_cache_group_id = i, new_block_ids = [], req_to_blocks = [],
      num_cached_block = [], cached_blocks_this_step = [], last_state_block_idx = [], allocated_block_reqs = []\<rparr>"

lemma new_managers_plain:
  assumes "\<forall>spec \<in> set specs. plain_spec spec"
  shows "new_managers caching dcp pcp i specs p =
    Inr (map (\<lambda>(i, spec). fresh_manager spec caching i dcp pcp) (List.enumerate i specs), p)"
  using assms
proof (induction specs arbitrary: i)
  case (Cons spec specs)
  then have "new_manager spec caching i dcp pcp p = Inr (fresh_manager spec caching i dcp pcp, p)"
    by (auto simp: new_manager_def fresh_manager_def plain_spec_def Let_def split: attention_type.splits)
  with Cons show ?case by simp
qed simp

lemma fresh_simps [simp]:
  "blocks_of (fresh_manager spec caching i dcp pcp) rid = []" "held_in (fresh_manager spec caching i dcp pcp) = {#}"
  "cached_count (fresh_manager spec caching i dcp pcp) rid = 0" "num_cached_block (fresh_manager spec caching i dcp pcp) = []"
  "kv_cache_group_id (fresh_manager spec caching i dcp pcp) = i" "kv_cache_spec (fresh_manager spec caching i dcp pcp) = spec"
  "req_to_blocks (fresh_manager spec caching i dcp pcp) = []" "manager_caching (fresh_manager spec caching i dcp pcp) = caching"
  by (simp_all add: fresh_manager_def blocks_of_def dict_get_def held_in_def cached_count_def)

lemma fresh_block_size:
  assumes "0 < dcp" and "0 < pcp"
  shows "manager_block_size (fresh_manager spec caching i dcp pcp) = block_size spec * dcp * pcp"
proof (cases "dcp * pcp > 1")
  case False
  with assms have "dcp * pcp = 1" by (metis One_nat_def Suc_lessI nat_0_less_mult_iff)
  then show ?thesis by (simp add: fresh_manager_def)
qed (simp add: fresh_manager_def)

lemma fresh_plain:
  assumes "plain_spec spec" and "0 < dcp" and "0 < pcp"
  shows "plain (fresh_manager spec caching i dcp pcp) \<and> 0 < manager_block_size (fresh_manager spec caching i dcp pcp)"
  using assms(1) unfolding fresh_block_size [OF assms(2,3)] by (auto simp: plain_spec_def plain_def assms(2,3))

lemma no_blocks_held: "(\<forall>m \<in> set ms. held_in m = {#}) \<Longrightarrow> sum_list (map held_in ms) = {#}"
  by (induction ms) auto

text \<open>The sizes the constructors of the coordinators check\<close>

lemma coordinator_sizes:
  assumes "get_kv_cache_coordinator n specs eagle caching events dcp pcp hash_sz me = Inr c"
    and specs: "\<forall>spec \<in> set specs. plain_spec spec" "0 < dcp" "0 < pcp" and caching and "spec \<in> set specs"
  shows "0 < hash_sz \<and> hash_sz dvd manager_block_size (fresh_manager spec caching i dcp pcp)"
proof (cases "\<exists>s. specs = [s]")
  case True
  with assms(1,5,6) have "hash_sz = (let n = if dcp > 1 then block_size spec * dcp else block_size spec in if pcp > 1 then n * pcp else n)"
    by (auto simp: get_kv_cache_coordinator_def rbind_eq_Inr require_eq_Inr Let_def split: if_splits prod.splits)
  also have "\<dots> = block_size spec * dcp * pcp"
    using specs(2,3) by (cases "dcp = 1"; cases "pcp = 1") (auto simp: Let_def)
  finally show ?thesis using fresh_plain [of spec dcp pcp] specs assms(6) by (simp add: fresh_block_size)
next
  case False
  then have "(case specs of [s] \<Rightarrow> f s | _ \<Rightarrow> x) = x" for f and x :: "cache_search res" by (auto split: list.split)
  with assms(1,5,6) have "0 < hash_sz" "block_size spec mod hash_sz = 0" "dcp = 1" "pcp = 1"
    by (auto simp: get_kv_cache_coordinator_def new_hybrid_coordinator_def rbind_eq_Inr require_eq_Inr Let_def list_all_iff
      split: if_splits prod.splits)
  then show ?thesis by (auto simp: fresh_manager_def)
qed

lemma new_kv_wf:
  assumes new: "new_KVCacheManager n specs model_len hash_sz caching eagle stats events dcp pcp me = Inr kv"
    and specs: "\<forall>spec \<in> set specs. plain_spec spec" "0 < dcp" "0 < pcp" "length specs < 2 ^ 32"
  shows "kv_wf kv" and "single_type_managers (coordinator kv) = map (\<lambda>(i, spec). fresh_manager spec caching i dcp pcp) (List.enumerate 0 specs)"
    and "num_gpu_blocks (pool_of kv) = n" and "hash_block_size (pool_of kv) = hash_sz" and "\<And>b. hash_of (pool_of kv) b = None"
    and "max_model_len kv = model_len" and "kv_enable_caching kv = caching"
proof -
  from new obtain c where c: "get_kv_cache_coordinator n specs eagle caching events dcp pcp hash_sz me = Inr c"
    and kv: "coordinator kv = c" "kv_enable_caching kv = caching" "max_model_len kv = model_len"
    by (auto simp: new_KVCacheManager_def rbind_eq_Inr)
  let ?ms = "map (\<lambda>(i, spec). fresh_manager spec caching i dcp pcp) (List.enumerate 0 specs)"
  from c have pool: "new_BlockPool n caching hash_sz events me = Inr (coordinator_pool c)" and ms: "single_type_managers c = ?ms"
    using new_managers_plain [OF specs(1)] by (auto simp: get_kv_cache_coordinator_def rbind_eq_Inr)
  then have "0 < n" by (simp add: new_BlockPool_def rbind_eq_Inr require_eq_Inr)
  from new_BlockPool_rel [OF this, of caching hash_sz events me] pool have
    p: "num_gpu_blocks (coordinator_pool c) = n" "enable_caching (coordinator_pool c) = caching"
      "hash_block_size (coordinator_pool c) = hash_sz" "\<forall>b. hash_of (coordinator_pool c) b = None" by auto
  have held: "all_held c = {#}" unfolding all_held_def ms by (rule no_blocks_held) auto
  have "manager_wf (coordinator_pool c) {#} m \<and> plain m \<and> kv_cache_group_id m < 2 ^ 32 \<and>
      (caching \<longrightarrow> 0 < hash_sz \<and> hash_sz dvd manager_block_size m)" if "m \<in> set ?ms" for m
  proof -
    from that obtain i spec where m: "m = fresh_manager spec caching i dcp pcp" "i < length specs" "spec \<in> set specs"
      by (auto simp: in_set_enumerate_eq)
    have "manager_wf (coordinator_pool c) {#} m"
      using fresh_plain [OF _ specs(2,3), of spec caching i] m specs(1) p(2) by (simp add: manager_wf_def blocks_wf_def)
    with fresh_plain [OF _ specs(2,3), of spec caching i] m specs(1,4) coordinator_sizes [OF c specs(1-3) _ m(3), of i]
    show ?thesis by auto
  qed
  with new_BlockPool_ok [OF pool] held ms p kv show "kv_wf kv" by (auto simp: kv_wf_def coordinator_wf_def)
  show "single_type_managers (coordinator kv) = ?ms" "num_gpu_blocks (pool_of kv) = n" "hash_block_size (pool_of kv) = hash_sz"
    "\<And>b. hash_of (pool_of kv) b = None" "max_model_len kv = model_len" "kv_enable_caching kv = caching"
    using ms p kv by auto
qed

section \<open>Calls that change the pool or the managers only\<close>

lemma all_held_pool [simp]: "all_held (c\<lparr>coordinator_pool := p\<rparr>) = all_held c"
  by (simp add: all_held_def)

lemma coordinator_wf_pool:
  assumes "coordinator_wf c" and "pool_ok p (all_held c)" and "num_gpu_blocks p = num_gpu_blocks (coordinator_pool c)"
    and "pool_settings p = pool_settings (coordinator_pool c)" and "\<forall>b. hash_of (coordinator_pool c) b = None \<longrightarrow> hash_of p b = None"
  shows "coordinator_wf (c\<lparr>coordinator_pool := p\<rparr>)"
proof -
  have "manager_wf p (all_held c) m" if "manager_wf (coordinator_pool c) (all_held c) m" for m
    using that assms(3-5) by (auto simp: manager_wf_def blocks_wf_def unshared_def pool_settings_def)
  with assms show ?thesis by (auto simp: coordinator_wf_def all_held_def pool_settings_def)
qed

lemma coordinator_wf_managers:
  assumes "coordinator_wf c"
    and "\<And>m. m \<in> set (single_type_managers c) \<Longrightarrow> held_in (f m) = held_in m \<and> same_manager m (f m) \<and>
      distinct (map fst (req_to_blocks (f m))) \<and> num_cached_block (f m) = num_cached_block m \<and> (\<forall>rid. blocks_of (f m) rid = blocks_of m rid)"
  shows "coordinator_wf (c\<lparr>single_type_managers := map f (single_type_managers c)\<rparr>)"
proof -
  let ?c = "c\<lparr>single_type_managers := map f (single_type_managers c)\<rparr>"
  have held: "all_held ?c = all_held c"
    unfolding all_held_def by (rule arg_cong [where f = sum_list]) (use assms(2) in simp)
  have "manager_wf p held (f m) \<and> plain (f m) \<and> kv_cache_group_id (f m) = kv_cache_group_id m \<and> manager_block_size (f m) = manager_block_size m"
    if "m \<in> set (single_type_managers c)" "manager_wf p held m" "plain m" for p held m
    using assms(2) [OF that(1)] that(2,3) plain_same [of m "f m"]
    by (auto simp: manager_wf_def same_manager_def cached_count_def)
  with assms(1) show ?thesis unfolding coordinator_wf_def held by fastforce
qed

lemma settings_evict_blocks: "evict_blocks ui ids p = Inr p' \<Longrightarrow> pool_settings p' = pool_settings p"
  unfolding evict_blocks_def
  by (erule fold_res_invariant [where P = "\<lambda>p'. pool_settings p' = pool_settings p"]) (auto simp: rbind_eq_Inr)

lemma settings_reset: "pool_settings (snd (reset_prefix_cache p)) = pool_settings p"
proof -
  have "pool_settings (fold (\<lambda>x. update_blk x reset_hash) xs p) = pool_settings p" for xs p by (induction xs arbitrary: p) simp_all
  then show ?thesis by (simp add: reset_prefix_cache_def Let_def)
qed

lemma coordinator_evict_ok:
  assumes "coordinator_wf c" and "set bs \<subseteq> {..<pool_size (coordinator_pool c)}"
  shows "\<exists>p. evict_blocks ui (map int bs) (coordinator_pool c) = Inr p \<and> coordinator_wf (c\<lparr>coordinator_pool := p\<rparr>) \<and>
    num_gpu_blocks p = num_gpu_blocks (coordinator_pool c) \<and> (\<forall>b. hash_of p b = (if b \<in> set bs then None else hash_of (coordinator_pool c) b))"
proof -
  let ?p = "coordinator_pool c"
  have ok: "pool_ok ?p (all_held c)" using assms(1) by (simp add: coordinator_wf_def)
  from pool_ok_rel [OF ok] obtain xs where "pool_rel ?p (all_held c) xs" by blast
  from evict_blocks_rel [OF this assms(2), of ui] obtain p where p: "evict_blocks ui (map int bs) ?p = Inr p"
    "num_gpu_blocks p = num_gpu_blocks ?p" "\<forall>b. hash_of p b = (if b \<in> set bs then None else hash_of ?p b)" by blast
  from pool_ok_step [OF pool_step.evicting [OF assms(2) p(1)]] ok have "pool_ok p (all_held c)" by simp
  from coordinator_wf_pool [OF assms(1) this p(2) settings_evict_blocks [OF p(1)]] p show ?thesis by auto
qed

lemma coordinator_reset_ok:
  assumes "coordinator_wf c" and "reset_prefix_cache (coordinator_pool c) = (ok, p)"
  shows "coordinator_wf (c\<lparr>coordinator_pool := p\<rparr>) \<and> num_gpu_blocks p = num_gpu_blocks (coordinator_pool c) \<and> (ok \<longleftrightarrow> all_held c = {#}) \<and>
    (if ok then \<forall>b. hash_of p b = None else p = coordinator_pool c)"
proof (cases "all_held c = {#}")
  case True
  from assms(1) True have "pool_ok (coordinator_pool c) {#}" by (simp add: coordinator_wf_def)
  from pool_ok_rel [OF this] obtain xs where "pool_rel (coordinator_pool c) {#} xs"
    "{0 <..< pool_size (coordinator_pool c)} \<subseteq> set xs" by auto
  from reset_prefix_cache_rel [OF this] pool_ok_reset(1) [OF \<open>pool_ok (coordinator_pool c) {#}\<close>] assms(2) have
    p: ok "pool_ok p (all_held c)" "num_gpu_blocks p = num_gpu_blocks (coordinator_pool c)" "\<forall>b. hash_of p b = None"
    using True by auto
  moreover have "pool_settings p = pool_settings (coordinator_pool c)" using settings_reset [of "coordinator_pool c"] assms(2) by simp
  ultimately show ?thesis using coordinator_wf_pool [OF assms(1)] True by simp
next
  case False
  with assms pool_ok_reset(2) [of "coordinator_pool c" "all_held c"] show ?thesis by (simp add: coordinator_wf_def)
qed

lemma manager_step_same [simp]:
  "held_in (manager_new_step m) = held_in m" "same_manager m (manager_new_step m)" "req_to_blocks (manager_new_step m) = req_to_blocks m"
  "num_cached_block (manager_new_step m) = num_cached_block m" "blocks_of (manager_new_step m) rid = blocks_of m rid"
  "held_in (snd (take_new_block_ids m)) = held_in m" "same_manager m (snd (take_new_block_ids m))"
  "req_to_blocks (snd (take_new_block_ids m)) = req_to_blocks m"
  "num_cached_block (snd (take_new_block_ids m)) = num_cached_block m" "blocks_of (snd (take_new_block_ids m)) rid = blocks_of m rid"
  by (simp_all add: manager_new_step_def take_new_block_ids_def held_in_def blocks_of_def same_manager_def)

lemma common_prefix_same:
  assumes "distinct (map fst (req_to_blocks m))"
  shows "held_in (snd (manager_common_prefix_blocks rid m p)) = held_in m \<and> same_manager m (snd (manager_common_prefix_blocks rid m p)) \<and>
    distinct (map fst (req_to_blocks (snd (manager_common_prefix_blocks rid m p)))) \<and>
    num_cached_block (snd (manager_common_prefix_blocks rid m p)) = num_cached_block m \<and>
    (\<forall>rid'. blocks_of (snd (manager_common_prefix_blocks rid m p)) rid' = blocks_of m rid')"
  using assms by (auto simp: manager_common_prefix_blocks_def held_in_touch_key same_manager_def blocks_of_def Let_def)

section \<open>Steps\<close>

text \<open>
  The calls of a scheduler without a connector: a request's tokens are cached once they are computed, blocks to
  evict are blocks of the pool, and slots are asked for as in \<open>slots_request\<close>, always with
  \<open>num_external_computed_tokens\<close> 0. Calls with tokens computed elsewhere are not steps.
\<close>

definition cacheable :: "(bytes \<Rightarrow> bytes) \<Rightarrow> Request \<Rightarrow> int \<Rightarrow> KVCacheManager \<Rightarrow> bool" where
  "cacheable sha256 r tokens kv \<longleftrightarrow> features_ok (mm_features r) \<and> memo_ok sha256 r \<and> 0 \<le> tokens \<and>
     tokens div int (hash_block_size (pool_of kv)) \<le> int (length (block_hashes r)) \<and>
     (\<forall>g < num_kv_cache_groups kv. tokens \<le>
        int (length (table (coordinator kv) g (request_id r)) * manager_block_size (single_type_managers (coordinator kv) ! g)))"

inductive kv_step :: "(bytes \<Rightarrow> bytes) \<Rightarrow> bool \<Rightarrow> KVCacheManager \<Rightarrow> KVCacheManager \<Rightarrow> bool" for sha256 ui where
    searching: "get_computed_blocks r kv = Inr (found, kv') \<Longrightarrow> kv_step sha256 ui kv kv'"
  | allocating: "slots_request sha256 r num_new hit_tokens hit lookahead kv \<Longrightarrow>
      allocate_slots sha256 ui r num_new hit_tokens hit lookahead 0 delay enc kv = Inr (res, r', kv') \<Longrightarrow> kv_step sha256 ui kv kv'"
  | freeing: "kv_free r kv = Inr kv' \<Longrightarrow> kv_step sha256 ui kv kv'"
  | skipping: "kv_remove_skipped_blocks rid computed kv = Inr kv' \<Longrightarrow> kv_step sha256 ui kv kv'"
  | caching: "cacheable sha256 r tokens kv \<Longrightarrow> kv_cache_blocks sha256 ui r tokens kv = Inr (r', kv') \<Longrightarrow> kv_step sha256 ui kv kv'"
  | evicting: "set bs \<subseteq> {..<pool_size (pool_of kv)} \<Longrightarrow> kv_evict_blocks ui (map int bs) kv = Inr kv' \<Longrightarrow> kv_step sha256 ui kv kv'"
  | resetting: "kv_reset_prefix_cache kv = (ok, kv') \<Longrightarrow> kv_step sha256 ui kv kv'"
  | common_prefix: "get_num_common_prefix_blocks rid kv = (ns, kv') \<Longrightarrow> kv_step sha256 ui kv kv'"
  | reporting: "kv_take_events kv = (es, kv') \<Longrightarrow> kv_step sha256 ui kv kv'"
  | taking_ids: "kv_take_new_block_ids kv = (ids, kv') \<Longrightarrow> kv_step sha256 ui kv kv'"
  | logging: "make_prefix_cache_stats kv = (stats, kv') \<Longrightarrow> kv_step sha256 ui kv kv'"
  | starting: "kv_step sha256 ui kv (kv_new_step_starts kv)"

text \<open>What no call changes: the groups, their sizes, and how the cache is searched\<close>

definition same_setup :: "KVCacheManager \<Rightarrow> KVCacheManager \<Rightarrow> bool" where
  "same_setup kv kv' \<longleftrightarrow> cache_search (coordinator kv') = cache_search (coordinator kv) \<and>
     num_kv_cache_groups kv' = num_kv_cache_groups kv \<and> pool_settings (pool_of kv') = pool_settings (pool_of kv) \<and>
     (\<forall>g < num_kv_cache_groups kv. same_manager (single_type_managers (coordinator kv) ! g) (single_type_managers (coordinator kv') ! g))"

lemma same_setup_refl [simp]: "same_setup kv kv"
  by (simp add: same_setup_def same_manager_def)

lemma same_setup_trans: "same_setup kv kv' \<Longrightarrow> same_setup kv' kv'' \<Longrightarrow> same_setup kv kv''"
  by (simp add: same_setup_def same_manager_def)

lemma kv_wf_coordinator:
  "kv_wf kv \<Longrightarrow> coordinator_wf c \<Longrightarrow> only_request rid (coordinator kv) c \<Longrightarrow>
     kv_wf (kv\<lparr>coordinator := c\<rparr>) \<and> same_setup kv (kv\<lparr>coordinator := c\<rparr>)"
  by (auto simp: kv_wf_def only_request_def same_setup_def pool_settings_def other_requests_kept_def)

lemma kv_wf_map:
  assumes "kv_wf kv"
    and "\<And>m. distinct (map fst (req_to_blocks m)) \<Longrightarrow> held_in (f m) = held_in m \<and> same_manager m (f m) \<and>
      distinct (map fst (req_to_blocks (f m))) \<and> num_cached_block (f m) = num_cached_block m \<and> (\<forall>rid. blocks_of (f m) rid = blocks_of m rid)"
  defines "kv' \<equiv> kv\<lparr>coordinator := (coordinator kv)\<lparr>single_type_managers := map f (single_type_managers (coordinator kv))\<rparr>\<rparr>"
  shows "kv_wf kv' \<and> same_setup kv kv'"
proof -
  have keys: "distinct (map fst (req_to_blocks m))" if "m \<in> set (single_type_managers (coordinator kv))" for m
    using assms(1) that by (auto simp: kv_wf_def coordinator_wf_def manager_wf_def)
  have "coordinator_wf ((coordinator kv)\<lparr>single_type_managers := map f (single_type_managers (coordinator kv))\<rparr>)"
    by (rule coordinator_wf_managers) (use assms(1,2) keys in \<open>auto simp: kv_wf_def\<close>)
  with assms(1,2) keys show ?thesis by (simp add: kv_wf_def kv'_def same_setup_def)
qed

lemma kv_wf_pool:
  "kv_wf kv \<Longrightarrow> coordinator_wf ((coordinator kv)\<lparr>coordinator_pool := p\<rparr>) \<Longrightarrow> pool_settings p = pool_settings (pool_of kv) \<Longrightarrow>
     kv_wf (kv\<lparr>coordinator := (coordinator kv)\<lparr>coordinator_pool := p\<rparr>\<rparr>) \<and>
     same_setup kv (kv\<lparr>coordinator := (coordinator kv)\<lparr>coordinator_pool := p\<rparr>\<rparr>)"
  by (simp add: kv_wf_def pool_settings_def same_setup_def same_manager_def)

lemma kv_wf_stats [simp]:
  "kv_wf (kv\<lparr>prefix_cache_stats := s\<rparr>) = kv_wf kv" "same_setup kv (kv'\<lparr>prefix_cache_stats := s\<rparr>) = same_setup kv kv'"
  by (simp_all add: kv_wf_def same_setup_def)

lemma kv_step_wf:
  assumes "kv_step sha256 ui kv kv'" and "kv_wf kv"
  shows "kv_wf kv' \<and> same_setup kv kv'"
  using assms
proof (induction rule: kv_step.induct)
  case (searching r kv found kv')
  then show ?case by (auto simp: get_computed_blocks_def rbind_eq_Inr split: if_splits)
next
  case (allocating r num_new hit_tokens hit lookahead kv delay enc res r' kv')
  from allocate_slots_ok [OF allocating(3,1), of ui delay enc] allocating(2) have
    "kv_wf kv'" "only_request (request_id r) (coordinator kv) (coordinator kv')" by auto
  then show ?case by (auto simp: only_request_def same_setup_def pool_settings_def other_requests_kept_def)
next
  case (freeing r kv kv')
  then obtain c where "coordinator_free (request_id r) (coordinator kv) = Inr c" "kv' = kv\<lparr>coordinator := c\<rparr>"
    by (auto simp: kv_free_def rbind_eq_Inr)
  with coordinator_free_ok [of "coordinator kv" "request_id r"] freeing(2) kv_wf_coordinator [of kv c] show ?case
    by (auto simp: kv_wf_def)
next
  case (skipping rid computed kv kv')
  then obtain c where "coordinator_remove_skipped rid computed (coordinator kv) = Inr c" "kv' = kv\<lparr>coordinator := c\<rparr>"
    by (auto simp: kv_remove_skipped_blocks_def rbind_eq_Inr)
  with coordinator_skip_ok [of "coordinator kv" rid computed] skipping(2) kv_wf_coordinator [of kv c] show ?case
    by (auto simp: kv_wf_def)
next
  case (caching r tokens kv r' kv')
  show ?case
  proof (cases "kv_enable_caching kv")
    case True
    with caching(2) obtain c where c: "coordinator_cache_blocks sha256 ui r tokens (coordinator kv) = Inr (r', c)" "kv' = kv\<lparr>coordinator := c\<rparr>"
      by (auto simp: kv_cache_blocks_def rbind_eq_Inr)
    with coordinator_cache_ok [of "coordinator kv" r sha256 tokens ui] caching(1,3) True
    have "coordinator_wf c \<and> only_request (request_id r) (coordinator kv) c" by (auto simp: cacheable_def kv_wf_def)
    with c(2) caching(3) kv_wf_coordinator show ?thesis by blast
  qed (use caching in \<open>simp add: kv_cache_blocks_def\<close>)
next
  case (evicting bs kv kv')
  then obtain p where p: "evict_blocks ui (map int bs) (pool_of kv) = Inr p" "kv' = kv\<lparr>coordinator := (coordinator kv)\<lparr>coordinator_pool := p\<rparr>\<rparr>"
    by (auto simp: kv_evict_blocks_def rbind_eq_Inr)
  with coordinator_evict_ok [of "coordinator kv" bs ui] evicting(1,3) kv_wf_pool [OF evicting(3) _ settings_evict_blocks [OF p(1)]]
  show ?case by (auto simp: kv_wf_def)
next
  case (resetting kv ok kv')
  obtain p where p: "reset_prefix_cache (pool_of kv) = (ok, p)"
    using resetting(1) by (auto simp: kv_reset_prefix_cache_def Let_def split: prod.splits if_splits)
  have "coordinator_wf ((coordinator kv)\<lparr>coordinator_pool := p\<rparr>)" "pool_settings p = pool_settings (pool_of kv)"
    using coordinator_reset_ok [OF _ p] settings_reset [of "pool_of kv"] p resetting(2) by (auto simp: kv_wf_def)
  from kv_wf_pool [OF resetting(2) this] resetting(1) p show ?case
    by (auto simp: kv_reset_prefix_cache_def Let_def split: if_splits)
next
  case (common_prefix rid kv ns kv')
  note same = kv_wf_map [OF common_prefix(2), where f = "\<lambda>m. snd (manager_common_prefix_blocks rid m (pool_of kv))", OF common_prefix_same]
  show ?case
  proof (cases "cache_search (coordinator kv) = NoPrefixCache")
    case True
    with common_prefix show ?thesis by (auto simp: get_num_common_prefix_blocks_def coordinator_common_prefix_blocks_def)
  next
    case False
    with common_prefix(1) same show ?thesis
      by (auto simp: get_num_common_prefix_blocks_def coordinator_common_prefix_blocks_def Let_def comp_def split: cache_search.splits)
  qed
next
  case (reporting kv es kv')
  obtain p where p: "take_events (pool_of kv) = (es, p)" "kv' = kv\<lparr>coordinator := (coordinator kv)\<lparr>coordinator_pool := p\<rparr>\<rparr>"
    using reporting(1) by (auto simp: kv_take_events_def split: prod.splits)
  then have same: "num_gpu_blocks p = num_gpu_blocks (pool_of kv)" "pool_settings p = pool_settings (pool_of kv)" "\<forall>b. hash_of p b = hash_of (pool_of kv) b"
    by (auto simp: take_events_def blk_def split: if_splits)
  have "pool_ok p (all_held (coordinator kv))"
    using pool_ok_step [OF pool_step.reporting [OF p(1), of sha256 ui "all_held (coordinator kv)"]] reporting(2)
    by (simp add: kv_wf_def coordinator_wf_def)
  from coordinator_wf_pool [OF _ this same(1,2)] same(3) reporting(2) have "coordinator_wf ((coordinator kv)\<lparr>coordinator_pool := p\<rparr>)"
    by (simp add: kv_wf_def)
  from kv_wf_pool [OF reporting(2) this same(2)] p(2) show ?case by simp
next
  case (taking_ids kv ids kv')
  with kv_wf_map [OF taking_ids(2), of "\<lambda>m. snd (take_new_block_ids m)"] show ?case
    by (auto simp: kv_take_new_block_ids_def Let_def comp_def)
next
  case (logging kv stats kv')
  then show ?case by (auto simp: make_prefix_cache_stats_def split: option.splits)
next
  case (starting kv)
  with kv_wf_map [OF starting, of manager_new_step] show ?case by (simp add: kv_new_step_starts_def coordinator_new_step_def)
qed

lemma kv_steps_wf: "(kv_step sha256 ui)\<^sup>*\<^sup>* kv kv' \<Longrightarrow> kv_wf kv \<Longrightarrow> kv_wf kv' \<and> same_setup kv kv'"
  by (induction rule: rtranclp_induct) (auto dest: kv_step_wf intro: same_setup_trans)

section \<open>Blocks and the tables that list them\<close>

text \<open>How often the tables of all requests list a block\<close>

definition listings :: "KVCacheManager \<Rightarrow> nat \<Rightarrow> nat" where
  "listings kv b = (\<Sum>m\<leftarrow>single_type_managers (coordinator kv). \<Sum>(rid, bs)\<leftarrow>req_to_blocks m. count_list bs (Block b))"

lemma count_owned: "0 < b \<Longrightarrow> count (owned bs) b = count_list bs (Block b)"
proof (induction bs)
  case (Cons x bs)
  then show ?case by (cases x) auto
qed simp

lemma count_sum_list: "count (sum_list (map f xs)) b = sum_list (map (\<lambda>x. count (f x) b) xs)"
  by (induction xs) simp_all

lemma count_all_held: "0 < b \<Longrightarrow> count (all_held (coordinator kv)) b = listings kv b"
  by (simp add: all_held_def held_in_def listings_def count_sum_list count_owned comp_def case_prod_beta')

text \<open>The blocks a manager holds, request by request\<close>

lemma held_in_requests:
  assumes "distinct (map fst (req_to_blocks m))" and "finite K" and "fst ` set (req_to_blocks m) \<subseteq> K"
  shows "held_in m = (\<Sum>rid \<in> K. owned (blocks_of m rid))"
proof -
  have rows: "sum_list (map (owned \<circ> snd) d) = (\<Sum>rid \<in> fst ` set d. owned (dict_get d rid []))" if "distinct (map fst d)" for d
    using that
  proof (induction d)
    case (Cons x d)
    obtain k v where x: "x = (k, v)" by (cases x)
    with Cons.prems have k: "k \<notin> fst ` set d" by simp
    then have "(\<Sum>rid \<in> fst ` set d. owned (dict_get (x # d) rid [])) = (\<Sum>rid \<in> fst ` set d. owned (dict_get d rid []))"
      using x by (intro sum.cong) (auto simp: dict_get_def)
    with Cons x k show ?case by (simp add: dict_get_def)
  qed simp
  have "(\<Sum>rid \<in> fst ` set (req_to_blocks m). owned (blocks_of m rid)) = (\<Sum>rid \<in> K. owned (blocks_of m rid))"
    using assms(2,3)
    by (intro sum.mono_neutral_left) (auto simp: blocks_of_def dict_get_def map_of_eq_None_iff [THEN iffD2])
  with rows [OF assms(1)] show ?thesis by (simp add: held_in_def blocks_of_def)
qed

lemma held_in_other_requests:
  assumes "other_requests_kept rid m m'" and "distinct (map fst (req_to_blocks m))" and "distinct (map fst (req_to_blocks m'))"
  shows "held_in m' + owned (blocks_of m rid) = held_in m + owned (blocks_of m' rid)"
proof -
  define K where "K = insert rid (fst ` set (req_to_blocks m) \<union> fst ` set (req_to_blocks m'))"
  have K: "finite K" "rid \<in> K" "fst ` set (req_to_blocks m) \<subseteq> K" "fst ` set (req_to_blocks m') \<subseteq> K" by (auto simp: K_def)
  have "(\<Sum>r \<in> K - {rid}. owned (blocks_of m' r)) = (\<Sum>r \<in> K - {rid}. owned (blocks_of m r))"
    by (rule sum.cong) (use assms(1) in \<open>auto simp: other_requests_kept_def\<close>)
  with held_in_requests [OF assms(2) K(1,3)] held_in_requests [OF assms(3) K(1,4)] show ?thesis
    by (simp add: sum.remove [OF K(1,2)] ac_simps)
qed

lemma sum_list_parts:
  assumes "length ms' = length ms" and "\<And>g. g < length ms \<Longrightarrow> f (ms' ! g) + h g = f (ms ! g)"
  shows "sum_list (map f ms') + (\<Sum>g<length ms. h g) = (sum_list (map f ms) :: 'a multiset)"
proof -
  have "sum_list (map f ms') = (\<Sum>g<length ms. f (ms' ! g))" "sum_list (map f ms) = (\<Sum>g<length ms. f (ms ! g))"
    using assms(1) by (simp_all add: sum_list_sum_nth atLeast0LessThan)
  with assms(2) show ?thesis by (simp flip: sum.distrib)
qed

lemma all_held_freed:
  assumes "coordinator_wf c" and "coordinator_wf c'" and "only_request rid c c'" and "new_request rid c'"
  shows "all_held c' + (\<Sum>g<groups c. owned (table c g rid)) = all_held c"
  unfolding all_held_def
proof (rule sum_list_parts)
  show "groups c' = groups c" using assms(3) by (simp add: only_request_def)
  fix g assume g: "g < groups c"
  then have "single_type_managers c ! g \<in> set (single_type_managers c)" "single_type_managers c' ! g \<in> set (single_type_managers c')"
    using \<open>groups c' = groups c\<close> by simp_all
  with assms g show "held_in (single_type_managers c' ! g) + owned (table c g rid) = held_in (single_type_managers c ! g)"
    using held_in_other_requests [of rid "single_type_managers c ! g" "single_type_managers c' ! g"]
    by (auto simp: coordinator_wf_def manager_wf_def only_request_def new_request_def table_def)
qed

section \<open>Theorems\<close>

text \<open>
  C36: A request gets slots for all its tokens, or none if the pool is too full. With groups of full, sliding
  window and chunked local attention, \<open>allocate_slots\<close> for a new
  request with its cache hit or for a running one (without tokens computed elsewhere) always returns and keeps
  the tables and the pool consistent; the tables of all other requests stay as they are. When it returns blocks,
  every group of the request has room for all tokens and the tokens drafted ahead, and its table holds the
  blocks of the hit or the ones it had, but for those the attention no longer reads, then the new blocks. When
  it returns nothing, fewer blocks are free than a bound of what the tokens need, and only blocks that are no
  longer read left the tables.
\<close>

theorem allocate_slots_correct:
  fixes num_new lookahead hit_tokens :: int
  assumes new: "new_KVCacheManager n specs model_len hash_sz caching eagle stats events dcp pcp me = Inr kv0"
    and specs: "\<forall>spec \<in> set specs. plain_spec spec" "0 < dcp" "0 < pcp" "length specs < 2 ^ 32"
    and run: "(kv_step sha256 ui)\<^sup>*\<^sup>* kv0 kv" and req: "slots_request sha256 r num_new hit_tokens hit lookahead kv"
  defines "c \<equiv> coordinator kv" and "rid \<equiv> request_id r" and "total_tokens \<equiv> int (num_computed_tokens r) + hit_tokens"
  defines "slots \<equiv> min (total_tokens + num_new + lookahead) (max_model_len kv)"
  shows "\<exists>res r' kv'. allocate_slots sha256 ui r num_new hit_tokens hit lookahead 0 delay enc kv = Inr (res, r', kv') \<and>
    kv_wf kv' \<and> only_request rid c (coordinator kv') \<and> (\<exists>h. r' = r\<lparr>embeds_hashes := h\<rparr>) \<and>
    (\<forall>g < groups c. let skipped = skipped_blocks (single_type_managers c ! g) total_tokens;
                        before = (if new_request rid c then kv_blocks (groups c) hit ! g else table c g rid);
                        now = table (coordinator kv') g rid
       in case res of
            None \<Rightarrow> get_num_free_blocks (pool_of kv) < int (blocks_bound kv slots hit) \<and>
              length now = length (table c g rid) \<and> extends skipped (table c g rid) now
          | Some new \<Rightarrow> slots \<le> int (length now) * bsize (single_type_managers c ! g) \<and>
              (\<exists>old. now = old @ kv_blocks (groups c) new ! g \<and> extends skipped before old))"
proof -
  have "kv_wf kv" using kv_steps_wf [OF run new_kv_wf(1) [OF new specs]] by simp
  from allocate_slots_ok [OF this req] show ?thesis unfolding c_def rid_def slots_def total_tokens_def .
qed

definition sample_spec :: KVCacheSpec where
  "sample_spec = \<lparr>attention = FullAttentionSpec, block_size = 2, layout = 0\<rparr>"

definition sample_kv :: KVCacheManager where
  "sample_kv = projr (new_KVCacheManager 4 [sample_spec] 8 2 True False True True 1 1 False)"

lemma sample_kv_new: "new_KVCacheManager 4 [sample_spec] 8 2 True False True True 1 1 False = Inr sample_kv"
proof -
  from new_BlockPool_rel [of 4 True 2 True False] obtain p where "new_BlockPool 4 True 2 True False = Inr p" by auto
  moreover have "new_managers True 1 1 0 [sample_spec] p = Inr ([fresh_manager sample_spec True 0 1 1], p)"
    using new_managers_plain [of "[sample_spec]" True 1 1 0 p] by (simp add: plain_spec_def sample_spec_def)
  ultimately show ?thesis
    by (simp add: sample_kv_def new_KVCacheManager_def get_kv_cache_coordinator_def sample_spec_def Let_def)
qed

lemma sample_spec_plain: "\<forall>spec \<in> set [sample_spec]. plain_spec spec" "(0::nat) < 1" "length [sample_spec] < 2 ^ 32"
  by (simp_all add: plain_spec_def sample_spec_def)

lemmas sample_kv_facts = new_kv_wf [OF sample_kv_new sample_spec_plain(1,2,2,3)]

lemma sample_managers: "single_type_managers (coordinator sample_kv) = [fresh_manager sample_spec True 0 1 1]"
  using sample_kv_facts(2) by simp

lemma sample_free: "get_num_free_blocks (pool_of sample_kv) = 3"
  using free_count [of "pool_of sample_kv" "{#}"] sample_kv_facts(1,3) sample_managers
  by (simp add: kv_wf_def coordinator_wf_def all_held_def)

lemma sample_slots: "slots_request id hashed_request 2 0 None 0 sample_kv"
  using sample_kv_facts sample_managers
  by (simp add: slots_request_def hashed_request_def new_request_def hits_fit_def kv_blocks_def computed_ok_def blocks_wf_def
    features_ok_def memo_ok_def num_tokens_def)

theorem allocate_slots_correct_witness:
  "\<exists>blocks r' kv'. allocate_slots id False hashed_request 2 0 None 0 0 False 0 sample_kv = Inr (Some blocks, r', kv') \<and>
    0 < length (table (coordinator kv') 0 (request_id hashed_request))"
proof -
  have bound: "blocks_bound sample_kv 2 None = 1"
    by (simp add: blocks_bound_def sample_managers kv_blocks_def cdiv_def bsize_def fresh_manager_def sample_spec_def)
  have "bsize (single_type_managers (coordinator sample_kv) ! 0) = 2"
    by (simp add: sample_managers bsize_def fresh_manager_def sample_spec_def)
  with allocate_slots_correct [OF sample_kv_new sample_spec_plain(1,2,2,3) rtranclp.rtrancl_refl sample_slots, of False False 0]
    bound sample_free sample_managers sample_kv_facts(6)
  show ?thesis by (auto simp: hashed_request_def Let_def split: option.splits)
qed

text \<open>
  C37: For groups of full, sliding window and chunked local attention, and for calls without tokens computed
  elsewhere (\<open>num_external_computed_tokens\<close> is 0): in every state such calls can reach from a new manager,
  the reference count of a block is the number of times the tables of the requests list it, and every block that
  no table lists is free. A table lists blocks of the pool, none but the null block twice. A block a request still writes, one it has not cached, is listed in no other
  table, and no lookup can find it.
\<close>

theorem kv_reachable_invariant:
  assumes new: "new_KVCacheManager n specs model_len hash_sz caching eagle stats events dcp pcp me = Inr kv0"
    and specs: "\<forall>spec \<in> set specs. plain_spec spec" "0 < dcp" "0 < pcp" "length specs < 2 ^ 32"
    and run: "(kv_step sha256 ui)\<^sup>*\<^sup>* kv0 kv"
  shows "(\<forall>b > 0. refs (pool_of kv) b = int (listings kv b)) \<and>
    get_num_free_blocks (pool_of kv) = num_gpu_blocks (pool_of kv) - 1 - int (card {b. 0 < b \<and> 0 < listings kv b}) \<and>
    (\<forall>m \<in> set (single_type_managers (coordinator kv)). \<forall>rid.
       let bs = blocks_of m rid
       in set bs \<subseteq> Block ` {..<pool_size (pool_of kv)} \<and> distinct (filter (\<lambda>x. x \<noteq> Block 0) bs) \<and>
          (\<forall>b. 0 < b \<and> Block b \<in> set (drop (cached_count m rid) bs) \<longrightarrow>
             listings kv b = 1 \<and> (kv_enable_caching kv \<longrightarrow> hash_of (pool_of kv) b = None)))"
proof -
  let ?held = "all_held (coordinator kv)"
  have wf: "kv_wf kv" using kv_steps_wf [OF run new_kv_wf(1) [OF new specs]] by simp
  then have ok: "pool_ok (pool_of kv) ?held" by (simp add: kv_wf_def coordinator_wf_def)
  then have pos: "b \<in># ?held \<Longrightarrow> 0 < b" for b by (auto simp: pool_ok_def pool_rel_def refs_ok_def)
  have "b \<in># ?held \<longleftrightarrow> 0 < b \<and> 0 < listings kv b" for b
    using pos [of b] count_all_held [of b kv] by (metis count_greater_zero_iff)
  then have "set_mset ?held = {b. 0 < b \<and> 0 < listings kv b}" by blast
  with free_count [OF ok] have free: "get_num_free_blocks (pool_of kv) =
      num_gpu_blocks (pool_of kv) - 1 - int (card {b. 0 < b \<and> 0 < listings kv b})" by simp
  have tables: "set bs \<subseteq> Block ` {..<pool_size (pool_of kv)} \<and> distinct (filter (\<lambda>x. x \<noteq> Block 0) bs) \<and>
      (\<forall>b. 0 < b \<and> Block b \<in> set (drop (cached_count m rid) bs) \<longrightarrow>
         listings kv b = 1 \<and> (kv_enable_caching kv \<longrightarrow> hash_of (pool_of kv) b = None))"
    if "m \<in> set (single_type_managers (coordinator kv))" "bs = blocks_of m rid" for m rid bs
  proof -
    from wf that have bs: "blocks_wf (pool_of kv) bs" "\<forall>b \<in># owned (drop (cached_count m rid) bs). unshared (pool_of kv) ?held b"
      and caching: "enable_caching (pool_of kv) = kv_enable_caching kv"
      by (auto simp: kv_wf_def coordinator_wf_def manager_wf_def)
    have "bs = map Block (map nat_of bs)" using blocks_wf_map [OF bs(1)] by blast
    moreover have "filter (\<lambda>x. x \<noteq> Block 0) (map Block xs) = map Block (filter (\<lambda>b. b \<noteq> 0) xs)" for xs
      by (induction xs) simp_all
    ultimately have "distinct (filter (\<lambda>x. x \<noteq> Block 0) bs)"
      using bs(1) by (metis blocks_wf_def distinct_map inj_onI block_ref.inject(1))
    moreover have "listings kv b = 1 \<and> (kv_enable_caching kv \<longrightarrow> hash_of (pool_of kv) b = None)"
      if b: "0 < b" "Block b \<in> set (drop (cached_count m rid) bs)" for b
    proof -
      let ?bs = "drop (cached_count m rid) bs"
      have "count_list ?bs (Block b) \<noteq> 0" using b(2) by (simp add: count_list_0_iff)
      then have "b \<in># owned ?bs" using count_owned [OF b(1), of ?bs] by (metis count_eq_zero_iff)
      with bs(2) have "unshared (pool_of kv) ?held b" by blast
      with caching count_all_held [OF b(1), of kv] show ?thesis by (simp add: unshared_def)
    qed
    ultimately show ?thesis using bs(1) by (auto simp: blocks_wf_def)
  qed
  have "\<forall>b > 0. refs (pool_of kv) b = int (listings kv b)"
    using pool_ok_static(4) [OF ok] by (simp add: count_all_held)
  with free tables show ?thesis unfolding Let_def by blast
qed

lemma sample_allocated:
  "map_sum id (\<lambda>(res, r', kv'). (listings kv' 1, table (coordinator kv') 0 (request_id hashed_request)))
     (allocate_slots id False hashed_request 2 0 None 0 0 False 0 sample_kv) = Inr (1, [Block 1])"
  by code_simp

theorem kv_reachable_invariant_witness:
  "\<exists>kv. (kv_step id False)\<^sup>*\<^sup>* sample_kv kv \<and> table (coordinator kv) 0 (request_id hashed_request) = [Block 1] \<and>
     listings kv 1 = 1 \<and> refs (pool_of kv) 1 = 1"
proof -
  obtain res r' kv where run: "allocate_slots id False hashed_request 2 0 None 0 0 False 0 sample_kv = Inr (res, r', kv)"
    and kv: "listings kv 1 = 1" "table (coordinator kv) 0 (request_id hashed_request) = [Block 1]"
    using sample_allocated by (cases "allocate_slots id False hashed_request 2 0 None 0 0 False 0 sample_kv") auto
  have "(kv_step id False)\<^sup>*\<^sup>* sample_kv kv"
    by (rule r_into_rtranclp) (rule kv_step.allocating [OF sample_slots run])
  with kv kv_reachable_invariant [OF sample_kv_new sample_spec_plain(1,2,2,3) this] show ?thesis by auto
qed

text \<open>
  C38: Freeing a request gives back all it has. \<open>free\<close> always returns, the request has no blocks then and counts
  as a new one, the tables of the others are unchanged, and every block loses exactly the references of the
  request, so that a block only it lists becomes free.
\<close>

theorem kv_free_correct:
  fixes r :: Request and kv :: KVCacheManager
  assumes "kv_wf kv"
  defines "rid \<equiv> request_id r" and "c \<equiv> coordinator kv"
  shows "\<exists>kv'. kv_free r kv = Inr kv' \<and> kv_wf kv' \<and> only_request rid c (coordinator kv') \<and> new_request rid (coordinator kv') \<and>
    (\<forall>b > 0. refs (pool_of kv) b = refs (pool_of kv') b + int (\<Sum>g<groups c. count_list (table c g rid) (Block b)))"
proof -
  have wf: "coordinator_wf c" using assms(1) by (simp add: kv_wf_def c_def)
  from coordinator_free_ok [OF wf, of rid] obtain c' where
    c': "coordinator_free rid c = Inr c'" "coordinator_wf c'" "only_request rid c c'" "new_request rid c'" by blast
  have refs: "ref_cnt (blk (coordinator_pool d) (Block b)) = int (count (all_held d) b)" if "coordinator_wf d" "0 < b" for d b
    using pool_ok_static(4) that by (simp add: coordinator_wf_def)
  have "count (all_held c) b = count (all_held c') b + (\<Sum>g<groups c. count_list (table c g rid) (Block b))" if "0 < b" for b
    using arg_cong [OF all_held_freed [OF wf c'(2-4)], of "\<lambda>M. count M b"] that by (simp add: count_sum count_owned)
  with refs [OF wf] refs [OF c'(2)] have "\<forall>b > 0. refs (pool_of kv) b =
      ref_cnt (blk (coordinator_pool c') (Block b)) + int (\<Sum>g<groups c. count_list (table c g rid) (Block b))"
    by (simp add: c_def)
  with c' kv_wf_coordinator [OF assms(1) c'(2)] show ?thesis
    by (intro exI [of _ "kv\<lparr>coordinator := c'\<rparr>"]) (simp add: kv_free_def c_def rid_def)
qed

theorem kv_free_correct_witness:
  "\<exists>kv'. kv_free hashed_request sample_kv = Inr kv' \<and> new_request (request_id hashed_request) (coordinator kv')"
  using kv_free_correct [OF sample_kv_facts(1), of hashed_request] by blast

end
