(* ===== verification/KV_Reuse.thy ===== *)
theory KV_Reuse
  imports KV_Lifecycle
begin

text \<open>
  The cached prefix of a request: \<open>get_computed_blocks\<close> finds the longest prefix that all groups can use,
  for groups of one specification of full attention and of sliding windows, without EAGLE and context
  parallelism; what it returns then has the form \<open>allocate_slots\<close> expects of a hit.
\<close>

section \<open>The blocks of a hit\<close>

text \<open>The hashes of a request's blocks differ: they come from one hash function without collisions\<close>

definition hashes_apart :: "bytes list \<Rightarrow> bool" where
  "hashes_apart hs \<longleftrightarrow> distinct hs \<and> (\<forall>h \<in> set hs. \<forall>h' \<in> set hs. length h = length h')"

lemma spec_hash_apart:
  assumes "hashes_apart hs" and "0 < k" and "k = block_size spec div hash_sz"
    and "i < length hs div k" and "j < length hs div k" and "spec_hash hash_sz spec hs i = spec_hash hash_sz spec hs j"
  shows "i = j"
proof -
  have bound: "m * k < length hs" "m * k + k \<le> length hs" if "m < length hs div k" for m
  proof -
    have "Suc m * k \<le> length hs div k * k" using that by (intro mult_le_mono1) simp
    also have "\<dots> \<le> length hs" by simp
    finally show "m * k < length hs" "m * k + k \<le> length hs" using assms(2) by simp_all
  qed
  have first: "\<exists>rest. spec_hash hash_sz spec hs m = hs ! (m * k) @ rest" if "m < length hs div k" for m
  proof -
    have "py_slice hs (m * k) (m * k + k) = hs ! (m * k) # py_slice hs (Suc (m * k)) (m * k + k)"
      using bound [OF that] assms(2) by (simp add: py_slice_def Cons_nth_drop_Suc [symmetric])
    with assms(3) show ?thesis by (simp add: spec_hash_def Let_def)
  qed
  have "hs ! (i * k) \<in> set hs" "hs ! (j * k) \<in> set hs" using bound assms(4,5) by simp_all
  with assms(1) have "length (hs ! (i * k)) = length (hs ! (j * k))" unfolding hashes_apart_def by blast
  with first [OF assms(4)] first [OF assms(5)] assms(6) have "hs ! (i * k) = hs ! (j * k)" by auto
  with assms(1) bound [OF assms(4)] bound [OF assms(5)] have "i * k = j * k" by (simp add: hashes_apart_def nth_eq_iff_index_eq)
  with assms(2) show ?thesis by simp
qed

lemma cached_at_block:
  assumes "pool_ok p held" and "g < 2 ^ 32" and "cached_at p hash_sz hs spec g i = Some x"
  shows "\<exists>b key. x = Block b \<and> 0 < b \<and> b < pool_size p \<and>
    make_block_hash_with_group_id (spec_hash hash_sz spec hs i) (int g) = Inr key \<and> hash_of p b = Some key"
proof -
  from pool_ok_rel [OF assms(1)] obtain xs where "pool_rel p held xs" by blast
  moreover have "int g < 2 ^ 32" using assms(2) by (metis of_nat_less_iff of_nat_numeral of_nat_power)
  ultimately show ?thesis
    using get_cached_block_ok [of p held xs "[int g]" "spec_hash hash_sz spec hs i"] cached_for_single [OF assms(1), of "int g"] assms(3)
    by (auto simp: cached_at_def list_all2_Cons1)
qed

lemma hit_column_ok:
  assumes ok: "pool_ok p held" and "g < 2 ^ 32" and use: "usable p hash_sz hs spec g len"
    and apart: "hashes_apart hs" and sizes: "0 < hash_sz" "hash_sz dvd block_size spec" "0 < block_size spec"
    and "len div hash_sz \<le> length hs"
  shows "computed_ok p (hit_column p hash_sz hs spec g len)"
proof -
  let ?L = "len div block_size spec" and ?k = "block_size spec div hash_sz"
  let ?x = "\<lambda>i. if ?L - blocks_read spec ?L \<le> i then the (cached_at p hash_sz hs spec g i) else Block 0"
  have k: "0 < ?k" using sizes by (auto simp: dvd_def)
  have "block_size spec = hash_sz * ?k" using sizes(2) by simp
  then have "?L = len div hash_sz div ?k" by (metis div_mult2_eq)
  then have L: "?L \<le> length hs div ?k" using div_le_mono [OF assms(8), of ?k] by simp
  have read: "\<exists>b key. ?x i = Block b \<and> 0 < b \<and> b < pool_size p \<and>
      make_block_hash_with_group_id (spec_hash hash_sz spec hs i) (int g) = Inr key \<and> hash_of p b = Some key"
    if "i < ?L" "?L - blocks_read spec ?L \<le> i" for i
  proof -
    from use that obtain x where "cached_at p hash_sz hs spec g i = Some x" unfolding usable_def Let_def by force
    with cached_at_block [OF ok assms(2) this] that(2) show ?thesis by simp
  qed
  have null: "null_block p = Block 0" "0 < pool_size p" using pool_ok_static [OF ok] by simp_all
  have same: "i = j" if "i < ?L" "j < ?L" "nat_of (?x i) \<noteq> 0" "nat_of (?x i) = nat_of (?x j)" for i j
  proof -
    have "?L - blocks_read spec ?L \<le> i" "?L - blocks_read spec ?L \<le> j" using that(3,4) by (auto split: if_splits)
    with read [OF that(1)] read [OF that(2)] that(4) obtain key where
      "make_block_hash_with_group_id (spec_hash hash_sz spec hs i) (int g) = Inr key"
      "make_block_hash_with_group_id (spec_hash hash_sz spec hs j) (int g) = Inr key" by fastforce
    then have "spec_hash hash_sz spec hs i = spec_hash hash_sz spec hs j" using make_block_hash_inject by blast
    from spec_hash_apart [OF apart k refl _ _ this] L that(1,2) show ?thesis by simp
  qed
  have col: "hit_column p hash_sz hs spec g len = map ?x [0..<?L]" by (simp add: hit_column_def Let_def null)
  have "distinct (map (nat_of \<circ> ?x) (filter (\<lambda>i. nat_of (?x i) \<noteq> 0) [0..<?L]))"
    using same by (auto simp: distinct_map inj_on_def)
  then have "distinct (filter (\<lambda>b. b \<noteq> 0) (map nat_of (map ?x [0..<?L])))" by (simp add: filter_map comp_def)
  moreover have "\<exists>b < pool_size p. ?x i = Block b" if "i < ?L" for i using read [OF that] null(2) by auto
  then have "\<forall>y \<in> set (map ?x [0..<?L]). \<exists>b < pool_size p. y = Block b" unfolding set_map set_upt ball_simps(9) by simp
  moreover have "hash_of p b \<noteq> None" if b: "b \<in># owned (map ?x [0..<?L])" for b
  proof -
    from b obtain i where "i < ?L" "b = nat_of (?x i)" "b \<noteq> 0" by (auto simp: owned_def)
    with read [of i] show ?thesis by (auto split: if_splits)
  qed
  ultimately show ?thesis unfolding computed_ok_def blocks_wf_def col by blast
qed

section \<open>The search of a coordinator\<close>

text \<open>A length all groups can use: whole blocks of each, with the blocks each of them reads in the cache\<close>

definition common_prefix :: "BlockPool \<Rightarrow> nat \<Rightarrow> bytes list \<Rightarrow> KVCacheSpec list \<Rightarrow> nat \<Rightarrow> bool" where
  "common_prefix p hash_sz hs specs len \<longleftrightarrow>
     (\<forall>g < length specs. block_size (specs ! g) dvd len \<and> usable p hash_sz hs (specs ! g) g len)"

lemma fold_lcm_least:
  fixes n :: nat
  assumes "n dvd len" and "\<forall>spec \<in> fst ` set ags. block_size spec dvd len"
  shows "fold (\<lambda>(spec, _). lcm (block_size spec)) ags n dvd len"
  using assms by (induction ags arbitrary: n) auto

text \<open>How the coordinator of a new manager searches\<close>

definition searches :: "KVCacheSpec list \<Rightarrow> nat \<Rightarrow> cache_search \<Rightarrow> bool" where
  "searches specs hash_sz search \<longleftrightarrow>
     (\<exists>spec. specs = [spec] \<and> block_size spec = hash_sz \<and> search = Unitary spec False 1 1) \<or>
     (\<exists>co. new_hybrid_coordinator specs hash_sz False 1 1 = Inr co \<and> search = Hybrid co)"

lemma new_searches:
  assumes "new_KVCacheManager n specs model_len hash_sz True False stats events 1 1 me = Inr kv"
  shows "searches specs hash_sz (cache_search (coordinator kv))"
  using assms
  by (auto simp: new_KVCacheManager_def get_kv_cache_coordinator_def rbind_eq_Inr require_eq_Inr searches_def Let_def
    split: list.splits)

lemma coordinator_search_greatest:
  assumes "searches specs hash_sz (cache_search c)" and ok: "pool_ok (coordinator_pool c) held"
    and specs: "\<forall>spec \<in> set specs. searchable spec" "one_full specs" "length specs \<le> 2 ^ 32"
    and hashes: "max_length div hash_sz \<le> length hs"
  defines "p \<equiv> coordinator_pool c"
  shows "\<exists>len. coordinator_cache_hit c hs max_length = Inr (map (\<lambda>g. hit_column p hash_sz hs (specs ! g) g len) [0..<length specs], len) \<and>
    len \<le> max_length \<and> common_prefix p hash_sz hs specs len \<and>
    (\<forall>len' \<le> max_length. common_prefix p hash_sz hs specs len' \<longrightarrow> len' \<le> len) \<and>
    0 < hash_sz \<and> (\<forall>spec \<in> set specs. hash_sz dvd block_size spec)"
  using assms(1) unfolding searches_def
proof (elim disjE exE conjE)
  fix spec assume s: "specs = [spec]" "block_size spec = hash_sz" "cache_search c = Unitary spec False 1 1"
  have "0 < hash_sz" using specs(1) s by (auto simp: searchable_def)
  with group_search [OF ok, of "[0]" spec hash_sz hash_sz max_length hs] specs(1) s hashes obtain rows where
    "find_longest_cache_hit p spec False hash_sz 1 [0] hs max_length = Inr rows" and
    rows: "length rows * hash_sz \<le> max_length" "usable p hash_sz hs spec 0 (length rows * hash_sz)"
      "\<And>len'. len' \<le> max_length \<Longrightarrow> hash_sz dvd len' \<Longrightarrow> usable p hash_sz hs spec 0 len' \<Longrightarrow> len' \<le> length rows * hash_sz"
      "columns 1 rows = [hit_column p hash_sz hs spec 0 (length rows * hash_sz)]"
    by (auto simp: groups_ok_def hashes_for_def Let_def p_def)
  then have "coordinator_cache_hit c hs max_length = Inr (columns 1 rows, length rows * hash_sz)"
    using s by (simp add: coordinator_cache_hit_def unitary_cache_hit_def p_def)
  with rows s \<open>0 < hash_sz\<close> show ?thesis by (intro exI [of _ "length rows * hash_sz"]) (auto simp: common_prefix_def)
next
  fix co assume co: "new_hybrid_coordinator specs hash_sz False 1 1 = Inr co" "cache_search c = Hybrid co"
  note coord = new_hybrid_coordinated [OF co(1) ok specs]
  have "lcm_block_size co = fold (\<lambda>(spec, _). lcm (block_size spec)) (split_groups specs) 1"
    using co(1) by (auto simp: new_hybrid_coordinator_def rbind_eq_Inr require_eq_Inr Let_def)
  moreover have "fst ` set (split_groups specs) = set specs" using groups_of_split [of specs] by (simp add: groups_of_def)
  ultimately have lcm: "lcm_block_size co dvd len \<longleftrightarrow> (\<forall>spec \<in> set specs. block_size spec dvd len)" for len
    using fold_lcm_least [of 1 len "split_groups specs"] coord(1) by (auto simp: coordinated_def intro: dvd_trans)
  have common: "lcm_block_size co dvd len \<and> (\<forall>g < length specs. usable p (hash_size co) hs (specs ! g) g len) \<longleftrightarrow>
      common_prefix p hash_sz hs specs len" for len
    unfolding lcm common_prefix_def coord(2) by (auto simp: all_set_conv_all_nth)
  from hybrid_cache_hit_greatest [OF coord(1), of max_length hs] hashes coord co(2) show ?thesis
    unfolding common [unfolded p_def coord(2)] p_def by (auto simp: coordinator_cache_hit_def coordinated_def common [unfolded p_def coord(2)])
qed

section \<open>Theorems\<close>

text \<open>
  C39: A request reuses as much of the cache as it can. The manager is one without EAGLE and without context
  parallelism (\<open>dcp\<close> and \<open>pcp\<close> are 1), whose groups are full attention (all of one specification) and
  sliding windows of at least two tokens; chunked local attention and recurrent state are excluded. In every
  state that calls without tokens computed elsewhere can reach, \<open>get_computed_blocks\<close> for a request with at
  least one token, whose full blocks are all hashed, with different hashes, returns the greatest length, short of the last token, that is a whole number of
  blocks in every group and whose blocks every group finds in the cache as far as its attention reads them. The
  blocks it returns are one list per group, each as long as the hit, of different blocks that carry a hash.
\<close>

theorem get_computed_blocks_longest:
  assumes new: "new_KVCacheManager n specs model_len hash_sz True False stats events 1 1 me = Inr kv0"
    and specs: "\<forall>spec \<in> set specs. plain_spec spec \<and> searchable spec" "one_full specs" "length specs < 2 ^ 32"
    and run: "(kv_step sha256 ui)\<^sup>*\<^sup>* kv0 kv"
    and req: "0 < num_tokens r" "\<not> skip_reading_prefix_cache r" "num_tokens r div hash_sz \<le> length (block_hashes r)" "hashes_apart (block_hashes r)"
  defines "usable_length len \<equiv> len \<le> num_tokens r - 1 \<and> common_prefix (pool_of kv) hash_sz (block_hashes r) specs len"
  shows "\<exists>hit len kv'. get_computed_blocks r kv = Inr ((hit, len), kv') \<and> coordinator kv' = coordinator kv \<and>
    usable_length len \<and> (\<forall>len'. usable_length len' \<longrightarrow> len' \<le> len) \<and> hits_fit kv' (int len) hit"
proof -
  let ?p = "pool_of kv" and ?hs = "block_hashes r" and ?N = "num_tokens r - 1"
  have plain: "\<forall>spec \<in> set specs. plain_spec spec" using specs(1) by blast
  note kv0 = new_kv_wf [OF new plain _ _ specs(3), simplified]
  from kv_steps_wf [OF run kv0(1)] have wf: "kv_wf kv" and same: "same_setup kv0 kv" by simp_all
  then have groups: "num_kv_cache_groups kv = length specs" and ok: "pool_ok ?p (all_held (coordinator kv))"
    and search: "searches specs hash_sz (cache_search (coordinator kv))" and caching: "kv_enable_caching kv"
    using kv0 new_searches [OF new]
    by (auto simp: same_setup_def kv_wf_def coordinator_wf_def pool_settings_def)
  have size: "manager_block_size (single_type_managers (coordinator kv) ! g) = block_size (specs ! g)" if "g < length specs" for g
    using same kv0(2) that groups by (simp add: same_setup_def same_manager_def fresh_manager_def nth_enumerate_eq)
  have "?N div hash_sz \<le> num_tokens r div hash_sz" by (rule div_le_mono) simp
  with req(3) have N: "?N div hash_sz \<le> length ?hs" by simp
  from coordinator_search_greatest [OF search ok _ specs(2) _ N] specs(1,3) obtain len where
    hit: "coordinator_cache_hit (coordinator kv) ?hs ?N = Inr (map (\<lambda>g. hit_column ?p hash_sz ?hs (specs ! g) g len) [0..<length specs], len)"
      "len \<le> ?N" "common_prefix ?p hash_sz ?hs specs len" "\<forall>len' \<le> ?N. common_prefix ?p hash_sz ?hs specs len' \<longrightarrow> len' \<le> len"
      "0 < hash_sz" "\<forall>spec \<in> set specs. hash_sz dvd block_size spec" by auto
  let ?cols = "map (\<lambda>g. hit_column ?p hash_sz ?hs (specs ! g) g len) [0..<length specs]"
  have "computed_ok ?p (hit_column ?p hash_sz ?hs (specs ! g) g len) \<and> int (len div block_size (specs ! g)) * int (block_size (specs ! g)) = int len"
    if g: "g < length specs" for g
  proof
    have spec: "specs ! g \<in> set specs" "g < 2 ^ 32" using g specs(3) by simp_all
    with specs(1) hit(3,5,6) g show "computed_ok ?p (hit_column ?p hash_sz ?hs (specs ! g) g len)"
      using le_trans [OF div_le_mono [OF hit(2)] N]
      by (intro hit_column_ok [OF ok _ _ req(4)]) (auto simp: common_prefix_def searchable_def)
    from hit(3) g have "block_size (specs ! g) dvd len" by (simp add: common_prefix_def)
    then show "int (len div block_size (specs ! g)) * int (block_size (specs ! g)) = int len" by (simp flip: of_nat_mult)
  qed
  then have fit: "hits_fit kv (int len) (create_kv_cache_blocks ?cols)"
    using groups caching size by (simp add: hits_fit_def kv_blocks_create bsize_def)
  let ?kv = "kv\<lparr>prefix_cache_stats := map_option (record_query (num_tokens r) len (num_preemptions r > 0)) (prefix_cache_stats kv)\<rparr>"
  have "hits_fit ?kv (int len) (create_kv_cache_blocks ?cols)" using fit by (simp add: hits_fit_def)
  moreover have "get_computed_blocks r kv = Inr ((create_kv_cache_blocks ?cols, len), ?kv)"
    using caching req(2) hit(1) by (simp add: get_computed_blocks_def)
  ultimately show ?thesis using hit(2-4) unfolding usable_length_def
    by (intro exI [of _ "create_kv_cache_blocks ?cols"] exI [of _ len] exI [of _ ?kv]) auto
qed

theorem get_computed_blocks_longest_witness:
  "\<exists>hit kv'. get_computed_blocks hashed_request sample_kv = Inr ((hit, 0), kv') \<and> hits_fit kv' 0 hit"
proof -
  have specs: "\<forall>spec \<in> set [sample_spec]. plain_spec spec \<and> searchable spec" "one_full [sample_spec]"
    by (simp_all add: plain_spec_def searchable_def one_full_def sample_spec_def)
  have req: "0 < num_tokens hashed_request" "\<not> skip_reading_prefix_cache hashed_request" "num_tokens hashed_request div 2 \<le> length (block_hashes hashed_request)"
    "hashes_apart (block_hashes hashed_request)" by (simp_all add: hashed_request_def num_tokens_def hashes_apart_def)
  from get_computed_blocks_longest [OF sample_kv_new specs sample_spec_plain(3) rtranclp.rtrancl_refl req] obtain hit len kv' where
    "get_computed_blocks hashed_request sample_kv = Inr ((hit, len), kv')" "hits_fit kv' (int len) hit"
    "len \<le> 1" "2 dvd len"
    by (auto simp: common_prefix_def hashed_request_def num_tokens_def sample_spec_def)
  moreover from this(3,4) have "len = 0" by (auto elim: dvdE)
  ultimately show ?thesis by auto
qed

text \<open>
  C40: The rounds of the hybrid coordinator end with the best common hit. A coordinator without EAGLE and without
  context parallelism, for groups of full attention, sliding windows and recurrent state (one specification of
  full attention at most), alternates between
  the groups until none of them shortens the hit; it returns, and the length is the greatest one that is a
  multiple of all block sizes and usable for every group, each with its own blocks of that length.
\<close>

theorem hybrid_search_optimal:
  assumes "new_hybrid_coordinator specs hash_sz False 1 1 = Inr co" and "pool_ok p held"
    and "\<forall>spec \<in> set specs. searchable spec" "one_full specs" "length specs \<le> 2 ^ 32"
    and "max_length div hash_sz \<le> length hs"
  shows "\<exists>len. hybrid_cache_hit p co hs max_length =
      Inr (map (\<lambda>g. hit_column p hash_sz hs (specs ! g) g len) [0..<length specs], len) \<and>
    len \<le> max_length \<and> common_prefix p hash_sz hs specs len \<and>
    (\<forall>len' \<le> max_length. common_prefix p hash_sz hs specs len' \<longrightarrow> len' \<le> len)"
proof -
  define c where "c = \<lparr>coordinator_pool = p, single_type_managers = [], cache_search = Hybrid co\<rparr>"
  have "searches specs hash_sz (cache_search c)" using assms(1) by (simp add: searches_def c_def)
  from coordinator_search_greatest [OF this, of held max_length hs] assms(2-6) show ?thesis
    by (auto simp: c_def coordinator_cache_hit_def)
qed

definition sample_window :: KVCacheSpec where
  "sample_window = \<lparr>attention = SlidingWindowSpec 4, block_size = 4, layout = 0\<rparr>"

theorem hybrid_search_optimal_witness:
  "\<exists>co. new_hybrid_coordinator [sample_spec, sample_window] 2 False 1 1 = Inr co \<and>
    hybrid_cache_hit sample_pool co [[7], [8]] 5 = Inr ([[], []], 0)"
proof -
  obtain co where co: "new_hybrid_coordinator [sample_spec, sample_window] 2 False 1 1 = Inr co"
    by (simp add: new_hybrid_coordinator_def split_groups_def sample_spec_def sample_window_def)
  have specs: "\<forall>spec \<in> set [sample_spec, sample_window]. searchable spec" "one_full [sample_spec, sample_window]"
    "length [sample_spec, sample_window] \<le> 2 ^ 32"
    by (simp_all add: searchable_def one_full_def sample_spec_def sample_window_def is_full_attention_def)
  note ok = new_BlockPool_ok [OF sample_pool_new]
  from hybrid_search_optimal [OF co ok specs(1-3), of 5 "[[7], [8]]"] obtain len where
    len: "hybrid_cache_hit sample_pool co [[7], [8]] 5 =
      Inr ([hit_column sample_pool 2 [[7], [8]] sample_spec 0 len, hit_column sample_pool 2 [[7], [8]] sample_window 1 len], len)"
    "len \<le> 5" "4 dvd len" "usable sample_pool 2 [[7], [8]] sample_spec 0 len"
    by (auto simp: common_prefix_def sample_window_def upt_conv_Cons less_Suc_eq)
  have miss: "cached_at sample_pool 2 [[7], [8]] sample_spec 0 0 = None"
  proof (rule ccontr)
    assume "cached_at sample_pool 2 [[7], [8]] sample_spec 0 0 \<noteq> None"
    then obtain x where "cached_at sample_pool 2 [[7], [8]] sample_spec 0 0 = Some x" by blast
    from cached_at_block [OF ok _ this] new_BlockPool_rel [of 4 True 2 True False] sample_pool_new show False by auto
  qed
  have "len = 0"
  proof (rule ccontr)
    assume "len \<noteq> 0"
    with len(2,3) have "len = 4" by (auto elim!: dvdE)
    with len(4) miss show False by (auto simp: usable_def blocks_read_def sample_spec_def Let_def dest!: bspec [of _ _ 0])
  qed
  with len(1) co show ?thesis by (simp add: hit_column_def sample_spec_def sample_window_def)
qed

end
