(* ===== verification/Encoder_Cache.thy ===== *)
theory Encoder_Cache
  imports Request_Model "HOL-Library.AList"
begin

text \<open>
  The bookkeeping of cached encoder outputs (\<open>src/vllm/vllm/v1/core/encoder_cache_manager.py\<close>):
  the manager of multimodal models, the manager of encoder-decoder models, the budget, and the
  scheduler's admission of encoder inputs (\<open>src/vllm/vllm/v1/core/sched/scheduler.py\<close>), which
  works over either manager.
\<close>

section \<open>The manager of multimodal models\<close>

type_synonym mm_hash = "string option"

text \<open>\<open>freeable\<close> is an ordered dict, oldest entry first.\<close>

record EncoderCacheManager =
  cache_size :: int
  num_free_slots :: int
  num_freeable_slots :: int
  cached :: "mm_hash \<Rightarrow> string set option"
  freeable :: "(mm_hash \<times> nat) list"
  freed :: "mm_hash list"

definition new_EncoderCacheManager :: "int \<Rightarrow> EncoderCacheManager" where
  "new_EncoderCacheManager n = \<lparr>cache_size = n, num_free_slots = n, num_freeable_slots = n,
     cached = Map.empty, freeable = [], freed = []\<rparr>"

definition ec_reset :: "EncoderCacheManager \<Rightarrow> EncoderCacheManager" where
  "ec_reset s = s\<lparr>cached := Map.empty, freeable := [], freed := [],
     num_free_slots := cache_size s, num_freeable_slots := cache_size s\<rparr>"

definition mm_hash_of :: "Request \<Rightarrow> int \<Rightarrow> mm_hash res" where
  "mm_hash_of r input_id = rbind (py_nth (mm_features r) input_id) (\<lambda>f. Inr (mm_identifier f))"

definition check_and_update_cache :: "Request \<Rightarrow> int \<Rightarrow> EncoderCacheManager \<Rightarrow> (bool \<times> EncoderCacheManager) res" where
  "check_and_update_cache r input_id s =
     rbind (mm_hash_of r input_id) (\<lambda>h.
     case cached s h of
       None \<Rightarrow> Inr (False, s)
     | Some ids \<Rightarrow>
         rbind (if ids = {}
                then rbind (of_option (KeyError []) (map_of (freeable s) h)) (\<lambda>n.
                  Inr (s\<lparr>freeable := AList.delete h (freeable s),
                         num_freeable_slots := num_freeable_slots s - int n\<rparr>))
                else Inr s) (\<lambda>s1.
         Inr (True, s1\<lparr>cached := (cached s1)(h \<mapsto> insert (request_id r) ids)\<rparr>)))"

text \<open>The eviction loop of \<open>can_allocate\<close>\<close>

function evict_loop :: "int \<Rightarrow> EncoderCacheManager \<Rightarrow> EncoderCacheManager res" where
  "evict_loop num_embeds s =
     (if num_embeds \<le> num_free_slots s then Inr s
      else case freeable s of
        [] \<Rightarrow> Inl (KeyError ''dictionary is empty'')
      | (h, n) # rest \<Rightarrow>
          if cached s h = None then Inl (KeyError [])
          else evict_loop num_embeds
            (s\<lparr>freeable := rest, cached := (cached s)(h := None), freed := freed s @ [h],
               num_free_slots := num_free_slots s + int n\<rparr>))"
  by pat_completeness auto

termination
  by (relation "measure (\<lambda>(n, s). length (freeable s))") auto

declare evict_loop.simps [simp del]

definition can_allocate :: "Request \<Rightarrow> int \<Rightarrow> int \<Rightarrow> int \<Rightarrow> EncoderCacheManager \<Rightarrow> (bool \<times> EncoderCacheManager) res" where
  "can_allocate r input_id encoder_compute_budget num_embeds_to_schedule s =
     rbind (get_num_encoder_embeds r input_id) (\<lambda>n.
     if int n > encoder_compute_budget then Inr (False, s)
     else let num_embeds = int n + num_embeds_to_schedule
     in if num_embeds \<le> num_free_slots s then Inr (True, s)
        else if num_embeds > num_freeable_slots s then Inr (False, s)
        else rbind (evict_loop num_embeds s) (\<lambda>s'. Inr (True, s')))"

definition allocate :: "Request \<Rightarrow> int \<Rightarrow> EncoderCacheManager \<Rightarrow> EncoderCacheManager res" where
  "allocate r input_id s =
     rbind (mm_hash_of r input_id) (\<lambda>h.
     let s1 = (if cached s h = None then s\<lparr>cached := (cached s)(h \<mapsto> {})\<rparr> else s)
     in rbind (get_num_encoder_embeds r input_id) (\<lambda>n.
        rbind (require (num_free_slots s1 \<ge> int n) (AssertionError [])) (\<lambda>_.
        rbind (require (num_freeable_slots s1 \<ge> int n) (AssertionError [])) (\<lambda>_.
        Inr (s1\<lparr>cached := (cached s1)(h \<mapsto> insert (request_id r) (the (cached s1 h))),
                num_free_slots := num_free_slots s1 - int n,
                num_freeable_slots := num_freeable_slots s1 - int n\<rparr>)))))"

definition get_cached_input_ids :: "Request \<Rightarrow> EncoderCacheManager \<Rightarrow> nat set" where
  "get_cached_input_ids r s = {i \<in> {..<length (mm_features r)}. cached s (mm_identifier (mm_features r ! i)) \<noteq> None}"

definition free_encoder_input :: "Request \<Rightarrow> int \<Rightarrow> EncoderCacheManager \<Rightarrow> EncoderCacheManager res" where
  "free_encoder_input r input_id s =
     rbind (mm_hash_of r input_id) (\<lambda>h.
     case cached s h of
       None \<Rightarrow> Inr s
     | Some ids \<Rightarrow>
         if ids = {} then Inr s
         else let ids' = ids - {request_id r}; s1 = s\<lparr>cached := (cached s)(h \<mapsto> ids')\<rparr>
         in if ids' = {}
            then rbind (get_num_encoder_embeds r input_id) (\<lambda>n.
              Inr (s1\<lparr>freeable := AList.update h n (freeable s1),
                      num_freeable_slots := num_freeable_slots s1 + int n\<rparr>))
            else Inr s1)"

text \<open>\<open>free\<close>; \<open>order\<close> is the order in which the set of cached input ids is visited.\<close>

definition ec_free :: "nat list \<Rightarrow> Request \<Rightarrow> EncoderCacheManager \<Rightarrow> EncoderCacheManager res" where
  "ec_free order r s = fold_res (\<lambda>i. free_encoder_input r (int i)) order s"

definition get_freed_mm_hashes :: "EncoderCacheManager \<Rightarrow> mm_hash list \<times> EncoderCacheManager" where
  "get_freed_mm_hashes s = (freed s, s\<lparr>freed := []\<rparr>)"

section \<open>The budget\<close>

record SchedulerConfig =
  disable_chunked_mm_input :: bool
  max_num_batched_tokens :: int
  max_num_encoder_input_tokens :: int
  encoder_cache_size :: int

definition compute_mm_encoder_budget :: "SchedulerConfig \<Rightarrow> (string \<times> int) list \<Rightarrow> (int \<times> int) res" where
  "compute_mm_encoder_budget cfg mm_max_toks_per_item =
     (if mm_max_toks_per_item = [] then Inr (0, 0)
      else let max_tokens = Max (set (map snd mm_max_toks_per_item))
      in if disable_chunked_mm_input cfg \<and> max_tokens > max_num_batched_tokens cfg
         then Inl (ValueError ''Chunked MM input disabled but max_tokens_per_mm_item is larger than max_num_batched_tokens.'')
         else Inr (max (max_num_encoder_input_tokens cfg) max_tokens, max (encoder_cache_size cfg) max_tokens))"

section \<open>The manager of encoder-decoder models\<close>

record EncoderDecoderCacheManager =
  ed_cache_size :: int
  ed_free_slots :: int
  allocated :: "mm_hash list"
  to_free :: "mm_hash list"

definition new_EncoderDecoderCacheManager :: "int \<Rightarrow> EncoderDecoderCacheManager" where
  "new_EncoderDecoderCacheManager n =
     \<lparr>ed_cache_size = n, ed_free_slots = n, allocated = [], to_free = []\<rparr>"

definition ed_reset :: "EncoderDecoderCacheManager \<Rightarrow> EncoderDecoderCacheManager" where
  "ed_reset s = s\<lparr>ed_free_slots := ed_cache_size s, allocated := [], to_free := []\<rparr>"

definition ed_check_and_update_cache ::
    "Request \<Rightarrow> int \<Rightarrow> EncoderDecoderCacheManager \<Rightarrow> (bool \<times> EncoderDecoderCacheManager) res" where
  "ed_check_and_update_cache r input_id s = Inr (False, s)"

definition ed_can_allocate ::
    "Request \<Rightarrow> int \<Rightarrow> int \<Rightarrow> int \<Rightarrow> EncoderDecoderCacheManager \<Rightarrow> (bool \<times> EncoderDecoderCacheManager) res" where
  "ed_can_allocate r input_id encoder_compute_budget num_embeds_to_schedule s =
     rbind (get_num_encoder_embeds r input_id) (\<lambda>n.
     if int n > encoder_compute_budget then Inr (False, s)
     else Inr (int n + num_embeds_to_schedule \<le> ed_free_slots s, s))"

definition ed_allocate :: "Request \<Rightarrow> int \<Rightarrow> EncoderDecoderCacheManager \<Rightarrow> EncoderDecoderCacheManager res" where
  "ed_allocate r input_id s =
     rbind (get_num_encoder_embeds r input_id) (\<lambda>n.
     rbind (mm_hash_of r input_id) (\<lambda>h.
     Inr (s\<lparr>ed_free_slots := ed_free_slots s - int n, allocated := allocated s @ [h]\<rparr>)))"

definition ed_free_encoder_input :: "Request \<Rightarrow> int \<Rightarrow> EncoderDecoderCacheManager \<Rightarrow> EncoderDecoderCacheManager res" where
  "ed_free_encoder_input r input_id s =
     rbind (get_num_encoder_embeds r input_id) (\<lambda>n. Inr (s\<lparr>ed_free_slots := ed_free_slots s + int n\<rparr>))"

definition ed_free :: "Request \<Rightarrow> EncoderDecoderCacheManager \<Rightarrow> EncoderDecoderCacheManager res" where
  "ed_free r s = fold_res (\<lambda>i. ed_free_encoder_input r (int i)) [0..<length (mm_features r)] s"

definition ed_get_cached_input_ids :: "Request \<Rightarrow> EncoderDecoderCacheManager \<Rightarrow> nat set" where
  "ed_get_cached_input_ids r s = {..<length (mm_features r)}"

definition ed_get_freed_mm_hashes :: "EncoderDecoderCacheManager \<Rightarrow> mm_hash list \<times> EncoderDecoderCacheManager" where
  "ed_get_freed_mm_hashes s = (to_free s, s\<lparr>to_free := allocated s, allocated := []\<rparr>)"

section \<open>Admission of encoder inputs by the scheduler\<close>

text \<open>The trackers of \<open>_try_schedule_encoder_inputs\<close>; \<open>'m\<close> is the state of the manager.\<close>

record 'm admission =
  manager :: 'm
  to_schedule :: "nat list"
  new_tokens :: int
  compute_budget :: int
  external_load :: "nat list"
  hashes_to_schedule :: "mm_hash set"
  embeds_to_schedule :: int

text \<open>Whether the loop over the features goes on\<close>

datatype loop_control = Continue | Break

text \<open>
  One iteration. \<open>check\<close> and \<open>can\<close> are the methods of the manager, \<open>ec_connector\<close> is the
  membership test of the remote encoder cache, if there is one.
\<close>

definition admit_input ::
    "(Request \<Rightarrow> int \<Rightarrow> 'm \<Rightarrow> (bool \<times> 'm) res) \<Rightarrow> (Request \<Rightarrow> int \<Rightarrow> int \<Rightarrow> int \<Rightarrow> 'm \<Rightarrow> (bool \<times> 'm) res) \<Rightarrow>
     (mm_hash \<Rightarrow> bool) option \<Rightarrow> bool \<Rightarrow> bool \<Rightarrow> int \<Rightarrow> int \<Rightarrow> Request \<Rightarrow> nat \<Rightarrow> 'm admission \<Rightarrow>
     (loop_control \<times> 'm admission) res" where
  "admit_input check can ec_connector is_encoder_decoder no_chunking computed shift r i a =
     (let f = mm_features r ! i;
          start_pos = int (pr_offset (mm_position f));
          num_encoder_tokens = int (pr_length (mm_position f));
          h = mm_identifier f
      in rbind (get_num_embeds (mm_position f)) (\<lambda>num_encoder_embeds.
      if start_pos \<ge> computed + new_tokens a + shift then Inr (Break, a)
      else if is_encoder_decoder \<and> computed > 0 then
        rbind (require (start_pos = 0) (AssertionError ''Encoder input should be processed at the beginning of the sequence''))
          (\<lambda>_. Inr (Continue, a))
      else if start_pos + num_encoder_tokens \<le> computed then Inr (Continue, a)
      else if \<not> is_encoder_decoder \<and> h \<in> hashes_to_schedule a then Inr (Continue, a)
      else rbind (if is_encoder_decoder then Inr (False, manager a) else check r (int i) (manager a)) (\<lambda>(hit, m1).
      let a1 = a\<lparr>manager := m1\<rparr>
      in if hit then Inr (Continue, a1)
      else if no_chunking \<and> computed < start_pos \<and> computed + new_tokens a1 < start_pos + num_encoder_tokens
      then Inr (Break, a1\<lparr>new_tokens := max 0 (start_pos - (computed + shift))\<rparr>)
      else rbind (can r (int i) (compute_budget a1) (embeds_to_schedule a1) m1) (\<lambda>(ok, m2).
      let a2 = a1\<lparr>manager := m2\<rparr>
      in if \<not> ok then
        Inr (Break, a2\<lparr>new_tokens := (if computed + shift < start_pos then start_pos - (computed + shift) else 0)\<rparr>)
      else
        rbind (get_embeds_indices_in_range (mm_position f) (max 0 (computed - start_pos))
          (min num_encoder_tokens (computed + new_tokens a2 - start_pos))) (\<lambda>(e_start, e_end).
        if e_end - e_start = 0 then Inr (Continue, a2)
        else let a3 = a2\<lparr>hashes_to_schedule := insert h (hashes_to_schedule a2),
                         embeds_to_schedule := embeds_to_schedule a2 + int num_encoder_embeds\<rparr>
        in if (case ec_connector of None \<Rightarrow> False | Some has_item \<Rightarrow> has_item h)
           then Inr (Continue, a3\<lparr>external_load := external_load a3 @ [i]\<rparr>)
           else Inr (Continue, a3\<lparr>compute_budget := compute_budget a3 - int num_encoder_embeds,
                                  to_schedule := to_schedule a3 @ [i]\<rparr>))))))"

fun admit_loop ::
    "(nat \<Rightarrow> 'm admission \<Rightarrow> (loop_control \<times> 'm admission) res) \<Rightarrow> nat list \<Rightarrow> 'm admission \<Rightarrow> 'm admission res" where
  "admit_loop step [] a = Inr a"
| "admit_loop step (i # is) a =
     rbind (step i a) (\<lambda>(c, a'). case c of Break \<Rightarrow> Inr a' | Continue \<Rightarrow> admit_loop step is a')"

definition try_schedule_encoder_inputs ::
    "(Request \<Rightarrow> int \<Rightarrow> 'm \<Rightarrow> (bool \<times> 'm) res) \<Rightarrow> (Request \<Rightarrow> int \<Rightarrow> int \<Rightarrow> int \<Rightarrow> 'm \<Rightarrow> (bool \<times> 'm) res) \<Rightarrow>
     (mm_hash \<Rightarrow> bool) option \<Rightarrow> bool \<Rightarrow> bool \<Rightarrow> Request \<Rightarrow> int \<Rightarrow> int \<Rightarrow> int \<Rightarrow> int \<Rightarrow> 'm \<Rightarrow> 'm admission res" where
  "try_schedule_encoder_inputs check can ec_connector is_encoder_decoder no_chunking r computed num_new budget shift m =
     (let a = \<lparr>manager = m, to_schedule = [], new_tokens = num_new, compute_budget = budget,
               external_load = [], hashes_to_schedule = {}, embeds_to_schedule = 0\<rparr>
      in if num_new = 0 \<or> mm_features r = [] then Inr a
         else admit_loop (admit_input check can ec_connector is_encoder_decoder no_chunking computed shift r)
                [0..<length (mm_features r)] a)"

text \<open>The scheduler then allocates what was admitted, first the inputs to compute, then those to load.\<close>

definition allocate_scheduled ::
    "(Request \<Rightarrow> int \<Rightarrow> 'm \<Rightarrow> 'm res) \<Rightarrow> Request \<Rightarrow> 'm admission \<Rightarrow> 'm res" where
  "allocate_scheduled alloc r a =
     rbind (fold_res (\<lambda>i. alloc r (int i)) (to_schedule a) (manager a))
       (fold_res (\<lambda>i. alloc r (int i)) (external_load a))"

text \<open>\<open>_free_encoder_inputs\<close>: outputs already in the decoder's KV cache are released.\<close>

definition free_encoder_inputs ::
    "(Request \<Rightarrow> int \<Rightarrow> 'm \<Rightarrow> 'm res) \<Rightarrow> bool \<Rightarrow> nat list \<Rightarrow> int \<Rightarrow> Request \<Rightarrow> 'm \<Rightarrow> 'm res" where
  "free_encoder_inputs free_input is_encoder_decoder order computed r m =
     fold_res (\<lambda>i m.
       let p = mm_position (mm_features r ! i)
       in if is_encoder_decoder \<and> computed > 0 then free_input r (int i) m
          else if int (pr_offset p) + int (pr_length p) \<le> computed then free_input r (int i) m
          else Inr m) order m"

end
