(* ===== verification/Encoder_Cache_Correct.thy ===== *)
theory Encoder_Cache_Correct
  imports Encoder_Cache
begin

text \<open>
  The invariant of the encoder cache, the eviction loop, and the contract between the managers
  and the scheduler: what was admitted can be allocated.
\<close>

section \<open>The invariant\<close>

text \<open>
  \<open>embeds h\<close> is the number of embeddings of the media item with hash \<open>h\<close>: items with the same
  hash have the same content, hence the same number of embeddings.
\<close>

definition media_ok :: "(mm_hash \<Rightarrow> nat) \<Rightarrow> Request \<Rightarrow> bool" where
  "media_ok embeds r \<longleftrightarrow> (\<forall>f \<in> set (mm_features r).
     get_num_embeds (mm_position f) = Inr (embeds (mm_identifier f)) \<and>
     (\<forall>m. is_embed (mm_position f) = Some m \<longrightarrow> length m = pr_length (mm_position f)))"

definition ec_inv :: "(mm_hash \<Rightarrow> nat) \<Rightarrow> EncoderCacheManager \<Rightarrow> bool" where
  "ec_inv embeds s \<longleftrightarrow> finite (dom (cached s)) \<and> distinct (map fst (freeable s)) \<and>
     fst ` set (freeable s) = {h. cached s h = Some {}} \<and> (\<forall>(h, n) \<in> set (freeable s). n = embeds h) \<and>
     num_free_slots s = cache_size s - (\<Sum>h \<in> dom (cached s). int (embeds h)) \<and>
     num_freeable_slots s = num_free_slots s + (\<Sum>(h, n) \<leftarrow> freeable s. int n) \<and> 0 \<le> num_free_slots s"

lemma mm_hash_of_nth: "i < length (mm_features r) \<Longrightarrow> mm_hash_of r (int i) = Inr (mm_identifier (mm_features r ! i))"
  by (simp add: mm_hash_of_def py_nth_of_nat)

lemma embeds_of_nth:
  "media_ok embeds r \<Longrightarrow> i < length (mm_features r) \<Longrightarrow>
     get_num_encoder_embeds r (int i) = Inr (embeds (mm_identifier (mm_features r ! i)))"
  by (simp add: get_num_encoder_embeds_def py_nth_of_nat media_ok_def)

lemma ec_inv_new: "0 \<le> n \<Longrightarrow> ec_inv embeds (new_EncoderCacheManager n)"
  by (simp add: ec_inv_def new_EncoderCacheManager_def)

lemma ec_inv_reset: "0 \<le> cache_size s \<Longrightarrow> ec_inv embeds (ec_reset s)"
  by (simp add: ec_inv_def ec_reset_def)

lemma ec_inv_freed [simp]: "ec_inv embeds (s\<lparr>freed := hs\<rparr>) = ec_inv embeds s"
  by (simp add: ec_inv_def)

lemma freeable_sum_nonneg: "0 \<le> (\<Sum>(h, n) \<leftarrow> (xs :: (mm_hash \<times> nat) list). int n)"
  by (induction xs) auto

lemma freeable_sum_delete:
  assumes "distinct (map fst xs)" and "map_of xs h = Some n"
  shows "(\<Sum>(h, n) \<leftarrow> AList.delete h xs. int n) = (\<Sum>(h, n) \<leftarrow> xs. int n) - int n"
  using assms
proof (induction xs)
  case (Cons x xs)
  obtain k v where x: "x = (k, v)" by (cases x)
  show ?case
  proof (cases "k = h")
    case True
    with Cons.prems x have "h \<notin> fst ` set xs" by auto
    then have "AList.delete h xs = xs" by (simp add: delete_id)
    with True Cons.prems x show ?thesis by simp
  next
    case False
    with Cons x show ?thesis by simp
  qed
qed simp

text \<open>Changing the holders of an entry that stays referenced\<close>

lemma ec_inv_holders:
  assumes "ec_inv embeds s" and "cached s h = Some ids" and "ids \<noteq> {}" and "ids' \<noteq> {}"
  shows "ec_inv embeds (s\<lparr>cached := (cached s)(h \<mapsto> ids')\<rparr>)"
proof -
  have "dom ((cached s)(h \<mapsto> ids')) = dom (cached s)" using assms(2) by auto
  moreover have "{k. ((cached s)(h \<mapsto> ids')) k = Some {}} = {k. cached s k = Some {}}" using assms(2-4) by auto
  ultimately show ?thesis using assms(1) by (simp add: ec_inv_def)
qed

section \<open>The operations keep the invariant\<close>

lemma check_and_update_cache_ok:
  assumes "ec_inv embeds s" and "i < length (mm_features r)"
  defines "h \<equiv> mm_identifier (mm_features r ! i)"
  shows "\<exists>s'. check_and_update_cache r (int i) s = Inr (cached s h \<noteq> None, s') \<and> ec_inv embeds s' \<and>
    num_free_slots s' = num_free_slots s \<and> dom (cached s') = dom (cached s) \<and> cache_size s' = cache_size s \<and>
    cached s' = (cached s)(h := map_option (insert (request_id r)) (cached s h))"
proof (cases "cached s h")
  case None
  then show ?thesis using assms by (simp add: check_and_update_cache_def mm_hash_of_nth h_def fun_upd_idem)
next
  case (Some ids)
  show ?thesis
  proof (cases "ids = {}")
    case False
    with Some ec_inv_holders [OF assms(1) Some False, of "insert (request_id r) ids"] assms(2) show ?thesis
      by (auto simp: check_and_update_cache_def mm_hash_of_nth h_def)
  next
    case True
    then have "h \<in> fst ` set (freeable s)" using Some assms(1) by (simp add: ec_inv_def)
    then obtain n where n: "map_of (freeable s) h = Some n" by (metis map_of_eq_None_iff not_None_eq)
    define s' where "s' = s\<lparr>freeable := AList.delete h (freeable s), num_freeable_slots := num_freeable_slots s - int n,
      cached := (cached s)(h \<mapsto> {request_id r})\<rparr>"
    have run: "check_and_update_cache r (int i) s = Inr (True, s')"
      using Some True n assms(2) by (simp add: check_and_update_cache_def mm_hash_of_nth h_def s'_def)
    have dom: "dom (cached s') = dom (cached s)" using Some by (auto simp: s'_def)
    have keys: "fst ` set (AList.delete h (freeable s)) = {k. cached s' k = Some {}}"
    proof -
      have "fst ` set (AList.delete h (freeable s)) = fst ` set (freeable s) - {h}"
        by (auto simp: AList.delete_eq image_iff)
      with assms(1) show ?thesis by (auto simp: ec_inv_def s'_def)
    qed
    have "\<forall>(k, m) \<in> set (AList.delete h (freeable s)). m = embeds k"
      using assms(1) by (auto simp: ec_inv_def AList.delete_eq)
    then have "ec_inv embeds s'"
      using assms(1) keys dom freeable_sum_delete [OF _ n]
      by (simp add: ec_inv_def s'_def distinct_delete)
    with run dom Some True show ?thesis by (auto simp: s'_def)
  qed
qed

lemma allocate_ok:
  assumes "ec_inv embeds s" and "media_ok embeds r" and "i < length (mm_features r)"
  defines "h \<equiv> mm_identifier (mm_features r ! i)"
  assumes "cached s h = None" and "int (embeds h) \<le> num_free_slots s"
  shows "\<exists>s'. allocate r (int i) s = Inr s' \<and> ec_inv embeds s' \<and>
    cache_size s' = cache_size s \<and> num_free_slots s' = num_free_slots s - int (embeds h) \<and>
    cached s' = (cached s)(h \<mapsto> {request_id r})"
proof -
  have le: "int (embeds h) \<le> num_freeable_slots s"
    using assms(1,6) freeable_sum_nonneg [of "freeable s"] by (simp add: ec_inv_def)
  define s' where "s' = s\<lparr>cached := (cached s)(h \<mapsto> {request_id r}), num_free_slots := num_free_slots s - int (embeds h),
    num_freeable_slots := num_freeable_slots s - int (embeds h)\<rparr>"
  have "allocate r (int i) s = Inr s'"
    using assms le by (simp add: allocate_def mm_hash_of_nth embeds_of_nth s'_def Let_def)
  moreover have "ec_inv embeds s'"
  proof -
    have "dom (cached s') = insert h (dom (cached s))" "h \<notin> dom (cached s)" using assms(5) by (auto simp: s'_def)
    moreover have "{k. cached s' k = Some {}} = {k. cached s k = Some {}}" using assms(5) by (auto simp: s'_def)
    ultimately show ?thesis using assms(1,6) by (simp add: ec_inv_def s'_def)
  qed
  ultimately show ?thesis by (auto simp: s'_def)
qed

lemma free_encoder_input_ok:
  assumes "ec_inv embeds s" and "media_ok embeds r" and "i < length (mm_features r)"
  defines "h \<equiv> mm_identifier (mm_features r ! i)"
  shows "\<exists>s'. free_encoder_input r (int i) s = Inr s' \<and> ec_inv embeds s' \<and> num_free_slots s' = num_free_slots s \<and>
    cache_size s' = cache_size s \<and> cached s' = (cached s)(h := map_option (\<lambda>ids. ids - {request_id r}) (cached s h))"
proof (cases "cached s h")
  case None
  then show ?thesis using assms by (auto simp: free_encoder_input_def mm_hash_of_nth h_def)
next
  case (Some ids)
  consider (empty) "ids = {}" | (shared) "ids \<noteq> {}" "ids - {request_id r} \<noteq> {}" | (last) "ids \<noteq> {}" "ids - {request_id r} = {}"
    by blast
  then show ?thesis
  proof cases
    case empty
    with Some assms show ?thesis by (auto simp: free_encoder_input_def mm_hash_of_nth h_def)
  next
    case shared
    with Some ec_inv_holders [OF assms(1) Some shared] assms(3) show ?thesis
      by (auto simp: free_encoder_input_def mm_hash_of_nth h_def Let_def)
  next
    case last
    define s' where "s' = s\<lparr>cached := (cached s)(h \<mapsto> {}), freeable := AList.update h (embeds h) (freeable s),
      num_freeable_slots := num_freeable_slots s + int (embeds h)\<rparr>"
    from last have ids: "ids = {request_id r}" by auto
    have run: "free_encoder_input r (int i) s = Inr s'"
      using Some ids assms(2,3) by (simp add: free_encoder_input_def mm_hash_of_nth h_def s'_def Let_def embeds_of_nth)
    have new: "h \<notin> fst ` set (freeable s)" using assms(1) Some last(1) by (simp add: ec_inv_def)
    have upd: "AList.update k v xs = xs @ [(k, v)]" if "k \<notin> fst ` set xs" for k v and xs :: "(mm_hash \<times> nat) list"
      using that by (induction xs) auto
    have "dom (cached s') = dom (cached s)" "{k. cached s' k = Some {}} = insert h {k. cached s k = Some {}}"
      using Some by (auto simp: s'_def)
    with assms(1) new have "ec_inv embeds s'" by (simp add: ec_inv_def s'_def upd [OF new])
    with run Some last show ?thesis by (auto simp: s'_def)
  qed
qed

text \<open>
  Eviction: the loop takes the oldest unreferenced entries, just as many as are needed, and
  ends because there is enough to reclaim.
\<close>

lemma evict_loop_ok:
  assumes "ec_inv embeds s" and "need \<le> num_freeable_slots s"
  shows "\<exists>s' k. evict_loop need s = Inr s' \<and> ec_inv embeds s' \<and> need \<le> num_free_slots s' \<and>
    cache_size s' = cache_size s \<and> num_free_slots s \<le> num_free_slots s' \<and>
    num_freeable_slots s' = num_freeable_slots s \<and> freeable s' = drop k (freeable s) \<and>
    freed s' = freed s @ map fst (take k (freeable s)) \<and>
    cached s' = (\<lambda>h. if h \<in> fst ` set (take k (freeable s)) then None else cached s h) \<and>
    (\<forall>j < k. num_free_slots s + (\<Sum>(h, n) \<leftarrow> take j (freeable s). int n) < need)"
  using assms
proof (induction need s rule: evict_loop.induct)
  case (1 need s)
  show ?case
  proof (cases "need \<le> num_free_slots s")
    case True
    with 1 show ?thesis by (intro exI [of _ s] exI [of _ 0]) (simp add: evict_loop.simps [of _ s])
  next
    case False
    with 1(2,3) obtain h n rest where fr: "freeable s = (h, n) # rest"
      by (cases "freeable s") (auto simp: ec_inv_def)
    from 1(2) fr have h: "cached s h = Some {}" and n: "n = embeds h" and dist: "h \<notin> fst ` set rest"
      unfolding ec_inv_def by (auto simp: image_iff)
    define s1 where "s1 = s\<lparr>freeable := rest, cached := (cached s)(h := None), freed := freed s @ [h],
               num_free_slots := num_free_slots s + int n\<rparr>"
    have step: "evict_loop need s = evict_loop need s1"
      using False fr h by (simp add: evict_loop.simps [of _ s] s1_def)
    have inv1: "ec_inv embeds s1"
    proof -
      have "{k. cached s1 k = Some {}} = {k. cached s k = Some {}} - {h}" by (auto simp: s1_def)
      then have "fst ` set rest = {k. cached s1 k = Some {}}" using 1(2) fr dist by (auto simp: ec_inv_def)
      moreover have "(\<Sum>k \<in> dom (cached s1). int (embeds k)) = (\<Sum>k \<in> dom (cached s). int (embeds k)) - int (embeds h)"
      proof -
        have "dom (cached s1) = dom (cached s) - {h}" "h \<in> dom (cached s)" using h by (auto simp: s1_def)
        with 1(2) show ?thesis by (simp add: ec_inv_def sum_diff1)
      qed
      ultimately show ?thesis using 1(2) fr n by (auto simp: ec_inv_def s1_def)
    qed
    have le1: "need \<le> num_freeable_slots s1" using 1(3) by (simp add: s1_def)
    have "cached s h \<noteq> None" using h by simp
    from 1(1) [OF False fr refl this, folded s1_def, OF inv1 le1] obtain s' k where
      s': "evict_loop need s1 = Inr s'" "ec_inv embeds s'" "need \<le> num_free_slots s'" "cache_size s' = cache_size s1"
      "num_free_slots s1 \<le> num_free_slots s'" "num_freeable_slots s' = num_freeable_slots s1"
      "freeable s' = drop k rest" "freed s' = freed s1 @ map fst (take k rest)"
      "cached s' = (\<lambda>h. if h \<in> fst ` set (take k rest) then None else cached s1 h)"
      "\<forall>j < k. num_free_slots s1 + (\<Sum>(h, n) \<leftarrow> take j rest. int n) < need"
      by (elim exE conjE) (rule that, simp_all add: s1_def)
    have "num_free_slots s + (\<Sum>(h, n) \<leftarrow> take j (freeable s). int n) < need" if "j < Suc k" for j
      using that s'(10) False fr by (cases j) (auto simp: s1_def add.assoc)
    with s' step fr show ?thesis
      by (intro exI [of _ s'] exI [of _ "Suc k"]) (auto simp: s1_def fun_eq_iff)
  qed
qed

lemma can_allocate_ok:
  assumes "ec_inv embeds s" and "media_ok embeds r" and "i < length (mm_features r)"
  defines "n \<equiv> int (embeds (mm_identifier (mm_features r ! i)))"
  shows "\<exists>s' k. can_allocate r (int i) budget sched s = Inr (n \<le> budget \<and> n + sched \<le> num_freeable_slots s, s') \<and>
    ec_inv embeds s' \<and> (n \<le> budget \<and> n + sched \<le> num_freeable_slots s \<longrightarrow> n + sched \<le> num_free_slots s') \<and>
    cache_size s' = cache_size s \<and> num_free_slots s \<le> num_free_slots s' \<and> num_freeable_slots s' = num_freeable_slots s \<and>
    freeable s' = drop k (freeable s) \<and> freed s' = freed s @ map fst (take k (freeable s)) \<and>
    cached s' = (\<lambda>h. if h \<in> fst ` set (take k (freeable s)) then None else cached s h) \<and>
    (\<forall>j < k. num_free_slots s + (\<Sum>(h, m) \<leftarrow> take j (freeable s). int m) < n + sched)"
proof -
  have le: "num_free_slots s \<le> num_freeable_slots s"
    using assms(1) freeable_sum_nonneg [of "freeable s"] by (simp add: ec_inv_def)
  note run = can_allocate_def embeds_of_nth [OF assms(2,3)]
  consider (poor) "\<not> (n \<le> budget \<and> n + sched \<le> num_freeable_slots s)"
    | (free) "n \<le> budget" "n + sched \<le> num_free_slots s"
    | (evict) "n \<le> budget" "num_free_slots s < n + sched" "n + sched \<le> num_freeable_slots s" by linarith
  then show ?thesis
  proof cases
    case evict
    with evict_loop_ok [OF assms(1) evict(3)] show ?thesis by (auto simp: run n_def Let_def)
  qed (use assms(1) le in \<open>auto simp: run n_def Let_def intro!: exI [of _ s] exI [of _ 0]\<close>)
qed

text \<open>The features of a request are kept in the order of their positions.\<close>

definition offsets_sorted :: "Request \<Rightarrow> bool" where
  "offsets_sorted r \<longleftrightarrow> sorted (map (\<lambda>f. pr_offset (mm_position f)) (mm_features r))"

text \<open>Position \<open>q\<close> of the sequence takes an embedding of the item placed at \<open>p\<close>.\<close>

definition embedding_at :: "PlaceholderRange \<Rightarrow> int \<Rightarrow> bool" where
  "embedding_at p q \<longleftrightarrow> int (pr_offset p) \<le> q \<and> q < int (pr_offset p) + int (pr_length p) \<and>
     (case is_embed p of None \<Rightarrow> True | Some m \<Rightarrow> m ! nat (q - int (pr_offset p)))"

lemma count_list_take_less:
  assumes "i \<le> k" and "k < j" and "j \<le> length xs" and "xs ! k = x"
  shows "count_list (take i xs) x < count_list (take j xs) x"
proof -
  have "take j xs = take i xs @ drop i (take j xs)" by (metis append_take_drop_id assms(1,2) less_imp_le_nat min.absorb1 order_le_less_trans take_take)
  moreover have "x \<in> set (drop i (take j xs))"
  proof -
    have "drop i (take j xs) ! (k - i) = x" "k - i < length (drop i (take j xs))" using assms by auto
    then show ?thesis by (metis nth_mem)
  qed
  then have "count_list (drop i (take j xs)) x \<noteq> 0" by (simp add: count_list_0_iff)
  ultimately show ?thesis by (metis add_less_cancel_left add_0_right count_list_append gr0I)
qed

text \<open>An empty index range means that no position of the scheduled range takes an embedding.\<close>

lemma no_embedding_in_range:
  assumes "get_embeds_indices_in_range p (max 0 (c - int (pr_offset p))) (min (int (pr_length p)) (c + n - int (pr_offset p))) = Inr (e, e)"
    and "\<forall>m. is_embed p = Some m \<longrightarrow> length m = pr_length p"
    and "c \<le> q" and "q < c + n"
  shows "\<not> embedding_at p q"
proof
  assume at: "embedding_at p q"
  let ?i = "max 0 (c - int (pr_offset p))" and ?j = "min (int (pr_length p)) (c + n - int (pr_offset p))"
  let ?k = "nat (q - int (pr_offset p))"
  have k: "?i \<le> int ?k" "int ?k < ?j" using at assms(3,4) by (auto simp: embedding_at_def)
  show False
  proof (cases "is_embed p")
    case None
    with assms(1) k show False by (auto simp: get_embeds_indices_in_range_def embeds_cumsum_def)
  next
    case (Some m)
    then have len: "length m = pr_length p" and mk: "m ! ?k" using assms(2) at by (auto simp: embedding_at_def)
    have "count_list (take (nat ?i) m) True = count_list (take (nat ?j) m) True"
      using embeds_indices_mask [OF Some, of ?i ?j] assms(1) k len by auto
    moreover have "count_list (take (nat ?i) m) True < count_list (take (nat ?j) m) True"
    proof (rule count_list_take_less [of _ ?k])
      show "nat ?i \<le> ?k" "?k < nat ?j" "nat ?j \<le> length m" using k len by linarith+
      show "m ! ?k = True" using mk by simp
    qed
    ultimately show False by simp
  qed
qed

section \<open>The contract between a manager and the scheduler\<close>

text \<open>
  \<open>free m\<close> is the space left, \<open>fresh m h\<close> says that no space is set aside for \<open>h\<close>, \<open>held m r h\<close>
  that the output of \<open>h\<close> is there for request \<open>r\<close> and not up for eviction; the manager
  of an encoder-decoder model (\<open>per_input\<close>) sets space aside per input and never shares it.
\<close>

locale encoder_manager =
  fixes embeds :: "mm_hash \<Rightarrow> nat"
    and inv :: "'m \<Rightarrow> bool"
    and free :: "'m \<Rightarrow> int"
    and fresh :: "'m \<Rightarrow> mm_hash \<Rightarrow> bool"
    and held :: "'m \<Rightarrow> Request \<Rightarrow> mm_hash \<Rightarrow> bool"
    and per_input :: bool
    and check :: "Request \<Rightarrow> int \<Rightarrow> 'm \<Rightarrow> (bool \<times> 'm) res"
    and can :: "Request \<Rightarrow> int \<Rightarrow> int \<Rightarrow> int \<Rightarrow> 'm \<Rightarrow> (bool \<times> 'm) res"
    and alloc :: "Request \<Rightarrow> int \<Rightarrow> 'm \<Rightarrow> 'm res"
  assumes per_input_fresh: "per_input \<Longrightarrow> fresh m h"
    and check_law: "inv m \<Longrightarrow> media_ok embeds r \<Longrightarrow> i < length (mm_features r) \<Longrightarrow>
      \<exists>hit m'. check r (int i) m = Inr (hit, m') \<and> inv m' \<and> free m' = free m \<and>
        (\<forall>h. fresh m h \<longrightarrow> fresh m' h) \<and> (\<forall>h. held m r h \<longrightarrow> held m' r h) \<and>
        (if hit then held m' r (mm_identifier (mm_features r ! i)) else fresh m' (mm_identifier (mm_features r ! i)))"
    and can_law: "inv m \<Longrightarrow> media_ok embeds r \<Longrightarrow> i < length (mm_features r) \<Longrightarrow>
      \<exists>ok m'. can r (int i) budget sched m = Inr (ok, m') \<and> inv m' \<and> free m \<le> free m' \<and>
        (\<forall>h. fresh m h \<longrightarrow> fresh m' h) \<and> (\<forall>h. held m r h \<longrightarrow> held m' r h) \<and>
        (ok \<longrightarrow> int (embeds (mm_identifier (mm_features r ! i))) \<le> budget \<and>
          int (embeds (mm_identifier (mm_features r ! i))) + sched \<le> free m')"
    and alloc_law: "inv m \<Longrightarrow> media_ok embeds r \<Longrightarrow> i < length (mm_features r) \<Longrightarrow>
      fresh m (mm_identifier (mm_features r ! i)) \<Longrightarrow> int (embeds (mm_identifier (mm_features r ! i))) \<le> free m \<Longrightarrow>
      \<exists>m'. alloc r (int i) m = Inr m' \<and> inv m' \<and> free m' = free m - int (embeds (mm_identifier (mm_features r ! i))) \<and>
        (\<forall>h. fresh m h \<and> h \<noteq> mm_identifier (mm_features r ! i) \<longrightarrow> fresh m' h) \<and>
        (\<forall>h. held m r h \<or> h = mm_identifier (mm_features r ! i) \<longrightarrow> held m' r h)"
begin

definition need :: "Request \<Rightarrow> nat list \<Rightarrow> int" where
  "need r is = (\<Sum>i \<leftarrow> is. int (embeds (mm_identifier (mm_features r ! i))))"

definition chosen :: "Request \<Rightarrow> nat list \<Rightarrow> 'm \<Rightarrow> bool" where
  "chosen r is m \<longleftrightarrow> set is \<subseteq> {..< length (mm_features r)} \<and>
     (\<forall>i \<in> set is. fresh m (mm_identifier (mm_features r ! i))) \<and>
     (\<not> per_input \<longrightarrow> distinct (map (\<lambda>i. mm_identifier (mm_features r ! i)) is))"

text \<open>Allocating inputs whose needs fit together\<close>

lemma allocate_chosen:
  assumes "inv m" and "media_ok embeds r" and "chosen r is m" and "need r is \<le> free m"
  shows "\<exists>m'. fold_res (\<lambda>i. alloc r (int i)) is m = Inr m' \<and> inv m' \<and> free m' = free m - need r is \<and>
    (\<forall>h. held m r h \<or> h \<in> (\<lambda>i. mm_identifier (mm_features r ! i)) ` set is \<longrightarrow> held m' r h)"
  using assms
proof (induction "is" arbitrary: m)
  case Nil
  then show ?case by (simp add: need_def)
next
  case (Cons i "is")
  let ?h = "mm_identifier (mm_features r ! i)"
  have rest: "0 \<le> need r is" unfolding need_def by (rule sum_list_nonneg) auto
  from Cons.prems have i: "i < length (mm_features r)" "fresh m ?h" "int (embeds ?h) \<le> free m"
    using rest by (auto simp: chosen_def need_def)
  from alloc_law [OF Cons.prems(1,2) i] obtain m1 where
    m1: "alloc r (int i) m = Inr m1" "inv m1" "free m1 = free m - int (embeds ?h)"
    "\<forall>h. fresh m h \<and> h \<noteq> ?h \<longrightarrow> fresh m1 h" "\<forall>h. held m r h \<or> h = ?h \<longrightarrow> held m1 r h" by blast
  have "fresh m1 (mm_identifier (mm_features r ! j))" if "j \<in> set is" for j
  proof (cases per_input)
    case False
    with Cons.prems(3) that have "mm_identifier (mm_features r ! j) \<noteq> ?h"
      unfolding chosen_def by (auto simp: image_iff)
    with m1(4) Cons.prems(3) that show ?thesis by (simp add: chosen_def)
  qed (rule per_input_fresh)
  then have "chosen r is m1" using Cons.prems(3) by (simp add: chosen_def)
  moreover have "need r is \<le> free m1" using Cons.prems(4) m1(3) by (simp add: need_def)
  ultimately show ?case
    using Cons.IH [OF m1(2) Cons.prems(2)] m1 by (auto simp: need_def)
qed

text \<open>What holds of the trackers during admission\<close>

definition admission_ok :: "Request \<Rightarrow> int \<Rightarrow> int \<Rightarrow> 'm admission \<Rightarrow> bool" where
  "admission_ok r budget num_new a \<longleftrightarrow> inv (manager a) \<and>
     chosen r (to_schedule a @ external_load a) (manager a) \<and>
     embeds_to_schedule a = need r (to_schedule a @ external_load a) \<and>
     embeds_to_schedule a \<le> free (manager a) \<and>
     compute_budget a = budget - need r (to_schedule a) \<and> 0 \<le> compute_budget a \<and>
     0 \<le> new_tokens a \<and> new_tokens a \<le> num_new \<and>
     hashes_to_schedule a = (\<lambda>i. mm_identifier (mm_features r ! i)) ` set (to_schedule a @ external_load a)"

lemma chosen_fresh: "chosen r is m \<Longrightarrow> \<forall>h. fresh m h \<longrightarrow> fresh m' h \<Longrightarrow> chosen r is m'"
  by (simp add: chosen_def)

lemma admission_ok_manager:
  assumes "admission_ok r budget num_new a" and "inv m" and "free (manager a) \<le> free m"
    and "\<forall>h. fresh (manager a) h \<longrightarrow> fresh m h"
  shows "admission_ok r budget num_new (a\<lparr>manager := m\<rparr>)"
  using assms chosen_fresh [OF _ assms(4)] by (simp add: admission_ok_def)

lemma admission_ok_tokens:
  "admission_ok r budget num_new a \<Longrightarrow> 0 \<le> n \<Longrightarrow> n \<le> new_tokens a \<Longrightarrow> admission_ok r budget num_new (a\<lparr>new_tokens := n\<rparr>)"
  by (auto simp: admission_ok_def)

lemma embeds_range_defined:
  assumes "media_ok embeds r" and "i < length (mm_features r)" and "0 \<le> shift" and "shift \<le> 1"
    and "int (pr_offset (mm_position (mm_features r ! i))) < computed + n + shift"
    and "computed < int (pr_offset (mm_position (mm_features r ! i))) + int (pr_length (mm_position (mm_features r ! i)))"
  shows "\<exists>e. get_embeds_indices_in_range (mm_position (mm_features r ! i))
    (max 0 (computed - int (pr_offset (mm_position (mm_features r ! i)))))
    (min (int (pr_length (mm_position (mm_features r ! i)))) (computed + n - int (pr_offset (mm_position (mm_features r ! i))))) = Inr e"
proof (cases "is_embed (mm_position (mm_features r ! i))")
  case None
  then show ?thesis by (simp add: get_embeds_indices_in_range_def embeds_cumsum_def)
next
  case (Some mask)
  have len: "length mask = pr_length (mm_position (mm_features r ! i))"
    using assms(1,2) Some by (auto simp: media_ok_def)
  have pos: "0 < pr_length (mm_position (mm_features r ! i))"
  proof -
    have "get_num_embeds (mm_position (mm_features r ! i)) \<noteq> Inl IndexError"
      using assms(1,2) by (auto simp: media_ok_def)
    then show ?thesis using Some len by (auto simp: get_num_embeds_def embeds_cumsum_def py_nth_def split: if_splits)
  qed
  show ?thesis
    using Some len pos assms(3-6)
    by (auto simp: get_embeds_indices_in_range_def embeds_cumsum_def py_nth_def Let_def)
qed

text \<open>
  Admission keeps the trackers right whatever branch is taken. The input positions and the
  number of new tokens are those of the step, the shift is 1 with a drafting model and 0 without.
\<close>

lemma admission_ok_choose:
  assumes "admission_ok r budget num_new a" and "i < length (mm_features r)"
    and "h = mm_identifier (mm_features r ! i)" and "fresh (manager a) h"
    and "\<not> per_input \<longrightarrow> h \<notin> hashes_to_schedule a"
    and "int (embeds h) \<le> compute_budget a" and "int (embeds h) + embeds_to_schedule a \<le> free (manager a)"
  defines "a' \<equiv> a\<lparr>hashes_to_schedule := insert h (hashes_to_schedule a),
    embeds_to_schedule := embeds_to_schedule a + int (embeds h)\<rparr>"
  shows "admission_ok r budget num_new (a'\<lparr>external_load := external_load a' @ [i]\<rparr>)"
    and "admission_ok r budget num_new (a'\<lparr>compute_budget := compute_budget a' - int (embeds h), to_schedule := to_schedule a' @ [i]\<rparr>)"
proof -
  have new: "h \<notin> (\<lambda>i. mm_identifier (mm_features r ! i)) ` set (to_schedule a @ external_load a)" if "\<not> per_input"
    using assms(1,5) that unfolding admission_ok_def by auto
  have "chosen r (to_schedule a @ external_load a @ [i]) (manager a)"
    "chosen r (to_schedule a @ i # external_load a) (manager a)"
    using assms(1-4) new by (auto simp: admission_ok_def chosen_def)
  with assms show "admission_ok r budget num_new (a'\<lparr>external_load := external_load a' @ [i]\<rparr>)"
    "admission_ok r budget num_new (a'\<lparr>compute_budget := compute_budget a' - int (embeds h), to_schedule := to_schedule a' @ [i]\<rparr>)"
    by (auto simp: admission_ok_def need_def)
qed

text \<open>
  What an iteration guarantees beside the bookkeeping: nothing held or chosen is lost; when it goes
  on, the input is held or chosen if the scheduled range needs it; when it stops, the remaining
  range ends before the input.
\<close>

definition admit_post :: "Request \<Rightarrow> int \<Rightarrow> nat \<Rightarrow> 'm admission \<Rightarrow> loop_control \<times> 'm admission \<Rightarrow> bool" where
  "admit_post r computed i a x \<longleftrightarrow> (case x of (c, a') \<Rightarrow>
     new_tokens a' \<le> new_tokens a \<and> (\<forall>h. held (manager a) r h \<longrightarrow> held (manager a') r h) \<and>
     hashes_to_schedule a \<subseteq> hashes_to_schedule a' \<and>
     (case c of
        Break \<Rightarrow> new_tokens a' = 0 \<or> computed + new_tokens a' \<le> int (pr_offset (mm_position (mm_features r ! i)))
      | Continue \<Rightarrow> (per_input \<longrightarrow> computed = 0) \<longrightarrow>
          (\<exists>q. computed \<le> q \<and> q < computed + new_tokens a' \<and> embedding_at (mm_position (mm_features r ! i)) q) \<longrightarrow>
          held (manager a') r (mm_identifier (mm_features r ! i)) \<or>
          mm_identifier (mm_features r ! i) \<in> hashes_to_schedule a'))"

lemma admission_ok_cut:
  assumes "admission_ok r budget num_new a" and "st < computed + new_tokens a + shift"
  shows "admission_ok r budget num_new (a\<lparr>new_tokens := max 0 (st - (computed + shift))\<rparr>)"
  by (rule admission_ok_tokens) (use assms in \<open>auto simp: admission_ok_def\<close>)

text \<open>The branches after the lookup missed\<close>

definition after_miss ::
    "(mm_hash \<Rightarrow> bool) option \<Rightarrow> int \<Rightarrow> int \<Rightarrow> Request \<Rightarrow> nat \<Rightarrow> 'm admission \<Rightarrow> (loop_control \<times> 'm admission) res" where
  "after_miss conn computed shift r i a =
     (let p = mm_position (mm_features r ! i); h = mm_identifier (mm_features r ! i); st = int (pr_offset p)
      in rbind (can r (int i) (compute_budget a) (embeds_to_schedule a) (manager a)) (\<lambda>(ok, m2).
      let a2 = a\<lparr>manager := m2\<rparr>
      in if \<not> ok then Inr (Break, a2\<lparr>new_tokens := (if computed + shift < st then st - (computed + shift) else 0)\<rparr>)
      else
        rbind (get_embeds_indices_in_range p (max 0 (computed - st))
          (min (int (pr_length p)) (computed + new_tokens a2 - st))) (\<lambda>(e_start, e_end).
        if e_end - e_start = 0 then Inr (Continue, a2)
        else let a3 = a2\<lparr>hashes_to_schedule := insert h (hashes_to_schedule a2),
                         embeds_to_schedule := embeds_to_schedule a2 + int (embeds h)\<rparr>
        in if (case conn of None \<Rightarrow> False | Some has_item \<Rightarrow> has_item h)
           then Inr (Continue, a3\<lparr>external_load := external_load a3 @ [i]\<rparr>)
           else Inr (Continue, a3\<lparr>compute_budget := compute_budget a3 - int (embeds h),
                                  to_schedule := to_schedule a3 @ [i]\<rparr>))))"

lemma admit_miss_ok:
  fixes r i
  defines "p \<equiv> mm_position (mm_features r ! i)" and "h \<equiv> mm_identifier (mm_features r ! i)"
  assumes "admission_ok r budget num_new a" and "media_ok embeds r" and "i < length (mm_features r)"
    and "0 \<le> computed" and "0 \<le> shift" and "shift \<le> 1"
    and "int (pr_offset p) < computed + new_tokens a + shift" and "computed < int (pr_offset p) + int (pr_length p)"
    and "fresh (manager a) h" and "\<not> per_input \<longrightarrow> h \<notin> hashes_to_schedule a"
  shows "\<exists>x. after_miss conn computed shift r i a = Inr x \<and>
    admission_ok r budget num_new (snd x) \<and> admit_post r computed i a x"
proof -
  let ?st = "int (pr_offset p)"
  have inv: "inv (manager a)" using assms(3) by (simp add: admission_ok_def)
  from can_law [OF inv assms(4,5), of "compute_budget a" "embeds_to_schedule a"] obtain ok m2 where
    can: "can r (int i) (compute_budget a) (embeds_to_schedule a) (manager a) = Inr (ok, m2)" and
    m2: "inv m2" "free (manager a) \<le> free m2" "\<forall>h. fresh (manager a) h \<longrightarrow> fresh m2 h"
    "\<forall>h. held (manager a) r h \<longrightarrow> held m2 r h"
    and fits: "ok \<longrightarrow> int (embeds h) \<le> compute_budget a \<and> int (embeds h) + embeds_to_schedule a \<le> free m2"
    unfolding h_def by blast
  let ?a2 = "a\<lparr>manager := m2\<rparr>"
  have a2: "admission_ok r budget num_new ?a2" by (rule admission_ok_manager [OF assms(3) m2(1-3)])
  have mask: "\<forall>m. is_embed p = Some m \<longrightarrow> length m = pr_length p" using assms(4,5) by (auto simp: media_ok_def p_def)
  from embeds_range_defined [OF assms(4,5,7,8), of computed "new_tokens a"] assms(9,10) obtain e_start e_end where
    range: "get_embeds_indices_in_range p (max 0 (computed - ?st)) (min (int (pr_length p)) (computed + new_tokens a - ?st)) = Inr (e_start, e_end)"
    by (auto simp: p_def)
  note post = after_miss_def admit_post_def p_def [symmetric] h_def [symmetric]
  show ?thesis
  proof (cases "ok \<and> e_end - e_start \<noteq> 0")
    case True
    have "int (embeds h) \<le> compute_budget ?a2" "int (embeds h) + embeds_to_schedule ?a2 \<le> free (manager ?a2)"
      "fresh (manager ?a2) h" "\<not> per_input \<longrightarrow> h \<notin> hashes_to_schedule ?a2" using True fits assms(11,12) m2(3) by auto
    from admission_ok_choose [OF a2 assms(5) meta_eq_to_obj_eq [OF h_def] this(3,4,1,2)] True m2(4) show ?thesis
      by (auto simp: can range post Let_def)
  next
    case False
    then consider (full) "\<not> ok" | (none) "ok" "e_end = e_start" by auto
    then show ?thesis
    proof cases
      case full
      from admission_ok_cut [OF a2, of ?st computed shift] assms(9)
      have "admission_ok r budget num_new (?a2\<lparr>new_tokens := max 0 (?st - (computed + shift))\<rparr>)" by simp
      moreover have "max 0 (?st - (computed + shift)) = (if computed + shift < ?st then ?st - (computed + shift) else 0)" by auto
      moreover have "0 \<le> new_tokens a" using assms(3) by (simp add: admission_ok_def)
      ultimately show ?thesis using full assms(7,9) m2(4) by (auto simp: can post Let_def)
    next
      case none
      with a2 m2(4) no_embedding_in_range [OF _ mask, of computed "new_tokens a" e_start] range show ?thesis
        by (auto simp: can range post Let_def)
    qed
  qed
qed

lemma admit_lookup_ok:
  fixes r i
  defines "p \<equiv> mm_position (mm_features r ! i)" and "h \<equiv> mm_identifier (mm_features r ! i)"
  defines "st \<equiv> int (pr_offset p)" and "len \<equiv> int (pr_length p)"
  assumes "admission_ok r budget num_new a" and "media_ok embeds r" and "i < length (mm_features r)"
    and "0 \<le> computed" and "0 \<le> shift" and "shift \<le> 1"
    and "st < computed + new_tokens a + shift" and "\<not> (per_input \<and> computed > 0)" and "computed < st + len"
    and "\<not> (\<not> per_input \<and> h \<in> hashes_to_schedule a)"
  shows "\<exists>x. admit_input check can conn per_input no_chunking computed shift r i a = Inr x \<and>
    admission_ok r budget num_new (snd x) \<and> admit_post r computed i a x"
proof -
  have embeds: "get_num_embeds p = Inr (embeds h)" using assms(5,6,7) by (simp add: media_ok_def p_def h_def)
  note run = admit_input_def Let_def p_def [symmetric] h_def [symmetric] st_def [symmetric] len_def [symmetric] embeds
  note post = admit_post_def p_def [symmetric] h_def [symmetric] st_def [symmetric]
  define first where "first = (if per_input then Inr (False, manager a) else check r (int i) (manager a))"
  have inv: "inv (manager a)" using assms(5) by (simp add: admission_ok_def)
  have "\<exists>hit m1. first = Inr (hit, m1) \<and> inv m1 \<and> free m1 = free (manager a) \<and>
    (\<forall>h. fresh (manager a) h \<longrightarrow> fresh m1 h) \<and> (\<forall>h. held (manager a) r h \<longrightarrow> held m1 r h) \<and>
    (if hit then held m1 r h else fresh m1 h)"
    using check_law [OF inv assms(6,7)] per_input_fresh inv unfolding first_def h_def by (cases per_input) auto
  then obtain hit m1 where first: "first = Inr (hit, m1)" and m1: "inv m1" "free m1 = free (manager a)"
    "\<forall>h. fresh (manager a) h \<longrightarrow> fresh m1 h" "\<forall>h. held (manager a) r h \<longrightarrow> held m1 r h"
    and out: "if hit then held m1 r h else fresh m1 h" by blast
  let ?a1 = "a\<lparr>manager := m1\<rparr>"
  have a1: "admission_ok r budget num_new ?a1" by (rule admission_ok_manager [OF assms(5) m1(1) _ m1(3)]) (simp add: m1(2))
  have st: "st < computed + new_tokens ?a1 + shift" using assms(11) by simp
  consider (hit) "hit" | (chunk) "\<not> hit" "no_chunking \<and> computed < st \<and> computed + new_tokens a < st + len"
    | (rest) "\<not> hit" "\<not> (no_chunking \<and> computed < st \<and> computed + new_tokens a < st + len)" by blast
  then show ?thesis
  proof cases
    case hit
    with assms(11-14) first a1 m1(4) out show ?thesis by (auto simp: run first_def [symmetric] post)
  next
    case chunk
    have "0 \<le> new_tokens a" using assms(5) by (simp add: admission_ok_def)
    with assms(11-14) chunk first admission_ok_cut [OF a1 st] assms(9) m1(4) show ?thesis
      by (auto simp: run first_def [symmetric] post)
  next
    case rest
    have "admit_input check can conn per_input no_chunking computed shift r i a = after_miss conn computed shift r i ?a1"
    proof -
      have "(computed + new_tokens a + shift \<le> st) = False" "(per_input \<and> 0 < computed) = False"
        "(st + len \<le> computed) = False" "(\<not> per_input \<and> h \<in> hashes_to_schedule a) = False" "first = Inr (False, m1)"
        "(no_chunking \<and> computed < st \<and> computed + new_tokens a < st + len) = False"
        using assms(11-14) rest first by auto
      note go = this
      show ?thesis by (simp add: run first_def [symmetric] after_miss_def go cong: if_cong option.case_cong)
    qed
    moreover have "\<exists>x. after_miss conn computed shift r i ?a1 = Inr x \<and>
        admission_ok r budget num_new (snd x) \<and> admit_post r computed i ?a1 x"
      by (rule admit_miss_ok) (use a1 assms(6-10) assms(11-14) rest out in \<open>auto simp: p_def h_def st_def len_def\<close>)
    moreover have "admit_post r computed i a x" if "admit_post r computed i ?a1 x" for x
      using that m1(4) unfolding admit_post_def by (cases x) auto
    ultimately show ?thesis by auto
  qed
qed

lemma admit_input_ok:
  assumes "admission_ok r budget num_new a" and "media_ok embeds r" and "i < length (mm_features r)"
    and "0 \<le> computed" and "0 \<le> shift" and "shift \<le> 1"
    and "per_input \<longrightarrow> computed = 0 \<or> pr_offset (mm_position (mm_features r ! i)) = 0"
  shows "\<exists>x. admit_input check can conn per_input no_chunking computed shift r i a = Inr x \<and>
    admission_ok r budget num_new (snd x) \<and> admit_post r computed i a x"
proof -
  define p where "p = mm_position (mm_features r ! i)"
  define h where "h = mm_identifier (mm_features r ! i)"
  define st where "st = int (pr_offset p)"
  define len where "len = int (pr_length p)"
  have embeds: "get_num_embeds p = Inr (embeds h)" using assms(2,3) by (simp add: media_ok_def p_def h_def)
  note run = admit_input_def Let_def p_def [symmetric] h_def [symmetric] st_def [symmetric] len_def [symmetric] embeds
  note post = admit_post_def p_def [symmetric] h_def [symmetric] st_def [symmetric]
  note pos = embedding_at_def st_def [symmetric] len_def [symmetric]
  consider (beyond) "st \<ge> computed + new_tokens a + shift"
    | (decoder) "st < computed + new_tokens a + shift" "per_input" "computed > 0"
    | (passed) "st < computed + new_tokens a + shift" "\<not> (per_input \<and> computed > 0)" "st + len \<le> computed"
    | (repeat) "st < computed + new_tokens a + shift" "\<not> (per_input \<and> computed > 0)" "computed < st + len"
        "\<not> per_input \<and> h \<in> hashes_to_schedule a"
    | (look) "st < computed + new_tokens a + shift" "\<not> (per_input \<and> computed > 0)" "computed < st + len"
        "\<not> (\<not> per_input \<and> h \<in> hashes_to_schedule a)" by linarith
  then show ?thesis
  proof cases
    case beyond
    then show ?thesis using assms(1,5) by (auto simp: run post)
  next
    case decoder
    then have "st = 0" using assms(7) by (simp add: p_def st_def)
    with decoder have "admit_input check can conn per_input no_chunking computed shift r i a = Inr (Continue, a)"
      by (simp add: run)
    moreover have "admit_post r computed i a (Continue, a)" using decoder unfolding post by simp
    ultimately show ?thesis using assms(1) by auto
  next
    case passed
    then show ?thesis using assms(1) by (auto simp: run post pos)
  next
    case repeat
    then have "admit_input check can conn per_input no_chunking computed shift r i a = Inr (Continue, a)"
      by (simp add: run)
    moreover have "admit_post r computed i a (Continue, a)" using repeat unfolding post by simp
    ultimately show ?thesis using assms(1) by auto
  next
    case look
    then show ?thesis
      using admit_lookup_ok [OF assms(1-6), of conn no_chunking] by (simp add: p_def h_def st_def len_def)
  qed
qed

text \<open>The loop, for features in the order of their positions\<close>

definition covered :: "Request \<Rightarrow> int \<Rightarrow> nat \<Rightarrow> 'm admission \<Rightarrow> bool" where
  "covered r computed k a \<longleftrightarrow> ((per_input \<longrightarrow> computed = 0) \<longrightarrow> (\<forall>i < k.
     (\<exists>q. computed \<le> q \<and> q < computed + new_tokens a \<and> embedding_at (mm_position (mm_features r ! i)) q) \<longrightarrow>
     held (manager a) r (mm_identifier (mm_features r ! i)) \<or>
     mm_identifier (mm_features r ! i) \<in> hashes_to_schedule a))"

lemma covered_mono:
  assumes "covered r computed k a" and "admit_post r computed j a (c, a')"
  shows "covered r computed k a'"
proof -
  have "new_tokens a' \<le> new_tokens a" "\<forall>h. held (manager a) r h \<longrightarrow> held (manager a') r h"
    "hashes_to_schedule a \<subseteq> hashes_to_schedule a'" using assms(2) by (auto simp: admit_post_def)
  with assms(1) show ?thesis unfolding covered_def by (meson add_le_cancel_left order_less_le_trans subsetD)
qed

lemma covered_Continue:
  assumes "covered r computed k a" and "admit_post r computed k a (Continue, a')"
  shows "covered r computed (Suc k) a'"
  using covered_mono [OF assms] assms(2) unfolding covered_def admit_post_def by (auto simp: less_Suc_eq)

lemma covered_Break:
  assumes "covered r computed k a" and "admit_post r computed k a (Break, a')" and "offsets_sorted r"
    and "n = length (mm_features r)"
  shows "covered r computed n a'"
proof -
  have "\<not> embedding_at (mm_position (mm_features r ! i)) q" if "computed \<le> q" "q < computed + new_tokens a'" "k \<le> i" "i < n" for i q
  proof -
    from assms(3) that(3,4) have "pr_offset (mm_position (mm_features r ! k)) \<le> pr_offset (mm_position (mm_features r ! i))"
      by (auto simp: offsets_sorted_def assms(4) sorted_iff_nth_mono)
    then show ?thesis using assms(2) that(1,2) by (auto simp: admit_post_def embedding_at_def)
  qed
  then show ?thesis
    using covered_mono [OF assms(1,2)] unfolding covered_def by (metis linorder_not_less)
qed

lemma admit_loop_ok:
  assumes "admission_ok r budget num_new a" and "covered r computed k a" and "media_ok embeds r" and "offsets_sorted r"
    and "0 \<le> computed" and "0 \<le> shift" and "shift \<le> 1" and "k \<le> length (mm_features r)"
    and "per_input \<longrightarrow> computed = 0 \<or> (\<forall>f \<in> set (mm_features r). pr_offset (mm_position f) = 0)"
  shows "\<exists>a'. admit_loop (admit_input check can conn per_input no_chunking computed shift r) [k..<length (mm_features r)] a = Inr a' \<and>
    admission_ok r budget num_new a' \<and> covered r computed (length (mm_features r)) a'"
  using assms(1,2,8)
proof (induction "length (mm_features r) - k" arbitrary: k a)
  case 0
  then show ?case by simp
next
  case (Suc d)
  then have k: "k < length (mm_features r)" by simp
  then have list: "[k..<length (mm_features r)] = k # [Suc k..<length (mm_features r)]" by (simp add: upt_conv_Cons)
  have at: "per_input \<longrightarrow> computed = 0 \<or> pr_offset (mm_position (mm_features r ! k)) = 0" using assms(9) k by auto
  obtain c a' where step: "admit_input check can conn per_input no_chunking computed shift r k a = Inr (c, a')"
    and a': "admission_ok r budget num_new a'" "admit_post r computed k a (c, a')"
    using admit_input_ok [OF Suc.prems(1) assms(3) k assms(5-7) at] by fastforce
  show ?case
  proof (cases c)
    case Break
    with list step a' covered_Break [OF Suc.prems(2) _ assms(4) refl] show ?thesis by simp
  next
    case Continue
    have "d = length (mm_features r) - Suc k" using Suc.hyps(2) by simp
    from Suc.hyps(1) [OF this a'(1) covered_Continue [OF Suc.prems(2) a'(2) [unfolded Continue]]] k
    show ?thesis using list step Continue by simp
  qed
qed

text \<open>Admission followed by allocation\<close>

lemma schedule_ok:
  assumes "inv m" and "0 \<le> free m" and "media_ok embeds r" and "offsets_sorted r" and "0 \<le> computed" and "0 \<le> num_new"
    and "0 \<le> budget" and "0 \<le> shift" and "shift \<le> 1"
    and "per_input \<longrightarrow> computed = 0 \<or> (\<forall>f \<in> set (mm_features r). pr_offset (mm_position f) = 0)"
  shows "\<exists>a m'. try_schedule_encoder_inputs check can conn per_input no_chunking r computed num_new budget shift m = Inr a \<and>
    inv (manager a) \<and> allocate_scheduled alloc r a = Inr m' \<and> inv m' \<and> 0 \<le> free m' \<and>
    free m' = free (manager a) - need r (to_schedule a @ external_load a) \<and>
    compute_budget a = budget - need r (to_schedule a) \<and> 0 \<le> compute_budget a \<and> 0 \<le> new_tokens a \<and> new_tokens a \<le> num_new \<and>
    ((per_input \<longrightarrow> computed = 0) \<longrightarrow> (\<forall>i < length (mm_features r). \<forall>q. computed \<le> q \<and> q < computed + new_tokens a \<and>
      embedding_at (mm_position (mm_features r ! i)) q \<longrightarrow> held m' r (mm_identifier (mm_features r ! i))))"
proof -
  define a0 :: "'m admission" where "a0 = \<lparr>manager = m, to_schedule = [], new_tokens = num_new, compute_budget = budget,
    external_load = [], hashes_to_schedule = {}, embeds_to_schedule = 0\<rparr>"
  have a0: "admission_ok r budget num_new a0"
    using assms(1,2,6,7) by (simp add: admission_ok_def a0_def chosen_def need_def)
  have "\<exists>a. try_schedule_encoder_inputs check can conn per_input no_chunking r computed num_new budget shift m = Inr a \<and>
    admission_ok r budget num_new a \<and> covered r computed (length (mm_features r)) a"
  proof (cases "num_new = 0 \<or> mm_features r = []")
    case True
    moreover have "covered r computed (length (mm_features r)) a0" using True by (auto simp: covered_def a0_def)
    ultimately show ?thesis using a0 by (auto simp: try_schedule_encoder_inputs_def Let_def a0_def)
  next
    case False
    have "covered r computed 0 a0" by (simp add: covered_def)
    from admit_loop_ok [OF a0 this assms(3-5,8,9) _ assms(10), of conn no_chunking] False show ?thesis
      by (auto simp: try_schedule_encoder_inputs_def a0_def)
  qed
  then obtain a where a: "try_schedule_encoder_inputs check can conn per_input no_chunking r computed num_new budget shift m = Inr a"
    "admission_ok r budget num_new a" "covered r computed (length (mm_features r)) a" by blast
  from a(2) have "inv (manager a)" "chosen r (to_schedule a @ external_load a) (manager a)"
    "need r (to_schedule a @ external_load a) \<le> free (manager a)" by (auto simp: admission_ok_def)
  from allocate_chosen [OF this(1) assms(3) this(2,3)] obtain m' where
    m': "allocate_scheduled alloc r a = Inr m'" "inv m'" "free m' = free (manager a) - need r (to_schedule a @ external_load a)"
    "\<forall>h. held (manager a) r h \<or> h \<in> hashes_to_schedule a \<longrightarrow> held m' r h"
    using a(2) by (auto simp: allocate_scheduled_def fold_res_append admission_ok_def)
  with a show ?thesis unfolding covered_def admission_ok_def by auto
qed

end

end
