(* ===== verification/Encoder_Cache_Safety.thy ===== *)
theory Encoder_Cache_Safety
  imports Encoder_Cache_Correct
begin

text \<open>
  Both managers meet the contract of the scheduler, every reachable state of the encoder cache is
  within its bounds, and a scheduled step finds the encoder outputs it reads.
\<close>

section \<open>The managers meet the contract\<close>

abbreviation holds_output :: "EncoderCacheManager \<Rightarrow> Request \<Rightarrow> mm_hash \<Rightarrow> bool" where
  "holds_output s r h \<equiv> (\<exists>ids. cached s h = Some ids \<and> request_id r \<in> ids)"

lemma freeable_not_held:
  assumes "ec_inv embeds s" and "h \<in> fst ` set (take k (freeable s))"
  shows "cached s h = Some {}"
  using assms unfolding ec_inv_def by (auto dest: in_set_takeD)

interpretation em: encoder_manager embeds "\<lambda>s. ec_inv embeds s \<and> cache_size s = n" num_free_slots "\<lambda>s h. cached s h = None" holds_output False
    check_and_update_cache can_allocate allocate for embeds :: "mm_hash \<Rightarrow> nat" and n :: int
proof
  fix s r i assume a: "ec_inv embeds s \<and> cache_size s = n" "media_ok embeds r" "i < length (mm_features r)"
  show "\<exists>hit s'. check_and_update_cache r (int i) s = Inr (hit, s') \<and> (ec_inv embeds s' \<and> cache_size s' = n) \<and> num_free_slots s' = num_free_slots s \<and>
      (\<forall>h. cached s h = None \<longrightarrow> cached s' h = None) \<and> (\<forall>h. holds_output s r h \<longrightarrow> holds_output s' r h) \<and>
      (if hit then holds_output s' r (mm_identifier (mm_features r ! i)) else cached s' (mm_identifier (mm_features r ! i)) = None)"
  proof -
    let ?h = "mm_identifier (mm_features r ! i)"
    from check_and_update_cache_ok [OF conjunct1 [OF a(1)] a(3)] a(1) obtain s' where
      "check_and_update_cache r (int i) s = Inr (cached s ?h \<noteq> None, s')" "ec_inv embeds s' \<and> cache_size s' = n" "num_free_slots s' = num_free_slots s"
      "cached s' = (cached s)(?h := map_option (insert (request_id r)) (cached s ?h))" by blast
    then show ?thesis by (intro exI [of _ "cached s ?h \<noteq> None"] exI [of _ s']) auto
  qed
  show "\<exists>ok s'. can_allocate r (int i) budget sched s = Inr (ok, s') \<and> (ec_inv embeds s' \<and> cache_size s' = n) \<and> num_free_slots s \<le> num_free_slots s' \<and>
      (\<forall>h. cached s h = None \<longrightarrow> cached s' h = None) \<and> (\<forall>h. holds_output s r h \<longrightarrow> holds_output s' r h) \<and>
      (ok \<longrightarrow> int (embeds (mm_identifier (mm_features r ! i))) \<le> budget \<and>
        int (embeds (mm_identifier (mm_features r ! i))) + sched \<le> num_free_slots s')" for budget sched
  proof -
    let ?h = "mm_identifier (mm_features r ! i)"
    let ?ok = "int (embeds ?h) \<le> budget \<and> int (embeds ?h) + sched \<le> num_freeable_slots s"
    from can_allocate_ok [OF conjunct1 [OF a(1)] a(2,3), of budget sched] a(1) obtain s' k where
      s': "can_allocate r (int i) budget sched s = Inr (?ok, s')" "ec_inv embeds s' \<and> cache_size s' = n" "num_free_slots s \<le> num_free_slots s'"
      "?ok \<longrightarrow> int (embeds ?h) + sched \<le> num_free_slots s'"
      "cached s' = (\<lambda>h. if h \<in> fst ` set (take k (freeable s)) then None else cached s h)" by blast
    have "holds_output s' r h" if "holds_output s r h" for h
    proof -
      have "h \<notin> fst ` set (take k (freeable s))" using that freeable_not_held [of embeds s h k] a(1) by fastforce
      with that s'(5) show ?thesis by simp
    qed
    with s' show ?thesis by (intro exI [of _ ?ok] exI [of _ s']) simp
  qed
  show "\<exists>s'. allocate r (int i) s = Inr s' \<and> (ec_inv embeds s' \<and> cache_size s' = n) \<and>
      num_free_slots s' = num_free_slots s - int (embeds (mm_identifier (mm_features r ! i))) \<and>
      (\<forall>h. cached s h = None \<and> h \<noteq> mm_identifier (mm_features r ! i) \<longrightarrow> cached s' h = None) \<and>
      (\<forall>h. holds_output s r h \<or> h = mm_identifier (mm_features r ! i) \<longrightarrow> holds_output s' r h)"
    if "cached s (mm_identifier (mm_features r ! i)) = None" "int (embeds (mm_identifier (mm_features r ! i))) \<le> num_free_slots s"
    using allocate_ok [OF conjunct1 [OF a(1)] a(2,3) that] that(1) a(1) by auto
qed simp

text \<open>The hashes a worker keeps for an encoder-decoder model\<close>

abbreviation ed_holds_output :: "EncoderDecoderCacheManager \<Rightarrow> Request \<Rightarrow> mm_hash \<Rightarrow> bool" where
  "ed_holds_output s r h \<equiv> h \<in> set (allocated s)"

interpretation ed: encoder_manager embeds "\<lambda>s. 0 \<le> ed_free_slots s" ed_free_slots "\<lambda>s h. True" ed_holds_output True
    ed_check_and_update_cache ed_can_allocate ed_allocate for embeds :: "mm_hash \<Rightarrow> nat"
  by unfold_locales
    (auto simp: ed_check_and_update_cache_def ed_can_allocate_def ed_allocate_def embeds_of_nth mm_hash_of_nth)

section \<open>Reachable states of the encoder cache\<close>

text \<open>
  The calls the scheduler makes, for requests whose items have the embeddings \<open>embeds\<close> says and
  come in the order of their positions: a scheduling attempt, with the allocation of what it admitted or
  without it (no KV blocks left), the release of the inputs already processed, the release of all
  inputs of a request, the report of the evicted hashes, and a reset.
\<close>

inductive ec_reachable :: "(mm_hash \<Rightarrow> nat) \<Rightarrow> int \<Rightarrow> EncoderCacheManager \<Rightarrow> bool" for embeds n where
  start: "0 \<le> n \<Longrightarrow> ec_reachable embeds n (new_EncoderCacheManager n)"
| attempt: "ec_reachable embeds n s \<Longrightarrow> media_ok embeds r \<Longrightarrow> offsets_sorted r \<Longrightarrow> 0 \<le> computed \<Longrightarrow> 0 \<le> num_new \<Longrightarrow>
    0 \<le> budget \<Longrightarrow> shift \<in> {0, 1} \<Longrightarrow>
    try_schedule_encoder_inputs check_and_update_cache can_allocate conn False no_chunking r computed num_new budget shift s = Inr a \<Longrightarrow>
    ec_reachable embeds n (manager a)"
| schedule: "ec_reachable embeds n s \<Longrightarrow> media_ok embeds r \<Longrightarrow> offsets_sorted r \<Longrightarrow> 0 \<le> computed \<Longrightarrow> 0 \<le> num_new \<Longrightarrow>
    0 \<le> budget \<Longrightarrow> shift \<in> {0, 1} \<Longrightarrow>
    try_schedule_encoder_inputs check_and_update_cache can_allocate conn False no_chunking r computed num_new budget shift s = Inr a \<Longrightarrow>
    allocate_scheduled allocate r a = Inr s' \<Longrightarrow> ec_reachable embeds n s'"
| release_processed: "ec_reachable embeds n s \<Longrightarrow> media_ok embeds r \<Longrightarrow> set order = get_cached_input_ids r s \<Longrightarrow>
    free_encoder_inputs free_encoder_input False order computed r s = Inr s' \<Longrightarrow> ec_reachable embeds n s'"
| release: "ec_reachable embeds n s \<Longrightarrow> media_ok embeds r \<Longrightarrow> set order = get_cached_input_ids r s \<Longrightarrow>
    ec_free order r s = Inr s' \<Longrightarrow> ec_reachable embeds n s'"
| report: "ec_reachable embeds n s \<Longrightarrow> get_freed_mm_hashes s = (hs, s') \<Longrightarrow> ec_reachable embeds n s'"
| clear: "ec_reachable embeds n s \<Longrightarrow> ec_reachable embeds n (ec_reset s)"

lemma release_loop_ok:
  assumes "fold_res f order s = Inr s'" and "ec_inv embeds s \<and> cache_size s = n" and "media_ok embeds r"
    and "set order \<subseteq> {..< length (mm_features r)}"
    and "\<And>i s. i \<in> set order \<Longrightarrow> f i s = free_encoder_input r (int i) s \<or> f i s = Inr s"
  shows "ec_inv embeds s' \<and> cache_size s' = n"
proof (rule fold_res_invariant [OF assms(1), where P = "\<lambda>s. ec_inv embeds s \<and> cache_size s = n"])
  fix i t t' assume i: "i \<in> set order" and t: "ec_inv embeds t \<and> cache_size t = n" and step: "f i t = Inr t'"
  show "ec_inv embeds t' \<and> cache_size t' = n"
    using free_encoder_input_ok [OF conjunct1 [OF t] assms(3), of i] assms(4) assms(5) [OF i, of t] i t step by fastforce
qed (rule assms(2))

lemma cached_ids_range: "get_cached_input_ids r s \<subseteq> {..< length (mm_features r)}"
  by (auto simp: get_cached_input_ids_def)

lemma ec_reachable_inv:
  assumes "ec_reachable embeds n s"
  shows "ec_inv embeds s \<and> cache_size s = n"
  using assms
proof induction
  case start
  then show ?case using ec_inv_new by (simp add: new_EncoderCacheManager_def)
next
  case (attempt s r computed num_new budget shift conn no_chunking a)
  have "0 \<le> num_free_slots s" "0 \<le> shift" "shift \<le> 1" using attempt.IH attempt.hyps(7) by (auto simp: ec_inv_def)
  from em.schedule_ok [OF attempt.IH this(1) attempt.hyps(2-6) this(2,3), of conn no_chunking] attempt.hyps(8)
  show ?case by auto
next
  case (schedule s r computed num_new budget shift conn no_chunking a s')
  have "0 \<le> num_free_slots s" "0 \<le> shift" "shift \<le> 1" using schedule.IH schedule.hyps(7) by (auto simp: ec_inv_def)
  from em.schedule_ok [OF schedule.IH this(1) schedule.hyps(2-6) this(2,3), of conn no_chunking] schedule.hyps(8,9)
  show ?case by auto
next
  case (release_processed s r order computed s')
  then show ?case
    using cached_ids_range [of r s]
    by (intro release_loop_ok [of _ order s s' embeds n r]) (auto simp: free_encoder_inputs_def Let_def)
next
  case (release s r order s')
  then show ?case
    using cached_ids_range [of r s] by (intro release_loop_ok [of _ order s s' embeds n r]) (auto simp: ec_free_def)
next
  case (report s hs s')
  then show ?case by (auto simp: get_freed_mm_hashes_def)
next
  case (clear s)
  then have "0 \<le> n" by (auto simp: ec_inv_def sum_nonneg intro: order_trans [of _ "num_free_slots s"])
  with clear show ?case using ec_inv_reset [of s] by (auto simp: ec_reset_def)
qed

text \<open>What the counters mean\<close>

lemma ec_inv_freeable:
  assumes "ec_inv embeds s"
  shows "num_freeable_slots s = cache_size s - (\<Sum>h \<in> {h \<in> dom (cached s). cached s h \<noteq> Some {}}. int (embeds h))"
proof -
  let ?D = "dom (cached s)" and ?F = "{h. cached s h = Some {}}"
  have "(\<Sum>(h, m) \<leftarrow> freeable s. int m) = (\<Sum>h \<leftarrow> map fst (freeable s). int (embeds h))"
    unfolding map_map by (rule arg_cong [of _ _ sum_list], rule map_cong) (use assms in \<open>auto simp: ec_inv_def\<close>)
  also have "\<dots> = (\<Sum>h \<in> ?F. int (embeds h))"
    using assms sum_list_distinct_conv_sum_set [of "map fst (freeable s)" "\<lambda>h. int (embeds h)"] by (simp add: ec_inv_def)
  finally have "num_freeable_slots s = cache_size s - (\<Sum>h \<in> ?D. int (embeds h)) + (\<Sum>h \<in> ?F. int (embeds h))"
    using assms by (simp add: ec_inv_def)
  moreover have "(\<Sum>h \<in> ?D. int (embeds h)) = (\<Sum>h \<in> {h \<in> ?D. cached s h \<noteq> Some {}}. int (embeds h)) + (\<Sum>h \<in> ?F. int (embeds h))"
  proof -
    have "?D = {h \<in> ?D. cached s h \<noteq> Some {}} \<union> ?F" "finite ?D" using assms by (auto simp: ec_inv_def)
    then show ?thesis by (metis (mono_tags, lifting) disjoint_iff finite_Un mem_Collect_eq sum.union_disjoint)
  qed
  ultimately show ?thesis by simp
qed

section \<open>A sample request\<close>

text \<open>An item of three embeddings at position 2 and one with a mask at position 6\<close>

definition sample_media :: Request where
  "sample_media = \<lparr>py_id = 1, request_id = ''r'', priority = 0, arrival_time = 0, status = WAITING,
     mm_features = [\<lparr>mm_identifier = Some ''a'', mm_position = \<lparr>pr_offset = 2, pr_length = 3, is_embed = None\<rparr>\<rparr>,
                    \<lparr>mm_identifier = Some ''b'', mm_position = \<lparr>pr_offset = 6, pr_length = 2, is_embed = Some [False, True]\<rparr>\<rparr>],
     lora_request = None, cache_salt = None, prompt_embeds = None, embeds_hashes = [], output_token_ids = [],
     all_token_ids = [0, 1, 2, 3, 4, 5, 6, 7], block_hashes = [], num_computed_tokens = 0,
     num_preemptions = 0, skip_reading_prefix_cache = False\<rparr>"

definition sample_embeds :: "mm_hash \<Rightarrow> nat" where
  "sample_embeds h = (if h = Some ''a'' then 3 else 1)"

lemma sample_media_ok: "media_ok sample_embeds sample_media" "offsets_sorted sample_media"
  by (simp_all add: media_ok_def offsets_sorted_def sample_media_def sample_embeds_def get_num_embeds_def
      embeds_cumsum_def py_nth_def)

lemmas sample_run = try_schedule_encoder_inputs_def admit_input_def Let_def check_and_update_cache_def can_allocate_def
  evict_loop.simps allocate_scheduled_def allocate_def mm_hash_of_def get_num_encoder_embeds_def get_num_embeds_def
  get_embeds_indices_in_range_def embeds_cumsum_def py_nth_def new_EncoderCacheManager_def sample_media_def

lemma sample_schedule:
  "\<exists>a s. try_schedule_encoder_inputs check_and_update_cache can_allocate None False False sample_media 0 8 10 0
      (new_EncoderCacheManager 5) = Inr a \<and> allocate_scheduled allocate sample_media a = Inr s \<and>
    new_tokens a = 8 \<and> to_schedule a = [0, 1] \<and> num_free_slots s = 1 \<and>
    cached s = [Some ''a'' \<mapsto> {''r''}, Some ''b'' \<mapsto> {''r''}]"
  by (simp add: sample_run)

section \<open>Properties\<close>

text \<open>
  C33: In every reachable state of the encoder cache the free slots are the capacity less the
  embeddings of all cached items, the freeable slots are the capacity less those of the referenced
  items, and \<open>0 \<le> num_free_slots \<le> num_freeable_slots \<le> cache_size\<close>.
\<close>

theorem encoder_cache_bounds:
  assumes "ec_reachable embeds n s"
  shows "cache_size s = n \<and> 0 \<le> num_free_slots s \<and> num_free_slots s \<le> num_freeable_slots s \<and> num_freeable_slots s \<le> n \<and>
    num_free_slots s = n - (\<Sum>h \<in> dom (cached s). int (embeds h)) \<and>
    num_freeable_slots s = n - (\<Sum>h \<in> {h \<in> dom (cached s). cached s h \<noteq> Some {}}. int (embeds h))"
proof -
  note inv = ec_reachable_inv [OF assms]
  have "0 \<le> (\<Sum>h \<in> {h \<in> dom (cached s). cached s h \<noteq> Some {}}. int (embeds h))" by (simp add: sum_nonneg)
  then show ?thesis
    using inv ec_inv_freeable [of embeds s] freeable_sum_nonneg [of "freeable s"] by (auto simp: ec_inv_def)
qed

theorem encoder_cache_bounds_witness:
  "\<exists>s. ec_reachable sample_embeds 5 s \<and> dom (cached s) = {Some ''a'', Some ''b''} \<and> 0 \<le> num_free_slots s \<and>
    num_free_slots s = 5 - (\<Sum>h \<in> dom (cached s). int (sample_embeds h)) \<and> num_freeable_slots s \<le> 5"
proof -
  from sample_schedule obtain a s where
    s: "try_schedule_encoder_inputs check_and_update_cache can_allocate None False False sample_media 0 8 10 0
      (new_EncoderCacheManager 5) = Inr a" "allocate_scheduled allocate sample_media a = Inr s"
    "cached s = [Some ''a'' \<mapsto> {''r''}, Some ''b'' \<mapsto> {''r''}]" by blast
  have "ec_reachable sample_embeds 5 (new_EncoderCacheManager 5)" by (rule ec_reachable.start) simp
  from ec_reachable.schedule [OF this sample_media_ok _ _ _ _ s(1,2)] have r: "ec_reachable sample_embeds 5 s" by simp
  with encoder_cache_bounds [OF r] s(3) show ?thesis by (intro exI [of _ s]) auto
qed

text \<open>
  C34: \<open>can_allocate\<close> answers yes exactly when the item is within the compute budget and
  fits, with what is already scheduled, into the reclaimable space; the eviction loop then ends, has
  removed the oldest unreferenced entries and no more of them than were needed, and the space is free.
\<close>

theorem can_allocate_correct:
  assumes "ec_inv embeds s" and "media_ok embeds r" and "i < length (mm_features r)"
    and "need = int (embeds (mm_identifier (mm_features r ! i)))"
  shows "\<exists>s' k. can_allocate r (int i) budget sched s = Inr (need \<le> budget \<and> need + sched \<le> num_freeable_slots s, s') \<and>
    ec_inv embeds s' \<and> (need \<le> budget \<and> need + sched \<le> num_freeable_slots s \<longrightarrow> need + sched \<le> num_free_slots s') \<and>
    num_freeable_slots s' = num_freeable_slots s \<and>
    freeable s' = drop k (freeable s) \<and> freed s' = freed s @ map fst (take k (freeable s)) \<and>
    cached s' = (\<lambda>h. if h \<in> fst ` set (take k (freeable s)) then None else cached s h) \<and>
    (\<forall>j < k. num_free_slots s + (\<Sum>(h, m) \<leftarrow> take j (freeable s). int m) < need + sched)"
  using can_allocate_ok [OF assms(1-3), of budget sched] assms(4) by blast

theorem can_allocate_correct_witness:
  "\<exists>s'. can_allocate sample_media 0 10 0 \<lparr>cache_size = 5, num_free_slots = 2, num_freeable_slots = 5,
      cached = [Some ''x'' \<mapsto> {}, Some ''y'' \<mapsto> {}, Some ''z'' \<mapsto> {}],
      freeable = [(Some ''z'', 1), (Some ''y'', 1), (Some ''x'', 1)], freed = []\<rparr> = Inr (True, s') \<and>
    ec_inv sample_embeds s' \<and> 3 \<le> num_free_slots s' \<and> num_freeable_slots s' = 5"
proof -
  let ?s = "\<lparr>cache_size = 5, num_free_slots = 2, num_freeable_slots = 5,
      cached = [Some ''x'' \<mapsto> {}, Some ''y'' \<mapsto> {}, Some ''z'' \<mapsto> {}],
      freeable = [(Some ''z'', 1), (Some ''y'', 1), (Some ''x'', 1)], freed = []\<rparr>"
  have inv: "ec_inv sample_embeds ?s" by (auto simp: ec_inv_def sample_embeds_def)
  have i: "0 < length (mm_features sample_media)" "3 = int (sample_embeds (mm_identifier (mm_features sample_media ! 0)))"
    by (simp_all add: sample_media_def sample_embeds_def)
  from can_allocate_correct [OF inv sample_media_ok(1) i, of 10 0] obtain s' where
    "can_allocate sample_media (int 0) 10 0 ?s = Inr (3 \<le> (10 :: int) \<and> 3 + 0 \<le> num_freeable_slots ?s, s')" "ec_inv sample_embeds s'"
    "3 \<le> (10 :: int) \<and> 3 + 0 \<le> num_freeable_slots ?s \<longrightarrow> 3 + 0 \<le> num_free_slots s'"
    "num_freeable_slots s' = num_freeable_slots ?s" by blast
  then show ?thesis by (intro exI [of _ s']) simp
qed

text \<open>
  C32: A scheduling attempt never fails; allocating what it admitted never fails and leaves a
  non-negative number of free slots; the compute budget is charged for the inputs to compute and not
  exceeded; and every position of the range finally scheduled that takes a media embedding finds the
  output of its item cached and referenced by the request.
\<close>

theorem scheduled_inputs_available:
  assumes "ec_inv embeds s" and "media_ok embeds r" and "offsets_sorted r"
    and "0 \<le> computed" and "0 \<le> num_new" and "0 \<le> budget" and "shift \<in> {0, 1}"
  shows "\<exists>a s'. try_schedule_encoder_inputs check_and_update_cache can_allocate conn False no_chunking r
      computed num_new budget shift s = Inr a \<and>
    allocate_scheduled allocate r a = Inr s' \<and> ec_inv embeds s' \<and>
    0 \<le> new_tokens a \<and> new_tokens a \<le> num_new \<and> 0 \<le> compute_budget a \<and>
    compute_budget a = budget - (\<Sum>i \<leftarrow> to_schedule a. int (embeds (mm_identifier (mm_features r ! i)))) \<and>
    (\<forall>i < length (mm_features r). \<forall>q. computed \<le> q \<and> q < computed + new_tokens a \<and>
      embedding_at (mm_position (mm_features r ! i)) q \<longrightarrow>
      (\<exists>ids. cached s' (mm_identifier (mm_features r ! i)) = Some ids \<and> request_id r \<in> ids))"
proof -
  have "ec_inv embeds s \<and> cache_size s = cache_size s" "0 \<le> num_free_slots s" "0 \<le> shift" "shift \<le> 1"
    using assms(1,7) by (auto simp: ec_inv_def)
  from em.schedule_ok [OF this(1,2) assms(2-6) this(3,4), of conn no_chunking] show ?thesis
    unfolding em.need_def by auto
qed

theorem scheduled_inputs_available_witness:
  "\<exists>a s. try_schedule_encoder_inputs check_and_update_cache can_allocate None False False sample_media 0 8 10 0
      (new_EncoderCacheManager 5) = Inr a \<and> allocate_scheduled allocate sample_media a = Inr s \<and>
    (\<exists>ids. cached s (Some ''a'') = Some ids \<and> ''r'' \<in> ids) \<and> 0 \<le> compute_budget a"
proof -
  have inv: "ec_inv sample_embeds (new_EncoderCacheManager 5)" by (rule ec_inv_new) simp
  have "new_tokens a = 8" if "try_schedule_encoder_inputs check_and_update_cache can_allocate None False False sample_media 0 8 10 0
      (new_EncoderCacheManager 5) = Inr a" for a
    using that sample_schedule by auto
  moreover have "embedding_at (mm_position (mm_features sample_media ! 0)) 2" "0 < length (mm_features sample_media)"
    "mm_identifier (mm_features sample_media ! 0) = Some ''a''" "request_id sample_media = ''r''"
    by (simp_all add: sample_media_def embedding_at_def)
  ultimately show ?thesis
    using scheduled_inputs_available [OF inv sample_media_ok, of 0 8 10 0 None False] by fastforce
qed

text \<open>
  With a drafting model the scheduler looks one token further (shift 1). For an input that
  starts at exactly that token the answer depends on how its embeddings are described: without a mask
  the index range is empty and the input is skipped, with a mask the end index is \<open>-1\<close>, which reads the
  last entry of the running count, and the input is scheduled.
\<close>

lemma draft_lookahead_input:
  assumes "ec_inv embeds s" and "media_ok embeds r" and "mm_features r = [f]"
    and "int (pr_offset (mm_position f)) = computed + num_new" and "0 \<le> computed" and "0 < num_new"
    and "cached s (mm_identifier f) = None" and "0 < embeds (mm_identifier f)"
    and "int (embeds (mm_identifier f)) \<le> budget" and "int (embeds (mm_identifier f)) \<le> num_freeable_slots s"
  shows "\<exists>a. try_schedule_encoder_inputs check_and_update_cache can_allocate None False False r
      computed num_new budget 1 s = Inr a \<and> new_tokens a = num_new \<and>
    to_schedule a = (if is_embed (mm_position f) = None then [] else [0])"
proof -
  let ?p = "mm_position f" and ?h = "mm_identifier f"
  have i: "0 < length (mm_features r)" using assms(3) by simp
  have check: "check_and_update_cache r 0 s = Inr (False, s)"
    using assms(3,7) mm_hash_of_nth [OF i] by (simp add: check_and_update_cache_def)
  obtain s' where can: "can_allocate r 0 budget 0 s = Inr (True, s')"
    using can_allocate_ok [OF assms(1,2) i, of budget 0] assms(3,9,10) by auto
  have num: "get_num_embeds ?p = Inr (embeds ?h)" using assms(2,3) by (simp add: media_ok_def)
  have "pr_length ?p \<noteq> 0"
  proof
    assume "pr_length ?p = 0"
    with num assms(2,3,8) show False
      by (cases "is_embed ?p") (auto simp: get_num_embeds_def embeds_cumsum_def media_ok_def py_nth_def)
  qed
  then have len: "0 < pr_length ?p" by simp
  have range: "get_embeds_indices_in_range ?p 0 0 = Inr (0, if is_embed ?p = None then 0 else int (embeds ?h))"
    using num by (cases "is_embed ?p") (auto simp: get_embeds_indices_in_range_def get_num_embeds_def embeds_cumsum_def)
  show ?thesis
    using assms(3-6,8) check can num len range
    by (simp add: try_schedule_encoder_inputs_def admit_input_def Let_def)
qed

lemma draft_lookahead_input_example:
  "\<exists>a. try_schedule_encoder_inputs check_and_update_cache can_allocate None False False
      (sample_media\<lparr>mm_features := [mm_features sample_media ! 0]\<rparr>) 0 2 10 1 (new_EncoderCacheManager 5) = Inr a \<and>
    new_tokens a = 2 \<and> to_schedule a = []"
proof -
  let ?r = "sample_media\<lparr>mm_features := [mm_features sample_media ! 0]\<rparr>"
  have inv: "ec_inv sample_embeds (new_EncoderCacheManager 5)" by (rule ec_inv_new) simp
  have media: "media_ok sample_embeds ?r" using sample_media_ok(1) by (auto simp: media_ok_def sample_media_def)
  have "mm_features ?r = [mm_features sample_media ! 0]" by simp
  from draft_lookahead_input [OF inv media this, of 0 2 10] show ?thesis
    by (simp add: sample_media_def sample_embeds_def new_EncoderCacheManager_def)
qed

end
