(* ===== verification/Py_Heapq.thy ===== *)
theory Py_Heapq
  imports Main "HOL-Library.Multiset"
begin

text \<open>
  Python's \<open>heapq\<close>, as far as the request queue uses it: \<open>heappush\<close>, \<open>heappop\<close> and
  \<open>heapify\<close>, over the \<open><\<close> of the elements. The lemmas are proved once for every \<open><\<close> that
  compares a key.
\<close>

section \<open>The module\<close>

text \<open>\<open>_siftdown\<close>: the new item moves towards the root while it is smaller than its parent.\<close>

function siftdown_loop :: "('a \<Rightarrow> 'a \<Rightarrow> bool) \<Rightarrow> nat \<Rightarrow> 'a \<Rightarrow> nat \<Rightarrow> 'a list \<Rightarrow> 'a list" where
  "siftdown_loop lt startpos newitem pos xs =
     (if startpos < pos \<and> lt newitem (xs ! ((pos - 1) div 2))
      then siftdown_loop lt startpos newitem ((pos - 1) div 2) (xs[pos := xs ! ((pos - 1) div 2)])
      else xs[pos := newitem])"
  by pat_completeness auto

termination
  by (relation "measure (\<lambda>(lt, startpos, newitem, pos, xs). pos)") auto

definition siftdown :: "('a \<Rightarrow> 'a \<Rightarrow> bool) \<Rightarrow> nat \<Rightarrow> nat \<Rightarrow> 'a list \<Rightarrow> 'a list" where
  "siftdown lt startpos pos xs = siftdown_loop lt startpos (xs ! pos) pos xs"

text \<open>\<open>_siftup\<close>: the smaller child moves up until the hole is a leaf, where the item sifts down.\<close>

definition smaller_child :: "('a \<Rightarrow> 'a \<Rightarrow> bool) \<Rightarrow> nat \<Rightarrow> 'a list \<Rightarrow> nat" where
  "smaller_child lt pos xs =
     (if 2 * pos + 2 < length xs \<and> \<not> lt (xs ! (2 * pos + 1)) (xs ! (2 * pos + 2)) then 2 * pos + 2 else 2 * pos + 1)"

function siftup_loop :: "('a \<Rightarrow> 'a \<Rightarrow> bool) \<Rightarrow> nat \<Rightarrow> 'a list \<Rightarrow> nat \<times> 'a list" where
  "siftup_loop lt pos xs =
     (if 2 * pos + 1 < length xs
      then siftup_loop lt (smaller_child lt pos xs) (xs[pos := xs ! smaller_child lt pos xs])
      else (pos, xs))"
  by pat_completeness auto

termination
  by (relation "measure (\<lambda>(lt, pos, xs). length xs - pos)") (auto simp: smaller_child_def)

definition siftup :: "('a \<Rightarrow> 'a \<Rightarrow> bool) \<Rightarrow> nat \<Rightarrow> 'a list \<Rightarrow> 'a list" where
  "siftup lt pos xs =
     (let (leaf, ys) = siftup_loop lt pos xs in siftdown lt pos leaf (ys[leaf := xs ! pos]))"

definition heappush :: "('a \<Rightarrow> 'a \<Rightarrow> bool) \<Rightarrow> 'a \<Rightarrow> 'a list \<Rightarrow> 'a list" where
  "heappush lt x xs = siftdown lt 0 (length xs) (xs @ [x])"

text \<open>\<open>None\<close> where Python raises \<open>IndexError\<close>\<close>

definition heappop :: "('a \<Rightarrow> 'a \<Rightarrow> bool) \<Rightarrow> 'a list \<Rightarrow> ('a \<times> 'a list) option" where
  "heappop lt xs =
     (if xs = [] then None
      else let lastelt = last xs; ys = butlast xs
      in if ys = [] then Some (lastelt, ys)
         else Some (ys ! 0, siftup lt 0 (ys[0 := lastelt])))"

definition heapify :: "('a \<Rightarrow> 'a \<Rightarrow> bool) \<Rightarrow> 'a list \<Rightarrow> 'a list" where
  "heapify lt xs = fold (siftup lt) (rev [0..<length xs div 2]) xs"

declare siftdown_loop.simps [simp del] siftup_loop.simps [simp del]

section \<open>Positions\<close>

abbreviation parent :: "nat \<Rightarrow> nat" where
  "parent i \<equiv> (i - 1) div 2"

inductive below :: "nat \<Rightarrow> nat \<Rightarrow> bool" for s where
  self: "below s s"
| left: "below s i \<Longrightarrow> below s (2 * i + 1)"
| right: "below s i \<Longrightarrow> below s (2 * i + 2)"

lemma below_le: "below s i \<Longrightarrow> s \<le> i"
  by (induction rule: below.induct) auto

lemma below_parent: "below s i \<Longrightarrow> i \<noteq> s \<Longrightarrow> below s (parent i) \<and> s \<le> parent i"
  by (cases rule: below.cases) (auto simp: below_le)

lemma below_0: "below 0 i"
proof (induction i rule: less_induct)
  case (less i)
  show ?case
  proof (cases "i = 0")
    case False
    with less have p: "below 0 (parent i)" by simp
    from False have "i = 2 * parent i + 1 \<or> i = 2 * parent i + 2" by linarith
    with below.left [OF p] below.right [OF p] show ?thesis by metis
  qed (simp add: below.self)
qed

lemma parent_less: "0 < i \<Longrightarrow> parent i < i"
  by simp

lemma parent_child: "parent (2 * i + 1) = i" "parent (2 * i + 2) = i"
  by simp_all

lemma mset_move:
  assumes "i < length xs" and "j < length xs" and "i \<noteq> j"
  shows "mset ((xs[i := xs ! j])[j := x]) = mset (xs[i := x])"
proof -
  have "(xs[i := xs ! j])[j := x] = (xs[i := x])[i := xs[i := x] ! j, j := xs[i := x] ! i]" using assms by simp
  then show ?thesis using assms by (metis length_list_update mset_swap)
qed

section \<open>Heaps of keyed elements\<close>

locale heap_order =
  fixes lt :: "'a \<Rightarrow> 'a \<Rightarrow> bool" and key :: "'a \<Rightarrow> 'k::linorder"
  assumes lt_key: "lt a b \<longleftrightarrow> key a < key b"
begin

text \<open>The heap condition below the positions from \<open>s\<close> on\<close>

definition heap_from :: "nat \<Rightarrow> 'a list \<Rightarrow> bool" where
  "heap_from s xs \<longleftrightarrow> (\<forall>i. 0 < i \<and> i < length xs \<and> s \<le> parent i \<longrightarrow> key (xs ! parent i) \<le> key (xs ! i))"

text \<open>The condition but for one position, whose children are not below its parent\<close>

definition heap_but :: "nat \<Rightarrow> nat \<Rightarrow> 'a list \<Rightarrow> bool" where
  "heap_but s pos xs \<longleftrightarrow>
     (\<forall>i. 0 < i \<and> i < length xs \<and> s \<le> parent i \<and> i \<noteq> pos \<longrightarrow> key (xs ! parent i) \<le> key (xs ! i)) \<and>
     (\<forall>i. s < pos \<and> 0 < i \<and> i < length xs \<and> parent i = pos \<longrightarrow> key (xs ! parent pos) \<le> key (xs ! i))"

lemma heap_but_done:
  assumes "heap_but s pos xs" and "below s pos" and "pos = s \<or> key (xs ! parent pos) \<le> key (xs ! pos)"
  shows "heap_from s xs"
  unfolding heap_from_def
proof (intro allI impI)
  fix i assume i: "0 < i \<and> i < length xs \<and> s \<le> parent i"
  show "key (xs ! parent i) \<le> key (xs ! i)"
  proof (cases "i = pos")
    case True
    with i have "pos \<noteq> s" by auto
    with True assms(3) show ?thesis by simp
  next
    case False
    with i assms(1) show ?thesis by (simp add: heap_but_def)
  qed
qed

text \<open>Exchanging an item with its larger parent moves the exception up.\<close>

lemma heap_but_up:
  assumes "heap_but s pos (xs[pos := x])" and "pos < length xs" and "below s pos" and "s < pos"
    and "key x < key (xs ! parent pos)"
  shows "heap_but s (parent pos) ((xs[pos := xs ! parent pos])[parent pos := x])"
proof -
  let ?p = "parent pos" and ?ys = "xs[pos := x]" and ?zs = "(xs[pos := xs ! parent pos])[parent pos := x]"
  have p: "?p < pos" "s \<le> ?p" using assms(3,4) below_parent [of s pos] by auto
  have cond: "key (?ys ! parent i) \<le> key (?ys ! i)" if "0 < i" "i < length xs" "s \<le> parent i" "i \<noteq> pos" for i
    using assms(1) that by (simp add: heap_but_def)
  have grand: "key (xs ! ?p) \<le> key (?ys ! i)" if "0 < i" "i < length xs" "parent i = pos" for i
  proof -
    have "key (?ys ! ?p) \<le> key (?ys ! i)" using assms(1,4) that unfolding heap_but_def length_list_update by blast
    then show ?thesis using p(1) by simp
  qed
  have nth: "?zs ! i = (if i = ?p then x else if i = pos then xs ! ?p else xs ! i)" if "i < length xs" for i
    using that p by (auto simp: nth_list_update)
  have "key (?zs ! parent i) \<le> key (?zs ! i)" if i: "0 < i" "i < length xs" "s \<le> parent i" "i \<noteq> ?p" for i
  proof -
    have lt: "parent i < i" using i by simp
    then have bounds: "parent i < length xs" using i by simp
    consider "i = pos" | "i \<noteq> pos" "parent i = pos" | "i \<noteq> pos" "parent i = ?p" | "i \<noteq> pos" "parent i \<noteq> pos" "parent i \<noteq> ?p"
      by blast
    then show ?thesis
    proof cases
      case 1
      then show ?thesis using assms(2,5) p nth [OF i(2)] nth [OF bounds] by simp
    next
      case 2
      then show ?thesis using grand [OF i(1,2)] i(4) p nth [OF i(2)] nth [OF bounds] by simp
    next
      case 3
      then show ?thesis using cond [OF i(1-3)] assms(5) i(4) p nth [OF i(2)] nth [OF bounds] by simp
    next
      case 4
      then show ?thesis using cond [OF i(1-3)] i(4) nth [OF i(2)] nth [OF bounds] by simp
    qed
  qed
  moreover have "key (?zs ! parent ?p) \<le> key (?zs ! i)" if i: "s < ?p" "0 < i" "i < length xs" "parent i = ?p" for i
  proof -
    have "s \<le> parent ?p" using below_parent [of s ?p] below_parent [of s pos] assms(3,4) i(1) by auto
    moreover have far: "parent ?p < ?p" using i(1) by simp
    ultimately have up: "key (xs ! parent ?p) \<le> key (xs ! ?p)"
      using cond [of ?p] i(1) p assms(2) by (auto simp: nth_list_update)
    from far have "?zs ! parent ?p = xs ! parent ?p" using nth [of "parent ?p"] p assms(2) by simp
    moreover have "key (xs ! ?p) \<le> key (?zs ! i)"
    proof (cases "i = pos")
      case True
      then show ?thesis using nth [OF i(3)] p by simp
    next
      case False
      have "i \<noteq> ?p" using i(2,4) by (metis less_irrefl parent_less)
      then show ?thesis using cond [OF i(2,3)] False i(4) p nth [OF i(3)] by simp
    qed
    ultimately show ?thesis using up by simp
  qed
  ultimately show ?thesis unfolding heap_but_def length_list_update by blast
qed

lemma siftdown_loop_ok:
  assumes "pos < length xs" and "below s pos" and "heap_but s pos (xs[pos := x])"
  shows "heap_from s (siftdown_loop lt s x pos xs) \<and> mset (siftdown_loop lt s x pos xs) = mset (xs[pos := x])"
  using assms
proof (induction pos arbitrary: xs rule: less_induct)
  case (less pos)
  let ?p = "parent pos"
  show ?case
  proof (cases "s < pos \<and> lt x (xs ! ?p)")
    case True
    then have p: "?p < pos" "below s ?p" "?p < length (xs[pos := xs ! ?p])"
      using below_parent [OF less.prems(2)] less.prems(1) by auto
    have "heap_but s ?p ((xs[pos := xs ! ?p])[?p := x])"
      using heap_but_up [OF less.prems(3,1,2)] True lt_key by simp
    from less.IH [OF p(1,3,2) this] mset_move [of pos xs ?p x] p less.prems(1) True show ?thesis
      by (simp add: siftdown_loop.simps [of lt s x pos])
  next
    case False
    have "pos = s \<or> key (xs[pos := x] ! ?p) \<le> key (xs[pos := x] ! pos)"
    proof (cases "pos = s")
      case False
      with below_le [OF less.prems(2)] have "s < pos" "?p \<noteq> pos" by auto
      with \<open>\<not> (s < pos \<and> lt x (xs ! ?p))\<close> less.prems(1) show ?thesis by (simp add: lt_key not_less)
    qed simp
    moreover have "siftdown_loop lt s x pos xs = xs[pos := x]"
      using False by (subst siftdown_loop.simps) auto
    ultimately show ?thesis using heap_but_done [OF less.prems(3,2)] by simp
  qed
qed

text \<open>The condition but for one position and its children\<close>

definition heap_hole :: "nat \<Rightarrow> nat \<Rightarrow> 'a list \<Rightarrow> bool" where
  "heap_hole s pos xs \<longleftrightarrow>
     (\<forall>i. 0 < i \<and> i < length xs \<and> s \<le> parent i \<and> i \<noteq> pos \<and> parent i \<noteq> pos \<longrightarrow> key (xs ! parent i) \<le> key (xs ! i)) \<and>
     (\<forall>i. s < pos \<and> 0 < i \<and> i < length xs \<and> parent i = pos \<longrightarrow> key (xs ! parent pos) \<le> key (xs ! i))"

lemma smaller_child:
  assumes "2 * pos + 1 < length xs" and "c = smaller_child lt pos xs"
  shows "c < length xs" and "parent c = pos" and "pos < c"
    and "0 < i \<Longrightarrow> i < length xs \<Longrightarrow> parent i = pos \<Longrightarrow> key (xs ! c) \<le> key (xs ! i)"
proof -
  show "c < length xs" "parent c = pos" "pos < c" using assms by (auto simp: smaller_child_def)
  assume i: "0 < i" "i < length xs" "parent i = pos"
  then have "i = 2 * pos + 1 \<or> i = 2 * pos + 2" by linarith
  with i(2) show "key (xs ! c) \<le> key (xs ! i)"
    by (auto simp: assms(2) smaller_child_def lt_key not_less intro: less_imp_le)
qed

lemma heap_hole_down:
  assumes "heap_hole s pos xs" and "2 * pos + 1 < length xs" and "c = smaller_child lt pos xs" and "below s pos"
  shows "heap_hole s c (xs[pos := xs ! c])"
proof -
  let ?zs = "xs[pos := xs ! c]"
  note c = smaller_child [OF assms(2,3)]
  have s: "s \<le> pos" by (rule below_le [OF assms(4)])
  have cond: "key (xs ! parent i) \<le> key (xs ! i)" if "0 < i" "i < length xs" "s \<le> parent i" "i \<noteq> pos" "parent i \<noteq> pos" for i
    using assms(1) that by (simp add: heap_hole_def)
  have "key (?zs ! parent i) \<le> key (?zs ! i)" if i: "0 < i" "i < length xs" "s \<le> parent i" "i \<noteq> c" "parent i \<noteq> c" for i
  proof -
    consider "i = pos" | "i \<noteq> pos" "parent i = pos" | "i \<noteq> pos" "parent i \<noteq> pos" by blast
    then show ?thesis
    proof cases
      case 1
      with i have "s < pos" "parent pos \<noteq> pos" by (auto dest: parent_less)
      with assms(1) c 1 i(2) show ?thesis by (simp add: heap_hole_def)
    next
      case 2
      then show ?thesis using c(4) [OF i(1,2)] i(2) parent_less [OF i(1)] by simp
    next
      case 3
      then show ?thesis using cond [OF i(1-3)] by simp
    qed
  qed
  moreover have "key (?zs ! parent c) \<le> key (?zs ! i)" if i: "0 < i" "i < length xs" "parent i = c" for i
  proof -
    have "i \<noteq> pos" using parent_less [OF i(1)] c(3) i(3) by linarith
    then show ?thesis using cond [OF i(1,2)] s c i(2,3) by simp
  qed
  ultimately show ?thesis unfolding heap_hole_def length_list_update by blast
qed

lemma below_child: "parent c = pos \<Longrightarrow> pos < c \<Longrightarrow> below s pos \<Longrightarrow> below s c"
proof -
  assume a: "parent c = pos" "pos < c" "below s pos"
  then have "c = 2 * pos + 1 \<or> c = 2 * pos + 2" by linarith
  with below.left [OF a(3)] below.right [OF a(3)] show ?thesis by metis
qed

lemma siftup_loop_ok:
  assumes "pos < length xs" and "below s pos" and "heap_hole s pos xs"
  shows "\<exists>leaf ys. siftup_loop lt pos xs = (leaf, ys) \<and> leaf < length ys \<and> length ys = length xs \<and> below s leaf \<and>
    heap_but s leaf (ys[leaf := x]) \<and> mset (ys[leaf := x]) = mset (xs[pos := x])"
  using assms
proof (induction "length xs - pos" arbitrary: pos xs rule: less_induct)
  case less
  show ?case
  proof (cases "2 * pos + 1 < length xs")
    case True
    define c where "c = smaller_child lt pos xs"
    note c = smaller_child [OF True c_def]
    have "length (xs[pos := xs ! c]) - c < length xs - pos" using c by simp
    moreover have "c < length (xs[pos := xs ! c])" using c(1) by simp
    moreover have "below s c" by (rule below_child [OF c(2,3) less.prems(2)])
    moreover note heap_hole_down [OF less.prems(3) True c_def less.prems(2)]
    ultimately have "\<exists>leaf ys. siftup_loop lt c (xs[pos := xs ! c]) = (leaf, ys) \<and> leaf < length ys \<and>
        length ys = length (xs[pos := xs ! c]) \<and> below s leaf \<and>
        heap_but s leaf (ys[leaf := x]) \<and> mset (ys[leaf := x]) = mset ((xs[pos := xs ! c])[c := x])"
      by (rule less.hyps)
    with mset_move [of pos xs c x] c less.prems(1) True show ?thesis
      by (simp add: siftup_loop.simps [of lt pos] c_def [symmetric])
  next
    case False
    have "heap_but s pos (xs[pos := x])"
    proof -
      have "parent i \<noteq> pos" if "0 < i" "i < length xs" for i using that False by linarith
      moreover have "key (xs[pos := x] ! parent i) \<le> key (xs[pos := x] ! i)"
        if "0 < i" "i < length xs" "s \<le> parent i" "i \<noteq> pos" "parent i \<noteq> pos" for i
        using less.prems(3) that by (simp add: heap_hole_def)
      ultimately show ?thesis unfolding heap_but_def length_list_update by blast
    qed
    with less.prems False show ?thesis by (simp add: siftup_loop.simps [of lt pos])
  qed
qed

lemma siftup_ok:
  assumes "s < length xs" and "heap_from (Suc s) xs"
  shows "heap_from s (siftup lt s xs) \<and> mset (siftup lt s xs) = mset xs"
proof -
  have "heap_hole s s xs" using assms(2) by (simp add: heap_hole_def heap_from_def)
  from siftup_loop_ok [OF assms(1) below.self this, of "xs ! s"] obtain leaf ys where
    ys: "siftup_loop lt s xs = (leaf, ys)" "leaf < length ys" "below s leaf" "heap_but s leaf (ys[leaf := xs ! s])"
    "mset (ys[leaf := xs ! s]) = mset xs" by auto
  from siftdown_loop_ok [of leaf "ys[leaf := xs ! s]" s "xs ! s"] ys show ?thesis
    by (simp add: siftup_def siftdown_def)
qed

section \<open>The operations\<close>

lemma heap_root_least:
  assumes "heap_from 0 xs" and "i < length xs"
  shows "key (xs ! 0) \<le> key (xs ! i)"
  using assms(2)
proof (induction i rule: less_induct)
  case (less i)
  show ?case
  proof (cases "i = 0")
    case False
    then have "parent i < i" by simp
    with less have "key (xs ! 0) \<le> key (xs ! parent i)" by (meson order.strict_trans)
    also have "\<dots> \<le> key (xs ! i)" using assms(1) False less.prems by (simp add: heap_from_def)
    finally show ?thesis .
  qed simp
qed

lemma heappush_ok:
  assumes "heap_from 0 xs"
  shows "heap_from 0 (heappush lt x xs)" and "mset (heappush lt x xs) = add_mset x (mset xs)"
proof -
  have "heap_but 0 (length xs) (xs @ [x])"
  proof -
    have "parent i < length xs" if "0 < i" "i < Suc (length xs)" for i using parent_less [OF that(1)] that by linarith
    then have "key ((xs @ [x]) ! parent i) \<le> key ((xs @ [x]) ! i)" if "0 < i" "i < length xs" for i
      using assms that by (simp add: heap_from_def nth_append)
    moreover have "parent i \<noteq> length xs" if "0 < i" "i < Suc (length xs)" for i using parent_less [OF that(1)] that by linarith
    ultimately show ?thesis by (auto simp: heap_but_def less_Suc_eq)
  qed
  then have "heap_from 0 (heappush lt x xs) \<and> mset (heappush lt x xs) = add_mset x (mset xs)"
    using siftdown_loop_ok [of "length xs" "xs @ [x]" 0 x] by (simp add: heappush_def siftdown_def below_0)
  then show "heap_from 0 (heappush lt x xs)" "mset (heappush lt x xs) = add_mset x (mset xs)" by simp_all
qed

lemma heappop_ok:
  assumes "heap_from 0 xs" and "xs \<noteq> []"
  shows "\<exists>ys. heappop lt xs = Some (xs ! 0, ys) \<and> heap_from 0 ys \<and> mset xs = add_mset (xs ! 0) (mset ys)"
proof (cases "butlast xs = []")
  case True
  with assms(2) obtain x where "xs = [x]" by (cases xs) (auto split: if_splits)
  then show ?thesis by (simp add: heappop_def heap_from_def)
next
  case False
  then obtain y ys where ys: "butlast xs = y # ys" by (cases "butlast xs") auto
  then have xs: "xs = y # ys @ [last xs]" using assms(2) by (metis append_Cons append_butlast_last_id)
  have "heap_from (Suc 0) (last xs # ys)"
    unfolding heap_from_def
  proof (intro allI impI)
    fix i assume i: "0 < i \<and> i < length (last xs # ys) \<and> Suc 0 \<le> parent i"
    have eq: "(last xs # ys) ! j = xs ! j" if "0 < j" "j < Suc (length ys)" for j
      using that by (subst (2) xs) (auto simp: nth_append nth_Cons split: nat.splits)
    have "i < length xs" using i by (subst xs) simp
    with assms(1) i have "key (xs ! parent i) \<le> key (xs ! i)" by (simp add: heap_from_def)
    moreover have "parent i < i" using i parent_less by blast
    ultimately show "key ((last xs # ys) ! parent i) \<le> key ((last xs # ys) ! i)" using eq [of i] eq [of "parent i"] i by simp
  qed
  from siftup_ok [OF _ this] have "heap_from 0 (siftup lt 0 (last xs # ys))"
    "mset (siftup lt 0 (last xs # ys)) = mset (last xs # ys)" by simp_all
  moreover have "mset xs = add_mset y (mset (last xs # ys))" "xs ! 0 = y" by (subst xs, simp)+
  ultimately show ?thesis using ys assms(2) by (simp add: heappop_def)
qed

lemma heapify_ok: "heap_from 0 (heapify lt xs) \<and> mset (heapify lt xs) = mset xs"
proof -
  have "heap_from 0 (fold (siftup lt) (rev [0..<k]) ys) \<and> mset (fold (siftup lt) (rev [0..<k]) ys) = mset ys"
    if "heap_from k ys" "k \<le> length ys" for k and ys :: "'a list"
    using that
  proof (induction k arbitrary: ys)
    case (Suc k)
    then have "heap_from k (siftup lt k ys)" "mset (siftup lt k ys) = mset ys" using siftup_ok [of k ys] by auto
    moreover from this(2) have "length (siftup lt k ys) = length ys" by (metis size_mset)
    ultimately show ?case using Suc.IH [of "siftup lt k ys"] Suc.prems by simp
  qed simp
  moreover have "heap_from (length xs div 2) xs" by (auto simp: heap_from_def)
  ultimately show ?thesis unfolding heapify_def by simp
qed

end

end
