(* ===== verification/Request_Queue.thy ===== *)
theory Request_Queue
  imports Request_Model Py_Heapq
begin

text \<open>
  The queues of waiting requests (\<open>src/vllm/vllm/v1/core/sched/request_queue.py\<close>): first come
  first served, a deque, and by priority, a binary heap. Requests are compared by identity where the
  code removes them, since the class defines no \<open>__eq__\<close>, and by \<open>__lt__\<close> in the heap.
\<close>

section \<open>The queues\<close>

datatype SchedulingPolicy = FCFS | PRIORITY

type_synonym FCFSRequestQueue = "Request list"
type_synonym PriorityRequestQueue = "Request list"

text \<open>\<open>xs.remove(x)\<close> removes the first element that is the object \<open>x\<close> and raises without one.\<close>

fun py_remove :: "Request \<Rightarrow> Request list \<Rightarrow> Request list res" where
  "py_remove x [] = Inl (ValueError [])"
| "py_remove x (y # ys) = (if py_id x = py_id y then Inr ys else rbind (py_remove x ys) (\<lambda>zs. Inr (y # zs)))"

definition not_in :: "Request list \<Rightarrow> Request \<Rightarrow> bool" where
  "not_in rs r \<longleftrightarrow> py_id r \<notin> py_id ` set rs"

subsection \<open>First come first served\<close>

definition fcfs_add_request :: "Request \<Rightarrow> FCFSRequestQueue \<Rightarrow> FCFSRequestQueue" where
  "fcfs_add_request r q = q @ [r]"

definition fcfs_pop_request :: "FCFSRequestQueue \<Rightarrow> (Request \<times> FCFSRequestQueue) res" where
  "fcfs_pop_request q = (case q of [] \<Rightarrow> Inl IndexError | r # q' \<Rightarrow> Inr (r, q'))"

definition fcfs_peek_request :: "FCFSRequestQueue \<Rightarrow> Request res" where
  "fcfs_peek_request q = (if q = [] then Inl IndexError else Inr (q ! 0))"

definition fcfs_prepend_request :: "Request \<Rightarrow> FCFSRequestQueue \<Rightarrow> FCFSRequestQueue" where
  "fcfs_prepend_request r q = r # q"

text \<open>\<open>extendleft\<close> prepends the elements one by one; \<open>rs\<close> is the iteration of the other queue.\<close>

definition fcfs_prepend_requests :: "Request list \<Rightarrow> FCFSRequestQueue \<Rightarrow> FCFSRequestQueue" where
  "fcfs_prepend_requests rs q = fold fcfs_prepend_request rs q"

definition fcfs_remove_request :: "Request \<Rightarrow> FCFSRequestQueue \<Rightarrow> FCFSRequestQueue res" where
  "fcfs_remove_request r q = py_remove r q"

definition fcfs_remove_requests :: "Request list \<Rightarrow> FCFSRequestQueue \<Rightarrow> FCFSRequestQueue" where
  "fcfs_remove_requests rs q = filter (not_in rs) q"

definition fcfs_bool :: "FCFSRequestQueue \<Rightarrow> bool" where
  "fcfs_bool q \<longleftrightarrow> length q > 0"

definition fcfs_iter :: "FCFSRequestQueue \<Rightarrow> Request list" where
  "fcfs_iter q = q"

subsection \<open>By priority\<close>

definition prio_add_request :: "Request \<Rightarrow> PriorityRequestQueue \<Rightarrow> PriorityRequestQueue" where
  "prio_add_request r q = heappush request_lt r q"

definition prio_pop_request :: "PriorityRequestQueue \<Rightarrow> (Request \<times> PriorityRequestQueue) res" where
  "prio_pop_request q = (if q = [] then Inl IndexError else of_option IndexError (heappop request_lt q))"

definition prio_peek_request :: "PriorityRequestQueue \<Rightarrow> Request res" where
  "prio_peek_request q = (if q = [] then Inl IndexError else Inr (q ! 0))"

definition prio_prepend_request :: "Request \<Rightarrow> PriorityRequestQueue \<Rightarrow> PriorityRequestQueue" where
  "prio_prepend_request r q = prio_add_request r q"

definition prio_prepend_requests :: "Request list \<Rightarrow> PriorityRequestQueue \<Rightarrow> PriorityRequestQueue" where
  "prio_prepend_requests rs q = fold prio_add_request rs q"

definition prio_remove_request :: "Request \<Rightarrow> PriorityRequestQueue \<Rightarrow> PriorityRequestQueue res" where
  "prio_remove_request r q = rbind (py_remove r q) (\<lambda>q'. Inr (heapify request_lt q'))"

definition prio_remove_requests :: "Request list \<Rightarrow> PriorityRequestQueue \<Rightarrow> PriorityRequestQueue" where
  "prio_remove_requests rs q = heapify request_lt (filter (not_in rs) q)"

definition prio_bool :: "PriorityRequestQueue \<Rightarrow> bool" where
  "prio_bool q \<longleftrightarrow> q \<noteq> []"

text \<open>\<open>__iter__\<close> pops from a copy until it is empty; the fuel is the number of elements.\<close>

fun prio_iter_loop :: "nat \<Rightarrow> Request list \<Rightarrow> Request list option" where
  "prio_iter_loop fuel [] = Some []"
| "prio_iter_loop 0 (x # xs) = None"
| "prio_iter_loop (Suc fuel) (x # xs) =
     (case heappop request_lt (x # xs) of
        None \<Rightarrow> None
      | Some (r, heap_copy) \<Rightarrow> map_option (Cons r) (prio_iter_loop fuel heap_copy))"

definition prio_iter :: "PriorityRequestQueue \<Rightarrow> Request list option" where
  "prio_iter q = prio_iter_loop (length q) q"

subsection \<open>The queue of a policy\<close>

datatype RequestQueue = FCFSQueue FCFSRequestQueue | PriorityQueue PriorityRequestQueue

definition create_request_queue :: "SchedulingPolicy \<Rightarrow> RequestQueue" where
  "create_request_queue policy = (case policy of PRIORITY \<Rightarrow> PriorityQueue [] | FCFS \<Rightarrow> FCFSQueue [])"

section \<open>The heap of requests\<close>

interpretation rh: heap_order request_lt sort_key_of
  by unfold_locales (rule request_lt_key)

text \<open>An object has one state: the requests of a queue with the same identity are the same record.\<close>

definition same_objects :: "Request set \<Rightarrow> bool" where
  "same_objects A \<longleftrightarrow> inj_on py_id A"

abbreviation prio_inv :: "PriorityRequestQueue \<Rightarrow> bool" where
  "prio_inv q \<equiv> rh.heap_from 0 q \<and> same_objects (set q)"

text \<open>The abstract queue: the requests in the order of their keys\<close>

definition sorted_requests :: "Request list \<Rightarrow> Request list" where
  "sorted_requests q = sort_key sort_key_of q"

lemma same_objects_key: "same_objects A \<Longrightarrow> inj_on sort_key_of A"
  by (auto simp: same_objects_def inj_on_def sort_key_of_def)

lemma sorted_requests_unique:
  assumes "mset ys = mset xs" and "sorted (map sort_key_of ys)" and "same_objects (set xs)"
  shows "sorted_requests xs = ys"
  unfolding sorted_requests_def
proof (rule properties_for_sort_key [OF assms(1) _ assms(2)])
  fix k assume "k \<in> set ys"
  then have k: "k \<in> set xs" using assms(1) by (metis set_mset_mset)
  have same: "filter (\<lambda>x. sort_key_of k = sort_key_of x) zs = filter (\<lambda>x. k = x) zs" if "set zs = set xs" for zs
    by (rule filter_cong) (use k that inj_onD [OF same_objects_key [OF assms(3)]] in auto)
  have "filter (\<lambda>x. k = x) zs = replicate (count (mset zs) k) k" for zs :: "Request list"
    by (induction zs) auto
  with same assms(1) show "filter (\<lambda>x. sort_key_of k = sort_key_of x) ys = filter (\<lambda>x. sort_key_of k = sort_key_of x) xs"
    by (metis set_mset_mset)
qed

lemma sorted_requests_cong: "mset xs = mset ys \<Longrightarrow> same_objects (set ys) \<Longrightarrow> sorted_requests xs = sorted_requests ys"
  by (rule sorted_requests_unique [symmetric])
    (auto simp: sorted_requests_def intro: sorted_sort_key)

section \<open>The contract of a queue\<close>

text \<open>\<open>n\<close> calls of \<open>pop_request\<close>\<close>

fun pop_many :: "('q \<Rightarrow> (Request \<times> 'q) res) \<Rightarrow> nat \<Rightarrow> 'q \<Rightarrow> (Request list \<times> 'q) res" where
  "pop_many pop_request 0 q = Inr ([], q)"
| "pop_many pop_request (Suc n) q =
     rbind (pop_request q) (\<lambda>(r, q'). rbind (pop_many pop_request n q') (\<lambda>(rs, q''). Inr (r # rs, q'')))"

text \<open>\<open>place r rs\<close> is where the policy puts a new request into the order of service \<open>rs\<close>.\<close>

locale request_queue =
  fixes inv :: "'q \<Rightarrow> bool"
    and contents :: "'q \<Rightarrow> Request list"
    and place :: "Request \<Rightarrow> Request list \<Rightarrow> Request list"
    and add_request :: "Request \<Rightarrow> 'q \<Rightarrow> 'q"
    and pop_request :: "'q \<Rightarrow> (Request \<times> 'q) res"
    and peek_request :: "'q \<Rightarrow> Request res"
    and remove_request :: "Request \<Rightarrow> 'q \<Rightarrow> 'q res"
    and remove_requests :: "Request list \<Rightarrow> 'q \<Rightarrow> 'q"
  assumes contents_objects: "inv q \<Longrightarrow> same_objects (set (contents q))"
    and place_set: "set (place r rs) = insert r (set rs)"
    and add_law: "inv q \<Longrightarrow> same_objects (insert r (set (contents q))) \<Longrightarrow>
      inv (add_request r q) \<and> contents (add_request r q) = place r (contents q)"
    and pop_empty: "inv q \<Longrightarrow> contents q = [] \<Longrightarrow> pop_request q = Inl IndexError"
    and pop_law: "inv q \<Longrightarrow> contents q = r # rs \<Longrightarrow> \<exists>q'. pop_request q = Inr (r, q') \<and> inv q' \<and> contents q' = rs"
    and peek_law: "inv q \<Longrightarrow> peek_request q = (case contents q of [] \<Rightarrow> Inl IndexError | r # rs \<Rightarrow> Inr r)"
    and remove_law: "inv q \<Longrightarrow> same_objects (insert r (set (contents q))) \<Longrightarrow>
      (if r \<in> set (contents q) then \<exists>q'. remove_request r q = Inr q' \<and> inv q' \<and> contents q' = remove1 r (contents q)
       else remove_request r q = Inl (ValueError []))"
    and remove_all_law: "inv q \<Longrightarrow> inv (remove_requests rs q) \<and> contents (remove_requests rs q) = filter (not_in rs) (contents q)"
begin

lemma add_many:
  assumes "inv q" and "same_objects (set rs \<union> set (contents q))"
  shows "inv (fold add_request rs q) \<and> contents (fold add_request rs q) = fold place rs (contents q)"
  using assms
proof (induction rs arbitrary: q)
  case (Cons r rs)
  have "same_objects (insert r (set (contents q)))" using Cons.prems(2) by (auto simp: same_objects_def inj_on_def)
  from add_law [OF Cons.prems(1) this] Cons show ?case by (simp add: place_set)
qed simp

lemma pop_all:
  assumes "inv q"
  shows "\<exists>q'. pop_many pop_request (length (contents q)) q = Inr (contents q, q') \<and> inv q' \<and> contents q' = [] \<and>
    pop_request q' = Inl IndexError"
  using assms
proof (induction "contents q" arbitrary: q)
  case Nil
  with pop_empty show ?case by (metis list.size(3) pop_many.simps(1))
next
  case (Cons r rs)
  from pop_law [OF Cons.prems Cons.hyps(2) [symmetric]] obtain q1 where
    q1: "pop_request q = Inr (r, q1)" "inv q1" "contents q1 = rs" by blast
  from Cons.hyps(1) [OF q1(3) [symmetric] q1(2)] q1 show ?case by (auto simp: Cons.hyps(2) [symmetric])
qed

text \<open>Requests leave an emptied queue in the order the policy placed them.\<close>

lemma serve_all:
  assumes "inv q" and "contents q = []" and "same_objects (set rs)" and "length (fold place rs []) = length rs"
  shows "\<exists>q'. pop_many pop_request (length rs) (fold add_request rs q) = Inr (fold place rs [], q') \<and>
    contents q' = [] \<and> pop_request q' = Inl IndexError"
  using add_many [OF assms(1), of rs] assms(2-4) pop_all [of "fold add_request rs q"] by auto

end

lemma py_remove_remove1:
  "same_objects (insert r (set xs)) \<Longrightarrow>
     py_remove r xs = (if r \<in> set xs then Inr (remove1 r xs) else Inl (ValueError []))"
proof (induction xs)
  case (Cons x xs)
  have "same_objects (insert r (set xs))" using Cons.prems by (auto simp: same_objects_def inj_on_def)
  moreover have "py_id r = py_id x \<longleftrightarrow> r = x" using Cons.prems by (auto simp: same_objects_def inj_on_def)
  ultimately show ?case using Cons.IH by auto
qed simp

lemma same_objects_subset: "same_objects A \<Longrightarrow> B \<subseteq> A \<Longrightarrow> same_objects B"
  by (auto simp: same_objects_def intro: inj_on_subset)

interpretation fcfs: request_queue "\<lambda>q. same_objects (set q)" "\<lambda>q. q" "\<lambda>r rs. rs @ [r]" fcfs_add_request fcfs_pop_request
    fcfs_peek_request fcfs_remove_request fcfs_remove_requests
proof
  fix q r assume "same_objects (set q)" "same_objects (insert r (set q))"
  then show "if r \<in> set q then \<exists>q'. fcfs_remove_request r q = Inr q' \<and> same_objects (set q') \<and> q' = remove1 r q
      else fcfs_remove_request r q = Inl (ValueError [])"
    using same_objects_subset [OF _ set_remove1_subset [of r q]] by (simp add: fcfs_remove_request_def py_remove_remove1)
qed (auto simp: fcfs_add_request_def fcfs_pop_request_def fcfs_peek_request_def fcfs_remove_requests_def
    elim: same_objects_subset split: list.splits)

section \<open>The priority queue meets the contract\<close>

lemma mset_sorted_requests [simp]: "mset (sorted_requests q) = mset q"
  and set_sorted_requests [simp]: "set (sorted_requests q) = set q"
  and length_sorted_requests [simp]: "length (sorted_requests q) = length q"
  and sorted_sorted_requests: "sorted (map sort_key_of (sorted_requests q))"
  and sorted_requests_Nil_iff: "sorted_requests q = [] \<longleftrightarrow> q = []"
proof -
  show "mset (sorted_requests q) = mset q" "set (sorted_requests q) = set q" "length (sorted_requests q) = length q"
    "sorted (map sort_key_of (sorted_requests q))"
    by (simp_all add: sorted_requests_def)
  then show "sorted_requests q = [] \<longleftrightarrow> q = []" by (metis length_0_conv)
qed

lemma prio_add_ok:
  assumes "prio_inv q" and "same_objects (insert r (set q))"
  shows "prio_inv (prio_add_request r q)"
    and "sorted_requests (prio_add_request r q) = insort_key sort_key_of r (sorted_requests q)"
proof -
  have m: "mset (prio_add_request r q) = mset (r # q)" "rh.heap_from 0 (prio_add_request r q)"
    using rh.heappush_ok assms(1) by (simp_all add: prio_add_request_def)
  then show "prio_inv (prio_add_request r q)" using assms(2) by (metis list.simps(15) set_mset_mset)
  show "sorted_requests (prio_add_request r q) = insort_key sort_key_of r (sorted_requests q)"
    using sorted_requests_cong [OF m(1)] assms(2) by (simp add: sorted_requests_def)
qed

lemma prio_pop_ok:
  assumes "prio_inv q" and "q \<noteq> []"
  shows "\<exists>q'. heappop request_lt q = Some (q ! 0, q') \<and> prio_inv q' \<and> sorted_requests q = q ! 0 # sorted_requests q' \<and>
    length q = Suc (length q')"
proof -
  from rh.heappop_ok [OF conjunct1 [OF assms(1)] assms(2)] obtain q' where
    q': "heappop request_lt q = Some (q ! 0, q')" "rh.heap_from 0 q'" "mset q = add_mset (q ! 0) (mset q')" by blast
  have sub: "set q' \<subseteq> set q" by (metis q'(3) set_mset_add_mset_insert set_mset_mset subset_insertI)
  have "sort_key_of (q ! 0) \<le> sort_key_of x" if "x \<in> set q'" for x
    using that sub rh.heap_root_least [OF conjunct1 [OF assms(1)]] by (metis in_set_conv_nth subsetD)
  then have "sorted_requests q = q ! 0 # sorted_requests q'"
    by (intro sorted_requests_unique) (use q'(3) assms(1) sorted_sorted_requests [of q'] in auto)
  moreover have "length q = Suc (length q')" by (metis q'(3) size_add_mset size_mset)
  ultimately show ?thesis using q'(1,2) sub assms(1) same_objects_subset by blast
qed

text \<open>Rebuilding the heap over a part of the requests\<close>

lemma heapify_part:
  assumes "same_objects (set q)" and "set xs \<subseteq> set q" and "mset ys = mset xs" and "sorted (map sort_key_of ys)"
  shows "prio_inv (heapify request_lt xs)" and "sorted_requests (heapify request_lt xs) = ys"
proof -
  have m: "mset (heapify request_lt xs) = mset xs" "rh.heap_from 0 (heapify request_lt xs)"
    using rh.heapify_ok [of xs] by simp_all
  have s: "same_objects (set (heapify request_lt xs))"
    using same_objects_subset [OF assms(1,2)] m(1) by (metis set_mset_mset)
  with m(2) show "prio_inv (heapify request_lt xs)" by simp
  show "sorted_requests (heapify request_lt xs) = ys"
    by (rule sorted_requests_unique) (use m(1) assms(3,4) s in simp_all)
qed

interpretation prio: request_queue prio_inv sorted_requests "insort_key sort_key_of" prio_add_request prio_pop_request
    prio_peek_request prio_remove_request prio_remove_requests
proof
  fix q assume q: "prio_inv q"
  show "same_objects (set (sorted_requests q))" using q by simp
  show "prio_inv (prio_add_request r q) \<and> sorted_requests (prio_add_request r q) = insort_key sort_key_of r (sorted_requests q)"
    if "same_objects (insert r (set (sorted_requests q)))" for r
    using prio_add_ok [OF q] that by simp
  show "prio_pop_request q = Inl IndexError" if "sorted_requests q = []"
    using that by (simp add: prio_pop_request_def sorted_requests_Nil_iff)
  show "\<exists>q'. prio_pop_request q = Inr (r, q') \<and> prio_inv q' \<and> sorted_requests q' = rs" if "sorted_requests q = r # rs" for r rs
  proof -
    have "q \<noteq> []" using that sorted_requests_Nil_iff [of q] by simp
    with prio_pop_ok [OF q this] that show ?thesis by (auto simp: prio_pop_request_def)
  qed
  show "prio_peek_request q = (case sorted_requests q of [] \<Rightarrow> Inl IndexError | r # rs \<Rightarrow> Inr r)"
  proof (cases "q = []")
    case False
    from prio_pop_ok [OF q False] False show ?thesis by (auto simp: prio_peek_request_def)
  qed (simp add: prio_peek_request_def sorted_requests_def)
  show "if r \<in> set (sorted_requests q)
      then \<exists>q'. prio_remove_request r q = Inr q' \<and> prio_inv q' \<and> sorted_requests q' = remove1 r (sorted_requests q)
      else prio_remove_request r q = Inl (ValueError [])" if "same_objects (insert r (set (sorted_requests q)))" for r
  proof -
    have "mset (remove1 r (sorted_requests q)) = mset (remove1 r q)" by simp
    from heapify_part [OF conjunct2 [OF q] set_remove1_subset this sorted_map_remove1 [OF sorted_sorted_requests]] that
    show ?thesis by (simp add: prio_remove_request_def py_remove_remove1)
  qed
  show "prio_inv (prio_remove_requests rs q) \<and> sorted_requests (prio_remove_requests rs q) = filter (not_in rs) (sorted_requests q)" for rs
  proof -
    have "mset (filter (not_in rs) (sorted_requests q)) = mset (filter (not_in rs) q)" by simp
    from heapify_part [OF conjunct2 [OF q] filter_is_subset this sorted_filter [OF sorted_sorted_requests]]
    show ?thesis by (simp add: prio_remove_requests_def)
  qed
qed (simp add: set_insort_key)

lemma prio_iter_loop_sorted: "prio_inv q \<Longrightarrow> length q \<le> fuel \<Longrightarrow> prio_iter_loop fuel q = Some (sorted_requests q)"
proof (induction fuel arbitrary: q)
  case (Suc fuel)
  show ?case
  proof (cases q)
    case (Cons x xs)
    with prio_pop_ok [OF Suc.prems(1)] Suc show ?thesis by auto
  qed (simp add: sorted_requests_def)
qed (simp add: sorted_requests_def)

lemma fold_snoc: "fold (\<lambda>r rs. rs @ [r]) xs ys = ys @ xs"
  by (induction xs arbitrary: ys) simp_all

lemma sorted_requests_wrt: "sorted_wrt (\<lambda>a b. \<not> request_lt b a) (sorted_requests q)"
  using sorted_sorted_requests [of q] by (simp add: sorted_wrt_map request_lt_key not_less)

section \<open>Properties\<close>

text \<open>A sample queue: three requests, two of the same priority\<close>

definition sample_waiting :: "nat \<Rightarrow> int \<Rightarrow> rat \<Rightarrow> Request" where
  "sample_waiting n p t = \<lparr>py_id = n, request_id = ''r'', priority = p, arrival_time = t, status = WAITING, mm_features = [],
     lora_request = None, cache_salt = None, prompt_embeds = None, embeds_hashes = [], output_token_ids = [],
     all_token_ids = [], block_hashes = [], num_computed_tokens = 0,
     num_preemptions = 0, skip_reading_prefix_cache = False\<rparr>"

definition sample_queue :: "Request list" where
  "sample_queue = [sample_waiting 1 0 3, sample_waiting 2 5 0, sample_waiting 3 0 4]"

lemma sample_queue_inv: "prio_inv sample_queue"
proof
  show "rh.heap_from 0 sample_queue"
    unfolding rh.heap_from_def
  proof (intro allI impI)
    fix i assume i: "0 < i \<and> i < length sample_queue \<and> 0 \<le> parent i"
    then have "i = 1 \<or> i = 2" by (auto simp: sample_queue_def)
    then show "sort_key_of (sample_queue ! parent i) \<le> sort_key_of (sample_queue ! i)"
      by (auto simp: sample_queue_def sample_waiting_def sort_key_of_def)
  qed
  show "same_objects (set sample_queue)" by (simp add: same_objects_def sample_queue_def sample_waiting_def)
qed

text \<open>
  C35: The priority queue refines the list of its requests in the order of \<open>Request.__lt__\<close>:
  every operation keeps the heap; adding inserts in order, popping and peeking give the first, an empty
  queue raises, removing takes out just the given objects or raises, and iterating over the queue ends
  and lists the requests in order.
\<close>

theorem priority_queue_refines:
  assumes "prio_inv q" and "same_objects (insert r (set q))"
  shows "prio_inv (prio_add_request r q) \<and>
      sorted_requests (prio_add_request r q) = insort_key sort_key_of r (sorted_requests q) \<and>
    (case sorted_requests q of
       [] \<Rightarrow> prio_pop_request q = Inl IndexError \<and> prio_peek_request q = Inl IndexError
     | x # xs \<Rightarrow> prio_peek_request q = Inr x \<and>
         (\<exists>q'. prio_pop_request q = Inr (x, q') \<and> prio_inv q' \<and> sorted_requests q' = xs)) \<and>
    (if r \<in> set q
     then \<exists>q'. prio_remove_request r q = Inr q' \<and> prio_inv q' \<and> sorted_requests q' = remove1 r (sorted_requests q)
     else prio_remove_request r q = Inl (ValueError [])) \<and>
    prio_inv (prio_remove_requests rs q) \<and>
      sorted_requests (prio_remove_requests rs q) = filter (\<lambda>x. py_id x \<notin> py_id ` set rs) (sorted_requests q) \<and>
    prio_iter q = Some (sorted_requests q) \<and> sorted_wrt (\<lambda>a b. \<not> request_lt b a) (sorted_requests q)"
proof -
  have r: "same_objects (insert r (set (sorted_requests q)))" using assms(2) by simp
  have "not_in rs = (\<lambda>x. py_id x \<notin> py_id ` set rs)" by (simp add: fun_eq_iff not_in_def)
  moreover have "case sorted_requests q of
       [] \<Rightarrow> prio_pop_request q = Inl IndexError \<and> prio_peek_request q = Inl IndexError
     | x # xs \<Rightarrow> prio_peek_request q = Inr x \<and>
         (\<exists>q'. prio_pop_request q = Inr (x, q') \<and> prio_inv q' \<and> sorted_requests q' = xs)"
    using prio.pop_empty [OF assms(1)] prio.pop_law [OF assms(1)] prio.peek_law [OF assms(1)]
    by (simp split: list.split)
  ultimately show ?thesis
    using prio.add_law [OF assms(1) r] prio.remove_law [OF assms(1) r] prio.remove_all_law [OF assms(1), of rs]
      prio_iter_loop_sorted [OF assms(1) order_refl] sorted_requests_wrt [of q]
    by (simp add: prio_iter_def)
qed

theorem priority_queue_refines_witness:
  "prio_iter sample_queue = Some [sample_waiting 1 0 3, sample_waiting 3 0 4, sample_waiting 2 5 0] \<and>
   sorted_requests (prio_add_request (sample_waiting 4 (- 1) 9) sample_queue) =
     [sample_waiting 4 (- 1) 9, sample_waiting 1 0 3, sample_waiting 3 0 4, sample_waiting 2 5 0]"
proof -
  have "same_objects (insert (sample_waiting 4 (- 1) 9) (set sample_queue))"
    by (simp add: same_objects_def sample_queue_def sample_waiting_def)
  from priority_queue_refines [OF sample_queue_inv this, of "[]"] show ?thesis
    by (simp add: sorted_requests_def sample_queue_def sample_waiting_def sort_key_of_def)
qed

text \<open>
  Requests added to a new queue and then popped leave it each exactly once, and the next
  pop raises: the first-come-first-served queue in the order of arrival, the priority queue in the order
  of \<open>Request.__lt__\<close>, whatever the order of arrival. Prepended requests are served first by the former, in
  reverse order of the queue they come from.
\<close>

lemma waiting_order:
  assumes "same_objects (set rs)"
  shows "pop_many fcfs_pop_request (length rs) (fold fcfs_add_request rs []) = Inr (rs, []) \<and>
    pop_many prio_pop_request (length rs) (fold prio_add_request rs []) = Inr (sorted_requests rs, []) \<and>
    fcfs_pop_request [] = Inl IndexError \<and> prio_pop_request [] = Inl IndexError \<and>
    sorted_wrt (\<lambda>a b. \<not> request_lt b a) (sorted_requests rs) \<and> mset (sorted_requests rs) = mset rs \<and>
    fcfs_iter (fcfs_prepend_requests rs q) = rev rs @ q"
proof -
  have "same_objects {}" by (simp add: same_objects_def)
  moreover have "rh.heap_from 0 []" by (simp add: rh.heap_from_def)
  moreover have "fold (insort_key sort_key_of) rs [] = sorted_requests rs"
    using sorted_requests_cong [of "rev rs" rs] assms by (simp add: sorted_requests_def sort_key_def foldr_conv_fold)
  moreover have "fold fcfs_prepend_request xs ys = rev xs @ ys" for xs ys
    by (induction xs arbitrary: ys) (simp_all add: fcfs_prepend_request_def)
  ultimately show ?thesis
    using fcfs.serve_all [of "[]" rs] prio.serve_all [of "[]" rs] assms sorted_requests_wrt [of rs]
    by (auto simp: fold_snoc sorted_requests_Nil_iff fcfs_iter_def fcfs_prepend_requests_def)
qed

lemma waiting_order_example:
  "pop_many prio_pop_request 3 (fold prio_add_request (rev sample_queue) []) =
     Inr ([sample_waiting 1 0 3, sample_waiting 3 0 4, sample_waiting 2 5 0], []) \<and>
   pop_many fcfs_pop_request 3 (fold fcfs_add_request (rev sample_queue) []) = Inr (rev sample_queue, [])"
proof -
  have "same_objects (set (rev sample_queue))" using sample_queue_inv by simp
  from waiting_order [OF this] show ?thesis
    by (simp add: sorted_requests_def sample_queue_def sample_waiting_def sort_key_of_def numeral_3_eq_3)
qed

end
