(* ===== verification/Spec2Isabelle.thy ===== *)
theory Spec2Isabelle
  imports Processor_Call Prompt_Updates Rope_Correct KV_Reuse Encoder_Cache_Safety Request_Queue
begin

text \<open>
  TLive-Omni is a model over text, images, audio and video. The repository holds the model and its
  processor for the transformers package (\<open>src/tlive_omni\<close>), and a fork of vLLM that serves it
  (\<open>src/vllm\<close>): the model again, with a processor of its own
  (\<open>src/vllm/vllm/model_executor/models/tlive_omni*.py\<close>), on top of the serving engine
  (\<open>src/vllm/vllm/v1\<close>).

  \<^bold>\<open>How the parts interact.\<close> A processor turns media into tensors and the prompt into tokens in
  which every media item owns a run of placeholder tokens. The encoders turn the tensors into
  embeddings, which replace the placeholders; three-dimensional rotary positions are computed from
  the tokens and the grids of the media. In the engine a request waits in a queue; when it is
  scheduled, its encoder inputs are admitted into the encoder cache and its tokens into blocks of the
  KV cache, which are found again by a hash of the prefix they end.

  \<^bold>\<open>The theories.\<close>
  \<^item> \<open>TLive_Prelude\<close>: exceptions as values (\<open>'a res\<close>, an error or a result), sequencing and
    loops of fallible code, Python's list operations. \<open>Py_Float\<close>: binary floats as rationals with
    the rounding written out. \<open>Py_Heapq\<close>: the functions of \<open>heapq\<close> the queue calls, over any
    order by a key (locale \<open>heap_order\<close>). \<open>Py_String\<close>: search and replacement of substrings,
    and the division of a text into special tokens and characters on which they act. \<open>Py_Value\<close>:
    values whose type is inspected at run time, and dictionaries.
  \<^item> \<open>TLive_Config\<close>: the constructors of the configuration objects and their defaults
    (\<open>configuration_tlive_omni.py\<close>).
  \<^item> \<open>Audio_Encoder\<close>: \<open>TLiveOmniAudioEncoder\<close> of \<open>modeling_tlive_omni.py\<close> but for its
    layers, and the number of audio tokens of a clip. The convolution of the chunks across ranks gives
    the same rows as one convolution (C1) and calls the collective operations in step on all ranks
    (C2); with \<open>n_window = 50\<close> the encoder makes from the frames of each
    clip as many rows as the processor counts for it (C3); the default window fails (C4).
  \<^item> \<open>Video_Spans\<close>: timestamps, the division of the audio of a video among its temporal grids, the
    placeholder text and the token spans, in both processors. The division is a locale
    (\<open>audio_partition\<close>) interpreted on the code's boundaries; every audio token is placed once
    (C5). For videos with known metadata both processors write the same prompt
    (C6, below, over the whole replacement function of vLLM).
  \<^item> \<open>Prompt_Expansion\<close>: \<open>replace_multimodal_special_tokens\<close>, which rewrites every media
    marker of the prompts of a batch. \<open>Prompt_Expansion_Correct\<close> shows that the repeated replacement
    of the first occurrence is one pass over the markers of the prompt (C7) and that the result
    holds one marker per row of the encoders (C8).
  \<^item> \<open>Media_Options\<close>: the helpers, the constructor, the keyword arguments of \<open>__call__\<close>, the
    replacement of the package's loaders and \<open>apply_chat_template\<close> of \<open>processing_tlive_omni.py\<close>;
    \<open>Media_Options_Correct\<close>: which options a call uses (C11), one switch for the sound of
    videos (C12), and that loaders are always put back (C13).
    \<open>Processor_Call\<close>: the whole of \<open>__call__\<close>, up to the tokenizer (\<open>prepare_call\<close>) and
    from there (\<open>finish_call\<close>, with the conversion to tensors); the inputs it returns fit the prompts it tokenized
    (C10), and so does what the audio encoder makes of them (C9, below).
  \<^item> \<open>Embedding_Merge\<close>: the scatter of the encoder outputs into the prompt in both models, with
    the modality list the vLLM model keeps between calls. Rows land at the placeholders of their modality,
    in order, when the modalities are recorded or cannot be mistaken (C14 to
    C16); a stale list swaps rows (C17).
  \<^item> \<open>Prompt_Updates\<close>: the processor of the vLLM model: lengths, field sizes, replacements,
    the raw prompt. The loop of \<open>_get_raw_input_ids\<close> may not end, so it is a partial function:
    C18 shows that it returns on well formed prompts, and exactly what,
    C19 that it does not return on a prompt with an unclosed span; replacements have the length the encoders fill
    (C20).
  \<^item> \<open>Rope_Index\<close> holds both position algorithms whole; \<open>Rope_Correct\<close> gives a reference
    definition over well formed prompts and one locale (\<open>rope_engine\<close>) for the round of a position
    loop, with the vLLM and the Hugging Face round as its two interpretations. Both compute the reference
    (C21), agree (C22), positions never decrease from span to span
    (C23); short audio overlaps its grid (\<open>short_audio_overlaps_grid\<close>).
  \<^item> \<open>Request_Model\<close>: \<open>v1/request.py\<close> and the placeholder range of \<open>multimodal/inputs.py\<close>.
    \<open>Block_Hash\<close>, \<open>Block_Hash_Correct\<close>: the keys of the prefix cache
    (\<open>v1/core/kv_cache_utils.py\<close>); incremental hashing gives the chain of block hashes (C25), equal
    hashes mean equal prefixes up to collisions of the hash function (C26), except where the code leaves
    a media item out of the key or does not tell an adapter from a cache salt (C27, C28); packed keys round trip (C29).
  \<^item> \<open>Block_Queue\<close>: the doubly linked list of free blocks in a store of block objects; it refines
    a list (C24, locale \<open>free_block_list\<close>). \<open>Block_Pool\<close>: \<open>v1/core/block_pool.py\<close>;
    \<open>Block_Pool_Correct\<close> has the invariant, \<open>Block_Pool_Safety\<close> a step relation over the pool
    and the references of its clients, with C30 and C31.
  \<^item> \<open>Cache_Hits\<close>: the search of the prefix cache, for every attention type
    (\<open>find_longest_cache_hit\<close> of \<open>v1/core/single_type_kv_cache_manager.py\<close>) and for several
    groups at once (\<open>v1/core/kv_cache_coordinator.py\<close>). \<open>Cache_Hits_Correct\<close>: without EAGLE the searches for full
    attention, sliding windows and recurrent state find the longest aligned prefix of which the attention reads cached blocks; \<open>Cache_Hybrid\<close>: the rounds of the hybrid
    coordinator end with the longest prefix all groups can use (C40, in \<open>KV_Reuse\<close>).
  \<^item> \<open>KV_Managers\<close>: the state and operations of the managers, \<open>KV_Cache\<close>: the coordinator that calls
    all of them over one pool and the \<open>KVCacheManager\<close> of the scheduler
    (\<open>v1/core/kv_cache_manager.py\<close>). \<open>KV_Managers_Correct\<close> states what a manager keeps of the pool
    and of its tables, and the contract of a call as a locale (\<open>manager_call\<close>) in which a call of all managers in
    turn is shown to keep it; \<open>KV_Contracts\<close> interprets it on \<open>free\<close>, \<open>remove_skipped_blocks\<close>,
    \<open>allocate_new_computed_blocks\<close>, \<open>allocate_new_blocks\<close> and \<open>cache_blocks\<close>.
    \<open>KV_Cache_Correct\<close> and \<open>KV_Slots\<close> put these together for \<open>allocate_slots\<close>;
    \<open>KV_Lifecycle\<close> has the step relation of the calls of a scheduler without a connector: slots for all tokens or none
    (C36), reference counts that equal the tables (C37), nothing lost when a
    request is freed (C38). \<open>KV_Reuse\<close>: \<open>get_computed_blocks\<close> returns the longest cached
    prefix (C39), for full attention of one specification and sliding windows, without EAGLE and
    context parallelism. C36 to C38 are about full, sliding window and chunked local
    attention and calls without tokens computed elsewhere; C40 is about full attention, sliding windows and
    recurrent state, without EAGLE. The definitions cover all of these, cross attention, sinks, EAGLE and external
    tokens too.
  \<^item> \<open>Encoder_Cache\<close>: \<open>v1/core/encoder_cache_manager.py\<close> and the scheduler's
    admission, allocation and release of encoder inputs (\<open>v1/core/sched/scheduler.py\<close>).
    \<open>Encoder_Cache_Correct\<close> states what the scheduler relies on as a locale
    (\<open>encoder_manager\<close>) and proves admission in it; \<open>Encoder_Cache_Safety\<close> interprets it on both
    managers and has the step relation and C32 to C34.
  \<^item> \<open>Request_Queue\<close>: \<open>v1/core/sched/request_queue.py\<close>; both queues interpret the locale
    \<open>request_queue\<close> (C35, \<open>waiting_order\<close>).

  \<^bold>\<open>Conventions.\<close> Tensors are lists of rows; what happens inside a row (convolutions,
  attention, embedding tables), the tokenizer, the hash functions and the transformers
  package are arguments of the definitions. Token ids and counters are Python's integers, bytes are
  8-bit words, hash keys lists of them. Object identity is a field (\<open>py_id\<close>, block references), and
  shared block objects live in a store. A set iterated by the code is an argument that lists it in some
  order. Loops that may not end are partial functions with values in an option
  type (\<open>_get_raw_input_ids\<close>, the block hasher, the walk along the free blocks); fuel is used only for the iteration of the priority queue
  (the number of its elements is enough, C35).

  \<^bold>\<open>Not modelled.\<close> The decoding of media files, the version checks and imports, and the lock
  around the replaced loaders; the forward pass of the text model; the rest of vLLM (workers, kernels,
  the token budget loop of the scheduler, connectors, API
  servers), which is the framework the model plugs into; the example scripts, which only call the public
  entry points.
\<close>

section \<open>The two processors write the same video\<close>

text \<open>Both copies of the timestamp computation\<close>

lemma metadata_timestamps_eq:
  "metadata_timestamps indices rate tps =
     rbind (calculate_timestamps indices rate tps False) (\<lambda>(ts, _). Inr ts)"
  by (simp add: metadata_timestamps_def calculate_timestamps_def Let_def rbind_assoc)

lemma concat_concat_map: "concat (concat (map f xs)) = concat (map (\<lambda>x. concat (f x)) xs)"
  by (induction xs) simp_all

text \<open>The text of a span after the placeholders are put back, and the text of its tokens\<close>

lemma restored_span:
  assumes tk: "markers_ok tk"
    and decode: "decode (vision_start_token_id cfg) = vision_bos_token tk" "decode (vision_end_token_id cfg) = vision_eos_token tk"
      "decode (audio_start_token_id cfg) = audio_bos_token tk" "decode (audio_end_token_id cfg) = audio_eos_token tk"
      "decode (video_token_id cfg) = video_token tk" "decode (audio_token_id cfg) = audio_token tk"
    and texts: "\<And>t. concat (map decode (encode (timestamp_text t))) = timestamp_text t"
  shows "concat (map (restored tk) (span_marks tk True nv na time)) =
    concat (map decode (av_span cfg (vision_start_token_id cfg) (vision_end_token_id cfg) encode nv na time))"
proof -
  have "restored tk (timestamp_text time) = timestamp_text time"
    using marker_not_timestamp(1) placeholder_markers by (simp add: restored_def)
  moreover have "restored tk x = x"
    if "x \<in> {vision_bos_token tk, vision_eos_token tk, audio_bos_token tk, audio_eos_token tk}" for x
    using tk that by (auto simp: restored_def markers_ok_def)
  moreover have "restored tk video_placeholder = video_token tk" "restored tk audio_placeholder = audio_token tk"
    by (simp_all add: restored_def)
  ultimately show ?thesis by (simp add: span_marks_def av_span_def texts decode)
qed

lemma placeholder_spans:
  assumes "m \<noteq> 0" and "grid_timestamps meta tps (nat t) = Inr ts"
  shows "generate_video_placeholder tk m tps (t, h, w) meta True audio_len s per_seconds =
    Inr (concat (concat (map (\<lambda>i. span_marks tk True ((h div m) * (w div m))
      (audio_boundaries (nat t) s per_seconds audio_len ! Suc i - audio_boundaries (nat t) s per_seconds audio_len ! i)
      (grid_time ts i)) [0..<nat t])))"
  using assms
  by (simp add: generate_video_placeholder_def Let_def hf_audio_boundaries_eq video_audio_parts_def)
    (rule concat_marks, simp add: span_marks_def str_repeat_concat hf_current_time_eq)

lemma restored_placeholder:
  assumes "markers_ok tk"
  shows "restore_markers tk (concat (concat (map (\<lambda>i. span_marks tk True nv (na i) (time i)) is))) =
    concat (map (\<lambda>i. concat (map (restored tk) (span_marks tk True nv (na i) (time i)))) is)"
proof -
  let ?ms = "concat (map (\<lambda>i. span_marks tk True nv (na i) (time i)) is)"
  have "list_all mark ?ms" using span_marks_ok(1) [OF assms] by (auto simp: list_all_iff)
  then have "restore_markers tk (concat ?ms) = concat (map (restored tk) ?ms)"
    by (simp add: restore_markers_lex(1) [OF assms] marks_lexemes)
  then show ?thesis by (simp add: map_concat comp_def concat_concat_map)
qed

text \<open>
  C6: The two processors write the same video. For a video with sound whose metadata names its frames
  and its frame rate, and for the same grid, audio length, seconds per grid and a merge size other than
  zero, the text that the Hugging Face processor puts into the prompt (its placeholders turned back into
  the media tokens) is the text of the token sequence that vLLM inserts, and one fails exactly when the
  other does, with the same error. The tokenizer decodes each special id to its token and an encoded
  timestamp to itself. (Without metadata the two differ: the one numbers the grids, the other uses the
  middle of each grid.)
\<close>

theorem placeholder_text_agrees:
  assumes tk: "markers_ok tk"
    and decode: "decode (vision_start_token_id cfg) = vision_bos_token tk" "decode (vision_end_token_id cfg) = vision_eos_token tk"
      "decode (audio_start_token_id cfg) = audio_bos_token tk" "decode (audio_end_token_id cfg) = audio_eos_token tk"
      "decode (video_token_id cfg) = video_token tk" "decode (audio_token_id cfg) = audio_token tk"
    and texts: "\<And>t. concat (map decode (encode (timestamp_text t))) = timestamp_text t"
    and m: "m \<noteq> 0"
    and audio: "audio_in_video_item_idx counters < length lens"
    and item: "i < length video_grids" "i < length seconds" "i < length mds"
    and meta: "mds ! i = (Some (frames_indices md), fps md)"
  shows "map_sum id (restore_markers tk)
      (generate_video_placeholder tk m tps (video_grids ! i) (Some md) True (lens ! audio_in_video_item_idx counters)
        (seconds ! i) (position_id_per_seconds cfg)) =
    map_sum id (\<lambda>U. concat (map decode U))
      (fst (get_replacement_use_audio_in_video cfg (vision_start_token_id cfg) (vision_end_token_id cfg) m encode
        lens video_grids (Some seconds) kwargs_seconds (Some mds) data_timestamps tps i counters))"
proof -
  obtain t h w where thw: "video_grids ! i = (t, h, w)" by (cases "video_grids ! i")
  let ?n = "lens ! audio_in_video_item_idx counters" and ?s = "seconds ! i"
  have vllm: "fst (get_replacement_use_audio_in_video cfg (vision_start_token_id cfg) (vision_end_token_id cfg) m encode
      lens video_grids (Some seconds) kwargs_seconds (Some mds) data_timestamps tps i counters) =
    rbind (metadata_timestamps (frames_indices md) (fps md) tps) (\<lambda>ts.
      get_updates_use_audio_in_video cfg (vision_start_token_id cfg) (vision_end_token_id cfg) m encode ?n (t, h, w) ?s (Some ts))"
    by (simp add: get_replacement_use_audio_in_video_def py_nth_of_nat audio item Let_def Prompt_Updates.video_second_per_grid_def
        av_timestamps_def meta thw rbind_assoc)
  show ?thesis
  proof (cases "calculate_timestamps (frames_indices md) (fps md) tps False")
    case (Inl e)
    then show ?thesis
      using m by (simp add: vllm metadata_timestamps_eq thw generate_video_placeholder_def grid_timestamps_def)
  next
    case (Inr r)
    then obtain ts where ts: "grid_timestamps (Some md) tps (nat t) = Inr ts"
      "metadata_timestamps (frames_indices md) (fps md) tps = Inr ts"
      by (cases r) (simp add: grid_timestamps_def metadata_timestamps_eq)
    show ?thesis
      unfolding vllm thw placeholder_spans [OF m ts(1)] map_sum.simps restored_placeholder [OF tk]
        restored_span [OF tk decode texts]
      by (simp add: ts get_updates_use_audio_in_video_def m Let_def map_concat comp_def concat_concat_map)
  qed
qed

theorem placeholder_text_agrees_witness:
  "map_sum id (restore_markers demo_tokens)
     (generate_video_placeholder demo_tokens 2 2 (2, 4, 4) (Some \<lparr>frames_indices = [0, 15, 30, 45], fps = 30\<rparr>) True 30 2 13) =
   map_sum id (\<lambda>U. concat (map demo_decode U))
     (fst (get_replacement_use_audio_in_video default_token_ids 248053 248054 2 demo_encode [30] [(2, 4, 4)] (Some [2]) []
       (Some [(Some [0, 15, 30, 45], 30)]) None 2 0 \<lparr>audio_in_video_item_idx = 0, audio_item_idx = 0\<rparr>))"
proof -
  have tk: "markers_ok demo_tokens" using demo_markers_ok by (simp add: demo_processor_def)
  have decode: "demo_decode (vision_start_token_id default_token_ids) = vision_bos_token demo_tokens"
    "demo_decode (vision_end_token_id default_token_ids) = vision_eos_token demo_tokens"
    "demo_decode (audio_start_token_id default_token_ids) = audio_bos_token demo_tokens"
    "demo_decode (audio_end_token_id default_token_ids) = audio_eos_token demo_tokens"
    "demo_decode (video_token_id default_token_ids) = video_token demo_tokens"
    "demo_decode (audio_token_id default_token_ids) = audio_token demo_tokens"
    by (simp_all add: demo_decode_def demo_tokens_def default_token_ids_def)
  show ?thesis
    using placeholder_text_agrees [OF tk decode, of demo_encode 2 "\<lparr>audio_in_video_item_idx = 0, audio_item_idx = 0\<rparr>" "[30]" 0
        "[(2, 4, 4)]" "[2]" "[(Some [0, 15, 30, 45], 30)]" "\<lparr>frames_indices = [0, 15, 30, 45], fps = 30\<rparr>" 2 "[]" None]
    by (simp add: demo_decode_encode default_token_ids_def)
qed

section \<open>From the processor to the audio encoder\<close>

text \<open>
  C9: The audio encoder fills the markers the processor wrote. Whenever a call of the processor returns
  for prompts with non-empty audio, the encoder of a model with windows of 100 frames
  (\<open>n_window = 50\<close>) accepts the frames selected by the returned mask. The number of rows it computes
  before its attention layers is the number of audio markers in the prompts that the call handed to the
  tokenizer, whose ids the call returns.
\<close>

theorem audio_encoder_fills_markers:
  fixes row :: "'f list \<Rightarrow> 'e list"
  assumes call: "processor_call pk pr settings (Some t) images videos audio kwargs s = (Inr data, s')"
    and pk: "separate_outputs pk" and tokens: "markers_ok (tokens_of pr)"
    and prompts: "list_all (plain_prompt (tokens_of pr)) (prompt_list t)" "\<not> list_all (\<lambda>s. s = []) (prompt_list t)"
    and data: "input_rows ''feature_attention_mask'' data = Inr rows" "input_grids ''image_grid_thw'' data = Inr image_grids"
      "input_grids ''video_grid_thw'' data = Inr video_grids"
    and positive: "list_all (\<lambda>thw. 0 < image_seq_length pr thw) image_grids" "list_all (\<lambda>thw. 0 < fst thw) video_grids"
    and lens: "rows \<noteq> []" "list_all (\<lambda>r. 0 < sum_list r \<and> sum_list r < 2 ^ 24) rows"
    and frames: "int (length frames) = (\<Sum>r\<leftarrow>rows. sum_list r)"
    and cfg: "n_window cfg = 50" "100 \<le> n_window_infer cfg" "0 < conv_chunksize cfg"
    and conv: "\<forall>r. int (length (row r)) = stride2 (stride2 (stride2 (int (length r))))"
  shows "\<exists>c texts_inputs hidden cu.
    prepare_call pk pr settings (Some t) images videos audio kwargs s = (Inr c, s') \<and>
    tokenize pk (processed_text c) (tokenizer_kwargs c) = Inr texts_inputs \<and>
    input_rows ''input_ids'' data = input_rows ''input_ids'' texts_inputs \<and>
    audio_forward cfg (map row) zero ranks layers frames (map sum_list rows) = Inr (layers hidden cu) \<and>
    length hidden = (\<Sum>r\<leftarrow>processed_text c. count_list (lexemes r) (audio_token (tokens_of pr)))"
proof -
  let ?blocks = "map (clip_embeddings row zero (longest_window (map sum_list rows))) (split_at frames (map sum_list rows))"
  from lens(2) have pos: "list_all (\<lambda>r. 0 < sum_list r) rows" by (simp add: list_all_iff)
  from call_marker_counts [OF call pk tokens prompts data pos positive] obtain c texts_inputs where
    c: "prepare_call pk pr settings (Some t) images videos audio kwargs s = (Inr c, s')"
      "tokenize pk (processed_text c) (tokenizer_kwargs c) = Inr texts_inputs"
      "input_rows ''input_ids'' data = input_rows ''input_ids'' texts_inputs"
    and count: "(\<Sum>r\<leftarrow>processed_text c. count_list (lexemes r) (audio_token (tokens_of pr))) =
      (\<Sum>r\<leftarrow>rows. nat (get_feat_extract_output_lengths (sum_list r)))" by blast
  have "map sum_list rows \<noteq> []" "\<forall>n \<in> set (map sum_list rows). 0 < n \<and> n < 2 ^ 24" "sum_list (map sum_list rows) = int (length frames)"
    using lens frames by (auto simp: list_all_iff)
  from audio_forward_rows [OF cfg this conv, of zero ranks layers] obtain cu where
    run: "audio_forward cfg (map row) zero ranks layers frames (map sum_list rows) = Inr (layers (concat ?blocks) cu)"
    and blocks: "map (int \<circ> length) ?blocks = map get_feat_extract_output_lengths (map sum_list rows)"
    by blast
  have "int (length (concat ?blocks)) = (\<Sum>r\<leftarrow>rows. get_feat_extract_output_lengths (sum_list r))"
    using arg_cong [OF blocks, of sum_list] by (simp add: length_concat comp_assoc comp_def flip: sum_list_of_nat)
  moreover have "int (\<Sum>r\<leftarrow>rows. nat (get_feat_extract_output_lengths (sum_list r))) = (\<Sum>r\<leftarrow>rows. get_feat_extract_output_lengths (sum_list r))"
    using pos by (induction rows) (simp_all add: feat_nonneg)
  ultimately have "length (concat ?blocks) = (\<Sum>r\<leftarrow>processed_text c. count_list (lexemes r) (audio_token (tokens_of pr)))"
    using count by linarith
  with c run show ?thesis by blast
qed

theorem audio_encoder_fills_markers_witness:
  "\<exists>c s' hidden cu.
    prepare_call demo_objects demo_processor demo_settings (Some (Inl ''<|audio_pad|>b<|image_pad|>''))
      (PyStr ''file:///a.png'') PyNone (PyList []) [] demo_package = (Inr c, s') \<and>
    processed_text c = [demo_prompt] \<and>
    audio_forward (default_audio_config\<lparr>n_window := 50\<rparr>)
      (map (\<lambda>r. replicate (nat (stride2 (stride2 (stride2 (int (length r)))))) ()))
      (0::nat) [] Pair (replicate 16 7) [16] = Inr (hidden, cu) \<and>
    length hidden = count_list (lexemes demo_prompt) ''<|audio_pad|>''"
proof -
  let ?row = "\<lambda>r :: nat list. replicate (nat (stride2 (stride2 (stride2 (int (length r)))))) ()"
  have "0 \<le> stride2 n" if "0 \<le> n" for n using that by (simp add: stride2_def)
  then have conv: "\<forall>r. int (length (?row r)) = stride2 (stride2 (stride2 (int (length r))))" by simp
  have lens: "[replicate 16 1] \<noteq> ([] :: int list list)" "list_all (\<lambda>r. 0 < sum_list r \<and> sum_list r < 2 ^ 24) [replicate 16 (1 :: int)]"
    by (simp_all add: sum_list_replicate)
  have sizes: "list_all (\<lambda>thw. 0 < image_seq_length demo_processor thw) [(1, 2, 4)]" "list_all (\<lambda>thw. 0 < fst thw) ([] :: (int \<times> int \<times> int) list)"
    by (simp_all add: image_seq_length_def demo_processor_def)
  obtain s' where run: "processor_call demo_objects demo_processor demo_settings (Some (Inl ''<|audio_pad|>b<|image_pad|>''))
       (PyStr ''file:///a.png'') PyNone (PyList []) [] demo_package = (Inr demo_data, s')"
    using demo_call by blast
  have frames: "int (length (replicate 16 (7 :: nat))) = (\<Sum>r\<leftarrow>[replicate 16 1]. sum_list r)"
    by (simp add: sum_list_replicate)
  have cfg: "n_window (default_audio_config\<lparr>n_window := 50\<rparr>) = 50" "100 \<le> n_window_infer (default_audio_config\<lparr>n_window := 50\<rparr>)"
    "0 < conv_chunksize (default_audio_config\<lparr>n_window := 50\<rparr>)"
    by (simp_all add: default_audio_config_def)
  from audio_encoder_fills_markers [OF run demo_objects_separate demo_markers_ok demo_call_plain demo_call_rows sizes lens frames cfg conv, of 0 "[]" Pair]
  obtain c hidden cu where c: "prepare_call demo_objects demo_processor demo_settings (Some (Inl ''<|audio_pad|>b<|image_pad|>''))
      (PyStr ''file:///a.png'') PyNone (PyList []) [] demo_package = (Inr c, s')"
    and fwd: "audio_forward (default_audio_config\<lparr>n_window := 50\<rparr>) (map ?row) (0::nat) [] Pair (replicate 16 7) [16] = Inr (hidden, cu)"
      "length hidden = (\<Sum>r\<leftarrow>processed_text c. count_list (lexemes r) ''<|audio_pad|>'')"
    by (auto simp: demo_token_values sum_list_replicate)
  have "processed_text c = [demo_prompt]" using demo_prepared c by simp
  with c fwd show ?thesis by auto
qed

end
